(* ===== verification/ContentCache.thy ===== *)
theory ContentCache imports Prelude begin

text \<open>
  \<open>frontend/lib/files/contentCache.ts\<close>: the in-memory cache of saved file contents, a \<open>Map\<close> in
  insertion order with a bound on its entries and on its bytes, together with the file type it
  stores (\<open>frontend/types/file.type.ts\<close>). The module's variables \<open>files\<close> and \<open>cachedBytes\<close>
  are the two fields of the state.
\<close>

section \<open>State\<close>

record saved_file =
  content :: "string option"
  binary :: bool

record file_cache =
  files :: "(string, saved_file) omap"
  cached_bytes :: int

definition MAX_BYTES :: int where
  "MAX_BYTES = 2 * 1024 * 1024"

definition MAX_FILES :: nat where
  "MAX_FILES = 64"

definition entry_size_bytes :: "string \<Rightarrow> saved_file \<Rightarrow> int" where
  "entry_size_bytes key f =
     (int (length key) + (case content f of None \<Rightarrow> 0 | Some c \<Rightarrow> int (length c))) * 2"

section \<open>Operations\<close>

definition clear_file_content_cache :: "file_cache \<Rightarrow> file_cache" where
  "clear_file_content_cache st = st\<lparr>files := [], cached_bytes := 0\<rparr>"

definition get_cached_file :: "string \<Rightarrow> file_cache \<Rightarrow> saved_file option" where
  "get_cached_file key st = map_of (files st) key"

text \<open>Lines 21 to 25: an earlier entry of the same key is taken out first.\<close>

definition drop_previous :: "string \<Rightarrow> file_cache \<Rightarrow> file_cache" where
  "drop_previous key st =
     (case map_of (files st) key of
        None \<Rightarrow> st
      | Some previous \<Rightarrow>
          st\<lparr>cached_bytes := cached_bytes st - entry_size_bytes key previous,
             files := omap_del key (files st)\<rparr>)"

text \<open>
  The eviction loop of lines 28 to 32. With no entry left, \<open>files.entries().next().value\<close> is
  \<open>undefined\<close> and destructuring it throws.
\<close>

fun evict :: "int \<Rightarrow> (string, saved_file) omap \<Rightarrow> int \<Rightarrow> (js_error, file_cache) result" where
  "evict entry_bytes fs bytes =
     (if length fs \<ge> MAX_FILES \<or> bytes + entry_bytes > MAX_BYTES
      then (case fs of
              [] \<Rightarrow> Inl TypeError
            | (oldest_key, oldest) # rest \<Rightarrow>
                evict entry_bytes rest (bytes - entry_size_bytes oldest_key oldest))
      else Inr \<lparr>files = fs, cached_bytes = bytes\<rparr>)"

declare evict.simps [simp del]

definition cache_file :: "string \<Rightarrow> saved_file \<Rightarrow> file_cache \<Rightarrow> (js_error, file_cache) result" where
  "cache_file key f st =
     (let st1 = drop_previous key st; entry_bytes = entry_size_bytes key f in
      if entry_bytes > MAX_BYTES then Inr st1
      else bind_result (evict entry_bytes (files st1) (cached_bytes st1)) (\<lambda>st2.
        Inr (st2\<lparr>files := omap_set key f (files st2),
                 cached_bytes := cached_bytes st2 + entry_bytes\<rparr>)))"

section \<open>Invariant\<close>

definition total_bytes :: "(string, saved_file) omap \<Rightarrow> int" where
  "total_bytes fs = (\<Sum>(k, f) \<leftarrow> fs. entry_size_bytes k f)"

definition cache_inv :: "file_cache \<Rightarrow> bool" where
  "cache_inv st \<longleftrightarrow>
     distinct (keys (files st)) \<and> cached_bytes st = total_bytes (files st) \<and>
     cached_bytes st \<le> MAX_BYTES \<and> length (files st) \<le> MAX_FILES"

definition empty_cache :: file_cache where
  "empty_cache = \<lparr>files = [], cached_bytes = 0\<rparr>"

lemma entry_size_nonneg [simp]: "0 \<le> entry_size_bytes k f"
  by (simp add: entry_size_bytes_def split: option.split)

lemma total_bytes_simps [simp]:
  "total_bytes [] = 0"
  "total_bytes ((k, f) # fs) = entry_size_bytes k f + total_bytes fs"
  "total_bytes (fs @ gs) = total_bytes fs + total_bytes gs"
  by (simp_all add: total_bytes_def)

lemma total_bytes_nonneg [simp]: "0 \<le> total_bytes fs"
  by (induction fs) auto

lemma total_bytes_del:
  "distinct (keys fs) \<Longrightarrow> map_of fs k = Some f \<Longrightarrow>
   total_bytes (omap_del k fs) = total_bytes fs - entry_size_bytes k f"
proof (induction fs)
  case (Cons e fs)
  obtain k' f' where e: "e = (k', f')" by (cases e)
  show ?case
  proof (cases "k' = k")
    case True
    with Cons.prems e have "k \<notin> set (keys fs)" and "f' = f" by auto
    then have "omap_del k fs = fs" by (intro omap_del_fresh)
    with True e \<open>f' = f\<close> show ?thesis by (simp add: omap_del_def)
  next
    case False
    with Cons e show ?thesis by (auto simp: omap_del_def)
  qed
qed simp

lemma evict_stop:
  "length fs < MAX_FILES \<Longrightarrow> bytes + entry_bytes \<le> MAX_BYTES \<Longrightarrow>
   evict entry_bytes fs bytes = Inr \<lparr>files = fs, cached_bytes = bytes\<rparr>"
  by (simp add: evict.simps [of entry_bytes fs])

lemma evict_step:
  "length (e # fs) \<ge> MAX_FILES \<or> bytes + entry_bytes > MAX_BYTES \<Longrightarrow>
   evict entry_bytes (e # fs) bytes = evict entry_bytes fs (bytes - entry_size_bytes (fst e) (snd e))"
  by (simp add: evict.simps [of entry_bytes "e # fs"] split: prod.split)

text \<open>The loop stops with a suffix of the entries, as soon as the new entry fits.\<close>

lemma evict_result:
  assumes "bytes = total_bytes fs" and "entry_bytes \<le> MAX_BYTES"
  shows "\<exists>n. evict entry_bytes fs bytes =
           Inr \<lparr>files = drop n fs, cached_bytes = total_bytes (drop n fs)\<rparr> \<and>
         length (drop n fs) < MAX_FILES \<and> total_bytes (drop n fs) + entry_bytes \<le> MAX_BYTES \<and>
         (\<forall>m < n. length (drop m fs) \<ge> MAX_FILES \<or>
                   total_bytes (drop m fs) + entry_bytes > MAX_BYTES)"
  using assms
proof (induction fs arbitrary: bytes)
  case Nil
  then show ?case by (auto simp: evict_stop MAX_FILES_def)
next
  case (Cons e fs)
  obtain k f where e: "e = (k, f)" by (cases e)
  show ?case
  proof (cases "length (e # fs) \<ge> MAX_FILES \<or> bytes + entry_bytes > MAX_BYTES")
    case True
    have "bytes - entry_size_bytes k f = total_bytes fs"
      using Cons.prems(1) e by simp
    from Cons.IH [OF this Cons.prems(2)] obtain n where n:
      "evict entry_bytes fs (bytes - entry_size_bytes k f) =
         Inr \<lparr>files = drop n fs, cached_bytes = total_bytes (drop n fs)\<rparr>"
      "length (drop n fs) < MAX_FILES" "total_bytes (drop n fs) + entry_bytes \<le> MAX_BYTES"
      "\<forall>m < n. length (drop m fs) \<ge> MAX_FILES \<or> total_bytes (drop m fs) + entry_bytes > MAX_BYTES"
      by blast
    show ?thesis
      using True n Cons.prems(1) e
      by (intro exI [of _ "Suc n"])
        (auto simp: evict_step less_Suc_eq_0_disj)
  next
    case False
    then show ?thesis
      using Cons.prems(1)
      by (intro exI [of _ 0]) (auto simp: evict_stop not_le not_less)
  qed
qed

lemma drop_previous_facts:
  assumes "cache_inv st"
  shows "cache_inv (drop_previous key st)"
    and "key \<notin> set (keys (files (drop_previous key st)))"
    and "k \<noteq> key \<Longrightarrow> map_of (files (drop_previous key st)) k = map_of (files st) k"
proof -
  show "cache_inv (drop_previous key st)"
  proof (cases "map_of (files st) key")
    case None
    with assms show ?thesis by (simp add: drop_previous_def)
  next
    case (Some f)
    have "length (omap_del key (files st)) \<le> length (files st)"
      by (simp add: omap_del_def)
    moreover have "total_bytes (files st) - entry_size_bytes key f \<le> MAX_BYTES"
      using assms entry_size_nonneg [of key f] unfolding cache_inv_def by linarith
    ultimately show ?thesis
      using Some assms
      by (auto simp: drop_previous_def cache_inv_def total_bytes_del distinct_omap_del)
  qed
  show "key \<notin> set (keys (files (drop_previous key st)))"
    by (auto simp: drop_previous_def omap_del_def map_of_eq_None_iff split: option.split)
  show "k \<noteq> key \<Longrightarrow> map_of (files (drop_previous key st)) k = map_of (files st) k"
    by (simp add: drop_previous_def map_of_omap_del split: option.split)
qed

text \<open>One call of \<open>cacheFile\<close> in closed form: some oldest entries go, the new one is last.\<close>

lemma cache_file_result:
  assumes inv: "cache_inv st" and fits: "entry_size_bytes key f \<le> MAX_BYTES"
  shows "\<exists>n. cache_file key f st =
           Inr \<lparr>files = drop n (files (drop_previous key st)) @ [(key, f)],
                cached_bytes = total_bytes (drop n (files (drop_previous key st))) +
                               entry_size_bytes key f\<rparr> \<and>
         length (drop n (files (drop_previous key st))) < MAX_FILES \<and>
         total_bytes (drop n (files (drop_previous key st))) + entry_size_bytes key f \<le> MAX_BYTES"
proof -
  let ?st1 = "drop_previous key st"
  from drop_previous_facts(1) [OF inv] have bytes: "cached_bytes ?st1 = total_bytes (files ?st1)"
    by (simp add: cache_inv_def)
  from evict_result [OF bytes fits] obtain n where n:
    "evict (entry_size_bytes key f) (files ?st1) (cached_bytes ?st1) =
       Inr \<lparr>files = drop n (files ?st1), cached_bytes = total_bytes (drop n (files ?st1))\<rparr>"
    "length (drop n (files ?st1)) < MAX_FILES"
    "total_bytes (drop n (files ?st1)) + entry_size_bytes key f \<le> MAX_BYTES"
    by blast
  have "key \<notin> set (keys (drop n (files ?st1)))"
    using drop_previous_facts(2) [OF inv] by (auto dest: in_set_dropD)
  with n fits show ?thesis
    by (intro exI [of _ n]) (simp add: cache_file_def omap_set_fresh Let_def)
qed

lemma cache_file_too_large:
  "MAX_BYTES < entry_size_bytes key f \<Longrightarrow> cache_file key f st = Inr (drop_previous key st)"
  by (simp add: cache_file_def)

lemma cache_inv_empty [keep_inv]: "cache_inv empty_cache"
  by (simp add: cache_inv_def empty_cache_def MAX_BYTES_def)

lemma cache_inv_clear [keep_inv]: "cache_inv (clear_file_content_cache st)"
  by (simp add: cache_inv_def clear_file_content_cache_def MAX_BYTES_def)

lemma cache_file_inv [keep_inv]:
  assumes inv: "cache_inv st" and ok: "cache_file key f st = Inr st'"
  shows "cache_inv st'"
proof (cases "entry_size_bytes key f \<le> MAX_BYTES")
  case True
  from cache_file_result [OF inv True] ok obtain n where n:
    "st' = \<lparr>files = drop n (files (drop_previous key st)) @ [(key, f)],
            cached_bytes = total_bytes (drop n (files (drop_previous key st))) +
                           entry_size_bytes key f\<rparr>"
    "length (drop n (files (drop_previous key st))) < MAX_FILES"
    "total_bytes (drop n (files (drop_previous key st))) + entry_size_bytes key f \<le> MAX_BYTES"
    by auto
  have "distinct (keys (files (drop_previous key st)))"
    using drop_previous_facts(1) [OF inv] by (simp add: cache_inv_def)
  moreover have "key \<notin> set (keys (drop n (files (drop_previous key st))))"
    using drop_previous_facts(2) [OF inv] by (auto dest: in_set_dropD)
  ultimately show ?thesis
    using n by (simp add: cache_inv_def drop_map [symmetric])
next
  case False
  with ok have "st' = drop_previous key st" by (simp add: cache_file_too_large)
  with drop_previous_facts(1) [OF inv] show ?thesis by simp
qed

section \<open>The contract of the cache\<close>

text \<open>
  What the file viewer relies on: a lookup never answers with anything but what was last stored
  under that very key, and an entry may vanish at any time. Revision identifiers are part of the
  key and a saved revision never changes, so a hit agrees with the server.
\<close>

locale reply_cache =
  fixes look :: "'s \<Rightarrow> 'k \<Rightarrow> 'v option"
    and put :: "'k \<Rightarrow> 'v \<Rightarrow> 's \<Rightarrow> 's"
    and wipe :: "'s \<Rightarrow> 's"
    and sound :: "'s \<Rightarrow> bool"
  assumes look_put_same: "sound s \<Longrightarrow> look (put k v s) k \<in> {None, Some v}"
    and look_put_other: "sound s \<Longrightarrow> k' \<noteq> k \<Longrightarrow> look (put k v s) k' \<in> {None, look s k'}"
    and look_wipe: "look (wipe s) k = None"
    and sound_put: "sound s \<Longrightarrow> sound (put k v s)"
    and sound_wipe: "sound (wipe s)"
begin

definition agrees :: "('k \<Rightarrow> 'v) \<Rightarrow> 's \<Rightarrow> bool" where
  "agrees server s \<longleftrightarrow> sound s \<and> (\<forall>k v. look s k = Some v \<longrightarrow> v = server k)"

lemma agrees_wipe: "agrees server (wipe s)"
  by (simp add: agrees_def look_wipe sound_wipe)

lemma agrees_put: "agrees server s \<Longrightarrow> agrees server (put k (server k) s)"
  unfolding agrees_def
proof (intro conjI allI impI)
  fix k' v
  assume ag: "sound s \<and> (\<forall>k v. look s k = Some v \<longrightarrow> v = server k)"
    and hit: "look (put k (server k) s) k' = Some v"
  show "v = server k'"
  proof (cases "k' = k")
    case True
    with look_put_same [of s k "server k"] ag hit show ?thesis by auto
  next
    case False
    with look_put_other [of s k' k "server k"] ag hit show ?thesis by auto
  qed
qed (simp add: sound_put)

lemma agrees_puts: "agrees server s \<Longrightarrow> agrees server (fold (\<lambda>k. put k (server k)) ks s)"
  by (induction ks arbitrary: s) (auto intro: agrees_put)

end

definition cache_put :: "string \<Rightarrow> saved_file \<Rightarrow> file_cache \<Rightarrow> file_cache" where
  "cache_put key f st = (case cache_file key f st of Inl _ \<Rightarrow> st | Inr st' \<Rightarrow> st')"

lemma cache_file_total:
  assumes "cache_inv st"
  shows "cache_file key f st = Inr (cache_put key f st)"
proof (cases "entry_size_bytes key f \<le> MAX_BYTES")
  case True
  from cache_file_result [OF assms True] show ?thesis by (auto simp: cache_put_def)
next
  case False
  then show ?thesis by (simp add: cache_put_def cache_file_too_large)
qed

lemma cache_put_lookup:
  assumes inv: "cache_inv st"
  shows "get_cached_file key (cache_put key f st) =
           (if entry_size_bytes key f \<le> MAX_BYTES then Some f else None)"
    and "k \<noteq> key \<Longrightarrow> get_cached_file k (cache_put key f st) \<in> {None, get_cached_file k st}"
proof -
  note dp = drop_previous_facts(1,2) [OF inv, of key] drop_previous_facts(3) [OF inv]
  have fresh: "map_of (files (drop_previous key st)) key = None"
    using dp(2) by (simp add: map_of_eq_None_iff)
  have big: "cache_put key f st = drop_previous key st" if "\<not> entry_size_bytes key f \<le> MAX_BYTES"
    using that by (simp add: cache_put_def cache_file_too_large)
  have fit: "\<exists>n. files (cache_put key f st) = drop n (files (drop_previous key st)) @ [(key, f)]"
    if "entry_size_bytes key f \<le> MAX_BYTES"
    using cache_file_result [OF inv that] by (auto simp: cache_put_def)
  have part: "map_of (drop n fs) k \<in> {None, map_of fs k}" if "distinct (keys fs)"
    for n k and fs :: "(string, saved_file) omap"
  proof (cases "map_of (drop n fs) k")
    case (Some v)
    then have "(k, v) \<in> set fs" by (auto dest: map_of_SomeD in_set_dropD)
    with that Some show ?thesis by simp
  qed simp
  have dist: "distinct (keys (files (drop_previous key st)))"
    using dp(1) by (simp add: cache_inv_def)
  show "get_cached_file key (cache_put key f st) =
          (if entry_size_bytes key f \<le> MAX_BYTES then Some f else None)"
  proof (cases "entry_size_bytes key f \<le> MAX_BYTES")
    case True
    from fit [OF True] obtain n where
      n: "files (cache_put key f st) = drop n (files (drop_previous key st)) @ [(key, f)]" ..
    have "map_of (drop n (files (drop_previous key st))) key = None"
      using part [OF dist, of n key] fresh by auto
    with n True show ?thesis by (simp add: get_cached_file_def map_add_def)
  next
    case False
    with big fresh show ?thesis by (simp add: get_cached_file_def)
  qed
  assume ne: "k \<noteq> key"
  show "get_cached_file k (cache_put key f st) \<in> {None, get_cached_file k st}"
  proof (cases "entry_size_bytes key f \<le> MAX_BYTES")
    case True
    from fit [OF True] obtain n where
      n: "files (cache_put key f st) = drop n (files (drop_previous key st)) @ [(key, f)]" ..
    with part [OF dist, of n k] ne dp(3) [OF ne] show ?thesis
      by (auto simp: get_cached_file_def map_add_def split: option.split)
  next
    case False
    with big dp(3) [OF ne] show ?thesis by (simp add: get_cached_file_def)
  qed
qed

interpretation contents: reply_cache "\<lambda>st k. get_cached_file k st" cache_put
  clear_file_content_cache cache_inv
proof unfold_locales
  show "get_cached_file k (clear_file_content_cache s) = None" for s k
    by (simp add: get_cached_file_def clear_file_content_cache_def)
  show "cache_inv (cache_put k v s)" if "cache_inv s" for s k v
    using cache_file_inv [OF that cache_file_total [OF that]] .
qed (auto simp: cache_put_lookup keep_inv dest: cache_put_lookup(2))

section \<open>Properties\<close>

text \<open>
  C22: \<open>cacheFile\<close> never throws on a cache its own operations produced: the eviction loop ends
  before the map is empty. The cache stays within 64 entries and 2 MiB, the stored file can be
  read back unless it alone exceeds the byte bound (then any older entry of its key is gone),
  and every other key answers as before or not at all.
\<close>

theorem cache_file_spec:
  assumes "cache_inv st"
  shows "\<exists>st'. cache_file key f st = Inr st' \<and> cache_inv st' \<and>
    get_cached_file key st' = (if entry_size_bytes key f \<le> MAX_BYTES then Some f else None) \<and>
    (\<forall>k. k \<noteq> key \<longrightarrow> get_cached_file k st' \<in> {None, get_cached_file k st})"
  using cache_file_total [OF assms] cache_put_lookup [OF assms] contents.sound_put [OF assms]
  by blast

theorem cache_file_spec_witness:
  "\<exists>st'. cache_file ''k'' \<lparr>content = Some ''abc'', binary = False\<rparr> empty_cache = Inr st' \<and>
     cache_inv st' \<and> get_cached_file ''k'' st' = Some \<lparr>content = Some ''abc'', binary = False\<rparr>"
  using cache_file_spec [OF cache_inv_empty, of "''k''" "\<lparr>content = Some ''abc'', binary = False\<rparr>"]
  by (auto simp: entry_size_bytes_def MAX_BYTES_def)

text \<open>
  Eviction is first-in first-out and minimal. The entries after a store are a suffix of the
  entries before it (the stored key taken out), followed by the new entry, and keeping one more
  of the old entries would break one of the two bounds.
\<close>

theorem cache_file_evicts_oldest:
  assumes inv: "cache_inv st" and fits: "entry_size_bytes key f \<le> MAX_BYTES"
  shows "\<exists>n. files (cache_put key f st) = drop n (omap_del key (files st)) @ [(key, f)] \<and>
    (\<forall>m < n. length (drop m (omap_del key (files st))) \<ge> MAX_FILES \<or>
             total_bytes (drop m (omap_del key (files st))) + entry_size_bytes key f > MAX_BYTES)"
proof -
  let ?st1 = "drop_previous key st"
  have fs: "files ?st1 = omap_del key (files st)"
    by (simp add: drop_previous_def omap_del_fresh map_of_eq_None_iff split: option.split)
  have bytes: "cached_bytes ?st1 = total_bytes (files ?st1)"
    using drop_previous_facts(1) [OF inv] by (simp add: cache_inv_def)
  from evict_result [OF bytes fits] obtain n where n:
    "evict (entry_size_bytes key f) (files ?st1) (cached_bytes ?st1) =
       Inr \<lparr>files = drop n (files ?st1), cached_bytes = total_bytes (drop n (files ?st1))\<rparr>"
    "\<forall>m < n. length (drop m (files ?st1)) \<ge> MAX_FILES \<or>
       total_bytes (drop m (files ?st1)) + entry_size_bytes key f > MAX_BYTES" by blast
  have "key \<notin> set (keys (drop n (files ?st1)))"
    using drop_previous_facts(2) [OF inv] by (auto dest: in_set_dropD)
  with n fits fs show ?thesis
    by (intro exI [of _ n]) (simp add: cache_put_def cache_file_def omap_set_fresh Let_def)
qed

theorem cache_file_evicts_oldest_witness:
  "\<exists>n. files (cache_put ''b'' \<lparr>content = None, binary = True\<rparr> empty_cache) =
       drop n (omap_del ''b'' []) @ [(''b'', \<lparr>content = None, binary = True\<rparr>)]"
  using cache_file_evicts_oldest [OF cache_inv_empty, of "''b''" "\<lparr>content = None, binary = True\<rparr>"]
  by (auto simp: entry_size_bytes_def MAX_BYTES_def empty_cache_def)

end
