(* ===== verification/FileTree.thy ===== *)
theory FileTree imports Prelude "HOL-Library.Sublist" begin

text \<open>
  \<open>frontend/lib/files/tree.ts\<close>: the file explorer's tree built from a flat list of paths, and
  the syntax-highlighting language of a path. \<open>FileNode\<close> is the interface of
  \<open>frontend/types/file.type.ts\<close>; the in-place pushes of the source become a rebuilt level.
\<close>

section \<open>Building the tree\<close>

datatype file_node = FileNode (node_name: string) (node_path: string) (is_directory: bool)
  (children: "file_node list option")

text \<open>
  One path, part by part. \<open>cur\<close> is \<open>currentPath\<close>, the list is \<open>currentLevel\<close>. A part that is
  already there as a file has no \<open>children\<close>: the walk then stays on the same level.
\<close>

fun insert_parts :: "string \<Rightarrow> bool \<Rightarrow> string list \<Rightarrow> file_node list \<Rightarrow> file_node list" where
  "insert_parts cur first [] level = level"
| "insert_parts cur first (part # parts) level =
     (let cur' = cur @ (if first then [] else ''/'') @ part; is_last = (parts = []) in
      case find_index (\<lambda>n. node_name n = part) level of
        None \<Rightarrow>
          level @ [FileNode part cur' (\<not> is_last)
                     (if is_last then None else Some (insert_parts cur' False parts []))]
      | Some i \<Rightarrow>
          (case level ! i of
             FileNode nm pth d ch \<Rightarrow>
               (if is_last then level
                else (case ch of
                        Some sub \<Rightarrow> level[i := FileNode nm pth d (Some (insert_parts cur' False parts sub))]
                      | None \<Rightarrow> insert_parts cur' False parts level))))"

definition insert_path :: "string \<Rightarrow> file_node list \<Rightarrow> file_node list" where
  "insert_path file_path tree = insert_parts [] True (split_on (CHR ''/'') file_path) tree"

definition build_file_tree :: "string list \<Rightarrow> file_node list" where
  "build_file_tree files = foldl (\<lambda>tree file_path. insert_path file_path tree) [] files"

section \<open>The language of a path\<close>

definition language_map :: "(string, string) omap" where
  "language_map =
     [(''js'', ''javascript''), (''jsx'', ''javascript''), (''ts'', ''typescript''),
      (''tsx'', ''typescript''), (''json'', ''json''), (''html'', ''html''), (''css'', ''css''),
      (''scss'', ''scss''), (''py'', ''python''), (''md'', ''markdown''), (''yml'', ''yaml''),
      (''yaml'', ''yaml''), (''xml'', ''xml''), (''sh'', ''shell'')]"

text \<open>
  The table is an object literal, so a name inherited from \<open>Object.prototype\<close> is found too and
  the result is then not a string at all (\<open>Inherited\<close>).
\<close>

definition get_language_from_path :: "string \<Rightarrow> string lookup" where
  "get_language_from_path file_path =
     (let ext = to_lower (last (split_on (CHR ''.'') file_path)) in
      case object_get language_map ext of
        Absent \<Rightarrow> Own ''plaintext''
      | r \<Rightarrow> r)"

section \<open>Well-formed trees\<close>

text \<open>
  Below the directory with parts \<open>b\<close>: sibling names differ, a node's path is its position, a
  directory is what has children, and no directory is empty.
\<close>

fun wf_level :: "string list \<Rightarrow> file_node list \<Rightarrow> bool" where
  "wf_level b [] \<longleftrightarrow> True"
| "wf_level b (FileNode nm pth d None # ns) \<longleftrightarrow>
     nm \<notin> set (map node_name ns) \<and> pth = join_with ''/'' (b @ [nm]) \<and> \<not> d \<and> wf_level b ns"
| "wf_level b (FileNode nm pth d (Some sub) # ns) \<longleftrightarrow>
     nm \<notin> set (map node_name ns) \<and> pth = join_with ''/'' (b @ [nm]) \<and> d \<and>
     sub \<noteq> [] \<and> wf_level (b @ [nm]) sub \<and> wf_level b ns"

fun leaves :: "file_node list \<Rightarrow> string list list" where
  "leaves [] = []"
| "leaves (FileNode nm _ _ None # ns) = [nm] # leaves ns"
| "leaves (FileNode nm _ _ (Some sub) # ns) = map ((#) nm) (leaves sub) @ leaves ns"

fun file_paths :: "file_node list \<Rightarrow> string list" where
  "file_paths [] = []"
| "file_paths (FileNode _ pth _ None # ns) = pth # file_paths ns"
| "file_paths (FileNode _ _ _ (Some sub) # ns) = file_paths sub @ file_paths ns"

fun names_distinct :: "file_node list \<Rightarrow> bool" where
  "names_distinct [] \<longleftrightarrow> True"
| "names_distinct (FileNode nm _ _ None # ns) \<longleftrightarrow> nm \<notin> set (map node_name ns) \<and> names_distinct ns"
| "names_distinct (FileNode nm _ _ (Some sub) # ns) \<longleftrightarrow>
     nm \<notin> set (map node_name ns) \<and> names_distinct sub \<and> names_distinct ns"

lemma join_with_snoc: "xs \<noteq> [] \<Longrightarrow> join_with sep (xs @ [y]) = join_with sep xs @ sep @ y"
  by (induction xs rule: induct_list012) auto

lemma join_with_append:
  "xs \<noteq> [] \<Longrightarrow> ys \<noteq> [] \<Longrightarrow> join_with sep (xs @ ys) = join_with sep xs @ sep @ join_with sep ys"
proof (induction xs rule: induct_list012)
  case (2 x)
  then show ?case by (cases ys) auto
qed auto

lemma file_paths_leaves:
  "wf_level b ns \<Longrightarrow> file_paths ns = map (\<lambda>p. join_with ''/'' (b @ p)) (leaves ns)"
  by (induction b ns rule: wf_level.induct) auto

lemma leaves_nonempty: "wf_level b ns \<Longrightarrow> ns \<noteq> [] \<Longrightarrow> leaves ns \<noteq> []"
  by (induction b ns rule: wf_level.induct) auto

lemma leaf_head: "p \<in> set (leaves ns) \<Longrightarrow> \<exists>nm q. p = nm # q \<and> nm \<in> set (map node_name ns)"
  by (induction ns rule: leaves.induct) auto

lemma wf_level_append:
  "wf_level b (ns @ ms) \<longleftrightarrow> wf_level b ns \<and> wf_level b ms \<and>
     set (map node_name ns) \<inter> set (map node_name ms) = {}"
  by (induction b ns rule: wf_level.induct) auto

lemma leaves_append: "leaves (ns @ ms) = leaves ns @ leaves ms"
  by (induction ns rule: leaves.induct) auto

lemma names_distinct_append:
  "names_distinct (ns @ ms) \<longleftrightarrow> names_distinct ns \<and> names_distinct ms \<and>
     set (map node_name ns) \<inter> set (map node_name ms) = {}"
  by (induction ns rule: names_distinct.induct) auto

text \<open>The node that \<open>find\<close> returns splits its level in two.\<close>

lemma find_node_split:
  assumes "find_index (\<lambda>n. node_name n = nm) level = Some i"
  obtains pre pth d ch post where "level = pre @ FileNode nm pth d ch # post"
    and "length pre = i" and "nm \<notin> set (map node_name pre)"
proof -
  from find_index_Some [OF assms] have i: "i < length level" and nm: "node_name (level ! i) = nm"
    and before: "\<forall>j < i. node_name (level ! j) \<noteq> nm" by auto
  obtain pth d ch where node: "level ! i = FileNode nm pth d ch"
    using nm by (cases "level ! i") auto
  have "nm \<notin> set (map node_name (take i level))"
    using before i by (fastforce simp: in_set_conv_nth)
  with node i show ?thesis
    by (intro that [of "take i level" pth d ch "drop (Suc i) level"])
      (use id_take_nth_drop [OF i] in auto)
qed

text \<open>How \<open>currentPath\<close> relates to the directory the walk is in.\<close>

definition at_dir :: "string \<Rightarrow> bool \<Rightarrow> string list \<Rightarrow> bool" where
  "at_dir cur first b \<longleftrightarrow>
     (if first then b = [] \<and> cur = [] else b \<noteq> [] \<and> cur = join_with ''/'' b)"

lemma at_dir_path:
  "at_dir cur first b \<Longrightarrow> cur @ (if first then [] else ''/'') @ part = join_with ''/'' (b @ [part])"
  by (auto simp: at_dir_def join_with_snoc split: if_splits)

lemma at_dir_below:
  "at_dir cur first b \<Longrightarrow>
   at_dir (cur @ (if first then [] else ''/'') @ part) False (b @ [part])"
  by (simp add: at_dir_path) (simp add: at_dir_def)

definition clash_free :: "string list \<Rightarrow> file_node list \<Rightarrow> bool" where
  "clash_free parts level \<longleftrightarrow>
     (\<forall>q \<in> set (leaves level). \<not> strict_prefix q parts \<and> \<not> strict_prefix parts q)"

lemma clash_free_sub:
  "clash_free (part # parts) (pre @ FileNode part pth d (Some sub) # post) \<Longrightarrow> clash_free parts sub"
  by (auto simp: clash_free_def leaves_append ball_Un)

lemma insert_parts_correct:
  assumes "wf_level b level" and "parts \<noteq> []" and "at_dir cur first b" and "clash_free parts level"
  shows "wf_level b (insert_parts cur first parts level) \<and>
    insert_parts cur first parts level \<noteq> [] \<and>
    set (leaves (insert_parts cur first parts level)) = insert parts (set (leaves level))"
  using assms
proof (induction parts arbitrary: cur first b level)
  case (Cons part parts)
  note path = at_dir_path [OF Cons.prems(3), of part]
  note below = at_dir_below [OF Cons.prems(3), of part]
  show ?case
  proof (cases "find_index (\<lambda>n. node_name n = part) level")
    case None
    then have fresh: "part \<notin> set (map node_name level)"
      by (auto simp: find_index_None)
    show ?thesis
    proof (cases "parts = []")
      case True
      with None fresh path Cons.prems show ?thesis
        by (simp add: wf_level_append leaves_append Let_def)
    next
      case False
      have "clash_free parts []" by (simp add: clash_free_def)
      from Cons.IH [OF _ False below this] None fresh path False Cons.prems show ?thesis
        by (simp add: wf_level_append leaves_append Let_def)
    qed
  next
    case (Some i)
    from Some obtain pre pth d ch post where
      level: "level = pre @ FileNode part pth d ch # post" and i: "length pre = i"
      by (rule find_node_split)
    show ?thesis
    proof (cases ch)
      case None
      have "parts = []"
      proof (rule ccontr)
        assume "parts \<noteq> []"
        then have "strict_prefix [part] (part # parts)" by (simp add: strict_prefix_def)
        moreover have "[part] \<in> set (leaves level)" using level None by (simp add: leaves_append)
        ultimately show False using Cons.prems(4) by (auto simp: clash_free_def)
      qed
      with Some level i None Cons.prems show ?thesis
        by (auto simp: leaves_append Let_def)
    next
      case sub: (Some sub)
      have wf_sub: "wf_level (b @ [part]) sub" and sub_ne: "sub \<noteq> []"
        using Cons.prems(1) level sub by (auto simp: wf_level_append)
      have cf_sub: "clash_free parts sub"
        using Cons.prems(4) level sub by (auto intro: clash_free_sub)
      have ne: "parts \<noteq> []"
      proof
        assume "parts = []"
        obtain q where q: "q \<in> set (leaves sub)"
          using leaves_nonempty [OF wf_sub sub_ne] by (cases "leaves sub") auto
        with leaf_head have "strict_prefix [part] (part # q)" by (fastforce simp: strict_prefix_def)
        moreover have "part # q \<in> set (leaves level)"
          using q level sub by (auto simp: leaves_append)
        ultimately show False using Cons.prems(4) \<open>parts = []\<close> by (auto simp: clash_free_def)
      qed
      from Cons.IH [OF wf_sub ne below cf_sub] Some level i sub ne Cons.prems(1) show ?thesis
        by (auto simp: wf_level_append leaves_append list_update_append Let_def)
    qed
  qed
qed simp

lemma strict_prefix_split:
  assumes "strict_prefix (split_on c f) (split_on c g)"
  shows "starts_with (f @ [c]) g"
proof -
  from assms obtain x xs where "split_on c g = split_on c f @ x # xs"
    by (auto elim!: strict_prefixE' simp: strict_prefix_def prefix_def neq_Nil_conv)
  then have "g = join_with [c] (split_on c f @ x # xs)"
    by (metis join_split)
  also have "\<dots> = f @ [c] @ join_with [c] (x # xs)"
    by (simp add: join_with_append)
  finally show ?thesis by (auto simp: starts_with_iff)
qed

definition file_list_ok :: "string list \<Rightarrow> bool" where
  "file_list_ok files \<longleftrightarrow> (\<forall>f \<in> set files. \<forall>g \<in> set files. \<not> starts_with (f @ ''/'') g)"

lemma build_file_tree_snoc:
  "build_file_tree (files @ [f]) = insert_path f (build_file_tree files)"
  by (simp add: build_file_tree_def)

lemma build_file_tree_leaves:
  "file_list_ok files \<Longrightarrow> wf_level [] (build_file_tree files) \<and>
     set (leaves (build_file_tree files)) = split_on (CHR ''/'') ` set files"
proof (induction files rule: rev_induct)
  case Nil
  then show ?case by (simp add: build_file_tree_def)
next
  case (snoc f files)
  let ?t = "build_file_tree files" and ?p = "split_on (CHR ''/'') f"
  from snoc have wf: "wf_level [] ?t" and lv: "set (leaves ?t) = split_on (CHR ''/'') ` set files"
    by (auto simp: file_list_ok_def)
  have "clash_free ?p ?t"
    unfolding clash_free_def lv
    using snoc.prems strict_prefix_split by (fastforce simp: file_list_ok_def)
  from insert_parts_correct [OF wf _ _ this, of "[]" True] lv show ?case
    by (simp add: build_file_tree_snoc insert_path_def at_dir_def)
qed

lemma names_distinct_insert:
  "names_distinct level \<Longrightarrow> names_distinct (insert_parts cur first parts level)"
proof (induction parts arbitrary: cur first level)
  case (Cons part parts)
  show ?case
  proof (cases "find_index (\<lambda>n. node_name n = part) level")
    case None
    then have "part \<notin> set (map node_name level)" by (auto simp: find_index_None)
    with None Cons.IH [of "[]"] Cons.prems show ?thesis
      by (auto simp: Let_def names_distinct_append)
  next
    case (Some i)
    from Some obtain pre pth d ch post where
      level: "level = pre @ FileNode part pth d ch # post" and i: "length pre = i"
      by (rule find_node_split)
    have "names_distinct sub" if "ch = Some sub" for sub
      using Cons.prems level that by (simp add: names_distinct_append)
    with Cons.IH Cons.prems Some level i show ?thesis
      by (auto simp: Let_def list_update_append names_distinct_append split: option.split)
  qed
qed simp

lemma names_distinct_build: "names_distinct (build_file_tree files)"
  by (induction files rule: rev_induct)
    (simp_all add: build_file_tree_snoc insert_path_def names_distinct_insert,
     simp add: build_file_tree_def)

lemma lower_case_prototype:
  "filter (list_all (\<lambda>c. \<not> is_upper c)) object_prototype = [''constructor'', ''__proto__'']"
  by code_simp

lemma lower_inherited:
  "to_lower s \<in> set object_prototype \<longleftrightarrow> to_lower s \<in> {''constructor'', ''__proto__''}"
proof -
  have "list_all (\<lambda>c. \<not> is_upper c) (to_lower s)"
    using to_lower_no_upper by (simp add: list_all_iff)
  then have "to_lower s \<in> set object_prototype \<longleftrightarrow>
      to_lower s \<in> set (filter (list_all (\<lambda>c. \<not> is_upper c)) object_prototype)"
    by (simp only: set_filter mem_Collect_eq simp_thms)
  then show ?thesis by (simp only: lower_case_prototype list.set)
qed

lemma inherited_not_language:
  "map_of language_map ''constructor'' = None" "map_of language_map ''__proto__'' = None"
  by code_simp+

section \<open>Properties\<close>

text \<open>
  For the paths of real files (none of them is also a directory of another) the tree holds
  exactly the given files. Its file nodes carry the given paths and no others, however often a
  path is repeated, every node's path is its position in the tree, directories are the nodes
  with children and none is empty, and sibling names are unique.
\<close>

theorem build_file_tree_exact:
  assumes "file_list_ok files"
  shows "set (file_paths (build_file_tree files)) = set files \<and> wf_level [] (build_file_tree files)"
  using build_file_tree_leaves [OF assms] by (auto simp: file_paths_leaves image_image)

theorem build_file_tree_exact_witness:
  "set (file_paths (build_file_tree [''src/a.js'', ''src/b.js'', ''index.html''])) =
     {''src/a.js'', ''src/b.js'', ''index.html''}"
proof -
  have "file_list_ok [''src/a.js'', ''src/b.js'', ''index.html'']"
    by (simp add: file_list_ok_def starts_with_def)
  from build_file_tree_exact [OF this] show ?thesis by simp
qed

text \<open>
  Whatever list of paths the server sends, even one where a file is also used as a
  directory, no two siblings of the tree share a name (the explorer keys its rows by it).
\<close>

theorem build_file_tree_names_distinct: "names_distinct (build_file_tree files)"
  by (rule names_distinct_build)

text \<open>
  The highlighting language of a path is a string except when its extension (or the whole
  name, if it has no dot) is \<open>constructor\<close> or \<open>__proto__\<close> in any case: the table is an object
  literal, so these two are found on \<open>Object.prototype\<close> and something that is no string results.
\<close>

theorem language_is_string_iff:
  "(\<exists>lang. get_language_from_path p = Own lang) \<longleftrightarrow>
     to_lower (last (split_on (CHR ''.'') p)) \<notin> {''constructor'', ''__proto__''}"
  using lower_inherited [of "last (split_on (CHR ''.'') p)"]
  by (auto simp: get_language_from_path_def object_get_def Let_def inherited_not_language
      simp del: insert_iff split: option.split)

end
