(* ===== verification/Json.thy ===== *)
theory Json imports Prelude begin

text \<open>
  The values \<open>JSON.parse\<close> returns and \<open>JSON.stringify\<close> prints, and both functions, as far as
  the sources use them (no reviver, no indentation). Integers are exact. A number literal with a
  fraction or an exponent is kept as its text (\<open>JFrac\<close>): no modelled code computes with one.
  Objects keep the order of their keys and a repeated key keeps its last value; JavaScript's
  reordering of integer-like keys is not modelled. The round trip is \<open>json_parse_print\<close>.
\<close>

section \<open>Values\<close>

datatype json =
    JNull
  | JBool bool
  | JNum int
  | JFrac string
  | JStr string
  | JArr "json list"
  | JObj "(string \<times> json) list"

text \<open>\<open>v?.[key]\<close> on a parsed value: absent unless \<open>v\<close> is an object that has the key.\<close>

fun json_get :: "string \<Rightarrow> json \<Rightarrow> json option" where
  "json_get key (JObj kvs) = map_of kvs key"
| "json_get key _ = None"

fun json_truthy :: "json \<Rightarrow> bool" where
  "json_truthy JNull = False"
| "json_truthy (JBool b) = b"
| "json_truthy (JNum n) = (n \<noteq> 0)"
| "json_truthy (JFrac t) = True"
| "json_truthy (JStr s) = (s \<noteq> [])"
| "json_truthy (JArr _) = True"
| "json_truthy (JObj _) = True"

fun json_str :: "json \<Rightarrow> string option" where
  "json_str (JStr s) = Some s"
| "json_str _ = None"

fun json_arr :: "json \<Rightarrow> json list option" where
  "json_arr (JArr vs) = Some vs"
| "json_arr _ = None"

fun json_int :: "json \<Rightarrow> int option" where
  "json_int (JNum n) = Some n"
| "json_int _ = None"

text \<open>The own enumerable properties of a value, what \<open>{ ...v }\<close> copies.\<close>

fun spread :: "json \<Rightarrow> (string \<times> json) list" where
  "spread (JObj kvs) = kvs"
| "spread (JArr vs) = zip (map show_nat [0..<length vs]) vs"
| "spread (JStr s) = zip (map show_nat [0..<length s]) (map (\<lambda>c. JStr [c]) s)"
| "spread _ = []"

section \<open>Strings\<close>

definition quote :: char where "quote = CHR 0x22"
definition backslash :: char where "backslash = CHR 0x5C"

definition hex_digit :: "nat \<Rightarrow> char" where
  "hex_digit d = (if d < 10 then char_of (48 + d) else char_of (87 + d))"

definition hex_val :: "char \<Rightarrow> nat option" where
  "hex_val c = (let n = of_char c :: nat in
     if 48 \<le> n \<and> n \<le> 57 then Some (n - 48)
     else if 97 \<le> n \<and> n \<le> 102 then Some (n - 87)
     else if 65 \<le> n \<and> n \<le> 70 then Some (n - 55) else None)"

definition hex4 :: "char \<Rightarrow> char \<Rightarrow> char \<Rightarrow> char \<Rightarrow> nat option" where
  "hex4 a b c d =
     (case (hex_val a, hex_val b, hex_val c, hex_val d) of
        (Some w, Some x, Some y, Some z) \<Rightarrow> Some (((w * 16 + x) * 16 + y) * 16 + z)
      | _ \<Rightarrow> None)"

text \<open>One code unit above ASCII as UTF-8 bytes, the way every string of the model is written.\<close>

definition utf8 :: "nat \<Rightarrow> string" where
  "utf8 n =
     (if n < 128 then [char_of n]
      else if n < 2048 then [char_of (192 + n div 64), char_of (128 + n mod 64)]
      else [char_of (224 + n div 4096), char_of (128 + n div 64 mod 64), char_of (128 + n mod 64)])"

definition escape_char :: "char \<Rightarrow> string" where
  "escape_char c = (let n = of_char c :: nat in
     if c = quote \<or> c = backslash then [backslash, c]
     else if n = 8 then [backslash, CHR ''b''] else if n = 9 then [backslash, CHR ''t'']
     else if n = 10 then [backslash, CHR ''n''] else if n = 12 then [backslash, CHR ''f'']
     else if n = 13 then [backslash, CHR ''r'']
     else if n < 32 then [backslash, CHR ''u'', CHR ''0'', CHR ''0'', hex_digit (n div 16), hex_digit (n mod 16)]
     else [c])"

definition print_str :: "string \<Rightarrow> string" where
  "print_str s = quote # concat (map escape_char s) @ [quote]"

definition unescape :: "char \<Rightarrow> char option" where
  "unescape e =
     (if e = quote \<or> e = backslash \<or> e = CHR ''/'' then Some e
      else if e = CHR ''b'' then Some (char_of (8 :: nat)) else if e = CHR ''t'' then Some (char_of (9 :: nat))
      else if e = CHR ''n'' then Some (char_of (10 :: nat)) else if e = CHR ''f'' then Some (char_of (12 :: nat))
      else if e = CHR ''r'' then Some (char_of (13 :: nat)) else None)"

fun parse_chars :: "string \<Rightarrow> (string \<times> string) option" where
  "parse_chars [] = None"
| "parse_chars (c # r) =
     (if c = quote then Some ([], r)
      else if c = backslash then
        (case r of
           [] \<Rightarrow> None
         | e # r' \<Rightarrow>
             if e = CHR ''u'' then
               (case r' of
                  h1 # h2 # h3 # h4 # r'' \<Rightarrow>
                    (case hex4 h1 h2 h3 h4 of
                       None \<Rightarrow> None
                     | Some n \<Rightarrow> map_option (apfst (\<lambda>s. utf8 n @ s)) (parse_chars r''))
                | _ \<Rightarrow> None)
             else (case unescape e of
                     None \<Rightarrow> None
                   | Some x \<Rightarrow> map_option (apfst (\<lambda>s. x # s)) (parse_chars r')))
      else if (of_char c :: nat) < 32 then None
      else map_option (apfst (\<lambda>s. c # s)) (parse_chars r))"

section \<open>Numbers\<close>

definition num_char :: "char \<Rightarrow> bool" where
  "num_char c \<longleftrightarrow> is_digit c \<or> c \<in> {CHR ''-'', CHR ''+'', CHR ''.'', CHR ''e'', CHR ''E''}"

definition int_digits :: "string \<Rightarrow> bool" where
  "int_digits s \<longleftrightarrow> s \<noteq> [] \<and> list_all is_digit s \<and> (hd s = CHR ''0'' \<longrightarrow> length s = 1)"

definition drop_minus :: "string \<Rightarrow> string" where
  "drop_minus s = (case s of [] \<Rightarrow> [] | c # r \<Rightarrow> if c = CHR ''-'' then r else s)"

definition parse_int_lit :: "string \<Rightarrow> int option" where
  "parse_int_lit s =
     (if int_digits (drop_minus s)
      then Some (if drop_minus s = s then int (read_nat s) else - int (read_nat (drop_minus s)))
      else None)"

definition exponent_ok :: "string \<Rightarrow> bool" where
  "exponent_ok s \<longleftrightarrow>
     (case s of
        [] \<Rightarrow> True
      | e # r \<Rightarrow> e \<in> {CHR ''e'', CHR ''E''} \<and>
          (let ds = (case r of [] \<Rightarrow> [] | c # r' \<Rightarrow> if c \<in> {CHR ''+'', CHR ''-''} then r' else r)
           in ds \<noteq> [] \<and> list_all is_digit ds))"

definition fraction_ok :: "string \<Rightarrow> bool" where
  "fraction_ok s \<longleftrightarrow>
     (case s of
        [] \<Rightarrow> False
      | c # r \<Rightarrow>
          (if c = CHR ''.'' then takeWhile is_digit r \<noteq> [] \<and> exponent_ok (dropWhile is_digit r)
           else exponent_ok s))"

definition frac_lit :: "string \<Rightarrow> bool" where
  "frac_lit s \<longleftrightarrow> list_all num_char s \<and>
     int_digits (takeWhile is_digit (drop_minus s)) \<and> fraction_ok (dropWhile is_digit (drop_minus s))"

definition parse_number :: "string \<Rightarrow> (json \<times> string) option" where
  "parse_number s =
     (let tok = takeWhile num_char s; rest = dropWhile num_char s in
      case parse_int_lit tok of
        Some i \<Rightarrow> Some (JNum i, rest)
      | None \<Rightarrow> if frac_lit tok then Some (JFrac tok, rest) else None)"

section \<open>Printing and parsing\<close>

fun print_json :: "json \<Rightarrow> string" where
  "print_json JNull = ''null''"
| "print_json (JBool b) = (if b then ''true'' else ''false'')"
| "print_json (JNum n) = show_int n"
| "print_json (JFrac t) = t"
| "print_json (JStr s) = print_str s"
| "print_json (JArr vs) = ''['' @ join_with '','' (map print_json vs) @ '']''"
| "print_json (JObj kvs) =
     ''{'' @ join_with '','' (map (\<lambda>(k, v). print_str k @ '':'' @ print_json v) kvs) @ ''}''"

definition json_ws :: "char \<Rightarrow> bool" where
  "json_ws c \<longleftrightarrow> of_char c \<in> {9, 10, 13, (32 :: nat)}"

abbreviation skip_ws :: "string \<Rightarrow> string" where
  "skip_ws \<equiv> dropWhile json_ws"

text \<open>\<open>expect c s\<close>: the rest of \<open>s\<close> after white space and the character \<open>c\<close>.\<close>

definition expect :: "char \<Rightarrow> string \<Rightarrow> string option" where
  "expect c s = (case skip_ws s of [] \<Rightarrow> None | d # r \<Rightarrow> if d = c then Some r else None)"

text \<open>A repeated key keeps the place of its first occurrence and the value of its last.\<close>

definition add_member :: "string \<Rightarrow> json \<Rightarrow> (string \<times> json) list \<Rightarrow> (string \<times> json) list" where
  "add_member k v kvs = (k, case map_of kvs k of None \<Rightarrow> v | Some w \<Rightarrow> w) # filter (\<lambda>e. fst e \<noteq> k) kvs"

fun parse_value :: "nat \<Rightarrow> string \<Rightarrow> (json \<times> string) option"
  and parse_elems :: "nat \<Rightarrow> string \<Rightarrow> (json list \<times> string) option"
  and parse_members :: "nat \<Rightarrow> string \<Rightarrow> ((string \<times> json) list \<times> string) option" where
  "parse_value 0 s = None"
| "parse_value (Suc n) s =
     (case skip_ws s of
        [] \<Rightarrow> None
      | c # r \<Rightarrow>
          if c = quote then map_option (apfst JStr) (parse_chars r)
          else if c = CHR ''['' then
            (case expect (CHR '']'') r of
               Some r' \<Rightarrow> Some (JArr [], r')
             | None \<Rightarrow> map_option (apfst JArr) (parse_elems n r))
          else if c = CHR ''{'' then
            (case expect (CHR ''}'') r of
               Some r' \<Rightarrow> Some (JObj [], r')
             | None \<Rightarrow> map_option (apfst JObj) (parse_members n r))
          else if starts_with ''null'' (c # r) then Some (JNull, drop 4 (c # r))
          else if starts_with ''true'' (c # r) then Some (JBool True, drop 4 (c # r))
          else if starts_with ''false'' (c # r) then Some (JBool False, drop 5 (c # r))
          else parse_number (c # r))"
| "parse_elems 0 s = None"
| "parse_elems (Suc n) s =
     (case parse_value n s of
        None \<Rightarrow> None
      | Some (v, r) \<Rightarrow>
          (case expect (CHR '']'') r of
             Some r' \<Rightarrow> Some ([v], r')
           | None \<Rightarrow>
               (case expect (CHR '','') r of
                  None \<Rightarrow> None
                | Some r' \<Rightarrow> map_option (apfst (\<lambda>vs. v # vs)) (parse_elems n r'))))"
| "parse_members 0 s = None"
| "parse_members (Suc n) s =
     (case expect quote s of
        None \<Rightarrow> None
      | Some r0 \<Rightarrow>
          (case parse_chars r0 of
             None \<Rightarrow> None
           | Some (k, r1) \<Rightarrow>
               (case expect (CHR '':'') r1 of
                  None \<Rightarrow> None
                | Some r2 \<Rightarrow>
                    (case parse_value n r2 of
                       None \<Rightarrow> None
                     | Some (v, r) \<Rightarrow>
                         (case expect (CHR ''}'') r of
                            Some r' \<Rightarrow> Some ([(k, v)], r')
                          | None \<Rightarrow>
                              (case expect (CHR '','') r of
                                 None \<Rightarrow> None
                               | Some r' \<Rightarrow>
                                   map_option (apfst (add_member k v))
                                     (parse_members n r')))))))"

definition json_parse :: "string \<Rightarrow> json option" where
  "json_parse s =
     (case parse_value (Suc (length s)) s of
        Some (v, r) \<Rightarrow> if skip_ws r = [] then Some v else None
      | None \<Rightarrow> None)"

section \<open>The round trip\<close>

fun wf_json :: "json \<Rightarrow> bool" where
  "wf_json (JFrac t) \<longleftrightarrow> frac_lit t \<and> parse_int_lit t = None"
| "wf_json (JArr vs) \<longleftrightarrow> (\<forall>v \<in> set vs. wf_json v)"
| "wf_json (JObj kvs) \<longleftrightarrow> distinct (keys kvs) \<and> (\<forall>e \<in> set kvs. wf_json (snd e))"
| "wf_json _ \<longleftrightarrow> True"

lemma hex_val_digit [simp]: "d < 16 \<Longrightarrow> hex_val (hex_digit d) = Some d"
  by (auto simp: hex_val_def hex_digit_def Let_def)

lemma hex4_low: "n < 32 \<Longrightarrow> hex4 (CHR ''0'') (CHR ''0'') (hex_digit (n div 16)) (hex_digit (n mod 16)) = Some n"
  using hex_val_digit [of "n div 16"] hex_val_digit [of "n mod 16"]
  by (simp add: hex4_def) (simp add: hex_val_def)

lemma char_eq_iff_of_char: "c = d \<longleftrightarrow> (of_char c :: nat) = of_char d"
  by simp

lemma append_Cons_fun: "(@) [x] = (#) x"
  by (simp add: fun_eq_iff)

lemma parse_escaped: "parse_chars (escape_char c @ r) = map_option (apfst (\<lambda>s. c # s)) (parse_chars r)"
proof -
  have qb: "quote \<noteq> backslash" "CHR ''u'' \<noteq> quote" "CHR ''u'' \<noteq> backslash"
    by (simp_all add: quote_def backslash_def)
  have esc: "parse_chars (backslash # e # r) = map_option (apfst (\<lambda>s. x # s)) (parse_chars r)"
    if "unescape e = Some x" "e \<noteq> CHR ''u''" for e x
    using that qb by simp
  let ?n = "of_char c :: nat"
  have recode: "char_of ?n = c" by simp
  consider "c = quote \<or> c = backslash" | "c \<noteq> quote" "c \<noteq> backslash" "?n \<in> {8, 9, 10, 12, 13}"
    | "c \<noteq> quote" "c \<noteq> backslash" "?n \<notin> {8, 9, 10, 12, 13}" "?n < 32"
    | "c \<noteq> quote" "c \<noteq> backslash" "\<not> ?n < 32" by blast
  then show ?thesis
  proof cases
    case 1
    then have "escape_char c = [backslash, c]" and "c \<noteq> CHR ''u''" and "unescape c = Some c"
      by (auto simp: escape_char_def quote_def backslash_def unescape_def)
    then show ?thesis using esc by simp
  next
    case 2
    then have "\<exists>e. escape_char c = [backslash, e] \<and> e \<noteq> CHR ''u'' \<and> unescape e = Some (char_of ?n)"
      by (auto simp: escape_char_def unescape_def quote_def backslash_def Let_def simp del: char_of_char)
    then show ?thesis using esc recode by auto
  next
    case 3
    then have "escape_char c = [backslash, CHR ''u'', CHR ''0'', CHR ''0'', hex_digit (?n div 16), hex_digit (?n mod 16)]"
      by (simp add: escape_char_def Let_def)
    then show ?thesis using 3 qb hex4_low [of ?n] by (simp add: utf8_def append_Cons_fun)
  next
    case 4
    then show ?thesis by (auto simp: escape_char_def Let_def)
  qed
qed

lemma parse_chars_print:
  "parse_chars (concat (map escape_char s) @ quote # r) = Some (s, r)"
  by (induction s) (simp_all add: parse_escaped del: parse_chars.simps(2), simp)

definition num_stop :: "string \<Rightarrow> bool" where
  "num_stop r \<longleftrightarrow> (r = [] \<or> \<not> num_char (hd r))"

lemma takeWhile_stop:
  "list_all num_char t \<Longrightarrow> num_stop r \<Longrightarrow> takeWhile num_char (t @ r) = t \<and> dropWhile num_char (t @ r) = r"
  by (cases r) (auto simp: num_stop_def list_all_iff takeWhile_append dropWhile_append)

lemma digit_not_minus: "is_digit c \<Longrightarrow> c \<noteq> CHR ''-''"
  by (auto simp: is_digit_def)

lemma int_digits_show [simp]: "int_digits (show_nat n)"
proof -
  have "length (show_nat 0) = 1" by (simp add: show_nat.simps [of 0])
  then show ?thesis by (simp add: int_digits_def show_nat_digits show_nat_hd)
qed

lemma drop_minus_show [simp]: "drop_minus (show_nat n) = show_nat n"
proof -
  obtain c r where "show_nat n = c # r" by (cases "show_nat n") auto
  with show_nat_digits [of n] show ?thesis
    by (auto simp: drop_minus_def dest: digit_not_minus)
qed

lemma parse_int_show: "parse_int_lit (show_int i) = Some i"
proof (cases "i < 0")
  case True
  have "show_nat m \<noteq> CHR ''-'' # show_nat m" for m by (metis not_Cons_self)
  with True show ?thesis by (simp add: show_int_def parse_int_lit_def) (simp add: drop_minus_def)
next
  case False
  then show ?thesis by (simp add: show_int_def parse_int_lit_def)
qed

lemma show_int_num: "list_all num_char (show_int i)"
  using show_nat_digits [of "nat i"] show_nat_digits [of "nat (- i)"]
  by (auto simp: show_int_def num_char_def list_all_iff)

lemma parse_number_int: "num_stop r \<Longrightarrow> parse_number (show_int i @ r) = Some (JNum i, r)"
  using takeWhile_stop [OF show_int_num, of r i] by (simp add: parse_number_def parse_int_show Let_def)

lemma parse_number_frac:
  "frac_lit t \<Longrightarrow> parse_int_lit t = None \<Longrightarrow> num_stop r \<Longrightarrow> parse_number (t @ r) = Some (JFrac t, r)"
  using takeWhile_stop [of t r] by (simp add: parse_number_def frac_lit_def Let_def)

text \<open>What comes after a printed value inside an array or object ends any number.\<close>

lemma num_stop_simps [simp]:
  "num_stop []" "num_stop (CHR '','' # r)" "num_stop (CHR '']'' # r)" "num_stop (CHR ''}'' # r)"
  by (simp_all add: num_stop_def num_char_def is_digit_def)

definition value_start :: "char \<Rightarrow> bool" where
  "value_start c \<longleftrightarrow> \<not> json_ws c \<and> c \<noteq> CHR '']'' \<and> c \<noteq> CHR ''}'' \<and> c \<noteq> CHR '','' \<and> c \<noteq> CHR '':''"

lemma num_char_start: "num_char c \<Longrightarrow> value_start c"
  by (auto simp: num_char_def value_start_def json_ws_def is_digit_def)

lemma num_char_other:
  "num_char c \<Longrightarrow> c \<noteq> quote \<and> c \<noteq> CHR ''['' \<and> c \<noteq> CHR ''{'' \<and> c \<noteq> CHR ''n'' \<and> c \<noteq> CHR ''t'' \<and> c \<noteq> CHR ''f''"
  by (auto simp: num_char_def is_digit_def quote_def)

lemma frac_lit_nonempty: "frac_lit t \<Longrightarrow> t \<noteq> []"
  by (auto simp: frac_lit_def drop_minus_def int_digits_def)

lemma show_int_nonempty: "show_int i \<noteq> []"
  by (simp add: show_int_def)

lemma print_start: "wf_json v \<Longrightarrow> \<exists>c r. print_json v = c # r \<and> value_start c"
proof (cases v)
  case (JNum i)
  then show ?thesis
    using show_int_num [of i] show_int_nonempty [of i]
    by (cases "show_int i") (auto simp: num_char_start)
next
  case (JFrac t)
  moreover assume "wf_json v"
  ultimately show ?thesis
    using frac_lit_nonempty [of t] by (cases t) (auto simp: frac_lit_def num_char_start)
qed (auto simp: value_start_def json_ws_def print_str_def quote_def)

lemma skip_ws_start: "value_start c \<Longrightarrow> skip_ws (c # r) = c # r"
  by (simp add: value_start_def)

lemma expect_here [simp]: "\<not> json_ws c \<Longrightarrow> expect c (c # r) = Some r"
  by (simp add: expect_def)

lemma expect_other: "\<not> json_ws d \<Longrightarrow> d \<noteq> c \<Longrightarrow> expect c (d # r) = None"
  by (simp add: expect_def)

lemma ws_marks [simp]:
  "\<not> json_ws quote" "\<not> json_ws (CHR '','')" "\<not> json_ws (CHR '':'')"
  "\<not> json_ws (CHR '']'')" "\<not> json_ws (CHR ''}'')" "\<not> json_ws (CHR ''['')" "\<not> json_ws (CHR ''{'')"
  by (simp_all add: json_ws_def quote_def)

lemma parse_value_number:
  assumes "list_all num_char t" and "t \<noteq> []"
  shows "parse_value (Suc n) (t @ r) = parse_number (t @ r)"
proof -
  obtain c s where t: "t = c # s" and c: "num_char c" using assms by (cases t) auto
  have "\<not> json_ws c" using num_char_start [OF c] by (simp add: value_start_def)
  with t num_char_other [OF c] show ?thesis by (simp add: starts_with_def)
qed

lemma print_member: "(\<lambda>(k, v). print_str k @ '':'' @ print_json v) (k, v) =
    quote # concat (map escape_char k) @ quote # CHR '':'' # print_json v"
  by (simp add: print_str_def)

text \<open>
  Printing, then parsing in front of any text that ends a number, gives the value and that text.
  One unit of fuel per printed character is enough.
\<close>

lemma parse_elems_print:
  assumes IH: "\<And>v n r. v \<in> set vs \<Longrightarrow> num_stop r \<Longrightarrow> length (print_json v) < n \<Longrightarrow>
      parse_value n (print_json v @ r) = Some (v, r)"
    and "vs \<noteq> []" and "length (join_with '','' (map print_json vs)) + 1 < n"
  shows "parse_elems n (join_with '','' (map print_json vs) @ CHR '']'' # r) = Some (vs, r)"
  using assms
proof (induction vs arbitrary: n rule: induct_list012)
  case (2 v)
  then obtain m where n: "n = Suc m" by (cases n) auto
  with 2 have "parse_value m (print_json v @ CHR '']'' # r) = Some (v, CHR '']'' # r)"
    by (intro "2.prems"(1)) auto
  with n show ?case by simp
next
  case (3 v w vs)
  then obtain m where n: "n = Suc m" by (cases n) auto
  let ?tail = "join_with '','' (map print_json (w # vs)) @ CHR '']'' # r"
  have "parse_value m (print_json v @ CHR '','' # ?tail) = Some (v, CHR '','' # ?tail)"
    using 3 n by (intro "3.prems"(1)) auto
  moreover have "parse_elems m ?tail = Some (w # vs, r)"
    using 3 n by (intro "3.IH"(2)) auto
  ultimately show ?case using n by (simp add: expect_other)
qed simp

lemma add_member_new: "k \<notin> set (keys kvs) \<Longrightarrow> add_member k v kvs = (k, v) # kvs"
  by (induction kvs) (auto simp: add_member_def)

lemma parse_members_print:
  assumes IH: "\<And>k v n r. (k, v) \<in> set kvs \<Longrightarrow> num_stop r \<Longrightarrow> length (print_json v) < n \<Longrightarrow>
      parse_value n (print_json v @ r) = Some (v, r)"
    and "distinct (keys kvs)"
    and "kvs \<noteq> []"
    and "length (join_with '','' (map (\<lambda>(k, v). print_str k @ '':'' @ print_json v) kvs)) + 1 < n"
  shows "parse_members n
      (join_with '','' (map (\<lambda>(k, v). print_str k @ '':'' @ print_json v) kvs) @ CHR ''}'' # r) = Some (kvs, r)"
  using assms
proof (induction kvs arbitrary: n rule: induct_list012)
  case (2 e)
  obtain k v where e: "e = (k, v)" by (cases e)
  from 2 obtain m where n: "n = Suc m" by (cases n) auto
  with 2 e have "parse_value m (print_json v @ CHR ''}'' # r) = Some (v, CHR ''}'' # r)"
    by (intro "2.prems"(1)) auto
  with n e show ?case by (simp add: print_str_def parse_chars_print)
next
  case (3 e e' kvs)
  obtain k v where e: "e = (k, v)" by (cases e)
  from 3 obtain m where n: "n = Suc m" by (cases n) auto
  let ?tail = "join_with '','' (map (\<lambda>(k, v). print_str k @ '':'' @ print_json v) (e' # kvs)) @ CHR ''}'' # r"
  have "parse_value m (print_json v @ CHR '','' # ?tail) = Some (v, CHR '','' # ?tail)"
    using 3 n e by (intro "3.prems"(1)) auto
  moreover have "parse_members m ?tail = Some (e' # kvs, r)"
    by (rule "3.IH"(2)) (use 3 n in \<open>fastforce intro: "3.prems"(1)\<close>)+
  moreover have "k \<notin> set (keys (e' # kvs))" using "3.prems"(2) e by simp
  ultimately show ?case
    using n e by (auto simp: expect_other print_str_def parse_chars_print add_member_new)
qed simp

lemma parse_value_print:
  "wf_json v \<Longrightarrow> num_stop r \<Longrightarrow> length (print_json v) < n \<Longrightarrow>
   parse_value n (print_json v @ r) = Some (v, r)"
proof (induction v arbitrary: n r)
  case (JNum i)
  then obtain m where "n = Suc m" by (cases n) auto
  with JNum parse_value_number [OF show_int_num show_int_nonempty] show ?case
    by (simp add: parse_number_int del: parse_value.simps)
next
  case (JFrac t)
  then obtain m where "n = Suc m" by (cases n) auto
  with JFrac parse_value_number [of t] show ?case
    by (simp add: parse_number_frac frac_lit_nonempty frac_lit_def del: parse_value.simps)
next
  case (JArr vs)
  then obtain m where n: "n = Suc m" by (cases n) auto
  show ?case
  proof (cases "vs = []")
    case False
    then obtain w ws where vs: "vs = w # ws" by (cases vs) auto
    obtain c s where c: "print_json w = c # s" "value_start c"
      using print_start [of w] JArr.prems vs by auto
    obtain t where "join_with '','' (map print_json vs) = c # t"
      using vs c(1) by (cases ws) auto
    then have "expect (CHR '']'') (join_with '','' (map print_json vs) @ CHR '']'' # r) = None"
      using c(2) by (simp add: expect_other value_start_def)
    moreover have "parse_elems m (join_with '','' (map print_json vs) @ CHR '']'' # r) = Some (vs, r)"
      by (rule parse_elems_print) (use JArr False n in auto)
    ultimately show ?thesis using n by (simp add: quote_def)
  qed (use n in \<open>simp add: quote_def\<close>)
next
  case (JObj kvs)
  then obtain m where n: "n = Suc m" by (cases n) auto
  let ?j = "join_with '','' (map (\<lambda>(k, v). print_str k @ '':'' @ print_json v) kvs)"
  show ?case
  proof (cases "kvs = []")
    case False
    then obtain k v ms where kvs: "kvs = (k, v) # ms" by (cases kvs) auto
    then have "\<exists>t. ?j = quote # t" by (cases ms) (auto simp: print_str_def)
    then have "expect (CHR ''}'') (?j @ CHR ''}'' # r) = None"
      by (auto simp: expect_other quote_def json_ws_def)
    moreover have "parse_members m (?j @ CHR ''}'' # r) = Some (kvs, r)"
      by (rule parse_members_print) (use JObj False n in fastforce)+
    ultimately show ?thesis using n by (simp add: quote_def)
  qed (use n in \<open>simp add: quote_def\<close>)
next
  case (JStr s)
  then obtain m where "n = Suc m" by (cases n) auto
  then show ?case by (simp add: print_str_def parse_chars_print)
qed (auto simp: json_ws_def quote_def starts_with_def elim!: less_natE)

theorem json_parse_print: "wf_json v \<Longrightarrow> json_parse (print_json v) = Some v"
  using parse_value_print [of v "[]" "Suc (length (print_json v))"] by (simp add: json_parse_def)

section \<open>What the parser returns is well formed\<close>

lemma add_member_wf:
  assumes "distinct (keys kvs)" "\<forall>e \<in> set kvs. wf_json (snd e)" "wf_json v"
  shows "distinct (keys (add_member k v kvs)) \<and> (\<forall>e \<in> set (add_member k v kvs). wf_json (snd e))"
proof -
  have "distinct (keys (filter (\<lambda>e. fst e \<noteq> k) kvs))" using assms(1) by (simp add: distinct_map_filter)
  moreover have "wf_json w" if "map_of kvs k = Some w" for w using map_of_SomeD [OF that] assms(2) by auto
  ultimately show ?thesis using assms(2,3) by (auto simp: add_member_def split: option.split)
qed

lemma parse_number_wf: "parse_number s = Some (v, r) \<Longrightarrow> wf_json v"
  by (auto simp: parse_number_def Let_def split: option.splits if_splits)

lemma parse_value_wf_step:
  assumes "\<And>s vs r. parse_elems n s = Some (vs, r) \<Longrightarrow> \<forall>v \<in> set vs. wf_json v"
    and "\<And>s kvs r. parse_members n s = Some (kvs, r) \<Longrightarrow> distinct (keys kvs) \<and> (\<forall>e \<in> set kvs. wf_json (snd e))"
    and "parse_value (Suc n) s = Some (v, r)"
  shows "wf_json v"
proof -
  obtain c t where "skip_ws s = c # t" using assms(3) by (auto split: list.splits)
  with assms(3) show ?thesis
    using assms(1) [of t] assms(2) [of t] parse_number_wf [of "c # t"]
    by (cases "parse_elems n t"; cases "parse_members n t") (auto split: if_splits option.splits)
qed

lemma parse_wf:
  "(\<forall>s v r. parse_value n s = Some (v, r) \<longrightarrow> wf_json v) \<and>
   (\<forall>s vs r. parse_elems n s = Some (vs, r) \<longrightarrow> (\<forall>v \<in> set vs. wf_json v)) \<and>
   (\<forall>s kvs r. parse_members n s = Some (kvs, r) \<longrightarrow> distinct (keys kvs) \<and> (\<forall>e \<in> set kvs. wf_json (snd e)))"
proof (induction n)
  case (Suc n)
  then have of_value: "parse_value n s = Some (v, r) \<Longrightarrow> wf_json v"
    and of_elems: "parse_elems n s = Some (vs, r) \<Longrightarrow> \<forall>v \<in> set vs. wf_json v"
    and of_members: "parse_members n s = Some (kvs, r) \<Longrightarrow> distinct (keys kvs) \<and> (\<forall>e \<in> set kvs. wf_json (snd e))"
    for s v r vs kvs by blast+
  have "parse_value (Suc n) s = Some (v, r) \<Longrightarrow> wf_json v" for s v r
    using parse_value_wf_step of_elems of_members by blast
  moreover have "\<forall>v \<in> set vs. wf_json v" if "parse_elems (Suc n) s = Some (vs, r)" for s vs r
    using that by (auto split: option.splits) (use of_value of_elems in blast)+
  moreover have "distinct (keys kvs) \<and> (\<forall>e \<in> set kvs. wf_json (snd e))" if p: "parse_members (Suc n) s = Some (kvs, r)" for s kvs r
  proof -
    from p have "\<exists>k v t t'. parse_value n t = Some (v, t') \<and>
        (kvs = [(k, v)] \<or> (\<exists>r' kvs'. parse_members n r' = Some (kvs', r) \<and> kvs = add_member k v kvs'))"
      by (auto split: option.splits) blast+
    then obtain k v t t' where v: "parse_value n t = Some (v, t')"
      and kvs: "kvs = [(k, v)] \<or> (\<exists>r' kvs'. parse_members n r' = Some (kvs', r) \<and> kvs = add_member k v kvs')" by blast
    from kvs show ?thesis
    proof
      assume "kvs = [(k, v)]" then show ?thesis using of_value [OF v] by simp
    next
      assume "\<exists>r' kvs'. parse_members n r' = Some (kvs', r) \<and> kvs = add_member k v kvs'"
      then show ?thesis using of_value [OF v] of_members add_member_wf by blast
    qed
  qed
  ultimately show ?case by blast
qed simp

lemma json_parse_wf: "json_parse s = Some v \<Longrightarrow> wf_json v"
  unfolding json_parse_def by (cases "parse_value (Suc (length s)) s") (auto split: if_splits dest: parse_wf [THEN conjunct1, rule_format] simp del: parse_value.simps)

end
