(* ===== verification/Messages.thy ===== *)
theory Messages imports Json begin

text \<open>
  The chat data of \<open>frontend/types/chat.type.ts\<close> and the merging of consecutive assistant
  messages into cards, \<open>frontend/lib/chat/messages.ts\<close>. Optional fields are options, fields of
  type \<open>unknown\<close> are JSON values. \<open>push\<close> onto the current group's \<open>tool_calls\<close> is a new list:
  the source shares that array with the first message of the group, which nothing reads again.
\<close>

section \<open>Chat data\<close>

datatype run_status = Run_running | Run_succeeded | Run_failed | Run_cancelled | Run_timed_out | Run_interrupted

definition show_run_status :: "run_status \<Rightarrow> string" where
  "show_run_status s =
     (case s of Run_running \<Rightarrow> ''running'' | Run_succeeded \<Rightarrow> ''succeeded'' | Run_failed \<Rightarrow> ''failed''
      | Run_cancelled \<Rightarrow> ''cancelled'' | Run_timed_out \<Rightarrow> ''timed_out'' | Run_interrupted \<Rightarrow> ''interrupted'')"

datatype call_status = Call_success | Call_error | Call_running

record tool_call =
  call_key :: "string option"
  call_name :: string
  call_status :: call_status
  call_output :: "string option"
  call_duration :: "int option"
  call_details :: "json option"
  call_run :: "string option"
  call_event :: "string option"

datatype activity_kind = Kind_stage | Kind_verification

record activity_item =
  act_id :: string
  act_kind :: activity_kind
  act_created_at :: string
  act_message :: "string option"
  act_ok :: "bool option"
  act_checks :: "json option"

datatype role = Role_user | Role_assistant

record message =
  msg_id :: string
  msg_role :: role
  msg_content :: string
  created_at :: string
  event_type :: "string option"
  tool_calls :: "tool_call list option"
  activity :: "activity_item list option"
  run_state :: "run_status option"
  finished_at :: "string option"

section \<open>Consolidation\<close>

definition assistant_event_types :: "string list" where
  "assistant_event_types =
     [''thinking'', ''tool_started'', ''tool_completed'', ''planner_complete'',
      ''builder_complete'', ''validator_complete'']"

definition filter_out_events :: "string list" where
  "filter_out_events = [''started'', ''completed'']"

definition wrapper_event :: "message \<Rightarrow> bool" where
  "wrapper_event m \<longleftrightarrow> truthy_str (event_type m) \<and> opt_str (event_type m) \<in> set filter_out_events"

definition groupable :: "message \<Rightarrow> bool" where
  "groupable m \<longleftrightarrow>
     \<not> truthy_str (event_type m) \<or> opt_str (event_type m) \<in> set assistant_event_types"

definition the_calls :: "message \<Rightarrow> tool_call list" where
  "the_calls m = (case tool_calls m of None \<Rightarrow> [] | Some cs \<Rightarrow> cs)"

definition newline :: string where "newline = [CHR 0x0A]"

text \<open>Lines 46 to 55: a message joins the current group.\<close>

definition merge_into :: "message \<Rightarrow> message \<Rightarrow> message" where
  "merge_into grp m =
     (let g1 = (if msg_content m \<noteq> [] \<and> trim (msg_content m) \<noteq> []
                then grp\<lparr>msg_content := msg_content grp @ newline @ msg_content m\<rparr> else grp)
      in if the_calls m \<noteq> [] then g1\<lparr>tool_calls := Some (the_calls g1 @ the_calls m)\<rparr> else g1)"

definition start_group :: "message \<Rightarrow> message" where
  "start_group m = m\<lparr>event_type := Some ''thinking''\<rparr>"

definition flush :: "message option \<Rightarrow> message list" where
  "flush grp = (case grp of None \<Rightarrow> [] | Some g \<Rightarrow> [g])"

fun consolidate_from :: "message option \<Rightarrow> message list \<Rightarrow> message list" where
  "consolidate_from grp [] = flush grp"
| "consolidate_from grp (m # ms) =
     (case msg_role m of
        Role_user \<Rightarrow> flush grp @ m # consolidate_from None ms
      | Role_assistant \<Rightarrow>
          if wrapper_event m then consolidate_from grp ms
          else if groupable m then
            consolidate_from
              (Some (case grp of Some g \<Rightarrow> merge_into g m | None \<Rightarrow> start_group m)) ms
          else flush grp @ m # consolidate_from None ms)"

definition consolidate_messages :: "message list \<Rightarrow> message list" where
  "consolidate_messages ms = consolidate_from None ms"

section \<open>Lemmas\<close>

text \<open>The shape of a consolidated list: no wrapper events, groups apart from each other.\<close>

fun settled :: "bool \<Rightarrow> message list \<Rightarrow> bool" where
  "settled after_group [] \<longleftrightarrow> True"
| "settled after_group (m # ms) \<longleftrightarrow>
     (case msg_role m of
        Role_user \<Rightarrow> settled False ms
      | Role_assistant \<Rightarrow>
          \<not> wrapper_event m \<and>
          (if groupable m
           then \<not> after_group \<and> event_type m = Some ''thinking'' \<and> settled True ms
           else settled False ms))"

definition is_group :: "message \<Rightarrow> bool" where
  "is_group g \<longleftrightarrow> msg_role g = Role_assistant \<and> event_type g = Some ''thinking''"

lemma thinking_groupable:
  "event_type g = Some ''thinking'' \<Longrightarrow> groupable g \<and> \<not> wrapper_event g"
  by (simp add: groupable_def wrapper_event_def assistant_event_types_def filter_out_events_def
      opt_str_def)

lemma merge_into_group: "is_group g \<Longrightarrow> is_group (merge_into g m)"
  by (simp add: is_group_def merge_into_def Let_def)

lemma start_group_group: "msg_role m = Role_assistant \<Longrightarrow> is_group (start_group m)"
  by (simp add: is_group_def start_group_def)

lemma settled_cons_group: "is_group g \<Longrightarrow> settled True ms \<Longrightarrow> settled False (g # ms)"
  by (simp add: is_group_def thinking_groupable)

lemma settled_head:
  "settled False (m # ms) \<Longrightarrow> msg_role m = Role_user \<or> \<not> groupable m \<Longrightarrow> settled True (m # ms)"
  by (auto split: role.splits)

lemma consolidate_settled:
  "(\<And>g. grp = Some g \<Longrightarrow> is_group g) \<Longrightarrow> settled False (consolidate_from grp ms)"
proof (induction ms arbitrary: grp)
  case Nil
  then show ?case
    by (cases grp) (auto simp: flush_def is_group_def thinking_groupable)
next
  case (Cons m ms)
  have closed: "settled False (flush grp @ m # consolidate_from None ms)"
    if "msg_role m = Role_user \<or> msg_role m = Role_assistant \<and> \<not> wrapper_event m \<and> \<not> groupable m"
  proof -
    have "settled True (m # consolidate_from None ms)"
      using Cons.IH [of None] that by (auto split: role.splits)
    moreover have "settled False (m # consolidate_from None ms)"
      using Cons.IH [of None] that by (auto split: role.splits)
    ultimately show ?thesis
      using Cons.prems settled_cons_group by (cases grp) (auto simp: flush_def)
  qed
  have grouped: "is_group (case grp of Some g \<Rightarrow> merge_into g m | None \<Rightarrow> start_group m)"
    if "msg_role m = Role_assistant"
    using Cons.prems that by (auto simp: merge_into_group start_group_group split: option.split)
  show ?case
  proof (cases "msg_role m")
    case Role_user
    with closed show ?thesis by simp
  next
    case Role_assistant
    note grouped = grouped [OF this]
    have "settled False (consolidate_from grp ms)"
      using Cons.IH Cons.prems by blast
    moreover have "settled False (consolidate_from
        (Some (case grp of Some g \<Rightarrow> merge_into g m | None \<Rightarrow> start_group m)) ms)"
      using Cons.IH grouped by blast
    ultimately show ?thesis using closed Role_assistant by simp
  qed
qed

lemma start_group_id: "event_type m = Some ''thinking'' \<Longrightarrow> start_group m = m"
  by (cases m) (simp add: start_group_def)

lemma settled_fixed:
  "settled (grp \<noteq> None) ms \<Longrightarrow> consolidate_from grp ms = flush grp @ ms"
proof (induction ms arbitrary: grp)
  case (Cons m ms)
  show ?case
  proof (cases "msg_role m = Role_assistant \<and> groupable m")
    case True
    with Cons.prems have grp: "grp = None" and "event_type m = Some ''thinking''"
      and nw: "\<not> wrapper_event m" and ms: "settled True ms" by auto
    then show ?thesis
      using True Cons.IH [of "Some m"] by (simp add: start_group_id flush_def)
  next
    case False
    with Cons.prems have "settled (None \<noteq> (None :: message option)) ms"
      by (auto split: role.splits if_splits)
    from Cons.IH [OF this] False Cons.prems show ?thesis
      by (auto simp: flush_def split: role.splits)
  qed
qed (simp add: flush_def)

definition kept :: "message \<Rightarrow> bool" where
  "kept m \<longleftrightarrow> msg_role m = Role_user \<or> \<not> wrapper_event m"

lemma merge_into_calls: "the_calls (merge_into g m) = the_calls g @ the_calls m"
  by (simp add: merge_into_def the_calls_def Let_def)

lemma start_group_calls: "the_calls (start_group m) = the_calls m"
  by (simp add: start_group_def the_calls_def)

lemma group_role [simp]:
  "msg_role (merge_into g m) = msg_role g" "msg_role (start_group m) = msg_role m"
  by (simp_all add: merge_into_def start_group_def Let_def)

lemma consolidate_from_calls:
  "concat (map the_calls (consolidate_from grp ms)) =
   concat (map the_calls (flush grp)) @ concat (map the_calls (filter kept ms))"
proof (induction ms arbitrary: grp)
  case (Cons m ms)
  then show ?case
    by (auto simp: flush_def kept_def merge_into_calls start_group_calls
        split: role.split option.split)
qed simp

lemma consolidate_from_users:
  "(\<And>g. grp = Some g \<Longrightarrow> msg_role g = Role_assistant) \<Longrightarrow>
   filter (\<lambda>m. msg_role m = Role_user) (consolidate_from grp ms) =
   filter (\<lambda>m. msg_role m = Role_user) ms"
proof (induction ms arbitrary: grp)
  case Nil
  then show ?case by (cases grp) (auto simp: flush_def)
next
  case (Cons m ms)
  have "msg_role (case grp of Some g \<Rightarrow> merge_into g m | None \<Rightarrow> start_group m) = Role_assistant"
    if "msg_role m = Role_assistant"
    using Cons.prems that by (cases grp) simp_all
  moreover have "filter (\<lambda>m. msg_role m = Role_user) (flush grp) = []"
    using Cons.prems by (cases grp) (auto simp: flush_def)
  moreover note Cons.IH [of grp, OF Cons.prems] Cons.IH [of None]
    Cons.IH [of "Some (case grp of Some g \<Rightarrow> merge_into g m | None \<Rightarrow> start_group m)"]
  ultimately show ?case
    by (simp split: role.split)
qed

section \<open>Properties\<close>

text \<open>
  Consolidating a consolidated history changes nothing, so reloading the cards a snapshot
  already merged shows the same cards.
\<close>

theorem consolidate_idempotent:
  "consolidate_messages (consolidate_messages ms) = consolidate_messages ms"
  using settled_fixed [of None "consolidate_messages ms"] consolidate_settled [of None ms]
  by (simp add: consolidate_messages_def flush_def)

text \<open>
  Consolidation loses nothing but wrapper events. The user's messages come out unchanged and
  in order, and the tool calls of the cards, read in order, are exactly the tool calls of the
  messages that are no \<open>started\<close> or \<open>completed\<close> wrappers.
\<close>

theorem consolidate_preserves:
  "filter (\<lambda>m. msg_role m = Role_user) (consolidate_messages ms) = filter (\<lambda>m. msg_role m = Role_user) ms \<and>
   concat (map the_calls (consolidate_messages ms)) = concat (map the_calls (filter kept ms))"
  using consolidate_from_users [of None ms] consolidate_from_calls [of None ms]
  by (simp add: consolidate_messages_def flush_def)

end
