(* ===== verification/Dates.thy ===== *)
theory Dates imports Prelude begin

text \<open>
  \<open>Date.parse\<close> on the ISO 8601 timestamps the server sends, as milliseconds since 1970;
  \<open>None\<close> is \<open>NaN\<close>. A timestamp is a date, or a date and a time with an optional fraction of a
  second (cut to milliseconds) and an optional zone (\<open>Z\<close> or \<open>+hh:mm\<close>); one without a zone is
  read in a host whose local time is UTC. Anything else is \<open>NaN\<close>.
\<close>

text \<open>\<open>n\<close> digits at the front of the text.\<close>

definition take_digits :: "nat \<Rightarrow> string \<Rightarrow> (nat \<times> string) option" where
  "take_digits n s =
     (if length (take n s) = n \<and> list_all is_digit (take n s)
      then Some (read_nat (take n s), drop n s) else None)"

definition take_char :: "char \<Rightarrow> string \<Rightarrow> string option" where
  "take_char c s = (case s of [] \<Rightarrow> None | d # r \<Rightarrow> if d = c then Some r else None)"

text \<open>Days from 1970-01-01 in the proleptic Gregorian calendar.\<close>

definition days_from_civil :: "int \<Rightarrow> int \<Rightarrow> int \<Rightarrow> int" where
  "days_from_civil y m d =
     (let y' = (if m \<le> 2 then y - 1 else y); era = y' div 400; yoe = y' - era * 400;
          doy = (153 * (m + (if m > 2 then - 3 else 9)) + 2) div 5 + d - 1;
          doe = yoe * 365 + yoe div 4 - yoe div 100 + doy
      in era * 146097 + doe - 719468)"

definition parse_date_part :: "string \<Rightarrow> (int \<times> string) option" where
  "parse_date_part s =
     Option.bind (take_digits 4 s) (\<lambda>(y, r).
     Option.bind (take_char (CHR ''-'') r) (\<lambda>r.
     Option.bind (take_digits 2 r) (\<lambda>(m, r).
     Option.bind (take_char (CHR ''-'') r) (\<lambda>r.
     Option.bind (take_digits 2 r) (\<lambda>(d, r).
       if 1 \<le> m \<and> m \<le> 12 \<and> 1 \<le> d \<and> d \<le> 31
       then Some (days_from_civil (int y) (int m) (int d), r) else None)))))"

definition parse_zone :: "string \<Rightarrow> int option" where
  "parse_zone s =
     (case s of
        [] \<Rightarrow> Some 0
      | c # r \<Rightarrow>
          if c = CHR ''Z'' then (if r = [] then Some 0 else None)
          else if c = CHR ''+'' \<or> c = CHR ''-'' then
            Option.bind (take_digits 2 r) (\<lambda>(h, r).
            Option.bind (take_char (CHR '':'') r) (\<lambda>r.
            Option.bind (take_digits 2 r) (\<lambda>(mi, r).
              if r = [] \<and> h < 24 \<and> mi < 60
              then Some ((if c = CHR ''+'' then 1 else - 1) * (int h * 60 + int mi)) else None)))
          else None)"

definition parse_fraction :: "string \<Rightarrow> (nat \<times> string) option" where
  "parse_fraction s =
     (case take_char (CHR ''.'') s of
        None \<Rightarrow> Some (0, s)
      | Some r \<Rightarrow>
          let ds = takeWhile is_digit r in
          if ds = [] then None
          else Some (read_nat (take 3 (ds @ ''00'')), dropWhile is_digit r))"

definition parse_time_part :: "string \<Rightarrow> int option" where
  "parse_time_part s =
     Option.bind (take_digits 2 s) (\<lambda>(h, r).
     Option.bind (take_char (CHR '':'') r) (\<lambda>r.
     Option.bind (take_digits 2 r) (\<lambda>(mi, r).
     Option.bind (case take_char (CHR '':'') r of None \<Rightarrow> Some (0, r) | Some r \<Rightarrow> take_digits 2 r) (\<lambda>(sec, r).
     Option.bind (parse_fraction r) (\<lambda>(ms, r).
     Option.bind (parse_zone r) (\<lambda>off.
       if h < 24 \<and> mi < 60 \<and> sec < 60
       then Some (((int h * 60 + int mi - off) * 60 + int sec) * 1000 + int ms) else None))))))"

definition date_parse :: "string \<Rightarrow> int option" where
  "date_parse s =
     Option.bind (parse_date_part s) (\<lambda>(days, r).
       if r = [] then Some (days * 86400000)
       else Option.bind (take_char (CHR ''T'') r) (\<lambda>r.
            map_option (\<lambda>t. days * 86400000 + t) (parse_time_part r)))"

text \<open>\<open>Date.parse(a) - Date.parse(b)\<close> as a sort comparator: \<open>NaN\<close> counts as zero.\<close>

definition date_diff :: "string \<Rightarrow> string \<Rightarrow> int" where
  "date_diff a b =
     (case (date_parse a, date_parse b) of (Some x, Some y) \<Rightarrow> x - y | _ \<Rightarrow> 0)"

lemma date_parse_epoch: "date_parse ''1970-01-01T00:00:00.000Z'' = Some 0"
  by code_simp

lemma date_parse_example: "date_parse ''2026-09-12T10:30:15.123456+05:30'' = Some 1789189215123"
  by code_simp

lemma date_diff_consistent:
  assumes "\<forall>x \<in> A. date_parse (f x) \<noteq> None"
  shows "consistent (\<lambda>x y. date_diff (f x) (f y)) A"
proof -
  have "date_diff (f x) (f y) = the (date_parse (f x)) - the (date_parse (f y))"
    if "x \<in> A" "y \<in> A" for x y
    using bspec [OF assms that(1)] bspec [OF assms that(2)] by (auto simp: date_diff_def)
  then show ?thesis by (simp add: consistent_def linear)
qed

end
