(* ===== verification/RunEvents.thy ===== *)
theory RunEvents imports Messages Dates begin

text \<open>
  \<open>frontend/socket/handleChatEvent.ts\<close>: progress events of a run folded into the chat's
  messages, the restoration of runs from a snapshot, and the handler of one incoming frame. The
  setters of \<open>WebSocketHandlers\<close> write the fields of \<open>chat_ui\<close>. A frame is what \<open>JSON.parse\<close>
  yields, read through the interfaces of \<open>frontend/types/chat.type.ts\<close>; \<open>Unreadable\<close> is text
  that does not parse or has not that shape, where the handler's \<open>catch\<close> runs.
\<close>

section \<open>Data\<close>

record run_event =
  ev_kind :: string
  ev_run :: string
  ev_id :: string
  ev_at :: string
  ev_name :: "string option"
  ev_call :: "string option"
  ev_ok :: "bool option"
  ev_status :: "run_status option"
  ev_message :: "string option"
  ev_output :: "string option"
  ev_details :: "json option"
  ev_duration :: "int option"
  ev_url :: "string option"
  ev_checks :: "json option"

record run_snapshot =
  snap_id :: string
  snap_at :: "string option"
  snap_status :: run_status
  snap_reason :: "string option"
  snap_events :: "run_event list"

record chat_ui =
  terminal_runs :: "string list"
  building :: bool
  current_run :: "string option"
  shown :: "message list"
  app_url :: "string option"
  banner :: "string option"

section \<open>One event\<close>

definition run_msg_id :: "string \<Rightarrow> string" where
  "run_msg_id r = ''run:'' @ r"

definition the_activity :: "message \<Rightarrow> activity_item list" where
  "the_activity m = (case activity m of None \<Rightarrow> [] | Some xs \<Rightarrow> xs)"

definition is_activity :: "run_event \<Rightarrow> bool" where
  "is_activity ev \<longleftrightarrow> ev_kind ev = ''stage'' \<or> ev_kind ev = ''verification''"

definition is_tool :: "run_event \<Rightarrow> bool" where
  "is_tool ev \<longleftrightarrow> ev_kind ev = ''tool_started'' \<or> ev_kind ev = ''tool_completed''"

definition activity_key :: "run_event \<Rightarrow> string" where
  "activity_key ev =
     str_or (ev_id ev)
       (ev_kind ev @ '':'' @ ev_at ev @ '':'' @
        (case ev_message ev of None \<Rightarrow> ''undefined'' | Some m \<Rightarrow> m))"

definition new_run_message :: "run_event \<Rightarrow> message" where
  "new_run_message ev =
     \<lparr>msg_id = run_msg_id (ev_run ev), msg_role = Role_assistant, msg_content = [],
      created_at = ev_at ev, event_type = Some ''run'', tool_calls = Some [],
      activity = Some [], run_state = Some Run_running, finished_at = None\<rparr>"

definition event_call :: "run_event \<Rightarrow> tool_call" where
  "event_call ev =
     \<lparr>call_key = ev_call ev,
      call_name = str_or (opt_str (ev_name ev)) ''Tool'',
      call_status =
        (if ev_kind ev = ''tool_started'' then Call_running
         else if ev_ok ev = Some True then Call_success else Call_error),
      call_output = ev_output ev, call_duration = ev_duration ev, call_details = ev_details ev,
      call_run = Some (ev_run ev), call_event = Some (ev_id ev)\<rparr>"

definition event_activity :: "run_event \<Rightarrow> activity_item" where
  "event_activity ev =
     \<lparr>act_id = activity_key ev,
      act_kind = (if ev_kind ev = ''stage'' then Kind_stage else Kind_verification),
      act_created_at = ev_at ev, act_message = ev_message ev, act_ok = ev_ok ev,
      act_checks = ev_checks ev\<rparr>"

text \<open>Lines 40 to 70, on the copied message; \<open>idx\<close> is \<open>toolIndex\<close> when it is not negative.\<close>

definition record_event :: "nat option \<Rightarrow> run_event \<Rightarrow> message \<Rightarrow> message" where
  "record_event idx ev m =
     (if is_tool ev then
        m\<lparr>tool_calls := Some (case idx of
            None \<Rightarrow> the_calls m @ [event_call ev]
          | Some i \<Rightarrow> (the_calls m)[i := event_call ev])\<rparr>
      else if is_activity ev then m\<lparr>activity := Some (the_activity m @ [event_activity ev])\<rparr>
      else if truthy_str (ev_message ev) then m\<lparr>msg_content := opt_str (ev_message ev)\<rparr>
      else m)"

definition end_call :: "tool_call \<Rightarrow> tool_call" where
  "end_call c =
     (if call_status c = Call_running
      then c\<lparr>call_status := Call_error, call_output := Some ''Run ended before this operation completed.''\<rparr>
      else c)"

text \<open>Lines 71 to 79.\<close>

definition finish_message :: "run_event \<Rightarrow> message \<Rightarrow> message" where
  "finish_message ev m =
     (if ev_kind ev = ''run_finished'' then
        m\<lparr>run_state := Some (case ev_status ev of Some s \<Rightarrow> s | None \<Rightarrow> Run_interrupted),
          finished_at := Some (ev_at ev),
          tool_calls := map_option (map end_call) (tool_calls m)\<rparr>
      else m)"

definition find_message :: "string \<Rightarrow> message list \<Rightarrow> message option" where
  "find_message i ms = List.find (\<lambda>m. msg_id m = i) ms"

definition put_message :: "string \<Rightarrow> message \<Rightarrow> message list \<Rightarrow> message list" where
  "put_message i m ms =
     (if find_message i ms \<noteq> None then map (\<lambda>x. if msg_id x = i then m else x) ms else ms @ [m])"

definition tool_index :: "run_event \<Rightarrow> message option \<Rightarrow> nat option" where
  "tool_index ev existing =
     (if is_tool ev then
        (case existing of
           None \<Rightarrow> None
         | Some m \<Rightarrow> find_index (\<lambda>c. call_key c = ev_call ev) (the_calls m))
      else None)"

text \<open>The early returns of lines 4 to 22.\<close>

definition ignored :: "run_event \<Rightarrow> message option \<Rightarrow> bool" where
  "ignored ev existing \<longleftrightarrow>
     ev_run ev = [] \<or>
     is_activity ev \<and> (case existing of None \<Rightarrow> False
       | Some m \<Rightarrow> \<exists>item \<in> set (the_activity m). act_id item = activity_key ev) \<or>
     is_tool ev \<and> \<not> truthy_str (ev_call ev) \<or>
     ev_kind ev = ''tool_started'' \<and> tool_index ev existing \<noteq> None"

definition base_message :: "run_event \<Rightarrow> message option \<Rightarrow> message" where
  "base_message ev existing =
     (case existing of
        Some m \<Rightarrow> m\<lparr>activity := Some (the_activity m), tool_calls := Some (the_calls m)\<rparr>
      | None \<Rightarrow> new_run_message ev)"

definition apply_run_event :: "message list \<Rightarrow> run_event \<Rightarrow> message list" where
  "apply_run_event ms ev =
     (let i = run_msg_id (ev_run ev); existing = find_message i ms in
      if ignored ev existing then ms
      else put_message i
             (finish_message ev (record_event (tool_index ev existing) ev (base_message ev existing))) ms)"

section \<open>Restoring runs from a snapshot\<close>

definition epoch_iso :: string where
  "epoch_iso = ''1970-01-01T00:00:00.000Z''"

definition terminal_event :: "run_snapshot \<Rightarrow> run_event" where
  "terminal_event run =
     \<lparr>ev_kind = ''run_finished'', ev_run = snap_id run, ev_id = snap_id run @ '':terminal'',
      ev_at = str_or (if snap_events run = [] then [] else ev_at (last (snap_events run)))
                (str_or (opt_str (snap_at run)) epoch_iso),
      ev_name = None, ev_call = None, ev_ok = None, ev_status = Some (snap_status run),
      ev_message = Some (str_or (opt_str (snap_reason run)) (''Run '' @ show_run_status (snap_status run))),
      ev_output = None, ev_details = None, ev_duration = None, ev_url = None, ev_checks = None\<rparr>"

definition needs_terminal :: "run_snapshot \<Rightarrow> bool" where
  "needs_terminal run \<longleftrightarrow>
     snap_status run \<noteq> Run_running \<and> \<not> (\<exists>ev \<in> set (snap_events run). ev_kind ev = ''run_finished'')"

definition restore_run :: "message list \<Rightarrow> run_snapshot \<Rightarrow> message list" where
  "restore_run ms run =
     (let ms1 = foldl apply_run_event ms (snap_events run) in
      if needs_terminal run
      then map (\<lambda>m. if msg_id m = run_msg_id (snap_id run) then m\<lparr>finished_at := None\<rparr> else m)
             (apply_run_event ms1 (terminal_event run))
      else ms1)"

definition restore_runs :: "message list \<Rightarrow> run_snapshot list \<Rightarrow> message list" where
  "restore_runs ms runs =
     js_sort (\<lambda>a b. date_diff (created_at a) (created_at b)) (foldl restore_run ms runs)"

section \<open>One incoming frame\<close>

datatype frame =
    Unreadable
  | History "string option" "message list" "run_snapshot list"
  | Event run_event

definition add_terminal :: "string \<Rightarrow> string list \<Rightarrow> string list" where
  "add_terminal r rs = (if r \<in> set rs then rs else rs @ [r])"

definition is_run_summary :: "run_snapshot list \<Rightarrow> message \<Rightarrow> bool" where
  "is_run_summary runs m \<longleftrightarrow>
     event_type m = Some ''run_summary'' \<and> (\<exists>run \<in> set runs. snap_id run = msg_id m)"

definition handle_history ::
  "string option \<Rightarrow> message list \<Rightarrow> run_snapshot list \<Rightarrow> chat_ui \<Rightarrow> chat_ui" where
  "handle_history url ms runs ui =
     (let active = List.find (\<lambda>run. snap_status run = Run_running) runs in
      ui\<lparr>terminal_runs :=
           foldl (\<lambda>rs run. if snap_status run \<noteq> Run_running then add_terminal (snap_id run) rs else rs)
             (terminal_runs ui) runs,
         shown := restore_runs (consolidate_messages (filter (\<lambda>m. \<not> is_run_summary runs m) ms)) runs,
         current_run :=
           (case active of Some run \<Rightarrow> if snap_id run = [] then None else Some (snap_id run) | None \<Rightarrow> None),
         building := active \<noteq> None,
         app_url := (if truthy_str url then url else None),
         banner := None\<rparr>)"

definition handle_event :: "run_event \<Rightarrow> chat_ui \<Rightarrow> chat_ui" where
  "handle_event ev ui =
     (if ev_run ev = [] \<or> ev_run ev \<in> set (terminal_runs ui) then ui
      else
        let ui1 = ui\<lparr>shown := apply_run_event (shown ui) ev\<rparr>;
            ui2 = (if ev_kind ev \<in> {''run_started'', ''stage'', ''tool_started''}
                   then ui1\<lparr>current_run := Some (ev_run ev), building := True\<rparr> else ui1)
        in if ev_kind ev = ''run_finished''
           then ui2\<lparr>terminal_runs := add_terminal (ev_run ev) (terminal_runs ui2),
                    current_run := None, building := False, banner := None,
                    app_url := (if ev_status ev = Some Run_succeeded \<and> truthy_str (ev_url ev)
                                then ev_url ev else None)\<rparr>
           else ui2)"

definition handle_frame :: "frame \<Rightarrow> chat_ui \<Rightarrow> chat_ui" where
  "handle_frame fr ui =
     (case fr of
        Unreadable \<Rightarrow>
          ui\<lparr>banner := Some ''Could not read a progress update. Reconnect to reload run status.''\<rparr>
      | History url ms runs \<Rightarrow> handle_history url ms runs ui
      | Event ev \<Rightarrow> handle_event ev ui)"

section \<open>Lemmas: one message per run\<close>

lemma find_message_Some: "find_message i ms = Some m \<Longrightarrow> msg_id m = i \<and> m \<in> set ms"
  by (auto simp: find_message_def find_Some_iff)

lemma find_message_None: "find_message i ms = None \<longleftrightarrow> i \<notin> msg_id ` set ms"
  by (auto simp: find_message_def find_None_iff)

lemma find_put [simp]: "msg_id m = i \<Longrightarrow> find_message i (put_message i m ms) = Some m"
proof (induction ms)
  case (Cons x xs)
  then show ?case
    by (auto simp: put_message_def find_message_def split: if_splits)
qed (simp add: put_message_def find_message_def)

lemma put_put:
  assumes "msg_id m = i"
  shows "put_message i m (put_message i m ms) = put_message i m ms"
proof (cases "find_message i ms")
  case None
  then have "\<forall>x \<in> set ms. msg_id x \<noteq> i" by (auto simp: find_message_None)
  then have "map (\<lambda>x. if msg_id x = i then m else x) ms = ms" by (auto intro: map_idI)
  with None assms find_put [OF assms, of ms] show ?thesis by (simp add: put_message_def)
next
  case (Some x)
  with assms find_put [OF assms, of ms] show ?thesis
    by (auto simp: put_message_def)
qed

lemma ids_put:
  "msg_id m = i \<Longrightarrow>
   map msg_id (put_message i m ms) = (if i \<in> msg_id ` set ms then map msg_id ms else map msg_id ms @ [i])"
  by (auto simp: put_message_def find_message_None [symmetric])

lemma put_message_other:
  "msg_id m = i \<Longrightarrow> filter (\<lambda>x. msg_id x \<noteq> i) (put_message i m ms) = filter (\<lambda>x. msg_id x \<noteq> i) ms"
proof -
  assume "msg_id m = i"
  moreover from this have "filter (\<lambda>x. msg_id x \<noteq> i) (map (\<lambda>x. if msg_id x = i then m else x) ms) =
    filter (\<lambda>x. msg_id x \<noteq> i) ms" by (induction ms) auto
  ultimately show ?thesis by (simp add: put_message_def)
qed

lemma set_put_message:
  "msg_id m = i \<Longrightarrow> x \<in> set (put_message i m ms) \<longleftrightarrow> x = m \<or> x \<in> set ms \<and> msg_id x \<noteq> i"
proof -
  assume m: "msg_id m = i"
  have "(\<exists>y \<in> set ms. msg_id y = i) \<longleftrightarrow> find_message i ms \<noteq> None"
    using find_message_None [of i ms] by auto
  with m show ?thesis by (auto simp: put_message_def)
qed

lemma ids_of_parts [simp]:
  "msg_id (finish_message ev m) = msg_id m"
  "msg_id (record_event idx ev m) = msg_id m"
  by (simp_all add: finish_message_def record_event_def)

lemma base_message_id:
  "msg_id (base_message ev (find_message (run_msg_id (ev_run ev)) ms)) = run_msg_id (ev_run ev)"
  by (auto simp: base_message_def new_run_message_def split: option.split dest: find_message_Some)

definition next_message :: "run_event \<Rightarrow> message list \<Rightarrow> message" where
  "next_message ev ms =
     (let existing = find_message (run_msg_id (ev_run ev)) ms in
      finish_message ev (record_event (tool_index ev existing) ev (base_message ev existing)))"

lemma next_message_id [simp]: "msg_id (next_message ev ms) = run_msg_id (ev_run ev)"
  by (simp add: next_message_def Let_def base_message_id)

lemma apply_run_event_cases:
  "apply_run_event ms ev =
     (if ignored ev (find_message (run_msg_id (ev_run ev)) ms) then ms
      else put_message (run_msg_id (ev_run ev)) (next_message ev ms) ms)"
  by (simp add: apply_run_event_def next_message_def Let_def)

lemma kinds_apart:
  "is_tool ev \<Longrightarrow> ev_kind ev \<noteq> ''run_finished'' \<and> \<not> is_activity ev"
  "is_activity ev \<Longrightarrow> ev_kind ev \<noteq> ''run_finished'' \<and> \<not> is_tool ev"
  by (auto simp: is_tool_def is_activity_def)

lemma end_call_idem [simp]: "end_call (end_call c) = end_call c"
  by (simp add: end_call_def)

lemma find_index_snoc:
  "find_index P xs = None \<Longrightarrow> P x \<Longrightarrow> find_index P (xs @ [x]) = Some (length xs)"
  by (induction xs) (auto split: if_splits)

lemma find_index_update:
  "find_index P xs = Some i \<Longrightarrow> P x \<Longrightarrow> find_index P (xs[i := x]) = Some i"
  by (induction xs arbitrary: i) (auto split: if_splits)

text \<open>Applying the event again to the message it produced: ignored, or the same message.\<close>

lemma replay_tool:
  assumes "is_tool ev" and "\<not> ignored ev existing"
    and m: "m = finish_message ev (record_event (tool_index ev existing) ev (base_message ev existing))"
  shows "ignored ev (Some m) \<or>
    finish_message ev (record_event (tool_index ev (Some m)) ev (base_message ev (Some m))) = m"
proof -
  note apart = kinds_apart(1) [OF assms(1)]
  have key: "call_key (event_call ev) = ev_call ev" by (simp add: event_call_def)
  obtain cs where cs: "the_calls (base_message ev existing) = cs"
    and idx: "tool_index ev existing = find_index (\<lambda>c. call_key c = ev_call ev) cs"
    using assms(1)
    by (auto simp: tool_index_def base_message_def new_run_message_def the_calls_def split: option.splits)
  define cs' where "cs' = (case tool_index ev existing of
      None \<Rightarrow> cs @ [event_call ev] | Some i \<Rightarrow> cs[i := event_call ev])"
  have m': "m = (base_message ev existing)\<lparr>tool_calls := Some cs'\<rparr>"
    unfolding cs'_def cs [symmetric]
    using m assms(1) apart by (simp add: record_event_def finish_message_def)
  have "\<exists>i < length cs'. find_index (\<lambda>c. call_key c = ev_call ev) cs' = Some i \<and> cs' ! i = event_call ev"
  proof (cases "tool_index ev existing")
    case None
    with find_index_snoc [of "\<lambda>c. call_key c = ev_call ev" cs "event_call ev"] idx key
    show ?thesis by (simp add: cs'_def)
  next
    case (Some i)
    then have "cs' = cs[i := event_call ev]" by (simp add: cs'_def)
    moreover have found: "find_index (\<lambda>c. call_key c = ev_call ev) cs = Some i" using Some idx by simp
    moreover note find_index_Some [OF found] find_index_update [OF found, of "event_call ev"] key
    ultimately show ?thesis by simp
  qed
  then obtain i where i: "i < length cs'" "find_index (\<lambda>c. call_key c = ev_call ev) cs' = Some i"
    "cs' ! i = event_call ev" by blast
  have "tool_index ev (Some m) = Some i"
    using i(2) assms(1) m' by (simp add: tool_index_def the_calls_def)
  moreover have "base_message ev (Some m) = m"
    using m' by (auto simp: base_message_def the_activity_def the_calls_def new_run_message_def split: option.splits)
  ultimately show ?thesis
    using m' i(3) list_update_id [of cs' i] assms(1) apart
    by (simp add: record_event_def finish_message_def the_calls_def)
qed

lemma replay_same:
  assumes "\<not> ignored ev existing"
    and m: "m = finish_message ev (record_event (tool_index ev existing) ev (base_message ev existing))"
  shows "ignored ev (Some m) \<or>
    finish_message ev (record_event (tool_index ev (Some m)) ev (base_message ev (Some m))) = m"
proof -
  have full: "tool_calls (base_message ev existing) \<noteq> None" "activity (base_message ev existing) \<noteq> None"
    by (auto simp: base_message_def new_run_message_def split: option.split)
  consider "is_tool ev" | "is_activity ev" | "\<not> is_tool ev" "\<not> is_activity ev" by blast
  then show ?thesis
  proof cases
    case 1
    with assms show ?thesis by (intro replay_tool)
  next
    case 2
    then have "event_activity ev \<in> set (the_activity m)"
      using m kinds_apart(2) [OF 2]
      by (simp add: record_event_def finish_message_def the_activity_def)
    then have "\<exists>item \<in> set (the_activity m). act_id item = activity_key ev"
      by (auto simp: event_activity_def intro!: bexI [of _ "event_activity ev"])
    with 2 show ?thesis by (simp add: ignored_def)
  next
    case 3
    with full m show ?thesis
      by (auto simp: record_event_def finish_message_def tool_index_def base_message_def
          the_calls_def the_activity_def truthy_str_def)
  qed
qed

lemma apply_run_event_idem:
  "apply_run_event (apply_run_event ms ev) ev = apply_run_event ms ev"
proof (cases "ignored ev (find_message (run_msg_id (ev_run ev)) ms)")
  case True
  then show ?thesis by (simp add: apply_run_event_cases)
next
  case False
  let ?i = "run_msg_id (ev_run ev)" and ?m = "next_message ev ms"
  have step: "apply_run_event ms ev = put_message ?i ?m ms"
    using False by (simp add: apply_run_event_cases)
  have found: "find_message ?i (put_message ?i ?m ms) = Some ?m" by simp
  from replay_same [OF False] have
    "ignored ev (Some ?m) \<or> next_message ev (put_message ?i ?m ms) = ?m"
    by (simp add: next_message_def Let_def found [unfolded next_message_def Let_def])
  with found step put_put [of ?m ?i ms] show ?thesis
    by (auto simp: apply_run_event_cases)
qed

section \<open>Lemmas: messages of a run\<close>

lemma run_msg_id_inj [simp]: "run_msg_id r = run_msg_id r' \<longleftrightarrow> r = r'"
  by (simp add: run_msg_id_def)

lemma starts_run_msg_id: "starts_with ''run:'' (run_msg_id r)"
  unfolding run_msg_id_def by (rule starts_with_append)

lemma set_apply_run_event:
  "m \<in> set (apply_run_event ms ev) \<Longrightarrow>
   m \<in> set ms \<and> (msg_id m \<noteq> run_msg_id (ev_run ev) \<or> ignored ev (find_message (run_msg_id (ev_run ev)) ms)) \<or>
   m = next_message ev ms \<and> \<not> ignored ev (find_message (run_msg_id (ev_run ev)) ms)"
  by (auto simp: apply_run_event_cases set_put_message split: if_splits)

lemma ids_apply_run_event:
  "msg_id ` set (apply_run_event ms ev) \<subseteq> insert (run_msg_id (ev_run ev)) (msg_id ` set ms)"
  by (auto dest: set_apply_run_event)

lemma apply_run_event_frame:
  "filter (\<lambda>m. msg_id m \<noteq> run_msg_id (ev_run ev)) (apply_run_event ms ev) =
   filter (\<lambda>m. msg_id m \<noteq> run_msg_id (ev_run ev)) ms"
  by (simp add: apply_run_event_cases put_message_other)

lemma distinct_ids_apply [keep_inv]:
  "distinct (map msg_id ms) \<Longrightarrow> distinct (map msg_id (apply_run_event ms ev))"
  by (auto simp: apply_run_event_cases ids_put)

definition open_call :: "message \<Rightarrow> bool" where
  "open_call m \<longleftrightarrow> (\<exists>c \<in> set (the_calls m). call_status c = Call_running)"

definition closed_run :: "message list \<Rightarrow> string \<Rightarrow> bool" where
  "closed_run ms r \<longleftrightarrow> (\<forall>m \<in> set ms. msg_id m = run_msg_id r \<longrightarrow> \<not> open_call m)"

lemma finish_closes: "ev_kind ev = ''run_finished'' \<Longrightarrow> \<not> open_call (next_message ev ms)"
  by (auto simp: next_message_def Let_def finish_message_def open_call_def the_calls_def end_call_def
      split: option.splits)

lemma finish_not_ignored:
  "ev_kind ev = ''run_finished'' \<Longrightarrow> ev_run ev \<noteq> [] \<Longrightarrow> \<not> ignored ev existing"
  by (simp add: ignored_def is_activity_def is_tool_def)

lemma closed_by_finish:
  "ev_kind ev = ''run_finished'' \<Longrightarrow> ev_run ev \<noteq> [] \<Longrightarrow> closed_run (apply_run_event ms ev) (ev_run ev)"
  by (auto simp: closed_run_def finish_closes finish_not_ignored dest!: set_apply_run_event)

lemma closed_other: "r \<noteq> ev_run ev \<Longrightarrow> closed_run ms r \<Longrightarrow> closed_run (apply_run_event ms ev) r"
  by (auto simp: closed_run_def dest!: set_apply_run_event)

lemma closed_others:
  "\<forall>ev \<in> set evs. ev_run ev \<noteq> r \<Longrightarrow> closed_run ms r \<Longrightarrow> closed_run (foldl apply_run_event ms evs) r"
  by (induction evs arbitrary: ms) (auto simp: closed_other)

section \<open>Lemmas: snapshots\<close>

text \<open>
  What the server's snapshots satisfy: every event belongs to its run, and nothing follows the
  end of a run.
\<close>

definition snapshot_ok :: "run_snapshot \<Rightarrow> bool" where
  "snapshot_ok run \<longleftrightarrow> snap_id run \<noteq> [] \<and> (\<forall>ev \<in> set (snap_events run). ev_run ev = snap_id run) \<and>
     (\<forall>ev \<in> set (butlast (snap_events run)). ev_kind ev \<noteq> ''run_finished'')"

lemma ids_foldl_apply:
  "msg_id ` set (foldl apply_run_event ms evs) \<subseteq> run_msg_id ` ev_run ` set evs \<union> msg_id ` set ms"
proof (induction evs arbitrary: ms)
  case (Cons ev evs)
  have "msg_id ` set (foldl apply_run_event ms (ev # evs)) \<subseteq>
      run_msg_id ` ev_run ` set evs \<union> msg_id ` set (apply_run_event ms ev)"
    using Cons [of "apply_run_event ms ev"] by simp
  also have "\<dots> \<subseteq> run_msg_id ` ev_run ` set (ev # evs) \<union> msg_id ` set ms"
    using ids_apply_run_event [of ms ev] by auto
  finally show ?case .
qed simp

lemma ids_unfinish [simp]: "map msg_id (map (\<lambda>m. if P m then m\<lparr>finished_at := None\<rparr> else m) ms) = map msg_id ms"
  by simp

lemma ids_set_unfinish: "msg_id ` set (map (\<lambda>m. if P m then m\<lparr>finished_at := None\<rparr> else m) ms) = msg_id ` set ms"
  using ids_unfinish [of P ms] by (metis list.set_map)

lemma closed_map:
  "(\<And>m. msg_id (f m) = msg_id m \<and> open_call (f m) = open_call m) \<Longrightarrow> closed_run (map f ms) r = closed_run ms r"
  by (simp add: closed_run_def)

lemma closed_unfinish:
  "closed_run (map (\<lambda>m. if P m then m\<lparr>finished_at := None\<rparr> else m) ms) r = closed_run ms r"
  by (rule closed_map) (simp add: open_call_def the_calls_def)

lemma restore_run_closes:
  assumes ok: "snapshot_ok run" and st: "snap_status run \<noteq> Run_running"
  shows "closed_run (restore_run ms run) (snap_id run)"
proof (cases "needs_terminal run")
  case True
  have "closed_run (apply_run_event ms' (terminal_event run)) (snap_id run)" for ms'
    using closed_by_finish [of "terminal_event run" ms'] ok
    by (simp add: terminal_event_def snapshot_ok_def)
  with True show ?thesis by (simp add: restore_run_def Let_def closed_unfinish)
next
  case False
  with st obtain ev where ev: "ev \<in> set (snap_events run)" "ev_kind ev = ''run_finished''"
    by (auto simp: needs_terminal_def)
  then obtain evs where evs: "snap_events run = evs @ [last (snap_events run)]"
    by (metis append_butlast_last_id empty_iff list.set(1))
  have "ev = last (snap_events run)"
    using ev ok evs unfolding snapshot_ok_def
    by (metis UnE append_butlast_last_id empty_iff empty_set set_ConsD set_append)
  moreover have "ev_run ev = snap_id run" "snap_id run \<noteq> []"
    using ok ev(1) by (auto simp: snapshot_ok_def)
  ultimately have "closed_run (foldl apply_run_event ms (snap_events run)) (snap_id run)"
    using closed_by_finish [of ev "foldl apply_run_event ms evs"] ev(2) evs
    by (metis foldl_Cons foldl_Nil foldl_append)
  with False show ?thesis by (simp add: restore_run_def)
qed

lemma restore_run_other:
  assumes ok: "snapshot_ok run" and ne: "r \<noteq> snap_id run" and closed: "closed_run ms r"
  shows "closed_run (restore_run ms run) r"
proof -
  have "closed_run (foldl apply_run_event ms (snap_events run)) r"
    using ok ne closed by (intro closed_others) (auto simp: snapshot_ok_def)
  moreover from this have "closed_run (apply_run_event (foldl apply_run_event ms (snap_events run)) (terminal_event run)) r"
    using ne by (intro closed_other) (simp_all add: terminal_event_def)
  ultimately show ?thesis by (simp add: restore_run_def Let_def closed_unfinish)
qed

lemma restore_runs_closed:
  assumes "\<forall>run \<in> set runs. snapshot_ok run" and "distinct (map snap_id runs)"
    and "(\<exists>run \<in> set runs. snap_id run = r \<and> snap_status run \<noteq> Run_running) \<or>
         r \<notin> snap_id ` set runs \<and> closed_run ms r"
  shows "closed_run (foldl restore_run ms runs) r"
  using assms
proof (induction runs arbitrary: ms)
  case (Cons run runs)
  show ?case
  proof (cases "snap_id run = r")
    case True
    with Cons.prems(2) have notin: "r \<notin> snap_id ` set runs" by auto
    from True Cons.prems(3) obtain run' where run': "run' \<in> set (run # runs)" "snap_id run' = r"
      "snap_status run' \<noteq> Run_running" by auto
    with notin have "run' = run" by auto
    with run' have "snap_status run \<noteq> Run_running" by simp
    with True Cons.prems(1) have "closed_run (restore_run ms run) r"
      using restore_run_closes [of run ms] by simp
    with Cons notin show ?thesis by simp
  next
    case False
    with Cons.prems have "(\<exists>run \<in> set runs. snap_id run = r \<and> snap_status run \<noteq> Run_running) \<or>
         r \<notin> snap_id ` set runs \<and> closed_run (restore_run ms run) r"
      using restore_run_other [of run r ms] by auto
    with Cons show ?thesis by simp
  qed
qed simp

lemma ids_merge [simp]: "msg_id (merge_into g m) = msg_id g" "msg_id (start_group m) = msg_id m"
  by (simp_all add: merge_into_def start_group_def Let_def)

lemma ids_consolidate_from:
  "msg_id ` set (consolidate_from grp ms) \<subseteq> msg_id ` set (flush grp) \<union> msg_id ` set ms"
proof (induction ms arbitrary: grp)
  case (Cons m ms)
  show ?case
    using Cons [of None] Cons [of grp] Cons [of "Some (start_group m)"]
      Cons [of "Some (merge_into (the grp) m)"]
    by (cases grp) (auto simp: flush_def split: role.split)
qed simp

lemma ids_consolidate: "msg_id ` set (consolidate_messages ms) \<subseteq> msg_id ` set ms"
  using ids_consolidate_from [of None ms] by (simp add: consolidate_messages_def flush_def)

section \<open>Lemmas: the state of the page\<close>

text \<open>
  What a history frame has to satisfy: well-formed snapshots of distinct runs, stored messages
  whose identifiers are not those of run cards, and no snapshot older than an end of a run this
  page has already seen.
\<close>

definition frame_ok :: "chat_ui \<Rightarrow> frame \<Rightarrow> bool" where
  "frame_ok ui fr \<longleftrightarrow>
     (case fr of
        History url ms runs \<Rightarrow>
          (\<forall>run \<in> set runs. snapshot_ok run) \<and> distinct (map snap_id runs) \<and>
          (\<forall>m \<in> set ms. \<not> starts_with ''run:'' (msg_id m)) \<and>
          (\<forall>run \<in> set runs. snap_status run = Run_running \<longrightarrow> snap_id run \<notin> set (terminal_runs ui))
      | _ \<Rightarrow> True)"

definition ui_inv :: "chat_ui \<Rightarrow> bool" where
  "ui_inv ui \<longleftrightarrow>
     (\<forall>r \<in> set (terminal_runs ui). closed_run (shown ui) r) \<and>
     (case current_run ui of None \<Rightarrow> True | Some r \<Rightarrow> r \<notin> set (terminal_runs ui) \<and> building ui)"

definition empty_ui :: chat_ui where
  "empty_ui = \<lparr>terminal_runs = [], building = False, current_run = None, shown = [],
     app_url = None, banner = None\<rparr>"

lemma set_add_terminal [simp]: "set (add_terminal r rs) = insert r (set rs)"
  by (auto simp: add_terminal_def)

lemma set_foldl_terminal:
  "set (foldl (\<lambda>rs run. if snap_status run \<noteq> Run_running then add_terminal (snap_id run) rs else rs) rs runs) =
   set rs \<union> snap_id ` {run \<in> set runs. snap_status run \<noteq> Run_running}"
  by (induction runs arbitrary: rs) auto

lemma closed_js_sort [simp]: "closed_run (js_sort cmp ms) r = closed_run ms r"
  by (simp add: closed_run_def)

lemma handle_event_inv: "ui_inv ui \<Longrightarrow> ui_inv (handle_event ev ui)"
proof -
  assume inv: "ui_inv ui"
  show ?thesis
  proof (cases "ev_run ev = [] \<or> ev_run ev \<in> set (terminal_runs ui)")
    case True
    with inv show ?thesis by (simp add: handle_event_def)
  next
    case False
    then have others: "closed_run (apply_run_event (shown ui) ev) r" if "r \<in> set (terminal_runs ui)" for r
      using inv that closed_other [of r ev "shown ui"] by (auto simp: ui_inv_def)
    show ?thesis
    proof (cases "ev_kind ev = ''run_finished''")
      case True
      have "ui_inv (handle_event ev ui) \<longleftrightarrow>
        (\<forall>r \<in> insert (ev_run ev) (set (terminal_runs ui)). closed_run (apply_run_event (shown ui) ev) r)"
        using True False by (simp add: handle_event_def Let_def ui_inv_def)
      with True False others closed_by_finish [of ev "shown ui"] show ?thesis by simp
    next
      case nofin: False
      with False others inv show ?thesis
        by (auto simp: handle_event_def Let_def ui_inv_def split: option.splits)
    qed
  qed
qed

lemma handle_history_inv:
  assumes inv: "ui_inv ui" and ok: "frame_ok ui (History url ms runs)"
  shows "ui_inv (handle_history url ms runs ui)"
proof -
  let ?hist = "consolidate_messages (filter (\<lambda>m. \<not> is_run_summary runs m) ms)"
  have ids: "msg_id ` set ?hist \<subseteq> msg_id ` set ms"
    using ids_consolidate [of "filter (\<lambda>m. \<not> is_run_summary runs m) ms"] by auto
  have hist: "closed_run ?hist r" for r
  proof -
    have "run_msg_id r \<notin> msg_id ` set ms"
      using ok starts_run_msg_id [of r] by (auto simp: frame_ok_def)
    with ids show ?thesis unfolding closed_run_def by (metis imageI subsetD)
  qed
  have closed: "closed_run (restore_runs ?hist runs) r"
    if "r \<in> set (terminal_runs ui) \<union> snap_id ` {run \<in> set runs. snap_status run \<noteq> Run_running}" for r
  proof -
    have "(\<exists>run \<in> set runs. snap_id run = r \<and> snap_status run \<noteq> Run_running) \<or> r \<notin> snap_id ` set runs"
      using that ok by (auto simp: frame_ok_def)
    with hist ok restore_runs_closed [of runs r ?hist] show ?thesis
      by (auto simp: frame_ok_def restore_runs_def)
  qed
  have active: "snap_id run \<notin> set (terminal_runs ui) \<and>
      snap_id run \<notin> snap_id ` {run \<in> set runs. snap_status run \<noteq> Run_running}"
    if "List.find (\<lambda>run. snap_status run = Run_running) runs = Some run" for run
  proof -
    from that have run: "run \<in> set runs" "snap_status run = Run_running"
      by (auto simp: find_Some_iff)
    moreover have "inj_on snap_id (set runs)"
      using ok by (simp add: frame_ok_def distinct_map)
    ultimately show ?thesis using ok by (auto simp: frame_ok_def dest: inj_onD)
  qed
  from closed active show ?thesis
    by (auto simp: handle_history_def Let_def ui_inv_def set_foldl_terminal split: option.splits)
qed

lemma handle_frame_inv [keep_inv]: "ui_inv ui \<Longrightarrow> frame_ok ui fr \<Longrightarrow> ui_inv (handle_frame fr ui)"
proof (cases fr)
  case Unreadable
  then show "ui_inv ui \<Longrightarrow> ?thesis" by (simp add: handle_frame_def ui_inv_def split: option.splits)
qed (simp_all add: handle_frame_def handle_event_inv handle_history_inv)

fun frames_ok :: "chat_ui \<Rightarrow> frame list \<Rightarrow> bool" where
  "frames_ok ui [] \<longleftrightarrow> True"
| "frames_ok ui (fr # frs) \<longleftrightarrow> frame_ok ui fr \<and> frames_ok (handle_frame fr ui) frs"

definition handle_frames :: "chat_ui \<Rightarrow> frame list \<Rightarrow> chat_ui" where
  "handle_frames = foldl (\<lambda>ui fr. handle_frame fr ui)"

lemma handle_frames_inv: "ui_inv ui \<Longrightarrow> frames_ok ui frs \<Longrightarrow> ui_inv (handle_frames ui frs)"
  by (induction frs arbitrary: ui) (auto simp: handle_frames_def handle_frame_inv)

section \<open>Lemmas: time stamps\<close>

definition dated :: "message list \<Rightarrow> bool" where
  "dated ms \<longleftrightarrow> (\<forall>m \<in> set ms. date_parse (created_at m) \<noteq> None)"

definition snapshot_dated :: "run_snapshot \<Rightarrow> bool" where
  "snapshot_dated run \<longleftrightarrow> (\<forall>ev \<in> set (snap_events run). date_parse (ev_at ev) \<noteq> None) \<and>
     (case snap_at run of None \<Rightarrow> True | Some t \<Rightarrow> date_parse t \<noteq> None)"

lemma created_of_parts [simp]:
  "created_at (finish_message ev m) = created_at m"
  "created_at (record_event idx ev m) = created_at m"
  by (simp_all add: finish_message_def record_event_def)

lemma dated_apply [keep_inv]:
  assumes "dated ms" and "date_parse (ev_at ev) \<noteq> None"
  shows "dated (apply_run_event ms ev)"
proof -
  have "date_parse (created_at (next_message ev ms)) \<noteq> None"
    using assms find_message_Some [of "run_msg_id (ev_run ev)" ms]
    by (auto simp: next_message_def Let_def base_message_def new_run_message_def dated_def
        split: option.split)
  with assms(1) show ?thesis by (auto simp: dated_def dest!: set_apply_run_event)
qed

lemma dated_foldl_apply:
  "dated ms \<Longrightarrow> \<forall>ev \<in> set evs. date_parse (ev_at ev) \<noteq> None \<Longrightarrow> dated (foldl apply_run_event ms evs)"
  by (induction evs arbitrary: ms) (auto simp: dated_apply)

lemma date_parse_Nil: "date_parse [] = None"
  by code_simp

lemma terminal_event_dated:
  assumes "snapshot_dated run" shows "date_parse (ev_at (terminal_event run)) \<noteq> None"
proof (cases "snap_events run = []")
  case True
  with assms show ?thesis
    by (auto simp: terminal_event_def snapshot_dated_def str_or_def opt_str_def epoch_iso_def
        date_parse_epoch split: option.splits)
next
  case False
  then have "last (snap_events run) \<in> set (snap_events run)" by simp
  with assms have "date_parse (ev_at (last (snap_events run))) \<noteq> None"
    by (auto simp: snapshot_dated_def)
  moreover from this have "ev_at (last (snap_events run)) \<noteq> []"
    using date_parse_Nil by metis
  ultimately show ?thesis using False by (simp add: terminal_event_def str_or_def)
qed

lemma dated_restore_run [keep_inv]:
  assumes "dated ms" and "snapshot_dated run"
  shows "dated (restore_run ms run)"
proof -
  have one: "dated (foldl apply_run_event ms (snap_events run))"
    using assms by (intro dated_foldl_apply) (simp_all add: snapshot_dated_def)
  from dated_apply [OF this terminal_event_dated [OF assms(2)]] one
  show ?thesis by (auto simp: restore_run_def Let_def dated_def)
qed

lemma dated_foldl_restore:
  "dated ms \<Longrightarrow> \<forall>run \<in> set runs. snapshot_dated run \<Longrightarrow> dated (foldl restore_run ms runs)"
  by (induction runs arbitrary: ms) (auto simp: dated_restore_run)

section \<open>Properties\<close>

text \<open>
  An event delivered twice in a row counts once, whatever its kind and whatever the list of
  messages: the replay after a reconnect changes nothing.
\<close>

theorem replayed_event_ignored:
  "apply_run_event (apply_run_event ms ev) ev = apply_run_event ms ev"
  by (rule apply_run_event_idem)

text \<open>
  An event touches the card of its own run only. All other messages stay as they are and in
  their order, and the list of identifiers grows at most by the identifier of the run, at its end.
\<close>

theorem event_touches_only_its_run:
  "filter (\<lambda>m. msg_id m \<noteq> run_msg_id (ev_run ev)) (apply_run_event ms ev) =
     filter (\<lambda>m. msg_id m \<noteq> run_msg_id (ev_run ev)) ms \<and>
   (map msg_id (apply_run_event ms ev) = map msg_id ms \<or>
    run_msg_id (ev_run ev) \<notin> msg_id ` set ms \<and>
    map msg_id (apply_run_event ms ev) = map msg_id ms @ [run_msg_id (ev_run ev)])"
  using apply_run_event_frame [of ev ms] by (auto simp: apply_run_event_cases ids_put)


definition sample_event :: "string \<Rightarrow> string option \<Rightarrow> run_event" where
  "sample_event kind call =
     \<lparr>ev_kind = kind, ev_run = ''r1'', ev_id = ''e1'', ev_at = ''2026-01-02T03:04:05Z'',
      ev_name = Some ''write_file'', ev_call = call, ev_ok = None, ev_status = None,
      ev_message = None, ev_output = None, ev_details = None, ev_duration = None, ev_url = None,
      ev_checks = None\<rparr>"

definition sample_run :: run_snapshot where
  "sample_run = \<lparr>snap_id = ''r2'', snap_at = Some ''2026-01-01T00:00:00Z'', snap_status = Run_failed,
     snap_reason = None, snap_events = []\<rparr>"

definition sample_frames :: "frame list" where
  "sample_frames = [History None [] [sample_run], Event (sample_event ''tool_started'' (Some ''c1'')),
     Event (sample_event ''run_finished'' None)]"


text \<open>
  The restored list holds exactly the messages that the fold over the runs produced, and when
  all time stamps of the history are readable it is in the order of those time stamps.
\<close>

theorem restored_in_order:
  assumes "\<forall>m \<in> set ms. date_parse (created_at m) \<noteq> None"
    and "\<forall>run \<in> set runs. snapshot_dated run"
  shows "mset (restore_runs ms runs) = mset (foldl restore_run ms runs) \<and>
    sorted_wrt (\<lambda>a b. the (date_parse (created_at a)) \<le> the (date_parse (created_at b)))
      (restore_runs ms runs)"
proof -
  let ?all = "foldl restore_run ms runs"
  have all: "\<forall>m \<in> set ?all. date_parse (created_at m) \<noteq> None"
    using dated_foldl_restore [of ms runs] assms by (simp add: dated_def)
  from js_sort_sorted [OF date_diff_consistent [OF this]]
  have "sorted_wrt (\<lambda>a b. date_diff (created_at a) (created_at b) \<le> 0) (restore_runs ms runs)"
    by (simp add: restore_runs_def)
  then have "sorted_wrt (\<lambda>a b. the (date_parse (created_at a)) \<le> the (date_parse (created_at b)))
      (restore_runs ms runs)"
  proof (rule sorted_wrt_mono_rel [rotated])
    fix a b assume "a \<in> set (restore_runs ms runs)" "b \<in> set (restore_runs ms runs)"
      and le: "date_diff (created_at a) (created_at b) \<le> 0"
    then have "a \<in> set ?all" "b \<in> set ?all" by (simp_all add: restore_runs_def)
    with all have "date_parse (created_at a) \<noteq> None" "date_parse (created_at b) \<noteq> None" by blast+
    with le show "the (date_parse (created_at a)) \<le> the (date_parse (created_at b))"
      by (auto simp: date_diff_def)
  qed
  then show ?thesis by (simp add: restore_runs_def)
qed

definition sample_history :: "message list" where
  "sample_history = [\<lparr>msg_id = ''m1'', msg_role = Role_user, msg_content = ''hello'',
     created_at = ''2026-01-01T00:00:01Z'', event_type = None, tool_calls = None, activity = None,
     run_state = None, finished_at = None\<rparr>]"

lemma restored_in_order_witness:
  "map msg_id (restore_runs sample_history [sample_run]) = [''run:r2'', ''m1''] \<and>
   sorted_wrt (\<lambda>a b. the (date_parse (created_at a)) \<le> the (date_parse (created_at b)))
     (restore_runs sample_history [sample_run])"
proof -
  have 1: "\<forall>m \<in> set sample_history. date_parse (created_at m) \<noteq> None" by code_simp
  have 2: "\<forall>run \<in> set [sample_run]. snapshot_dated run" by code_simp
  have "map msg_id (restore_runs sample_history [sample_run]) = [''run:r2'', ''m1'']" by code_simp
  with restored_in_order [OF 1 2] show ?thesis by simp
qed

end
