(* ===== verification/Storage.thy ===== *)
theory Storage imports Prelude begin

text \<open>
  \<open>localStorage\<close> and \<open>sessionStorage\<close> of the browser, which the frontend's session code and the
  live overlay's session code are clients of: string keys, string values, a quota on the total
  length (\<open>setItem\<close> throws when it would be exceeded), \<open>null\<close> for an absent key. The laws the
  clients rest on are the locale \<open>web_storage\<close>, interpreted on this model.
\<close>

section \<open>The model\<close>

record storage =
  entries :: "(string, string) omap"
  quota :: nat

definition storage_size :: "(string, string) omap \<Rightarrow> nat" where
  "storage_size es = sum_list (map (\<lambda>e. length (fst e) + length (snd e)) es)"

definition get_item :: "storage \<Rightarrow> string \<Rightarrow> string option" where
  "get_item st k = map_of (entries st) k"

definition set_item :: "storage \<Rightarrow> string \<Rightarrow> string \<Rightarrow> (js_error, storage) result" where
  "set_item st k v =
     (let es = omap_set k v (entries st) in
      if storage_size es \<le> quota st then Inr (st\<lparr>entries := es\<rparr>)
      else Inl (Thrown ''QuotaExceededError''))"

definition remove_item :: "storage \<Rightarrow> string \<Rightarrow> storage" where
  "remove_item st k = st\<lparr>entries := omap_del k (entries st)\<rparr>"

definition storage_ok :: "storage \<Rightarrow> bool" where
  "storage_ok st \<longleftrightarrow> distinct (keys (entries st))"

definition empty_storage :: "nat \<Rightarrow> storage" where
  "empty_storage q = \<lparr>entries = [], quota = q\<rparr>"

section \<open>The interface\<close>

locale web_storage =
  fixes get :: "'s \<Rightarrow> string \<Rightarrow> string option"
    and put :: "'s \<Rightarrow> string \<Rightarrow> string \<Rightarrow> (js_error, 's) result"
    and del :: "'s \<Rightarrow> string \<Rightarrow> 's"
    and ok :: "'s \<Rightarrow> bool"
  assumes get_put: "put st k v = Inr st' \<Longrightarrow> get st' j = (if j = k then Some v else get st j)"
    and get_del: "get (del st k) j = (if j = k then None else get st j)"
    and put_ok: "ok st \<Longrightarrow> put st k v = Inr st' \<Longrightarrow> ok st'"
    and del_ok: "ok st \<Longrightarrow> ok (del st k)"
begin

lemma get_dels: "get (foldl del st ks) j = (if j \<in> set ks then None else get st j)"
  by (induction ks arbitrary: st) (auto simp: get_del)

lemma dels_ok: "ok st \<Longrightarrow> ok (foldl del st ks)"
  by (induction ks arbitrary: st) (auto simp: del_ok)

lemma get_puts:
  assumes "bind_result (put st k v) (\<lambda>s. put s k' v') = Inr st'"
  shows "get st' j = (if j = k' then Some v' else if j = k then Some v else get st j)"
proof -
  from assms obtain s where "put st k v = Inr s" "put s k' v' = Inr st'"
    by (auto simp: bind_result_Inr_iff)
  then show ?thesis by (simp add: get_put)
qed

end

interpretation items: web_storage get_item set_item remove_item storage_ok
proof
  show "set_item st k v = Inr st' \<Longrightarrow> get_item st' j = (if j = k then Some v else get_item st j)"
    for st k v st' j
    by (auto simp: set_item_def get_item_def Let_def map_of_omap_set split: if_splits)
  show "get_item (remove_item st k) j = (if j = k then None else get_item st j)" for st k j
    by (simp add: remove_item_def get_item_def map_of_omap_del)
  show "storage_ok st \<Longrightarrow> set_item st k v = Inr st' \<Longrightarrow> storage_ok st'" for st k v st'
    by (auto simp: set_item_def storage_ok_def Let_def distinct_omap_set split: if_splits)
  show "storage_ok st \<Longrightarrow> storage_ok (remove_item st k)" for st k
    by (simp add: remove_item_def storage_ok_def distinct_omap_del)
qed

lemma get_empty [simp]: "get_item (empty_storage q) k = None"
  by (simp add: get_item_def empty_storage_def)

end
