(* ===== verification/AuthSession.thy ===== *)
theory AuthSession imports Storage ContentCache begin

text \<open>
  \<open>frontend/lib/auth/session.ts\<close> with the API types of \<open>frontend/types/auth.type.ts\<close>: the
  tokens of a login in \<open>localStorage\<close>. A statement that throws keeps what was written before it,
  so an operation that can fail returns its outcome and the new state. The value that
  \<open>crypto.randomUUID()\<close> returns is an argument.
\<close>

section \<open>State\<close>

record cost_window =
  limit_usd :: real
  used_or_reserved_usd :: real
  remaining_usd :: real
  resets_at :: string

record cost_allowance =
  allowance_unlimited :: bool
  currency :: string
  reset_timezone :: string
  daily :: cost_window
  monthly :: cost_window

record user_data =
  user_id :: int
  user_email :: string
  user_name :: string
  tokens_remaining :: int
  tokens_reset_at :: "string option"
  credits_unlimited :: "bool option"
  user_bio :: "string option"
  email_verified :: "bool option"
  user_created_at :: "string option"
  user_providers :: "string list option"
  user_allowance :: "cost_allowance option"

record login_response =
  access_token :: string
  refresh_token :: string
  token_type :: string

record register_response =
  verification_required :: bool
  register_message :: string

record browser =
  web_local :: storage
  file_contents :: file_cache
  location_path :: string

section \<open>Operations\<close>

definition get_session_id :: "storage \<Rightarrow> string option" where
  "get_session_id st =
     (if \<not> truthy_str (get_item st ''auth_token'') then None
      else if truthy_str (get_item st ''auth_session_id'') then get_item st ''auth_session_id''
      else get_item st ''auth_token'')"

definition session_keys :: "string list" where
  "session_keys = [''auth_token'', ''refresh_token'', ''auth_session_id'', ''user_data'']"

definition clear_session :: "browser \<Rightarrow> browser" where
  "clear_session b =
     b\<lparr>file_contents := clear_file_content_cache (file_contents b),
       web_local := foldl remove_item (web_local b) session_keys\<rparr>"

definition store_tokens :: "login_response \<Rightarrow> storage \<Rightarrow> (js_error, unit) result \<times> storage" where
  "store_tokens s st =
     (if access_token s = [] \<or> refresh_token s = []
      then (Inl (Thrown ''The server returned an incomplete login session.''), st)
      else (case set_item st ''refresh_token'' (refresh_token s) of
              Inl e \<Rightarrow> (Inl e, st)
            | Inr st1 \<Rightarrow>
                (case set_item st1 ''auth_token'' (access_token s) of
                   Inl e \<Rightarrow> (Inl e, st1)
                 | Inr st2 \<Rightarrow> (Inr (), st2))))"

definition save_session :: "string \<Rightarrow> login_response \<Rightarrow> browser \<Rightarrow> (js_error, unit) result \<times> browser" where
  "save_session uuid s b =
     (let b1 = b\<lparr>file_contents := clear_file_content_cache (file_contents b)\<rparr> in
      case store_tokens s (web_local b1) of
        (Inl e, st) \<Rightarrow> (Inl e, clear_session (b1\<lparr>web_local := st\<rparr>))
      | (Inr _, st) \<Rightarrow>
          (case set_item st ''auth_session_id'' uuid of
             Inl e \<Rightarrow> (Inl e, clear_session (b1\<lparr>web_local := st\<rparr>))
           | Inr st' \<Rightarrow> (Inr (), b1\<lparr>web_local := remove_item st' ''user_data''\<rparr>)))"

section \<open>Lemmas\<close>

lemma get_session_id_truthy: "get_session_id st = Some s \<Longrightarrow> s \<noteq> []"
  by (auto simp: get_session_id_def truthy_str_def opt_str_def split: if_splits option.splits)

lemma get_session_id_None:
  "get_session_id st = None \<longleftrightarrow> \<not> truthy_str (get_item st ''auth_token'')"
  by (auto simp: get_session_id_def truthy_str_def opt_str_def split: option.splits)

lemma get_session_id_cong:
  "get_item st ''auth_token'' = get_item st' ''auth_token'' \<Longrightarrow>
   get_item st ''auth_session_id'' = get_item st' ''auth_session_id'' \<Longrightarrow>
   get_session_id st = get_session_id st'"
  by (simp add: get_session_id_def)

lemma get_session_id_stored:
  assumes "truthy_str (get_item st ''auth_session_id'')"
  shows "get_session_id st =
    (if truthy_str (get_item st ''auth_token'') then get_item st ''auth_session_id'' else None)"
  using assms by (simp add: get_session_id_def)

lemma clear_session_items:
  "get_item (web_local (clear_session b)) k =
     (if k \<in> set session_keys then None else get_item (web_local b) k)"
  by (simp add: clear_session_def items.get_dels)

lemma clear_session_frame [simp]:
  "location_path (clear_session b) = location_path b"
  by (simp add: clear_session_def)

lemma cleared_session [simp]: "get_session_id (web_local (clear_session b)) = None"
  by (simp add: get_session_id_None clear_session_items session_keys_def truthy_str_def opt_str_def)

lemma cleared_cache: "cache_inv (clear_file_content_cache c)"
  by (simp add: clear_file_content_cache_def cache_inv_def total_bytes_def MAX_BYTES_def MAX_FILES_def)

lemma store_tokens_Inr:
  assumes "store_tokens s st = (Inr u, st')"
  shows "get_item st' k =
    (if k = ''auth_token'' then Some (access_token s)
     else if k = ''refresh_token'' then Some (refresh_token s) else get_item st k)"
    and "access_token s \<noteq> []" and "refresh_token s \<noteq> []"
proof -
  from assms have some: "access_token s \<noteq> [] \<and> refresh_token s \<noteq> []"
    by (auto simp: store_tokens_def split: if_splits)
  with assms have "bind_result (set_item st ''refresh_token'' (refresh_token s))
      (\<lambda>x. set_item x ''auth_token'' (access_token s)) = Inr st'"
    by (auto simp: store_tokens_def bind_result_def split: sum.splits)
  from items.get_puts [OF this]
  show "get_item st' k =
    (if k = ''auth_token'' then Some (access_token s)
     else if k = ''refresh_token'' then Some (refresh_token s) else get_item st k)" by simp
  from some show "access_token s \<noteq> []" "refresh_token s \<noteq> []" by simp_all
qed

lemma store_tokens_Inl:
  assumes "store_tokens s st = (Inl e, st')"
  shows "get_item st' k = get_item st k \<or> k = ''refresh_token'' \<and> get_item st' k = Some (refresh_token s)"
  using assms items.get_put [of st "''refresh_token''" "refresh_token s"]
  by (auto simp: store_tokens_def split: if_splits sum.splits)

lemma store_tokens_session:
  assumes "store_tokens s st = (r, st')" and "truthy_str (get_item st ''auth_session_id'')"
    and "get_session_id st \<noteq> None"
  shows "get_session_id st' = get_session_id st"
proof (cases r)
  case (Inl e)
  with assms(1) have "store_tokens s st = (Inl e, st')" by simp
  from store_tokens_Inl [OF this, of "''auth_token''"] store_tokens_Inl [OF this, of "''auth_session_id''"]
  show ?thesis by (intro get_session_id_cong) auto
next
  case (Inr u)
  with assms(1) have "store_tokens s st = (Inr u, st')" by simp
  note stored = store_tokens_Inr [OF this]
  have "get_item st' ''auth_session_id'' = get_item st ''auth_session_id''"
    "truthy_str (get_item st' ''auth_token'')"
    using stored by (simp_all add: truthy_str_def opt_str_def)
  with assms(2,3) show ?thesis
    by (auto simp: get_session_id_stored split: if_splits)
qed

lemma save_session_Inr:
  assumes "save_session uuid s b = (Inr u, b')"
  shows "get_item (web_local b') k =
    (if k = ''user_data'' then None else if k = ''auth_session_id'' then Some uuid
     else if k = ''auth_token'' then Some (access_token s)
     else if k = ''refresh_token'' then Some (refresh_token s) else get_item (web_local b) k)"
    and "access_token s \<noteq> []" and "refresh_token s \<noteq> []"
    and "file_contents b' = clear_file_content_cache (file_contents b)"
proof -
  from assms obtain u1 st st' where st: "store_tokens s (web_local b) = (Inr u1, st)"
    and st': "set_item st ''auth_session_id'' uuid = Inr st'"
    and b': "b' = b\<lparr>file_contents := clear_file_content_cache (file_contents b),
      web_local := remove_item st' ''user_data''\<rparr>"
    by (auto simp: save_session_def Let_def split: prod.splits sum.splits)
  from b' show "get_item (web_local b') k =
    (if k = ''user_data'' then None else if k = ''auth_session_id'' then Some uuid
     else if k = ''auth_token'' then Some (access_token s)
     else if k = ''refresh_token'' then Some (refresh_token s) else get_item (web_local b) k)"
    by (simp add: items.get_del items.get_put [OF st'] store_tokens_Inr(1) [OF st])
  from store_tokens_Inr(2,3) [OF st] b'
  show "access_token s \<noteq> []" "refresh_token s \<noteq> []"
    "file_contents b' = clear_file_content_cache (file_contents b)" by simp_all
qed

lemma save_session_Inl:
  assumes "save_session uuid s b = (Inl e, b')"
  shows "k \<in> set session_keys \<Longrightarrow> get_item (web_local b') k = None"
    and "k \<notin> set session_keys \<Longrightarrow> get_item (web_local b') k = get_item (web_local b) k"
    and "file_contents b' = clear_file_content_cache (file_contents b)"
proof -
  let ?b1 = "b\<lparr>file_contents := clear_file_content_cache (file_contents b)\<rparr>"
  obtain st where b': "b' = clear_session (?b1\<lparr>web_local := st\<rparr>)"
    and kept: "(\<exists>e'. store_tokens s (web_local b) = (Inl e', st)) \<or> (\<exists>u. store_tokens s (web_local b) = (Inr u, st))"
    using assms by (auto simp: save_session_def Let_def split: prod.splits sum.splits)
  have st: "get_item st k = get_item (web_local b) k" if "k \<notin> set session_keys" for k
    using kept store_tokens_Inl [of s "web_local b" _ st k] store_tokens_Inr(1) [of s "web_local b" _ st k] that
    unfolding session_keys_def by auto
  show "k \<in> set session_keys \<Longrightarrow> get_item (web_local b') k = None"
    and "k \<notin> set session_keys \<Longrightarrow> get_item (web_local b') k = get_item (web_local b) k"
    by (simp_all add: b' clear_session_items st)
  show "file_contents b' = clear_file_content_cache (file_contents b)"
    by (simp add: b' clear_session_def clear_file_content_cache_def)
qed

lemma saved_session_id:
  "save_session uuid s b = (Inr u, b') \<Longrightarrow> uuid \<noteq> [] \<Longrightarrow> get_session_id (web_local b') = Some uuid"
  using save_session_Inr(1,2) [of uuid s b u b']
  by (simp add: get_session_id_def truthy_str_def opt_str_def)

section \<open>Properties\<close>

text \<open>
  Saving a login is all or nothing. On success the session is the fresh identifier with both
  tokens of the response and no cached user; on any error, a response without a token or a full
  storage at any of the three writes, no key of a session is left. Either way the file contents of
  the previous user are gone and no other key has changed.
\<close>

theorem save_session_all_or_nothing:
  assumes "save_session uuid s b = (r, b')" and "uuid \<noteq> []"
  shows "(case r of
      Inr _ \<Rightarrow> get_session_id (web_local b') = Some uuid \<and>
        get_item (web_local b') ''auth_token'' = Some (access_token s) \<and>
        get_item (web_local b') ''refresh_token'' = Some (refresh_token s) \<and>
        get_item (web_local b') ''user_data'' = None
    | Inl _ \<Rightarrow> get_session_id (web_local b') = None \<and>
        (\<forall>k \<in> set session_keys. get_item (web_local b') k = None)) \<and>
    files (file_contents b') = [] \<and>
    (\<forall>k. k \<notin> set session_keys \<longrightarrow> get_item (web_local b') k = get_item (web_local b) k)"
proof (cases r)
  case (Inl e)
  note fail = save_session_Inl [OF assms(1) [unfolded Inl]]
  have "get_session_id (web_local b') = None"
    using fail(1) [of "''auth_token''"]
    by (simp add: get_session_id_None session_keys_def truthy_str_def opt_str_def)
  with Inl fail show ?thesis by (simp add: clear_file_content_cache_def)
next
  case (Inr u)
  note saved = save_session_Inr [OF assms(1) [unfolded Inr]]
  have "get_session_id (web_local b') = Some uuid"
    using assms(2) saved by (simp add: get_session_id_def truthy_str_def opt_str_def)
  with Inr saved show ?thesis by (auto simp: clear_file_content_cache_def session_keys_def)
qed

definition sample_browser :: browser where
  "sample_browser = \<lparr>web_local = empty_storage 30, file_contents = empty_cache, location_path = ''/signin''\<rparr>"

definition sample_login :: login_response where
  "sample_login = \<lparr>access_token = ''a1'', refresh_token = ''r1'', token_type = ''bearer''\<rparr>"

lemma save_session_all_or_nothing_witness:
  "fst (save_session ''u1'' sample_login sample_browser) = Inl (Thrown ''QuotaExceededError'') \<and>
   get_session_id (web_local (snd (save_session ''u1'' sample_login sample_browser))) = None \<and>
   get_item (web_local (snd (save_session ''u1'' sample_login sample_browser))) ''auth_token'' = None"
proof -
  have fail: "fst (save_session ''u1'' sample_login sample_browser) = Inl (Thrown ''QuotaExceededError'')"
    by code_simp
  have "save_session ''u1'' sample_login sample_browser =
      (fst (save_session ''u1'' sample_login sample_browser), snd (save_session ''u1'' sample_login sample_browser))"
    by simp
  from save_session_all_or_nothing [OF this] fail show ?thesis by (simp add: session_keys_def)
qed

end
