(* ===== verification/HttpClient.thy ===== *)
theory HttpClient imports AuthSession Json begin

text \<open>
  \<open>frontend/lib/http/client.ts\<close>: the Axios instance's request and response interceptors and the
  renewal of an expired session. A renewal in flight is a \<open>flight\<close>; \<open>pendingRefresh\<close> is the
  session and the number of the flight whose promise it holds. The renewal is cut where the
  source awaits: \<open>renew_session\<close> runs up to the POST, \<open>finish_refresh\<close> from its answer on, and
  the relation \<open>client_step\<close> interleaves errors, answers, logins and logouts freely.
  \<open>window.location.replace\<close> writes \<open>location_path\<close>; the reload it causes is not modelled.
\<close>

section \<open>State\<close>

record request =
  req_url :: string
  req_session :: "string option"
  req_token :: "string option"
  req_retried :: bool
  req_authorization :: "string option"

record http_error =
  err_request :: "request option"
  err_status :: "nat option"
  err_detail :: "json option"
  err_message :: string

record flight =
  flight_no :: nat
  flight_session :: string
  flight_token :: string

record client =
  page :: browser
  pending :: "(string \<times> nat) option"
  flights :: "flight list"
  next_flight :: nat
  known_sessions :: "string list"

text \<open>
  \<open>known_sessions\<close> records the identifiers given out so far; the program does not have it. It
  states that \<open>crypto.randomUUID()\<close> does not repeat itself.
\<close>

datatype refresh_reply = Refreshed login_response | Refresh_failed "nat option"

datatype renewal = Renew_rejected string | Renew_waits nat

datatype error_outcome = Rejected string | Resent request | Waiting request nat

definition session_of :: "client \<Rightarrow> string option" where
  "session_of c = get_session_id (web_local (page c))"

section \<open>Operations\<close>

definition public_auth_paths :: "string list" where
  "public_auth_paths =
     [''/auth/login'', ''/auth/register'', ''/auth/options'', ''/auth/refresh'',
      ''/auth/oauth/exchange'', ''/auth/verification/confirm'', ''/auth/verification/request'']"

definition session_changed :: string where
  "session_changed = ''Your session changed. Try again.''"

definition end_session :: "string \<Rightarrow> string \<Rightarrow> browser \<Rightarrow> browser" where
  "end_session sid destination b =
     (if get_session_id (web_local b) \<noteq> Some sid then b
      else let b1 = clear_session b in
        if location_path b1 \<noteq> destination then b1\<lparr>location_path := destination\<rparr> else b1)"

text \<open>\<open>renewSession\<close> up to the POST (lines 40 to 48 and 74 to 75).\<close>

definition joins :: "string \<Rightarrow> (string \<times> nat) option \<Rightarrow> bool" where
  "joins sid p = (case p of None \<Rightarrow> False | Some (s, i) \<Rightarrow> s = sid)"

definition renew_session :: "string \<Rightarrow> client \<Rightarrow> renewal \<times> client" where
  "renew_session sid c =
     (if session_of c \<noteq> Some sid then (Renew_rejected session_changed, c)
      else if joins sid (pending c) then (Renew_waits (snd (the (pending c))), c)
      else (case get_item (web_local (page c)) ''refresh_token'' of
          None \<Rightarrow> (Renew_rejected ''Please sign in again to continue.'',
                   c\<lparr>page := end_session sid ''/signin'' (page c)\<rparr>)
        | Some rt \<Rightarrow>
            if rt = []
            then (Renew_rejected ''Please sign in again to continue.'',
                  c\<lparr>page := end_session sid ''/signin'' (page c)\<rparr>)
            else (Renew_waits (next_flight c),
              c\<lparr>flights := flights c @ [\<lparr>flight_no = next_flight c, flight_session = sid, flight_token = rt\<rparr>],
                pending := Some (sid, next_flight c), next_flight := next_flight c + 1\<rparr>)))"

text \<open>
  The promise's body from the answer on (lines 56 to 72). Its two \<open>return\<close>s resolve the promise.
\<close>

definition renewal_failed :: "string \<Rightarrow> string \<Rightarrow> nat option \<Rightarrow> browser \<Rightarrow> (string, unit) result \<times> browser" where
  "renewal_failed sid rt status b =
     (if get_session_id (web_local b) = Some sid \<and> get_item (web_local b) ''refresh_token'' \<noteq> Some rt
      then (Inr (), b)
      else if status = Some 401 \<or> status = Some 403
      then (Inl ''Your session has expired. Please sign in again.'', end_session sid ''/signin'' b)
      else (Inl ''Could not renew your session. Please try again.'', b))"

definition finish_refresh :: "string \<Rightarrow> string \<Rightarrow> refresh_reply \<Rightarrow> browser \<Rightarrow> (string, unit) result \<times> browser" where
  "finish_refresh sid rt reply b =
     (case reply of
        Refresh_failed status \<Rightarrow> renewal_failed sid rt status b
      | Refreshed s \<Rightarrow>
          if get_session_id (web_local b) \<noteq> Some sid then renewal_failed sid rt None b
          else if get_item (web_local b) ''refresh_token'' \<noteq> Some rt then (Inr (), b)
          else (case store_tokens s (web_local b) of
                  (Inr _, st) \<Rightarrow> (Inr (), b\<lparr>web_local := st\<rparr>)
                | (Inl _, st) \<Rightarrow> renewal_failed sid rt None (b\<lparr>web_local := st\<rparr>)))"

text \<open>The answer of one flight, with the \<open>finally\<close> of line 79.\<close>

definition settle_flight :: "flight \<Rightarrow> refresh_reply \<Rightarrow> client \<Rightarrow> (string, unit) result \<times> client" where
  "settle_flight f reply c =
     (let (r, b) = finish_refresh (flight_session f) (flight_token f) reply (page c) in
      (r, c\<lparr>page := b, flights := filter (\<lambda>g. flight_no g \<noteq> flight_no f) (flights c),
           pending := (if pending c = Some (flight_session f, flight_no f) then None else pending c)\<rparr>))"

text \<open>The request interceptor.\<close>

definition on_request :: "browser \<Rightarrow> request \<Rightarrow> (string, request) result" where
  "on_request b req =
     (if req_url req \<in> set public_auth_paths then Inr req
      else let sid = get_session_id (web_local b); token = get_item (web_local b) ''auth_token'' in
        if req_retried req \<and> req_session req \<noteq> sid then Inl session_changed
        else let req1 = req\<lparr>req_session := sid, req_token := token\<rparr> in
          Inr (if truthy_str token then req1\<lparr>req_authorization := Some (''Bearer '' @ the token)\<rparr> else req1))"

definition foreign :: "browser \<Rightarrow> request \<Rightarrow> bool" where
  "foreign b req \<longleftrightarrow> truthy_str (req_session req) \<and> req_session req \<noteq> get_session_id (web_local b)"

text \<open>The response interceptor, on a response and on an error.\<close>

definition on_response :: "browser \<Rightarrow> request \<Rightarrow> 'a \<Rightarrow> (string, 'a) result" where
  "on_response b req response = (if foreign b req then Inl session_changed else Inr response)"

definition detail_text :: "json \<Rightarrow> string" where
  "detail_text item = (case Option.bind (json_get ''msg'' item) json_str of None \<Rightarrow> [] | Some t \<Rightarrow> trim t)"

definition error_text :: "http_error \<Rightarrow> string" where
  "error_text err =
     (let default = str_or (err_message err) ''Something went wrong. Please try again.'' in
      if map_option req_url (err_request err) = Some ''/auth/verification/confirm'' \<and> err_status err = Some 422
      then ''This verification link is invalid or expired. Request a new one.''
      else case err_detail err of
        Some (JStr d) \<Rightarrow> if trim d \<noteq> [] then d else default
      | Some (JArr items) \<Rightarrow>
          let messages = filter (\<lambda>t. t \<noteq> []) (map detail_text items) in
          if messages \<noteq> [] then join_with '' '' messages else default
      | _ \<Rightarrow> default)"

definition unverified :: "http_error \<Rightarrow> bool" where
  "unverified err \<longleftrightarrow> err_status err = Some 403 \<and>
     (case Option.bind (err_detail err) json_str of
        None \<Rightarrow> False | Some d \<Rightarrow> starts_with ''Verify your email'' d)"

definition on_error :: "http_error \<Rightarrow> client \<Rightarrow> error_outcome \<times> client" where
  "on_error err c =
     (case err_request err of
        None \<Rightarrow> (Rejected (error_text err), c)
      | Some req \<Rightarrow>
          if foreign (page c) req then (Rejected session_changed, c)
          else if \<not> truthy_str (req_session req) then (Rejected (error_text err), c)
          else
            let sid = the (req_session req);
                c1 = (if unverified err then c\<lparr>page := end_session sid ''/verify-email'' (page c)\<rparr> else c);
                same = get_item (web_local (page c1)) ''auth_token'' = req_token req
            in if err_status err = Some 401 \<and> truthy_str (req_token req) then
                 if req_retried req
                 then (Rejected (error_text err),
                       if same then c1\<lparr>page := end_session sid ''/signin'' (page c1)\<rparr> else c1)
                 else
                   let req1 = req\<lparr>req_retried := True\<rparr> in
                   if same
                   then (case renew_session sid c1 of
                           (Renew_rejected msg, c2) \<Rightarrow> (Rejected msg, c2)
                         | (Renew_waits i, c2) \<Rightarrow> (Waiting req1 i, c2))
                   else (Resent req1, c1)
               else (Rejected (error_text err), c1))"

section \<open>Interleavings\<close>

inductive client_step :: "client \<Rightarrow> client \<Rightarrow> bool" where
  Step_error: "on_error err c = (out, c') \<Longrightarrow> client_step c c'"
| Step_settle: "f \<in> set (flights c) \<Longrightarrow> settle_flight f reply c = (r, c') \<Longrightarrow> client_step c c'"
| Step_login: "uuid \<notin> set (known_sessions c) \<Longrightarrow> uuid \<noteq> [] \<Longrightarrow> save_session uuid s (page c) = (r, b) \<Longrightarrow>
    client_step c (c\<lparr>page := b, known_sessions := uuid # known_sessions c\<rparr>)"
| Step_logout: "client_step c (c\<lparr>page := clear_session (page c)\<rparr>)"
| Step_other_tab: "session_of c \<noteq> None \<Longrightarrow> store_tokens s (web_local (page c)) = (r, st) \<Longrightarrow>
    client_step c (c\<lparr>page := (page c)\<lparr>web_local := st\<rparr>\<rparr>)"

definition client_start :: "browser \<Rightarrow> client" where
  "client_start b = \<lparr>page = b, pending = None, flights = [], next_flight = 0, known_sessions = []\<rparr>"

inductive client_reachable :: "client \<Rightarrow> bool" where
  Reach_start: "get_session_id (web_local b) = None \<Longrightarrow> client_reachable (client_start b)"
| Reach_step: "client_reachable c \<Longrightarrow> client_step c c' \<Longrightarrow> client_reachable c'"

inductive_cases client_stepE: "client_step c c'"

section \<open>Lemmas\<close>

definition modern :: "browser \<Rightarrow> bool" where
  "modern b \<longleftrightarrow> (get_session_id (web_local b) \<noteq> None \<longrightarrow> truthy_str (get_item (web_local b) ''auth_session_id''))"

text \<open>What a piece of code may do to the session: keep it, or end it.\<close>

definition keeps_or_ends :: "browser \<Rightarrow> browser \<Rightarrow> bool" where
  "keeps_or_ends b b' \<longleftrightarrow>
     get_session_id (web_local b') = None \<or>
     get_session_id (web_local b') = get_session_id (web_local b) \<and>
     get_item (web_local b') ''auth_session_id'' = get_item (web_local b) ''auth_session_id''"

lemma keeps_refl [simp]: "keeps_or_ends b b"
  by (simp add: keeps_or_ends_def)

lemma keeps_trans: "keeps_or_ends a b \<Longrightarrow> keeps_or_ends b c \<Longrightarrow> keeps_or_ends a c"
  by (auto simp: keeps_or_ends_def)

lemma keeps_modern: "keeps_or_ends b b' \<Longrightarrow> modern b \<Longrightarrow> modern b'"
  by (auto simp: keeps_or_ends_def modern_def)

lemma end_session_keeps [simp]: "keeps_or_ends b (end_session sid dest b)"
  by (simp add: end_session_def keeps_or_ends_def Let_def)

lemma end_session_stale: "get_session_id (web_local b) \<noteq> Some sid \<Longrightarrow> end_session sid dest b = b"
  by (simp add: end_session_def)

lemma end_session_path:
  "get_session_id (web_local b) = Some sid \<Longrightarrow>
   location_path (end_session sid dest b) = dest \<and> get_session_id (web_local (end_session sid dest b)) = None"
  by (simp add: end_session_def Let_def)

lemma store_tokens_keeps:
  assumes "modern b" and "store_tokens s (web_local b) = (r, st)" and "get_session_id (web_local b) \<noteq> None"
  shows "keeps_or_ends b (b\<lparr>web_local := st\<rparr>)"
proof -
  from assms have "get_session_id st = get_session_id (web_local b)"
    by (intro store_tokens_session [OF assms(2)]) (simp_all add: modern_def)
  moreover have "get_item st ''auth_session_id'' = get_item (web_local b) ''auth_session_id''"
    using assms(2) store_tokens_Inl [of s "web_local b"] store_tokens_Inr(1) [of s "web_local b"]
    by (cases r) auto
  ultimately show ?thesis by (simp add: keeps_or_ends_def)
qed

lemma renewal_failed_keeps: "keeps_or_ends b (snd (renewal_failed sid rt status b))"
  by (simp add: renewal_failed_def)

lemma finish_refresh_keeps:
  assumes "modern b" shows "keeps_or_ends b (snd (finish_refresh sid rt reply b))"
proof (cases reply)
  case (Refreshed s)
  show ?thesis
  proof (cases "get_session_id (web_local b) = Some sid \<and> get_item (web_local b) ''refresh_token'' = Some rt")
    case True
    obtain r st where st: "store_tokens s (web_local b) = (r, st)" by force
    with True assms have "keeps_or_ends b (b\<lparr>web_local := st\<rparr>)"
      by (intro store_tokens_keeps) simp_all
    with st True Refreshed keeps_trans [OF this renewal_failed_keeps [of _ sid rt None]] show ?thesis
      by (cases r) (simp_all add: finish_refresh_def)
  next
    case False
    with Refreshed show ?thesis by (auto simp: finish_refresh_def renewal_failed_keeps)
  qed
qed (simp add: finish_refresh_def renewal_failed_keeps)

definition client_inv :: "client \<Rightarrow> bool" where
  "client_inv c \<longleftrightarrow>
     modern (page c) \<and>
     (\<forall>s. session_of c = Some s \<longrightarrow> s \<in> set (known_sessions c)) \<and>
     (\<forall>f \<in> set (flights c). flight_no f < next_flight c \<and> flight_session f \<in> set (known_sessions c) \<and>
        (session_of c = Some (flight_session f) \<longrightarrow> pending c = Some (flight_session f, flight_no f))) \<and>
     distinct (map flight_session (flights c)) \<and> distinct (map flight_no (flights c)) \<and>
     (\<forall>s i. pending c = Some (s, i) \<longrightarrow> (\<exists>f \<in> set (flights c). flight_session f = s \<and> flight_no f = i))"

text \<open>A change of the page that keeps or ends the session keeps the invariant.\<close>

lemma inv_page:
  assumes "client_inv c" and "keeps_or_ends (page c) b"
  shows "client_inv (c\<lparr>page := b\<rparr>)"
proof -
  have "session_of (c\<lparr>page := b\<rparr>) = None \<or> session_of (c\<lparr>page := b\<rparr>) = session_of c"
    using assms(2) by (auto simp: keeps_or_ends_def session_of_def)
  with assms(1) keeps_modern [OF assms(2)] show ?thesis
    unfolding client_inv_def by auto
qed

lemma renew_session_inv:
  assumes inv: "client_inv c"
  shows "client_inv (snd (renew_session sid c))"
proof (cases "session_of c = Some sid \<and> \<not> joins sid (pending c) \<and>
    truthy_str (get_item (web_local (page c)) ''refresh_token'')")
  case False
  have "client_inv (c\<lparr>page := end_session sid ''/signin'' (page c)\<rparr>)"
    using inv by (rule inv_page) simp
  with False inv show ?thesis
    by (auto simp: renew_session_def truthy_str_def opt_str_def split: option.splits)
next
  case True
  then obtain rt where rt: "get_item (web_local (page c)) ''refresh_token'' = Some rt" "rt \<noteq> []"
    by (auto simp: truthy_str_def opt_str_def split: option.splits)
  let ?f = "\<lparr>flight_no = next_flight c, flight_session = sid, flight_token = rt\<rparr>"
  let ?c = "c\<lparr>flights := flights c @ [?f], pending := Some (sid, next_flight c), next_flight := next_flight c + 1\<rparr>"
  have new: "snd (renew_session sid c) = ?c"
    using True rt by (simp add: renew_session_def)
  have same: "session_of ?c = Some sid" using True by (simp add: session_of_def)
  have none: "\<forall>f \<in> set (flights c). flight_session f \<noteq> sid"
    using inv True by (auto simp: client_inv_def joins_def)
  have "client_inv ?c"
    using inv none True same unfolding client_inv_def session_of_def
    by (auto simp: less_SucI)
  with new show ?thesis by simp
qed

lemma on_error_state:
  assumes "err_request err = Some req"
    and "c1 = (if unverified err then c\<lparr>page := end_session (the (req_session req)) ''/verify-email'' (page c)\<rparr> else c)"
  shows "snd (on_error err c) \<in>
    {c, c1, c1\<lparr>page := end_session (the (req_session req)) ''/signin'' (page c1)\<rparr>,
     snd (renew_session (the (req_session req)) c1)}"
proof -
  have renew: "snd (case x of (Renew_rejected msg, y) \<Rightarrow> (Rejected msg, y)
      | (Renew_waits i, y) \<Rightarrow> (Waiting (req\<lparr>req_retried := True\<rparr>) i, y)) = snd x" for x :: "renewal \<times> client"
    by (auto split: prod.split renewal.split)
  show ?thesis
    unfolding on_error_def assms(1) option.case assms(2) [symmetric] Let_def by (simp add: renew)
qed

lemma on_error_inv: "client_inv c \<Longrightarrow> client_inv (snd (on_error err c))"
proof (cases "err_request err")
  case (Some req)
  assume inv: "client_inv c"
  define c1 where
    "c1 = (if unverified err then c\<lparr>page := end_session (the (req_session req)) ''/verify-email'' (page c)\<rparr> else c)"
  have "client_inv c1"
    using inv inv_page [OF inv, of "end_session (the (req_session req)) ''/verify-email'' (page c)"]
    by (simp add: c1_def)
  with inv inv_page [OF this] renew_session_inv [OF this] on_error_state [OF Some c1_def]
  show ?thesis by auto
qed (simp add: on_error_def)

lemma settle_flight_inv:
  assumes inv: "client_inv c" and f: "f \<in> set (flights c)"
  shows "client_inv (snd (settle_flight f reply c))"
proof -
  obtain r b where fin: "finish_refresh (flight_session f) (flight_token f) reply (page c) = (r, b)" by force
  have keeps: "keeps_or_ends (page c) b"
    using finish_refresh_keeps [of "page c" "flight_session f" "flight_token f" reply] inv fin
    by (simp add: client_inv_def)
  have inv1: "client_inv (c\<lparr>page := b\<rparr>)" by (rule inv_page [OF inv keeps])
  have same: "g = f" if "g \<in> set (flights c)" "flight_no g = flight_no f" for g
    using inv that f by (auto simp: client_inv_def distinct_map dest: inj_onD)
  have other: "flight_session g \<noteq> flight_session f" if "g \<in> set (flights c)" "g \<noteq> f" for g
    using inv that f by (auto simp: client_inv_def distinct_map dest: inj_onD)
  let ?c = "c\<lparr>page := b, flights := filter (\<lambda>g. flight_no g \<noteq> flight_no f) (flights c),
      pending := (if pending c = Some (flight_session f, flight_no f) then None else pending c)\<rparr>"
  have left: "set (flights ?c) = set (flights c) - {f}"
    using same by auto
  have "client_inv ?c"
    unfolding client_inv_def
  proof (intro conjI)
    show "distinct (map flight_session (flights ?c))" "distinct (map flight_no (flights ?c))"
      using inv by (simp_all add: client_inv_def distinct_map_filter)
    show "\<forall>g \<in> set (flights ?c). flight_no g < next_flight ?c \<and> flight_session g \<in> set (known_sessions ?c) \<and>
        (session_of ?c = Some (flight_session g) \<longrightarrow> pending ?c = Some (flight_session g, flight_no g))"
      unfolding left using inv1 same by (auto simp: client_inv_def session_of_def)
    show "\<forall>s i. pending ?c = Some (s, i) \<longrightarrow> (\<exists>g \<in> set (flights ?c). flight_session g = s \<and> flight_no g = i)"
      unfolding left using inv by (auto simp: client_inv_def)
  qed (use inv1 in \<open>simp_all add: client_inv_def session_of_def\<close>)
  with fin show ?thesis by (simp add: settle_flight_def)
qed

lemma save_session_modern:
  assumes "save_session uuid s b = (r, b')" and "uuid \<noteq> []"
  shows "modern b' \<and> (get_session_id (web_local b') = None \<or> get_session_id (web_local b') = Some uuid)"
proof (cases r)
  case (Inl e)
  with save_session_Inl(1) [of uuid s b e b' "''auth_token''"] assms(1)
  have "get_session_id (web_local b') = None"
    by (simp add: get_session_id_None session_keys_def truthy_str_def opt_str_def)
  then show ?thesis by (simp add: modern_def)
next
  case (Inr u)
  note saved = save_session_Inr(1,2) [OF assms(1) [unfolded Inr]]
  have "get_item (web_local b') ''auth_session_id'' = Some uuid" using saved(1) by simp
  moreover from this have "get_session_id (web_local b') = Some uuid"
    using assms(2) saved by (simp add: get_session_id_def truthy_str_def opt_str_def)
  ultimately show ?thesis using assms(2) by (simp add: modern_def truthy_str_def opt_str_def)
qed

lemma login_inv:
  assumes inv: "client_inv c" and new: "uuid \<notin> set (known_sessions c)" "uuid \<noteq> []"
    and saved: "save_session uuid s (page c) = (r, b)"
  shows "client_inv (c\<lparr>page := b, known_sessions := uuid # known_sessions c\<rparr>)"
proof -
  from save_session_modern [OF saved new(2)]
  have "modern b" and id: "get_session_id (web_local b) = None \<or> get_session_id (web_local b) = Some uuid"
    by simp_all
  with inv new(1) show ?thesis unfolding client_inv_def session_of_def by auto
qed

lemma client_step_inv [keep_inv]: "client_step c c' \<Longrightarrow> client_inv c \<Longrightarrow> client_inv c'"
proof (induction rule: client_step.induct)
  case (Step_error err c out c')
  then show ?case using on_error_inv [of c err] by simp
next
  case (Step_settle f c reply r c')
  then show ?case using settle_flight_inv [of c f reply] by simp
next
  case (Step_login uuid c s r b)
  then show ?case by (intro login_inv)
next
  case (Step_logout c)
  then show ?case by (intro inv_page) (simp_all add: keeps_or_ends_def)
next
  case (Step_other_tab c s r st)
  then show ?case
    by (intro inv_page store_tokens_keeps) (simp_all add: client_inv_def session_of_def)
qed

lemma client_start_inv: "get_session_id (web_local b) = None \<Longrightarrow> client_inv (client_start b)"
  by (simp add: client_inv_def client_start_def session_of_def modern_def)

lemma client_reachable_inv: "client_reachable c \<Longrightarrow> client_inv c"
  by (induction rule: client_reachable.induct) (auto intro: client_start_inv client_step_inv)

lemma end_session_files:
  "get_session_id (web_local b) = Some sid \<Longrightarrow> files (file_contents (end_session sid dest b)) = []"
  by (simp add: end_session_def clear_session_def clear_file_content_cache_def Let_def)

lemma renewal_failed_stale: "get_session_id (web_local b) \<noteq> Some sid \<Longrightarrow> snd (renewal_failed sid rt status b) = b"
  by (simp add: renewal_failed_def end_session_stale)

lemma renew_waits_current:
  "renew_session sid c = (Renew_waits i, c') \<Longrightarrow> session_of c = Some sid \<and> page c' = page c"
  by (auto simp: renew_session_def split: if_splits option.splits)

section \<open>Properties\<close>


definition late_401 :: "request \<Rightarrow> http_error" where
  "late_401 req = \<lparr>err_request = Some req, err_status = Some 401, err_detail = None, err_message = []\<rparr>"

definition sample_request :: request where
  "sample_request = \<lparr>req_url = ''/chats'', req_session = Some ''u1'', req_token = Some ''a1'',
     req_retried = False, req_authorization = Some ''Bearer a1''\<rparr>"

definition sample_client :: client where
  "sample_client = client_start
     \<lparr>web_local = empty_storage 1000, file_contents = empty_cache, location_path = ''/signin''\<rparr>"

definition logged_in :: client where
  "logged_in = sample_client\<lparr>page := snd (save_session ''u1'' sample_login (page sample_client)),
     known_sessions := [''u1'']\<rparr>"

lemma logged_in_reachable: "client_reachable logged_in"
proof -
  have "client_reachable sample_client"
    unfolding sample_client_def by (rule Reach_start) (simp add: get_session_id_None truthy_str_def opt_str_def)
  moreover have "client_step sample_client logged_in"
    using Step_login [of "''u1''" sample_client sample_login
        "fst (save_session ''u1'' sample_login (page sample_client))"
        "snd (save_session ''u1'' sample_login (page sample_client))"]
    by (simp add: logged_in_def sample_client_def client_start_def)
  ultimately show ?thesis by (rule Reach_step)
qed


text \<open>
  A renewal whose server could not be reached, or that failed with anything but 401 or 403,
  leaves the browser exactly as it was: valid credentials survive an outage. A refusal of the
  token that is still stored ends the session and leads to the sign-in page.
\<close>

theorem outage_keeps_credentials:
  "(status \<noteq> Some 401 \<and> status \<noteq> Some 403 \<longrightarrow> snd (finish_refresh sid rt (Refresh_failed status) b) = b) \<and>
   ((status = Some 401 \<or> status = Some 403) \<and> get_session_id (web_local b) = Some sid \<and>
      get_item (web_local b) ''refresh_token'' = Some rt \<longrightarrow>
    (let b' = snd (finish_refresh sid rt (Refresh_failed status) b) in
      get_session_id (web_local b') = None \<and> location_path b' = ''/signin'' \<and> files (file_contents b') = []))"
  by (auto simp: finish_refresh_def renewal_failed_def Let_def end_session_path end_session_files)

lemma outage_keeps_credentials_witness:
  "get_session_id (web_local (page logged_in)) = Some ''u1'' \<and>
   snd (finish_refresh ''u1'' ''r1'' (Refresh_failed (Some 503)) (page logged_in)) = page logged_in \<and>
   location_path (snd (finish_refresh ''u1'' ''r1'' (Refresh_failed (Some 401)) (page logged_in))) = ''/signin''"
proof -
  have 1: "get_session_id (web_local (page logged_in)) = Some ''u1''" by code_simp
  have 2: "get_item (web_local (page logged_in)) ''refresh_token'' = Some ''r1''" by code_simp
  from outage_keeps_credentials [of "Some 503" "''u1''" "''r1''" "page logged_in"]
    outage_keeps_credentials [of "Some 401" "''u1''" "''r1''" "page logged_in"] 1 2
  show ?thesis by (simp add: Let_def)
qed

text \<open>
  The answer to a renewal of a session that has since been left, whether success or failure,
  writes nothing: it can neither overwrite nor end the session that replaced it. And when another
  tab has renewed the same session meanwhile, its tokens stay and the waiting requests go on.
\<close>

theorem stale_renewal_writes_nothing:
  "(get_session_id (web_local b) \<noteq> Some sid \<longrightarrow>
      snd (finish_refresh sid rt reply b) = b \<and> isl (fst (finish_refresh sid rt reply b))) \<and>
   (get_session_id (web_local b) = Some sid \<and> get_item (web_local b) ''refresh_token'' \<noteq> Some rt \<longrightarrow>
      finish_refresh sid rt reply b = (Inr (), b))"
  by (cases reply) (auto simp: finish_refresh_def renewal_failed_def end_session_stale)

lemma stale_renewal_writes_nothing_witness:
  "snd (finish_refresh ''u0'' ''r0'' (Refreshed sample_login) (page logged_in)) = page logged_in \<and>
   finish_refresh ''u1'' ''r0'' (Refresh_failed (Some 401)) (page logged_in) = (Inr (), page logged_in)"
proof -
  have 1: "get_session_id (web_local (page logged_in)) = Some ''u1''" by code_simp
  have 2: "get_item (web_local (page logged_in)) ''refresh_token'' = Some ''r1''" by code_simp
  from stale_renewal_writes_nothing [of "page logged_in" "''u0''" "''r0''" "Refreshed sample_login"]
    stale_renewal_writes_nothing [of "page logged_in" "''u1''" "''r0''" "Refresh_failed (Some 401)"] 1 2
  show ?thesis by simp
qed

text \<open>
  C35: A request is sent again at most once, only after a 401, and only within the session it was
  made in: the retry carries the mark that forbids another one, and the session is still the
  current one when it is resent or made to wait.
\<close>

theorem retried_once_in_its_session:
  assumes "on_error err c = (out, c')" and "out = Resent r \<or> out = Waiting r i"
  shows "\<exists>req. err_request err = Some req \<and> \<not> req_retried req \<and> r = req\<lparr>req_retried := True\<rparr> \<and>
    err_status err = Some 401 \<and> session_of c = req_session req \<and> page c' = page c"
proof -
  from assms obtain req where req: "err_request err = Some req"
    by (auto simp: on_error_def split: option.splits)
  with assms have nf: "\<not> foreign (page c) req" "truthy_str (req_session req)"
    by (auto simp: on_error_def split: if_splits)
  then have cur: "session_of c = req_session req" by (auto simp: foreign_def session_of_def)
  have st: "err_status err = Some 401" "\<not> req_retried req"
    using assms req nf by (auto simp: on_error_def Let_def split: if_splits)
  then have nu: "\<not> unverified err" by (simp add: unverified_def)
  have "r = req\<lparr>req_retried := True\<rparr> \<and> page c' = page c"
    using assms req nf st nu renew_waits_current
    by (auto simp: on_error_def Let_def split: if_splits prod.splits renewal.splits)
  with req cur st show ?thesis by blast
qed

lemma retried_once_in_its_session_witness:
  "\<exists>req. err_request (late_401 sample_request) = Some req \<and> \<not> req_retried req \<and>
     sample_request\<lparr>req_retried := True\<rparr> = req\<lparr>req_retried := True\<rparr> \<and>
     session_of logged_in = req_session req"
proof -
  have "fst (on_error (late_401 sample_request) logged_in) = Waiting (sample_request\<lparr>req_retried := True\<rparr>) 0"
    by code_simp
  then have "on_error (late_401 sample_request) logged_in =
      (Waiting (sample_request\<lparr>req_retried := True\<rparr>) 0, snd (on_error (late_401 sample_request) logged_in))"
    by (metis prod.collapse)
  from retried_once_in_its_session [OF this, of "sample_request\<lparr>req_retried := True\<rparr>" 0]
  show ?thesis by (auto simp: late_401_def)
qed

end
