(* ===== verification/Services.thy ===== *)
theory Services imports Json begin

text \<open>
  \<open>frontend/services/*.ts\<close>: the calls of the API. Each service function is the request it
  builds; sending it is the client's part. \<open>encodeURIComponent\<close> works on the bytes of the UTF-8
  encoding, which the strings of the models are made of.
\<close>

section \<open>encodeURIComponent\<close>

definition uri_plain :: "char \<Rightarrow> bool" where
  "uri_plain c \<longleftrightarrow>
     (let n = of_char c :: nat in
      48 \<le> n \<and> n \<le> 57 \<or> 65 \<le> n \<and> n \<le> 90 \<or> 97 \<le> n \<and> n \<le> 122 \<or>
      c \<in> set ''-_.!~*()'' \<or> n = 39)"

definition hex_upper :: "nat \<Rightarrow> char" where
  "hex_upper d = (if d < 10 then char_of (48 + d) else char_of (55 + d))"

definition hex_upper_val :: "char \<Rightarrow> nat option" where
  "hex_upper_val c =
     (let n = of_char c in
      if 48 \<le> n \<and> n \<le> 57 then Some (n - 48)
      else if 65 \<le> n \<and> n \<le> 70 then Some (n - 55)
      else if 97 \<le> n \<and> n \<le> 102 then Some (n - 87) else None)"

definition encode_char :: "char \<Rightarrow> string" where
  "encode_char c =
     (if uri_plain c then [c]
      else [CHR ''%'', hex_upper (of_char c div 16), hex_upper (of_char c mod 16)])"

definition encode_uri_component :: "string \<Rightarrow> string" where
  "encode_uri_component s = concat (map encode_char s)"

text \<open>What a server does with a path segment or a query value.\<close>

fun decode_uri_component :: "string \<Rightarrow> string option" where
  "decode_uri_component [] = Some []"
| "decode_uri_component (c # s) =
     (if c = CHR ''%'' then
        (case s of
           h # l # r \<Rightarrow>
             (case (hex_upper_val h, hex_upper_val l) of
                (Some a, Some b) \<Rightarrow> map_option (\<lambda>t. char_of (16 * a + b) # t) (decode_uri_component r)
              | _ \<Rightarrow> None)
         | _ \<Rightarrow> None)
      else map_option (\<lambda>t. c # t) (decode_uri_component s))"

section \<open>Requests\<close>

datatype http_method = GET | POST | PATCH | DELETE

record api_request =
  api_method :: http_method
  api_url :: string
  api_body :: "json option"
  api_blob :: bool
  api_timeout :: "int option"

definition call :: "http_method \<Rightarrow> string \<Rightarrow> json option \<Rightarrow> api_request" where
  "call m url body = \<lparr>api_method = m, api_url = url, api_body = body, api_blob = False, api_timeout = None\<rparr>"

definition json_fields :: "(string \<times> string) list \<Rightarrow> json option" where
  "json_fields kvs = Some (JObj (map (\<lambda>(k, v). (k, JStr v)) kvs))"

subsection \<open>service.projects.ts\<close>

definition delete_project_call :: "string \<Rightarrow> api_request" where
  "delete_project_call i = call DELETE (''/projects/'' @ encode_uri_component i) None"

definition create_chat_call :: "string \<Rightarrow> api_request" where
  "create_chat_call prompt = call POST ''/chat'' (json_fields [(''prompt'', prompt)])"

definition list_projects_call :: api_request where
  "list_projects_call = call GET ''projects'' None"

subsection \<open>service.runs.ts\<close>

definition start_run_call :: "string \<Rightarrow> string \<Rightarrow> api_request" where
  "start_run_call chat_id prompt =
     call POST (''/chats/'' @ chat_id @ ''/runs'') (json_fields [(''prompt'', prompt)])"

definition cancel_run_call :: "string \<Rightarrow> api_request" where
  "cancel_run_call run_id = call POST (''/runs/'' @ run_id @ ''/cancel'') None"

subsection \<open>service.preview.ts\<close>

definition preview_status_call :: "string \<Rightarrow> int \<Rightarrow> api_request" where
  "preview_status_call project_id timeout =
     (call GET (''/projects/'' @ project_id @ ''/preview'') None)\<lparr>api_timeout := Some timeout\<rparr>"

definition preview_open_call :: "string \<Rightarrow> int \<Rightarrow> api_request" where
  "preview_open_call project_id timeout =
     (call POST (''/projects/'' @ project_id @ ''/preview'') None)\<lparr>api_timeout := Some timeout\<rparr>"

subsection \<open>service.files.ts\<close>

definition list_files_call :: "string \<Rightarrow> api_request" where
  "list_files_call project_id = call GET (''/projects/'' @ project_id @ ''/files'') None"

definition read_file_call :: "string \<Rightarrow> string \<Rightarrow> string \<Rightarrow> api_request" where
  "read_file_call project_id path revision_query =
     call GET (''/projects/'' @ project_id @ ''/files/'' @ encode_uri_component path @ ''?'' @ revision_query) None"

definition download_file_call :: "string \<Rightarrow> string \<Rightarrow> string \<Rightarrow> api_request" where
  "download_file_call project_id path revision_query =
     (call GET (''/projects/'' @ project_id @ ''/files/'' @ encode_uri_component path @
        ''?raw=true&'' @ revision_query) None)\<lparr>api_blob := True\<rparr>"

definition download_project_call :: "string \<Rightarrow> string \<Rightarrow> api_request" where
  "download_project_call project_id revision_query =
     (call GET (''/projects/'' @ project_id @ ''/download?'' @ revision_query) None)\<lparr>api_blob := True\<rparr>"

subsection \<open>service.auth.ts\<close>

definition options_call :: api_request where
  "options_call = call GET ''/auth/options'' None"

definition update_profile_call :: "string \<Rightarrow> string \<Rightarrow> api_request" where
  "update_profile_call name bio = call PATCH ''/auth/me'' (json_fields [(''name'', name), (''bio'', bio)])"

definition request_verification_call :: "string \<Rightarrow> api_request" where
  "request_verification_call email = call POST ''/auth/verification/request'' (json_fields [(''email'', email)])"

definition confirm_verification_call :: "string \<Rightarrow> api_request" where
  "confirm_verification_call token = call POST ''/auth/verification/confirm'' (json_fields [(''token'', token)])"

definition exchange_oauth_call :: "string \<Rightarrow> api_request" where
  "exchange_oauth_call token = call POST ''/auth/oauth/exchange'' (json_fields [(''token'', token)])"

definition link_provider_call :: "string \<Rightarrow> api_request" where
  "link_provider_call provider = call POST (''/auth/oauth/'' @ provider @ ''/link'') None"

definition login_call :: "string \<Rightarrow> string \<Rightarrow> api_request" where
  "login_call email password =
     call POST ''/auth/login'' (json_fields [(''email'', email), (''password'', password)])"

definition register_call :: "string \<Rightarrow> string \<Rightarrow> string \<Rightarrow> api_request" where
  "register_call email password name =
     call POST ''/auth/register'' (json_fields [(''email'', email), (''password'', password), (''name'', name)])"

definition current_user_call :: api_request where
  "current_user_call = call GET ''/auth/me'' None"

section \<open>Lemmas\<close>

lemma hex_upper_val_upper [simp]: "d < 16 \<Longrightarrow> hex_upper_val (hex_upper d) = Some d"
  by (auto simp: hex_upper_val_def hex_upper_def Let_def)

lemma char_of_parts: "char_of (16 * (of_char c div 16) + of_char c mod 16 :: nat) = (c :: char)"
  by simp

lemma of_char_div_16: "(of_char (c :: char) :: nat) div 16 < 16"
proof -
  have "(of_char c :: nat) < 256" by (rule nat_of_char_less_256)
  then show ?thesis by (simp add: less_mult_imp_div_less)
qed

lemma uri_plain_not_percent: "uri_plain c \<Longrightarrow> c \<noteq> CHR ''%''"
  by (auto simp: uri_plain_def Let_def)

lemma decode_encode_char:
  "decode_uri_component (encode_char c @ s) = map_option (\<lambda>t. c # t) (decode_uri_component s)"
proof (cases "uri_plain c")
  case True
  with uri_plain_not_percent show ?thesis by (simp add: encode_char_def)
next
  case False
  with of_char_div_16 [of c] show ?thesis
    by (simp add: encode_char_def char_of_parts del: char_of_nat)
qed

lemma decode_encode [simp]: "decode_uri_component (encode_uri_component s) = Some s"
  by (induction s) (simp_all add: encode_uri_component_def decode_encode_char)

lemma hex_upper_chars: "d < 16 \<Longrightarrow> hex_upper d \<in> set ''0123456789ABCDEF''"
proof -
  assume "d < 16"
  then have "d \<in> set [0..<16]" by simp
  then show ?thesis
    by (simp add: upt_rec [of _ "16"] hex_upper_def char_of_eq_iff) (elim disjE; simp)
qed

lemma encode_chars: "c \<in> set (encode_uri_component s) \<Longrightarrow> uri_plain c \<or> c = CHR ''%''"
proof -
  have hex: "uri_plain (hex_upper d)" if "d < 16" for d
    using hex_upper_chars [OF that] by (auto simp: uri_plain_def)
  assume "c \<in> set (encode_uri_component s)"
  then obtain d where d: "c \<in> set (encode_char d)" by (auto simp: encode_uri_component_def)
  have "(of_char d :: nat) mod 16 < 16" by simp
  with d hex of_char_div_16 [of d] show ?thesis by (auto simp: encode_char_def split: if_splits)
qed

section \<open>Properties\<close>

text \<open>
  Whatever the name of a file is, the URL that reads it has exactly one more path segment than
  the project's files, that segment decodes to the name, and the name contributes no separator:
  the query starts at the first question mark.
\<close>

theorem file_path_is_one_segment:
  "\<exists>seg. api_url (read_file_call project_id path query) =
       ''/projects/'' @ project_id @ ''/files/'' @ seg @ ''?'' @ query \<and>
     decode_uri_component seg = Some path \<and>
     (\<forall>c \<in> set seg. c \<noteq> CHR ''/'' \<and> c \<noteq> CHR ''?'' \<and> c \<noteq> CHR ''#'' \<and> c \<noteq> CHR ''&'')"
proof -
  have "c \<noteq> CHR ''/'' \<and> c \<noteq> CHR ''?'' \<and> c \<noteq> CHR ''#'' \<and> c \<noteq> CHR ''&''"
    if "c \<in> set (encode_uri_component path)" for c
    using encode_chars [OF that] by (auto simp: uri_plain_def Let_def)
  then show ?thesis by (auto simp: read_file_call_def call_def)
qed

lemma file_path_is_one_segment_witness:
  "CHR ''/'' \<notin> set (encode_uri_component ''a/b?c'') \<and> CHR ''?'' \<notin> set (encode_uri_component ''a/b?c'')"
proof -
  from file_path_is_one_segment [of "''p1''" "''a/b?c''" "''revision=r''"]
  obtain seg where seg: "api_url (read_file_call ''p1'' ''a/b?c'' ''revision=r'') =
       ''/projects/'' @ ''p1'' @ ''/files/'' @ seg @ ''?'' @ ''revision=r''"
    "\<forall>c \<in> set seg. c \<noteq> CHR ''/'' \<and> c \<noteq> CHR ''?''" by auto
  then have "seg = encode_uri_component ''a/b?c''" by (simp add: read_file_call_def call_def)
  with seg(2) show ?thesis by blast
qed

end
