(* ===== verification/Projects.thy ===== *)
theory Projects imports Dates begin

text \<open>
  \<open>frontend/lib/projects/filters.ts\<close> and \<open>frontend/hooks/projects/useProjectCollection.ts\<close>: the
  list of projects, how it is filtered and sorted, and the state of the collection with loading
  and deletion. \<open>String.prototype.localeCompare\<close> depends on the host's collation tables, so the
  two comparisons the code uses are arguments: \<open>collate\<close> for titles (base letters, numeric) and
  \<open>collate_id\<close> for identifiers. An asynchronous operation is cut at its \<open>await\<close>: the part before
  it, and the part after it given the outcome. Pointer tracking of the card spotlight and the
  toasts' text are the display's.
\<close>

section \<open>Data\<close>

record project =
  project_id :: string
  project_user :: int
  title :: string
  project_url :: "string option"
  project_created :: string
  project_updated :: "string option"

datatype project_sort = Recent | Newest | Oldest | Name_asc | Name_desc

datatype project_period = Period_all | Period_7 | Period_30

section \<open>Filtering and sorting\<close>

definition period_days :: "project_period \<Rightarrow> int" where
  "period_days p = (case p of Period_all \<Rightarrow> 0 | Period_7 \<Rightarrow> 7 | Period_30 \<Rightarrow> 30)"

definition matches :: "string \<Rightarrow> project_period \<Rightarrow> int \<Rightarrow> project \<Rightarrow> bool" where
  "matches query period now p =
     (if \<not> includes_str (to_lower (trim query)) (to_lower (title p)) then False
      else if period = Period_all then True
      else (case date_parse (project_created p) of
              None \<Rightarrow> False
            | Some created \<Rightarrow> now - period_days period * 86400000 \<le> created \<and> created \<le> now))"

definition sort_date :: "project_sort \<Rightarrow> project \<Rightarrow> int option" where
  "sort_date s p =
     date_parse (if s = Recent then str_or (opt_str (project_updated p)) (project_created p)
                 else project_created p)"

definition date_order :: "project_sort \<Rightarrow> project \<Rightarrow> project \<Rightarrow> int" where
  "date_order s a b =
     (case (sort_date s a, sort_date s b) of
        (Some x, None) \<Rightarrow> - 1
      | (None, Some y) \<Rightarrow> 1
      | (None, None) \<Rightarrow> 0
      | (Some x, Some y) \<Rightarrow> if s \<noteq> Oldest then - (x - y) else x - y)"

definition main_order ::
  "(string \<Rightarrow> string \<Rightarrow> int) \<Rightarrow> project_sort \<Rightarrow> project \<Rightarrow> project \<Rightarrow> int" where
  "main_order collate s a b =
     (case s of
        Name_asc \<Rightarrow> collate (title a) (title b)
      | Name_desc \<Rightarrow> - collate (title a) (title b)
      | _ \<Rightarrow> date_order s a b)"

definition project_order ::
  "(string \<Rightarrow> string \<Rightarrow> int) \<Rightarrow> (string \<Rightarrow> string \<Rightarrow> int) \<Rightarrow> project_sort \<Rightarrow> project \<Rightarrow> project \<Rightarrow> int" where
  "project_order collate collate_id s a b =
     (let order = main_order collate s a b in
      if order \<noteq> 0 then order else collate_id (project_id a) (project_id b))"

definition filter_projects ::
  "(string \<Rightarrow> string \<Rightarrow> int) \<Rightarrow> (string \<Rightarrow> string \<Rightarrow> int) \<Rightarrow>
   project list \<Rightarrow> string \<Rightarrow> project_sort \<Rightarrow> project_period \<Rightarrow> int \<Rightarrow> project list" where
  "filter_projects collate collate_id ps query s period now =
     js_sort (project_order collate collate_id s) (filter (matches query period now) ps)"

section \<open>The collection\<close>

datatype cleanup = Cleanup_completed | Cleanup_queued

record deletion =
  storage_cleanup :: cleanup
  sandbox_cleanup :: cleanup

record collection =
  projects :: "project list"
  loading :: bool
  load_error :: string
  col_query :: string
  col_sort :: project_sort
  col_period :: project_period
  attempt :: nat
  pending_delete :: "project option"
  deleting_id :: "string option"
  delete_error :: string
  toast :: "string option"
  replaced :: "string option"

definition empty_collection :: collection where
  "empty_collection =
     \<lparr>projects = [], loading = True, load_error = [], col_query = [], col_sort = Recent,
      col_period = Period_all, attempt = 0, pending_delete = None, deleting_id = None,
      delete_error = [], toast = None, replaced = None\<rparr>"

text \<open>The load effect's callbacks: \<open>disposed\<close> is whether its attempt was left meanwhile.\<close>

definition finish_load :: "bool \<Rightarrow> (unit, project list) result \<Rightarrow> collection \<Rightarrow> collection" where
  "finish_load disposed outcome st =
     (if disposed then st
      else (case outcome of
              Inr ps \<Rightarrow> st\<lparr>projects := ps, loading := False\<rparr>
            | Inl _ \<Rightarrow> st\<lparr>load_error := ''Could not load your projects. Please try again.'', loading := False\<rparr>))"

text \<open>\<open>deleteProject\<close> up to the request: the project it deletes, when it goes on.\<close>

definition start_delete :: "collection \<Rightarrow> project option \<times> collection" where
  "start_delete st =
     (case pending_delete st of
        None \<Rightarrow> (None, st)
      | Some p \<Rightarrow>
          if truthy_str (deleting_id st) then (None, st)
          else (Some p, st\<lparr>deleting_id := Some (project_id p), delete_error := []\<rparr>))"

text \<open>
  \<open>deleteProject\<close> from the answer on. A failure is \<open>Some message\<close> for an \<open>Error\<close> and \<open>None\<close> for
  anything else that was thrown.
\<close>

definition finish_delete ::
  "string \<Rightarrow> project \<Rightarrow> (string option, deletion) result \<Rightarrow> collection \<Rightarrow> collection" where
  "finish_delete pathname p outcome st =
     (let st1 =
        (case outcome of
           Inr d \<Rightarrow>
             let st2 = st\<lparr>projects := filter (\<lambda>q. project_id q \<noteq> project_id p) (projects st),
                          pending_delete := None,
                          toast := Some (if storage_cleanup d \<noteq> Cleanup_completed \<or>
                                           sandbox_cleanup d \<noteq> Cleanup_completed
                                         then ''Project removed; cleanup pending''
                                         else ''Project deleted'')\<rparr>
             in if pathname = ''/chat/'' @ project_id p
                then st2\<lparr>replaced := Some ''/projects''\<rparr> else st2
         | Inl e \<Rightarrow>
             st\<lparr>delete_error :=
                 (case e of Some msg \<Rightarrow> msg
                  | None \<Rightarrow> ''Could not delete the project. Please try again.'')\<rparr>)
      in st1\<lparr>deleting_id := None\<rparr>)"

definition visible ::
  "(string \<Rightarrow> string \<Rightarrow> int) \<Rightarrow> (string \<Rightarrow> string \<Rightarrow> int) \<Rightarrow> int \<Rightarrow> collection \<Rightarrow> project list" where
  "visible collate collate_id now st =
     filter_projects collate collate_id (projects st) (col_query st) (col_sort st) (col_period st) now"

definition narrowed :: "collection \<Rightarrow> bool" where
  "narrowed st \<longleftrightarrow> trim (col_query st) \<noteq> [] \<or> col_period st \<noteq> Period_all"

definition changed :: "collection \<Rightarrow> bool" where
  "changed st \<longleftrightarrow> narrowed st \<or> col_sort st \<noteq> Recent"

definition reset_filters :: "collection \<Rightarrow> collection" where
  "reset_filters st = st\<lparr>col_query := [], col_period := Period_all, col_sort := Recent\<rparr>"

section \<open>Lemmas\<close>

text \<open>
  What the standard says of a comparison function: swapping the arguments swaps the sign. Two
  such comparisons chain into one.
\<close>

definition skew :: "('a \<Rightarrow> 'a \<Rightarrow> int) \<Rightarrow> 'a set \<Rightarrow> bool" where
  "skew cmp A \<longleftrightarrow> (\<forall>x \<in> A. \<forall>y \<in> A. sgn (cmp y x) = - sgn (cmp x y))"

lemma skewD: "skew cmp A \<Longrightarrow> x \<in> A \<Longrightarrow> y \<in> A \<Longrightarrow> cmp x y \<le> 0 \<longleftrightarrow> 0 \<le> cmp y x"
  "skew cmp A \<Longrightarrow> x \<in> A \<Longrightarrow> y \<in> A \<Longrightarrow> cmp x y = 0 \<longleftrightarrow> cmp y x = 0"
proof -
  assume "skew cmp A" "x \<in> A" "y \<in> A"
  then have "sgn (cmp y x) = - sgn (cmp x y)" unfolding skew_def by blast
  then show "cmp x y \<le> 0 \<longleftrightarrow> 0 \<le> cmp y x" by (auto simp: sgn_if split: if_splits)
next
  assume "skew cmp A" "x \<in> A" "y \<in> A"
  then have "sgn (cmp y x) = - sgn (cmp x y)" unfolding skew_def by blast
  then show "cmp x y = 0 \<longleftrightarrow> cmp y x = 0" by (auto simp: sgn_if split: if_splits)
qed

lemma chain_skew:
  "skew f A \<Longrightarrow> skew g A \<Longrightarrow> skew (\<lambda>x y. if f x y \<noteq> 0 then f x y else g x y) A"
proof -
  assume f: "skew f A" and g: "skew g A"
  have "sgn (if f y x \<noteq> 0 then f y x else g y x) = - sgn (if f x y \<noteq> 0 then f x y else g x y)"
    if xy: "x \<in> A" "y \<in> A" for x y
  proof (cases "f x y = 0")
    case True
    then have "f y x = 0" using skewD(2) [OF f xy] by simp
    moreover from g xy have "sgn (g y x) = - sgn (g x y)" unfolding skew_def by blast
    ultimately show ?thesis using True by simp
  next
    case False
    then have "f y x \<noteq> 0" using skewD(2) [OF f xy] by simp
    moreover from f xy have "sgn (f y x) = - sgn (f x y)" unfolding skew_def by blast
    ultimately show ?thesis using False by simp
  qed
  then show ?thesis unfolding skew_def by blast
qed

lemma chain_consistent:
  assumes f: "consistent f A" "skew f A" and g: "consistent g A"
  shows "consistent (\<lambda>x y. if f x y \<noteq> 0 then f x y else g x y) A"
proof -
  have total: "(if f x y \<noteq> 0 then f x y else g x y) \<le> 0 \<or> (if f y x \<noteq> 0 then f y x else g y x) \<le> 0"
    if "x \<in> A" "y \<in> A" for x y
    using consistent_total [OF f(1) that] consistent_total [OF g that] skewD [OF f(2) that] by auto
  have trans: "(if f x z \<noteq> 0 then f x z else g x z) \<le> 0"
    if in_A: "x \<in> A" "y \<in> A" "z \<in> A"
      and xy: "(if f x y \<noteq> 0 then f x y else g x y) \<le> 0"
      and yz: "(if f y z \<noteq> 0 then f y z else g y z) \<le> 0" for x y z
  proof -
    have le: "f x y \<le> 0" "f y z \<le> 0" using xy yz by (auto split: if_splits)
    then have xz: "f x z \<le> 0" using consistent_trans [OF f(1) in_A] by simp
    show ?thesis
    proof (cases "f x z = 0")
      case True
      then have "f z x \<le> 0" using skewD(2) [OF f(2) in_A(1,3)] by simp
      then have "f z y \<le> 0" "f y x \<le> 0"
        using consistent_trans [OF f(1) in_A(3,1,2)] consistent_trans [OF f(1) in_A(2,3,1)] le by simp_all
      then have "f x y = 0" "f y z = 0"
        using skewD(1) [OF f(2) in_A(2,1)] skewD(1) [OF f(2) in_A(3,2)] le by simp_all
      with xy yz True consistent_trans [OF g in_A] show ?thesis by simp
    qed (use xz in simp)
  qed
  from total trans show ?thesis unfolding consistent_def by blast
qed

lemma date_order_consistent: "consistent (date_order s) A"
  unfolding consistent_def date_order_def by (auto split: option.split)

lemma date_order_skew: "skew (date_order s) A"
  unfolding skew_def date_order_def by (auto split: option.split) (simp_all add: sgn_if)

text \<open>What the host's collation promises (ECMA-402): a total preorder, with swapped signs.\<close>

definition collation :: "(string \<Rightarrow> string \<Rightarrow> int) \<Rightarrow> bool" where
  "collation cmp \<longleftrightarrow> consistent cmp UNIV \<and> skew cmp UNIV"

lemma consistent_map: "consistent cmp UNIV \<Longrightarrow> consistent (\<lambda>a b. cmp (h a) (h b)) A"
  unfolding consistent_def by blast

lemma skew_map: "skew cmp UNIV \<Longrightarrow> skew (\<lambda>a b. cmp (h a) (h b)) A"
  unfolding skew_def by blast

lemma consistent_reverse: "consistent cmp A \<Longrightarrow> skew cmp A \<Longrightarrow> consistent (\<lambda>a b. - cmp a b) A"
proof -
  assume c: "consistent cmp A" and s: "skew cmp A"
  have flip: "- cmp a b \<le> 0 \<longleftrightarrow> cmp b a \<le> 0" if "a \<in> A" "b \<in> A" for a b
    using skewD(1) [OF s that(2,1)] by simp
  have total: "- cmp a b \<le> 0 \<or> - cmp b a \<le> 0" if "a \<in> A" "b \<in> A" for a b
    using consistent_total [OF c that] flip [OF that] flip [OF that(2,1)] by blast
  have trans: "- cmp a d \<le> 0" if "a \<in> A" "b \<in> A" "d \<in> A" "- cmp a b \<le> 0" "- cmp b d \<le> 0" for a b d
    using consistent_trans [OF c, of d b a] that flip by blast
  show ?thesis
    unfolding consistent_def by (intro conjI ballI impI) (fact total, fact trans)
qed

lemma skew_reverse: "skew cmp A \<Longrightarrow> skew (\<lambda>a b. - cmp a b) A"
proof -
  assume s: "skew cmp A"
  have "sgn (- cmp y x) = - sgn (- cmp x y)" if "x \<in> A" "y \<in> A" for x y
  proof -
    from s that have "sgn (cmp y x) = - sgn (cmp x y)" unfolding skew_def by blast
    then show ?thesis by simp
  qed
  then show ?thesis unfolding skew_def by blast
qed

lemma main_order_laws:
  assumes "collation collate"
  shows "consistent (main_order collate s) A \<and> skew (main_order collate s) A"
proof -
  have named: "consistent (\<lambda>a b. collate (title a) (title b)) A" "skew (\<lambda>a b. collate (title a) (title b)) A"
    using assms by (simp_all add: collation_def consistent_map skew_map)
  then show ?thesis
    unfolding main_order_def
    by (cases s) (simp_all add: date_order_consistent date_order_skew consistent_reverse skew_reverse)
qed

lemma project_order_laws:
  assumes "collation collate" and "collation collate_id"
  shows "consistent (project_order collate collate_id s) A" "skew (project_order collate collate_id s) A"
proof -
  have ids: "consistent (\<lambda>a b. collate_id (project_id a) (project_id b)) A"
    "skew (\<lambda>a b. collate_id (project_id a) (project_id b)) A"
    using assms(2) by (simp_all add: collation_def consistent_map skew_map)
  have eq: "project_order collate collate_id s =
    (\<lambda>a b. if main_order collate s a b \<noteq> 0 then main_order collate s a b
           else collate_id (project_id a) (project_id b))"
    by (simp add: project_order_def Let_def fun_eq_iff)
  from main_order_laws [OF assms(1), of s A] ids
  show "consistent (project_order collate collate_id s) A" "skew (project_order collate collate_id s) A"
    unfolding eq by (simp_all add: chain_consistent chain_skew)
qed

text \<open>Two sorted lists with the same elements are the same when only equal elements tie.\<close>

lemma sorted_unique:
  assumes "sorted_wrt (\<lambda>a b. cmp a b \<le> (0 :: int)) xs" and "sorted_wrt (\<lambda>a b. cmp a b \<le> 0) ys"
    and "mset xs = mset ys"
    and "\<forall>a \<in> set xs. \<forall>b \<in> set xs. cmp a b \<le> 0 \<longrightarrow> cmp b a \<le> 0 \<longrightarrow> a = b"
  shows "xs = ys"
  using assms
proof (induction xs arbitrary: ys)
  case (Cons x xs)
  then obtain y ys' where ys: "ys = y # ys'" by (cases ys) auto
  have sets: "set (x # xs) = set ys" using Cons.prems(3) by (metis set_mset_mset)
  have "x = y"
  proof (rule ccontr)
    assume ne: "x \<noteq> y"
    with sets ys have "x \<in> set ys'" "y \<in> set xs" by auto
    with Cons.prems(1,2) ys have "cmp x y \<le> 0" "cmp y x \<le> 0" by simp_all
    with Cons.prems(4) \<open>y \<in> set xs\<close> ne show False by simp
  qed
  with Cons ys show ?case by simp
qed simp

section \<open>Properties\<close>

text \<open>
  The filtered list holds exactly the projects that match, each as often as the server sent
  it, in the order of the chosen sort. Between two projects that compare by date, one with an
  unreadable date never comes first.
\<close>

theorem filter_projects_sorted:
  assumes "collation collate" and "collation collate_id"
  shows "mset (filter_projects collate collate_id ps query s period now) =
      mset (filter (matches query period now) ps) \<and>
    sorted_wrt (\<lambda>a b. project_order collate collate_id s a b \<le> 0)
      (filter_projects collate collate_id ps query s period now) \<and>
    (s \<in> {Recent, Newest, Oldest} \<longrightarrow>
      sorted_wrt (\<lambda>a b. sort_date s a = None \<longrightarrow> sort_date s b = None)
        (filter_projects collate collate_id ps query s period now))"
proof -
  let ?r = "filter_projects collate collate_id ps query s period now"
  have sorted: "sorted_wrt (\<lambda>a b. project_order collate collate_id s a b \<le> 0) ?r"
    unfolding filter_projects_def by (rule js_sort_sorted [OF project_order_laws(1) [OF assms]])
  have unread: "sort_date s a = None \<longrightarrow> sort_date s b = None"
    if "s \<in> {Recent, Newest, Oldest}" "project_order collate collate_id s a b \<le> 0" for a b
  proof (intro impI, rule ccontr)
    assume "sort_date s a = None" and "sort_date s b \<noteq> None"
    then have "date_order s a b = 1" by (auto simp: date_order_def)
    with that show False by (auto simp: project_order_def main_order_def)
  qed
  have "sorted_wrt (\<lambda>a b. sort_date s a = None \<longrightarrow> sort_date s b = None) ?r"
    if "s \<in> {Recent, Newest, Oldest}"
    by (rule sorted_wrt_mono_rel [OF _ sorted]) (rule unread [OF that])
  with sorted show ?thesis by (simp add: filter_projects_def)
qed

text \<open>A collation of the C locale, which compares first different characters.\<close>

fun code_unit_order :: "string \<Rightarrow> string \<Rightarrow> int" where
  "code_unit_order [] [] = 0"
| "code_unit_order [] (b # bs) = - 1"
| "code_unit_order (a # as) [] = 1"
| "code_unit_order (a # as) (b # bs) =
     (if a = b then code_unit_order as bs
      else if (of_char a :: nat) < of_char b then - 1 else 1)"

lemma code_unit_skew: "code_unit_order b a = - code_unit_order a b"
  by (induction a b rule: code_unit_order.induct) auto

lemma code_unit_trans:
  "code_unit_order a b \<le> 0 \<Longrightarrow> code_unit_order b c \<le> 0 \<Longrightarrow> code_unit_order a c \<le> 0"
proof (induction a b arbitrary: c rule: code_unit_order.induct)
  case (4 x xs y ys)
  then show ?case by (cases c) (auto split: if_splits)
next
  case (2 y ys)
  then show ?case by (cases c) auto
qed auto

lemma code_unit_eq: "code_unit_order a b = 0 \<longleftrightarrow> a = b"
  by (induction a b rule: code_unit_order.induct) auto

lemma code_unit_collation: "collation code_unit_order"
proof -
  have total: "code_unit_order a b \<le> 0 \<or> code_unit_order b a \<le> 0" for a b
    using code_unit_skew [of b a] by auto
  have sign: "sgn (code_unit_order b a) = - sgn (code_unit_order a b)" for a b
    unfolding code_unit_skew [of b a] by (simp add: sgn_if)
  show ?thesis
    unfolding collation_def consistent_def skew_def
    by (intro conjI ballI impI; (rule total | rule sign | rule code_unit_trans; assumption))
qed

definition sample_project :: "string \<Rightarrow> string \<Rightarrow> string \<Rightarrow> project" where
  "sample_project i t d = \<lparr>project_id = i, project_user = 1, title = t, project_url = None,
     project_created = d, project_updated = None\<rparr>"

definition sample_projects :: "project list" where
  "sample_projects = [sample_project ''b'' ''Notes'' ''soon'', sample_project ''c'' ''Shop'' ''2026-01-01'',
     sample_project ''a'' ''Shop two'' ''2026-02-01'']"

lemma filter_projects_sorted_witness:
  "map project_id (filter_projects code_unit_order code_unit_order sample_projects '' '' Newest Period_all 0) =
     [''a'', ''c'', ''b''] \<and>
   sorted_wrt (\<lambda>a b. sort_date Newest a = None \<longrightarrow> sort_date Newest b = None)
     (filter_projects code_unit_order code_unit_order sample_projects '' '' Newest Period_all 0)"
proof -
  have "map project_id (filter_projects code_unit_order code_unit_order sample_projects '' '' Newest Period_all 0) =
     [''a'', ''c'', ''b'']" by code_simp
  with filter_projects_sorted [OF code_unit_collation code_unit_collation, of sample_projects "'' ''" Newest Period_all 0]
  show ?thesis by simp
qed

text \<open>
  What the user sees does not depend on the order in which the server lists the projects:
  with distinct identifiers that the identifier collation tells apart, every arrangement of the
  same projects gives the same visible list.
\<close>

theorem visible_order_independent:
  assumes "collation collate" and "collation collate_id"
    and "\<forall>x y. collate_id x y = 0 \<longrightarrow> x = y"
    and "distinct (map project_id ps)" and "mset qs = mset ps"
  shows "filter_projects collate collate_id qs query s period now =
    filter_projects collate collate_id ps query s period now"
proof (rule sorted_unique)
  let ?cmp = "project_order collate collate_id s"
  show "sorted_wrt (\<lambda>a b. ?cmp a b \<le> 0) (filter_projects collate collate_id qs query s period now)"
    "sorted_wrt (\<lambda>a b. ?cmp a b \<le> 0) (filter_projects collate collate_id ps query s period now)"
    unfolding filter_projects_def by (rule js_sort_sorted [OF project_order_laws(1) [OF assms(1,2)]])+
  show "mset (filter_projects collate collate_id qs query s period now) =
    mset (filter_projects collate collate_id ps query s period now)"
    using assms(5) by (simp add: filter_projects_def)
  have inj: "a = b" if "a \<in> set ps" "b \<in> set ps" "project_id a = project_id b" for a b
    using assms(4) that by (auto simp: distinct_map dest: inj_onD)
  have sets: "set (filter_projects collate collate_id qs query s period now) \<subseteq> set ps"
    using assms(5) by (auto simp: filter_projects_def dest: mset_eq_setD)
  have tie: "project_id a = project_id b" if "?cmp a b \<le> 0" "?cmp b a \<le> 0" for a b
  proof -
    have "?cmp a b = 0"
      using skewD(1) [OF project_order_laws(2) [OF assms(1,2), of s UNIV], of b a] that by simp
    then show ?thesis using assms(3) by (auto simp: project_order_def Let_def split: if_splits)
  qed
  show "\<forall>a \<in> set (filter_projects collate collate_id qs query s period now).
      \<forall>b \<in> set (filter_projects collate collate_id qs query s period now).
        ?cmp a b \<le> 0 \<longrightarrow> ?cmp b a \<le> 0 \<longrightarrow> a = b"
    using inj tie sets by blast
qed

lemma visible_order_independent_witness:
  "filter_projects code_unit_order code_unit_order (rev sample_projects) ''shop'' Name_asc Period_all 0 =
   filter_projects code_unit_order code_unit_order sample_projects ''shop'' Name_asc Period_all 0"
proof (rule visible_order_independent [OF code_unit_collation code_unit_collation])
  show "\<forall>x y. code_unit_order x y = 0 \<longrightarrow> x = y" by (simp add: code_unit_eq)
  show "distinct (map project_id sample_projects)" by code_simp
  show "mset (rev sample_projects) = mset sample_projects" by simp
qed

text \<open>
  A deletion that has been started names one project and blocks a second one until it is
  settled. A failure keeps the list and shows why; a success takes out that project and no other.
  Either way another deletion can be started afterwards.
\<close>

theorem one_deletion_at_a_time:
  assumes "start_delete st = (Some p, st1)" and "project_id p \<noteq> []"
  shows "start_delete st1 = (None, st1) \<and> projects st1 = projects st \<and>
    (\<forall>path e. projects (finish_delete path p (Inl e) st1) = projects st \<and>
       pending_delete (finish_delete path p (Inl e) st1) = Some p) \<and>
    (\<forall>path d. projects (finish_delete path p (Inr d) st1) = filter (\<lambda>q. project_id q \<noteq> project_id p) (projects st) \<and>
       pending_delete (finish_delete path p (Inr d) st1) = None) \<and>
    (\<forall>path out. deleting_id (finish_delete path p out st1) = None)"
  using assms
  by (auto simp: start_delete_def finish_delete_def Let_def truthy_str_def opt_str_def
      split: option.splits if_splits sum.splits)

definition sample_collection :: collection where
  "sample_collection = empty_collection\<lparr>projects := sample_projects, pending_delete := Some (hd sample_projects)\<rparr>"

lemma one_deletion_at_a_time_witness:
  "fst (start_delete (snd (start_delete sample_collection))) = None \<and>
   length (projects (finish_delete ''/projects'' (hd sample_projects)
     (Inr \<lparr>storage_cleanup = Cleanup_completed, sandbox_cleanup = Cleanup_queued\<rparr>)
     (snd (start_delete sample_collection)))) = 2"
proof -
  have 1: "start_delete sample_collection = (Some (hd sample_projects), snd (start_delete sample_collection))"
    by code_simp
  have 2: "project_id (hd sample_projects) \<noteq> []" by code_simp
  have 3: "length (filter (\<lambda>q. project_id q \<noteq> project_id (hd sample_projects)) (projects sample_collection)) = 2"
    by code_simp
  from one_deletion_at_a_time [OF 1 2] 3 show ?thesis by (simp del: length_filter_conv_card)
qed

end
