(* ===== verification/NewProject.thy ===== *)
theory NewProject imports AuthSession Services begin

text \<open>
  \<open>frontend/hooks/chat/useNewProject.ts\<close> with \<open>lib/projects/draft.ts\<close> and
  \<open>lib/projects/starterBriefs.ts\<close>: the page that starts a project. \<open>sessionStorage\<close> is \<open>None\<close>
  where the browser denies it and every access throws. The account request and the creation of
  the chat are cut at their \<open>await\<close>.
\<close>

section \<open>Data\<close>

record brief =
  brief_id :: string
  brief_title :: string
  brief_category :: string
  brief_description :: string
  brief_prompt :: string

definition starter_briefs :: "brief list" where
  "starter_briefs =
     [\<lparr>brief_id = ''reading'', brief_title = ''The reading room'', brief_category = ''Personal'',
       brief_description = ''A home for your next good book.'',
       brief_prompt = ''Build a reading list where I can add books, mark them finished, and search my collection.''\<rparr>,
      \<lparr>brief_id = ''habits'', brief_title = ''Small daily wins'', brief_category = ''Productivity'',
       brief_description = ''Make a little progress every day.'',
       brief_prompt = ''Build a habit tracker with editable habits and a clear daily checklist.''\<rparr>,
      \<lparr>brief_id = ''portfolio'', brief_title = ''Selected work'', brief_category = ''Portfolio'',
       brief_description = ''Give your projects a place to live.'',
       brief_prompt = ''Build a portfolio for a designer with a project gallery, project details, and a contact form.''\<rparr>]"

definition PROJECT_DRAFT_KEY :: string where
  "PROJECT_DRAFT_KEY = ''webbuilder-project-draft''"

definition MAX_PROJECT_DRAFT_LENGTH :: nat where
  "MAX_PROJECT_DRAFT_LENGTH = 2000"

definition STARTER_KEY :: string where
  "STARTER_KEY = ''webbuilder-starter''"

record new_project =
  np_input :: string
  np_loading :: bool
  np_error :: string
  np_authenticated :: bool
  np_user :: "user_data option"
  initial_draft :: "string option"
  np_route :: "string option"

definition empty_new_project :: new_project where
  "empty_new_project = \<lparr>np_input = [], np_loading = False, np_error = [], np_authenticated = False,
     np_user = None, initial_draft = None, np_route = None\<rparr>"

section \<open>Operations\<close>

definition find_brief :: "string option \<Rightarrow> brief option" where
  "find_brief requested =
     (case requested of None \<Rightarrow> None | Some r \<Rightarrow> List.find (\<lambda>b. brief_id b = r) starter_briefs)"

definition remember_starter :: "string option \<Rightarrow> brief \<Rightarrow> storage \<Rightarrow> storage" where
  "remember_starter token b st =
     (if truthy_str token then remove_item st STARTER_KEY
      else (case set_item st STARTER_KEY (brief_id b) of Inl _ \<Rightarrow> st | Inr st' \<Rightarrow> st'))"

text \<open>Lines 26 to 44: the draft to begin with, and the tab's storage afterwards.\<close>

definition choose_draft :: "string option \<Rightarrow> string option \<Rightarrow> storage option \<Rightarrow> string \<times> storage option" where
  "choose_draft explicit token session =
     (case session of
        None \<Rightarrow> ([], None)
      | Some st \<Rightarrow>
          let draft = get_item st PROJECT_DRAFT_KEY;
              requested = (if truthy_str explicit then explicit else get_item st STARTER_KEY);
              starter = find_brief requested
          in if trim (opt_str draft) \<noteq> [] \<and> \<not> (truthy_str explicit \<and> starter \<noteq> None)
             then (take MAX_PROJECT_DRAFT_LENGTH (opt_str draft), Some st)
             else (case starter of
                     Some b \<Rightarrow> (brief_prompt b, Some (remember_starter token b (remove_item st PROJECT_DRAFT_KEY)))
                   | None \<Rightarrow> ([], Some st)))"

text \<open>The effect on mount; the flag tells whether it asks for the account.\<close>

definition mount_new_project ::
  "string option \<Rightarrow> browser \<Rightarrow> storage option \<Rightarrow> new_project \<Rightarrow> bool \<times> storage option \<times> new_project" where
  "mount_new_project explicit b session st =
     (let token = get_item (web_local b) ''auth_token'';
          (session1, st1) =
            (case initial_draft st of
               Some _ \<Rightarrow> (session, st)
             | None \<Rightarrow> let (d, s) = choose_draft explicit token session in (s, st\<lparr>initial_draft := Some d\<rparr>))
      in if \<not> truthy_str token then (False, session1, st1\<lparr>np_route := Some ''/signin''\<rparr>)
         else (True, session1, st1))"

text \<open>The account's answer: the value the server sent and its typed reading.\<close>

definition account_loaded ::
  "bool \<Rightarrow> (unit, json \<times> user_data) result \<Rightarrow> browser \<Rightarrow> new_project \<Rightarrow> browser \<times> new_project" where
  "account_loaded disposed outcome b st =
     (if disposed then (b, st)
      else let failed = st\<lparr>np_error := ''Could not load your account. Refresh to try again.''\<rparr> in
        case outcome of
          Inl _ \<Rightarrow> (b, failed)
        | Inr (v, user) \<Rightarrow>
            (case set_item (web_local b) ''user_data'' (print_json v) of
               Inl _ \<Rightarrow> (b, failed)
             | Inr l \<Rightarrow>
                 (b\<lparr>web_local := l\<rparr>,
                  st\<lparr>np_input := str_or (np_input st) (opt_str (initial_draft st)),
                     np_user := Some user, np_authenticated := True\<rparr>)))"

definition new_project_sign_out :: "browser \<Rightarrow> new_project \<Rightarrow> browser \<times> new_project" where
  "new_project_sign_out b st =
     (clear_session b, st\<lparr>np_authenticated := False, np_user := None, np_route := Some ''/''\<rparr>)"

definition start_submit :: "new_project \<Rightarrow> api_request option \<times> new_project" where
  "start_submit st =
     (if trim (np_input st) = [] \<or> np_loading st \<or> \<not> np_authenticated st then (None, st)
      else (Some (create_chat_call (trim (np_input st))), st\<lparr>np_loading := True, np_error := []\<rparr>))"

definition finish_submit ::
  "(unit, string) result \<Rightarrow> storage option \<Rightarrow> new_project \<Rightarrow> storage option \<times> new_project" where
  "finish_submit outcome session st =
     (case outcome of
        Inl _ \<Rightarrow> (session, st\<lparr>np_error := ''Failed to create chat. Please try again.'', np_loading := False\<rparr>)
      | Inr chat_id \<Rightarrow>
          (map_option (\<lambda>s. remove_item s PROJECT_DRAFT_KEY) session,
           st\<lparr>np_route := Some (''/chat/'' @ chat_id)\<rparr>))"

section \<open>Lemmas\<close>

lemma keys_apart [simp]: "STARTER_KEY \<noteq> PROJECT_DRAFT_KEY"
  by (simp add: STARTER_KEY_def PROJECT_DRAFT_KEY_def)

lemma find_brief_id: "find_brief (Some i) = Some b \<Longrightarrow> brief_id b = i"
  by (auto simp: find_brief_def find_Some_iff)

section \<open>Properties\<close>

text \<open>
  A starter picked while signed out survives the sign-in: the visit that picked it remembers
  it in the tab, whatever draft was there before, and the next visit, signed in and without the
  link, begins with the same prompt and forgets the starter.
\<close>

theorem starter_survives_sign_in:
  assumes "find_brief (Some i) = Some b" and "i \<noteq> []"
    and "set_item (remove_item st PROJECT_DRAFT_KEY) STARTER_KEY i = Inr st'" and "tok \<noteq> []"
  shows "choose_draft (Some i) None (Some st) = (brief_prompt b, Some st') \<and>
    (\<exists>st''. choose_draft None (Some tok) (Some st') = (brief_prompt b, Some st'') \<and>
       get_item st'' STARTER_KEY = None \<and> get_item st'' PROJECT_DRAFT_KEY = None)"
proof -
  have first: "choose_draft (Some i) None (Some st) = (brief_prompt b, Some st')"
    using assms find_brief_id [OF assms(1)]
    by (simp add: choose_draft_def remember_starter_def truthy_str_def opt_str_def)
  have stored: "get_item st' STARTER_KEY = Some i" "get_item st' PROJECT_DRAFT_KEY = None"
    using items.get_put [OF assms(3)] keys_apart by (simp_all add: items.get_del del: keys_apart)
  have "choose_draft None (Some tok) (Some st') =
    (brief_prompt b, Some (remove_item (remove_item st' PROJECT_DRAFT_KEY) STARTER_KEY))"
    using stored assms(1,4)
    by (simp add: choose_draft_def remember_starter_def truthy_str_def opt_str_def)
  with first show ?thesis by (simp add: items.get_del)
qed

lemma starter_survives_sign_in_witness:
  "\<exists>st' st''. choose_draft (Some ''habits'') None (Some (empty_storage 100)) =
      (''Build a habit tracker with editable habits and a clear daily checklist.'', Some st') \<and>
    choose_draft None (Some ''t'') (Some st') =
      (''Build a habit tracker with editable habits and a clear daily checklist.'', Some st'')"
proof -
  let ?b = "starter_briefs ! 1"
  let ?st = "\<lparr>entries = [(STARTER_KEY, ''habits'')], quota = 100\<rparr>"
  have 1: "find_brief (Some ''habits'') = Some ?b" by code_simp
  have 2: "set_item (remove_item (empty_storage 100) PROJECT_DRAFT_KEY) STARTER_KEY ''habits'' = Inr ?st"
    by code_simp
  have 3: "brief_prompt ?b = ''Build a habit tracker with editable habits and a clear daily checklist.''"
    by code_simp
  from starter_survives_sign_in [OF 1 _ 2, of "''t''"] show ?thesis unfolding 3 by auto
qed

text \<open>
  A project is created from a non-empty prompt of a signed-in user only, once: while the
  request runs a second submission sends nothing. The draft in the tab is given up only when the
  chat exists; a failure keeps the input and the draft and allows another try.
\<close>

theorem submit_once_keeps_draft:
  assumes "start_submit st = (Some req, st1)"
  shows "req = create_chat_call (trim (np_input st)) \<and> trim (np_input st) \<noteq> [] \<and> np_authenticated st \<and>
    start_submit st1 = (None, st1) \<and>
    (\<forall>session. fst (finish_submit (Inl ()) session st1) = session \<and>
       fst (start_submit (snd (finish_submit (Inl ()) session st1))) = Some req) \<and>
    (\<forall>session i. map_option (\<lambda>s. get_item s PROJECT_DRAFT_KEY) (fst (finish_submit (Inr i) (Some session) st1)) = Some None \<and>
       np_route (snd (finish_submit (Inr i) (Some session) st1)) = Some (''/chat/'' @ i))"
  using assms
  by (auto simp: start_submit_def finish_submit_def items.get_del split: if_splits)

lemma submit_once_keeps_draft_witness:
  "start_submit (empty_new_project\<lparr>np_input := '' a blog '', np_authenticated := True, np_loading := True\<rparr>) =
   (None, empty_new_project\<lparr>np_input := '' a blog '', np_authenticated := True, np_loading := True\<rparr>)"
proof -
  let ?st = "empty_new_project\<lparr>np_input := '' a blog '', np_authenticated := True\<rparr>"
  have "start_submit ?st = (Some (create_chat_call ''a blog''), ?st\<lparr>np_loading := True\<rparr>)"
    by code_simp
  from submit_once_keeps_draft [OF this] show ?thesis by simp
qed

end
