(* ===== verification/PreviewLifecycle.thy ===== *)
theory PreviewLifecycle imports Services begin

text \<open>
  \<open>frontend/hooks/preview/usePreviewLifecycle.ts\<close> with \<open>types/preview.type.ts\<close>: the checks of a
  project's preview and its automatic startup. The coroutine \<open>check\<close> is cut at its three
  \<open>await\<close>s; \<open>pc\<close> is where it stands. \<open>preview_step\<close> takes one event of the page: a change of
  the hook's arguments, of the tab's visibility or of the revision, an answer of the server, a
  timer, a retry. \<open>Date.now()\<close> comes with the event.

  The variables of an effect's closure (\<open>disposed\<close>, \<open>checking\<close>, \<open>active\<close>, the timer) belong to the
  instance of the effect; a new instance starts them anew. What is left of an old instance is not
  kept: each of its continuations tests \<open>disposed\<close> before it writes.
\<close>

section \<open>Data\<close>

datatype preview_state = Pv_active | Pv_sleeping | Pv_opening | Pv_building

datatype preview_phase = Phase preview_state | Pv_checking | Pv_error

record preview_status =
  pv_state :: preview_state
  pv_url :: "string option"
  pv_revision :: "string option"

definition STARTUP_TIMEOUT_MS :: int where "STARTUP_TIMEOUT_MS = 200000"
definition STATUS_TIMEOUT_MS :: int where "STATUS_TIMEOUT_MS = 10000"
definition STARTUP_POLL_INTERVAL_MS :: int where "STARTUP_POLL_INTERVAL_MS = 3000"
definition ACTIVE_POLL_INTERVAL_MS :: int where "ACTIVE_POLL_INTERVAL_MS = 60000"

record preview_entry =
  attempted :: bool
  waiting_until :: int
  failure :: "string option"

datatype check_pc = Check_idle | Await_status | Await_open | Await_owner

record preview =
  phase :: preview_phase
  pv_message :: "string option"
  entry :: preview_entry
  enabled :: bool
  run_building :: bool
  revision :: "string option"
  previous_revision :: "string option"
  tab_visible :: bool
  pc :: check_pc
  pv_live :: bool
  timer :: "int option"
  opened :: "string option"
  startup_posts :: nat

text \<open>
  \<open>checking\<close> of the source is \<open>pc \<noteq> Check_idle\<close>; an instance of the second effect exists exactly when
  \<open>revision\<close> is not \<open>None\<close>. \<open>opened\<close> is the argument of the last \<open>onPreviewOpen\<close>. \<open>startup_posts\<close>
  counts the startup requests since the last retry and is not part of the program.
\<close>

definition fresh_entry :: preview_entry where
  "fresh_entry = \<lparr>attempted = False, waiting_until = 0, failure = None\<rparr>"

definition initial_preview :: "bool \<Rightarrow> bool \<Rightarrow> bool \<Rightarrow> preview" where
  "initial_preview en building visible =
     \<lparr>phase = Pv_checking, pv_message = None, entry = fresh_entry, enabled = en, run_building = building,
      revision = None, previous_revision = None, tab_visible = visible, pc = Check_idle, pv_live = False,
      timer = None, opened = None, startup_posts = 0\<rparr>"

section \<open>The coroutine\<close>

definition eligible :: "preview \<Rightarrow> bool" where
  "eligible st \<longleftrightarrow> revision st \<noteq> None \<and> enabled st \<and> tab_visible st"

definition fail :: "string \<Rightarrow> preview \<Rightarrow> preview" where
  "fail msg st =
     st\<lparr>entry := (entry st)\<lparr>failure := Some msg, waiting_until := 0\<rparr>,
        pv_message := Some msg, phase := Pv_error, opened := None\<rparr>"

definition observe_starting :: "int \<Rightarrow> preview_state \<Rightarrow> preview \<Rightarrow> preview" where
  "observe_starting now state st =
     (let e = (entry st)\<lparr>attempted := True,
                waiting_until := (if waiting_until (entry st) = 0 then now + STARTUP_TIMEOUT_MS
                                  else waiting_until (entry st))\<rparr>;
          st1 = st\<lparr>pv_live := False, entry := e\<rparr>
      in if waiting_until e \<le> now
         then fail ''The preview is taking longer than expected. Your saved files are available; try again later.'' st1
         else st1\<lparr>phase := Phase state, opened := None\<rparr>)"

definition observe_active :: "string \<Rightarrow> string option \<Rightarrow> preview \<Rightarrow> preview" where
  "observe_active url rv st =
     (if rv \<noteq> revision st
      then fail ''The saved project changed while opening. Reopen the project to view its latest version.'' st
      else st\<lparr>pv_live := True, entry := \<lparr>attempted = True, waiting_until = 0, failure = None\<rparr>,
              pv_message := None, phase := Phase Pv_active, opened := Some url\<rparr>)"

definition observe_other :: "preview \<Rightarrow> preview" where
  "observe_other st =
     (let st1 = st\<lparr>pv_live := False, opened := None\<rparr> in
      if waiting_until (entry st) \<noteq> 0
      then fail ''Preview could not start. Your saved files are still available.'' st1
      else st1\<lparr>phase := Phase Pv_sleeping\<rparr>)"

definition observe :: "int \<Rightarrow> preview_status \<Rightarrow> preview \<Rightarrow> preview" where
  "observe now s st =
     (if pv_state s = Pv_opening \<or> pv_state s = Pv_building then observe_starting now (pv_state s) st
      else if pv_state s = Pv_active \<and> truthy_str (pv_url s)
      then observe_active (opt_str (pv_url s)) (pv_revision s) st
      else observe_other st)"

text \<open>The \<open>finally\<close> of lines 146 to 156.\<close>

definition finish_check :: "preview \<Rightarrow> preview" where
  "finish_check st =
     st\<lparr>pc := Check_idle,
        timer := (if failure (entry st) = None
                  then Some (if waiting_until (entry st) \<noteq> 0 then STARTUP_POLL_INTERVAL_MS else ACTIVE_POLL_INTERVAL_MS)
                  else timer st)\<rparr>"

text \<open>The outer \<open>catch\<close> of line 140.\<close>

definition check_failed :: "preview \<Rightarrow> preview" where
  "check_failed st =
     (if \<not> pv_live st
      then fail ''Preview is temporarily unavailable. Your saved files are still available. Please retry.'' st
      else st)"

definition start_check :: "int \<Rightarrow> preview \<Rightarrow> preview" where
  "start_check now st =
     (if pc st \<noteq> Check_idle \<or> \<not> eligible st \<or> failure (entry st) \<noteq> None then st
      else let st1 = st\<lparr>timer := None\<rparr> in
        if run_building st1
        then finish_check (observe now \<lparr>pv_state = Pv_building, pv_url = None, pv_revision = None\<rparr> st1)
        else st1\<lparr>pc := Await_status\<rparr>)"

definition on_status :: "int \<Rightarrow> (unit, preview_status) result \<Rightarrow> preview \<Rightarrow> preview" where
  "on_status now reply st =
     (case reply of
        Inl _ \<Rightarrow> finish_check (check_failed st)
      | Inr current \<Rightarrow>
          if \<not> eligible st \<or> run_building st then finish_check st
          else if pv_state current \<noteq> Pv_sleeping \<or> attempted (entry st)
          then finish_check (observe now current st)
          else st\<lparr>entry := (entry st)\<lparr>attempted := True, waiting_until := now + STARTUP_TIMEOUT_MS\<rparr>,
                  phase := Phase Pv_opening, pv_message := None, opened := None,
                  pc := Await_open, startup_posts := startup_posts st + 1\<rparr>)"

definition on_opened :: "int \<Rightarrow> (unit, string \<times> string) result \<Rightarrow> preview \<Rightarrow> preview" where
  "on_opened now reply st =
     (case reply of
        Inl _ \<Rightarrow> st\<lparr>pc := Await_owner\<rparr>
      | Inr (url, rv) \<Rightarrow>
          finish_check
            (if \<not> run_building st
             then observe now \<lparr>pv_state = Pv_active, pv_url = Some url, pv_revision = Some rv\<rparr> st
             else st))"

definition on_owner :: "int \<Rightarrow> (unit, preview_status) result \<Rightarrow> preview \<Rightarrow> preview" where
  "on_owner now reply st =
     (case reply of
        Inl _ \<Rightarrow> finish_check (check_failed st)
      | Inr current \<Rightarrow> finish_check (observe now current st))"

section \<open>The effects and the events\<close>

definition set_controls :: "int \<Rightarrow> bool \<Rightarrow> bool \<Rightarrow> preview \<Rightarrow> preview" where
  "set_controls now en building st =
     (let was = run_building st;
          st1 = st\<lparr>enabled := en, run_building := building\<rparr>;
          st2 = (if building \<or> was
                 then st1\<lparr>entry := \<lparr>attempted = True, waiting_until = 0, failure = None\<rparr>, pv_message := None\<rparr>
                 else st1)
      in start_check now st2)"

definition set_revision :: "string option \<Rightarrow> preview \<Rightarrow> preview" where
  "set_revision rv st =
     (if \<not> truthy_str rv then st\<lparr>revision := None, pc := Check_idle, timer := None\<rparr>
      else
        let e = (if previous_revision st \<noteq> rv
                 then (entry st)\<lparr>failure := None, waiting_until := 0\<rparr> else entry st)
        in st\<lparr>revision := rv, previous_revision := rv, entry := e, pc := Check_idle, pv_live := False,
              pv_message := failure e, phase := (if failure e \<noteq> None then Pv_error else Pv_checking),
              timer := Some 0\<rparr>)"

definition retry :: "int \<Rightarrow> preview \<Rightarrow> preview" where
  "retry now st =
     (if revision st = None \<or> pc st \<noteq> Check_idle \<or> \<not> eligible st \<or> run_building st then st
      else start_check now (st\<lparr>entry := fresh_entry, pv_message := None, phase := Pv_checking, startup_posts := 0\<rparr>))"

datatype preview_event =
    Controls bool bool
  | Visibility bool
  | Revision "string option"
  | Status_reply "(unit, preview_status) result"
  | Open_reply "(unit, string \<times> string) result"
  | Timer_fires
  | Retry

fun preview_step :: "int \<Rightarrow> preview_event \<Rightarrow> preview \<Rightarrow> preview" where
  "preview_step now (Controls en building) st = set_controls now en building st"
| "preview_step now (Visibility v) st = start_check now (st\<lparr>tab_visible := v\<rparr>)"
| "preview_step now (Revision rv) st = set_revision rv st"
| "preview_step now (Status_reply r) st =
     (if pc st = Await_status then on_status now r st
      else if pc st = Await_owner then on_owner now r st else st)"
| "preview_step now (Open_reply r) st = (if pc st = Await_open then on_opened now r st else st)"
| "preview_step now Timer_fires st =
     (if timer st = None then st else start_check now (st\<lparr>timer := None\<rparr>))"
| "preview_step now Retry st = retry now st"

inductive preview_reachable :: "preview \<Rightarrow> bool" where
  Preview_start: "preview_reachable (initial_preview en building visible)"
| Preview_next: "preview_reachable st \<Longrightarrow> preview_reachable (preview_step now ev st)"

section \<open>Lemmas\<close>

text \<open>
  The invariant of the page: at most one startup request since the last retry, and only marked
  as attempted; a failure is what the page shows, with no preview open and no check running; and
  a preview that may be checked and has not failed always has a check running or scheduled.
\<close>

definition preview_inv :: "preview \<Rightarrow> bool" where
  "preview_inv st \<longleftrightarrow>
     (startup_posts st = 0 \<or> startup_posts st = 1 \<and> attempted (entry st)) \<and>
     (failure (entry st) \<noteq> None \<longrightarrow>
        phase st = Pv_error \<and> opened st = None \<and> pv_message st = failure (entry st) \<and> pc st = Check_idle) \<and>
     (pc st = Check_idle \<longrightarrow> eligible st \<longrightarrow> failure (entry st) = None \<longrightarrow> timer st \<noteq> None)"

text \<open>The part that every piece of the coroutine keeps, and that \<open>finish_check\<close> completes.\<close>

definition once_inv :: "preview \<Rightarrow> bool" where
  "once_inv st \<longleftrightarrow>
     (startup_posts st = 0 \<or> startup_posts st = 1 \<and> attempted (entry st)) \<and>
     (failure (entry st) \<noteq> None \<longrightarrow>
        phase st = Pv_error \<and> opened st = None \<and> pv_message st = failure (entry st))"

lemma once_of_inv: "preview_inv st \<Longrightarrow> once_inv st"
  by (auto simp: preview_inv_def once_inv_def)

lemma once_fail [keep_inv]: "once_inv st \<Longrightarrow> once_inv (fail msg st)"
  by (auto simp: once_inv_def fail_def)

lemma once_observe [keep_inv]:
  assumes "once_inv st" and "failure (entry st) = None"
  shows "once_inv (observe now s st)"
proof -
  have starting: "once_inv (observe_starting now state st)" for state
    using assms unfolding observe_starting_def Let_def
    by (auto simp: once_inv_def fail_def)
  have active: "once_inv (observe_active url rv st)" for url rv
    using assms by (auto simp: observe_active_def once_inv_def fail_def)
  have other: "once_inv (observe_other st)"
    using assms by (auto simp: observe_other_def once_inv_def fail_def Let_def)
  from starting active other show ?thesis by (simp add: observe_def)
qed

lemma once_check_failed [keep_inv]: "once_inv st \<Longrightarrow> once_inv (check_failed st)"
  by (simp add: check_failed_def once_fail)

lemma finish_check_inv: "once_inv st \<Longrightarrow> preview_inv (finish_check st)"
  by (auto simp: once_inv_def preview_inv_def finish_check_def)

lemma inv_awaiting: "once_inv st \<Longrightarrow> failure (entry st) = None \<Longrightarrow> pc st \<noteq> Check_idle \<Longrightarrow> preview_inv st"
  by (auto simp: once_inv_def preview_inv_def)

lemma inv_no_failure: "preview_inv st \<Longrightarrow> pc st \<noteq> Check_idle \<Longrightarrow> failure (entry st) = None"
  by (auto simp: preview_inv_def)

text \<open>A check that is asked for needs no scheduled one.\<close>

lemma start_check_inv:
  assumes "once_inv st" and "failure (entry st) \<noteq> None \<longrightarrow> pc st = Check_idle"
  shows "preview_inv (start_check now st)"
proof (cases "pc st \<noteq> Check_idle \<or> \<not> eligible st \<or> failure (entry st) \<noteq> None")
  case True
  with assms show ?thesis by (auto simp: start_check_def once_inv_def preview_inv_def)
next
  case False
  have "once_inv (st\<lparr>timer := None\<rparr>)" "failure (entry (st\<lparr>timer := None\<rparr>)) = None"
    using assms False by (simp_all add: once_inv_def)
  from finish_check_inv [OF once_observe [OF this]] this False show ?thesis
    by (auto simp: start_check_def Let_def once_inv_def preview_inv_def)
qed

lemma on_status_inv:
  assumes "preview_inv st" and "pc st = Await_status"
  shows "preview_inv (on_status now r st)"
proof -
  note once = once_of_inv [OF assms(1)]
  have none: "failure (entry st) = None" using inv_no_failure assms by simp
  show ?thesis
  proof (cases r)
    case (Inl e)
    then show ?thesis by (simp add: on_status_def finish_check_inv once_check_failed once)
  next
    case (Inr s)
    have "preview_inv (st\<lparr>entry := (entry st)\<lparr>attempted := True, waiting_until := now + STARTUP_TIMEOUT_MS\<rparr>,
        phase := Phase Pv_opening, pv_message := None, opened := None, pc := Await_open,
        startup_posts := startup_posts st + 1\<rparr>)" if "\<not> attempted (entry st)"
      using once none that by (auto simp: once_inv_def preview_inv_def)
    with Inr once none show ?thesis
      by (simp add: on_status_def finish_check_inv once_observe)
  qed
qed

lemma on_opened_inv:
  assumes "preview_inv st" and "pc st = Await_open"
  shows "preview_inv (on_opened now r st)"
proof -
  note once = once_of_inv [OF assms(1)]
  have none: "failure (entry st) = None" using inv_no_failure assms by simp
  have "preview_inv (st\<lparr>pc := Await_owner\<rparr>)"
    using once none by (intro inv_awaiting) (auto simp: once_inv_def)
  with once none show ?thesis
    by (auto simp: on_opened_def finish_check_inv once_observe split: sum.split prod.split)
qed

lemma on_owner_inv:
  assumes "preview_inv st" and "pc st = Await_owner"
  shows "preview_inv (on_owner now r st)"
  using once_of_inv [OF assms(1)] inv_no_failure [OF assms(1)] assms(2)
  by (auto simp: on_owner_def finish_check_inv once_observe once_check_failed split: sum.split)

lemma set_controls_inv: "preview_inv st \<Longrightarrow> preview_inv (set_controls now en building st)"
proof -
  assume inv: "preview_inv st"
  have plain: "preview_inv (start_check now (st\<lparr>enabled := en, run_building := building\<rparr>))"
    using inv by (intro start_check_inv) (auto simp: once_inv_def preview_inv_def)
  have cleared: "preview_inv (start_check now (st\<lparr>enabled := en, run_building := building,
       entry := \<lparr>attempted = True, waiting_until = 0, failure = None\<rparr>, pv_message := None\<rparr>))"
    using inv by (intro start_check_inv) (auto simp: once_inv_def preview_inv_def)
  show ?thesis
    using plain cleared by (cases building; simp add: set_controls_def Let_def)
qed

lemma set_revision_inv: "preview_inv st \<Longrightarrow> preview_inv (set_revision rv st)"
  by (auto simp: set_revision_def preview_inv_def eligible_def Let_def)

lemma retry_inv: "preview_inv st \<Longrightarrow> preview_inv (retry now st)"
proof -
  assume inv: "preview_inv st"
  have "preview_inv (start_check now (st\<lparr>entry := fresh_entry, pv_message := None, phase := Pv_checking, startup_posts := 0\<rparr>))"
    by (rule start_check_inv) (simp_all add: once_inv_def fresh_entry_def)
  with inv show ?thesis by (simp add: retry_def)
qed

lemma preview_step_inv [keep_inv]: "preview_inv st \<Longrightarrow> preview_inv (preview_step now ev st)"
proof (cases ev)
  case (Visibility v)
  assume inv: "preview_inv st"
  have "preview_inv (start_check now (st\<lparr>tab_visible := v\<rparr>))"
    using inv by (intro start_check_inv) (auto simp: once_inv_def preview_inv_def)
  with Visibility show ?thesis by simp
next
  case Timer_fires
  assume inv: "preview_inv st"
  have "preview_inv (start_check now (st\<lparr>timer := None\<rparr>))"
    using inv by (intro start_check_inv) (auto simp: once_inv_def preview_inv_def)
  with inv Timer_fires show ?thesis by simp
qed (simp_all add: set_controls_inv set_revision_inv on_status_inv on_opened_inv on_owner_inv retry_inv)

lemma preview_reachable_inv: "preview_reachable st \<Longrightarrow> preview_inv st"
proof (induction rule: preview_reachable.induct)
  case (Preview_start en building visible)
  then show ?case by (simp add: initial_preview_def preview_inv_def eligible_def fresh_entry_def)
qed (rule preview_step_inv)

section \<open>Properties\<close>

text \<open>
  C2: Whatever the user, the server, the timers and the run do, between two retries the page sends
  at most one startup request: reloading panels, hiding the tab, losing an answer or finishing a
  run never starts a second one.
\<close>

theorem one_startup_per_attempt:
  assumes "preview_reachable st"
  shows "startup_posts st \<le> 1"
  using preview_reachable_inv [OF assms] by (auto simp: preview_inv_def)

fun preview_run :: "(int \<times> preview_event) list \<Rightarrow> preview \<Rightarrow> preview" where
  "preview_run [] st = st"
| "preview_run ((now, ev) # evs) st = preview_run evs (preview_step now ev st)"

lemma preview_run_reachable: "preview_reachable st \<Longrightarrow> preview_reachable (preview_run evs st)"
proof (induction evs arbitrary: st)
  case (Cons e evs)
  then show ?case by (cases e) (simp add: Preview_next)
qed simp

definition sleeping_events :: "(int \<times> preview_event) list" where
  "sleeping_events =
     [(1, Revision (Some ''v1'')), (2, Timer_fires),
      (3, Status_reply (Inr \<lparr>pv_state = Pv_sleeping, pv_url = None, pv_revision = None\<rparr>)),
      (4, Open_reply (Inl ())),
      (5, Status_reply (Inr \<lparr>pv_state = Pv_opening, pv_url = None, pv_revision = None\<rparr>)),
      (6, Timer_fires),
      (7, Status_reply (Inr \<lparr>pv_state = Pv_sleeping, pv_url = None, pv_revision = None\<rparr>))]"

lemma one_startup_per_attempt_witness:
  "startup_posts (preview_run (take 3 sleeping_events) (initial_preview True False True)) = 1 \<and>
   startup_posts (preview_run sleeping_events (initial_preview True False True)) \<le> 1"
proof -
  have "startup_posts (preview_run (take 3 sleeping_events) (initial_preview True False True)) = 1"
    by code_simp
  with one_startup_per_attempt [OF preview_run_reachable [OF Preview_start]] show ?thesis by blast
qed

text \<open>
  C36: The checks never stall. While the preview is shown in a visible tab, its project has a
  revision and nothing failed, a check is under way or scheduled; and when something failed, the
  page says so and shows no preview.
\<close>

theorem preview_never_stalls:
  assumes "preview_reachable st"
  shows "(eligible st \<and> failure (entry st) = None \<longrightarrow> pc st \<noteq> Check_idle \<or> timer st \<noteq> None) \<and>
    (failure (entry st) \<noteq> None \<longrightarrow>
      phase st = Pv_error \<and> pv_message st = failure (entry st) \<and> opened st = None)"
  using preview_reachable_inv [OF assms] by (auto simp: preview_inv_def)

lemma preview_never_stalls_witness:
  "phase (preview_run sleeping_events (initial_preview True False True)) = Pv_error \<and>
   opened (preview_run sleeping_events (initial_preview True False True)) = None"
proof -
  have "failure (entry (preview_run sleeping_events (initial_preview True False True))) \<noteq> None"
    by code_simp
  with preview_never_stalls [OF preview_run_reachable [OF Preview_start]] show ?thesis by blast
qed

lemma observe_effects:
  "startup_posts (observe now s st) = startup_posts st"
  "opened (observe now s st) = Some u \<Longrightarrow> pv_url s = Some u \<and> pv_revision s = revision st"
  "pc (observe now s st) = pc st"
  by (auto simp: observe_def observe_starting_def observe_active_def observe_other_def fail_def Let_def
      truthy_str_def opt_str_def split: if_splits option.splits)

lemma building_effects:
  "opened (observe now \<lparr>pv_state = Pv_building, pv_url = None, pv_revision = None\<rparr> st) = None"
  by (simp add: observe_def observe_starting_def fail_def Let_def)

lemma finish_check_effects [simp]:
  "startup_posts (finish_check st) = startup_posts st" "opened (finish_check st) = opened st"
  by (simp_all add: finish_check_def)

lemma check_failed_effects:
  "startup_posts (check_failed st) = startup_posts st"
  "opened (check_failed st) = Some u \<Longrightarrow> opened st = Some u"
  by (auto simp: check_failed_def fail_def split: if_splits)

lemma start_check_effects:
  "startup_posts (start_check now st) = startup_posts st"
  "opened (start_check now st) = opened st \<or> opened (start_check now st) = None"
  unfolding start_check_def Let_def
  by (simp_all add: observe_effects(1) building_effects)

text \<open>The events that only ask for a check: none of them sends or opens anything.\<close>

lemma asks_for_check:
  assumes "st' = start_check now st0" and "startup_posts st0 \<le> startup_posts st" and "opened st0 = opened st"
  shows "\<not> startup_posts st < startup_posts st' \<and> (\<forall>u. opened st' = Some u \<longrightarrow> opened st = Some u)"
  using assms start_check_effects(1) [of now st0] start_check_effects(2) [of now st0] by auto

lemma controls_ask:
  "\<exists>st0. set_controls now en building st = start_check now st0 \<and>
     startup_posts st0 \<le> startup_posts st \<and> opened st0 = opened st"
  unfolding set_controls_def Let_def
  by (rule exI, rule conjI, rule refl) simp

text \<open>
  A startup request is sent only after a status answer that found the preview asleep, while
  the panel is shown in a visible tab, no run is building and this attempt has not sent one; and
  a preview is opened only on an answer that names the revision the page is at.
\<close>

theorem startup_and_opening_guarded:
  assumes "st' = preview_step now ev st"
  shows "(startup_posts st < startup_posts st' \<longrightarrow>
      (\<exists>s. ev = Status_reply (Inr s) \<and> pv_state s = Pv_sleeping) \<and>
      eligible st \<and> \<not> run_building st \<and> \<not> attempted (entry st)) \<and>
    (\<forall>u. opened st' = Some u \<and> opened st \<noteq> Some u \<longrightarrow>
      (\<exists>s. ev = Status_reply (Inr s) \<and> pv_url s = Some u \<and> pv_revision s = revision st) \<or>
      (\<exists>rv. ev = Open_reply (Inr (u, rv)) \<and> revision st = Some rv))"
proof (cases ev)
  case (Controls en building)
  with assms controls_ask [of now en building st] asks_for_check [of st' now _ st] show ?thesis by auto
next
  case (Visibility v)
  with assms asks_for_check [of st' now "st\<lparr>tab_visible := v\<rparr>" st] show ?thesis by simp
next
  case (Revision rv)
  with assms show ?thesis by (auto simp: set_revision_def Let_def)
next
  case (Status_reply r)
  show ?thesis
  proof (cases r)
    case (Inl e)
    have "opened (check_failed st) = opened st \<or> opened (check_failed st) = None"
      by (simp add: check_failed_def fail_def)
    with assms Status_reply Inl show ?thesis
      by (auto simp: on_status_def on_owner_def check_failed_effects(1))
  next
    case (Inr s)
    with assms Status_reply observe_effects [of now s st] show ?thesis
      by (auto simp: on_status_def on_owner_def split: if_splits)
  qed
next
  case (Open_reply r)
  with assms show ?thesis
    using observe_effects(1,2)
    by (auto simp: on_opened_def observe_effects(1) dest: observe_effects(2) split: sum.splits prod.splits if_splits)
next
  case Timer_fires
  with assms asks_for_check [of st' now "st\<lparr>timer := None\<rparr>" st] show ?thesis by (auto split: if_splits)
next
  case Retry
  with assms asks_for_check [of st' now
      "st\<lparr>entry := fresh_entry, pv_message := None, phase := Pv_checking, startup_posts := 0\<rparr>" st]
  show ?thesis by (auto simp: retry_def split: if_splits)
qed

lemma startup_and_opening_guarded_witness:
  "\<not> run_building (preview_run (take 2 sleeping_events) (initial_preview True False True)) \<and>
   eligible (preview_run (take 2 sleeping_events) (initial_preview True False True))"
proof -
  let ?st = "preview_run (take 2 sleeping_events) (initial_preview True False True)"
  let ?ev = "Status_reply (Inr \<lparr>pv_state = Pv_sleeping, pv_url = None, pv_revision = None\<rparr>)"
  have "startup_posts ?st < startup_posts (preview_step 3 ?ev ?st)" by code_simp
  with startup_and_opening_guarded [OF refl, of ?st 3 ?ev] show ?thesis by blast
qed

end
