(* ===== verification/FileViewer.thy ===== *)
theory FileViewer imports AuthSession Services begin

text \<open>
  \<open>frontend/hooks/files/useFileViewer.ts\<close> and \<open>useProjectFiles.ts\<close>: the file shown in the
  viewer, read through the content cache, and the polling of a project's file list. An effect
  that runs again aborts the read of its previous run: only \<open>inflight\<close> can still be answered.
  Fields named \<open>shown_valid\<close> and \<open>shown_session\<close> record where the shown text came from; the
  program does not have them.
\<close>

section \<open>Data\<close>

record file_read =
  read_session :: "string option"
  read_project :: string
  read_revision :: "string option"
  read_path :: string

record viewer =
  vw_project :: string
  vw_revision :: "string option"
  selected_file :: "string option"
  file_content :: string
  loading_file :: bool
  downloading :: bool
  download_error :: string
  vw_binary :: bool
  inflight :: "file_read option"
  shown_valid :: bool
  shown_session :: "string option"

definition revision_query :: "string option \<Rightarrow> string" where
  "revision_query rv =
     (if truthy_str rv then ''revision_id='' @ encode_uri_component (opt_str rv) else [])"

definition file_key :: "string \<Rightarrow> string \<Rightarrow> string \<Rightarrow> string \<Rightarrow> string" where
  "file_key session project rv path = print_json (JArr [JStr session, JStr project, JStr rv, JStr path])"

definition read_key :: "file_read \<Rightarrow> string option" where
  "read_key r =
     (if truthy_str (read_session r) \<and> truthy_str (read_revision r)
      then Some (file_key (opt_str (read_session r)) (read_project r) (opt_str (read_revision r)) (read_path r))
      else None)"

section \<open>Reading a file\<close>

definition show_file :: "saved_file \<Rightarrow> viewer \<Rightarrow> viewer" where
  "show_file f v = v\<lparr>vw_binary := binary f, file_content := opt_str (content f), shown_valid := True\<rparr>"

text \<open>The effect of lines 36 to 70, after the cleanup of its previous run.\<close>

definition open_selected :: "browser \<Rightarrow> viewer \<Rightarrow> viewer" where
  "open_selected b v0 =
     (let v = v0\<lparr>inflight := None\<rparr> in
      case selected_file v of
        None \<Rightarrow> v
      | Some path \<Rightarrow>
          if path = [] then v
          else
            let session = get_session_id (web_local b);
                r = \<lparr>read_session = session, read_project = vw_project v, read_revision = vw_revision v,
                     read_path = path\<rparr>;
                v1 = v\<lparr>shown_session := session\<rparr>;
                cached = (case read_key r of None \<Rightarrow> None | Some key \<Rightarrow> get_cached_file key (file_contents b))
            in case cached of
                 Some f \<Rightarrow> (show_file f v1)\<lparr>loading_file := False\<rparr>
               | None \<Rightarrow> v1\<lparr>loading_file := True, vw_binary := False, file_content := [],
                            inflight := Some r, shown_valid := False\<rparr>)"

definition load_failure :: string where
  "load_failure = ''Saved file could not be loaded. Try again.''"

definition read_done :: "(unit, saved_file) result \<Rightarrow> browser \<times> viewer \<Rightarrow> browser \<times> viewer" where
  "read_done outcome bv =
     (let (b, v) = bv in
      case inflight v of
        None \<Rightarrow> (b, v)
      | Some r \<Rightarrow>
          let v1 = v\<lparr>inflight := None, loading_file := False\<rparr>;
              failed = v1\<lparr>file_content := load_failure, shown_valid := False\<rparr>
          in case outcome of
               Inl _ \<Rightarrow> (b, failed)
             | Inr f \<Rightarrow>
                 if get_session_id (web_local b) \<noteq> read_session r then (b, v1)
                 else (case read_key r of
                         None \<Rightarrow> (b, show_file f v1)
                       | Some key \<Rightarrow>
                           (case cache_file key f (file_contents b) of
                              Inl _ \<Rightarrow> (b, failed)
                            | Inr cache \<Rightarrow> (b\<lparr>file_contents := cache\<rparr>, show_file f v1))))"

text \<open>Lines 105 to 114: the selection after the list of files or the selection changed.\<close>

definition has_slash :: "string \<Rightarrow> bool" where
  "has_slash f \<longleftrightarrow> CHR ''/'' \<in> set f"

definition auto_select :: "string list \<Rightarrow> string option \<Rightarrow> string option" where
  "auto_select fs selected =
     (case fs of
        [] \<Rightarrow> None
      | f0 # _ \<Rightarrow>
          if \<not> truthy_str selected \<or> opt_str selected \<notin> set fs
          then (case List.find (\<lambda>f. \<not> has_slash f) fs of
                  Some f \<Rightarrow> if f = [] then Some f0 else Some f
                | None \<Rightarrow> Some f0)
          else selected)"

section \<open>Downloads\<close>

definition download_name :: "string \<Rightarrow> string" where
  "download_name path = str_or (last (split_on (CHR ''/'') path)) ''file.txt''"

definition download_file :: "(unit, unit) result \<Rightarrow> viewer \<Rightarrow> (api_request \<times> string option) option \<times> viewer" where
  "download_file outcome v =
     (case selected_file v of
        None \<Rightarrow> (None, v)
      | Some path \<Rightarrow>
          if path = [] then (None, v)
          else
            let req = download_file_call (vw_project v) path (revision_query (vw_revision v));
                v1 = v\<lparr>download_error := []\<rparr>
            in case outcome of
                 Inr _ \<Rightarrow> (Some (req, Some (download_name path)), v1)
               | Inl _ \<Rightarrow> (Some (req, None),
                   v1\<lparr>download_error := ''Could not download this file. Please try again.''\<rparr>))"

definition start_download_all :: "viewer \<Rightarrow> api_request \<times> viewer" where
  "start_download_all v =
     (download_project_call (vw_project v) (revision_query (vw_revision v)),
      v\<lparr>downloading := True, download_error := []\<rparr>)"

definition finish_download_all :: "(unit, unit) result \<Rightarrow> viewer \<Rightarrow> string option \<times> viewer" where
  "finish_download_all outcome v =
     (case outcome of
        Inr _ \<Rightarrow> (Some (vw_project v @ ''-files.zip''), v\<lparr>downloading := False\<rparr>)
      | Inl _ \<Rightarrow> (None, v\<lparr>download_error := ''Could not download the project ZIP. Please try again.'',
                          downloading := False\<rparr>))"

section \<open>The list of files\<close>

record listing =
  list_files :: "string list"
  list_revision :: "string option"
  request_number :: nat
  polling :: bool

definition start_effect :: "bool \<Rightarrow> listing \<Rightarrow> listing" where
  "start_effect is_building st = st\<lparr>request_number := 1, polling := is_building\<rparr>"

definition start_listing :: "listing \<Rightarrow> nat \<times> listing" where
  "start_listing st = (request_number st + 1, st\<lparr>request_number := request_number st + 1\<rparr>)"

definition finish_listing ::
  "bool \<Rightarrow> nat \<Rightarrow> (unit, string list \<times> string option) result \<Rightarrow> listing \<Rightarrow> listing" where
  "finish_listing disposed n outcome st =
     (case outcome of
        Inl _ \<Rightarrow> st
      | Inr (fs, rv) \<Rightarrow>
          if \<not> disposed \<and> n = request_number st
          then st\<lparr>list_files := fs, list_revision := rv\<rparr> else st)"

section \<open>Steps of the viewer\<close>

text \<open>
  \<open>server\<close> is what the API answers for a session, a project, a revision and a path: a revision is
  immutable. The session's own operations only keep or clear the cache.
\<close>

inductive viewer_step ::
  "(string option \<Rightarrow> string \<Rightarrow> string option \<Rightarrow> string \<Rightarrow> saved_file) \<Rightarrow>
   browser \<times> viewer \<Rightarrow> browser \<times> viewer \<Rightarrow> bool" for server where
  View_open: "viewer_step server (b, v)
     (b, open_selected b (v\<lparr>vw_project := p, vw_revision := rv, selected_file := Some f\<rparr>))"
| View_answer: "inflight v = Some r \<Longrightarrow>
     viewer_step server (b, v)
       (read_done (Inr (server (read_session r) (read_project r) (read_revision r) (read_path r))) (b, v))"
| View_failure: "viewer_step server (b, v) (read_done (Inl ()) (b, v))"
| View_session: "file_contents b' = file_contents b \<or> file_contents b' = clear_file_content_cache (file_contents b) \<Longrightarrow>
     viewer_step server (b, v) (b', v)"

section \<open>Lemmas\<close>

lemma file_key_parse: "json_parse (file_key s p rv f) = Some (JArr [JStr s, JStr p, JStr rv, JStr f])"
  unfolding file_key_def by (rule json_parse_print) simp

lemma file_key_inj: "file_key s p rv f = file_key s' p' rv' f' \<longleftrightarrow> s = s' \<and> p = p' \<and> rv = rv' \<and> f = f'"
proof
  assume "file_key s p rv f = file_key s' p' rv' f'"
  from arg_cong [OF this, of json_parse] show "s = s' \<and> p = p' \<and> rv = rv' \<and> f = f'"
    unfolding file_key_parse by simp
qed simp

text \<open>The server's answer as a function of the cache key, which the key determines.\<close>

definition by_key ::
  "(string option \<Rightarrow> string \<Rightarrow> string option \<Rightarrow> string \<Rightarrow> saved_file) \<Rightarrow> string \<Rightarrow> saved_file" where
  "by_key server key =
     (case json_parse key of
        Some (JArr [JStr s, JStr p, JStr rv, JStr f]) \<Rightarrow> server (Some s) p (Some rv) f
      | _ \<Rightarrow> \<lparr>content = None, binary = False\<rparr>)"

lemma truthy_Some: "truthy_str x \<Longrightarrow> x = Some (opt_str x)"
  by (auto simp: truthy_str_def opt_str_def split: option.splits)

lemma by_read_key:
  "read_key r = Some key \<Longrightarrow> by_key server key = server (read_session r) (read_project r) (read_revision r) (read_path r)"
proof -
  assume key: "read_key r = Some key"
  then have "truthy_str (read_session r)" "truthy_str (read_revision r)"
    by (simp_all add: read_key_def split: if_splits)
  then obtain s rv where "read_session r = Some s" "read_revision r = Some rv"
    by (meson truthy_Some)
  with key show ?thesis
    by (auto simp: read_key_def by_key_def file_key_parse opt_str_def split: if_splits)
qed

definition served ::
  "(string option \<Rightarrow> string \<Rightarrow> string option \<Rightarrow> string \<Rightarrow> saved_file) \<Rightarrow> viewer \<Rightarrow> saved_file" where
  "served server v = server (shown_session v) (vw_project v) (vw_revision v) (opt_str (selected_file v))"

definition viewer_inv ::
  "(string option \<Rightarrow> string \<Rightarrow> string option \<Rightarrow> string \<Rightarrow> saved_file) \<Rightarrow> browser \<times> viewer \<Rightarrow> bool" where
  "viewer_inv server bv \<longleftrightarrow>
     (let (b, v) = bv in
      contents.agrees (by_key server) (file_contents b) \<and>
      (shown_valid v \<longrightarrow> truthy_str (selected_file v) \<longrightarrow>
         file_content v = opt_str (content (served server v)) \<and> vw_binary v = binary (served server v)) \<and>
      (\<forall>r. inflight v = Some r \<longrightarrow> \<not> shown_valid v \<and> read_session r = shown_session v \<and>
         read_project r = vw_project v \<and> read_revision r = vw_revision v \<and> selected_file v = Some (read_path r)))"

lemma open_selected_inv:
  assumes "viewer_inv server (b, v)"
  shows "viewer_inv server (b, open_selected b (v\<lparr>vw_project := p, vw_revision := rv, selected_file := Some f\<rparr>))"
proof (cases "f = []")
  case True
  with assms show ?thesis
    by (simp add: viewer_inv_def open_selected_def truthy_str_def opt_str_def)
next
  case False
  let ?r = "\<lparr>read_session = get_session_id (web_local b), read_project = p, read_revision = rv, read_path = f\<rparr>"
  let ?cached = "case read_key ?r of None \<Rightarrow> None | Some key \<Rightarrow> get_cached_file key (file_contents b)"
  have ag: "contents.agrees (by_key server) (file_contents b)"
    using assms by (simp add: viewer_inv_def)
  have hit: "g = server (get_session_id (web_local b)) p rv f" if "?cached = Some g" for g
  proof -
    from that obtain key where key: "read_key ?r = Some key" "get_cached_file key (file_contents b) = Some g"
      by (auto split: option.splits)
    with ag have "g = by_key server key" by (auto simp: contents.agrees_def)
    with by_read_key [OF key(1), of server] show ?thesis by simp
  qed
  from ag hit False show ?thesis
    by (cases ?cached) (auto simp: viewer_inv_def open_selected_def Let_def show_file_def served_def opt_str_def)
qed

lemma read_done_answer_inv:
  assumes inv: "viewer_inv server (b, v)" and r: "inflight v = Some r"
  shows "viewer_inv server
    (read_done (Inr (server (read_session r) (read_project r) (read_revision r) (read_path r))) (b, v))"
proof -
  let ?f = "server (read_session r) (read_project r) (read_revision r) (read_path r)"
  have ag: "contents.agrees (by_key server) (file_contents b)"
    and src: "\<not> shown_valid v" "?f = served server v"
    using inv r by (auto simp: viewer_inv_def served_def opt_str_def)
  have "contents.agrees (by_key server) cache"
    if "read_key r = Some key" "cache_file key ?f (file_contents b) = Inr cache" for key cache
  proof -
    from that(2) have "cache = cache_put key ?f (file_contents b)" by (simp add: cache_put_def)
    then show ?thesis
      using contents.agrees_put [OF ag, of key] by_read_key [OF that(1), of server] by simp
  qed
  with ag src r show ?thesis
    by (auto simp: read_done_def viewer_inv_def Let_def show_file_def served_def split: option.split sum.split)
qed

lemma viewer_step_inv [keep_inv]: "viewer_step server bv bv' \<Longrightarrow> viewer_inv server bv \<Longrightarrow> viewer_inv server bv'"
proof (induction rule: viewer_step.induct)
  case (View_open b v p rv f)
  then show ?case by (rule open_selected_inv)
next
  case (View_answer v r b)
  then show ?case by (intro read_done_answer_inv)
next
  case (View_failure b v)
  then show ?case
    by (auto simp: read_done_def viewer_inv_def Let_def split: option.split)
next
  case (View_session b' b v)
  then show ?case
    using contents.agrees_wipe [of "by_key server" "file_contents b"] by (auto simp: viewer_inv_def)
qed

lemma viewer_steps_inv:
  "(viewer_step server)\<^sup>*\<^sup>* bv bv' \<Longrightarrow> viewer_inv server bv \<Longrightarrow> viewer_inv server bv'"
  by (induction rule: rtranclp_induct) (auto intro: viewer_step_inv)

section \<open>Properties\<close>

definition empty_viewer :: "string \<Rightarrow> string option \<Rightarrow> viewer" where
  "empty_viewer p rv = \<lparr>vw_project = p, vw_revision = rv, selected_file = None, file_content = [],
     loading_file = False, downloading = False, download_error = [], vw_binary = False, inflight = None,
     shown_valid = False, shown_session = None\<rparr>"

definition empty_browser :: browser where
  "empty_browser = \<lparr>web_local = empty_storage 5000, file_contents = empty_cache, location_path = ''/chat/p1''\<rparr>"

lemma viewer_start_inv: "viewer_inv server (empty_browser, empty_viewer p rv)"
proof -
  have "contents.agrees (by_key server) (clear_file_content_cache empty_cache)"
    by (rule contents.agrees_wipe)
  moreover have "clear_file_content_cache empty_cache = empty_cache"
    by (simp add: clear_file_content_cache_def empty_cache_def)
  ultimately show ?thesis by (simp add: viewer_inv_def empty_browser_def empty_viewer_def)
qed

text \<open>
  C11: The viewer never shows one file under the name of another. However selections, revisions,
  projects, sign-ins, evictions, answers and failures follow each other, a text that the viewer
  took from the cache or from an answer is what the server has for the selected path, in the
  project and revision of the page and for the session that asked.
\<close>

theorem viewer_shows_selected_file:
  assumes "(viewer_step server)\<^sup>*\<^sup>* (empty_browser, empty_viewer p rv) (b, v)"
    and "shown_valid v" and "truthy_str (selected_file v)"
  shows "file_content v = opt_str (content (server (shown_session v) (vw_project v) (vw_revision v) (the (selected_file v))))"
proof -
  obtain f where f: "selected_file v = Some f"
    using assms(3) by (auto simp: truthy_str_def opt_str_def split: option.splits)
  from viewer_steps_inv [OF assms(1) viewer_start_inv] assms(2,3)
  have "file_content v = opt_str (content (served server v))" by (simp add: viewer_inv_def)
  with f show ?thesis by (simp add: served_def opt_str_def)
qed

definition echo_server :: "string option \<Rightarrow> string \<Rightarrow> string option \<Rightarrow> string \<Rightarrow> saved_file" where
  "echo_server s p rv f = \<lparr>content = Some (p @ f), binary = False\<rparr>"

definition sample_view :: "browser \<times> viewer" where
  "sample_view = read_done (Inr (echo_server None ''p1'' (Some ''v1'') ''a.ts''))
     (empty_browser, open_selected empty_browser ((empty_viewer ''p1'' (Some ''v1''))\<lparr>selected_file := Some ''a.ts''\<rparr>))"

lemma viewer_shows_selected_file_witness:
  "shown_valid (snd sample_view) \<and> file_content (snd sample_view) = ''p1a.ts''"
proof -
  let ?v0 = "empty_viewer ''p1'' (Some ''v1'')"
  let ?v1 = "open_selected empty_browser (?v0\<lparr>vw_project := ''p1'', vw_revision := Some ''v1'', selected_file := Some ''a.ts''\<rparr>)"
  have same: "?v0\<lparr>vw_project := ''p1'', vw_revision := Some ''v1'', selected_file := Some ''a.ts''\<rparr> =
      ?v0\<lparr>selected_file := Some ''a.ts''\<rparr>" by (simp add: empty_viewer_def)
  have in1: "inflight ?v1 = Some \<lparr>read_session = None, read_project = ''p1'', read_revision = Some ''v1'', read_path = ''a.ts''\<rparr>"
    by code_simp
  have "viewer_step echo_server (empty_browser, ?v0) (empty_browser, ?v1)" by (rule View_open)
  moreover have "viewer_step echo_server (empty_browser, ?v1) sample_view"
    using View_answer [OF in1, of echo_server empty_browser] unfolding sample_view_def same by simp
  ultimately have "(viewer_step echo_server)\<^sup>*\<^sup>* (empty_browser, ?v0) (fst sample_view, snd sample_view)"
    by (simp add: converse_rtranclp_into_rtranclp)
  moreover have valid: "shown_valid (snd sample_view)" "truthy_str (selected_file (snd sample_view))" by code_simp+
  ultimately have "file_content (snd sample_view) = opt_str (content (echo_server (shown_session (snd sample_view))
      (vw_project (snd sample_view)) (vw_revision (snd sample_view)) (the (selected_file (snd sample_view)))))"
    by (rule viewer_shows_selected_file)
  moreover have "vw_project (snd sample_view) = ''p1''" "selected_file (snd sample_view) = Some ''a.ts''" by code_simp+
  ultimately show ?thesis using valid by (simp add: echo_server_def opt_str_def)
qed

text \<open>
  The selection always names a listed file when there is one, keeps a listed choice, and
  otherwise prefers a file at the project's root; selecting again changes nothing.
\<close>

theorem auto_select_listed:
  assumes "[] \<notin> set fs"
  shows "(auto_select fs sel = None \<longleftrightarrow> fs = []) \<and>
    (\<forall>f. auto_select fs sel = Some f \<longrightarrow> f \<in> set fs \<and> auto_select fs (Some f) = Some f) \<and>
    (\<forall>f. sel = Some f \<and> f \<in> set fs \<longrightarrow> auto_select fs sel = Some f) \<and>
    (\<forall>f. opt_str sel \<notin> set fs \<and> auto_select fs sel = Some f \<and> has_slash f \<longrightarrow> (\<forall>g \<in> set fs. has_slash g))"
proof (cases fs)
  case Nil
  then show ?thesis by (simp add: auto_select_def)
next
  case (Cons f0 rest)
  define pick where "pick = (case List.find (\<lambda>f. \<not> has_slash f) fs of
      Some f \<Rightarrow> if f = [] then f0 else f | None \<Rightarrow> f0)"
  have pick: "pick \<in> set fs \<and> (has_slash pick \<longrightarrow> (\<forall>g \<in> set fs. has_slash g))"
  proof (cases "List.find (\<lambda>f. \<not> has_slash f) fs")
    case None
    then have "pick = f0" by (simp add: pick_def)
    moreover have "\<forall>g \<in> set fs. has_slash g" using None by (auto simp: find_None_iff)
    moreover note Cons
    ultimately show ?thesis by simp
  next
    case (Some g)
    then have "g \<in> set fs" "\<not> has_slash g" by (auto simp: find_Some_iff)
    with assms Some show ?thesis by (auto simp: pick_def)
  qed
  have eq: "auto_select fs sel = (if \<not> truthy_str sel \<or> opt_str sel \<notin> set fs then Some pick else sel)" for sel
    using Cons by (auto simp: auto_select_def pick_def split: option.splits)
  have truthy: "truthy_str (Some f)" if "f \<in> set fs" for f
    using that assms by (auto simp: truthy_str_def opt_str_def)
  show ?thesis
    using pick truthy Cons unfolding eq
    by (auto simp: opt_str_def truthy_str_def split: option.splits if_splits)
qed

lemma auto_select_listed_witness:
  "auto_select [''src/a.ts'', ''readme.md''] (Some ''gone.ts'') = Some ''readme.md'' \<and>
   auto_select [''src/a.ts'', ''readme.md''] (Some ''readme.md'') = Some ''readme.md''"
proof -
  have 1: "[] \<notin> set [''src/a.ts'', ''readme.md'']" by simp
  have 2: "auto_select [''src/a.ts'', ''readme.md''] (Some ''gone.ts'') = Some ''readme.md''" by code_simp
  from auto_select_listed [OF 1, of "Some ''gone.ts''"] 2 show ?thesis by blast
qed

end
