(* ===== verification/ChatConnection.thy ===== *)
theory ChatConnection imports RunEvents AuthSession begin

text \<open>
  \<open>frontend/hooks/chat/useChatConnection.ts\<close> and \<open>frontend/config/env.ts\<close>: the web socket that
  observes a chat. Every \<open>new WebSocket\<close> gets the next number; \<open>ws_ref\<close> is the number \<open>wsRef.current\<close>
  holds. A socket is \<open>Sock_live\<close> until its close event (or the cleanup's \<open>close\<close>); the browser
  delivers no event of a socket after that. The await of \<open>getCurrentUser\<close> after a policy close is
  a pending \<open>check\<close>, answered by its own event. \<open>chat_ui\<close> holds what the hook's setters write.
\<close>

section \<open>config/env.ts\<close>

record environment =
  env_api_url :: "string option"
  env_ws_url :: "string option"
  env_location :: "(string \<times> string) option"

definition API_BASE_URL :: "environment \<Rightarrow> string" where
  "API_BASE_URL env = str_or (opt_str (env_api_url env)) ''http://localhost:8000''"

text \<open>\<open>env_location\<close> is the protocol and the host of \<open>window.location\<close>, where there is a window.\<close>

definition get_ws_url :: "environment \<Rightarrow> string" where
  "get_ws_url env =
     (if truthy_str (env_ws_url env) then opt_str (env_ws_url env)
      else case env_location env of
        Some (protocol, host) \<Rightarrow> (if protocol = ''https:'' then ''wss:'' else ''ws:'') @ ''//'' @ host
      | None \<Rightarrow> ''ws://localhost:8000'')"

section \<open>State\<close>

datatype sock_state = Sock_live | Sock_dead

record sock =
  sock_no :: nat
  sock_url :: string
  sock_token :: string
  sock_session :: "string option"
  sock_state :: sock_state

datatype outgoing = Auth_message string | Resync_message

record connection =
  ui :: chat_ui
  chat_id :: string
  socks :: "sock list"
  ws_ref :: "nat option"
  checks :: "nat list"
  connected :: bool
  attempts :: nat
  retry_timer :: "int option"
  disposed :: bool
  route :: "string option"
  sent :: "(nat \<times> outgoing) list"

datatype incoming = Not_json | Resync | Parsed frame

definition find_sock :: "nat \<Rightarrow> connection \<Rightarrow> sock option" where
  "find_sock n c = List.find (\<lambda>s. sock_no s = n) (socks c)"

definition live :: "connection \<Rightarrow> nat set" where
  "live c = set (map sock_no (filter (\<lambda>s. sock_state s = Sock_live) (socks c)))"

definition kill :: "nat \<Rightarrow> connection \<Rightarrow> connection" where
  "kill n c = c\<lparr>socks := map (\<lambda>s. if sock_no s = n then s\<lparr>sock_state := Sock_dead\<rparr> else s) (socks c)\<rparr>"

section \<open>Operations\<close>

definition connect :: "string \<Rightarrow> storage \<Rightarrow> connection \<Rightarrow> connection" where
  "connect ws_url st c =
     (if disposed c then c
      else let token = get_item st ''auth_token'' in
        if \<not> truthy_str token then c\<lparr>route := Some ''/signin''\<rparr>
        else c\<lparr>socks := socks c @ [\<lparr>sock_no = length (socks c), sock_url = ws_url @ ''/ws/'' @ chat_id c,
                 sock_token = opt_str token, sock_session = get_session_id st, sock_state = Sock_live\<rparr>],
               ws_ref := Some (length (socks c))\<rparr>)"

text \<open>The start of the effect, lines 36 to 38 and 113 to 118.\<close>

definition start_connection :: "string \<Rightarrow> storage \<Rightarrow> string \<Rightarrow> connection \<Rightarrow> connection" where
  "start_connection ws_url st chat c =
     connect ws_url st
       (c\<lparr>disposed := False, retry_timer := None, attempts := 0, chat_id := chat,
          ui := (ui c)\<lparr>terminal_runs := [], shown := [], app_url := None, current_run := None,
                       building := False\<rparr>\<rparr>)"

definition dispose_connection :: "connection \<Rightarrow> connection" where
  "dispose_connection c =
     (case ws_ref c of None \<Rightarrow> c | Some n \<Rightarrow> kill n c)\<lparr>disposed := True, retry_timer := None, ws_ref := None\<rparr>"

definition on_open :: "nat \<Rightarrow> connection \<Rightarrow> connection" where
  "on_open n c =
     (if disposed c then kill n c
      else c\<lparr>sent := sent c @ [(n, Auth_message (case find_sock n c of None \<Rightarrow> [] | Some s \<Rightarrow> sock_token s))],
             attempts := 0, connected := True, ui := (ui c)\<lparr>banner := None\<rparr>\<rparr>)"

definition on_message :: "nat \<Rightarrow> incoming \<Rightarrow> connection \<Rightarrow> connection" where
  "on_message n msg c =
     (if disposed c \<or> ws_ref c \<noteq> Some n then c
      else case msg of
        Not_json \<Rightarrow> c
      | Resync \<Rightarrow> c\<lparr>sent := sent c @ [(n, Resync_message)]\<rparr>
      | Parsed fr \<Rightarrow> c\<lparr>ui := handle_frame fr (ui c)\<rparr>)"

definition no_access :: "connection \<Rightarrow> connection" where
  "no_access c =
     c\<lparr>ui := (ui c)\<lparr>building := False,
        banner := Some ''Could not reconnect. Check your connection and project access, then reload.''\<rparr>\<rparr>"

definition retry_delay :: "nat \<Rightarrow> int" where
  "retry_delay n = min (1000 * 2 ^ n) 10000"

definition on_close :: "nat \<Rightarrow> int \<Rightarrow> connection \<Rightarrow> connection" where
  "on_close n code c =
     (if disposed c \<or> ws_ref c \<noteq> Some n then c
      else let c1 = c\<lparr>connected := False\<rparr> in
        if code = 1008 then c1\<lparr>checks := checks c1 @ [n]\<rparr>
        else c1\<lparr>ui := (ui c1)\<lparr>banner :=
                   Some ''Connection lost. Reconnecting to check your run; it may still be working.''\<rparr>,
                retry_timer := Some (retry_delay (attempts c1)), attempts := attempts c1 + 1\<rparr>)"

text \<open>Lines 89 to 104, when \<open>getCurrentUser\<close> has returned or failed.\<close>

definition on_checked :: "string \<Rightarrow> storage \<Rightarrow> nat \<Rightarrow> bool \<Rightarrow> connection \<Rightarrow> connection" where
  "on_checked ws_url st n success c =
     (let c1 = c\<lparr>checks := filter (\<lambda>m. m \<noteq> n) (checks c)\<rparr> in
      if disposed c1 \<or> ws_ref c1 \<noteq> Some n then c1
      else case find_sock n c1 of
        None \<Rightarrow> c1
      | Some s \<Rightarrow>
          if success \<and> get_session_id st = sock_session s \<and> get_item st ''auth_token'' \<noteq> Some (sock_token s)
          then connect ws_url st c1
          else no_access c1)"

definition on_retry :: "string \<Rightarrow> storage \<Rightarrow> connection \<Rightarrow> connection" where
  "on_retry ws_url st c = connect ws_url st (c\<lparr>retry_timer := None\<rparr>)"

section \<open>Steps\<close>

text \<open>
  The storage is what it is at each step: sign-ins, renewals and other tabs may have changed it.
\<close>

inductive connection_step :: "string \<Rightarrow> connection \<Rightarrow> connection \<Rightarrow> bool" for ws_url where
  Conn_open: "n \<in> live c \<Longrightarrow> connection_step ws_url c (on_open n c)"
| Conn_message: "n \<in> live c \<Longrightarrow> connection_step ws_url c (on_message n msg c)"
| Conn_close: "n \<in> live c \<Longrightarrow> connection_step ws_url c (on_close n code (kill n c))"
| Conn_checked: "n \<in> set (checks c) \<Longrightarrow> connection_step ws_url c (on_checked ws_url st n success c)"
| Conn_retry: "retry_timer c \<noteq> None \<Longrightarrow> connection_step ws_url c (on_retry ws_url st c)"
| Conn_dispose: "\<not> disposed c \<Longrightarrow> connection_step ws_url c (dispose_connection c)"
| Conn_chat: "disposed c \<Longrightarrow> connection_step ws_url c (start_connection ws_url st chat c)"

definition no_connection :: connection where
  "no_connection = \<lparr>ui = empty_ui, chat_id = [], socks = [], ws_ref = None, checks = [], connected = False,
     attempts = 0, retry_timer = None, disposed = True, route = None, sent = []\<rparr>"

inductive_cases connection_stepE: "connection_step ws_url c c'"

section \<open>Lemmas\<close>

text \<open>
  Live sockets are the current one. While a reconnect is scheduled the current socket is dead, and
  while the current socket's policy check runs it is dead and no reconnect is scheduled.
\<close>

definition connection_inv :: "connection \<Rightarrow> bool" where
  "connection_inv c \<longleftrightarrow>
     map sock_no (socks c) = [0..<length (socks c)] \<and>
     (\<forall>n \<in> live c. ws_ref c = Some n) \<and>
     (\<forall>n. ws_ref c = Some n \<longrightarrow> n < length (socks c)) \<and>
     (\<forall>n \<in> set (checks c). n \<notin> live c \<and> n < length (socks c)) \<and> distinct (checks c) \<and>
     (disposed c \<longrightarrow> ws_ref c = None \<and> retry_timer c = None) \<and>
     (retry_timer c \<noteq> None \<longrightarrow> live c = {} \<and> (\<forall>n. ws_ref c = Some n \<longrightarrow> n \<notin> set (checks c))) \<and>
     (\<forall>d. retry_timer c = Some d \<longrightarrow> 1000 \<le> d \<and> d \<le> 10000)"

lemma live_kill [simp]: "live (kill n c) = live c - {n}"
proof -
  have "set (map sock_no (filter (\<lambda>s. sock_state s = Sock_live)
      (map (\<lambda>s. if sock_no s = n then s\<lparr>sock_state := Sock_dead\<rparr> else s) ss))) =
    set (map sock_no (filter (\<lambda>s. sock_state s = Sock_live) ss)) - {n}" for ss :: "sock list"
    by (induction ss) auto
  then show ?thesis by (simp add: live_def kill_def)
qed

lemma numbers_kill [simp]: "map sock_no (socks (kill n c)) = map sock_no (socks c)"
  by (simp add: kill_def)

lemma kill_fields [simp]:
  "ws_ref (kill n c) = ws_ref c" "checks (kill n c) = checks c" "disposed (kill n c) = disposed c"
  "retry_timer (kill n c) = retry_timer c" "length (socks (kill n c)) = length (socks c)"
  "ui (kill n c) = ui c" "attempts (kill n c) = attempts c"
  by (simp_all add: kill_def)

lemma live_update [simp]:
  "live (c\<lparr>ui := u\<rparr>) = live c" "live (c\<lparr>checks := k\<rparr>) = live c" "live (c\<lparr>connected := b\<rparr>) = live c"
  "live (c\<lparr>attempts := a\<rparr>) = live c" "live (c\<lparr>retry_timer := t\<rparr>) = live c"
  "live (c\<lparr>disposed := b\<rparr>) = live c" "live (c\<lparr>route := r\<rparr>) = live c" "live (c\<lparr>sent := ss\<rparr>) = live c"
  "live (c\<lparr>ws_ref := w\<rparr>) = live c" "live (c\<lparr>chat_id := i\<rparr>) = live c"
  by (simp_all add: live_def)

lemma live_bound: "connection_inv c \<Longrightarrow> n \<in> live c \<Longrightarrow> n < length (socks c)"
  by (auto simp: connection_inv_def)

lemma retry_delay_bounds: "1000 \<le> retry_delay n \<and> retry_delay n \<le> 10000"
  by (simp add: retry_delay_def)

text \<open>\<open>connect\<close> is called when no socket is live and no reconnect is scheduled.\<close>

lemma connect_inv:
  assumes inv: "connection_inv c" and dead: "live c = {}" and idle: "retry_timer c = None"
  shows "connection_inv (connect ws_url st c)"
proof (cases "disposed c \<or> \<not> truthy_str (get_item st ''auth_token'')")
  case True
  with inv show ?thesis by (auto simp: connect_def connection_inv_def Let_def)
next
  case False
  have "live (connect ws_url st c) = {length (socks c)}"
    using False dead by (auto simp: connect_def live_def Let_def)
  with False inv dead idle show ?thesis
    by (auto simp: connect_def connection_inv_def Let_def)
qed

lemma on_close_inv:
  assumes inv: "connection_inv c" and n: "n \<in> live c"
  shows "connection_inv (on_close n code (kill n c))"
proof -
  have ref: "ws_ref c = Some n" and bound: "n < length (socks c)" and fresh: "n \<notin> set (checks c)"
    using inv n by (auto simp: connection_inv_def)
  have "m = n" if "m \<in> live c" for m
  proof -
    have "ws_ref c = Some m" using inv that by (simp add: connection_inv_def)
    with ref show ?thesis by simp
  qed
  with n have dead: "live c = {n}" by blast
  have "\<not> disposed c" using inv ref unfolding connection_inv_def by fastforce
  moreover have "retry_timer c = None" using inv dead unfolding connection_inv_def by blast
  ultimately have idle: "\<not> disposed c" "retry_timer c = None" by simp_all
  have rest: "map sock_no (socks c) = [0..<length (socks c)]" "distinct (checks c)"
    "\<forall>m \<in> set (checks c). m < length (socks c)"
    using inv by (auto simp: connection_inv_def)
  have "connection_inv ((kill n c)\<lparr>connected := False, checks := checks c @ [n]\<rparr>)"
    unfolding connection_inv_def using rest ref bound fresh dead idle by simp
  moreover have "connection_inv ((kill n c)\<lparr>connected := False,
      ui := u, retry_timer := Some (retry_delay (attempts c)), attempts := attempts c + 1\<rparr>)" for u
    unfolding connection_inv_def using rest ref bound fresh dead idle retry_delay_bounds [of "attempts c"] by simp
  ultimately show ?thesis using ref idle by (simp add: on_close_def Let_def)
qed

lemma on_checked_inv:
  assumes inv: "connection_inv c" and n: "n \<in> set (checks c)"
  shows "connection_inv (on_checked ws_url st n success c)"
proof -
  let ?c1 = "c\<lparr>checks := filter (\<lambda>m. m \<noteq> n) (checks c)\<rparr>"
  have inv1: "connection_inv ?c1" using inv by (auto simp: connection_inv_def)
  have idle: "live ?c1 = {} \<and> retry_timer ?c1 = None" if "ws_ref c = Some n"
    using inv n that by (auto simp: connection_inv_def)
  have "connection_inv (no_access ?c1)" using inv1 by (simp add: connection_inv_def no_access_def)
  with inv1 idle connect_inv [of ?c1 ws_url st] show ?thesis
    by (auto simp: on_checked_def Let_def split: option.split)
qed

lemma connection_step_inv [keep_inv]: "connection_step ws_url c c' \<Longrightarrow> connection_inv c \<Longrightarrow> connection_inv c'"
proof (induction rule: connection_step.induct)
  case (Conn_open n c)
  then show ?case by (auto simp: on_open_def connection_inv_def)
next
  case (Conn_message n c msg)
  then show ?case by (auto simp: on_message_def connection_inv_def split: incoming.split)
next
  case (Conn_close n c code)
  then show ?case by (intro on_close_inv)
next
  case (Conn_checked n c st success)
  then show ?case by (intro on_checked_inv)
next
  case (Conn_retry c st)
  then have "connection_inv (c\<lparr>retry_timer := None\<rparr>)" "live (c\<lparr>retry_timer := None\<rparr>) = {}"
    by (auto simp: connection_inv_def)
  then show ?case by (simp add: on_retry_def connect_inv)
next
  case (Conn_dispose c)
  then show ?case
    by (auto simp: dispose_connection_def connection_inv_def split: option.splits)
next
  case (Conn_chat c st chat)
  let ?c = "c\<lparr>disposed := False, retry_timer := None, attempts := 0, chat_id := chat,
          ui := (ui c)\<lparr>terminal_runs := [], shown := [], app_url := None, current_run := None,
                       building := False\<rparr>\<rparr>"
  have "connection_inv ?c" "live ?c = {}" "retry_timer ?c = None"
    using Conn_chat by (auto simp: connection_inv_def)
  then show ?case by (simp only: start_connection_def connect_inv)
qed

lemma no_connection_inv: "connection_inv no_connection"
  by (simp add: no_connection_def connection_inv_def live_def)

lemma connection_steps_inv: "(connection_step ws_url)\<^sup>*\<^sup>* no_connection c \<Longrightarrow> connection_inv c"
  by (induction rule: rtranclp_induct) (auto intro: no_connection_inv connection_step_inv)

section \<open>Properties\<close>

text \<open>
  C30: However opens, frames, closes, policy checks, retries, chat changes and token changes follow
  each other, at most one socket is live, it is the one whose frames the page reads, and a
  reconnect is scheduled, after one to ten seconds, only while none is.
\<close>

theorem one_live_socket:
  assumes "(connection_step ws_url)\<^sup>*\<^sup>* no_connection c"
  shows "(\<forall>m \<in> live c. \<forall>n \<in> live c. m = n \<and> ws_ref c = Some n) \<and>
    (\<forall>d. retry_timer c = Some d \<longrightarrow> live c = {} \<and> 1000 \<le> d \<and> d \<le> 10000)"
proof -
  have inv: "connection_inv c" by (rule connection_steps_inv [OF assms])
  have ref: "ws_ref c = Some n" if "n \<in> live c" for n
    using inv that by (simp add: connection_inv_def)
  have "m = n" if "m \<in> live c" "n \<in> live c" for m n
    using ref [OF that(1)] ref [OF that(2)] by simp
  moreover have "live c = {} \<and> 1000 \<le> d \<and> d \<le> 10000" if "retry_timer c = Some d" for d
    using inv that unfolding connection_inv_def by blast
  ultimately show ?thesis using ref by blast
qed

definition token_store :: storage where
  "token_store = \<lparr>entries = [(''auth_token'', ''t1'')], quota = 100\<rparr>"

lemma one_live_socket_witness:
  "live (start_connection ''ws://h'' token_store ''c1'' no_connection) = {0} \<and>
   retry_timer (on_close 0 1006 (kill 0 (start_connection ''ws://h'' token_store ''c1'' no_connection))) = Some 1000 \<and>
   live (on_close 0 1006 (kill 0 (start_connection ''ws://h'' token_store ''c1'' no_connection))) = {}"
proof -
  let ?c1 = "start_connection ''ws://h'' token_store ''c1'' no_connection"
  have "connection_step ''ws://h'' no_connection ?c1"
    by (rule Conn_chat) (simp add: no_connection_def)
  moreover have live: "live ?c1 = {0}" by code_simp
  moreover have "connection_step ''ws://h'' ?c1 (on_close 0 1006 (kill 0 ?c1))"
    by (rule Conn_close) (simp add: live)
  ultimately have "(connection_step ''ws://h'')\<^sup>*\<^sup>* no_connection (on_close 0 1006 (kill 0 ?c1))"
    by (simp add: converse_rtranclp_into_rtranclp)
  from one_live_socket [OF this] live
  have "\<forall>d. retry_timer (on_close 0 1006 (kill 0 ?c1)) = Some d \<longrightarrow> live (on_close 0 1006 (kill 0 ?c1)) = {}"
    by blast
  moreover have "retry_timer (on_close 0 1006 (kill 0 ?c1)) = Some 1000" by code_simp
  ultimately show ?thesis using live by blast
qed

text \<open>
  A connection that was left behind writes nothing. After the cleanup, no frame, close,
  answer or timer of the old chat changes what the page shows, opens a socket or navigates; and
  before it, only the current socket's frames count.
\<close>

theorem left_connection_is_silent:
  assumes "disposed c \<or> ws_ref c \<noteq> Some n"
  shows "on_message n msg c = c \<and> on_close n code c = c \<and>
    ui (on_checked ws_url st n success c) = ui c \<and> socks (on_checked ws_url st n success c) = socks c \<and>
    route (on_checked ws_url st n success c) = route c \<and>
    (disposed c \<longrightarrow> socks (on_retry ws_url st c) = socks c \<and> route (on_retry ws_url st c) = route c)"
  using assms
  by (auto simp: on_message_def on_close_def on_checked_def on_retry_def connect_def Let_def)

lemma left_connection_is_silent_witness:
  "on_message 0 (Parsed Unreadable) (dispose_connection (start_connection ''ws://h'' token_store ''c1'' no_connection)) =
   dispose_connection (start_connection ''ws://h'' token_store ''c1'' no_connection)"
proof -
  have "disposed (dispose_connection (start_connection ''ws://h'' token_store ''c1'' no_connection))"
    by (simp add: dispose_connection_def)
  then show ?thesis using left_connection_is_silent [OF disjI1] by blast
qed

end
