(* ===== verification/AuthHooks.thy ===== *)
theory AuthHooks imports AuthSession Services begin

text \<open>
  The sign-in, sign-up, OAuth, e-mail verification and profile hooks of \<open>frontend/hooks/auth\<close>,
  \<open>frontend/hooks/profile\<close> and \<open>useProjectsPage.ts\<close>. A handler is cut at each \<open>await\<close>; what the
  API answered is an argument, a failure being \<open>Some message\<close> for an \<open>Error\<close> and \<open>None\<close> for another
  thrown value. The account comes as the JSON value the server sent. The parameters of the URL's
  hash are an association list, as \<open>URLSearchParams\<close> gives them.
\<close>

type_synonym 'a reply = "(string option, 'a) result"

definition js_message :: "js_error \<Rightarrow> string" where
  "js_message e = (case e of Thrown m \<Rightarrow> m | TypeError \<Rightarrow> ''TypeError'' | SyntaxError \<Rightarrow> ''SyntaxError'')"

definition message_or :: "string \<Rightarrow> string option \<Rightarrow> string" where
  "message_or fallback e = (case e of Some m \<Rightarrow> m | None \<Rightarrow> fallback)"

definition store_user :: "json \<Rightarrow> browser \<Rightarrow> (js_error, browser) result" where
  "store_user v b =
     bind_result (set_item (web_local b) ''user_data'' (print_json v)) (\<lambda>st. Inr (b\<lparr>web_local := st\<rparr>))"

definition ellipsis :: string where
  "ellipsis = [CHR 0xE2, CHR 0x80, CHR 0xA6]"

section \<open>useSignIn.ts\<close>

record sign_in =
  si_email :: string
  si_password :: string
  si_loading :: bool
  si_error :: string
  checking_session :: bool
  si_route :: "string option"

definition initial_sign_in :: sign_in where
  "initial_sign_in = \<lparr>si_email = [], si_password = [], si_loading = False, si_error = [],
     checking_session = True, si_route = None\<rparr>"

text \<open>The check on mount: the session whose account it asks for, when there is one.\<close>

definition check_session :: "browser \<Rightarrow> sign_in \<Rightarrow> string option \<times> sign_in" where
  "check_session b st =
     (if truthy_str (get_item (web_local b) ''auth_token'')
      then (get_session_id (web_local b), st)
      else (None, st\<lparr>checking_session := False\<rparr>))"

definition session_checked ::
  "bool \<Rightarrow> string option \<Rightarrow> json reply \<Rightarrow> browser \<Rightarrow> sign_in \<Rightarrow> browser \<times> sign_in" where
  "session_checked unmounted sid outcome b st =
     (if unmounted then (b, st)
      else case outcome of
        Inl _ \<Rightarrow> (b, st\<lparr>checking_session := False\<rparr>)
      | Inr v \<Rightarrow>
          if get_session_id (web_local b) = sid
          then (case store_user v b of Inl _ \<Rightarrow> b | Inr b' \<Rightarrow> b', st\<lparr>si_route := Some ''/chat''\<rparr>)
          else (b, st\<lparr>checking_session := False\<rparr>))"

definition start_sign_in :: "sign_in \<Rightarrow> api_request \<times> sign_in" where
  "start_sign_in st = (login_call (si_email st) (si_password st), st\<lparr>si_error := [], si_loading := True\<rparr>)"

definition sign_in_failed :: "string \<Rightarrow> browser \<Rightarrow> sign_in \<Rightarrow> browser \<times> sign_in" where
  "sign_in_failed msg b st = (clear_session b, st\<lparr>si_error := msg, si_loading := False\<rparr>)"

text \<open>The flag tells whether the handler goes on to ask for the account.\<close>

definition login_done ::
  "string \<Rightarrow> login_response reply \<Rightarrow> browser \<Rightarrow> sign_in \<Rightarrow> bool \<times> browser \<times> sign_in" where
  "login_done uuid outcome b st =
     (case outcome of
        Inl e \<Rightarrow> (False, sign_in_failed (message_or ''Failed to sign in'' e) b st)
      | Inr data \<Rightarrow>
          (case save_session uuid data b of
             (Inl e, b') \<Rightarrow> (False, sign_in_failed (js_message e) b' st)
           | (Inr _, b') \<Rightarrow> (True, b', st)))"

definition login_user_done :: "json reply \<Rightarrow> browser \<Rightarrow> sign_in \<Rightarrow> browser \<times> sign_in" where
  "login_user_done outcome b st =
     (let b' = (case outcome of Inl _ \<Rightarrow> b
                | Inr v \<Rightarrow> (case store_user v b of Inl _ \<Rightarrow> b | Inr x \<Rightarrow> x)) in
      if \<not> truthy_str (get_item (web_local b') ''auth_token'')
      then sign_in_failed ''Failed to store authentication token'' b' st
      else (b', st\<lparr>si_loading := False, si_route := Some ''/chat''\<rparr>))"

section \<open>useSignUp.ts and useSocialLogin.ts\<close>

record auth_options =
  google :: bool
  github :: bool
  email_verification :: bool

record sign_up =
  su_name :: string
  su_email :: string
  su_password :: string
  su_loading :: bool
  su_error :: string
  su_options :: "auth_options option"
  registered :: bool

definition start_sign_up :: "sign_up \<Rightarrow> api_request \<times> sign_up" where
  "start_sign_up st =
     (register_call (su_email st) (su_password st) (su_name st), st\<lparr>su_error := [], su_loading := True\<rparr>)"

definition sign_up_done :: "register_response reply \<Rightarrow> sign_up \<Rightarrow> sign_up" where
  "sign_up_done outcome st =
     (case outcome of
        Inr _ \<Rightarrow> st\<lparr>registered := True, su_loading := False\<rparr>
      | Inl e \<Rightarrow>
          let msg = message_or ''Failed to sign up'' e in
          st\<lparr>su_error := (if includes_str ''Email already registered'' msg
                          then ''This email is already registered. Please sign in instead.'' else msg),
             su_loading := False\<rparr>)"

record social_login =
  sl_options :: "auth_options option"
  sl_failed :: bool

definition options_done :: "bool \<Rightarrow> auth_options reply \<Rightarrow> social_login \<Rightarrow> social_login" where
  "options_done unmounted outcome st =
     (if unmounted then st
      else (case outcome of Inr v \<Rightarrow> st\<lparr>sl_options := Some v\<rparr> | Inl _ \<Rightarrow> st\<lparr>sl_failed := True\<rparr>))"

definition helper_message :: "bool \<Rightarrow> social_login \<Rightarrow> string" where
  "helper_message registration st =
     (if sl_failed st then ''Social sign-in is temporarily unavailable.''
      else case sl_options st of
        None \<Rightarrow> ''Loading sign-in options'' @ ellipsis
      | Some o1 \<Rightarrow>
          if \<not> google o1 \<and> \<not> github o1
          then (if registration \<and> \<not> email_verification o1
                then ''New accounts are awaiting setup. Existing members can sign in.''
                else ''Social sign-in is awaiting setup. You can use email below.'')
          else ''Or continue with your email.'')"

section \<open>useOAuthCallback.ts\<close>

definition oauth_errors :: "(string, string) omap" where
  "oauth_errors =
     [(''link_required'',
       ''An account already uses this email. Sign in with email, then connect this provider from your profile.''),
      (''verified_email_required'',
       ''Your provider must have a verified email address before you can continue.''),
      (''account_conflict'',
       ''This provider is already connected to another account, or your account already has a different connection.''),
      (''oauth_failed'', ''Sign-in was cancelled or could not be completed. Please try again.'')]"

datatype exchange = Exchanging string | Callback_rejected

record oauth =
  oauth_error :: "string lookup"
  exchange_ref :: "exchange option"
  callback_error :: string
  oauth_route :: "string option"
  hash_cleared :: bool
  exchange_calls :: "api_request list"

definition initial_oauth :: oauth where
  "initial_oauth = \<lparr>oauth_error = Own [], exchange_ref = None, callback_error = [], oauth_route = None,
     hash_cleared = False, exchange_calls = []\<rparr>"

definition oauth_mount :: "(string, string) omap \<Rightarrow> oauth \<Rightarrow> oauth" where
  "oauth_mount params st =
     (if exchange_ref st = None \<and> callback_error st = [] then
        let ticket = map_of params ''ticket'';
            err = (if truthy_str (map_of params ''error'') then opt_str (map_of params ''error'')
                   else if \<not> truthy_str ticket then ''oauth_failed'' else []);
            st1 = st\<lparr>callback_error := err, hash_cleared := True\<rparr>
        in if truthy_str ticket \<and> err = []
           then st1\<lparr>exchange_ref := Some (Exchanging (opt_str ticket)),
                    exchange_calls := exchange_calls st1 @ [exchange_oauth_call (opt_str ticket)]\<rparr>
           else st1\<lparr>exchange_ref := Some Callback_rejected\<rparr>
      else st)"

text \<open>
  Line 48. What \<open>setError\<close> receives is a message of the table, or, for a code that names a member
  of \<open>Object.prototype\<close>, that member.
\<close>

definition oauth_message :: "string \<Rightarrow> string lookup" where
  "oauth_message code =
     (case object_get oauth_errors code of
        Absent \<Rightarrow> object_get oauth_errors ''oauth_failed''
      | Own m \<Rightarrow> if m = [] then object_get oauth_errors ''oauth_failed'' else Own m
      | Inherited k \<Rightarrow> Inherited k)"

definition oauth_failed :: "bool \<Rightarrow> oauth \<Rightarrow> oauth" where
  "oauth_failed unmounted st =
     (if unmounted then st else st\<lparr>oauth_error := oauth_message (callback_error st)\<rparr>)"

definition exchange_done ::
  "bool \<Rightarrow> string \<Rightarrow> login_response reply \<Rightarrow> browser \<Rightarrow> oauth \<Rightarrow> bool \<times> browser \<times> oauth" where
  "exchange_done unmounted uuid outcome b st =
     (case outcome of
        Inl _ \<Rightarrow> (False, b, oauth_failed unmounted st)
      | Inr session \<Rightarrow>
          if unmounted then (False, b, st)
          else (case save_session uuid session b of
                  (Inl _, b') \<Rightarrow> (False, b', oauth_failed unmounted st)
                | (Inr _, b') \<Rightarrow> (True, b', st)))"

definition oauth_user_done :: "bool \<Rightarrow> json reply \<Rightarrow> browser \<Rightarrow> oauth \<Rightarrow> browser \<times> oauth" where
  "oauth_user_done unmounted outcome b st =
     (case outcome of
        Inl _ \<Rightarrow> (b, oauth_failed unmounted st)
      | Inr v \<Rightarrow>
          if unmounted then (b, st)
          else (case store_user v b of
                  Inl _ \<Rightarrow> (b, oauth_failed unmounted st)
                | Inr b' \<Rightarrow> (b', st\<lparr>oauth_route := Some ''/chat''\<rparr>)))"

section \<open>useEmailVerification.ts\<close>

record verification =
  ev_token :: string
  ev_email :: string
  ev_ready :: bool
  ev_busy :: bool
  ev_notice :: string
  ev_error :: string
  ev_hash_cleared :: bool
  ev_route :: "string option"

definition verification_mount :: "(string, string) omap \<Rightarrow> verification \<Rightarrow> verification" where
  "verification_mount params st =
     (let st1 = (if truthy_str (map_of params ''token'')
                 then st\<lparr>ev_token := opt_str (map_of params ''token''), ev_hash_cleared := True\<rparr> else st)
      in st1\<lparr>ev_ready := True\<rparr>)"

definition start_confirm :: "verification \<Rightarrow> api_request \<times> verification" where
  "start_confirm st = (confirm_verification_call (ev_token st), st\<lparr>ev_busy := True, ev_error := []\<rparr>)"

definition confirm_failed :: "string \<Rightarrow> verification \<Rightarrow> verification" where
  "confirm_failed msg st = st\<lparr>ev_error := msg, ev_token := [], ev_busy := False\<rparr>"

definition confirm_done ::
  "string \<Rightarrow> login_response reply \<Rightarrow> browser \<Rightarrow> verification \<Rightarrow> bool \<times> browser \<times> verification" where
  "confirm_done uuid outcome b st =
     (case outcome of
        Inl e \<Rightarrow> (False, b, confirm_failed (message_or ''We could not verify this link.'' e) st)
      | Inr session \<Rightarrow>
          (case save_session uuid session b of
             (Inl e, b') \<Rightarrow> (False, b', confirm_failed (js_message e) st)
           | (Inr _, b') \<Rightarrow> (True, b', st)))"

definition confirm_user_done :: "json reply \<Rightarrow> browser \<Rightarrow> verification \<Rightarrow> browser \<times> verification" where
  "confirm_user_done outcome b st =
     (case outcome of
        Inl e \<Rightarrow> (b, confirm_failed (message_or ''We could not verify this link.'' e) st)
      | Inr v \<Rightarrow>
          (case store_user v b of
             Inl e \<Rightarrow> (b, confirm_failed (js_message e) st)
           | Inr b' \<Rightarrow> (b', st\<lparr>ev_route := Some ''/profile''\<rparr>)))"

definition start_request_verification :: "verification \<Rightarrow> api_request \<times> verification" where
  "start_request_verification st =
     (request_verification_call (ev_email st), st\<lparr>ev_busy := True, ev_error := [], ev_notice := []\<rparr>)"

definition request_verification_done :: "string reply \<Rightarrow> verification \<Rightarrow> verification" where
  "request_verification_done outcome st =
     (case outcome of
        Inr m \<Rightarrow> st\<lparr>ev_notice := m, ev_busy := False\<rparr>
      | Inl e \<Rightarrow> st\<lparr>ev_error := message_or ''Unable to send verification.'' e, ev_busy := False\<rparr>)"

section \<open>useProfile.ts and useProjectsPage.ts\<close>

record profile =
  pf_user :: "json option"
  pf_options :: "auth_options option"
  pf_busy :: bool
  pf_error :: string
  pf_message :: string
  pf_attempt :: nat
  pf_route :: "string option"
  pf_hash_cleared :: bool

text \<open>The effect; the flag tells whether it asks for the account and the sign-in options.\<close>

definition profile_mount :: "browser \<Rightarrow> profile \<Rightarrow> bool \<times> profile" where
  "profile_mount b st =
     (if \<not> truthy_str (get_item (web_local b) ''auth_token'') then (False, st\<lparr>pf_route := Some ''/signin''\<rparr>)
      else (True, st\<lparr>pf_error := []\<rparr>))"

definition json_providers :: "json \<Rightarrow> string list" where
  "json_providers v =
     (case Option.bind (json_get ''providers'' v) json_arr of
        None \<Rightarrow> [] | Some vs \<Rightarrow> List.map_filter json_str vs)"

definition profile_loaded ::
  "bool \<Rightarrow> (string, string) omap \<Rightarrow> bool \<Rightarrow> json reply \<Rightarrow> browser \<Rightarrow> profile \<Rightarrow> browser \<times> profile" where
  "profile_loaded unmounted params has_hash outcome b st =
     (if unmounted then (b, st)
      else let failed = ''Could not load your profile. Please try again.'' in
        case outcome of
          Inl _ \<Rightarrow> (b, st\<lparr>pf_error := failed\<rparr>)
        | Inr v \<Rightarrow>
            let st1 = st\<lparr>pf_user := Some v\<rparr> in
            (case store_user v b of
               Inl _ \<Rightarrow> (b, st1\<lparr>pf_error := failed\<rparr>)
             | Inr b' \<Rightarrow>
                 let connected = map_of params ''connected'';
                     st2 = (if truthy_str connected \<and> opt_str connected \<in> set (json_providers v)
                            then st1\<lparr>pf_message := ''Sign-in method connected.''\<rparr> else st1)
                 in (b', if has_hash then st2\<lparr>pf_hash_cleared := True\<rparr> else st2)))"

definition profile_options_done :: "bool \<Rightarrow> auth_options reply \<Rightarrow> profile \<Rightarrow> profile" where
  "profile_options_done unmounted outcome st =
     (case outcome of Inr v \<Rightarrow> if unmounted then st else st\<lparr>pf_options := Some v\<rparr> | Inl _ \<Rightarrow> st)"

definition credits_refreshed :: "json reply \<Rightarrow> browser \<Rightarrow> profile \<Rightarrow> browser \<times> profile" where
  "credits_refreshed outcome b st =
     (let failed = ''Could not refresh your credits. Reload to see the latest balance.'' in
      case outcome of
        Inl _ \<Rightarrow> (b, st\<lparr>pf_error := failed\<rparr>)
      | Inr v \<Rightarrow>
          (case store_user v b of
             Inl _ \<Rightarrow> (b, st\<lparr>pf_user := Some v, pf_error := failed\<rparr>)
           | Inr b' \<Rightarrow> (b', st\<lparr>pf_user := Some v\<rparr>)))"

definition profile_sign_out :: "browser \<Rightarrow> profile \<Rightarrow> browser \<times> profile" where
  "profile_sign_out b st = (clear_session b, st\<lparr>pf_route := Some ''/signin''\<rparr>)"

definition start_save_profile :: "string \<Rightarrow> string \<Rightarrow> profile \<Rightarrow> api_request option \<times> profile" where
  "start_save_profile name bio st =
     (if pf_busy st then (None, st)
      else (Some (update_profile_call (trim name) (trim bio)),
            st\<lparr>pf_busy := True, pf_error := [], pf_message := []\<rparr>))"

definition save_profile_done :: "json reply \<Rightarrow> browser \<Rightarrow> profile \<Rightarrow> bool \<times> browser \<times> profile" where
  "save_profile_done outcome b st =
     (case outcome of
        Inl e \<Rightarrow> (False, b, st\<lparr>pf_error := message_or ''Could not save your changes.'' e, pf_busy := False\<rparr>)
      | Inr v \<Rightarrow>
          (case store_user v b of
             Inl e \<Rightarrow> (False, b, st\<lparr>pf_user := Some v, pf_error := js_message e, pf_busy := False\<rparr>)
           | Inr b' \<Rightarrow> (True, b', st\<lparr>pf_user := Some v, pf_busy := False\<rparr>)))"

definition start_connect_provider :: "string \<Rightarrow> profile \<Rightarrow> api_request \<times> profile" where
  "start_connect_provider provider st =
     (link_provider_call provider, st\<lparr>pf_busy := True, pf_error := [], pf_message := []\<rparr>)"

definition connect_provider_done :: "string reply \<Rightarrow> profile \<Rightarrow> profile" where
  "connect_provider_done outcome st =
     (case outcome of
        Inr url \<Rightarrow> st\<lparr>pf_route := Some url\<rparr>
      | Inl _ \<Rightarrow> st\<lparr>pf_error := ''Could not connect this sign-in method. Please try again.'', pf_busy := False\<rparr>)"

record projects_page =
  pp_ready :: bool
  pp_user :: "json option"
  pp_route :: "string option"

definition has_session :: "browser \<Rightarrow> bool" where
  "has_session b \<longleftrightarrow> truthy_str (get_item (web_local b) ''auth_token'')"

definition projects_page_mount :: "browser \<Rightarrow> projects_page \<Rightarrow> bool \<times> projects_page" where
  "projects_page_mount b st =
     (if \<not> has_session b then (False, st\<lparr>pp_route := Some ''/signin''\<rparr>) else (True, st))"

definition projects_page_loaded :: "bool \<Rightarrow> json reply \<Rightarrow> projects_page \<Rightarrow> projects_page" where
  "projects_page_loaded unmounted outcome st =
     (if unmounted then st
      else (case outcome of Inr v \<Rightarrow> st\<lparr>pp_user := Some v, pp_ready := True\<rparr> | Inl _ \<Rightarrow> st\<lparr>pp_ready := True\<rparr>))"

definition projects_page_sign_out :: "browser \<Rightarrow> projects_page \<Rightarrow> browser \<times> projects_page" where
  "projects_page_sign_out b st = (clear_session b, st\<lparr>pp_route := Some ''/''\<rparr>)"

section \<open>Lemmas\<close>

lemma store_user_Inr:
  "store_user v b = Inr b' \<Longrightarrow>
   get_item (web_local b') k = (if k = ''user_data'' then Some (print_json v) else get_item (web_local b) k) \<and>
   file_contents b' = file_contents b"
  by (auto simp: store_user_def bind_result_Inr_iff items.get_put)

lemma stored_user_session:
  assumes "store_user v b = Inr b'"
  shows "get_session_id (web_local b') = get_session_id (web_local b)"
  using store_user_Inr [OF assms, of "''auth_token''"] store_user_Inr [OF assms, of "''auth_session_id''"]
  by (intro get_session_id_cong) simp_all

lemma stored_user_roundtrip:
  assumes "store_user v b = Inr b'" and "wf_json v"
  shows "Option.bind (get_item (web_local b') ''user_data'') json_parse = Some v"
  using store_user_Inr [OF assms(1), of "''user_data''"] json_parse_print [OF assms(2)] by simp

section \<open>Properties\<close>

text \<open>
  The sign-in form ends in one of two states. Either the login of this submission is the
  session and the page goes to the chat, or it shows an error, stays, and no session is left;
  the account's answer, a failure included, cannot turn one into the other.
\<close>

theorem sign_in_settles:
  assumes "uuid \<noteq> []" and "login_done uuid outcome b st = (go, b1, st1)"
    and "user_done = login_user_done answer b1 st1"
  shows "(go \<longrightarrow> get_session_id (web_local (fst user_done)) = Some uuid \<and>
        si_route (snd user_done) = Some ''/chat'' \<and> \<not> si_loading (snd user_done)) \<and>
    (\<not> go \<longrightarrow> get_session_id (web_local b1) = None \<and> si_route st1 = si_route st \<and> \<not> si_loading st1)"
proof (cases "\<exists>data u b'. outcome = Inr data \<and> save_session uuid data b = (Inr u, b')")
  case True
  then obtain data u b' where data: "outcome = Inr data" and saved: "save_session uuid data b = (Inr u, b')"
    by blast
  with assms(2) have go: "go" "b1 = b'" "st1 = st" by (simp_all add: login_done_def)
  have id: "get_session_id (web_local b1) = Some uuid"
    using saved_session_id [OF saved assms(1)] go by simp
  define b2 where "b2 = (case answer of Inl _ \<Rightarrow> b1 | Inr v \<Rightarrow> (case store_user v b1 of Inl _ \<Rightarrow> b1 | Inr x \<Rightarrow> x))"
  have id2: "get_session_id (web_local b2) = Some uuid"
    using id stored_user_session by (auto simp: b2_def split: sum.splits)
  then have "truthy_str (get_item (web_local b2) ''auth_token'')"
    using get_session_id_None [of "web_local b2"] by auto
  then have "user_done = (b2, st1\<lparr>si_loading := False, si_route := Some ''/chat''\<rparr>)"
    by (simp add: assms(3) login_user_done_def b2_def [symmetric])
  with go(1) id2 show ?thesis by simp
next
  case False
  have "\<not> go \<and> (\<exists>msg b'. sign_in_failed msg b' st = (b1, st1))"
  proof (cases outcome)
    case (Inl e)
    with assms(2) show ?thesis by (auto simp: login_done_def)
  next
    case (Inr data)
    obtain r b' where saved: "save_session uuid data b = (r, b')" by force
    with Inr False obtain e where "r = Inl e" by (cases r) auto
    with Inr saved assms(2) show ?thesis by (auto simp: login_done_def)
  qed
  then show ?thesis by (auto simp: sign_in_failed_def)
qed

definition signed_out_browser :: browser where
  "signed_out_browser = \<lparr>web_local = empty_storage 1000, file_contents = empty_cache, location_path = ''/signin''\<rparr>"

lemma sign_in_settles_witness:
  "get_session_id (web_local (fst (login_user_done (Inl None)
     (fst (snd (login_done ''u1'' (Inr sample_login) signed_out_browser initial_sign_in)))
     (snd (snd (login_done ''u1'' (Inr sample_login) signed_out_browser initial_sign_in)))))) = Some ''u1''"
proof -
  let ?r = "login_done ''u1'' (Inr sample_login) signed_out_browser initial_sign_in"
  have 1: "?r = (fst ?r, fst (snd ?r), snd (snd ?r))" by simp
  have 2: "fst ?r" by code_simp
  from sign_in_settles [OF _ 1 refl, of "Inl None"] 2 show ?thesis by simp
qed

text \<open>
  A login that fails ends the session the browser already had, also when the failure is an
  outage and the session is valid.
\<close>

theorem failed_login_ends_session:
  "get_session_id (web_local (fst (snd (login_done uuid (Inl e) b st)))) = None \<and>
   files (file_contents (fst (snd (login_done uuid (Inl e) b st)))) = []"
  by (simp add: login_done_def sign_in_failed_def) (simp add: clear_session_def clear_file_content_cache_def)

lemma oauth_mount_idem: "oauth_mount params' (oauth_mount params st) = oauth_mount params st"
  by (auto simp: oauth_mount_def Let_def)

lemma oauth_mounts:
  "foldl (\<lambda>st params. oauth_mount params st) (oauth_mount params st) again = oauth_mount params st"
  by (induction again) (simp_all add: oauth_mount_idem)

text \<open>
  The one-time OAuth ticket is exchanged at most once however often the callback page mounts,
  and never when the provider reported an error; a callback without a ticket shows why.
\<close>

theorem ticket_exchanged_once:
  "length (exchange_calls (foldl (\<lambda>st params. oauth_mount params st) initial_oauth visits)) \<le> 1 \<and>
   (callback_error (oauth_mount params initial_oauth) = [] \<longleftrightarrow>
      exchange_calls (oauth_mount params initial_oauth) = [exchange_oauth_call (opt_str (map_of params ''ticket''))])"
proof (cases visits)
  case Nil
  then show ?thesis by (auto simp: oauth_mount_def initial_oauth_def Let_def truthy_str_def)
next
  case (Cons p again)
  then show ?thesis
    by (simp add: oauth_mounts) (auto simp: oauth_mount_def initial_oauth_def Let_def truthy_str_def)
qed

text \<open>
  The message of a rejected callback is a text of the table for every error code but those
  that name a member of \<open>Object.prototype\<close>: for \<open>error=constructor\<close> the page is given a function.
\<close>

theorem callback_message_is_text_iff:
  "(\<exists>m. oauth_message code = Own m) \<longleftrightarrow> code \<notin> set object_prototype"
  by (auto simp: oauth_message_def object_get_def oauth_errors_def object_prototype_def)

end
