(* ===== verification/ToolPresentation.thy ===== *)
theory ToolPresentation imports Messages begin

text \<open>
  \<open>frontend/lib/tool-presentation.ts\<close>: the card of a tool call, from its recorded result. A value
  of type \<open>unknown\<close> is a JSON value, \<open>undefined\<close> is \<open>None\<close>. A number with a fraction or an exponent
  is shown by its literal; the counts and exit codes the server records are integers.
\<close>

section \<open>Data\<close>

definition tool_labels :: "(string, string) omap" where
  "tool_labels =
     [(''read_skill'', ''Read skill''), (''read_files'', ''Read files''), (''write_files'', ''Edit files''),
      (''execute_command'', ''Run command''), (''inspect_preview'', ''Inspect preview''),
      (''run_command'', ''Run command''), (''search_project_history'', ''Search project history''),
      (''list_files'', ''List files'')]"

record presentation =
  file_count :: json
  target_files :: bool
  truncated_fields :: "string list"
  command :: string
  input_omitted :: bool
  pr_title :: "string lookup"
  summary :: string
  pr_files :: "string list"
  references :: "string list"
  stdout :: string
  stderr :: string
  pr_error :: string
  exit_code :: "json option"
  interrupted :: bool
  pr_changed :: bool
  parsed :: "json option"

section \<open>Reading the record\<close>

definition parsed_result :: "tool_call \<Rightarrow> json option" where
  "parsed_result tool =
     (if Option.bind (call_details tool) (json_get ''version'') = Some (JNum 1)
      then call_details tool
      else if truthy_str (call_output tool) then json_parse (opt_str (call_output tool)) else None)"

definition record_field :: "json option \<Rightarrow> string \<Rightarrow> json option" where
  "record_field p key = Option.bind p (json_get key)"

definition strings_of :: "json option \<Rightarrow> string list" where
  "strings_of v =
     (case Option.bind v json_arr of None \<Rightarrow> [] | Some vs \<Rightarrow> List.map_filter json_str vs)"

definition text_of :: "json option \<Rightarrow> string \<Rightarrow> string" where
  "text_of p key = opt_str (Option.bind (record_field p key) json_str)"

fun json_number :: "json \<Rightarrow> json option" where
  "json_number (JNum n) = Some (JNum n)"
| "json_number (JFrac t) = Some (JFrac t)"
| "json_number _ = None"

text \<open>\<open>a ?? b\<close>: \<open>undefined\<close> and \<open>null\<close> fall through.\<close>

definition nullish_or :: "json option \<Rightarrow> json option \<Rightarrow> json option" where
  "nullish_or a b = (if a = None \<or> a = Some JNull then b else a)"

definition recorded_files :: "json option \<Rightarrow> string list" where
  "recorded_files p =
     dedupe (strings_of (nullish_or (record_field p ''changed_files'')
       (nullish_or (record_field p ''files'') (record_field p ''paths''))))"

definition recorded_count :: "json option \<Rightarrow> json" where
  "recorded_count p =
     (case Option.bind (record_field p ''file_count'') json_number of
        Some n \<Rightarrow> n | None \<Rightarrow> JNum (int (length (recorded_files p))))"

definition truthy_field :: "json option \<Rightarrow> bool" where
  "truthy_field v = (case v of None \<Rightarrow> False | Some x \<Rightarrow> json_truthy x)"

definition tool_error :: "tool_call \<Rightarrow> json option \<Rightarrow> string" where
  "tool_error tool p =
     (let err = text_of p ''error''; err_out = text_of p ''stderr'' in
      if err = [] \<and> call_status tool = Call_error then
        (if err_out \<noteq> [] then err_out
         else (case p of
                 Some (JStr s) \<Rightarrow> s
               | None \<Rightarrow> opt_str (call_output tool)
               | _ \<Rightarrow> err))
      else err)"

definition ended_early :: "tool_call \<Rightarrow> bool" where
  "ended_early tool \<longleftrightarrow>
     call_status tool = Call_error \<and> call_output tool = Some ''Run ended before this operation completed.''"

section \<open>Summary and title\<close>

definition first_line :: "string \<Rightarrow> string" where
  "first_line s =
     (case List.find (\<lambda>l. l \<noteq> []) (split_on (CHR 0x0A) (trim s)) of
        None \<Rightarrow> [] | Some l \<Rightarrow> take 220 l)"

definition count_noun :: "json \<Rightarrow> string \<Rightarrow> string \<Rightarrow> string" where
  "count_noun n one many = print_json n @ '' '' @ (if n = JNum 1 then one else many)"

definition tool_summary :: "tool_call \<Rightarrow> json option \<Rightarrow> string" where
  "tool_summary tool p =
     (let count = recorded_count p; refs = strings_of (record_field p ''message_ids'');
          code = Option.bind (record_field p ''exit_code'') json_number
      in if ended_early tool then ''The run ended before this tool returned a result.''
         else if call_status tool = Call_error
         then str_or (first_line (tool_error tool p)) ''This operation did not complete successfully.''
         else if json_truthy count
         then count_noun count ''file'' ''files'' @ '' '' @
              (if Option.bind (record_field p ''paths'') json_arr \<noteq> None then ''targeted''
               else if truthy_field (record_field p ''changed_files'') then ''updated'' else ''read'')
         else if record_field p ''message_ids'' \<noteq> None
         then show_nat (length refs) @ '' matching '' @ (if length refs = 1 then ''message'' else ''messages'')
         else if call_name tool = ''inspect_preview'' \<and> record_field p ''checked'' = Some (JBool True)
         then join_with '' and '' (strings_of (record_field p ''viewports'')) @ '' preview inspected''
         else (case code of
                 Some n \<Rightarrow> ''Exited with code '' @ print_json n
               | None \<Rightarrow>
                   if call_status tool = Call_running then ''Waiting for result'' @ [CHR 0xE2, CHR 0x80, CHR 0xA6]
                   else if truthy_str (call_output tool) then ''Result available'' else ''No output recorded''))"

text \<open>A title is a text, or the member of \<open>Object.prototype\<close> that a tool's name selects.\<close>

definition tool_title :: "tool_call \<Rightarrow> json option \<Rightarrow> string lookup" where
  "tool_title tool p =
     (let skill = (if call_name tool = ''read_skill'' then text_of p ''name'' else []) in
      if skill \<noteq> [] then Own (''Read skill '' @ [CHR 0xC2, CHR 0xB7] @ '' '' @ skill)
      else (case object_get tool_labels (call_name tool) of
              Own l \<Rightarrow> Own l
            | Inherited k \<Rightarrow> Inherited k
            | Absent \<Rightarrow> Own (map (\<lambda>c. if c = CHR ''_'' then CHR '' '' else c) (call_name tool))))"

definition present_tool :: "tool_call \<Rightarrow> presentation" where
  "present_tool tool =
     (let p = parsed_result tool in
      \<lparr>file_count = recorded_count p,
       target_files = Option.bind (record_field p ''paths'') json_arr \<noteq> None,
       truncated_fields = strings_of (record_field p ''truncated_fields''),
       command = text_of p ''command'',
       input_omitted = (record_field p ''input_omitted'' = Some (JBool True)),
       pr_title = tool_title tool p,
       summary = tool_summary tool p,
       pr_files = recorded_files p,
       references = strings_of (record_field p ''message_ids''),
       stdout = text_of p ''stdout'',
       stderr = text_of p ''stderr'',
       pr_error = tool_error tool p,
       exit_code = Option.bind (record_field p ''exit_code'') json_number,
       interrupted = ended_early tool,
       pr_changed = truthy_field (record_field p ''changed_files''),
       parsed = p\<rparr>)"

section \<open>Lemmas\<close>

lemma first_line_facts: "length (first_line s) \<le> 220 \<and> CHR 0x0A \<notin> set (first_line s)"
proof (cases "List.find (\<lambda>l. l \<noteq> []) (split_on (CHR 0x0A) (trim s))")
  case None
  then show ?thesis by (simp add: first_line_def)
next
  case (Some l)
  then have "l \<in> set (split_on (CHR 0x0A) (trim s))" by (auto simp: find_Some_iff)
  then have "CHR 0x0A \<notin> set l" by (rule split_on_no_sep)
  with Some show ?thesis by (auto simp: first_line_def dest: in_set_takeD)
qed

section \<open>Properties\<close>

text \<open>
  The files of a card are recorded ones only, each once: every path shown is a string of the
  recorded list, and a result that is no record shows no files, commands or outputs.
\<close>

theorem presents_recorded_only:
  "distinct (pr_files (present_tool tool)) \<and>
   (\<forall>f \<in> set (pr_files (present_tool tool)).
      \<exists>key \<in> {''changed_files'', ''files'', ''paths''}. f \<in> set (strings_of (record_field (parsed_result tool) key))) \<and>
   ((\<nexists>kvs. parsed_result tool = Some (JObj kvs)) \<longrightarrow>
      pr_files (present_tool tool) = [] \<and> command (present_tool tool) = [] \<and> stdout (present_tool tool) = [])"
proof -
  have none: "record_field p key = None" if "\<nexists>kvs. p = Some (JObj kvs)" for p key
  proof (cases p)
    case (Some v)
    with that show ?thesis by (cases v) (simp_all add: record_field_def)
  qed (simp add: record_field_def)
  have files: "f \<in> set (recorded_files p) \<Longrightarrow>
      \<exists>key \<in> {''changed_files'', ''files'', ''paths''}. f \<in> set (strings_of (record_field p key))" for f p
    by (auto simp: recorded_files_def nullish_or_def split: if_splits)
  show ?thesis
    using none files
    by (auto simp: present_tool_def Let_def recorded_files_def nullish_or_def strings_of_def text_of_def opt_str_def)
qed

definition finished_call :: "string \<Rightarrow> string \<Rightarrow> tool_call" where
  "finished_call name out = \<lparr>call_key = Some ''c1'', call_name = name, call_status = Call_success,
     call_output = Some out, call_duration = None, call_details = None, call_run = None, call_event = None\<rparr>"

lemma presents_recorded_only_witness:
  "pr_files (present_tool (finished_call ''run'' ''plain text'')) = []"
proof -
  have "parsed_result (finished_call ''run'' ''plain text'') = None" by code_simp
  with presents_recorded_only [of "finished_call ''run'' ''plain text''"] show ?thesis by simp
qed

text \<open>
  The summary of a failed call is one line of at most 220 characters, and it is never empty.
\<close>

theorem failure_summary_one_line:
  assumes "call_status tool = Call_error"
  shows "summary (present_tool tool) \<noteq> [] \<and> CHR 0x0A \<notin> set (summary (present_tool tool)) \<and>
    length (summary (present_tool tool)) \<le> 220"
  using assms first_line_facts [of "tool_error tool (parsed_result tool)"]
  by (simp add: present_tool_def tool_summary_def Let_def str_or_def)

lemma failure_summary_one_line_witness:
  "length (summary (present_tool ((finished_call ''run'' ''boom'')\<lparr>call_status := Call_error\<rparr>))) \<le> 220"
  using failure_summary_one_line [of "(finished_call ''run'' ''boom'')\<lparr>call_status := Call_error\<rparr>"] by simp

text \<open>
  The title of a card is a text exactly when the tool's name is no member of
  \<open>Object.prototype\<close>; a tool called \<open>constructor\<close> gets a function for its title.
\<close>

theorem title_is_text_iff:
  "(\<exists>t. pr_title (present_tool tool) = Own t) \<longleftrightarrow> call_name tool \<notin> set object_prototype"
proof -
  have "call_name tool \<noteq> ''read_skill''" if "call_name tool \<in> set object_prototype"
    using that by (auto simp: object_prototype_def)
  then show ?thesis
    by (auto simp: present_tool_def tool_title_def Let_def object_get_def tool_labels_def object_prototype_def)
qed

end
