(* ===== verification/ChatWorkspace.thy ===== *)
theory ChatWorkspace imports ChatConnection AuthHooks begin

text \<open>
  \<open>frontend/hooks/chat/useChatWorkspace.ts\<close> and \<open>useWorkspaceLayout.ts\<close>: sending a prompt,
  stopping a run, and the split layout. The states of the connection, the files and the preview
  are those of their own theories; here \<open>work_ui\<close> is the part of the chat that the connection's
  setters also write. \<open>socket_open\<close> is \<open>wsRef.current?.readyState === WebSocket.OPEN\<close>.
\<close>

section \<open>Layout\<close>

datatype preview_tab = Tab_preview | Tab_files

record layout =
  preview_width :: real
  dragging :: bool
  show_preview :: bool
  mobile_pane :: string
  layout_tab :: preview_tab
  desktop_preview :: "bool option"

definition initial_layout :: layout where
  "initial_layout = \<lparr>preview_width = 50, dragging = False, show_preview = True, mobile_pane = ''chat'',
     layout_tab = Tab_preview, desktop_preview = None\<rparr>"

definition workspace_visible :: "layout \<Rightarrow> bool" where
  "workspace_visible st \<longleftrightarrow> show_preview st \<and>
     (case desktop_preview st of None \<Rightarrow> False | Some wide \<Rightarrow> wide \<or> mobile_pane st = ''preview'')"

text \<open>
  The container's left edge and width, where it is mounted. A width of zero makes the quotient
  infinite or not a number, and both comparisons or one of them fail.
\<close>

definition mouse_move :: "real \<Rightarrow> (real \<times> real) option \<Rightarrow> layout \<Rightarrow> layout" where
  "mouse_move client_x container st =
     (case container of
        None \<Rightarrow> st
      | Some (left, width) \<Rightarrow>
          if \<not> dragging st \<or> width = 0 then st
          else
            let chat_width = (client_x - left) / width * 100 in
            if chat_width > 20 \<and> chat_width < 70 then st\<lparr>preview_width := 100 - chat_width\<rparr> else st)"

definition mouse_up :: "layout \<Rightarrow> layout" where
  "mouse_up st = (if dragging st then st\<lparr>dragging := False\<rparr> else st)"

datatype layout_event =
    Media bool | Drag_start | Mouse_move real "(real \<times> real) option" | Mouse_up
  | Toggle_preview bool | Pane string | Tab preview_tab

fun layout_step :: "layout \<Rightarrow> layout_event \<Rightarrow> layout" where
  "layout_step st (Media wide) = st\<lparr>desktop_preview := Some wide\<rparr>"
| "layout_step st Drag_start = st\<lparr>dragging := True\<rparr>"
| "layout_step st (Mouse_move x c) = mouse_move x c st"
| "layout_step st Mouse_up = mouse_up st"
| "layout_step st (Toggle_preview b) = st\<lparr>show_preview := b\<rparr>"
| "layout_step st (Pane p) = st\<lparr>mobile_pane := p\<rparr>"
| "layout_step st (Tab t) = st\<lparr>layout_tab := t\<rparr>"

section \<open>Sending and stopping\<close>

record workspace =
  work_ui :: chat_ui
  work_input :: string
  work_loading :: bool
  work_user :: "json option"
  follow_latest :: bool

definition initial_workspace :: workspace where
  "initial_workspace = \<lparr>work_ui = empty_ui, work_input = [], work_loading = True, work_user = None,
     follow_latest = True\<rparr>"

definition load_initial_data :: "browser \<Rightarrow> workspace \<Rightarrow> workspace" where
  "load_initial_data b st =
     (let user = get_item (web_local b) ''user_data'';
          st1 = (if truthy_str user
                 then (case json_parse (opt_str user) of Some v \<Rightarrow> st\<lparr>work_user := Some v\<rparr> | None \<Rightarrow> st)
                 else st)
      in st1\<lparr>work_loading := False\<rparr>)"

definition conversation_scroll :: "real \<Rightarrow> real \<Rightarrow> real \<Rightarrow> workspace \<Rightarrow> workspace" where
  "conversation_scroll scroll_height scroll_top client_height st =
     st\<lparr>follow_latest := scroll_height - scroll_top - client_height < 100\<rparr>"

definition with_tokens :: "int \<Rightarrow> json \<Rightarrow> json" where
  "with_tokens n v = JObj (omap_set ''tokens_remaining'' (JNum n) (spread v))"

definition start_send :: "string \<Rightarrow> workspace \<Rightarrow> api_request option \<times> workspace" where
  "start_send chat st =
     (let prompt = trim (work_input st) in
      if prompt = [] \<or> building (work_ui st) then (None, st)
      else (Some (start_run_call chat prompt),
            st\<lparr>work_ui := (work_ui st)\<lparr>building := True, banner := None\<rparr>, follow_latest := True\<rparr>))"

definition send_failed :: "string \<Rightarrow> workspace \<Rightarrow> workspace" where
  "send_failed msg st = st\<lparr>work_ui := (work_ui st)\<lparr>building := False, banner := Some msg\<rparr>\<rparr>"

text \<open>The rest of \<open>handleSendMessage\<close>; the flag tells whether a resync was sent.\<close>

definition finish_send ::
  "(string \<times> int) reply \<Rightarrow> bool \<Rightarrow> browser \<Rightarrow> workspace \<Rightarrow> bool \<times> browser \<times> workspace" where
  "finish_send outcome socket_open b st =
     (case outcome of
        Inl e \<Rightarrow> (False, b, send_failed (message_or ''Request was not accepted'' e) st)
      | Inr (run, tokens) \<Rightarrow>
          let st1 = st\<lparr>work_ui := (work_ui st)\<lparr>current_run := Some run\<rparr>, work_input := []\<rparr> in
          case work_user st1 of
            Some v \<Rightarrow>
              if json_truthy v then
                (case store_user (with_tokens tokens v) b of
                   Inl e \<Rightarrow> (False, b, send_failed (js_message e) st1)
                 | Inr b' \<Rightarrow> (socket_open, b', st1\<lparr>work_user := Some (with_tokens tokens v)\<rparr>))
              else (socket_open, b, st1)
          | None \<Rightarrow> (socket_open, b, st1))"

definition start_cancel :: "workspace \<Rightarrow> api_request option" where
  "start_cancel st =
     (if truthy_str (current_run (work_ui st))
      then Some (cancel_run_call (opt_str (current_run (work_ui st)))) else None)"

definition finish_cancel :: "unit reply \<Rightarrow> bool \<Rightarrow> workspace \<Rightarrow> bool \<times> workspace" where
  "finish_cancel outcome socket_open st =
     (case outcome of
        Inr _ \<Rightarrow> (socket_open, st\<lparr>work_ui := (work_ui st)\<lparr>building := False, current_run := None\<rparr>\<rparr>)
      | Inl e \<Rightarrow> (False, st\<lparr>work_ui := (work_ui st)\<lparr>banner := Some (message_or ''Could not stop the run'' e)\<rparr>\<rparr>))"

section \<open>Lemmas\<close>

lemma layout_step_width [keep_inv]:
  "preview_width st = 50 \<or> 30 < preview_width st \<and> preview_width st < 80 \<Longrightarrow>
   preview_width (layout_step st ev) = 50 \<or>
   30 < preview_width (layout_step st ev) \<and> preview_width (layout_step st ev) < 80"
  by (cases ev) (auto simp: mouse_move_def mouse_up_def Let_def split: option.split)

section \<open>Properties\<close>

text \<open>
  However the divider is dragged, also outside its container or over one of no width, the
  preview keeps between 30 and 80 percent of the workspace and the chat between 20 and 70.
\<close>

theorem drag_keeps_panes_visible:
  "30 < preview_width (foldl layout_step initial_layout evs) \<and>
   preview_width (foldl layout_step initial_layout evs) < 80"
proof -
  have "preview_width (foldl layout_step st evs) = 50 \<or>
      30 < preview_width (foldl layout_step st evs) \<and> preview_width (foldl layout_step st evs) < 80"
    if "preview_width st = 50 \<or> 30 < preview_width st \<and> preview_width st < 80" for st
    using that
  proof (induction evs arbitrary: st)
    case (Cons ev evs)
    then show ?case using layout_step_width [of st ev] by simp
  qed simp
  from this [of initial_layout] show ?thesis by (auto simp: initial_layout_def)
qed

text \<open>
  A prompt is sent only when it is not blank and no run is building, and until the answer a
  second one is not. A refusal keeps the typed prompt, shows why and allows another try; an
  accepted run is the page's current one, with the balance the server answered stored and shown.
\<close>

theorem send_prompt_spec:
  assumes "start_send chat st = (Some req, st1)"
  shows "req = start_run_call chat (trim (work_input st)) \<and> trim (work_input st) \<noteq> [] \<and>
    \<not> building (work_ui st) \<and> start_send chat st1 = (None, st1) \<and>
    (\<forall>msg sock b. finish_send (Inl (Some msg)) sock b st1 = (False, b, send_failed msg st1) \<and>
       work_input (send_failed msg st1) = work_input st \<and> banner (work_ui (send_failed msg st1)) = Some msg \<and>
       fst (start_send chat (send_failed msg st1)) = Some req) \<and>
    (\<forall>run tokens sock b b' v. work_user st = Some v \<and> json_truthy v \<and> store_user (with_tokens tokens v) b = Inr b' \<longrightarrow>
       (\<exists>st2. finish_send (Inr (run, tokens)) sock b st1 = (sock, b', st2) \<and>
          current_run (work_ui st2) = Some run \<and> building (work_ui st2) \<and> work_input st2 = [] \<and>
          work_user st2 = Some (with_tokens tokens v)))"
  using assms
  by (auto simp: start_send_def finish_send_def send_failed_def message_or_def Let_def split: if_splits)

definition ready_workspace :: workspace where
  "ready_workspace = initial_workspace\<lparr>work_input := ''a blog'', work_user := Some (JObj [(''tokens_remaining'', JNum 9)])\<rparr>"

lemma send_prompt_spec_witness:
  "fst (start_send ''c1'' (snd (start_send ''c1'' ready_workspace))) = None \<and>
   (\<exists>st2. finish_send (Inr (''r1'', 8)) True signed_out_browser (snd (start_send ''c1'' ready_workspace)) =
      (True, the (case store_user (JObj [(''tokens_remaining'', JNum 8)]) signed_out_browser of Inl e \<Rightarrow> None | Inr x \<Rightarrow> Some x), st2) \<and>
      current_run (work_ui st2) = Some ''r1'')"
proof -
  have 1: "start_send ''c1'' ready_workspace =
      (Some (start_run_call ''c1'' ''a blog''), snd (start_send ''c1'' ready_workspace))" by code_simp
  have 2: "work_user ready_workspace = Some (JObj [(''tokens_remaining'', JNum 9)])" by (simp add: ready_workspace_def)
  have 3: "with_tokens 8 (JObj [(''tokens_remaining'', JNum 9)]) = JObj [(''tokens_remaining'', JNum 8)]" by code_simp
  obtain b' where b': "store_user (JObj [(''tokens_remaining'', JNum 8)]) signed_out_browser = Inr b'"
  proof -
    have "\<not> isl (store_user (JObj [(''tokens_remaining'', JNum 8)]) signed_out_browser)" by code_simp
    with that show ?thesis by (cases "store_user (JObj [(''tokens_remaining'', JNum 8)]) signed_out_browser") auto
  qed
  have 4: "json_truthy (JObj [(''tokens_remaining'', JNum 9)])" by simp
  note spec = send_prompt_spec [OF 1]
  from spec have "fst (start_send ''c1'' (snd (start_send ''c1'' ready_workspace))) = None" by simp
  moreover from spec 2 3 4 b' have "\<exists>st2. finish_send (Inr (''r1'', 8)) True signed_out_browser
      (snd (start_send ''c1'' ready_workspace)) = (True, b', st2) \<and> current_run (work_ui st2) = Some ''r1''" by metis
  ultimately show ?thesis using b' by simp
qed

text \<open>
  When the browser's storage is full, a run that the server accepted is shown as rejected: the
  page stops showing the build and displays the storage error, although the run is its current one.
\<close>

theorem full_storage_hides_accepted_run:
  assumes "work_user st = Some v" and "json_truthy v" and "store_user (with_tokens tokens v) b = Inl e"
  shows "\<exists>st2. finish_send (Inr (run, tokens)) sock b st = (False, b, st2) \<and>
    current_run (work_ui st2) = Some run \<and> \<not> building (work_ui st2) \<and> banner (work_ui st2) = Some (js_message e)"
  using assms by (simp add: finish_send_def send_failed_def Let_def)

lemma full_storage_hides_accepted_run_witness:
  "\<exists>st2. finish_send (Inr (''r1'', 8)) True (signed_out_browser\<lparr>web_local := empty_storage 3\<rparr>) ready_workspace =
     (False, signed_out_browser\<lparr>web_local := empty_storage 3\<rparr>, st2) \<and>
     banner (work_ui st2) = Some ''QuotaExceededError''"
proof -
  have 1: "work_user ready_workspace = Some (JObj [(''tokens_remaining'', JNum 9)])" by (simp add: ready_workspace_def)
  have 2: "json_truthy (JObj [(''tokens_remaining'', JNum 9)])" by simp
  have 3: "store_user (with_tokens 8 (JObj [(''tokens_remaining'', JNum 9)])) (signed_out_browser\<lparr>web_local := empty_storage 3\<rparr>) =
      Inl (Thrown ''QuotaExceededError'')" by code_simp
  from full_storage_hides_accepted_run [OF 1 2 3, of "''r1''" True] show ?thesis by (auto simp: js_message_def)
qed

end
