(* ===== verification/LiveSession.thy ===== *)
theory LiveSession imports Storage Json begin

text \<open>
  \<open>agent/skills/impeccable/scripts/live-browser-session.js\<close>: the durable session of the live
  overlay, the ids of handled sessions and the scroll position, in a storage that may be full or
  (\<open>None\<close>) denied. \<open>checkpointRevision\<close> is the instance's counter. A number is an integer or the
  literal of another number; a literal with a fraction or an exponent does not count as integer.
\<close>

section \<open>State and safe access\<close>

record live_session =
  ls_prefix :: string
  ls_store :: "storage option"
  ls_revision :: int
  ls_owner :: string

definition create_session_state ::
  "string \<Rightarrow> storage option \<Rightarrow> string \<Rightarrow> (js_error, live_session) result" where
  "create_session_state prefix store owner =
     (if prefix = [] then Inl (Thrown ''prefix required'')
      else Inr \<lparr>ls_prefix = prefix, ls_store = store, ls_revision = 0, ls_owner = owner\<rparr>)"

definition session_key :: "live_session \<Rightarrow> string" where
  "session_key s = ls_prefix s @ ''-session''"

definition handled_key :: "live_session \<Rightarrow> string" where
  "handled_key s = session_key s @ ''-handled''"

definition scroll_key :: "live_session \<Rightarrow> string" where
  "scroll_key s = session_key s @ ''-scroll''"

definition safe_read :: "string \<Rightarrow> live_session \<Rightarrow> string option" where
  "safe_read key s = (case ls_store s of None \<Rightarrow> None | Some st \<Rightarrow> get_item st key)"

definition safe_write :: "string \<Rightarrow> string \<Rightarrow> live_session \<Rightarrow> live_session" where
  "safe_write key value s =
     (case ls_store s of
        None \<Rightarrow> s
      | Some st \<Rightarrow>
          (case set_item st key value of Inl _ \<Rightarrow> s | Inr st' \<Rightarrow> s\<lparr>ls_store := Some st'\<rparr>))"

definition safe_remove :: "string \<Rightarrow> live_session \<Rightarrow> live_session" where
  "safe_remove key s = s\<lparr>ls_store := map_option (\<lambda>st. remove_item st key) (ls_store s)\<rparr>"

section \<open>The session\<close>

definition field_truthy :: "string \<Rightarrow> json \<Rightarrow> bool" where
  "field_truthy key v \<longleftrightarrow> (case json_get key v of None \<Rightarrow> False | Some x \<Rightarrow> json_truthy x)"

definition load_live_session :: "live_session \<Rightarrow> json option \<times> live_session" where
  "load_live_session s =
     (let raw = safe_read (session_key s) s in
      if \<not> truthy_str raw then (None, s)
      else case json_parse (opt_str raw) of
        None \<Rightarrow> (None, s)
      | Some v \<Rightarrow>
          if v = JNull then (None, s)
          else (case Option.bind (json_get ''checkpointRevision'' v) json_int of
                  None \<Rightarrow> (Some v, s)
                | Some n \<Rightarrow> (Some v, s\<lparr>ls_revision := max (ls_revision s) n\<rparr>)))"

definition session_payload :: "json \<Rightarrow> live_session \<Rightarrow> json" where
  "session_payload v s = JObj (omap_set ''checkpointRevision'' (JNum (ls_revision s)) (spread v))"

definition save_live_session :: "json \<Rightarrow> live_session \<Rightarrow> live_session" where
  "save_live_session v s =
     (if \<not> field_truthy ''id'' v then s
      else safe_write (session_key s) (print_json (session_payload v s)) s)"

definition clear_live_session :: "live_session \<Rightarrow> live_session" where
  "clear_live_session s = safe_remove (session_key s) s"

definition next_checkpoint_revision :: "live_session \<Rightarrow> int \<times> live_session" where
  "next_checkpoint_revision s =
     (let s1 = s\<lparr>ls_revision := ls_revision s + 1\<rparr>;
          (existing, s2) = load_live_session s1;
          s3 = (case existing of
                  None \<Rightarrow> s2
                | Some v \<Rightarrow> if field_truthy ''id'' v then save_live_session v s2 else s2)
      in (ls_revision s3, s3))"

definition seed_checkpoint_revision :: "json option \<Rightarrow> live_session \<Rightarrow> int \<times> live_session" where
  "seed_checkpoint_revision value s =
     (let s1 = (case Option.bind value json_int of
                  None \<Rightarrow> s | Some n \<Rightarrow> s\<lparr>ls_revision := max (ls_revision s) n\<rparr>)
      in (ls_revision s1, s1))"

definition current_checkpoint_revision :: "live_session \<Rightarrow> int" where
  "current_checkpoint_revision s = ls_revision s"

section \<open>Handled ids\<close>

definition nonempty_strings :: "json list \<Rightarrow> string list" where
  "nonempty_strings vs = filter (\<lambda>t. t \<noteq> []) (List.map_filter json_str vs)"

definition read_handled_ids :: "live_session \<Rightarrow> string list" where
  "read_handled_ids s =
     (let raw = safe_read (handled_key s) s in
      if \<not> truthy_str raw then []
      else case json_parse (opt_str raw) of
        Some (JArr vs) \<Rightarrow> nonempty_strings vs
      | Some (JStr t) \<Rightarrow> if t \<noteq> [] then [t] else [opt_str raw]
      | _ \<Rightarrow> [opt_str raw])"

definition print_ids :: "string list \<Rightarrow> string" where
  "print_ids ids = print_json (JArr (map JStr ids))"

definition mark_handled :: "string \<Rightarrow> live_session \<Rightarrow> live_session" where
  "mark_handled i s =
     (if i = [] then s
      else safe_write (handled_key s)
             (print_ids (last_n 8 (filter (\<lambda>x. x \<noteq> i) (read_handled_ids s) @ [i]))) s)"

definition is_handled :: "string \<Rightarrow> live_session \<Rightarrow> bool" where
  "is_handled i s \<longleftrightarrow> i \<noteq> [] \<and> i \<in> set (read_handled_ids s)"

definition clear_handled :: "string \<Rightarrow> live_session \<Rightarrow> live_session" where
  "clear_handled i s =
     (if i = [] then safe_remove (handled_key s) s
      else let remaining = filter (\<lambda>x. x \<noteq> i) (read_handled_ids s) in
        if remaining \<noteq> [] then safe_write (handled_key s) (print_ids remaining) s
        else safe_remove (handled_key s) s)"

section \<open>Scroll position\<close>

text \<open>
  \<open>parseFloat\<close>: the longest decimal literal at the front, as text; \<open>None\<close> is \<open>NaN\<close>. A literal too
  large for a finite number is not told apart.
\<close>

definition take_sign :: "string \<Rightarrow> string \<times> string" where
  "take_sign s =
     (case s of c # r \<Rightarrow> if c = CHR ''-'' then ([c], r) else if c = CHR ''+'' then ([], r) else ([], s)
      | [] \<Rightarrow> ([], []))"

definition take_fraction :: "string \<Rightarrow> string \<times> string" where
  "take_fraction s =
     (case s of c # r \<Rightarrow> if c = CHR ''.'' then (c # takeWhile is_digit r, dropWhile is_digit r) else ([], s)
      | [] \<Rightarrow> ([], []))"

definition take_exponent :: "string \<Rightarrow> string" where
  "take_exponent s =
     (case s of
        c # r \<Rightarrow>
          if c = CHR ''e'' \<or> c = CHR ''E'' then
            (let (sign, t) = take_sign r; ds = takeWhile is_digit t in if ds = [] then [] else c # sign @ ds)
          else []
      | [] \<Rightarrow> [])"

definition parse_float :: "string \<Rightarrow> string option" where
  "parse_float text =
     (let (sign, s1) = take_sign (trim_start text);
          whole = takeWhile is_digit s1;
          (frac, s2) = take_fraction (dropWhile is_digit s1)
      in if whole = [] \<and> length frac \<le> 1 then None
         else Some (sign @ whole @ (if length frac \<le> 1 then [] else frac) @ take_exponent s2))"

definition write_scroll_y :: "string \<Rightarrow> live_session \<Rightarrow> live_session" where
  "write_scroll_y y s = safe_write (scroll_key s) y s"

definition read_scroll_y :: "live_session \<Rightarrow> string option" where
  "read_scroll_y s = Option.bind (safe_read (scroll_key s) s) parse_float"

definition clear_scroll_y :: "live_session \<Rightarrow> live_session" where
  "clear_scroll_y s = safe_remove (scroll_key s) s"

section \<open>Lemmas\<close>

lemma safe_write_revision [simp]: "ls_revision (safe_write k v s) = ls_revision s"
  "ls_prefix (safe_write k v s) = ls_prefix s"
  by (auto simp: safe_write_def split: option.split sum.split)

lemma keys_of_same_prefix [simp]:
  "session_key (safe_write k v s) = session_key s" "handled_key (safe_write k v s) = handled_key s"
  "session_key (s\<lparr>ls_revision := n\<rparr>) = session_key s" "safe_read k (s\<lparr>ls_revision := n\<rparr>) = safe_read k s"
  by (simp_all add: session_key_def handled_key_def safe_read_def)

text \<open>A write either took place, or left everything as it was.\<close>

lemma safe_write_cases:
  "safe_write k v s = s \<or> (\<forall>j. safe_read j (safe_write k v s) = (if j = k then Some v else safe_read j s))"
  using items.get_put [of _ k v] by (auto simp: safe_write_def safe_read_def split: option.split sum.split)

lemma load_revision: "ls_revision s \<le> ls_revision (snd (load_live_session s))"
  by (auto simp: load_live_session_def Let_def split: option.split)

lemma load_revision_only: "snd (load_live_session s) = s\<lparr>ls_revision := ls_revision (snd (load_live_session s))\<rparr>"
  by (auto simp: load_live_session_def Let_def split: option.split)

lemma save_revision [simp]: "ls_revision (save_live_session v s) = ls_revision s"
  by (simp add: save_live_session_def)

lemma wf_spread:
  assumes "wf_json (JObj kvs)" shows "wf_json (session_payload (JObj kvs) s)"
proof -
  have elem: "e = (k, v) \<or> e \<in> set m" if "e \<in> set (omap_set k v m)" for e k v and m :: "(string \<times> json) list"
    using that by (induction k v m rule: omap_set.induct) (auto split: if_splits)
  have "wf_json (snd e)" if "e \<in> set (omap_set ''checkpointRevision'' (JNum n) kvs)" for e n
    using elem [OF that] assms by auto
  with assms show ?thesis by (simp add: session_payload_def distinct_omap_set)
qed

lemma payload_revision: "json_get ''checkpointRevision'' (session_payload v s) = Some (JNum (ls_revision s))"
  by (simp add: session_payload_def map_of_omap_set)

lemma ids_roundtrip: "json_parse (print_ids ids) = Some (JArr (map JStr ids))"
  unfolding print_ids_def by (rule json_parse_print) simp

lemma map_filter_strings [simp]: "List.map_filter json_str (map JStr ids) = ids"
  by (induction ids) (simp_all add: List.map_filter_simps)

lemma print_ids_nonempty: "print_ids ids \<noteq> []"
proof
  assume "print_ids ids = []"
  then have "json_parse [] = Some (JArr (map JStr ids))" using ids_roundtrip [of ids] by simp
  moreover have "json_parse [] = None" by code_simp
  ultimately show False by simp
qed

lemma read_back_ids:
  "safe_read (handled_key s) s = Some (print_ids ids) \<Longrightarrow> [] \<notin> set ids \<Longrightarrow> read_handled_ids s = ids"
  using ids_roundtrip [of ids] print_ids_nonempty [of ids]
  by (simp add: read_handled_ids_def Let_def truthy_str_def opt_str_def nonempty_strings_def filter_id_conv) metis

lemma handled_ids_nonempty: "[] \<notin> set (read_handled_ids s)"
  by (auto simp: read_handled_ids_def Let_def truthy_str_def nonempty_strings_def split: option.splits json.splits)

text \<open>What a list of handled ids looks like after one more: the last eight, the new one at the end.\<close>

lemma mark_handled_read:
  assumes "i \<noteq> []" and "mark_handled i s \<noteq> s"
  shows "read_handled_ids (mark_handled i s) = last_n 8 (filter (\<lambda>x. x \<noteq> i) (read_handled_ids s) @ [i])"
proof -
  let ?ids = "last_n 8 (filter (\<lambda>x. x \<noteq> i) (read_handled_ids s) @ [i])"
  have "[] \<notin> set ?ids"
    using set_last_n [of 8 "filter (\<lambda>x. x \<noteq> i) (read_handled_ids s) @ [i]"] handled_ids_nonempty [of s] assms(1)
    by auto
  moreover have "safe_read (handled_key (mark_handled i s)) (mark_handled i s) = Some (print_ids ?ids)"
    using assms safe_write_cases [of "handled_key s" "print_ids ?ids" s] by (auto simp: mark_handled_def)
  ultimately show ?thesis by (intro read_back_ids)
qed

lemma save_then_load:
  assumes "field_truthy ''id'' (JObj kvs)" and "wf_json (JObj kvs)"
    and "safe_read (session_key s) (save_live_session (JObj kvs) s) = Some (print_json (session_payload (JObj kvs) s))"
    and "session_key r = session_key s" and "ls_store r = ls_store (save_live_session (JObj kvs) s)"
  shows "load_live_session r =
    (Some (session_payload (JObj kvs) s), r\<lparr>ls_revision := max (ls_revision r) (ls_revision s)\<rparr>)"
proof -
  let ?p = "session_payload (JObj kvs) s"
  have "print_json ?p \<noteq> []" by (simp add: session_payload_def)
  moreover have "safe_read (session_key r) r = Some (print_json ?p)"
    using assms(3-5) by (simp add: safe_read_def)
  moreover have "json_parse (print_json ?p) = Some ?p"
    by (rule json_parse_print) (rule wf_spread [OF assms(2)])
  moreover have "?p \<noteq> JNull" by (simp add: session_payload_def)
  ultimately show ?thesis
    using payload_revision [of "JObj kvs" s]
    by (simp add: load_live_session_def Let_def truthy_str_def opt_str_def)
qed

section \<open>Properties\<close>

text \<open>
  A saved session survives a reload. When the write took place, an instance that a later page
  creates on the same storage loads the session with all its fields and the revision at which it
  was saved. Having loaded it, that instance's next checkpoint is the revision after the saved one; an
  instance that asks for its next checkpoint before it loads repeats the saved revision.
\<close>

theorem session_survives_reload:
  assumes "field_truthy ''id'' (JObj kvs)" and "wf_json (JObj kvs)"
    and "save_live_session (JObj kvs) s \<noteq> s"
    and "create_session_state (ls_prefix s) (ls_store (save_live_session (JObj kvs) s)) owner = Inr fresh"
  shows "\<exists>v. fst (load_live_session fresh) = Some v \<and>
    json_get ''checkpointRevision'' v = Some (JNum (ls_revision s)) \<and>
    (\<forall>k. k \<noteq> ''checkpointRevision'' \<longrightarrow> json_get k v = json_get k (JObj kvs)) \<and>
    fst (next_checkpoint_revision (snd (load_live_session fresh))) = max 0 (ls_revision s) + 1 \<and>
    fst (next_checkpoint_revision fresh) = max 1 (ls_revision s)"
proof -
  have stored: "safe_read (session_key s) (save_live_session (JObj kvs) s) =
      Some (print_json (session_payload (JObj kvs) s))"
    using assms(1,3) safe_write_cases [of "session_key s" "print_json (session_payload (JObj kvs) s)" s]
    by (auto simp: save_live_session_def)
  have fresh: "session_key fresh = session_key s" "ls_store fresh = ls_store (save_live_session (JObj kvs) s)"
    "ls_revision fresh = 0"
    using assms(4) by (auto simp: create_session_state_def session_key_def split: if_splits)
  have "load_live_session r = (Some (session_payload (JObj kvs) s), r\<lparr>ls_revision := max (ls_revision r) (ls_revision s)\<rparr>)"
    if "session_key r = session_key s" "ls_store r = ls_store fresh" for r
    using save_then_load [OF assms(1,2) stored that(1)] that(2) fresh(2) by simp
  note load = this
  have "fst (load_live_session fresh) = Some (session_payload (JObj kvs) s)" using load fresh by simp
  moreover have "json_get k (session_payload (JObj kvs) s) = json_get k (JObj kvs)" if "k \<noteq> ''checkpointRevision''" for k
    using that by (simp add: session_payload_def map_of_omap_set)
  moreover have next_rev: "fst (next_checkpoint_revision r) = max (ls_revision r + 1) (ls_revision s)"
    if "session_key r = session_key s" "ls_store r = ls_store fresh" for r
    using load [of "r\<lparr>ls_revision := ls_revision r + 1\<rparr>"] that
    by (simp add: next_checkpoint_revision_def Let_def)
  have "fst (next_checkpoint_revision fresh) = max 1 (ls_revision s)"
    using next_rev [of fresh] fresh by simp
  moreover have "fst (next_checkpoint_revision (snd (load_live_session fresh))) = max 0 (ls_revision s) + 1"
    using next_rev [of "snd (load_live_session fresh)"] load [of fresh] fresh by simp
  ultimately show ?thesis using payload_revision [of "JObj kvs" s] by blast
qed

definition sample_live :: live_session where
  "sample_live = \<lparr>ls_prefix = ''imp'', ls_store = Some (empty_storage 500), ls_revision = 4, ls_owner = ''o1''\<rparr>"

lemma session_survives_reload_witness:
  "\<exists>fresh. create_session_state ''imp'' (ls_store (save_live_session (JObj [(''id'', JStr ''s1'')]) sample_live)) ''o2'' = Inr fresh \<and>
     fst (next_checkpoint_revision (snd (load_live_session fresh))) = 5 \<and> fst (next_checkpoint_revision fresh) = 4"
proof -
  let ?fresh = "\<lparr>ls_prefix = ''imp'', ls_store = ls_store (save_live_session (JObj [(''id'', JStr ''s1'')]) sample_live),
      ls_revision = 0, ls_owner = ''o2''\<rparr>"
  have 1: "field_truthy ''id'' (JObj [(''id'', JStr ''s1'')])" by (simp add: field_truthy_def)
  have 2: "wf_json (JObj [(''id'', JStr ''s1'')])" by simp
  have "map_option entries (ls_store (save_live_session (JObj [(''id'', JStr ''s1'')]) sample_live)) \<noteq>
      map_option entries (ls_store sample_live)" by code_simp
  then have 3: "save_live_session (JObj [(''id'', JStr ''s1'')]) sample_live \<noteq> sample_live" by metis
  have 4: "create_session_state (ls_prefix sample_live)
      (ls_store (save_live_session (JObj [(''id'', JStr ''s1'')]) sample_live)) ''o2'' = Inr ?fresh"
    by (simp add: create_session_state_def sample_live_def)
  have rev: "ls_revision sample_live = 4" "ls_prefix sample_live = ''imp''" by (simp_all add: sample_live_def)
  from session_survives_reload [OF 1 2 3 4] rev 4
  show ?thesis by (intro exI [of _ ?fresh]) auto
qed

text \<open>
  Marking a session handled is remembered, unless the storage refuses the write, and at most
  eight are kept: an id marked before stays unless eight others were marked since, and none is
  kept twice.
\<close>

theorem handled_ids_bounded:
  assumes "i \<noteq> []" and "mark_handled i s \<noteq> s" and "distinct (read_handled_ids s)"
  shows "is_handled i (mark_handled i s) \<and> distinct (read_handled_ids (mark_handled i s)) \<and>
    length (read_handled_ids (mark_handled i s)) \<le> 8 \<and>
    (\<forall>j. is_handled j s \<and> length (read_handled_ids s) < 8 \<longrightarrow> is_handled j (mark_handled i s))"
proof -
  let ?kept = "filter (\<lambda>x. x \<noteq> i) (read_handled_ids s)"
  have ids: "read_handled_ids (mark_handled i s) = last_n 8 (?kept @ [i])"
    by (rule mark_handled_read [OF assms(1,2)])
  have "distinct (?kept @ [i])" using assms(3) by simp
  then have "distinct (last_n 8 (?kept @ [i]))" by (rule distinct_last_n)
  moreover have "i \<in> set (last_n 8 (?kept @ [i]))" by (rule last_n_append_single) simp
  moreover have "set (last_n 8 (?kept @ [i])) = insert i (set (read_handled_ids s))" if "length (read_handled_ids s) < 8"
  proof -
    have "length ?kept < 8" using length_filter_le that by (rule le_less_trans)
    then have "last_n 8 (?kept @ [i]) = ?kept @ [i]" by (simp add: last_n_def)
    then show ?thesis by auto
  qed
  ultimately show ?thesis using assms(1) by (auto simp: ids is_handled_def)
qed

lemma handled_ids_bounded_witness:
  "is_handled ''s9'' (mark_handled ''s9'' sample_live)"
proof -
  have "map_option entries (ls_store (mark_handled ''s9'' sample_live)) \<noteq> map_option entries (ls_store sample_live)"
    by code_simp
  then have 1: "mark_handled ''s9'' sample_live \<noteq> sample_live" by metis
  have 2: "distinct (read_handled_ids sample_live)" by code_simp
  from handled_ids_bounded [OF _ 1 2] show ?thesis by simp
qed

end
