(* ===== verification/LiveDom.thy ===== *)
theory LiveDom imports Prelude begin

text \<open>
  \<open>agent/skills/impeccable/scripts/live-browser-dom.js\<close>: which elements belong to the overlay,
  which can be picked, how they are described and found. An element is its own data with its
  chain of parents; \<open>getBoundingClientRect\<close> is the rectangle it has when it is asked. The overlay's
  UI root, the document's head and body and the elements in them are lists of what was appended.
\<close>

section \<open>Elements\<close>

record rect =
  rect_x :: real
  rect_y :: real
  rect_width :: real
  rect_height :: real

definition rect_right :: "rect \<Rightarrow> real" where "rect_right r = rect_x r + rect_width r"
definition rect_bottom :: "rect \<Rightarrow> real" where "rect_bottom r = rect_y r + rect_height r"

datatype element = Element
  (tag_name: string) (el_id: string) (class_list: "string list") (node_type: nat)
  (el_rect: rect) (own_props: "string list") (parent_el: "element option")

fun ancestors :: "element \<Rightarrow> element list" where
  "ancestors (Element t i cs n r ps None) = [Element t i cs n r ps None]"
| "ancestors (Element t i cs n r ps (Some p)) = Element t i cs n r ps (Some p) # ancestors p"

section \<open>Picking\<close>

text \<open>\<open>closest\<close> begins with the element itself.\<close>

definition own :: "string \<Rightarrow> element option \<Rightarrow> bool" where
  "own prefix el =
     (case el of None \<Rightarrow> False
      | Some e \<Rightarrow> starts_with prefix (el_id e) \<or> (\<exists>a \<in> set (ancestors e). starts_with prefix (el_id a)))"

definition pickable :: "string \<Rightarrow> string list \<Rightarrow> element option \<Rightarrow> bool" where
  "pickable prefix skip_tags el =
     (case el of
        None \<Rightarrow> False
      | Some e \<Rightarrow>
          if node_type e \<noteq> 1 then False
          else if to_lower (tag_name e) \<in> set skip_tags then False
          else if own prefix el then False
          else rect_width (el_rect e) \<ge> 20 \<and> rect_height (el_rect e) \<ge> 20)"

definition desc :: "element option \<Rightarrow> string" where
  "desc el =
     (case el of
        None \<Rightarrow> []
      | Some e \<Rightarrow>
          let s = to_lower (tag_name e) in
          if el_id e \<noteq> [] then s @ ''#'' @ el_id e
          else if class_list e \<noteq> [] then s @ ''.'' @ join_with ''.'' (take 2 (class_list e))
          else s)"

definition rect_is_usable_anchor :: "rect option \<Rightarrow> bool" where
  "rect_is_usable_anchor r =
     (case r of None \<Rightarrow> False | Some q \<Rightarrow> rect_width q > 1 / 2 \<and> rect_height q > 1 / 2)"

record frozen_anchor =
  fa_tag :: string
  fa_id :: string
  fa_classes :: "string list"
  fa_rect :: rect

definition make_frozen_anchor :: "element option \<Rightarrow> frozen_anchor option" where
  "make_frozen_anchor el =
     (case el of
        None \<Rightarrow> None
      | Some e \<Rightarrow>
          if \<not> rect_is_usable_anchor (Some (el_rect e)) then None
          else Some \<lparr>fa_tag = str_or (tag_name e) ''DIV'', fa_id = el_id e, fa_classes = class_list e,
                     fa_rect = el_rect e\<rparr>)"

definition hmr_key :: "string \<Rightarrow> bool" where
  "hmr_key key \<longleftrightarrow>
     starts_with ''__reactFiber$'' key \<or> starts_with ''__reactProps$'' key \<or>
     starts_with ''__reactContainer$'' key \<or>
     key \<in> {''_reactRootContainer'', ''__vueParentComponent'', ''__vue_app__'', ''__vnode'', ''__svelte_meta''}"

definition has_framework_hmr_ownership :: "element option \<Rightarrow> bool" where
  "has_framework_hmr_ownership el =
     (case el of None \<Rightarrow> False
      | Some e \<Rightarrow> \<exists>node \<in> set (ancestors e). \<exists>key \<in> set (own_props node). hmr_key key)"

section \<open>Identifiers\<close>

text \<open>\<open>uuid\<close> is what \<open>crypto.randomUUID()\<close> returned, \<open>None\<close> without it; then the two hexadecimal texts.\<close>

definition id8 :: "string option \<Rightarrow> string \<Rightarrow> string \<Rightarrow> string" where
  "id8 uuid random_hex time_hex =
     (case uuid of
        Some u \<Rightarrow> take 8 (filter (\<lambda>c. c \<noteq> CHR ''-'') u)
      | None \<Rightarrow> take 8 (random_hex @ time_hex))"

definition css_special :: "char \<Rightarrow> bool" where
  "css_special c \<longleftrightarrow>
     (let n = of_char c :: nat in
      32 \<le> n \<and> n \<le> 44 \<or> n \<in> {46, 47} \<or> 58 \<le> n \<and> n \<le> 64 \<or> 91 \<le> n \<and> n \<le> 94 \<or> n = 96 \<or> 123 \<le> n \<and> n \<le> 126)"

definition the_backslash :: char where "the_backslash = CHR 0x5C"

text \<open>\<open>escape\<close> is \<open>CSS.escape\<close> where the browser has it.\<close>

definition css_id :: "(string \<Rightarrow> string) option \<Rightarrow> string \<Rightarrow> string" where
  "css_id escape i =
     (case escape of
        Some f \<Rightarrow> f i
      | None \<Rightarrow> concat (map (\<lambda>c. if css_special c then [the_backslash, c] else [c]) i))"

text \<open>How a selector reads such a text: a backslash stands for the character after it.\<close>

fun css_unescape :: "string \<Rightarrow> string" where
  "css_unescape [] = []"
| "css_unescape [c] = [c]"
| "css_unescape (c # d # s) = (if c = the_backslash then d # css_unescape s else c # css_unescape (d # s))"

section \<open>The overlay's root\<close>

record dom =
  ui_root :: "element list option"
  doc_body :: "element list"
  doc_head :: "element list"

definition ui_append :: "element \<Rightarrow> dom \<Rightarrow> dom" where
  "ui_append e d =
     (case ui_root d of
        Some es \<Rightarrow> d\<lparr>ui_root := Some (es @ [e])\<rparr>
      | None \<Rightarrow> d\<lparr>doc_body := doc_body d @ [e]\<rparr>)"

definition ui_append_style :: "element \<Rightarrow> dom \<Rightarrow> dom" where
  "ui_append_style e d =
     (case ui_root d of
        Some es \<Rightarrow> d\<lparr>ui_root := Some (es @ [e])\<rparr>
      | None \<Rightarrow> d\<lparr>doc_head := doc_head d @ [e]\<rparr>)"

definition by_id :: "string \<Rightarrow> element list \<Rightarrow> element option" where
  "by_id i es = (if i = [] then None else List.find (\<lambda>e. el_id e = i) es)"

definition ui_get_by_id :: "string \<Rightarrow> dom \<Rightarrow> element option" where
  "ui_get_by_id i d =
     (let in_doc = by_id i (doc_head d @ doc_body d) in
      case ui_root d of
        None \<Rightarrow> in_doc
      | Some es \<Rightarrow> (case by_id i es of Some e \<Rightarrow> Some e | None \<Rightarrow> in_doc))"

text \<open>A focused element with the focus inside its shadow root, when it has one.\<close>

datatype focus = Focus (focused: element) (inner: "focus option")

fun active_element_deep :: "focus \<Rightarrow> element" where
  "active_element_deep (Focus e None) = e"
| "active_element_deep (Focus e (Some f)) = active_element_deep f"

record guarded =
  pointer_events :: "string option"
  stopped_events :: "string list"

definition defang_outside_handlers :: "bool \<Rightarrow> guarded \<Rightarrow> guarded" where
  "defang_outside_handlers set_pointer_events g =
     (let g1 = (if set_pointer_events then g\<lparr>pointer_events := Some ''auto !important''\<rparr> else g)
      in g1\<lparr>stopped_events := stopped_events g1 @ [''pointerdown'', ''mousedown'', ''focusin'']\<rparr>)"

section \<open>Lemmas\<close>

lemma self_ancestor: "e \<in> set (ancestors e)"
  by (cases e rule: ancestors.cases) simp_all

lemma own_iff: "own prefix (Some e) \<longleftrightarrow> (\<exists>a \<in> set (ancestors e). starts_with prefix (el_id a))"
  using self_ancestor [of e] by (auto simp: own_def)

lemma parent_ancestors: "parent_el e = Some p \<Longrightarrow> set (ancestors e) = insert e (set (ancestors p))"
  by (cases e rule: ancestors.cases) simp_all

lemma css_special_backslash: "css_special the_backslash"
  by (simp add: css_special_def the_backslash_def)

lemma css_unescape_step:
  "css_unescape ((if css_special c then [the_backslash, c] else [c]) @ s) = c # css_unescape s"
  using css_special_backslash by (cases s) auto

section \<open>Properties\<close>

text \<open>
  Nothing of the overlay can be picked: an element whose id, or any ancestor's, begins with the
  overlay's prefix is its own, whatever its size, and so is every child of such an element.
\<close>

theorem own_never_pickable:
  assumes "starts_with prefix (el_id a)" and "a \<in> set (ancestors e)"
  shows "\<not> pickable prefix skip_tags (Some e) \<and>
    (\<forall>child. parent_el child = Some e \<longrightarrow> \<not> pickable prefix skip_tags (Some child))"
proof -
  have "own prefix (Some e)" using assms by (auto simp: own_iff)
  moreover have "own prefix (Some child)" if "parent_el child = Some e" for child
    using assms parent_ancestors [OF that] by (auto simp: own_iff)
  ultimately show ?thesis by (simp add: pickable_def)
qed

definition box :: rect where "box = \<lparr>rect_x = 0, rect_y = 0, rect_width = 300, rect_height = 200\<rparr>"

lemma own_never_pickable_witness:
  "pickable ''imp-'' [''html''] (Some (Element ''DIV'' ''main'' [] 1 box [] None)) \<and>
   \<not> pickable ''imp-'' [''html''] (Some (Element ''B'' [] [] 1 box [] (Some (Element ''DIV'' ''imp-bar'' [] 1 box [] None))))"
proof -
  have "starts_with ''imp-'' (el_id (Element ''DIV'' ''imp-bar'' [] 1 box [] None))" by (simp add: starts_with_def)
  from own_never_pickable [OF this, of "Element ''B'' [] [] 1 box [] (Some (Element ''DIV'' ''imp-bar'' [] 1 box [] None))" "[''html'']"]
  show ?thesis by (simp add: pickable_def own_def starts_with_def box_def to_lower_def lower_char_def)
qed

text \<open>
  Without \<open>CSS.escape\<close> the overlay's own escaping still names the element: a selector reads
  the escaped text back as the id, whatever characters it has.
\<close>

theorem css_id_names_element: "css_unescape (css_id None i) = i"
proof (induction i)
  case (Cons c i)
  then show ?case using css_unescape_step [of c "css_id None i"] by (simp add: css_id_def)
qed (simp add: css_id_def)

end
