(* ===== verification/LiveIgnores.thy ===== *)
theory LiveIgnores imports Services begin

text \<open>
  \<open>agent/skills/impeccable/scripts/live-browser-ignores.js\<close>: which detector findings a page's
  project waives. The regular expression that \<open>globToRegex\<close> builds is kept as the list of pieces it
  consists of; \<open>None\<close> is the \<open>SyntaxError\<close> of \<open>new RegExp\<close>. Inside braces \<open>*\<close> and \<open>?\<close> reach the
  regular expression unescaped, so there they are its quantifiers. The configuration is the JSON
  value the server serialized, in whatever shape. \<open>String(x)\<close> of a number with a fraction is its
  literal.
\<close>

section \<open>Normalization\<close>

fun js_string :: "json \<Rightarrow> string" and js_element :: "json \<Rightarrow> string" where
  "js_string JNull = ''null''"
| "js_string (JBool b) = (if b then ''true'' else ''false'')"
| "js_string (JNum n) = show_int n"
| "js_string (JFrac t) = t"
| "js_string (JStr s) = s"
| "js_string (JArr vs) = join_with '','' (map js_element vs)"
| "js_string (JObj kvs) = ''[object Object]''"
| "js_element v = (if v = JNull then [] else js_string v)"

definition string_or_empty :: "json option \<Rightarrow> string" where
  "string_or_empty v = (case v of None \<Rightarrow> [] | Some x \<Rightarrow> if json_truthy x then js_string x else [])"

definition normalize_ignore_rule :: "json option \<Rightarrow> string" where
  "normalize_ignore_rule rule = to_lower (trim (string_or_empty rule))"

definition quote_mark :: "char \<Rightarrow> bool" where
  "quote_mark c \<longleftrightarrow> of_char c \<in> {34, 39 :: nat}"

definition unquote :: "string \<Rightarrow> string" where
  "unquote s =
     (let s1 = (if s \<noteq> [] \<and> quote_mark (hd s) then tl s else s) in
      if s1 \<noteq> [] \<and> quote_mark (last s1) then butlast s1 else s1)"

text \<open>\<open>replace(/\s+/g, ' ')\<close>; the flag tells whether the character before was white space.\<close>

fun collapse_space :: "bool \<Rightarrow> string \<Rightarrow> string" where
  "collapse_space after [] = []"
| "collapse_space after (c # s) =
     (if white_space c then (if after then [] else '' '') @ collapse_space True s
      else c # collapse_space False s)"

definition normalize_ignore_value :: "json option \<Rightarrow> string" where
  "normalize_ignore_value value =
     to_lower (collapse_space False (map (\<lambda>c. if c = CHR ''+'' then CHR '' '' else c)
       (unquote (trim (string_or_empty value)))))"

section \<open>Globs\<close>

datatype quantifier = Once | Star | Maybe

type_synonym part = "(char \<times> quantifier) list"

datatype piece = Any_path | Any_segment | Any_char | Lit char | Group "part list"

definition re_special :: "char \<Rightarrow> bool" where
  "re_special c \<longleftrightarrow> c \<in> set ''.+^$()|[]'' \<or> of_char c = (92 :: nat)"

definition drop_char :: "char \<Rightarrow> string \<Rightarrow> string" where
  "drop_char c s = (case s of [] \<Rightarrow> [] | l # r \<Rightarrow> if l = c then r else s)"

lemma drop_char_length [termination_simp]:
  "length (drop_char c s) < Suc (length s)" "length (drop_char c s) < Suc (Suc (length s))"
  by (auto simp: drop_char_def split: list.split)

definition after_brace :: "string \<Rightarrow> string" where
  "after_brace s = tl (dropWhile (\<lambda>x. x \<noteq> CHR ''}'') s)"

lemma after_brace_length [termination_simp]: "length (after_brace s) < Suc (length s)"
  using length_dropWhile_le [of "\<lambda>x. x \<noteq> CHR ''}''" s] by (simp add: after_brace_def)

text \<open>
  One alternative of a brace group as the regular expression reads it: an atom with an optional
  quantifier, which a second \<open>?\<close> makes lazy. A quantifier with nothing before it is an error.
\<close>

fun parse_part :: "string \<Rightarrow> part option" where
  "parse_part [] = Some []"
| "parse_part [c] = (if c = CHR ''*'' \<or> c = CHR ''?'' then None else Some [(c, Once)])"
| "parse_part (c # q # s) =
     (if c = CHR ''*'' \<or> c = CHR ''?'' then None
      else if q = CHR ''*'' \<or> q = CHR ''?'' then
        map_option (\<lambda>p. (c, if q = CHR ''*'' then Star else Maybe) # p)
          (parse_part (drop_char (CHR ''?'') s))
      else map_option (\<lambda>p. (c, Once) # p) (parse_part (q # s)))"

fun all_some :: "'a option list \<Rightarrow> 'a list option" where
  "all_some [] = Some []"
| "all_some (x # xs) =
     (case x of None \<Rightarrow> None | Some a \<Rightarrow> map_option (\<lambda>r. a # r) (all_some xs))"

fun glob_to_regex :: "string \<Rightarrow> piece list option" where
  "glob_to_regex [] = Some []"
| "glob_to_regex (c # s) =
     (if c = CHR ''*'' then
        (case s of
           d # r \<Rightarrow>
             if d = CHR ''*'' then
               map_option (\<lambda>ps. Any_path # ps)
                 (glob_to_regex (drop_char (CHR ''/'') r))
             else map_option (\<lambda>ps. Any_segment # ps) (glob_to_regex s)
         | [] \<Rightarrow> Some [Any_segment])
      else if c = CHR ''?'' then map_option (\<lambda>ps. Any_char # ps) (glob_to_regex s)
      else if c = CHR ''{'' then
        (if CHR ''}'' \<notin> set s then map_option (\<lambda>ps. Lit c # ps) (glob_to_regex s)
         else
           (case all_some (map parse_part (split_on (CHR '','') (takeWhile (\<lambda>x. x \<noteq> CHR ''}'') s))) of
              None \<Rightarrow> None
            | Some parts \<Rightarrow>
                map_option (\<lambda>ps. Group parts # ps)
                  (glob_to_regex (after_brace s))))
      else map_option (\<lambda>ps. Lit c # ps) (glob_to_regex s))"

section \<open>Matching\<close>

definition line_break :: "char \<Rightarrow> bool" where
  "line_break c \<longleftrightarrow> of_char c \<in> {10, 13 :: nat}"

fun part_matches :: "part \<Rightarrow> string \<Rightarrow> bool" where
  "part_matches [] s \<longleftrightarrow> s = []"
| "part_matches ((c, Once) # p) s \<longleftrightarrow> (case s of [] \<Rightarrow> False | x # r \<Rightarrow> x = c \<and> part_matches p r)"
| "part_matches ((c, Maybe) # p) s \<longleftrightarrow>
     part_matches p s \<or> (case s of [] \<Rightarrow> False | x # r \<Rightarrow> x = c \<and> part_matches p r)"
| "part_matches ((c, Star) # p) s \<longleftrightarrow>
     part_matches p s \<or> (case s of [] \<Rightarrow> False | x # r \<Rightarrow> x = c \<and> part_matches ((c, Star) # p) r)"

fun regex_matches :: "piece list \<Rightarrow> string \<Rightarrow> bool" where
  "regex_matches [] s \<longleftrightarrow> s = []"
| "regex_matches (Lit c # ps) s \<longleftrightarrow> (case s of [] \<Rightarrow> False | x # r \<Rightarrow> x = c \<and> regex_matches ps r)"
| "regex_matches (Any_char # ps) s \<longleftrightarrow>
     (case s of [] \<Rightarrow> False | x # r \<Rightarrow> x \<noteq> CHR ''/'' \<and> regex_matches ps r)"
| "regex_matches (Any_segment # ps) s \<longleftrightarrow>
     regex_matches ps s \<or>
     (case s of [] \<Rightarrow> False | x # r \<Rightarrow> x \<noteq> CHR ''/'' \<and> regex_matches (Any_segment # ps) r)"
| "regex_matches (Any_path # ps) s \<longleftrightarrow>
     regex_matches ps s \<or>
     (case s of [] \<Rightarrow> False | x # r \<Rightarrow> \<not> line_break x \<and> regex_matches (Any_path # ps) r)"
| "regex_matches (Group parts # ps) s \<longleftrightarrow>
     list_ex (\<lambda>k. list_ex (\<lambda>p. part_matches p (take k s)) parts \<and> regex_matches ps (drop k s))
       [0..<Suc (length s)]"

definition matches_scope :: "string list \<Rightarrow> string list \<Rightarrow> bool" where
  "matches_scope globs candidates \<longleftrightarrow>
     (\<exists>glob \<in> set globs.
        case glob_to_regex glob of
          None \<Rightarrow> False
        | Some ps \<Rightarrow> \<exists>candidate \<in> set candidates. regex_matches ps candidate)"

section \<open>The page's names\<close>

fun continuation :: "nat \<Rightarrow> string \<Rightarrow> string option" where
  "continuation 0 s = Some s"
| "continuation (Suc n) [] = None"
| "continuation (Suc n) (c # s) =
     (if 128 \<le> (of_char c :: nat) \<and> (of_char c :: nat) < 192 then continuation n s else None)"

definition second_ok :: "nat \<Rightarrow> string \<Rightarrow> bool" where
  "second_ok lead s =
     (case s of [] \<Rightarrow> False
      | c # _ \<Rightarrow>
          let n = of_char c :: nat in
          (lead = 224 \<longrightarrow> 160 \<le> n) \<and> (lead = 237 \<longrightarrow> n < 160) \<and>
          (lead = 240 \<longrightarrow> 144 \<le> n) \<and> (lead = 244 \<longrightarrow> n < 144))"

lemma continuation_length: "continuation n s = Some r \<Longrightarrow> length r \<le> length s"
  by (induction n s rule: continuation.induct) (auto split: if_splits)

text \<open>Well-formed UTF-8, what \<open>decodeURIComponent\<close> demands of the escaped bytes.\<close>

function (sequential) utf8_ok :: "string \<Rightarrow> bool" where
  "utf8_ok [] \<longleftrightarrow> True"
| "utf8_ok (c # s) \<longleftrightarrow>
     (let n = of_char c :: nat in
      if n < 128 then utf8_ok s
      else if 194 \<le> n \<and> n < 224 then (case continuation 1 s of None \<Rightarrow> False | Some r \<Rightarrow> utf8_ok r)
      else if 224 \<le> n \<and> n < 240 then
        second_ok n s \<and> (case continuation 2 s of None \<Rightarrow> False | Some r \<Rightarrow> utf8_ok r)
      else if 240 \<le> n \<and> n < 245 then
        second_ok n s \<and> (case continuation 3 s of None \<Rightarrow> False | Some r \<Rightarrow> utf8_ok r)
      else False)"
  by pat_completeness auto

termination
  by (relation "measure length") (auto dest: continuation_length)

definition js_decode :: "string \<Rightarrow> string option" where
  "js_decode s =
     (case decode_uri_component s of
        None \<Rightarrow> None | Some t \<Rightarrow> if utf8_ok t then Some t else None)"

text \<open>Lines 119 to 128.\<close>

definition page_path :: "string \<Rightarrow> string" where
  "page_path pathname =
     (let decoded = (case js_decode pathname of None \<Rightarrow> pathname | Some t \<Rightarrow> t);
          p = dropWhile (\<lambda>c. c = CHR ''/'') decoded
      in if p = [] \<or> last p = CHR ''/'' then p @ ''index.html'' else p)"

definition segments :: "string \<Rightarrow> string list" where
  "segments path = filter (\<lambda>p. p \<noteq> []) (split_on (CHR ''/'') path)"

fun suffixes_of :: "'a list \<Rightarrow> 'a list list" where
  "suffixes_of [] = []"
| "suffixes_of (x # xs) = (x # xs) # suffixes_of xs"

definition path_suffixes :: "string \<Rightarrow> string list" where
  "path_suffixes path = map (join_with ''/'') (suffixes_of (segments path))"

fun common_prefix :: "'a list \<Rightarrow> 'a list \<Rightarrow> 'a list" where
  "common_prefix (x # xs) (y # ys) = (if x = y then x # common_prefix xs ys else [])"
| "common_prefix _ _ = []"

definition json_strings :: "json option \<Rightarrow> string list" where
  "json_strings v =
     (case Option.bind v json_arr of None \<Rightarrow> [] | Some vs \<Rightarrow> List.map_filter json_str vs)"

definition known_pages :: "string \<Rightarrow> json option \<Rightarrow> string list" where
  "known_pages path page_files =
     filter (\<lambda>e. e \<noteq> [] \<and> (e = path \<or> ends_with (CHR ''/'' # path) e)) (json_strings page_files)"

definition common_root :: "json option \<Rightarrow> string list" where
  "common_root roots =
     (case map segments (json_strings roots) of [] \<Rightarrow> [] | p # ps \<Rightarrow> foldl common_prefix p ps)"

definition page_candidates :: "string \<Rightarrow> json option \<Rightarrow> json option \<Rightarrow> string list" where
  "page_candidates pathname roots page_files =
     (let path = page_path pathname; known = known_pages path page_files in
      if length known = 1 then dedupe (path_suffixes path @ path_suffixes (hd known))
      else if common_root roots \<noteq> []
      then dedupe (path_suffixes path @
             path_suffixes (join_with ''/'' (common_root roots) @ ''/'' @ path))
      else dedupe (path_suffixes path))"

section \<open>Resolving\<close>

record detect_ignores =
  disabled_rules :: "string list"
  disabled_values :: "(string \<times> string) list"
  skip_scan :: bool

definition config_field :: "json option \<Rightarrow> string \<Rightarrow> json option" where
  "config_field ignores key = Option.bind ignores (json_get key)"

definition not_blank :: "string \<Rightarrow> bool" where
  "not_blank s \<longleftrightarrow> trim s \<noteq> []"

definition entry_files :: "json \<Rightarrow> string list" where
  "entry_files e =
     (case Option.bind (json_get ''file'' e) json_str of
        None \<Rightarrow> [] | Some f \<Rightarrow> if not_blank f then [trim f] else []) @
     filter not_blank (json_strings (json_get ''files'' e))"

definition set_add :: "'a \<Rightarrow> 'a list \<Rightarrow> 'a list" where
  "set_add x xs = (if x \<in> set xs then xs else xs @ [x])"

definition resolve_entry :: "string list \<Rightarrow> detect_ignores \<Rightarrow> json \<Rightarrow> detect_ignores" where
  "resolve_entry candidates acc e =
     (let rule = normalize_ignore_rule (json_get ''rule'' e);
          value = normalize_ignore_value (json_get ''value'' e);
          fs = entry_files e
      in if rule = [] \<or> value = [] then acc
         else if value = ''*''
         then (if fs \<noteq> [] \<and> matches_scope fs candidates
               then acc\<lparr>disabled_rules := set_add rule (disabled_rules acc)\<rparr> else acc)
         else if fs \<noteq> [] \<and> \<not> matches_scope fs candidates then acc
         else acc\<lparr>disabled_values := disabled_values acc @ [(rule, value)]\<rparr>)"

definition ignore_rules :: "json option \<Rightarrow> string list" where
  "ignore_rules ignores =
     filter (\<lambda>r. r \<noteq> [])
       (map (\<lambda>r. normalize_ignore_rule (Some (JStr r))) (json_strings (config_field ignores ''ignoreRules'')))"

definition resolve_detect_ignores :: "json option \<Rightarrow> string \<Rightarrow> detect_ignores" where
  "resolve_detect_ignores ignores pathname =
     (let candidates = page_candidates pathname (config_field ignores ''roots'') (config_field ignores ''pageFiles'');
          globs = filter not_blank (json_strings (config_field ignores ''ignoreFiles''))
      in if globs \<noteq> [] \<and> matches_scope globs candidates
         then \<lparr>disabled_rules = [], disabled_values = [], skip_scan = True\<rparr>
         else foldl (resolve_entry candidates)
                \<lparr>disabled_rules = dedupe (ignore_rules ignores), disabled_values = [], skip_scan = False\<rparr>
                (case Option.bind (config_field ignores ''ignoreValues'') json_arr of
                   None \<Rightarrow> [] | Some es \<Rightarrow> es))"

section \<open>Lemmas\<close>

text \<open>The texts one piece stands for.\<close>

fun piece_lang :: "piece \<Rightarrow> string \<Rightarrow> bool" where
  "piece_lang Any_path w \<longleftrightarrow> (\<forall>c \<in> set w. \<not> line_break c)"
| "piece_lang Any_segment w \<longleftrightarrow> CHR ''/'' \<notin> set w"
| "piece_lang Any_char w \<longleftrightarrow> (\<exists>c. w = [c] \<and> c \<noteq> CHR ''/'')"
| "piece_lang (Lit c) w \<longleftrightarrow> w = [c]"
| "piece_lang (Group parts) w \<longleftrightarrow> (\<exists>p \<in> set parts. part_matches p w)"

definition regex_lang :: "piece list \<Rightarrow> string \<Rightarrow> bool" where
  "regex_lang ps s \<longleftrightarrow> (\<exists>ws. list_all2 piece_lang ps ws \<and> s = concat ws)"

lemma regex_lang_Nil: "regex_lang [] s \<longleftrightarrow> s = []"
  by (auto simp: regex_lang_def)

lemma regex_lang_Cons: "regex_lang (p # ps) s \<longleftrightarrow> (\<exists>w r. piece_lang p w \<and> s = w @ r \<and> regex_lang ps r)"
  unfolding regex_lang_def list_all2_Cons1 by fastforce

lemma star_unfold:
  assumes "\<And>w. piece_lang p w \<longleftrightarrow> (\<forall>c \<in> set w. ok c)"
  shows "regex_lang (p # ps) s \<longleftrightarrow>
    regex_lang ps s \<or> (case s of [] \<Rightarrow> False | x # r \<Rightarrow> ok x \<and> regex_lang (p # ps) r)"
proof
  assume "regex_lang (p # ps) s"
  then obtain w r where w: "\<forall>c \<in> set w. ok c" "s = w @ r" "regex_lang ps r"
    by (auto simp: regex_lang_Cons assms)
  show "regex_lang ps s \<or> (case s of [] \<Rightarrow> False | x # r \<Rightarrow> ok x \<and> regex_lang (p # ps) r)"
  proof (cases w)
    case (Cons x w')
    then have "piece_lang p w'" using w(1) by (simp add: assms)
    with w Cons show ?thesis by (auto simp: regex_lang_Cons)
  qed (use w in simp)
next
  assume "regex_lang ps s \<or> (case s of [] \<Rightarrow> False | x # r \<Rightarrow> ok x \<and> regex_lang (p # ps) r)"
  then show "regex_lang (p # ps) s"
  proof
    assume "regex_lang ps s"
    moreover have "piece_lang p []" by (simp add: assms)
    ultimately show ?thesis
      unfolding regex_lang_Cons by (intro exI [of _ "[]"] exI [of _ s]) simp
  next
    assume "case s of [] \<Rightarrow> False | x # r \<Rightarrow> ok x \<and> regex_lang (p # ps) r"
    then obtain x w r where s: "s = x # w @ r" "ok x" "piece_lang p w" "regex_lang ps r"
      by (auto simp: regex_lang_Cons split: list.splits)
    then have "piece_lang p (x # w)" by (simp add: assms)
    with s show ?thesis unfolding regex_lang_Cons by (metis append_Cons)
  qed
qed

lemma one_unfold:
  assumes "\<And>w. piece_lang p w \<longleftrightarrow> (\<exists>c. w = [c] \<and> ok c)"
  shows "regex_lang (p # ps) s \<longleftrightarrow> (case s of [] \<Rightarrow> False | x # r \<Rightarrow> ok x \<and> regex_lang ps r)"
proof
  assume "regex_lang (p # ps) s"
  then obtain c r where "ok c" "s = [c] @ r" "regex_lang ps r"
    unfolding regex_lang_Cons assms by blast
  then show "case s of [] \<Rightarrow> False | x # r \<Rightarrow> ok x \<and> regex_lang ps r" by simp
next
  assume "case s of [] \<Rightarrow> False | x # r \<Rightarrow> ok x \<and> regex_lang ps r"
  then obtain x r where x: "s = [x] @ r" "ok x" "regex_lang ps r" by (auto split: list.splits)
  then have "piece_lang p [x]" by (simp add: assms)
  with x show "regex_lang (p # ps) s" unfolding regex_lang_Cons by blast
qed

lemma regex_matches_lang: "regex_matches ps s \<longleftrightarrow> regex_lang ps s"
proof (induction ps s rule: regex_matches.induct)
  case (1 s)
  then show ?case by (simp add: regex_lang_Nil)
next
  case (2 c ps s)
  have lit: "piece_lang (Lit c) w \<longleftrightarrow> (\<exists>x. w = [x] \<and> x = c)" for w by auto
  from 2 show ?case unfolding one_unfold [OF lit, of ps s] by (cases s) simp_all
next
  case (3 ps s)
  have one: "piece_lang Any_char w \<longleftrightarrow> (\<exists>x. w = [x] \<and> x \<noteq> CHR ''/'')" for w by simp
  from 3 show ?case unfolding one_unfold [OF one, of ps s] by (cases s) simp_all
next
  case (4 ps s)
  have seg: "piece_lang Any_segment w \<longleftrightarrow> (\<forall>c \<in> set w. c \<noteq> CHR ''/'')" for w by auto
  from 4 show ?case unfolding star_unfold [OF seg, of ps s] by (cases s) simp_all
next
  case (5 ps s)
  have path: "piece_lang Any_path w \<longleftrightarrow> (\<forall>c \<in> set w. \<not> line_break c)" for w by simp
  from 5 show ?case unfolding star_unfold [OF path, of ps s] by (cases s) simp_all
next
  case (6 parts ps s)
  have "(\<exists>k \<in> {0..<Suc (length s)}. piece_lang (Group parts) (take k s) \<and> regex_lang ps (drop k s)) \<longleftrightarrow>
      regex_lang (Group parts # ps) s"
  proof
    assume "\<exists>k \<in> {0..<Suc (length s)}. piece_lang (Group parts) (take k s) \<and> regex_lang ps (drop k s)"
    then show "regex_lang (Group parts # ps) s"
      unfolding regex_lang_Cons by (metis append_take_drop_id)
  next
    assume "regex_lang (Group parts # ps) s"
    then obtain w r where w: "piece_lang (Group parts) w" "s = w @ r" "regex_lang ps r"
      unfolding regex_lang_Cons by blast
    then have "take (length w) s = w" "drop (length w) s = r" "length w \<in> {0..<Suc (length s)}" by simp_all
    with w show "\<exists>k \<in> {0..<Suc (length s)}. piece_lang (Group parts) (take k s) \<and> regex_lang ps (drop k s)"
      by metis
  qed
  moreover have "regex_matches (Group parts # ps) s \<longleftrightarrow>
      (\<exists>k \<in> {0..<Suc (length s)}. piece_lang (Group parts) (take k s) \<and> regex_lang ps (drop k s))"
    using 6 by (auto simp: list_ex_iff simp del: upt_Suc)
  ultimately show ?case by blast
qed

definition plain_glob :: "string \<Rightarrow> bool" where
  "plain_glob g \<longleftrightarrow> CHR ''*'' \<notin> set g \<and> CHR ''?'' \<notin> set g \<and> CHR ''{'' \<notin> set g"

lemma plain_glob_pieces: "plain_glob g \<Longrightarrow> glob_to_regex g = Some (map Lit g)"
  by (induction g) (auto simp: plain_glob_def)

lemma regex_matches_lits: "regex_matches (map Lit g) s \<longleftrightarrow> s = g"
proof (induction g arbitrary: s)
  case (Cons c g)
  then show ?case by (cases s) auto
qed simp

lemma suffixes_of_iff: "ys \<in> set (suffixes_of xs) \<longleftrightarrow> ys \<noteq> [] \<and> (\<exists>zs. xs = zs @ ys)"
proof (induction xs)
  case (Cons x xs)
  then show ?case by (auto simp: Cons_eq_append_conv)
qed simp

definition entries_of :: "json option \<Rightarrow> json list" where
  "entries_of ignores = (case Option.bind (config_field ignores ''ignoreValues'') json_arr of None \<Rightarrow> [] | Some es \<Rightarrow> es)"

definition candidates_of :: "json option \<Rightarrow> string \<Rightarrow> string list" where
  "candidates_of ignores pathname =
     page_candidates pathname (config_field ignores ''roots'') (config_field ignores ''pageFiles'')"

lemma resolve_entries_rules:
  "set (disabled_rules (foldl (resolve_entry cs) acc es)) =
   set (disabled_rules acc) \<union>
   {normalize_ignore_rule (json_get ''rule'' e) |e. e \<in> set es \<and> normalize_ignore_rule (json_get ''rule'' e) \<noteq> [] \<and>
      normalize_ignore_value (json_get ''value'' e) = ''*'' \<and> entry_files e \<noteq> [] \<and> matches_scope (entry_files e) cs}"
proof (induction es arbitrary: acc)
  case (Cons e es)
  have "set (disabled_rules (resolve_entry cs acc e)) = set (disabled_rules acc) \<union>
      (if normalize_ignore_rule (json_get ''rule'' e) \<noteq> [] \<and> normalize_ignore_value (json_get ''value'' e) = ''*'' \<and>
          entry_files e \<noteq> [] \<and> matches_scope (entry_files e) cs
       then {normalize_ignore_rule (json_get ''rule'' e)} else {})"
    by (auto simp: resolve_entry_def Let_def set_add_def)
  with Cons show ?case by auto
qed simp

lemma resolve_entries_values:
  "set (disabled_values (foldl (resolve_entry cs) acc es)) =
   set (disabled_values acc) \<union>
   {(normalize_ignore_rule (json_get ''rule'' e), normalize_ignore_value (json_get ''value'' e)) |e. e \<in> set es \<and>
      normalize_ignore_rule (json_get ''rule'' e) \<noteq> [] \<and> normalize_ignore_value (json_get ''value'' e) \<noteq> [] \<and>
      normalize_ignore_value (json_get ''value'' e) \<noteq> ''*'' \<and>
      (entry_files e = [] \<or> matches_scope (entry_files e) cs)}"
proof (induction es arbitrary: acc)
  case (Cons e es)
  let ?r = "normalize_ignore_rule (json_get ''rule'' e)" and ?v = "normalize_ignore_value (json_get ''value'' e)"
  have "set (disabled_values (resolve_entry cs acc e)) = set (disabled_values acc) \<union>
      (if ?r \<noteq> [] \<and> ?v \<noteq> [] \<and> ?v \<noteq> ''*'' \<and> (entry_files e = [] \<or> matches_scope (entry_files e) cs)
       then {(?r, ?v)} else {})"
    by (auto simp: resolve_entry_def Let_def)
  with Cons show ?case by auto
qed simp

lemma resolve_entries_scan: "skip_scan (foldl (resolve_entry cs) acc es) = skip_scan acc"
proof (induction es arbitrary: acc)
  case (Cons e es)
  have "skip_scan (resolve_entry cs acc e) = skip_scan acc" by (simp add: resolve_entry_def Let_def)
  with Cons show ?case by simp
qed simp

section \<open>Properties\<close>



text \<open>
  What a page's project waives, from nothing but its configuration: a rule is off when
  \<open>ignoreRules\<close> names it or a wildcard entry does whose globs name the page, never by a wildcard
  without globs; a value is off when its entry has no globs or one that names the page; and a
  wildcard is never forwarded as a value.
\<close>

theorem resolve_ignores_spec:
  assumes "\<not> skip_scan (resolve_detect_ignores ignores pathname)"
  shows "set (disabled_rules (resolve_detect_ignores ignores pathname)) =
      set (ignore_rules ignores) \<union>
      {normalize_ignore_rule (json_get ''rule'' e) |e. e \<in> set (entries_of ignores) \<and>
        normalize_ignore_rule (json_get ''rule'' e) \<noteq> [] \<and> normalize_ignore_value (json_get ''value'' e) = ''*'' \<and>
        entry_files e \<noteq> [] \<and> matches_scope (entry_files e) (candidates_of ignores pathname)} \<and>
    (\<forall>r v. (r, v) \<in> set (disabled_values (resolve_detect_ignores ignores pathname)) \<longleftrightarrow>
      (\<exists>e \<in> set (entries_of ignores). r = normalize_ignore_rule (json_get ''rule'' e) \<and>
        v = normalize_ignore_value (json_get ''value'' e) \<and> r \<noteq> [] \<and> v \<noteq> [] \<and> v \<noteq> ''*'' \<and>
        (entry_files e = [] \<or> matches_scope (entry_files e) (candidates_of ignores pathname))))"
proof -
  have eq: "resolve_detect_ignores ignores pathname =
      foldl (resolve_entry (candidates_of ignores pathname))
        \<lparr>disabled_rules = dedupe (ignore_rules ignores), disabled_values = [], skip_scan = False\<rparr> (entries_of ignores)"
    using assms by (auto simp: resolve_detect_ignores_def Let_def candidates_of_def entries_of_def split: if_splits)
  show ?thesis unfolding eq resolve_entries_rules resolve_entries_values by auto
qed

definition sample_ignores :: json where
  "sample_ignores = JObj [(''ignoreRules'', JArr [JStr '' Contrast '']),
     (''ignoreValues'', JArr [JObj [(''rule'', JStr ''fonts''), (''value'', JStr ''*''), (''file'', JStr ''docs/*.html'')],
        JObj [(''rule'', JStr ''gaps''), (''value'', JStr ''*'')],
        JObj [(''rule'', JStr ''gaps''), (''value'', JStr ''12px'')]])]"

lemma resolve_ignores_spec_witness:
  "set (disabled_rules (resolve_detect_ignores (Some sample_ignores) ''/docs/'')) \<supseteq> {''contrast''} \<and>
   disabled_rules (resolve_detect_ignores (Some sample_ignores) ''/docs/'') = [''contrast'', ''fonts''] \<and>
   disabled_values (resolve_detect_ignores (Some sample_ignores) ''/docs/'') = [(''gaps'', ''12px'')]"
proof -
  have 1: "\<not> skip_scan (resolve_detect_ignores (Some sample_ignores) ''/docs/'')" by code_simp
  have 2: "''contrast'' \<in> set (ignore_rules (Some sample_ignores))" by code_simp
  have 3: "disabled_rules (resolve_detect_ignores (Some sample_ignores) ''/docs/'') = [''contrast'', ''fonts'']"
    by code_simp
  have 4: "disabled_values (resolve_detect_ignores (Some sample_ignores) ''/docs/'') = [(''gaps'', ''12px'')]"
    by code_simp
  from resolve_ignores_spec [OF 1] 2 3 4 show ?thesis by simp
qed

text \<open>
  A page answers to names that end like it only. Every candidate is a run of trailing path
  segments of the URL's path, or of the one served file with that path, or of the path below the
  served roots' common ancestor; the URL's own path is always among them.
\<close>

theorem candidates_are_suffixes:
  "c \<in> set (page_candidates pathname roots page_files) \<Longrightarrow>
   \<exists>zs ys. ys \<noteq> [] \<and> c = join_with ''/'' ys \<and>
     (segments (page_path pathname) = zs @ ys \<or>
      (\<exists>k. known_pages (page_path pathname) page_files = [k] \<and> segments k = zs @ ys) \<or>
      (common_root roots \<noteq> [] \<and>
       segments (join_with ''/'' (common_root roots) @ ''/'' @ page_path pathname) = zs @ ys))"
  by (auto simp: page_candidates_def Let_def path_suffixes_def suffixes_of_iff length_Suc_conv split: if_splits)
    blast+

lemma candidates_are_suffixes_witness:
  "page_candidates ''/news/'' (Some (JArr [JStr ''site''])) None =
     [''news/index.html'', ''index.html'', ''site/news/index.html''] \<and>
   (\<exists>zs ys. ys \<noteq> [] \<and> ''index.html'' = join_with ''/'' ys \<and>
     (segments (page_path ''/news/'') = zs @ ys \<or>
      segments (join_with ''/'' (common_root (Some (JArr [JStr ''site'']))) @ ''/'' @ page_path ''/news/'') = zs @ ys))"
proof -
  have 1: "page_candidates ''/news/'' (Some (JArr [JStr ''site''])) None =
     [''news/index.html'', ''index.html'', ''site/news/index.html'']" by code_simp
  have 2: "known_pages (page_path ''/news/'') None = []" by code_simp
  have "''index.html'' \<in> set (page_candidates ''/news/'' (Some (JArr [JStr ''site''])) None)" unfolding 1 by simp
  from candidates_are_suffixes [OF this] 1 2 show ?thesis by auto
qed

text \<open>
  A star inside braces is no glob star. \<open>{*.html,*.css}\<close> is no regular expression at all, so it
  never matches, and in \<open>{a*,b}\<close> the star repeats the letter before it.
\<close>

theorem star_in_braces_is_quantifier:
  "glob_to_regex ''{*.html,*.css}'' = None \<and>
   \<not> matches_scope [''{*.html,*.css}''] [''index.html''] \<and>
   matches_scope [''{a*,b}.md''] [''aaa.md''] \<and> \<not> matches_scope [''{a*,b}.md''] [''abc.md'']"
  by (intro conjI; code_simp)

end
