(* ===== verification/LiveInsert.thy ===== *)
theory LiveInsert imports LiveDom begin

text \<open>
  Parts of \<open>agent/skills/impeccable/scripts/live-browser.js\<close>: the order of a generation's phases
  (lines 144 to 165), where an element is inserted and how large its placeholder is (lines 1676 to
  1932), the insert line and the page's cursor (lines 1952 to 2054). Lengths are real numbers in
  pixels, an element is of any type, a rectangle is \<open>LiveDom\<close>'s with \<open>left = x\<close> and \<open>top = y\<close>.
\<close>

section \<open>Phases\<close>

definition PHASE_RANK :: "(string, nat) omap" where
  "PHASE_RANK =
     [(''queued'', 0), (''picked_up'', 1), (''scaffolding'', 2), (''scaffold_fallback'', 3),
      (''source_ready'', 4), (''generation_ready'', 5), (''generating'', 5), (''variants_progress'', 5),
      (''first_reviewable'', 8), (''second_reviewable'', 11), (''all_variants_ready'', 12),
      (''variants_ready'', 12)]"

text \<open>
  A name that no phase has but \<open>Object.prototype\<close> has ranks as a function, which compares with no
  number: \<open>nextRank >= currentRank\<close> is then false.
\<close>

definition should_advance_phase :: "string \<Rightarrow> string \<Rightarrow> bool" where
  "should_advance_phase current next =
     (if next = [] \<or> next = current then False
      else (case (object_get PHASE_RANK next, object_get PHASE_RANK current) of
              (Absent, _) \<Rightarrow> True
            | (_, Absent) \<Rightarrow> True
            | (Own n, Own c) \<Rightarrow> c \<le> n
            | _ \<Rightarrow> False))"

section \<open>The axis of a container\<close>

datatype axis = Row | Column

record layout_style =
  st_display :: string
  st_flex_direction :: string
  st_columns :: string
  st_flow :: string

definition detect_insert_axis_from_style :: "layout_style option \<Rightarrow> axis" where
  "detect_insert_axis_from_style style =
     (case style of
        None \<Rightarrow> Column
      | Some st \<Rightarrow>
          let display = str_or (st_display st) ''block'' in
          if includes_str ''flex'' display then
            (if starts_with ''row'' (str_or (st_flex_direction st) ''row'') then Row else Column)
          else if display = ''grid'' \<or> display = ''inline-grid'' then
            (if includes_str ''column'' (str_or (st_flow st) ''row'') then Column
             else
               let cols = trim (st_columns st) in
               if cols \<noteq> [] \<and> cols \<noteq> ''none'' \<and> length (words_of cols) > 1 then Row else Row)
          else Column)"

text \<open>The parent's node type and computed style; \<open>None\<close> without a parent.\<close>

definition detect_insert_axis :: "(nat \<times> layout_style) option \<Rightarrow> axis" where
  "detect_insert_axis parent =
     (case parent of
        None \<Rightarrow> Column
      | Some (node, style) \<Rightarrow> if node \<noteq> 1 then Column else detect_insert_axis_from_style (Some style))"

section \<open>Siblings\<close>

type_synonym 'e sibling = "'e \<times> rect"

definition layout_flow_children :: "('e \<Rightarrow> bool) \<Rightarrow> ('e \<Rightarrow> rect) \<Rightarrow> 'e list option \<Rightarrow> 'e sibling list" where
  "layout_flow_children can_pick rect_of children =
     (case children of None \<Rightarrow> [] | Some es \<Rightarrow> map (\<lambda>e. (e, rect_of e)) (filter can_pick es))"

datatype position = Before | After

definition compute_insert_position :: "real \<Rightarrow> real \<Rightarrow> rect option \<Rightarrow> axis \<Rightarrow> position" where
  "compute_insert_position client_x client_y r ax =
     (case r of
        None \<Rightarrow> After
      | Some q \<Rightarrow>
          if ax = Row then
            (if rect_width q \<le> 0 then After
             else if client_x < rect_x q + rect_width q / 2 then Before else After)
          else
            (if rect_height q \<le> 0 then After
             else if client_y < rect_y q + rect_height q / 2 then Before else After))"

definition real_order :: "real \<Rightarrow> real \<Rightarrow> int" where
  "real_order x y = (if x < y then - 1 else if y < x then 1 else 0)"

definition top_left_order :: "'e sibling \<Rightarrow> 'e sibling \<Rightarrow> int" where
  "top_left_order a b =
     (let by_top = real_order (rect_y (snd a)) (rect_y (snd b)) in
      if by_top \<noteq> 0 then by_top else real_order (rect_x (snd a)) (rect_x (snd b)))"

definition left_order :: "'e sibling \<Rightarrow> 'e sibling \<Rightarrow> int" where
  "left_order a b = real_order (rect_x (snd a)) (rect_x (snd b))"

fun place_in_row :: "real \<Rightarrow> 'e sibling \<Rightarrow> 'e sibling list list \<Rightarrow> 'e sibling list list" where
  "place_in_row threshold e [] = [[e]]"
| "place_in_row threshold e (row # rows) =
     (if \<bar>rect_y (snd e) - rect_y (snd (hd row))\<bar> \<le> threshold then (row @ [e]) # rows
      else row # place_in_row threshold e rows)"

definition group_sibling_rows :: "real option \<Rightarrow> 'e sibling list \<Rightarrow> 'e sibling list list" where
  "group_sibling_rows threshold siblings =
     (let t = (case threshold of None \<Rightarrow> 8 | Some x \<Rightarrow> x) in
      foldl (\<lambda>rows e. place_in_row t e rows) [] (js_sort top_left_order siblings))"

definition horizontal_overlap :: "rect \<Rightarrow> rect \<Rightarrow> real" where
  "horizontal_overlap a b =
     max 0 (min (rect_right a) (rect_right b) - max (rect_x a) (rect_x b))"

record insert_line =
  line_axis :: axis
  line_top :: real
  line_left :: real
  line_width :: real
  line_height :: real

record 'e insert_target =
  it_anchor :: 'e
  it_position :: position
  it_axis :: axis
  it_line :: insert_line

fun adjacent :: "'a list \<Rightarrow> ('a \<times> 'a) list" where
  "adjacent (x # y # xs) = (x, y) # adjacent (y # xs)"
| "adjacent _ = []"

definition first_some :: "('a \<Rightarrow> 'b option) \<Rightarrow> 'a list \<Rightarrow> 'b option" where
  "first_some f xs = (case List.find (\<lambda>x. f x \<noteq> None) xs of None \<Rightarrow> None | Some x \<Rightarrow> f x)"

text \<open>Lines 1758 to 1776 for one pair of a row.\<close>

definition row_gap :: "real \<Rightarrow> real \<Rightarrow> real \<Rightarrow> real \<Rightarrow> 'e sibling \<times> 'e sibling \<Rightarrow> 'e insert_target option" where
  "row_gap client_x client_y slop min_overlap pair =
     (let ((a, ra), (b, rb)) = pair;
          a_right = rect_right ra; b_left = rect_x rb;
          top = max (rect_y ra) (rect_y rb); bottom = min (rect_bottom ra) (rect_bottom rb);
          span = bottom - top; min_h = min (rect_height ra) (rect_height rb)
      in if b_left \<le> a_right then None
         else if span < min_h * min_overlap then None
         else if \<not> (a_right - slop \<le> client_x \<and> client_x \<le> b_left + slop) \<or>
                 \<not> (top - slop \<le> client_y \<and> client_y \<le> bottom + slop) then None
         else Some \<lparr>it_anchor = b, it_position = Before, it_axis = Row,
                    it_line = \<lparr>line_axis = Row, line_top = top, line_left = (a_right + b_left) / 2,
                               line_width = 0, line_height = span\<rparr>\<rparr>)"

text \<open>Lines 1782 to 1800 for one pair of the column.\<close>

definition column_gap :: "real \<Rightarrow> real \<Rightarrow> real \<Rightarrow> real \<Rightarrow> 'e sibling \<times> 'e sibling \<Rightarrow> 'e insert_target option" where
  "column_gap client_x client_y slop min_overlap pair =
     (let ((a, ra), (b, rb)) = pair;
          overlap = horizontal_overlap ra rb; min_w = min (rect_width ra) (rect_width rb);
          gap_top = rect_bottom ra; gap_bottom = rect_y rb;
          overlap_left = max (rect_x ra) (rect_x rb); overlap_right = min (rect_right ra) (rect_right rb)
      in if overlap < min_w * min_overlap then None
         else if gap_bottom \<le> gap_top then None
         else if \<not> (gap_top - slop \<le> client_y \<and> client_y \<le> gap_bottom + slop) \<or>
                 \<not> (overlap_left - slop \<le> client_x \<and> client_x \<le> overlap_right + slop) then None
         else Some \<lparr>it_anchor = b, it_position = Before, it_axis = Column,
                    it_line = \<lparr>line_axis = Column, line_top = (gap_top + gap_bottom) / 2,
                               line_left = overlap_left, line_width = overlap, line_height = 0\<rparr>\<rparr>)"

definition hit_sibling_insert_gap ::
  "real \<Rightarrow> real \<Rightarrow> 'e sibling list \<Rightarrow> real option \<Rightarrow> real option \<Rightarrow> 'e insert_target option" where
  "hit_sibling_insert_gap client_x client_y siblings slop_opt overlap_opt =
     (if length siblings < 2 then None
      else
        let slop = (case slop_opt of None \<Rightarrow> 12 | Some x \<Rightarrow> x);
            min_overlap = (case overlap_opt of None \<Rightarrow> 1 / 4 | Some x \<Rightarrow> x);
            row_pairs = concat (map (\<lambda>row. adjacent (js_sort left_order row)) (group_sibling_rows None siblings))
        in case first_some (row_gap client_x client_y slop min_overlap) row_pairs of
             Some t \<Rightarrow> Some t
           | None \<Rightarrow> first_some (column_gap client_x client_y slop min_overlap)
                      (adjacent (js_sort top_left_order siblings)))"

definition insert_line_coords :: "rect \<Rightarrow> position \<Rightarrow> axis \<Rightarrow> insert_line" where
  "insert_line_coords r pos ax =
     (if ax = Row then
        \<lparr>line_axis = Row, line_top = rect_y r,
         line_left = (if pos = Before then rect_x r - 2 else rect_right r + 2),
         line_width = 0, line_height = rect_height r\<rparr>
      else
        \<lparr>line_axis = Column,
         line_top = (if pos = Before then rect_y r - 2 else rect_bottom r + 2),
         line_left = rect_x r, line_width = rect_width r, line_height = 0\<rparr>)"

definition resolve_insert_hover ::
  "real \<Rightarrow> real \<Rightarrow> 'e \<Rightarrow> rect \<Rightarrow> axis \<Rightarrow> 'e sibling list \<Rightarrow> 'e insert_target" where
  "resolve_insert_hover client_x client_y target r ax siblings =
     (case hit_sibling_insert_gap client_x client_y siblings None None of
        Some gap \<Rightarrow> gap
      | None \<Rightarrow>
          let pos = compute_insert_position client_x client_y (Some r) ax in
          \<lparr>it_anchor = target, it_position = pos, it_axis = ax, it_line = insert_line_coords r pos ax\<rparr>)"

definition cursor_for_insert_axis :: "axis \<Rightarrow> string" where
  "cursor_for_insert_axis ax = (if ax = Row then ''ew-resize'' else ''ns-resize'')"

section \<open>The placeholder\<close>

definition PLACEHOLDER_MIN_HEIGHT :: real where "PLACEHOLDER_MIN_HEIGHT = 48"
definition PLACEHOLDER_MIN_WIDTH :: real where "PLACEHOLDER_MIN_WIDTH = 120"

datatype sizing = Size_flex string real | Size_auto | Size_percent | Size_explicit real

text \<open>\<open>parent_width\<close> is \<open>None\<close> where it is not a finite number.\<close>

definition placeholder_sizing :: "axis \<Rightarrow> string \<Rightarrow> real option \<Rightarrow> string \<Rightarrow> sizing" where
  "placeholder_sizing ax parent_display parent_width anchor_flex =
     (let display = str_or parent_display ''block'';
          w = (case parent_width of None \<Rightarrow> 0 | Some x \<Rightarrow> x);
          by_width = (if w \<ge> PLACEHOLDER_MIN_WIDTH then Size_percent
                      else Size_explicit (max PLACEHOLDER_MIN_WIDTH (if w = 0 then PLACEHOLDER_MIN_WIDTH else w)))
      in if ax = Row \<and> includes_str ''flex'' display
         then Size_flex (if anchor_flex \<noteq> [] \<and> anchor_flex \<noteq> ''none'' \<and> anchor_flex \<noteq> ''0 1 auto''
                         then anchor_flex else ''1 1 0'') 0
         else if ax = Row \<and> (display = ''grid'' \<or> display = ''inline-grid'') then Size_auto
         else by_width)"

datatype size_kind = Kind_flex | Kind_auto | Kind_percent | Kind_explicit

definition placeholder_width_is_implicit :: "size_kind option \<Rightarrow> bool" where
  "placeholder_width_is_implicit kind \<longleftrightarrow> kind \<in> {Some Kind_flex, Some Kind_percent, Some Kind_auto}"

datatype css_length = Unset | Px real | Percent100

record placeholder =
  ph_kind :: "size_kind option"
  ph_flex :: string
  ph_min_width :: css_length
  ph_max_width :: css_length
  ph_width :: css_length
  ph_offset_width :: real

definition apply_placeholder_sizing_styles :: "sizing \<Rightarrow> placeholder \<Rightarrow> placeholder" where
  "apply_placeholder_sizing_styles s ph =
     (let clean = ph\<lparr>ph_flex := [], ph_min_width := Unset, ph_max_width := Unset, ph_width := Unset\<rparr> in
      case s of
        Size_flex flex mw \<Rightarrow> clean\<lparr>ph_kind := Some Kind_flex, ph_flex := flex, ph_min_width := Px mw\<rparr>
      | Size_percent \<Rightarrow> clean\<lparr>ph_kind := Some Kind_percent, ph_width := Percent100, ph_max_width := Percent100\<rparr>
      | Size_explicit w \<Rightarrow> clean\<lparr>ph_kind := Some Kind_explicit, ph_width := Px w\<rparr>
      | Size_auto \<Rightarrow> clean\<lparr>ph_kind := Some Kind_auto\<rparr>)"

definition js_round :: "real \<Rightarrow> real" where
  "js_round x = real_of_int \<lfloor>x + 1 / 2\<rfloor>"

definition materialize_placeholder_width :: "placeholder \<Rightarrow> placeholder" where
  "materialize_placeholder_width ph =
     (if \<not> placeholder_width_is_implicit (ph_kind ph) then ph
      else ph\<lparr>ph_flex := [], ph_min_width := Unset, ph_max_width := Unset,
              ph_width := Px (max PLACEHOLDER_MIN_WIDTH (js_round (ph_offset_width ph))),
              ph_kind := Some Kind_explicit\<rparr>)"

text \<open>The prompt when it is a string, the number of comments, the point counts of the strokes.\<close>

definition can_create_insert :: "string option \<Rightarrow> nat \<Rightarrow> nat list \<Rightarrow> bool" where
  "can_create_insert prompt comments strokes \<longleftrightarrow>
     (case prompt of None \<Rightarrow> False | Some p \<Rightarrow> trim p \<noteq> []) \<or> comments > 0 \<or> (\<exists>n \<in> set strokes. n \<ge> 2)"

definition insert_create_disabled_reason :: "string option \<Rightarrow> nat \<Rightarrow> nat list \<Rightarrow> string option" where
  "insert_create_disabled_reason prompt comments strokes =
     (if can_create_insert prompt comments strokes then None
      else Some ''Add a prompt or annotate the placeholder to create'')"

definition clamp_placeholder_size :: "real \<Rightarrow> real \<Rightarrow> real \<Rightarrow> real \<times> real" where
  "clamp_placeholder_size width height parent_width =
     (let max_w = max PLACEHOLDER_MIN_WIDTH (if parent_width = 0 then PLACEHOLDER_MIN_WIDTH else parent_width) in
      (min max_w (max PLACEHOLDER_MIN_WIDTH (js_round width)),
       max PLACEHOLDER_MIN_HEIGHT (js_round height)))"

datatype edge = North | South | East | West

definition cursor_for_placeholder_edge :: "edge option \<Rightarrow> string" where
  "cursor_for_placeholder_edge e =
     (case e of
        None \<Rightarrow> ''default''
      | Some d \<Rightarrow> if d = North \<or> d = South then ''ns-resize'' else ''ew-resize'')"

record extent =
  ex_width :: real
  ex_height :: real
  ex_margin_left :: "real option"
  ex_margin_top :: "real option"

text \<open>
  A margin is \<open>None\<close> where the source has \<open>undefined\<close> before and \<open>NaN\<close> after: the edges \<open>w\<close> and \<open>n\<close>
  add to the start margin without the default of lines 1911 and 1912.
\<close>

definition resize_placeholder_from_edge :: "extent \<Rightarrow> edge option \<Rightarrow> real \<Rightarrow> real \<Rightarrow> real \<Rightarrow> extent" where
  "resize_placeholder_from_edge start e dx dy parent_width =
     (let width = (if e = Some East then ex_width start + dx
                   else if e = Some West then ex_width start - dx else ex_width start);
          height = (if e = Some South then ex_height start + dy
                    else if e = Some North then ex_height start - dy else ex_height start);
          (w, h) = clamp_placeholder_size width height parent_width;
          left = (if e = Some West then map_option (\<lambda>m. m + ex_width start - w) (ex_margin_left start)
                  else Some (case ex_margin_left start of None \<Rightarrow> 0 | Some m \<Rightarrow> m));
          top = (if e = Some North then map_option (\<lambda>m. m + ex_height start - h) (ex_margin_top start)
                 else Some (case ex_margin_top start of None \<Rightarrow> 0 | Some m \<Rightarrow> m))
      in \<lparr>ex_width = w, ex_height = h, ex_margin_left = map_option js_round left,
          ex_margin_top = map_option js_round top\<rparr>)"

section \<open>The insert line and the cursor\<close>

datatype live_state = Live_idle | Live_picking | Live_configuring | Live_generating | Live_cycling | Live_other string

record 'e insert_ui =
  live_state :: live_state
  pick_active :: bool
  insert_active :: bool
  hover :: "('e \<times> position \<times> axis) option"
  shown_line :: "insert_line option"
  page_cursor :: string
  interaction_revision :: nat

definition sync_page_interaction_cursor :: "'e insert_ui \<Rightarrow> 'e insert_ui" where
  "sync_page_interaction_cursor ui =
     ui\<lparr>page_cursor :=
          (if live_state ui = Live_picking \<and> pick_active ui \<and> \<not> insert_active ui then ''crosshair''
           else if live_state ui = Live_picking \<and> insert_active ui then
             (case hover ui of None \<Rightarrow> [] | Some (a, p, ax) \<Rightarrow> cursor_for_insert_axis ax)
           else [])\<rparr>"

definition show_insert_line :: "'e insert_target option \<Rightarrow> 'e insert_ui \<Rightarrow> 'e insert_ui" where
  "show_insert_line resolved ui =
     (case resolved of
        None \<Rightarrow> ui
      | Some t \<Rightarrow> ui\<lparr>shown_line := Some (it_line t), hover := Some (it_anchor t, it_position t, it_axis t)\<rparr>)"

text \<open>\<open>made\<close> tells whether the line's element was ever made.\<close>

definition hide_insert_line :: "bool \<Rightarrow> 'e insert_ui \<Rightarrow> 'e insert_ui" where
  "hide_insert_line made ui =
     (if \<not> made then ui else sync_page_interaction_cursor (ui\<lparr>shown_line := None, hover := None\<rparr>))"

definition page_cursor_style :: "string \<Rightarrow> string \<Rightarrow> string" where
  "page_cursor_style prefix cursor =
     (if cursor = [] then []
      else ''* { cursor: '' @ cursor @ '' !important; }'' @ [CHR 0x0A] @
           ''[id^='' @ [CHR 0x22] @ prefix @ [CHR 0x22] @ ''],'' @ [CHR 0x0A] @
           ''[id^='' @ [CHR 0x22] @ prefix @ [CHR 0x22] @ ''] * { cursor: revert !important; }'')"

definition set_live_state :: "live_state \<Rightarrow> 'e insert_ui \<Rightarrow> 'e insert_ui" where
  "set_live_state st ui = sync_page_interaction_cursor (ui\<lparr>live_state := st\<rparr>)"

definition begin_new_live_configuration :: "'e insert_ui \<Rightarrow> 'e insert_ui" where
  "begin_new_live_configuration ui =
     set_live_state Live_configuring (ui\<lparr>interaction_revision := interaction_revision ui + 1\<rparr>)"

definition deferred_recovery_superseded :: "string \<Rightarrow> nat \<Rightarrow> string option \<Rightarrow> nat \<Rightarrow> bool" where
  "deferred_recovery_superseded session_id recovery_revision current_session revision \<longleftrightarrow>
     revision \<noteq> recovery_revision \<or>
     (truthy_str current_session \<and> current_session \<noteq> Some session_id)"

section \<open>Lemmas\<close>

lemma mset_place_in_row: "mset (concat (place_in_row t e rows)) = add_mset e (mset (concat rows))"
  by (induction rows) auto

lemma mset_place_all:
  "mset (concat (foldl (\<lambda>rows e. place_in_row t e rows) rows es)) = mset (concat rows) + mset es"
  by (induction es arbitrary: rows) (simp_all add: mset_place_in_row)

lemma mset_group_rows: "mset (concat (group_sibling_rows t siblings)) = mset siblings"
  by (simp add: group_sibling_rows_def Let_def mset_place_all)

lemma first_some_Some: "first_some f xs = Some y \<Longrightarrow> \<exists>x \<in> set xs. f x = Some y"
  by (auto simp: first_some_def find_Some_iff split: option.splits)

lemma adjacent_set: "(x, y) \<in> set (adjacent xs) \<Longrightarrow> x \<in> set xs \<and> y \<in> set xs"
  by (induction xs rule: adjacent.induct) auto

lemma in_group_rows: "row \<in> set (group_sibling_rows t siblings) \<Longrightarrow> x \<in> set row \<Longrightarrow> x \<in> set siblings"
  using mset_group_rows [of t siblings] by (metis concat_eq_concat_iff in_set_conv_nth mset_eq_setD set_concat UN_I)

definition px :: "real \<Rightarrow> bool" where
  "px x \<longleftrightarrow> (\<exists>n. x = real_of_int n)"

lemma js_round_px: "px x \<Longrightarrow> js_round x = x"
  by (auto simp: px_def js_round_def)

lemma js_round_is_px [simp]: "px (js_round x)"
  by (auto simp: px_def js_round_def)

section \<open>Properties\<close>

definition show_phase :: "string \<Rightarrow> string \<Rightarrow> string" where
  "show_phase current next = (if should_advance_phase current next then next else current)"

text \<open>
  While a generation reports its phases, in whatever order they arrive, the phase shown never
  goes back: its rank only grows.
\<close>

theorem phases_never_go_back:
  assumes "\<forall>p \<in> set (current # phases). map_of PHASE_RANK p \<noteq> None"
  shows "the (map_of PHASE_RANK current) \<le> the (map_of PHASE_RANK (foldl show_phase current phases))"
  using assms
proof (induction phases arbitrary: current)
  case (Cons p phases)
  obtain n c where ranks: "map_of PHASE_RANK p = Some n" "map_of PHASE_RANK current = Some c"
    using Cons.prems by auto
  then have "show_phase current p = (if p \<noteq> [] \<and> p \<noteq> current \<and> c \<le> n then p else current)"
    by (simp add: show_phase_def should_advance_phase_def object_get_def)
  then have step: "c \<le> the (map_of PHASE_RANK (show_phase current p))" "show_phase current p \<in> {p, current}"
    using ranks by auto
  have "the (map_of PHASE_RANK (show_phase current p)) \<le>
      the (map_of PHASE_RANK (foldl show_phase (show_phase current p) phases))"
    using step(2) Cons.prems by (intro Cons.IH) auto
  with step(1) ranks(2) show ?case by simp
qed simp

lemma phases_never_go_back_witness:
  "foldl show_phase ''queued'' [''first_reviewable'', ''picked_up''] = ''first_reviewable'' \<and>
   the (map_of PHASE_RANK ''queued'') \<le>
     the (map_of PHASE_RANK (foldl show_phase ''queued'' [''first_reviewable'', ''picked_up'']))"
proof -
  have 1: "\<forall>p \<in> set (''queued'' # [''first_reviewable'', ''picked_up'']). map_of PHASE_RANK p \<noteq> None" by code_simp
  have "foldl show_phase ''queued'' [''first_reviewable'', ''picked_up''] = ''first_reviewable''" by code_simp
  with phases_never_go_back [OF 1] show ?thesis by blast
qed

text \<open>
  The line that marks an insertion between siblings lies in the gap of two of the siblings,
  strictly between their facing edges, and inserting goes before the second of them.
\<close>

theorem gap_line_between_siblings:
  assumes "hit_sibling_insert_gap client_x client_y siblings slop overlap = Some t"
  shows "it_position t = Before \<and>
    (\<exists>a ra b rb. (a, ra) \<in> set siblings \<and> (b, rb) \<in> set siblings \<and> it_anchor t = b \<and>
      (if it_axis t = Row
       then rect_right ra < line_left (it_line t) \<and> line_left (it_line t) < rect_x rb
       else rect_bottom ra < line_top (it_line t) \<and> line_top (it_line t) < rect_y rb))"
proof -
  let ?s = "case slop of None \<Rightarrow> 12 | Some x \<Rightarrow> x" and ?o = "case overlap of None \<Rightarrow> 1 / 4 | Some x \<Rightarrow> x"
  let ?rows = "concat (map (\<lambda>row. adjacent (js_sort left_order row)) (group_sibling_rows None siblings))"
  from assms consider (row) "first_some (row_gap client_x client_y ?s ?o) ?rows = Some t"
    | (column) "first_some (column_gap client_x client_y ?s ?o) (adjacent (js_sort top_left_order siblings)) = Some t"
    by (auto simp: hit_sibling_insert_gap_def Let_def split: if_splits option.splits)
  then show ?thesis
  proof cases
    case row
    then obtain a ra b rb where pair: "((a, ra), (b, rb)) \<in> set ?rows"
      and hit: "row_gap client_x client_y ?s ?o ((a, ra), (b, rb)) = Some t"
      by (auto dest!: first_some_Some)
    from pair obtain r where r: "r \<in> set (group_sibling_rows None siblings)"
      and adj: "((a, ra), (b, rb)) \<in> set (adjacent (js_sort left_order r))" by auto
    from adjacent_set [OF adj] in_group_rows [OF r] have "(a, ra) \<in> set siblings" "(b, rb) \<in> set siblings" by auto
    moreover have "it_position t = Before" "it_axis t = Row" "it_anchor t = b"
      "rect_right ra < line_left (it_line t)" "line_left (it_line t) < rect_x rb"
      using hit by (auto simp: row_gap_def Let_def split: if_splits)
    ultimately show ?thesis by auto
  next
    case column
    then obtain a ra b rb where adj: "((a, ra), (b, rb)) \<in> set (adjacent (js_sort top_left_order siblings))"
      and hit: "column_gap client_x client_y ?s ?o ((a, ra), (b, rb)) = Some t"
      by (auto dest!: first_some_Some)
    from adjacent_set [OF adj] have "(a, ra) \<in> set siblings" "(b, rb) \<in> set siblings" by auto
    moreover have "it_position t = Before" "it_axis t = Column" "it_anchor t = b"
      "rect_bottom ra < line_top (it_line t)" "line_top (it_line t) < rect_y rb"
      using hit by (auto simp: column_gap_def Let_def split: if_splits)
    ultimately show ?thesis by auto
  qed
qed

definition two_boxes :: "nat sibling list" where
  "two_boxes = [(1, \<lparr>rect_x = 0, rect_y = 0, rect_width = 100, rect_height = 50\<rparr>),
     (2, \<lparr>rect_x = 120, rect_y = 0, rect_width = 100, rect_height = 50\<rparr>)]"

lemma gap_line_between_siblings_witness:
  "\<exists>t. hit_sibling_insert_gap 110 20 two_boxes None None = Some t \<and> it_position t = Before"
proof -
  have "hit_sibling_insert_gap 110 20 two_boxes None None \<noteq> None"
    by (simp add: hit_sibling_insert_gap_def two_boxes_def group_sibling_rows_def top_left_order_def
        left_order_def real_order_def first_some_def row_gap_def rect_right_def rect_bottom_def Let_def)
  then obtain t where "hit_sibling_insert_gap 110 20 two_boxes None None = Some t" by blast
  with gap_line_between_siblings [OF this] show ?thesis by blast
qed

text \<open>
  Dragging an edge keeps the placeholder within its limits and leaves the opposite edge where
  it is: from the left or the top, margin and size together stay what they were, to the pixel.
\<close>

theorem resize_keeps_opposite_edge:
  assumes "px (ex_width start)" and "px (ex_height start)" and "px parent_width"
    and "ex_margin_left start = Some ml" and "ex_margin_top start = Some mt" and "px ml" and "px mt"
  shows "let r = resize_placeholder_from_edge start e dx dy parent_width in
    PLACEHOLDER_MIN_WIDTH \<le> ex_width r \<and> ex_width r \<le> max PLACEHOLDER_MIN_WIDTH parent_width \<and>
    PLACEHOLDER_MIN_HEIGHT \<le> ex_height r \<and>
    (e = Some West \<longrightarrow> (\<exists>m. ex_margin_left r = Some m \<and> m + ex_width r = ml + ex_width start)) \<and>
    (e = Some North \<longrightarrow> (\<exists>m. ex_margin_top r = Some m \<and> m + ex_height r = mt + ex_height start))"
proof -
  have arith: "px (x + y - z)" if "px x" "px y" "px z" for x y z
  proof -
    from that obtain i j k where "x = real_of_int i" "y = real_of_int j" "z = real_of_int k" by (auto simp: px_def)
    then have "x + y - z = real_of_int (i + j - k)" by simp
    then show ?thesis unfolding px_def by blast
  qed
  have pick: "px (min x y)" "px (max x y)" if "px x" "px y" for x y
    using that by (simp_all add: min_def max_def)
  have mins: "px PLACEHOLDER_MIN_WIDTH" "px PLACEHOLDER_MIN_HEIGHT"
    unfolding px_def PLACEHOLDER_MIN_WIDTH_def PLACEHOLDER_MIN_HEIGHT_def
    by (intro exI [of _ 120] exI [of _ 48]; simp)+
  obtain w h where wh: "clamp_placeholder_size
      (if e = Some East then ex_width start + dx else if e = Some West then ex_width start - dx else ex_width start)
      (if e = Some South then ex_height start + dy else if e = Some North then ex_height start - dy else ex_height start)
      parent_width = (w, h)" by force
  have pxwh: "px w" "px h"
    using wh assms(3) mins by (auto simp: clamp_placeholder_size_def Let_def intro!: pick)
  have bounds: "PLACEHOLDER_MIN_WIDTH \<le> w" "w \<le> max PLACEHOLDER_MIN_WIDTH parent_width" "PLACEHOLDER_MIN_HEIGHT \<le> h"
    using wh by (auto simp: clamp_placeholder_size_def Let_def split: if_splits)
  have left: "js_round (ml + ex_width start - w) = ml + ex_width start - w"
    using assms(1,6) pxwh by (intro js_round_px arith)
  have top: "js_round (mt + ex_height start - h) = mt + ex_height start - h"
    using assms(2,7) pxwh by (intro js_round_px arith)
  from bounds left top wh assms(4,5) show ?thesis
    by (simp add: resize_placeholder_from_edge_def Let_def)
qed

definition sample_extent :: extent where
  "sample_extent = \<lparr>ex_width = 200, ex_height = 100, ex_margin_left = Some 0, ex_margin_top = Some 0\<rparr>"

lemma px_numeral: "px (numeral n)" "px 0"
  unfolding px_def by (rule exI [of _ "numeral n"], simp) (rule exI [of _ 0], simp)

lemma resize_keeps_opposite_edge_witness:
  "\<exists>m. ex_margin_left (resize_placeholder_from_edge sample_extent (Some West) 150 0 600) = Some m \<and>
     m + ex_width (resize_placeholder_from_edge sample_extent (Some West) 150 0 600) = 200"
  using resize_keeps_opposite_edge [of sample_extent 600 0 0 "Some West" 150 0] px_numeral
  by (simp add: sample_extent_def Let_def)

end
