(* ===== verification/LiveMarkdown.thy ===== *)
theory LiveMarkdown imports Prelude begin

text \<open>
  The Markdown subset of \<open>agent/skills/impeccable/scripts/live-browser.js\<close> (lines 12809 to 12923):
  escaping, inline markup, lists, \<open>renderMarkdown\<close>, and the cleaning of CSS values (lines 12782 to
  12798). Each regular expression is the scanner it amounts to, with the backtracking that can
  change its result. A line break inside a line is a lone carriage return, the only one \<open>split\<close>
  leaves.
\<close>

section \<open>Escaping\<close>

definition dquote :: char where "dquote = CHR 0x22"
definition squote :: char where "squote = CHR 0x27"
definition backtick :: char where "backtick = CHR 0x60"

definition escape_html_char :: "char \<Rightarrow> string" where
  "escape_html_char c =
     (if c = CHR ''&'' then ''&amp;'' else if c = CHR ''<'' then ''&lt;''
      else if c = CHR ''>'' then ''&gt;'' else if c = dquote then ''&quot;''
      else if c = squote then ''&#39;'' else [c])"

text \<open>The five replacements in a row: the first one leaves no ampersand that a later one adds.\<close>

definition escape_html :: "string \<Rightarrow> string" where
  "escape_html s = concat (map escape_html_char s)"

section \<open>Inline markup\<close>

definition quoted :: "string \<Rightarrow> string" where
  "quoted s = [dquote] @ s @ [dquote]"

definition link_html :: "string \<Rightarrow> string \<Rightarrow> string" where
  "link_html t u =
     ''<a href='' @ quoted u @ '' target='' @ quoted ''_blank'' @ '' rel='' @ quoted ''noopener noreferrer'' @ ''>'' @ t @ ''</a>''"

lemma dropWhile_shorter [termination_simp]:
  "dropWhile P s = x # r \<Longrightarrow> length r < Suc (length s)"
  using length_dropWhile_le [of P s] by simp

text \<open>A delimited run: the text up to \<open>stop\<close> and what follows it; \<open>None\<close> if empty or unclosed.\<close>

definition run_to :: "char \<Rightarrow> string \<Rightarrow> (string \<times> string) option" where
  "run_to stop s =
     (let body = takeWhile (\<lambda>c. c \<noteq> stop) s in
      case dropWhile (\<lambda>c. c \<noteq> stop) s of
        [] \<Rightarrow> None | _ # r \<Rightarrow> if body = [] then None else Some (body, r))"

lemma run_to_shorter [termination_simp]: "run_to stop s = Some (b, r) \<Longrightarrow> length r < Suc (length s)"
  using length_dropWhile_le [of "\<lambda>c. c \<noteq> stop" s]
  by (auto simp: run_to_def Let_def split: list.splits if_splits)

fun code_spans :: "string \<Rightarrow> string" where
  "code_spans [] = []"
| "code_spans (c # s) =
     (if c = backtick then
        (case run_to backtick s of
           Some (code, r) \<Rightarrow> ''<code>'' @ code @ ''</code>'' @ code_spans r
         | None \<Rightarrow> c # code_spans s)
      else c # code_spans s)"

text \<open>\<open>[text](url)\<close>, behind its opening bracket.\<close>

definition link_at :: "string \<Rightarrow> (string \<times> string \<times> string) option" where
  "link_at s =
     (case run_to (CHR '']'') s of
        None \<Rightarrow> None
      | Some (t, r) \<Rightarrow>
          (case r of
             [] \<Rightarrow> None
           | p # r1 \<Rightarrow>
               if p \<noteq> CHR ''('' then None
               else (case run_to (CHR '')'') r1 of None \<Rightarrow> None | Some (u, r2) \<Rightarrow> Some (t, u, r2))))"

lemma link_at_shorter [termination_simp]: "link_at s = Some (t, u, r) \<Longrightarrow> length r < Suc (length s)"
  by (auto simp: link_at_def split: option.splits list.splits if_splits dest!: run_to_shorter)

fun links :: "string \<Rightarrow> string" where
  "links [] = []"
| "links (c # s) =
     (if c = CHR ''['' then
        (case link_at s of
           Some (t, u, r) \<Rightarrow> link_html t u @ links r
         | None \<Rightarrow> c # links s)
      else c # links s)"

definition star :: char where "star = CHR ''*''"

text \<open>\<open>**text**\<close>, behind its first star.\<close>

definition bold_at :: "string \<Rightarrow> (string \<times> string) option" where
  "bold_at s =
     (case s of
        [] \<Rightarrow> None
      | d # r \<Rightarrow>
          if d \<noteq> star then None
          else (case run_to star r of
                  None \<Rightarrow> None
                | Some (b, r1) \<Rightarrow>
                    (case r1 of [] \<Rightarrow> None | e # r2 \<Rightarrow> if e = star then Some (b, r2) else None)))"

lemma bold_at_shorter [termination_simp]: "bold_at s = Some (b, r) \<Longrightarrow> length r < Suc (length s)"
  by (auto simp: bold_at_def split: option.splits list.splits if_splits dest!: run_to_shorter)

fun bolds :: "string \<Rightarrow> string" where
  "bolds [] = []"
| "bolds (c # s) =
     (if c = star then
        (case bold_at s of
           Some (b, r) \<Rightarrow> ''<strong>'' @ b @ ''</strong>'' @ bolds r
         | None \<Rightarrow> c # bolds s)
      else c # bolds s)"

text \<open>The star, the text and the closing star of an italic run, behind the first star.\<close>

definition italic_at :: "string \<Rightarrow> (string \<times> string) option" where
  "italic_at s =
     (case run_to star s of
        None \<Rightarrow> None
      | Some (b, r) \<Rightarrow>
          if CHR 0x0A \<in> set b then None
          else (case r of [] \<Rightarrow> Some (b, r) | e # _ \<Rightarrow> if e = star then None else Some (b, r)))"

lemma italic_at_shorter [termination_simp]:
  "italic_at s = Some (b, r) \<Longrightarrow> length r < Suc (length s)"
  "italic_at s = Some (b, r) \<Longrightarrow> length r < Suc (Suc (length s))"
  by (auto simp: italic_at_def split: option.splits list.splits if_splits dest!: run_to_shorter)

definition italic_if :: "bool \<Rightarrow> string \<Rightarrow> (string \<times> string) option" where
  "italic_if here s = (if here then italic_at s else None)"

lemma italic_if_shorter [termination_simp]:
  "italic_if here s = Some (b, r) \<Longrightarrow> length r < Suc (length s)"
  "italic_if here s = Some (b, r) \<Longrightarrow> length r < Suc (Suc (length s))"
  by (auto simp: italic_if_def split: if_splits dest!: italic_at_shorter(1))

text \<open>\<open>first\<close> is the start of the text, where the star needs no character before it.\<close>

fun italics :: "bool \<Rightarrow> string \<Rightarrow> string" where
  "italics first [] = []"
| "italics first (c # s) =
     (case italic_if (first \<and> c = star) s of
        Some (b, r) \<Rightarrow> ''<em>'' @ b @ ''</em>'' @ italics False r
      | None \<Rightarrow>
          (case s of
             [] \<Rightarrow> [c]
           | d # t \<Rightarrow>
               (case italic_if (c \<noteq> star \<and> d = star) t of
                  Some (b, r) \<Rightarrow> c # ''<em>'' @ b @ ''</em>'' @ italics False r
                | None \<Rightarrow> c # italics False s)))"

definition inline_md :: "string \<Rightarrow> string" where
  "inline_md text = italics True (bolds (links (code_spans (escape_html text))))"

section \<open>Lists\<close>

datatype list_type = Unordered | Ordered

definition list_tag :: "list_type \<Rightarrow> string" where
  "list_tag t = (case t of Unordered \<Rightarrow> ''ul'' | Ordered \<Rightarrow> ''ol'')"

text \<open>The markup as a sequence of tags, and its text.\<close>

datatype tag = Open_list | Close_list | Item string

definition show_tag :: "list_type \<Rightarrow> tag \<Rightarrow> string" where
  "show_tag t x =
     (case x of
        Open_list \<Rightarrow> ''<'' @ list_tag t @ ''>''
      | Close_list \<Rightarrow> ''</'' @ list_tag t @ ''>''
      | Item h \<Rightarrow> ''<li>'' @ h @ ''</li>'')"

fun list_items :: "nat \<Rightarrow> (nat \<times> string) list \<Rightarrow> tag list" where
  "list_items last_indent [] = replicate (last_indent + 1) Close_list"
| "list_items last_indent ((indent, h) # items) =
     (if indent > last_indent then [Open_list]
      else if indent < last_indent then replicate (last_indent - indent) Close_list
      else []) @ Item h # list_items indent items"

definition list_tags :: "(nat \<times> string) list \<Rightarrow> tag list" where
  "list_tags items = Open_list # list_items 0 items"

definition build_list_html :: "(nat \<times> string) list \<Rightarrow> list_type \<Rightarrow> string" where
  "build_list_html items t = concat (map (show_tag t) (list_tags items))"

section \<open>Blocks\<close>

definition all_space :: "string \<Rightarrow> bool" where
  "all_space s \<longleftrightarrow> (\<forall>c \<in> set s. white_space c)"

definition is_fence :: "string \<Rightarrow> bool" where
  "is_fence line \<longleftrightarrow>
     take 3 line = replicate 3 backtick \<and> all_space (dropWhile word_char (drop 3 line))"

definition is_rule :: "string \<Rightarrow> bool" where
  "is_rule line \<longleftrightarrow>
     (let s = trim line in
      length s \<ge> 3 \<and> ((\<forall>c \<in> set s. c = CHR ''-'') \<or> (\<forall>c \<in> set s. c = star)))"

text \<open>\<open>\s+(.+)$\<close>: white space, then the rest; of white space alone the last character is the rest.\<close>

definition lone_break :: "char \<Rightarrow> bool" where
  "lone_break c \<longleftrightarrow> of_char c \<in> {10, 13 :: nat}"

definition spaced_rest :: "string \<Rightarrow> string option" where
  "spaced_rest s =
     (let ws = takeWhile white_space s; body = dropWhile white_space s in
      if ws = [] then None
      else if body \<noteq> [] then (if \<exists>c \<in> set body. lone_break c then None else Some body)
      else if length ws \<ge> 2 \<and> \<not> lone_break (last ws) then Some [last ws] else None)"

definition heading_of :: "string \<Rightarrow> (nat \<times> string) option" where
  "heading_of line =
     (let marks = takeWhile (\<lambda>c. c = CHR ''#'') line in
      if marks = [] \<or> length marks > 4 then None
      else map_option (\<lambda>t. (length marks, t)) (spaced_rest (dropWhile (\<lambda>c. c = CHR ''#'') line)))"

definition bullet_of :: "string \<Rightarrow> (nat \<times> string) option" where
  "bullet_of line =
     (let ws = takeWhile white_space line in
      case dropWhile white_space line of
        [] \<Rightarrow> None
      | c # r \<Rightarrow>
          if c = CHR ''-'' \<or> c = star then map_option (\<lambda>t. (length ws div 2, t)) (spaced_rest r) else None)"

definition ordered_of :: "string \<Rightarrow> (nat \<times> string) option" where
  "ordered_of line =
     (let ws = takeWhile white_space line; rest = dropWhile white_space line in
      if takeWhile is_digit rest = [] then None
      else (case dropWhile is_digit rest of
              [] \<Rightarrow> None
            | c # r \<Rightarrow> if c = CHR ''.'' then map_option (\<lambda>t. (length ws div 2, t)) (spaced_rest r) else None))"

record md_state =
  md_out :: "string list"
  in_code :: bool
  code_buf :: "string list"
  para_buf :: "string list"
  list_buf :: "(nat \<times> string) list"
  list_kind :: "list_type option"

definition flush_para :: "md_state \<Rightarrow> md_state" where
  "flush_para st =
     (if para_buf st = [] then st
      else st\<lparr>md_out := md_out st @ [''<p>'' @ inline_md (join_with '' '' (para_buf st)) @ ''</p>''], para_buf := []\<rparr>)"

definition flush_list :: "md_state \<Rightarrow> md_state" where
  "flush_list st =
     (if list_buf st = [] then st
      else st\<lparr>md_out := md_out st @ [build_list_html (list_buf st)
                (case list_kind st of None \<Rightarrow> Unordered | Some t \<Rightarrow> t)],
              list_buf := [], list_kind := None\<rparr>)"

definition flush_all :: "md_state \<Rightarrow> md_state" where
  "flush_all st = flush_list (flush_para st)"

definition code_block :: "string list \<Rightarrow> string" where
  "code_block ls = ''<pre><code>'' @ escape_html (join_with [CHR 0x0A] ls) @ ''</code></pre>''"

definition add_item :: "list_type \<Rightarrow> nat \<times> string \<Rightarrow> md_state \<Rightarrow> md_state" where
  "add_item t m st =
     (let st1 = flush_para st;
          st2 = (if list_kind st1 \<noteq> None \<and> list_kind st1 \<noteq> Some t then flush_list st1 else st1)
      in st2\<lparr>list_kind := Some t, list_buf := list_buf st2 @ [(fst m, inline_md (snd m))]\<rparr>)"

definition md_line :: "md_state \<Rightarrow> string \<Rightarrow> md_state" where
  "md_line st line =
     (if is_fence line then
        (if \<not> in_code st then (flush_all st)\<lparr>in_code := True, code_buf := []\<rparr>
         else st\<lparr>md_out := md_out st @ [code_block (code_buf st)], in_code := False\<rparr>)
      else if in_code st then st\<lparr>code_buf := code_buf st @ [line]\<rparr>
      else if trim line = [] then flush_all st
      else if is_rule line then (flush_all st)\<lparr>md_out := md_out (flush_all st) @ [''<hr />'']\<rparr>
      else (case heading_of line of
              Some (lvl, t) \<Rightarrow>
                (flush_all st)\<lparr>md_out := md_out (flush_all st) @
                   [''<h'' @ show_nat lvl @ ''>'' @ inline_md t @ ''</h'' @ show_nat lvl @ ''>'']\<rparr>
            | None \<Rightarrow>
                (case bullet_of line of
                   Some m \<Rightarrow> add_item Unordered m st
                 | None \<Rightarrow>
                     (case ordered_of line of
                        Some m \<Rightarrow> add_item Ordered m st
                      | None \<Rightarrow> st\<lparr>para_buf := para_buf st @ [line]\<rparr>))))"

text \<open>\<open>split(/\r?\n/)\<close>: every line but the last gives up one carriage return at its end.\<close>

definition drop_cr :: "string \<Rightarrow> string" where
  "drop_cr l = (if l \<noteq> [] \<and> last l = CHR 0x0D then butlast l else l)"

definition md_lines :: "string \<Rightarrow> string list" where
  "md_lines md = (let ls = split_on (CHR 0x0A) md in map drop_cr (butlast ls) @ [last ls])"

definition empty_md :: md_state where
  "empty_md = \<lparr>md_out = [], in_code = False, code_buf = [], para_buf = [], list_buf = [], list_kind = None\<rparr>"

definition render_markdown :: "string \<Rightarrow> string" where
  "render_markdown md =
     (let st = flush_all (foldl md_line empty_md (md_lines md));
          out = (if in_code st \<and> code_buf st \<noteq> [] then md_out st @ [code_block (code_buf st)] else md_out st)
      in join_with [CHR 0x0A] out)"

section \<open>CSS values\<close>

definition css_safe :: "string \<Rightarrow> string" where
  "css_safe v = filter (\<lambda>c. c \<notin> {CHR ''<'', CHR ''>'', dquote, squote, backtick, CHR 0x0A}) v"

fun first_match :: "(string \<Rightarrow> string option) \<Rightarrow> string \<Rightarrow> string option" where
  "first_match f [] = f []"
| "first_match f (c # s) = (case f (c # s) of Some m \<Rightarrow> Some m | None \<Rightarrow> first_match f s)"

text \<open>\<open>name\([^)]+\)\<close> at the front, in any case.\<close>

definition call_at :: "string \<Rightarrow> string \<Rightarrow> string option" where
  "call_at name s =
     (if to_lower (take (length name + 1) s) = name @ ''('' then
        (case run_to (CHR '')'') (drop (length name + 1) s) of
           None \<Rightarrow> None | Some (b, _) \<Rightarrow> Some (take (length name + 1) s @ b @ '')''))
      else None)"

definition rgb_at :: "string \<Rightarrow> string option" where
  "rgb_at s = (case call_at ''rgba'' s of Some m \<Rightarrow> Some m | None \<Rightarrow> call_at ''rgb'' s)"

definition hex_char :: "char \<Rightarrow> bool" where
  "hex_char c \<longleftrightarrow>
     (let n = of_char c :: nat in 48 \<le> n \<and> n \<le> 57 \<or> 65 \<le> n \<and> n \<le> 70 \<or> 97 \<le> n \<and> n \<le> 102)"

definition hex_at :: "string \<Rightarrow> string option" where
  "hex_at s =
     (case s of
        [] \<Rightarrow> None
      | c # r \<Rightarrow>
          let ds = takeWhile hex_char r; after = dropWhile hex_char r in
          if c = CHR ''#'' \<and> 3 \<le> length ds \<and> length ds \<le> 8 \<and> (after = [] \<or> \<not> word_char (hd after))
          then Some (c # ds) else None)"

text \<open>\<open>replace(/\s+#.*$/, '')\<close>.\<close>

fun drop_hash_comment :: "string \<Rightarrow> string" where
  "drop_hash_comment [] = []"
| "drop_hash_comment (c # s) =
     (if white_space c \<and> (case dropWhile white_space s of [] \<Rightarrow> False
         | d # r \<Rightarrow> d = CHR ''#'' \<and> (\<forall>x \<in> set r. \<not> lone_break x))
      then [] else c # drop_hash_comment s)"

definition normalize_css_color :: "string \<Rightarrow> string" where
  "normalize_css_color v =
     (if v = [] then v
      else let s = trim v in
        case first_match (call_at ''oklch'') s of
          Some m \<Rightarrow> m
        | None \<Rightarrow>
            (case first_match hex_at s of
               Some m \<Rightarrow> m
             | None \<Rightarrow>
                 (case first_match rgb_at s of
                    Some m \<Rightarrow> m
                  | None \<Rightarrow> trim (drop_hash_comment s))))"

section \<open>Lemmas\<close>

text \<open>What a browser reads back: the five entities stand for their characters.\<close>

definition entities :: "(string \<times> char) list" where
  "entities = [(''&amp;'', CHR ''&''), (''&lt;'', CHR ''<''), (''&gt;'', CHR ''>''),
     (''&quot;'', dquote), (''&#39;'', squote)]"

definition entity_at :: "string \<Rightarrow> (char \<times> string) option" where
  "entity_at s =
     (case List.find (\<lambda>e. starts_with (fst e) s) entities of
        None \<Rightarrow> None | Some (e, c) \<Rightarrow> Some (c, drop (length e) s))"

lemma entity_at_shorter: "entity_at s = Some (c, r) \<Longrightarrow> length r < length s"
  by (auto simp: entity_at_def entities_def starts_with_iff split: if_splits option.splits)

lemma entity_at_Cons [termination_simp]: "entity_at (a # s) = Some (c, r) \<Longrightarrow> length r < Suc (length s)"
  using entity_at_shorter [of "a # s" c r] by simp

fun unescape_html :: "string \<Rightarrow> string" where
  "unescape_html [] = []"
| "unescape_html (c # s) =
     (case entity_at (c # s) of Some (d, r) \<Rightarrow> d # unescape_html r | None \<Rightarrow> c # unescape_html s)"

lemma unescape_step: "unescape_html (escape_html_char c @ s) = c # unescape_html s"
proof (cases "c = CHR ''&'' \<or> c = CHR ''<'' \<or> c = CHR ''>'' \<or> c = dquote \<or> c = squote")
  case True
  then show ?thesis
    by (auto simp: escape_html_char_def entity_at_def entities_def starts_with_def dquote_def squote_def)
next
  case False
  then have "entity_at (c # s) = None"
    by (auto simp: entity_at_def entities_def starts_with_def)
  with False show ?thesis by (simp add: escape_html_char_def)
qed

lemma unescape_escape: "unescape_html (escape_html s) = s"
  by (induction s) (simp_all add: escape_html_def unescape_step)

definition markup_free :: "string \<Rightarrow> bool" where
  "markup_free s \<longleftrightarrow> (\<forall>c \<in> set s. c \<noteq> CHR ''<'' \<and> c \<noteq> CHR ''>'' \<and> c \<noteq> dquote \<and> c \<noteq> squote)"

lemma escape_html_markup_free: "markup_free (escape_html s)"
  by (auto simp: markup_free_def escape_html_def escape_html_char_def dquote_def squote_def split: if_splits)

lemma scanners_idle:
  "backtick \<notin> set s \<Longrightarrow> code_spans s = s"
  "CHR ''['' \<notin> set s \<Longrightarrow> links s = s"
  "star \<notin> set s \<Longrightarrow> bolds s = s"
  by (induction s) auto

lemma italics_idle: "star \<notin> set s \<Longrightarrow> italics first s = s"
proof (induction s arbitrary: first)
  case (Cons c s)
  then show ?case by (cases s) (auto simp: italic_if_def)
qed simp

lemma escape_keeps_out:
  "d \<in> {backtick, CHR ''['', star} \<Longrightarrow> d \<notin> set s \<Longrightarrow> d \<notin> set (escape_html s)"
  by (auto simp: escape_html_def escape_html_char_def backtick_def star_def split: if_splits)

text \<open>How many lists a run of items leaves open too few: one for every level skipped at a step.\<close>

fun skipped_levels :: "nat \<Rightarrow> (nat \<times> string) list \<Rightarrow> nat" where
  "skipped_levels last_indent [] = 0"
| "skipped_levels last_indent ((indent, h) # items) = (indent - last_indent - 1) + skipped_levels indent items"

definition opened_lists :: "tag list \<Rightarrow> nat" where
  "opened_lists ts = length (filter (\<lambda>t. t = Open_list) ts)"

definition closed_lists :: "tag list \<Rightarrow> nat" where
  "closed_lists ts = length (filter (\<lambda>t. t = Close_list) ts)"

lemma counts_append [simp]:
  "opened_lists (xs @ ys) = opened_lists xs + opened_lists ys"
  "closed_lists (xs @ ys) = closed_lists xs + closed_lists ys"
  by (simp_all add: opened_lists_def closed_lists_def)

lemma counts_basic [simp]:
  "opened_lists [] = 0" "closed_lists [] = 0"
  "opened_lists (Open_list # ts) = Suc (opened_lists ts)" "closed_lists (Open_list # ts) = closed_lists ts"
  "opened_lists (Item h # ts) = opened_lists ts" "closed_lists (Item h # ts) = closed_lists ts"
  "opened_lists (Close_list # ts) = opened_lists ts" "closed_lists (Close_list # ts) = Suc (closed_lists ts)"
  "opened_lists (replicate n Close_list) = 0" "closed_lists (replicate n Close_list) = n"
  by (simp_all add: opened_lists_def closed_lists_def)

lemma list_items_balance:
  "closed_lists (list_items last_indent items) =
   opened_lists (list_items last_indent items) + last_indent + 1 + skipped_levels last_indent items"
  by (induction last_indent items rule: list_items.induct) auto

section \<open>Properties\<close>

text \<open>
  Escaped text carries no markup and loses nothing: it has no angle bracket and no quote, so it
  can end neither an element nor an attribute, and a browser reads back exactly the text. Text
  without backticks, brackets and stars is rendered as its escape and nothing else.
\<close>

theorem escape_html_safe_and_lossless:
  "markup_free (escape_html s) \<and> unescape_html (escape_html s) = s \<and>
   (backtick \<notin> set s \<and> CHR ''['' \<notin> set s \<and> star \<notin> set s \<longrightarrow> inline_md s = escape_html s)"
  using escape_html_markup_free [of s] unescape_escape [of s] escape_keeps_out [of _ s]
  by (auto simp: inline_md_def scanners_idle italics_idle)

lemma escape_html_safe_and_lossless_witness:
  "inline_md ''a < b & c'' = ''a &lt; b &amp; c''"
proof -
  have "backtick \<notin> set ''a < b & c'' \<and> CHR ''['' \<notin> set ''a < b & c'' \<and> star \<notin> set ''a < b & c''"
    by (simp add: backtick_def star_def)
  with escape_html_safe_and_lossless [of "''a < b & c''"] have "inline_md ''a < b & c'' = escape_html ''a < b & c''"
    by blast
  also have "\<dots> = ''a &lt; b &amp; c''" by code_simp
  finally show ?thesis .
qed

text \<open>
  A rendered list closes what it opens exactly when no item is indented by more than one level
  beyond the item before it; every level skipped leaves one closing tag too many.
\<close>

theorem list_tags_balanced_iff:
  "(opened_lists (list_tags items) = closed_lists (list_tags items) \<longleftrightarrow> skipped_levels 0 items = 0) \<and>
   closed_lists (list_tags items) = opened_lists (list_tags items) + skipped_levels 0 items"
  using list_items_balance [of 0 items] by (auto simp: list_tags_def)

text \<open>A list that skips a level, and a link whose target is a script.\<close>

lemma skipped_level_unbalanced:
  "build_list_html [(0, ''a''), (2, ''b'')] Unordered =
   ''<ul><li>a</li><ul><li>b</li></ul></ul></ul>''"
  by code_simp

lemma script_link_rendered:
  "starts_with (''<a href='' @ quoted ''javascript:alert'') (inline_md ''[x](javascript:alert)'')"
  by code_simp

end
