(* ===== verification/LiveReload.thy ===== *)
theory LiveReload imports LiveSession LiveInsert begin

text \<open>
  Recovery from a handled wrapper (\<open>agent/skills/impeccable/scripts/live-browser.js\<close>, lines 9410 to
  9498): after an accept or a discard the page may still show the wrapper of that session; the
  overlay waits three seconds and reloads, a stamp in \<open>sessionStorage\<close> counts the reloads, and an
  observer that lives twelve seconds looks for wrappers that come late. A page load is an event
  like the others: it drops what the page held in memory and keeps both storages.
\<close>

section \<open>State\<close>

text \<open>What the attributes of an element say: \<open>data-impeccable-variants\<close> and \<open>-carbonize\<close>.\<close>

record marks =
  mk_variants :: "string option"
  mk_carbonize :: "string option"

datatype recovery_event = Reloaded string | Stamp_cleared string

text \<open>
  \<open>tab\<close> is \<open>sessionStorage\<close>, \<open>None\<close> where every access throws. Two fields record what happened for
  the properties: \<open>history\<close> (newest first) and \<open>refused\<close>, whether a stamp could ever not be written.
\<close>

record recovery =
  live :: live_session
  tab :: "storage option"
  current_id :: "string option"
  revision :: nat
  reload_sessions :: "string list"
  reload_timers :: "(string \<times> nat) list"
  watchers :: "(string, nat) omap"
  observers :: "(nat \<times> string \<times> nat) list"
  watch_timers :: "(nat \<times> string) list"
  next_observer :: nat
  history :: "recovery_event list"
  refused :: bool

section \<open>The stamp\<close>

definition RELOAD_KEY :: string where
  "RELOAD_KEY = ''impeccable-live-handled-wrapper-reload''"

definition reload_key :: "string \<Rightarrow> string" where
  "reload_key i = RELOAD_KEY @ '':'' @ i"

text \<open>\<open>Number(value) || 0\<close> of a stamp: a stamp that is no decimal numeral counts as none.\<close>

definition stamp_number :: "string option \<Rightarrow> nat" where
  "stamp_number v =
     (let s = trim (opt_str v) in if s \<noteq> [] \<and> list_all is_digit s then read_nat s else 0)"

definition clear_one :: "string \<Rightarrow> storage \<Rightarrow> storage" where
  "clear_one i t =
     (let t1 = remove_item t (reload_key i); legacy = opt_str (get_item t1 RELOAD_KEY) in
      if legacy = i \<or> starts_with (i @ '':'') legacy then remove_item t1 RELOAD_KEY else t1)"

definition clear_all :: "storage \<Rightarrow> storage" where
  "clear_all t =
     (let t1 = remove_item t RELOAD_KEY in
      foldl remove_item t1 (filter (starts_with (RELOAD_KEY @ '':'')) (rev (keys (entries t1)))))"

definition clear_reload_stamp :: "string option \<Rightarrow> recovery \<Rightarrow> recovery" where
  "clear_reload_stamp i st =
     st\<lparr>tab := map_option (if truthy_str i then clear_one (opt_str i) else clear_all) (tab st)\<rparr>"

section \<open>Scheduling a reload\<close>

definition wrapper_session :: "marks option \<Rightarrow> string" where
  "wrapper_session w =
     (case w of None \<Rightarrow> [] | Some m \<Rightarrow> str_or (opt_str (mk_variants m)) (opt_str (mk_carbonize m)))"

definition superseded :: "string \<Rightarrow> nat \<Rightarrow> recovery \<Rightarrow> bool" where
  "superseded i rev_seen st = deferred_recovery_superseded i rev_seen (current_id st) (revision st)"

text \<open>The stamp as it is read, and the storage with the next one; a throw leaves the storage.\<close>

definition reload_attempts :: "string \<Rightarrow> recovery \<Rightarrow> nat" where
  "reload_attempts i st = (case tab st of None \<Rightarrow> 0 | Some t \<Rightarrow> stamp_number (get_item t (reload_key i)))"

definition write_stamp :: "string \<Rightarrow> recovery \<Rightarrow> recovery" where
  "write_stamp i st =
     (case tab st of
        None \<Rightarrow> st\<lparr>refused := True\<rparr>
      | Some t \<Rightarrow>
          (case set_item t (reload_key i) (show_nat (reload_attempts i st + 1)) of
             Inl _ \<Rightarrow> st\<lparr>refused := True\<rparr>
           | Inr t' \<Rightarrow> st\<lparr>tab := Some t'\<rparr>))"

definition schedule_reload :: "marks option \<Rightarrow> nat \<Rightarrow> recovery \<Rightarrow> bool \<times> recovery" where
  "schedule_reload wrapper rev_seen st =
     (let i = wrapper_session wrapper in
      if i = [] \<or> \<not> is_handled i (live st) then (False, st)
      else if superseded i rev_seen st then (True, st)
      else if i \<in> set (reload_sessions st) then (True, st)
      else if reload_attempts i st \<ge> 2 then (True, st)
      else let st1 = write_stamp i st in
        (True, st1\<lparr>reload_sessions := reload_sessions st1 @ [i],
                   reload_timers := reload_timers st1 @ [(i, rev_seen)]\<rparr>))"

text \<open>\<open>document\<close> is what the selectors of lines 9458 and 9478 can find, in document order.\<close>

definition wrapper_of :: "string \<Rightarrow> marks list \<Rightarrow> marks option" where
  "wrapper_of i document = List.find (\<lambda>m. mk_variants m = Some i \<or> mk_carbonize m = Some i) document"

text \<open>A load of the page: a new instance of the script, with \<open>owner\<close> its id.\<close>

definition load_page :: "string \<Rightarrow> recovery \<Rightarrow> recovery" where
  "load_page owner st =
     st\<lparr>live := (live st)\<lparr>ls_revision := 0, ls_owner := owner\<rparr>, current_id := None, revision := 0,
        reload_sessions := [], reload_timers := [], watchers := [], observers := [],
        watch_timers := [], next_observer := 0\<rparr>"

definition give_up :: "string \<Rightarrow> recovery \<Rightarrow> recovery" where
  "give_up i st =
     (let st1 = clear_reload_stamp (Some i) st in
      st1\<lparr>reload_sessions := filter (\<lambda>j. j \<noteq> i) (reload_sessions st1),
          history := Stamp_cleared i # history st1\<rparr>)"

text \<open>The timer of line 9452, the \<open>k\<close>th of those pending.\<close>

definition reload_timer :: "nat \<Rightarrow> marks list \<Rightarrow> string \<Rightarrow> recovery \<Rightarrow> recovery" where
  "reload_timer k document owner st =
     (if k \<ge> length (reload_timers st) then st
      else
        let (i, rev_seen) = reload_timers st ! k;
            st1 = st\<lparr>reload_timers := take k (reload_timers st) @ drop (k + 1) (reload_timers st)\<rparr>
        in if superseded i rev_seen st1 then give_up i st1
           else if wrapper_of i document \<noteq> None
           then load_page owner (st1\<lparr>history := Reloaded i # history st1\<rparr>)
           else give_up i st1)"

section \<open>Watching for late wrappers\<close>

definition find_handled_wrapper :: "string \<Rightarrow> nat \<Rightarrow> marks list \<Rightarrow> recovery \<Rightarrow> recovery" where
  "find_handled_wrapper i rev_seen document st =
     (case wrapper_of i document of None \<Rightarrow> st | Some m \<Rightarrow> snd (schedule_reload (Some m) rev_seen st))"

definition disconnect :: "nat \<Rightarrow> recovery \<Rightarrow> recovery" where
  "disconnect n st = st\<lparr>observers := filter (\<lambda>e. fst e \<noteq> n) (observers st)\<rparr>"

definition drop_watcher :: "string \<Rightarrow> recovery \<Rightarrow> recovery" where
  "drop_watcher i st =
     (case map_of (watchers st) i of
        None \<Rightarrow> st
      | Some n \<Rightarrow> (disconnect n st)\<lparr>watch_timers := filter (\<lambda>e. fst e \<noteq> n) (watch_timers st)\<rparr>)"

definition watch_handled :: "string option \<Rightarrow> nat \<Rightarrow> bool \<Rightarrow> marks list \<Rightarrow> recovery \<Rightarrow> recovery" where
  "watch_handled i rev_seen has_body document st =
     (if \<not> truthy_str i \<or> \<not> has_body then st
      else
        let s = opt_str i; st1 = drop_watcher s st; n = next_observer st1;
            st2 = st1\<lparr>observers := observers st1 @ [(n, s, rev_seen)],
                      watch_timers := watch_timers st1 @ [(n, s)],
                      watchers := omap_set s n (watchers st1), next_observer := n + 1\<rparr>
        in find_handled_wrapper s rev_seen document st2)"

text \<open>A change of the document: every connected observer looks.\<close>

definition mutation :: "marks list \<Rightarrow> recovery \<Rightarrow> recovery" where
  "mutation document st =
     foldl (\<lambda>s (n, i, rev_seen). find_handled_wrapper i rev_seen document s) st (observers st)"

text \<open>The timer of line 9491.\<close>

definition watch_timer :: "nat \<Rightarrow> recovery \<Rightarrow> recovery" where
  "watch_timer k st =
     (if k \<ge> length (watch_timers st) then st
      else
        let (n, i) = watch_timers st ! k;
            st1 = st\<lparr>watch_timers := take k (watch_timers st) @ drop (k + 1) (watch_timers st)\<rparr>
        in if map_of (watchers st1) i \<noteq> Some n then st1
           else (disconnect n st1)\<lparr>watchers := omap_del i (watchers st1)\<rparr>)"

section \<open>Runs\<close>

datatype recovery_step =
    See "marks option" nat
  | Reload_timer nat "marks list" string
  | Watch "string option" nat bool "marks list"
  | Mutation "marks list"
  | Watch_timer nat
  | Handle string
  | Configure
  | Enter "string option"
  | Load string

definition recovery_step :: "recovery_step \<Rightarrow> recovery \<Rightarrow> recovery" where
  "recovery_step e st =
     (case e of
        See w r \<Rightarrow> snd (schedule_reload w r st)
      | Reload_timer k d owner \<Rightarrow> reload_timer k d owner st
      | Watch i r b d \<Rightarrow> watch_handled i r b d st
      | Mutation d \<Rightarrow> mutation d st
      | Watch_timer k \<Rightarrow> watch_timer k st
      | Handle i \<Rightarrow> st\<lparr>live := mark_handled i (live st)\<rparr>
      | Configure \<Rightarrow> st\<lparr>revision := revision st + 1\<rparr>
      | Enter i \<Rightarrow> st\<lparr>current_id := i\<rparr>
      | Load owner \<Rightarrow> load_page owner st)"

definition recovery_run :: "recovery_step list \<Rightarrow> recovery \<Rightarrow> recovery" where
  "recovery_run es st = foldl (\<lambda>s e. recovery_step e s) st es"

section \<open>Lemmas\<close>

lemma reload_key_inj [simp]: "reload_key i = reload_key j \<longleftrightarrow> i = j" "reload_key i \<noteq> RELOAD_KEY" "RELOAD_KEY \<noteq> reload_key i"
  by (simp_all add: reload_key_def)

lemma trim_plain: "\<forall>c \<in> set s. \<not> white_space c \<Longrightarrow> trim s = s"
proof -
  assume *: "\<forall>c \<in> set s. \<not> white_space c"
  have "dropWhile white_space xs = xs" if "\<forall>c \<in> set xs. \<not> white_space c" for xs
    using that by (cases xs) auto
  from this [of s] this [of "rev s"] * show ?thesis by (simp add: trim_def trim_start_def trim_end_def)
qed

lemma stamp_show [simp]: "stamp_number (Some (show_nat n)) = n"
proof -
  have "\<forall>c \<in> set (show_nat n). \<not> white_space c"
    using show_nat_digits [of n] by (auto simp: list_all_iff is_digit_def white_space_def)
  then show ?thesis using show_nat_digits [of n] by (simp add: stamp_number_def opt_str_def trim_plain)
qed

lemma stamp_none [simp]: "stamp_number None = 0"
  by (simp add: stamp_number_def opt_str_def Let_def trim_plain)

lemma get_clear_one: "get_item (clear_one i t) (reload_key j) = (if j = i then None else get_item t (reload_key j))"
  by (simp add: clear_one_def Let_def items.get_del)

fun reloads_since :: "string \<Rightarrow> recovery_event list \<Rightarrow> nat" where
  "reloads_since i [] = 0"
| "reloads_since i (Reloaded j # es) = (if j = i then Suc (reloads_since i es) else reloads_since i es)"
| "reloads_since i (Stamp_cleared j # es) = (if j = i then 0 else reloads_since i es)"

definition budget_kept :: "string \<Rightarrow> recovery \<Rightarrow> bool" where
  "budget_kept i st \<longleftrightarrow> refused st \<or>
     (reloads_since i (history st) + (if i \<in> set (reload_sessions st) then 1 else 0) \<le> reload_attempts i st \<and>
      reload_attempts i st \<le> 2)"

definition timers_ok :: "recovery \<Rightarrow> bool" where
  "timers_ok st \<longleftrightarrow> distinct (map fst (reload_timers st)) \<and> fst ` set (reload_timers st) \<subseteq> set (reload_sessions st) \<and>
     [] \<notin> set (reload_sessions st)"

lemma reload_attempts_frame [simp]:
  "reload_attempts i (st\<lparr>reload_timers := ts\<rparr>) = reload_attempts i st"
  "reload_attempts i (st\<lparr>reload_sessions := is\<rparr>) = reload_attempts i st"
  "reload_attempts i (st\<lparr>history := es\<rparr>) = reload_attempts i st"
  "reload_attempts i (st\<lparr>live := l\<rparr>) = reload_attempts i st"
  "reload_attempts i (st\<lparr>current_id := c\<rparr>) = reload_attempts i st"
  "reload_attempts i (st\<lparr>revision := n\<rparr>) = reload_attempts i st"
  "reload_attempts i (st\<lparr>observers := obs\<rparr>) = reload_attempts i st"
  "reload_attempts i (st\<lparr>watchers := ws\<rparr>) = reload_attempts i st"
  "reload_attempts i (st\<lparr>watch_timers := wts\<rparr>) = reload_attempts i st"
  "reload_attempts i (st\<lparr>next_observer := n\<rparr>) = reload_attempts i st"
  by (simp_all add: reload_attempts_def)

lemma write_stamp_frame [simp]:
  "reload_sessions (write_stamp i st) = reload_sessions st" "reload_timers (write_stamp i st) = reload_timers st"
  "history (write_stamp i st) = history st" "observers (write_stamp i st) = observers st"
  "watchers (write_stamp i st) = watchers st" "watch_timers (write_stamp i st) = watch_timers st"
  "next_observer (write_stamp i st) = next_observer st" "refused st \<Longrightarrow> refused (write_stamp i st)"
  by (simp_all add: write_stamp_def split: option.split sum.split)

lemma write_stamp_attempts:
  "refused (write_stamp i st) \<or> reload_attempts j (write_stamp i st) = (if j = i then reload_attempts i st + 1 else reload_attempts j st)"
proof (cases "tab st")
  case (Some t)
  show ?thesis
  proof (cases "set_item t (reload_key i) (show_nat (reload_attempts i st + 1))")
    case (Inr t')
    then have "get_item t' (reload_key j) = (if j = i then Some (show_nat (reload_attempts i st + 1)) else get_item t (reload_key j))"
      using items.get_put [OF Inr, of "reload_key j"] by simp
    with Some Inr show ?thesis by (simp add: write_stamp_def reload_attempts_def)
  qed (simp add: write_stamp_def Some)
qed (simp add: write_stamp_def)

lemma schedule_keeps_budget:
  assumes "budget_kept i st" shows "budget_kept i (snd (schedule_reload w r st))"
proof -
  let ?j = "wrapper_session w"
  have "budget_kept i (write_stamp ?j st\<lparr>reload_sessions := reload_sessions st @ [?j], reload_timers := ts\<rparr>)"
    if "\<not> 2 \<le> reload_attempts ?j st" "?j \<notin> set (reload_sessions st)" for ts
    using assms that write_stamp_attempts [of ?j st i]
    by (cases "refused st") (auto simp: budget_kept_def)
  with assms show ?thesis by (simp add: schedule_reload_def Let_def)
qed

lemma schedule_keeps_timers:
  assumes "timers_ok st" shows "timers_ok (snd (schedule_reload w r st))"
  using assms by (auto simp: schedule_reload_def Let_def timers_ok_def)

lemma give_up_attempts:
  "j \<noteq> [] \<Longrightarrow> reload_attempts i (give_up j st) = (if i = j then 0 else reload_attempts i st)"
  by (auto simp: give_up_def clear_reload_stamp_def reload_attempts_def truthy_str_def opt_str_def
      get_clear_one Let_def split: option.split)

lemma give_up_frame [simp]:
  "refused (give_up j st) = refused st" "history (give_up j st) = Stamp_cleared j # history st"
  "reload_sessions (give_up j st) = filter (\<lambda>x. x \<noteq> j) (reload_sessions st)"
  "reload_timers (give_up j st) = reload_timers st"
  by (simp_all add: give_up_def clear_reload_stamp_def Let_def)

lemma give_up_keeps_budget: "budget_kept i st \<Longrightarrow> j \<noteq> [] \<Longrightarrow> budget_kept i (give_up j st)"
  using give_up_attempts [of j i st] by (auto simp: budget_kept_def)

lemma load_page_frame [simp]:
  "refused (load_page owner st) = refused st" "history (load_page owner st) = history st"
  "reload_sessions (load_page owner st) = []" "reload_timers (load_page owner st) = []"
  "reload_attempts i (load_page owner st) = reload_attempts i st"
  by (simp_all add: load_page_def reload_attempts_def)

lemma distinct_drop_nth:
  assumes "distinct xs" and "k < length xs"
  shows "distinct (take k xs @ drop (k + 1) xs) \<and> xs ! k \<notin> set (take k xs @ drop (k + 1) xs)"
proof -
  have "xs = take k xs @ xs ! k # drop (Suc k) xs" using assms(2) by (rule id_take_nth_drop)
  with assms(1) have "distinct (take k xs @ xs ! k # drop (Suc k) xs)" by metis
  then show ?thesis by auto
qed

lemma reload_timer_keeps:
  assumes "budget_kept i st" and "timers_ok st"
  shows "budget_kept i (reload_timer k d owner st) \<and> timers_ok (reload_timer k d owner st)"
proof (cases "k < length (reload_timers st)")
  case True
  obtain j r where nth: "reload_timers st ! k = (j, r)" by force
  let ?rest = "take k (reload_timers st) @ drop (k + 1) (reload_timers st)"
  let ?st = "st\<lparr>reload_timers := ?rest\<rparr>"
  have "(j, r) \<in> set (reload_timers st)" using nth True by (metis nth_mem)
  then have j: "j \<in> set (reload_sessions st)" "j \<noteq> []"
    using assms(2) by (auto simp: timers_ok_def)
  have "distinct (map fst (reload_timers st))" using assms(2) by (simp add: timers_ok_def)
  then have rest: "distinct (map fst ?rest)" "j \<notin> fst ` set ?rest"
    using True distinct_drop_nth [of "map fst (reload_timers st)" k] nth
    by (simp_all add: take_map drop_map image_Un)
  have sub: "set ?rest \<subseteq> set (reload_timers st)"
    using set_take_subset [of k "reload_timers st"] set_drop_subset [of "k + 1" "reload_timers st"] by auto
  have st: "budget_kept i ?st" "refused ?st \<or> reloads_since i (Reloaded j # history st) \<le> reload_attempts i st \<and> reload_attempts i st \<le> 2"
    using assms(1) j by (auto simp: budget_kept_def split: if_splits)
  have up: "budget_kept i (give_up j ?st)" using give_up_keeps_budget [OF st(1) j(2)] .
  have "fst ` set ?rest \<subseteq> set (reload_sessions st) - {j}"
    using assms(2) rest(2) image_mono [OF sub, of fst] by (auto simp: timers_ok_def)
  then have up_timers: "timers_ok (give_up j ?st)"
    using assms(2) rest(1) by (auto simp: timers_ok_def)
  have load: "budget_kept i (load_page owner (?st\<lparr>history := Reloaded j # history ?st\<rparr>))"
      "timers_ok (load_page owner (?st\<lparr>history := Reloaded j # history ?st\<rparr>))"
    using st(2) by (auto simp: budget_kept_def timers_ok_def)
  show ?thesis using True nth up up_timers load by (simp add: reload_timer_def Let_def)
qed (use assms in \<open>simp add: reload_timer_def\<close>)

text \<open>The two invariants together, and every step of a run.\<close>

definition recovery_ok :: "string \<Rightarrow> recovery \<Rightarrow> bool" where
  "recovery_ok i st \<longleftrightarrow> budget_kept i st \<and> timers_ok st"

lemma find_handled_ok: "recovery_ok i st \<Longrightarrow> recovery_ok i (find_handled_wrapper j r d st)"
  by (simp add: recovery_ok_def find_handled_wrapper_def schedule_keeps_budget schedule_keeps_timers split: option.split)

lemma recovery_ok_frame [simp]:
  "recovery_ok i (st\<lparr>observers := obs\<rparr>) = recovery_ok i st" "recovery_ok i (st\<lparr>watchers := ws\<rparr>) = recovery_ok i st"
  "recovery_ok i (st\<lparr>watch_timers := wts\<rparr>) = recovery_ok i st" "recovery_ok i (st\<lparr>next_observer := n\<rparr>) = recovery_ok i st"
  "recovery_ok i (st\<lparr>live := l\<rparr>) = recovery_ok i st" "recovery_ok i (st\<lparr>revision := n\<rparr>) = recovery_ok i st"
  "recovery_ok i (st\<lparr>current_id := c\<rparr>) = recovery_ok i st"
  by (simp_all add: recovery_ok_def budget_kept_def timers_ok_def)

lemma drop_watcher_ok [simp]: "recovery_ok i (drop_watcher j st) = recovery_ok i st"
  by (simp add: drop_watcher_def disconnect_def split: option.split)

lemma mutation_ok: "recovery_ok i st \<Longrightarrow> recovery_ok i (mutation d st)"
proof -
  have "recovery_ok i (foldl (\<lambda>s (n, i, r). find_handled_wrapper i r d s) s obs)" if "recovery_ok i s" for s obs
    using that by (induction obs arbitrary: s) (auto simp: find_handled_ok)
  then show "recovery_ok i st \<Longrightarrow> recovery_ok i (mutation d st)" by (simp add: mutation_def)
qed

lemma schedule_ok: "recovery_ok i st \<Longrightarrow> recovery_ok i (snd (schedule_reload w r st))"
  by (simp add: recovery_ok_def schedule_keeps_budget schedule_keeps_timers)

lemma reload_timer_ok: "recovery_ok i st \<Longrightarrow> recovery_ok i (reload_timer k d owner st)"
  using reload_timer_keeps [of i st k d owner] by (simp add: recovery_ok_def)

lemma load_page_ok: "recovery_ok i st \<Longrightarrow> recovery_ok i (load_page owner st)"
  by (auto simp: recovery_ok_def budget_kept_def timers_ok_def split: if_splits)

lemma recovery_step_ok: "recovery_ok i st \<Longrightarrow> recovery_ok i (recovery_step e st)"
proof (cases e)
  case (Watch j r b d)
  show "recovery_ok i st \<Longrightarrow> ?thesis" unfolding Watch recovery_step_def watch_handled_def Let_def
    by (auto intro!: find_handled_ok)
next
  case (Watch_timer k)
  show "recovery_ok i st \<Longrightarrow> ?thesis" unfolding Watch_timer
    by (simp add: recovery_step_def watch_timer_def Let_def disconnect_def split: prod.split)
qed (auto simp: recovery_step_def mutation_ok load_page_ok schedule_ok reload_timer_ok)

lemma recovery_run_ok: "recovery_ok i st \<Longrightarrow> recovery_ok i (recovery_run es st)"
  unfolding recovery_run_def by (induction es arbitrary: st) (auto simp: recovery_step_ok)

text \<open>The observers: each one connected is the watcher of its session and has its timer.\<close>

definition watch_ok :: "recovery \<Rightarrow> bool" where
  "watch_ok st \<longleftrightarrow>
     distinct (map fst (observers st)) \<and> (\<forall>e \<in> set (observers st). fst e < next_observer st) \<and>
     (\<forall>(n, i, r) \<in> set (observers st). map_of (watchers st) i = Some n \<and> (n, i) \<in> set (watch_timers st))"

lemma schedule_watch_frame [simp]:
  "observers (snd (schedule_reload w r st)) = observers st" "watchers (snd (schedule_reload w r st)) = watchers st"
  "watch_timers (snd (schedule_reload w r st)) = watch_timers st"
  "next_observer (snd (schedule_reload w r st)) = next_observer st"
  by (simp_all add: schedule_reload_def Let_def)

lemma watch_ok_cong:
  "observers s = observers t \<Longrightarrow> watchers s = watchers t \<Longrightarrow> watch_timers s = watch_timers t \<Longrightarrow>
   next_observer s = next_observer t \<Longrightarrow> watch_ok s = watch_ok t"
  by (simp add: watch_ok_def)

lemma schedule_watch [simp]: "watch_ok (snd (schedule_reload w r st)) = watch_ok st"
  by (rule watch_ok_cong) simp_all

lemma find_watch [simp]: "watch_ok (find_handled_wrapper j r d st) = watch_ok st"
  by (simp add: find_handled_wrapper_def split: option.split)

lemma mutation_watch: "watch_ok st \<Longrightarrow> watch_ok (mutation d st)"
proof -
  have "watch_ok (foldl (\<lambda>s (n, i, r). find_handled_wrapper i r d s) s obs)" if "watch_ok s" for s obs
    using that by (induction obs arbitrary: s) auto
  then show "watch_ok st \<Longrightarrow> watch_ok (mutation d st)" by (simp add: mutation_def)
qed

lemma reload_timer_watch: "watch_ok st \<Longrightarrow> watch_ok (reload_timer k d owner st)"
proof -
  assume ok: "watch_ok st"
  have "watch_ok (st\<lparr>reload_timers := ts\<rparr>)" for ts using ok by (simp add: watch_ok_def)
  moreover have "watch_ok (give_up j s) = watch_ok s" for j s
    by (rule watch_ok_cong) (simp_all add: give_up_def clear_reload_stamp_def Let_def)
  moreover have "watch_ok (load_page ow s)" for ow s by (simp add: watch_ok_def load_page_def)
  ultimately show ?thesis using ok by (simp add: reload_timer_def Let_def split: prod.split)
qed

lemma distinct_fst_filter: "distinct (map fst xs) \<Longrightarrow> distinct (map fst (filter P xs))"
  by (rule distinct_map_filter)

lemma drop_watcher_watch:
  assumes "watch_ok st"
  shows "watch_ok (drop_watcher i st)" and "\<forall>e \<in> set (observers (drop_watcher i st)). fst (snd e) \<noteq> i"
    and "next_observer (drop_watcher i st) = next_observer st"
  using assms by (auto simp: watch_ok_def drop_watcher_def disconnect_def distinct_fst_filter split: option.split)

lemma watch_handled_watch:
  assumes "watch_ok st" shows "watch_ok (watch_handled i r b d st)"
proof -
  let ?s = "opt_str i" let ?t = "drop_watcher ?s st" let ?n = "next_observer ?t"
  note t = drop_watcher_watch [OF assms, of ?s]
  have "watch_ok (?t\<lparr>observers := observers ?t @ [(?n, ?s, r)], watch_timers := watch_timers ?t @ [(?n, ?s)],
      watchers := omap_set ?s ?n (watchers ?t), next_observer := ?n + 1\<rparr>)"
    using t(1,2) by (fastforce simp: watch_ok_def map_of_omap_set)
  then show ?thesis using assms by (simp add: watch_handled_def Let_def)
qed

lemma watch_timer_watch:
  assumes "watch_ok st" shows "watch_ok (watch_timer k st)"
proof (cases "k < length (watch_timers st)")
  case True
  obtain n i where nth: "watch_timers st ! k = (n, i)" by force
  let ?rest = "take k (watch_timers st) @ drop (k + 1) (watch_timers st)"
  have "watch_timers st = take k (watch_timers st) @ (n, i) # drop (k + 1) (watch_timers st)"
    using id_take_nth_drop [OF True] nth by simp
  then have "set (watch_timers st) = insert (n, i) (set ?rest)"
    by (metis Un_insert_right list.set(2) set_append)
  then have rest: "e \<in> set ?rest" if "e \<in> set (watch_timers st)" "e \<noteq> (n, i)" for e
    using that by blast
  show ?thesis
  proof (cases "map_of (watchers st) i = Some n")
    case True
    have "map_of (omap_del i (watchers st)) j = Some m \<and> (m, j) \<in> set ?rest"
      if "(m, j, r) \<in> set (observers st)" "m \<noteq> n" for m j r
      using that assms True rest [of "(m, j)"] by (fastforce simp: watch_ok_def map_of_omap_del)
    then show ?thesis using assms True \<open>k < length (watch_timers st)\<close> nth
      by (auto simp: watch_timer_def watch_ok_def disconnect_def distinct_fst_filter)
  next
    case False
    have "(m, j) \<in> set ?rest" if "(m, j, r) \<in> set (observers st)" for m j r
      using that assms False rest [of "(m, j)"] by (fastforce simp: watch_ok_def)
    then show ?thesis using assms False \<open>k < length (watch_timers st)\<close> nth
      by (auto simp: watch_timer_def watch_ok_def)
  qed
qed (use assms in \<open>simp add: watch_timer_def\<close>)

lemma recovery_step_watch: "watch_ok st \<Longrightarrow> watch_ok (recovery_step e st)"
  by (cases e) (simp_all add: recovery_step_def reload_timer_watch watch_handled_watch mutation_watch watch_timer_watch,
      simp_all add: watch_ok_def load_page_def)

lemma recovery_run_watch: "watch_ok st \<Longrightarrow> watch_ok (recovery_run es st)"
  unfolding recovery_run_def by (induction es arbitrary: st) (auto simp: recovery_step_watch)

section \<open>Properties\<close>

text \<open>The page as it is first loaded, over a durable session and a tab's storage.\<close>

definition recovery_start :: "live_session \<Rightarrow> storage option \<Rightarrow> recovery" where
  "recovery_start l t =
     \<lparr>live = l, tab = t, current_id = None, revision = 0, reload_sessions = [], reload_timers = [],
      watchers = [], observers = [], watch_timers = [], next_observer = 0, history = [], refused = False\<rparr>"

text \<open>
  C4: A stale wrapper cannot keep the page in a reload loop. Whatever is seen, handled, configured or
  loaded, and in whatever order the timers and observers fire, the overlay reloads the page for one
  session at most twice until it clears that session's stamp, as long as the tab's storage takes
  the stamps.
\<close>

theorem reload_budget:
  assumes "get_item t (reload_key i) = None"
    and "\<not> refused (recovery_run es (recovery_start l (Some t)))"
  shows "reloads_since i (history (recovery_run es (recovery_start l (Some t)))) \<le> 2"
proof -
  have "recovery_ok i (recovery_start l (Some t))"
    using assms(1) by (simp add: recovery_ok_def budget_kept_def timers_ok_def recovery_start_def reload_attempts_def)
  from recovery_run_ok [OF this, of es] assms(2) show ?thesis
    by (auto simp: recovery_ok_def budget_kept_def split: if_splits)
qed

definition stale_mark :: marks where
  "stale_mark = \<lparr>mk_variants = Some ''s1'', mk_carbonize = None\<rparr>"

definition stale_rounds :: "nat \<Rightarrow> recovery_step list" where
  "stale_rounds n = concat (replicate n [See (Some stale_mark) 0, Reload_timer 0 [stale_mark] ''o''])"

lemma reload_budget_witness:
  "reloads_since ''s1'' (history (recovery_run (Handle ''s1'' # stale_rounds 3)
     (recovery_start sample_live (Some (empty_storage 100))))) = 2"
proof -
  let ?st = "recovery_run (Handle ''s1'' # stale_rounds 3) (recovery_start sample_live (Some (empty_storage 100)))"
  have "\<not> refused ?st" by code_simp
  from reload_budget [OF _ this] have "reloads_since ''s1'' (history ?st) \<le> 2" by simp
  moreover have "\<not> reloads_since ''s1'' (history ?st) < 2" by code_simp
  ultimately show ?thesis by simp
qed

text \<open>
  The stamp is the only guard: where the tab's storage throws, every load that finds the wrapper
  of a handled session reloads once more, \<open>n\<close> rounds giving \<open>n\<close> reloads.
\<close>

lemma is_handled_page [simp]: "is_handled i (l\<lparr>ls_revision := n, ls_owner := ow\<rparr>) = is_handled i l"
  by (simp add: is_handled_def read_handled_ids_def safe_read_def handled_key_def session_key_def)

lemma stale_round_unstamped:
  assumes "tab st = None" and "is_handled ''s1'' (live st)" and "current_id st = None" and "revision st = 0"
    and "reload_sessions st = []" and "reload_timers st = []"
  shows "let st' = recovery_run (stale_rounds 1) st in
    history st' = Reloaded ''s1'' # history st \<and> tab st' = None \<and> is_handled ''s1'' (live st') \<and>
    current_id st' = None \<and> revision st' = 0 \<and> reload_sessions st' = [] \<and> reload_timers st' = []"
  using assms
  by (simp add: stale_rounds_def recovery_run_def recovery_step_def schedule_reload_def wrapper_session_def stale_mark_def
      opt_str_def str_or_def superseded_def deferred_recovery_superseded_def truthy_str_def write_stamp_def
      reload_attempts_def reload_timer_def wrapper_of_def load_page_def Let_def)

lemma stale_rounds_Suc: "recovery_run (stale_rounds (Suc n)) st = recovery_run (stale_rounds n) (recovery_run (stale_rounds 1) st)"
  by (simp add: stale_rounds_def recovery_run_def)

lemma unstamped_reload_loop:
  assumes "tab st = None" and "is_handled ''s1'' (live st)" and "current_id st = None" and "revision st = 0"
    and "reload_sessions st = []" and "reload_timers st = []"
  shows "reloads_since ''s1'' (history (recovery_run (stale_rounds n) st)) = n + reloads_since ''s1'' (history st)"
  using assms
proof (induction n arbitrary: st)
  case 0
  then show ?case by (simp add: stale_rounds_def recovery_run_def)
next
  case (Suc n)
  show ?case using stale_round_unstamped [OF Suc.prems] Suc.IH [of "recovery_run (stale_rounds 1) st"]
    unfolding stale_rounds_Suc [of n] by (simp add: Let_def)
qed

text \<open>
  The search for late wrappers is bounded: at any time each session has at most one observer
  connected, and each connected observer still has the pending timer that will disconnect it.
\<close>

theorem late_watch_bounded:
  "(\<forall>n i r. (n, i, r) \<in> set (observers (recovery_run es (recovery_start l t))) \<longrightarrow>
      (n, i) \<in> set (watch_timers (recovery_run es (recovery_start l t)))) \<and>
   distinct (map (\<lambda>e. fst (snd e)) (observers (recovery_run es (recovery_start l t))))"
proof -
  let ?st = "recovery_run es (recovery_start l t)"
  have "watch_ok (recovery_start l t)" by (simp add: watch_ok_def recovery_start_def)
  then have ok: "watch_ok ?st" by (rule recovery_run_watch)
  have "distinct (map (\<lambda>e. fst (snd e)) obs)"
    if "distinct (map fst obs)" "\<forall>(n, i, r) \<in> set obs. map_of ws i = Some n" for obs :: "(nat \<times> string \<times> nat) list" and ws
    using that by (induction obs) (force simp: image_iff)+
  with ok show ?thesis unfolding watch_ok_def by fastforce
qed

lemma late_watch_bounded_witness:
  "distinct (map (\<lambda>e. fst (snd e)) (observers (recovery_run [Watch (Some ''s1'') 0 True [], Watch (Some ''s1'') 1 True []]
     (recovery_start sample_live None)))) \<and>
   length (observers (recovery_run [Watch (Some ''s1'') 0 True [], Watch (Some ''s1'') 1 True []]
     (recovery_start sample_live None))) = 1"
proof
  show "distinct (map (\<lambda>e. fst (snd e)) (observers (recovery_run [Watch (Some ''s1'') 0 True [], Watch (Some ''s1'') 1 True []]
     (recovery_start sample_live None))))"
    using late_watch_bounded by blast
qed code_simp

end
