(* ===== verification/LiveResume.thy ===== *)
theory LiveResume imports LiveReload begin

text \<open>
  How the live overlay finds its session again (\<open>agent/skills/impeccable/scripts/live-browser.js\<close>,
  lines 8975 to 9245 and 9500 to 9685) and the checkpoints it sends (lines 7405 to 7452): the saved
  session and the server's summaries as JSON values, the session as the fields of \<open>overlay\<close>, what
  the page shows as the record \<open>page\<close>. Searches of the document are fields of \<open>page\<close>; calls that
  only draw or talk to the server are recorded in order in \<open>effects\<close>; two of them,
  \<open>Show_variant\<close> and \<open>Refresh_params\<close>, also change parameters: \<open>LiveEvents\<close> carries them out.

  Session ids are strings: an id of another type counts as missing. Counts are integers or \<open>NaN\<close>
  (\<open>None\<close>): a fraction, and a numeral other than decimal digits with a sign, counts as \<open>NaN\<close>.
\<close>

section \<open>Numbers\<close>

type_synonym num = "int option"

definition num_truthy :: "num \<Rightarrow> bool" where
  "num_truthy x \<longleftrightarrow> x \<noteq> None \<and> x \<noteq> Some 0"

definition num_or :: "num \<Rightarrow> num \<Rightarrow> num" where
  "num_or x y = (if num_truthy x then x else y)"

definition num_le :: "num \<Rightarrow> num \<Rightarrow> bool" where
  "num_le x y \<longleftrightarrow> (case (x, y) of (Some m, Some n) \<Rightarrow> m \<le> n | _ \<Rightarrow> False)"

definition num_less :: "num \<Rightarrow> num \<Rightarrow> bool" where
  "num_less x y \<longleftrightarrow> (case (x, y) of (Some m, Some n) \<Rightarrow> m < n | _ \<Rightarrow> False)"

definition number_of_str :: "string \<Rightarrow> num" where
  "number_of_str t =
     (let s = trim t; (sign, ds) = (case s of c # r \<Rightarrow> if c = CHR ''-'' then (- 1, r) else if c = CHR ''+'' then (1, r) else (1, s)
                                    | [] \<Rightarrow> (1, []))
      in if s = [] then Some 0
         else if ds \<noteq> [] \<and> list_all is_digit ds then Some (sign * int (read_nat ds)) else None)"

text \<open>\<open>Number(v)\<close>, \<open>None\<close> as argument being \<open>undefined\<close>.\<close>

fun js_number :: "json option \<Rightarrow> num" where
  "js_number None = None"
| "js_number (Some JNull) = Some 0"
| "js_number (Some (JBool b)) = Some (if b then 1 else 0)"
| "js_number (Some (JNum n)) = Some n"
| "js_number (Some (JStr s)) = number_of_str s"
| "js_number (Some _) = None"

text \<open>\<open>a || b || \<dots> || c\<close>: the first truthy operand, or the last one.\<close>

fun first_truthy :: "json option list \<Rightarrow> json option" where
  "first_truthy [] = None"
| "first_truthy [v] = v"
| "first_truthy (v # w # vs) =
     (case v of None \<Rightarrow> first_truthy (w # vs) | Some x \<Rightarrow> if json_truthy x then v else first_truthy (w # vs))"

definition field :: "string \<Rightarrow> json option \<Rightarrow> json option" where
  "field key v = Option.bind v (json_get key)"

definition truthy_field :: "string \<Rightarrow> json option \<Rightarrow> json option" where
  "truthy_field key v = (case field key v of None \<Rightarrow> None | Some x \<Rightarrow> if json_truthy x then Some x else None)"

section \<open>State\<close>

record svelte_session =
  sv_id :: string
  sv_mounted :: int
  sv_count :: "json option"
  sv_params :: "(string \<times> json) list"

datatype 'e effect =
    Show_bar string
  | Start_scroll_tracking
  | Observe string
  | Checkpoint json
  | Inject string string bool
  | Recover string string
  | Show_variant string num
  | Hide_shader
  | Restart_shader 'e
  | Refresh_params
  | Disable_inline_edit
  | Finalize_insert
  | Remove_wrapper 'e
  | Scroll_lock string "string option" "json option"

record 'e overlay =
  rec :: recovery
  state :: live_state
  expected :: num
  arrived :: num
  visible :: num
  source_file :: "string option"
  preview_file :: "string option"
  preview_mode :: "json option"
  waiting_for_anchor :: bool
  picked_anchor :: "json option"
  anchor_top :: "json option"
  insert_placeholder :: "json option"
  sel_action :: json
  sel_count :: json
  param_values :: "(string \<times> json) list"
  param_state :: json
  gen_phase :: "json option"
  svelte :: "svelte_session option"
  selected :: "'e option"
  checkpoint_timer :: "string option"
  completions :: "(string \<times> string) list"
  effects :: "'e effect list"

text \<open>
  A wrapper: its attributes, how many variants it holds, what shows variant \<open>n\<close> or \<open>original\<close>
  (\<open>pickVariantContent\<close>), the element itself and its parent.
\<close>

record 'e wrapper =
  wr_marks :: marks
  wr_preview :: "string option"
  wr_count :: "string option"
  wr_mode :: "string option"
  wr_variants :: nat
  wr_content :: "int option \<Rightarrow> 'e option"
  wr_element :: 'e
  wr_parent :: "'e option"

text \<open>
  The page: its address, \<open>new URL(value, location.origin).pathname\<close> (\<open>None\<close> where it throws), the
  project the server runs for, and what the searches of the document find.
\<close>

record 'e page =
  pathname :: string
  hash :: string
  search :: string
  url_pathname :: "string \<Rightarrow> string option"
  app_root :: string
  wrappers :: "'e wrapper list"
  carbonized :: "marks option"
  find_anchor :: "json option \<Rightarrow> 'e option"
  svelte_anchor :: "'e option"
  insert_spot :: "'e option"
  insert_anchor :: "'e option"
  body :: 'e

definition emit :: "'e effect list \<Rightarrow> 'e overlay \<Rightarrow> 'e overlay" where
  "emit es ov = ov\<lparr>effects := effects ov @ es\<rparr>"

definition set_current :: "string option \<Rightarrow> 'e overlay \<Rightarrow> 'e overlay" where
  "set_current i ov = ov\<lparr>rec := (rec ov)\<lparr>current_id := i\<rparr>\<rparr>"

definition set_live :: "live_session \<Rightarrow> 'e overlay \<Rightarrow> 'e overlay" where
  "set_live l ov = ov\<lparr>rec := (rec ov)\<lparr>live := l\<rparr>\<rparr>"

abbreviation current :: "'e overlay \<Rightarrow> string option" where "current ov \<equiv> current_id (rec ov)"

abbreviation lives :: "'e overlay \<Rightarrow> live_session" where "lives ov \<equiv> live (rec ov)"

section \<open>What a session remembers of its files\<close>

definition normalize_session_path :: "json option \<Rightarrow> string option" where
  "normalize_session_path v =
     (case Option.bind v json_str of
        None \<Rightarrow> None
      | Some s \<Rightarrow>
          let t = trim s in
          if t = [] then None else Some (map (\<lambda>c. if c = backslash then CHR ''/'' else c) t))"

definition manifest_path :: "string option \<Rightarrow> bool" where
  "manifest_path p \<longleftrightarrow> ends_with ''manifest.json'' (opt_str p)"

definition framework_mode :: "json option \<Rightarrow> bool" where
  "framework_mode m \<longleftrightarrow> m = Some (JStr ''svelte-component'')"

definition or_str :: "string option \<Rightarrow> string option \<Rightarrow> string option" where
  "or_str a b = (if truthy_str a then a else b)"

definition reset_session_file_meta :: "'e overlay \<Rightarrow> 'e overlay" where
  "reset_session_file_meta ov =
     ov\<lparr>source_file := None, preview_file := None, preview_mode := None, waiting_for_anchor := False,
        picked_anchor := None, anchor_top := None\<rparr>"

definition remember_file_meta :: "json option \<Rightarrow> 'e overlay \<Rightarrow> 'e overlay" where
  "remember_file_meta meta ov =
     (let file = normalize_session_path (field ''file'' meta);
          src = normalize_session_path (field ''sourceFile'' meta);
          prev = normalize_session_path (field ''previewFile'' meta);
          mode = (case truthy_field ''previewMode'' meta of
                    Some m \<Rightarrow> Some m
                  | None \<Rightarrow> if manifest_path (or_str prev file) then Some (JStr ''svelte-component'') else None)
      in if framework_mode mode \<or> manifest_path file then
           ov\<lparr>preview_mode := (if framework_mode mode then mode else Some (JStr ''svelte-component'')),
              preview_file := (if truthy_str prev then prev else if manifest_path file then file else preview_file ov),
              source_file := or_str src (source_file ov)\<rparr>
         else
           ov\<lparr>source_file := (if truthy_str (or_str src file) then or_str src file else source_file ov),
              preview_file := (if truthy_str prev then prev else preview_file ov),
              preview_mode := (if mode \<noteq> None then mode else preview_mode ov)\<rparr>)"

definition json_object :: "json option \<Rightarrow> bool" where
  "json_object v \<longleftrightarrow> (case v of Some (JObj _) \<Rightarrow> True | Some (JArr _) \<Rightarrow> True | _ \<Rightarrow> False)"

definition json_finite :: "json option \<Rightarrow> bool" where
  "json_finite v \<longleftrightarrow> (case v of Some (JNum _) \<Rightarrow> True | Some (JFrac _) \<Rightarrow> True | _ \<Rightarrow> False)"

definition apply_saved_meta :: "json option \<Rightarrow> 'e overlay \<Rightarrow> 'e overlay" where
  "apply_saved_meta saved ov =
     (if saved = None then ov
      else
        let ov1 = remember_file_meta saved ov;
            get = (\<lambda>key old. case truthy_field key saved of None \<Rightarrow> old | Some v \<Rightarrow> Some v);
            get1 = (\<lambda>key old. case truthy_field key saved of None \<Rightarrow> old | Some v \<Rightarrow> v)
        in ov1\<lparr>insert_placeholder := get ''insertPlaceholder'' (insert_placeholder ov1),
               picked_anchor := get ''pickedAnchor'' (picked_anchor ov1),
               anchor_top := (if json_finite (field ''pickedAnchorViewportTop'' saved)
                              then field ''pickedAnchorViewportTop'' saved else anchor_top ov1),
               sel_action := get1 ''action'' (sel_action ov1),
               sel_count := get1 ''count'' (sel_count ov1),
               preview_mode := get ''previewMode'' (preview_mode ov1),
               param_values := (if json_object (truthy_field ''paramValues'' saved)
                                then spread (the (field ''paramValues'' saved)) else param_values ov1),
               param_state := get1 ''parameterState'' (param_state ov1),
               gen_phase := get ''generationPhase'' (gen_phase ov1)\<rparr>)"

section \<open>Which session\<close>

definition normalize_page_path :: "'e page \<Rightarrow> json option \<Rightarrow> string option" where
  "normalize_page_path pg v =
     (case Option.bind v json_str of
        None \<Rightarrow> None
      | Some s \<Rightarrow>
          if s = [] then None
          else (case url_pathname pg s of
                  Some p \<Rightarrow> Some p
                | None \<Rightarrow>
                    let p = takeWhile (\<lambda>c. c \<noteq> CHR ''?'' \<and> c \<noteq> CHR ''#'') s in if p = [] then None else Some p))"

definition page_matches :: "'e page \<Rightarrow> json option \<Rightarrow> bool" where
  "page_matches pg v \<longleftrightarrow>
     \<not> truthy_str (normalize_page_path pg v) \<or> normalize_page_path pg v = Some (pathname pg)"

definition phase_of :: "json \<Rightarrow> string" where
  "phase_of s = opt_str (Option.bind (json_get ''phase'' s) json_str)"

definition terminal_summary :: "json \<Rightarrow> bool" where
  "terminal_summary s \<longleftrightarrow>
     phase_of s \<in> {''completed'', ''discarded'', ''discard_requested'', ''accept_requested''}"

definition session_id :: "json option \<Rightarrow> string option" where
  "session_id v =
     (case Option.bind (field ''id'' v) json_str of None \<Rightarrow> None | Some s \<Rightarrow> if s = [] then None else Some s)"

definition find_active_summary :: "'e page \<Rightarrow> json option \<Rightarrow> json list option \<Rightarrow> json option" where
  "find_active_summary pg saved sessions =
     (case (session_id saved, sessions) of
        (Some i, Some ss) \<Rightarrow>
          List.find (\<lambda>s. session_id (Some s) = Some i \<and>
            page_matches pg (first_truthy [json_get ''pageUrl'' s, field ''pageUrl'' saved]) \<and> \<not> terminal_summary s) ss
      | _ \<Rightarrow> None)"

definition clamp_variant_index :: "json option \<Rightarrow> num \<Rightarrow> num" where
  "clamp_variant_index value limit =
     (case js_number value of
        None \<Rightarrow> Some 0
      | Some n \<Rightarrow>
          if n < 1 then Some 0
          else (case limit of
                  Some m \<Rightarrow> if m > 0 \<and> n > m then Some 0 else Some n
                | None \<Rightarrow> Some n))"

definition ADOPTABLE_SESSION_PHASES :: "string list" where
  "ADOPTABLE_SESSION_PHASES = [''generate_requested'', ''variants_ready'', ''generating'', ''cycling'']"

definition adoptable :: "'e page \<Rightarrow> live_session \<Rightarrow> json \<Rightarrow> bool" where
  "adoptable pg l s \<longleftrightarrow>
     (case session_id (Some s) of
        None \<Rightarrow> False
      | Some i \<Rightarrow>
          \<not> terminal_summary s \<and> \<not> is_handled i l \<and> truthy_field ''pageUrl'' (Some s) \<noteq> None \<and>
          page_matches pg (json_get ''pageUrl'' s) \<and>
          (truthy_field ''previewFile'' (Some s) \<noteq> None \<or> truthy_field ''sourceFile'' (Some s) \<noteq> None) \<and>
          num_less (Some 0) (js_number (json_get ''expectedVariants'' s)) \<and>
          phase_of s \<in> set ADOPTABLE_SESSION_PHASES)"

definition find_adoptable :: "'e page \<Rightarrow> live_session \<Rightarrow> json list option \<Rightarrow> json option" where
  "find_adoptable pg l sessions =
     (case sessions of None \<Rightarrow> None | Some ss \<Rightarrow> List.find (adoptable pg l) ss)"

definition num_json :: "num \<Rightarrow> json" where
  "num_json x = (case x of None \<Rightarrow> JNull | Some n \<Rightarrow> JNum n)"

definition opt_member :: "string \<Rightarrow> json option \<Rightarrow> (string \<times> json) list" where
  "opt_member key v = (case v of None \<Rightarrow> [] | Some x \<Rightarrow> [(key, x)])"

definition server_session_as_saved :: "json \<Rightarrow> json" where
  "server_session_as_saved s =
     JObj (opt_member ''id'' (json_get ''id'' s) @
       [(''state'', JStr ''GENERATING''),
        (''expected'', num_json (num_or (js_number (json_get ''expectedVariants'' s)) (Some 0))),
        (''arrived'', num_json (num_or (js_number (json_get ''arrivedVariants'' s)) (Some 0))),
        (''visible'', num_json (num_or (js_number (json_get ''visibleVariant'' s)) (Some 0)))] @
       opt_member ''sourceFile'' (truthy_field ''sourceFile'' (Some s)) @
       opt_member ''previewFile'' (truthy_field ''previewFile'' (Some s)) @
       opt_member ''previewMode'' (truthy_field ''previewMode'' (Some s)) @
       opt_member ''pageUrl'' (truthy_field ''pageUrl'' (Some s)) @
       [(''paramValues'', if json_object (truthy_field ''paramValues'' (Some s))
                          then the (json_get ''paramValues'' s) else JObj [])])"

section \<open>Saving, loading, checkpoints\<close>

text \<open>Line 9229: a session stamped with the root of another project is cleared.\<close>

definition foreign_session :: "string \<Rightarrow> json option \<Rightarrow> bool" where
  "foreign_session own_root saved \<longleftrightarrow>
     truthy_field ''appRoot'' saved \<noteq> None \<and> own_root \<noteq> [] \<and> field ''appRoot'' saved \<noteq> Some (JStr own_root)"

definition load_session :: "'e page \<Rightarrow> 'e overlay \<Rightarrow> json option \<times> 'e overlay" where
  "load_session pg ov =
     (let (saved, l) = load_live_session (lives ov) in
      if foreign_session (app_root pg) saved then (None, set_live (clear_live_session l) ov)
      else (saved, set_live l ov))"

definition state_name :: "live_state \<Rightarrow> string" where
  "state_name s =
     (case s of Live_idle \<Rightarrow> ''IDLE'' | Live_picking \<Rightarrow> ''PICKING'' | Live_configuring \<Rightarrow> ''CONFIGURING''
      | Live_generating \<Rightarrow> ''GENERATING'' | Live_cycling \<Rightarrow> ''CYCLING'' | Live_other t \<Rightarrow> t)"

definition opt_text :: "string \<Rightarrow> string option \<Rightarrow> (string \<times> json) list" where
  "opt_text key v = (if truthy_str v then [(key, JStr (opt_str v))] else [])"

definition session_json :: "'e page \<Rightarrow> 'e overlay \<Rightarrow> json" where
  "session_json pg ov =
     JObj ([(''id'', JStr (opt_str (current ov)))] @
       opt_text ''appRoot'' (Some (app_root pg)) @
       [(''state'', JStr (state_name (state ov))), (''action'', sel_action ov), (''count'', sel_count ov),
        (''expected'', num_json (expected ov)), (''arrived'', num_json (arrived ov)),
        (''visible'', num_json (visible ov))] @
       opt_text ''sourceFile'' (source_file ov) @ opt_text ''previewFile'' (preview_file ov) @
       opt_member ''previewMode'' (preview_mode ov) @
       [(''pageUrl'', JStr (pathname pg)), (''paramValues'', JObj (param_values ov)),
        (''parameterState'', param_state ov)] @
       opt_member ''insertPlaceholder'' (insert_placeholder ov) @ opt_member ''pickedAnchor'' (picked_anchor ov) @
       (if json_finite (anchor_top ov) then opt_member ''pickedAnchorViewportTop'' (anchor_top ov) else []) @
       opt_text ''pageHash'' (Some (hash pg)) @ opt_text ''pageSearch'' (Some (search pg)))"

definition save_session :: "'e page \<Rightarrow> 'e overlay \<Rightarrow> 'e overlay" where
  "save_session pg ov =
     (if \<not> truthy_str (current ov) then ov
      else set_live (save_live_session (session_json pg ov) (lives ov)) ov)"

definition clear_session :: "'e overlay \<Rightarrow> 'e overlay" where
  "clear_session ov = set_live (clear_live_session (lives ov)) ov"

definition mark_session_handled :: "'e overlay \<Rightarrow> 'e overlay" where
  "mark_session_handled ov =
     (if \<not> truthy_str (current ov) then ov else set_live (mark_handled (opt_str (current ov)) (lives ov)) ov)"

definition clear_handled_session :: "string \<Rightarrow> 'e overlay \<Rightarrow> 'e overlay" where
  "clear_handled_session i ov = set_live (clear_handled i (lives ov)) ov"

definition checkpoint_payload :: "'e page \<Rightarrow> string \<Rightarrow> int \<Rightarrow> 'e overlay \<Rightarrow> json" where
  "checkpoint_payload pg reason rev_no ov =
     JObj ([(''type'', JStr ''checkpoint''), (''id'', JStr (opt_str (current ov))), (''revision'', JNum rev_no),
        (''revisionDomain'', JStr ''browser''), (''owner'', JStr (ls_owner (lives ov))),
        (''phase'', JStr (to_lower (state_name (state ov)))), (''reason'', JStr reason),
        (''pageUrl'', JStr (pathname pg)), (''expectedVariants'', num_json (expected ov)),
        (''arrivedVariants'', num_json (arrived ov)), (''visibleVariant'', num_json (visible ov))] @
       opt_text ''sourceFile'' (source_file ov) @ opt_text ''previewFile'' (preview_file ov) @
       opt_member ''previewMode'' (preview_mode ov) @ [(''paramValues'', JObj (param_values ov))])"

definition send_checkpoint :: "'e page \<Rightarrow> string \<Rightarrow> 'e overlay \<Rightarrow> 'e overlay" where
  "send_checkpoint pg reason ov =
     (if \<not> truthy_str (current ov) then ov
      else let (n, l) = next_checkpoint_revision (lives ov); ov1 = set_live l ov in
        emit [Checkpoint (checkpoint_payload pg reason n ov1)] ov1)"

definition queue_checkpoint :: "string \<Rightarrow> 'e overlay \<Rightarrow> 'e overlay" where
  "queue_checkpoint reason ov =
     (if \<not> truthy_str (current ov) then ov else ov\<lparr>checkpoint_timer := Some reason\<rparr>)"

definition checkpoint_due :: "'e page \<Rightarrow> 'e overlay \<Rightarrow> 'e overlay" where
  "checkpoint_due pg ov =
     (case checkpoint_timer ov of
        None \<Rightarrow> ov | Some reason \<Rightarrow> send_checkpoint pg reason (ov\<lparr>checkpoint_timer := None\<rparr>))"

section \<open>Restoring without a wrapper\<close>

definition upper :: "string \<Rightarrow> string" where
  "upper s = map (\<lambda>c. let n = of_char c :: nat in if 97 \<le> n \<and> n \<le> 122 then char_of (n - 32) else c) s"

definition pos_num :: "num \<Rightarrow> bool" where "pos_num x \<longleftrightarrow> num_less (Some 0) x"

definition restore_counts :: "json option \<Rightarrow> json option \<Rightarrow> 'e overlay \<Rightarrow> 'e overlay" where
  "restore_counts saved server ov =
     (let e0 = js_number (first_truthy [field ''expected'' saved, field ''expectedVariants'' server,
                 Some (sel_count ov), Some (JNum 0)]);
          a0 = js_number (first_truthy [field ''arrived'' saved, field ''arrivedVariants'' server, Some (JNum 0)]);
          a = (if num_le a0 (Some 0) \<and> truthy_str (preview_file ov)
               then js_number (first_truthy [field ''expectedVariants'' server, field ''expected'' saved,
                      Some (sel_count ov), Some (JNum 0)])
               else a0);
          e = (if num_le e0 (Some 0)
               then js_number (first_truthy [field ''expectedVariants'' server, map_option JNum a, Some (sel_count ov),
                      Some (JNum 0)])
               else e0);
          top = num_or a e;
          v = num_or (clamp_variant_index (field ''visible'' saved) top)
                (num_or (clamp_variant_index (field ''visibleVariant'' server) top)
                   (if pos_num a then Some 1 else Some 0))
      in ov\<lparr>expected := e, arrived := a, visible := v\<rparr>)"

definition restore_without_wrapper ::
  "'e page \<Rightarrow> string option \<Rightarrow> json list option \<Rightarrow> 'e overlay \<Rightarrow> bool \<times> 'e overlay" where
  "restore_without_wrapper pg reason sessions ov =
     (let (cached, ov1) = load_session pg ov;
          saved = (if session_id cached \<noteq> None then cached
                   else map_option server_session_as_saved (find_adoptable pg (lives ov1) sessions))
      in case session_id saved of
           None \<Rightarrow> (False, ov1)
         | Some i \<Rightarrow>
             if is_handled i (lives ov1) then (False, ov1)
             else
               let saved_state = upper (opt_str (Option.bind (field ''state'' saved) json_str));
                   server = find_active_summary pg saved sessions
               in if saved_state \<noteq> ''GENERATING'' \<and> saved_state \<noteq> ''CYCLING'' then (False, ov1)
                  else if sessions \<noteq> None \<and> sessions \<noteq> Some [] \<and> server = None then (False, ov1)
                  else
                    let ov2 = apply_saved_meta saved (apply_saved_meta server (set_current (Some i) ov1));
                        ov3 = restore_counts saved server ov2;
                        found = find_anchor pg (picked_anchor ov3);
                        ov4 = emit [Show_bar ''generating'', Start_scroll_tracking, Observe i]
                                (ov3\<lparr>selected := Some (case found of None \<Rightarrow> body pg | Some e \<Rightarrow> e),
                                     state := Live_generating, waiting_for_anchor := (found = None)\<rparr>);
                        ov5 = queue_checkpoint (str_or (opt_str reason) ''browser_restore_without_wrapper'')
                                (save_session pg ov4);
                        file = (if framework_mode (preview_mode ov5) then preview_file ov5
                                else or_str (source_file ov5) (preview_file ov5))
                    in (True, if truthy_str file
                              then emit [Inject (opt_str file) i
                                     (saved_state = ''CYCLING'' \<and> \<not> framework_mode (preview_mode ov5))] ov5
                              else ov5))"

section \<open>Wrappers\<close>

text \<open>Line 6946, over the wrappers in document order.\<close>

definition pick_populated :: "'e wrapper list \<Rightarrow> 'e wrapper option" where
  "pick_populated ws =
     (if length ws < 2 then (case ws of [] \<Rightarrow> None | w # _ \<Rightarrow> Some w)
      else (case List.find (\<lambda>w. wr_variants w > 0) ws of Some w \<Rightarrow> Some w | None \<Rightarrow> Some (hd ws)))"

definition find_any_wrapper :: "'e page \<Rightarrow> 'e wrapper option" where
  "find_any_wrapper pg = pick_populated (wrappers pg)"

definition framework_preview :: "'e wrapper \<Rightarrow> bool" where
  "framework_preview w \<longleftrightarrow> wr_preview w = Some ''svelte-component''"

definition restore_from_active :: "'e page \<Rightarrow> json list option \<Rightarrow> string option \<Rightarrow> 'e overlay \<Rightarrow> bool \<times> 'e overlay" where
  "restore_from_active pg sessions reason ov =
     (if (case find_any_wrapper pg of None \<Rightarrow> False | Some w \<Rightarrow> \<not> framework_preview w) then (False, ov)
      else if svelte ov \<noteq> None \<and> map_option sv_id (svelte ov) = current ov then (False, ov)
      else restore_without_wrapper pg (Some (str_or (opt_str reason) ''sse_connected'')) sessions ov)"

section \<open>Completions missed while disconnected\<close>

definition behind :: "'e overlay \<Rightarrow> bool" where
  "behind ov \<longleftrightarrow> \<not> (pos_num (arrived ov) \<and> num_le (expected ov) (arrived ov))"

definition recover_missed_completion :: "json list option \<Rightarrow> 'e overlay \<Rightarrow> 'e overlay" where
  "recover_missed_completion sessions ov =
     (if \<not> truthy_str (current ov) \<or> state ov \<noteq> Live_generating then ov
      else case Option.bind sessions (List.find (\<lambda>s. session_id (Some s) = current ov)) of
        None \<Rightarrow> ov
      | Some summary \<Rightarrow>
          if truthy_field ''generationCompletedAt'' (Some summary) = None \<or>
             truthy_field ''generationCanceled'' (Some summary) \<noteq> None \<or> terminal_summary summary \<or> \<not> behind ov
          then ov
          else
            let ov1 = remember_file_meta (Some summary) ov;
                text_of = (\<lambda>key. Option.bind (json_get key summary) json_str);
                file = (if framework_mode (preview_mode ov1) then preview_file ov1
                        else or_str (text_of ''sourceFile'') (or_str (text_of ''previewFile'')
                               (or_str (source_file ov1) (preview_file ov1))))
            in if \<not> truthy_str file then ov1
               else ov1\<lparr>completions := completions ov1 @ [(opt_str file, opt_str (current ov1))]\<rparr>)"

text \<open>The timer of line 9195, the \<open>k\<close>th of those pending.\<close>

definition completion_due :: "nat \<Rightarrow> 'e overlay \<Rightarrow> 'e overlay" where
  "completion_due k ov =
     (if k \<ge> length (completions ov) then ov
      else
        let (file, i) = completions ov ! k;
            ov1 = ov\<lparr>completions := take k (completions ov) @ drop (k + 1) (completions ov)\<rparr>
        in if current ov1 \<noteq> Some i \<or> state ov1 \<noteq> Live_generating \<or> \<not> behind ov1 then ov1
           else emit [Recover file i] ov1)"

section \<open>Resuming\<close>

definition runtime_marks :: "'e page \<Rightarrow> marks option" where
  "runtime_marks pg =
     (case find_any_wrapper pg of Some w \<Rightarrow> Some (wr_marks w) | None \<Rightarrow> carbonized pg)"

definition restore_superseding :: "'e page \<Rightarrow> marks option \<Rightarrow> 'e overlay \<Rightarrow> bool \<times> 'e overlay" where
  "restore_superseding pg runtime ov =
     (let handled = wrapper_session runtime in
      if handled = [] \<or> \<not> is_handled handled (lives ov) then (False, ov)
      else
        let (saved, ov1) = load_session pg ov in
        case session_id saved of
          None \<Rightarrow> (False, ov1)
        | Some i \<Rightarrow>
            if i = handled \<or> is_handled i (lives ov1) then (False, ov1)
            else if current ov1 = Some i then (True, ov1)
            else restore_without_wrapper pg (Some ''browser_resumed_over_handled_wrapper'') None ov1)"

definition parse_int_prefix :: "string \<Rightarrow> num" where
  "parse_int_prefix s =
     (let t = trim_start s; (sign, r) = (case t of c # u \<Rightarrow> if c = CHR ''-'' then (- 1, u) else if c = CHR ''+'' then (1, u) else (1, t)
                                         | [] \<Rightarrow> (1, []));
          ds = takeWhile is_digit r
      in if ds = [] then None else Some (sign * int (read_nat ds)))"

text \<open>Lines 9554 to 9579: the wrapper of a mounted component.\<close>

definition resume_component :: "'e page \<Rightarrow> 'e wrapper \<Rightarrow> string \<Rightarrow> svelte_session \<Rightarrow> 'e overlay \<Rightarrow> 'e overlay" where
  "resume_component pg w i sv ov =
     (let ov1 = set_current (Some i) ov;
          e = num_or (js_number (map_option JStr (wr_count w)))
                (num_or (js_number (sv_count sv)) (num_or (expected ov1) (Some 1)));
          (saved, ov2) = load_session pg (ov1\<lparr>expected := e, arrived := e\<rparr>);
          ov3 = apply_saved_meta saved ov2;
          seen = (if session_id saved = Some i then js_number (field ''visible'' saved) else Some 0);
          v = (if sv_mounted sv > 0 \<and> num_le (Some (sv_mounted sv)) e then Some (sv_mounted sv)
               else if pos_num seen \<and> num_le seen e then seen else Some 1);
          ov4 = emit [Hide_shader, Show_bar ''cycling'', Start_scroll_tracking, Refresh_params]
                  (ov3\<lparr>visible := v, selected := (case svelte_anchor pg of Some x \<Rightarrow> Some x | None \<Rightarrow> wr_parent w),
                       state := Live_cycling\<rparr>)
      in queue_checkpoint ''browser_resumed_svelte_component'' (save_session pg ov4))"

text \<open>Lines 9604 to 9614: the element the highlight is placed on.\<close>

definition resumed_element :: "'e page \<Rightarrow> 'e wrapper \<Rightarrow> num \<Rightarrow> live_state \<Rightarrow> 'e option" where
  "resumed_element pg w v st =
     (let is_insert = (wr_mode w = Some ''insert'');
          shown = (if pos_num v then wr_content w v else None);
          chain = (\<lambda>a b. case a of Some x \<Rightarrow> Some x | None \<Rightarrow> b)
      in if is_insert \<and> st = Live_generating \<and> wr_variants w = 0
         then chain (insert_spot pg) (chain (insert_anchor pg) (Some (wr_element w)))
         else chain shown (chain (wr_content w None)
                (chain (if is_insert then insert_anchor pg else None) (wr_parent w))))"

text \<open>Lines 9582 to 9684: a wrapper whose variants are elements of the page.\<close>

definition resume_wrapper :: "'e page \<Rightarrow> 'e wrapper \<Rightarrow> string \<Rightarrow> string \<Rightarrow> 'e overlay \<Rightarrow> 'e overlay" where
  "resume_wrapper pg w i reason ov =
     (let n = Some (int (wr_variants w));
          ov1 = (set_current (Some i) ov)\<lparr>expected := parse_int_prefix (str_or (opt_str (wr_count w)) ''0''), arrived := n\<rparr>;
          (saved, ov2) = load_session pg ov1;
          own_saved = (session_id saved = Some i);
          first = (if wr_variants w > 0 then Some 1 else Some 0);
          seen = js_number (field ''visible'' saved);
          ov3 = (if own_saved
                 then (apply_saved_meta saved ov2)\<lparr>visible := (if pos_num seen \<and> num_le seen n then seen else first)\<rparr>
                 else ov2\<lparr>visible := first\<rparr>);
          st = (if wr_variants w > 0 then Live_cycling else Live_generating);
          is_insert = (wr_mode w = Some ''insert'');
          ov4 = emit ((if pos_num (visible ov3) then [Show_variant i (visible ov3)] else []) @
                      [Show_bar (if st = Live_cycling then ''cycling'' else ''generating''), Start_scroll_tracking])
                  (ov3\<lparr>state := st, selected := resumed_element pg w (visible ov3) st\<rparr>);
          ov5 = (if st = Live_cycling
                 then emit ([Hide_shader] @ (if is_insert then [Finalize_insert] else []) @ [Disable_inline_edit, Refresh_params])
                        (ov4\<lparr>waiting_for_anchor := False,
                             insert_placeholder := (if is_insert then None else insert_placeholder ov4)\<rparr>)
                 else ov4);
          ov6 = save_session pg ov5;
          ov7 = (if wr_variants w > 0 \<and> num_less n (expected ov6) then send_checkpoint pg ''variants_progress'' ov6
                 else
                   let queued = queue_checkpoint reason ov6 in
                   if wr_variants w > 0 \<and> num_le (expected queued) n \<and> pos_num (expected queued)
                   then send_checkpoint pg ''variants_ready'' queued else queued);
          target = (if is_insert then (case insert_spot pg of Some x \<Rightarrow> Some x | None \<Rightarrow> insert_anchor pg)
                    else wr_content w None)
      in emit ([Observe i, Scroll_lock i (read_scroll_y (lives ov7)) (anchor_top ov7)] @
               (case target of Some x \<Rightarrow> if st = Live_generating then [Restart_shader x] else [] | None \<Rightarrow> [])) ov7)"

definition resume_session :: "'e page \<Rightarrow> nat \<Rightarrow> string \<Rightarrow> 'e overlay \<Rightarrow> bool \<times> 'e overlay" where
  "resume_session pg rev_seen reason ov =
     (let runtime = runtime_marks pg; (superseding, ov1) = restore_superseding pg runtime ov in
      if superseding then (True, ov1)
      else
        let (reloading, r) = schedule_reload runtime rev_seen (rec ov1); ov2 = ov1\<lparr>rec := r\<rparr> in
        if reloading then (False, ov2)
        else case find_any_wrapper pg of
          None \<Rightarrow>
            (case restore_without_wrapper pg (Some ''browser_resumed_without_wrapper'') None ov2 of
               (True, ov3) \<Rightarrow> (True, ov3) | (False, ov3) \<Rightarrow> (False, clear_session ov3))
        | Some w \<Rightarrow>
            let i = opt_str (mk_variants (wr_marks w)) in
            if is_handled i (lives ov2) then (False, ov2)
            else if framework_preview w then
              (if map_option sv_id (svelte ov2) \<noteq> Some i then
                 (case restore_without_wrapper pg (Some ''browser_resumed_svelte_orphan_wrapper'') None
                         (emit [Remove_wrapper (wr_element w)] ov2) of
                    (True, ov3) \<Rightarrow> (True, ov3)
                  | (False, ov3) \<Rightarrow> (False, clear_handled_session i (clear_session ov3)))
               else (case svelte ov2 of
                       None \<Rightarrow> (True, ov2)
                     | Some sv \<Rightarrow> if sv_mounted sv = 0 then (True, ov2) else (True, resume_component pg w i sv ov2)))
            else (True, resume_wrapper pg w i reason ov2))"

section \<open>Lemmas\<close>

text \<open>The session's own key is not the key of the handled ids: saving and clearing leave those alone.\<close>

lemma is_handled_cong:
  "ls_prefix a = ls_prefix b \<Longrightarrow> safe_read (handled_key b) a = safe_read (handled_key b) b \<Longrightarrow>
   is_handled i a = is_handled i b"
  by (simp add: is_handled_def read_handled_ids_def handled_key_def session_key_def)

lemma handled_not_session_key [simp]: "handled_key l \<noteq> session_key l"
  by (simp add: handled_key_def)

lemma is_handled_write [simp]: "is_handled i (safe_write (session_key l) v l) = is_handled i l"
  using safe_write_cases [of "session_key l" v l] by (intro is_handled_cong) auto

lemma is_handled_revision [simp]: "is_handled i (l\<lparr>ls_revision := n\<rparr>) = is_handled i l"
  by (rule is_handled_cong) (simp_all add: safe_read_def)

lemma is_handled_save [simp]: "is_handled i (save_live_session v l) = is_handled i l"
  by (simp add: save_live_session_def)

lemma is_handled_clear [simp]: "is_handled i (clear_live_session l) = is_handled i l"
  by (rule is_handled_cong) (auto simp: clear_live_session_def safe_remove_def safe_read_def items.get_del
      handled_key_def session_key_def split: option.split)

lemma is_handled_load [simp]: "is_handled i (snd (load_live_session l)) = is_handled i l"
  using load_revision_only [of l] is_handled_revision by metis

lemma is_handled_next [simp]: "is_handled i (snd (next_checkpoint_revision l)) = is_handled i l"
proof -
  obtain v l1 where load: "load_live_session (l\<lparr>ls_revision := ls_revision l + 1\<rparr>) = (v, l1)" by force
  then have "is_handled i l1 = is_handled i l"
    using is_handled_load [of i "l\<lparr>ls_revision := ls_revision l + 1\<rparr>"] by simp
  with load show ?thesis by (simp add: next_checkpoint_revision_def Let_def split: option.split)
qed

lemma overlay_frame [simp]:
  "lives (emit es ov) = lives ov" "lives (set_live l ov) = l" "lives (set_current c ov) = lives ov"
  "current (emit es ov) = current ov" "current (set_live l ov) = current ov" "current (set_current c ov) = c"
  "rec (emit es ov) = rec ov"
  by (simp_all add: emit_def set_live_def set_current_def)

lemma load_session_frame [simp]:
  "current (snd (load_session pg ov)) = current ov" "is_handled i (lives (snd (load_session pg ov))) = is_handled i (lives ov)"
proof -
  obtain v l1 where load: "load_live_session (lives ov) = (v, l1)" by force
  then have "is_handled i l1 = is_handled i (lives ov)" using is_handled_load [of i "lives ov"] by simp
  with load show "current (snd (load_session pg ov)) = current ov"
    "is_handled i (lives (snd (load_session pg ov))) = is_handled i (lives ov)"
    by (simp_all add: load_session_def)
qed

lemma save_session_frame [simp]:
  "current (save_session pg ov) = current ov" "is_handled i (lives (save_session pg ov)) = is_handled i (lives ov)"
  by (simp_all add: save_session_def)

lemma queue_frame [simp]: "rec (queue_checkpoint r ov) = rec ov"
  by (simp add: queue_checkpoint_def)

lemma send_frame [simp]:
  "current (send_checkpoint pg r ov) = current ov" "is_handled i (lives (send_checkpoint pg r ov)) = is_handled i (lives ov)"
proof -
  obtain n l1 where nxt: "next_checkpoint_revision (lives ov) = (n, l1)" by force
  then have "is_handled i l1 = is_handled i (lives ov)" using is_handled_next [of i "lives ov"] by simp
  with nxt show "current (send_checkpoint pg r ov) = current ov"
    "is_handled i (lives (send_checkpoint pg r ov)) = is_handled i (lives ov)"
    by (simp_all add: send_checkpoint_def Let_def)
qed

lemma meta_frame [simp]: "rec (remember_file_meta m ov) = rec ov" "rec (apply_saved_meta m ov) = rec ov"
  by (simp_all add: remember_file_meta_def apply_saved_meta_def Let_def)

lemma counts_frame [simp]: "rec (restore_counts s t ov) = rec ov"
  by (simp add: restore_counts_def Let_def)

text \<open>What a restore without a wrapper enters, when it does.\<close>

lemma restore_without_wrapper_result:
  assumes "restore_without_wrapper pg reason sessions ov = (True, ov')"
  shows "\<exists>i. current ov' = Some i \<and> \<not> is_handled i (lives ov') \<and>
    (\<forall>j. is_handled j (lives ov') = is_handled j (lives (snd (load_session pg ov))))"
proof -
  obtain cached ov1 where load: "load_session pg ov = (cached, ov1)" by force
  show ?thesis using assms unfolding restore_without_wrapper_def load
    by (simp add: Let_def split: option.splits if_splits) (auto simp: Let_def)
qed

lemma restore_without_wrapper_enters:
  "restore_without_wrapper pg reason sessions ov = (True, ov') \<Longrightarrow> \<exists>i. current ov' = Some i \<and> \<not> is_handled i (lives ov')"
  using restore_without_wrapper_result by blast

lemma restore_without_wrapper_entered:
  "restore_without_wrapper pg reason ss ov = (True, ov') \<Longrightarrow> is_handled j (lives ov') = is_handled j (lives ov)"
  using restore_without_wrapper_result load_session_frame(2) by metis

lemma restore_without_wrapper_stays:
  assumes "restore_without_wrapper pg reason sessions ov = (False, ov')"
  shows "current ov' = current ov \<and> (\<forall>i. is_handled i (lives ov') = is_handled i (lives ov))"
proof -
  obtain cached ov1 where load: "load_session pg ov = (cached, ov1)" by force
  then have "current ov1 = current ov \<and> (\<forall>i. is_handled i (lives ov1) = is_handled i (lives ov))"
    using load_session_frame(1) [of pg ov] load_session_frame(2) [of _ pg ov] by simp
  moreover have "ov' = ov1" using assms unfolding restore_without_wrapper_def load
    by (simp add: Let_def split: option.splits if_splits)
  ultimately show ?thesis by simp
qed

lemma schedule_live [simp]: "live (snd (schedule_reload w r st)) = live st" "current_id (snd (schedule_reload w r st)) = current_id st"
  by (auto simp: schedule_reload_def Let_def write_stamp_def split: option.split sum.split)

lemma resume_component_enters:
  "current (resume_component pg w i sv ov) = Some i"
  "is_handled j (lives (resume_component pg w i sv ov)) = is_handled j (lives ov)"
proof -
  let ?ov = "set_current (Some i) ov"
  let ?e = "num_or (js_number (map_option JStr (wr_count w))) (num_or (js_number (sv_count sv)) (num_or (expected ?ov) (Some 1)))"
  obtain saved ov1 where load: "load_session pg (?ov\<lparr>expected := ?e, arrived := ?e\<rparr>) = (saved, ov1)" by force
  have "current ov1 = Some i" "is_handled j (lives ov1) = is_handled j (lives ov)"
    using load_session_frame(1) [of pg "?ov\<lparr>expected := ?e, arrived := ?e\<rparr>"]
      load_session_frame(2) [of j pg "?ov\<lparr>expected := ?e, arrived := ?e\<rparr>"] load by simp_all
  with load show "current (resume_component pg w i sv ov) = Some i"
    "is_handled j (lives (resume_component pg w i sv ov)) = is_handled j (lives ov)"
    by (simp_all add: resume_component_def Let_def)
qed

lemma resume_wrapper_enters:
  "current (resume_wrapper pg w i reason ov) = Some i"
  "is_handled j (lives (resume_wrapper pg w i reason ov)) = is_handled j (lives ov)"
proof -
  let ?ov = "(set_current (Some i) ov)\<lparr>expected := parse_int_prefix (str_or (opt_str (wr_count w)) ''0''),
      arrived := Some (int (wr_variants w))\<rparr>"
  obtain saved ov1 where load: "load_session pg ?ov = (saved, ov1)" by force
  have "current ov1 = Some i" "is_handled j (lives ov1) = is_handled j (lives ov)"
    using load_session_frame(1) [of pg ?ov] load_session_frame(2) [of j pg ?ov] load by simp_all
  with load show "current (resume_wrapper pg w i reason ov) = Some i"
    "is_handled j (lives (resume_wrapper pg w i reason ov)) = is_handled j (lives ov)"
    by (simp_all add: resume_wrapper_def Let_def)
qed

lemma restore_superseding_enters:
  "restore_superseding pg m ov = (True, ov') \<Longrightarrow> \<exists>i. current ov' = Some i \<and> \<not> is_handled i (lives ov')"
  by (auto simp: restore_superseding_def Let_def dest: restore_without_wrapper_enters
      split: if_splits option.splits prod.splits)

lemma restore_superseding_stays:
  assumes "restore_superseding pg m ov = (False, ov')"
  shows "current ov' = current ov \<and> (\<forall>i. is_handled i (lives ov') = is_handled i (lives ov))"
proof -
  obtain saved ov1 where load: "load_session pg ov = (saved, ov1)" by force
  then have "current ov1 = current ov \<and> (\<forall>i. is_handled i (lives ov1) = is_handled i (lives ov))"
    using load_session_frame(1) [of pg ov] load_session_frame(2) [of _ pg ov] by simp
  then show ?thesis using assms
    by (auto simp: restore_superseding_def load Let_def dest: restore_without_wrapper_stays split: if_splits option.splits)
qed

lemma restore_without_wrapper_handled:
  "is_handled j (lives (snd (restore_without_wrapper pg reason ss ov))) = is_handled j (lives ov)"
proof -
  obtain x ov' where res: "restore_without_wrapper pg reason ss ov = (x, ov')" by force
  have "is_handled j (lives ov') = is_handled j (lives ov)"
  proof (cases x)
    case True
    with res have "restore_without_wrapper pg reason ss ov = (True, ov')" by simp
    then show ?thesis by (rule restore_without_wrapper_entered)
  next
    case False
    with res restore_without_wrapper_stays [of pg reason ss ov ov'] show ?thesis by simp
  qed
  with res show ?thesis by simp
qed

lemma restore_superseding_handled:
  "is_handled j (lives (snd (restore_superseding pg m ov))) = is_handled j (lives ov)"
proof -
  obtain saved ov1 where load: "load_session pg ov = (saved, ov1)" by force
  then have "is_handled j (lives ov1) = is_handled j (lives ov)" using load_session_frame(2) [of j pg ov] by simp
  then show ?thesis
    by (simp add: restore_superseding_def load Let_def restore_without_wrapper_handled split: option.split)
qed

text \<open>Resuming keeps the handled ids where it enters a session, and the current session where it does not.\<close>

lemma resume_outcome:
  assumes "resume_session pg r reason ov = (b, ov')"
  shows "if b then (\<forall>j. is_handled j (lives ov') = is_handled j (lives ov)) \<and>
      (current ov' = current ov \<or> (\<exists>i. current ov' = Some i \<and> \<not> is_handled i (lives ov')))
    else current ov' = current ov"
proof -
  obtain sup ov1 where sup: "restore_superseding pg (runtime_marks pg) ov = (sup, ov1)" by force
  obtain rel rec1 where rel: "schedule_reload (runtime_marks pg) r (rec ov1) = (rel, rec1)" by force
  let ?ov2 = "ov1\<lparr>rec := rec1\<rparr>"
  note unfold = resume_session_def [of pg r reason ov] sup rel
  have h1: "\<forall>j. is_handled j (lives ov1) = is_handled j (lives ov)"
    using restore_superseding_handled [of _ pg "runtime_marks pg" ov] sup by simp
  then have h: "\<forall>j. is_handled j (lives ?ov2) = is_handled j (lives ov)"
    using schedule_live [of "runtime_marks pg" r "rec ov1"] rel by simp
  have c: "current ?ov2 = current ov" if "\<not> sup"
    using restore_superseding_stays [of pg "runtime_marks pg" ov ov1] sup that
      schedule_live [of "runtime_marks pg" r "rec ov1"] rel by simp
  have kept: "\<forall>j. is_handled j (lives ov3) = is_handled j (lives ov0)"
    if "restore_without_wrapper pg m ss ov0 = (True, ov3)" for m ss ov0 ov3
    using restore_without_wrapper_entered [OF that] by simp
  show ?thesis
  proof (cases "sup \<or> rel")
    case True
    moreover have "sup \<Longrightarrow> \<exists>i. current ov1 = Some i \<and> \<not> is_handled i (lives ov1)"
      using restore_superseding_enters sup by simp
    ultimately show ?thesis using assms h1 h c by (cases sup) (auto simp: unfold Let_def)
  next
    case False
    show ?thesis
    proof (cases "find_any_wrapper pg")
      case None
      obtain x ov3 where r: "restore_without_wrapper pg (Some ''browser_resumed_without_wrapper'') None ?ov2 = (x, ov3)" by force
      have res: "resume_session pg r reason ov = (if x then (True, ov3) else (False, clear_session ov3))"
        using False None r by (simp add: unfold Let_def split: bool.split)
      have "x \<Longrightarrow> \<forall>j. is_handled j (lives ov3) = is_handled j (lives ?ov2)" using kept [of _ _ ?ov2 ov3] r by simp
      moreover have "x \<Longrightarrow> \<exists>i. current ov3 = Some i \<and> \<not> is_handled i (lives ov3)"
        using restore_without_wrapper_enters r by simp
      moreover have "\<not> x \<Longrightarrow> current ov3 = current ?ov2" using restore_without_wrapper_stays r by fastforce
      moreover have "b = x" "\<not> x \<Longrightarrow> current ov' = current ov3" "x \<Longrightarrow> ov' = ov3"
        using assms unfolding res by (cases x; auto simp: clear_session_def)+
      ultimately show ?thesis using h c False by simp
    next
      case (Some w)
      let ?i = "opt_str (mk_variants (wr_marks w))"
      let ?r = "restore_without_wrapper pg (Some ''browser_resumed_svelte_orphan_wrapper'') None
        (emit [Remove_wrapper (wr_element w)] ?ov2)"
      obtain x ov3 where r: "?r = (x, ov3)" by force
      show ?thesis
      proof (cases "is_handled ?i (lives ?ov2) \<or> \<not> framework_preview w")
        case True
        have res: "resume_session pg r reason ov =
            (if is_handled ?i (lives ?ov2) then (False, ?ov2) else (True, resume_wrapper pg w ?i reason ?ov2))"
          using False Some True by (cases "is_handled ?i (lives ?ov2)") (simp_all add: unfold Let_def)
        show ?thesis
        proof (cases "is_handled ?i (lives ?ov2)")
          case True
          with assms res have "b = False" "ov' = ?ov2" by simp_all
          with c False show ?thesis by simp
        next
          case False
          with assms res have "b = True" "ov' = resume_wrapper pg w ?i reason ?ov2" by simp_all
          with h False show ?thesis by (simp add: resume_wrapper_enters)
        qed
      next
        case fw: False
        show ?thesis
        proof (cases "map_option sv_id (svelte ?ov2) = Some ?i")
          case True
          then obtain sv where sv: "svelte ?ov2 = Some sv" by (cases "svelte ?ov2") auto
          have res: "resume_session pg r reason ov =
              (True, if sv_mounted sv = 0 then ?ov2 else resume_component pg w ?i sv ?ov2)"
            using False Some fw True sv by (simp add: unfold Let_def)
          have "b = True" "ov' = (if sv_mounted sv = 0 then ?ov2 else resume_component pg w ?i sv ?ov2)"
            using assms res by simp_all
          with h c False fw show ?thesis by (simp add: resume_component_enters)
        next
          case orphan: False
          have res: "resume_session pg r reason ov =
              (if x then (True, ov3) else (False, clear_handled_session ?i (clear_session ov3)))"
            using False Some fw orphan r by (simp add: unfold Let_def split: bool.split)
          have "x \<Longrightarrow> \<forall>j. is_handled j (lives ov3) = is_handled j (lives ?ov2)"
            using kept [of _ _ "emit [Remove_wrapper (wr_element w)] ?ov2" ov3] r by simp
          moreover have "x \<Longrightarrow> \<exists>i. current ov3 = Some i \<and> \<not> is_handled i (lives ov3)"
            using restore_without_wrapper_enters r by simp
          moreover have "\<not> x \<Longrightarrow> current ov3 = current ?ov2" using restore_without_wrapper_stays r by fastforce
          moreover have "b = x" "\<not> x \<Longrightarrow> current ov' = current ov3" "x \<Longrightarrow> ov' = ov3"
            using assms unfolding res by (cases x; auto simp: clear_session_def clear_handled_session_def)+
          ultimately show ?thesis using h c False by simp
        qed
      qed
    qed
  qed
qed

section \<open>Properties\<close>

text \<open>
  C20: A session that was accepted or discarded is never resumed: whatever wrapper the page shows and
  whatever is saved, when resuming enters a session other than the current one, that session
  is not among the handled ones.
\<close>

theorem handled_session_not_resumed:
  assumes "resume_session pg r reason ov = (True, ov')" and "current ov' = Some i" and "current ov \<noteq> Some i"
  shows "\<not> is_handled i (lives ov')"
  using resume_outcome [OF assms(1)] assms(2,3) by auto

definition sample_page :: "nat page" where
  "sample_page =
     \<lparr>pathname = ''/app'', hash = [], search = [], url_pathname = Some, app_root = ''/repo'',
      wrappers = [\<lparr>wr_marks = \<lparr>mk_variants = Some ''s7'', mk_carbonize = None\<rparr>, wr_preview = None, wr_count = Some ''3'',
                   wr_mode = None, wr_variants = 2, wr_content = (\<lambda>n. Some 5), wr_element = 1, wr_parent = Some 0\<rparr>],
      carbonized = None, find_anchor = (\<lambda>a. None), svelte_anchor = None, insert_spot = None, insert_anchor = None, body = 0\<rparr>"

text \<open>The overlay's variables as the script declares them, over the recovery state of the page.\<close>

definition overlay_start :: "recovery \<Rightarrow> 'e overlay" where
  "overlay_start r =
     \<lparr>rec = r, state = Live_idle, expected = Some 0, arrived = Some 0, visible = Some 0, source_file = None,
      preview_file = None, preview_mode = None, waiting_for_anchor = False, picked_anchor = None, anchor_top = None,
      insert_placeholder = None, sel_action = JStr ''impeccable'', sel_count = JNum 3, param_values = [],
      param_state = JStr ''idle'', gen_phase = None, svelte = None, selected = None, checkpoint_timer = None,
      completions = [], effects = []\<rparr>"

lemma handled_session_not_resumed_witness:
  "\<not> is_handled ''s7'' (lives (snd (resume_session sample_page 0 ''browser_resumed''
     (overlay_start (recovery_start (sample_live\<lparr>ls_store := None\<rparr>) None)))))"
proof -
  let ?ov = "overlay_start (recovery_start (sample_live\<lparr>ls_store := None\<rparr>) None) :: nat overlay"
  let ?r = "resume_session sample_page 0 ''browser_resumed'' ?ov"
  have "fst ?r" by code_simp
  then have 1: "resume_session sample_page 0 ''browser_resumed'' ?ov = (True, snd ?r)" by (metis prod.collapse)
  have 2: "current (snd ?r) = Some ''s7''" by code_simp
  have 3: "current ?ov \<noteq> Some ''s7''" by (simp add: overlay_start_def recovery_start_def)
  from handled_session_not_resumed [OF 1 2 3] show ?thesis .
qed

text \<open>The keys of a saved session.\<close>

lemma map_of_opts [simp]:
  "map_of (opt_text k v) j = (if j = k \<and> truthy_str v then Some (JStr (opt_str v)) else None)"
  "map_of (opt_member k w) j = (if j = k then w else None)"
  by (auto simp: opt_text_def opt_member_def split: option.split)

lemma saved_fields:
  "json_get ''id'' (session_json pg ov) = Some (JStr (opt_str (current ov)))"
  "json_get ''appRoot'' (session_json pg ov) = (if app_root pg = [] then None else Some (JStr (app_root pg)))"
  "json_get ''state'' (session_json pg ov) = Some (JStr (state_name (state ov)))"
  "json_get ''expected'' (session_json pg ov) = Some (num_json (expected ov))"
  "json_get ''arrived'' (session_json pg ov) = Some (num_json (arrived ov))"
  "json_get ''visible'' (session_json pg ov) = Some (num_json (visible ov))"
  "json_get ''file'' (session_json pg ov) = None"
  "json_get ''sourceFile'' (session_json pg ov) = (if truthy_str (source_file ov) then Some (JStr (opt_str (source_file ov))) else None)"
  "json_get ''previewFile'' (session_json pg ov) = (if truthy_str (preview_file ov) then Some (JStr (opt_str (preview_file ov))) else None)"
  "json_get ''previewMode'' (session_json pg ov) = preview_mode ov"
  by (auto simp: session_json_def map_add_def truthy_str_def opt_str_def split: option.split)

definition normal_path :: "string option \<Rightarrow> bool" where
  "normal_path p \<longleftrightarrow> (case p of None \<Rightarrow> True | Some s \<Rightarrow> s \<noteq> [] \<and> trim s = s \<and> backslash \<notin> set s)"

lemma normalize_normal:
  "normal_path p \<Longrightarrow> normalize_session_path (if truthy_str p then Some (JStr (opt_str p)) else None) = p"
  by (cases p) (auto simp: normal_path_def truthy_str_def opt_str_def normalize_session_path_def Let_def
      intro: map_idI)

lemma field_simps:
  "field k (Some v) = json_get k v" "session_id (Some v) = (case json_get ''id'' v of
     Some (JStr s) \<Rightarrow> if s = [] then None else Some s | _ \<Rightarrow> None)"
  by (auto simp: field_def session_id_def split: option.split json.split)

text \<open>Restoring counts that are in range gives those counts.\<close>

lemma restore_counts_saved:
  assumes "json_get ''expected'' s = Some (JNum e)" "json_get ''arrived'' s = Some (JNum a)" "json_get ''visible'' s = Some (JNum v)"
    and "0 < e" "0 < a" "1 \<le> v" "v \<le> a"
  shows "restore_counts (Some s) t ov = ov\<lparr>expected := Some e, arrived := Some a, visible := Some v\<rparr>"
  using assms by (simp add: restore_counts_def field_simps num_le_def num_or_def num_truthy_def clamp_variant_index_def)

lemma apply_saved_meta_files:
  assumes "json_get ''file'' s = None" and "normal_path p" "normal_path q"
    and "json_get ''sourceFile'' s = (if truthy_str p then Some (JStr (opt_str p)) else None)"
    and "json_get ''previewFile'' s = (if truthy_str q then Some (JStr (opt_str q)) else None)"
    and "json_get ''previewMode'' s = m" and "m = Some (JStr ''svelte-component'') \<or> m = None \<and> \<not> manifest_path q"
    and "source_file ov = None" "preview_file ov = None" "preview_mode ov = None"
  shows "source_file (apply_saved_meta (Some s) ov) = p \<and> preview_file (apply_saved_meta (Some s) ov) = q \<and>
    preview_mode (apply_saved_meta (Some s) ov) = m"
proof -
  have *: "normalize_session_path (json_get ''sourceFile'' s) = p" "normalize_session_path (json_get ''previewFile'' s) = q"
    "normalize_session_path (json_get ''file'' s) = None"
    using assms(4,5) normalize_normal [OF assms(2)] normalize_normal [OF assms(3)] assms(1)
    by (simp_all add: normalize_session_path_def)
  have path: "truthy_str x \<longleftrightarrow> x \<noteq> None" if "normal_path x" for x
    using that by (cases x) (auto simp: normal_path_def truthy_str_def opt_str_def)
  have none: "manifest_path None = False" by (simp add: manifest_path_def opt_str_def ends_with_def)
  from assms(7) show ?thesis
  proof
    assume m: "m = Some (JStr ''svelte-component'')"
    then show ?thesis using * assms(6,8-10) none path [OF assms(2)] path [OF assms(3)]
      by (auto simp: apply_saved_meta_def remember_file_meta_def Let_def field_simps truthy_field_def framework_mode_def or_str_def
          truthy_str_def opt_str_def split: option.splits)
  next
    assume m: "m = None \<and> \<not> manifest_path q"
    then show ?thesis using * assms(6,8-10) none path [OF assms(2)] path [OF assms(3)]
      by (auto simp: apply_saved_meta_def remember_file_meta_def Let_def field_simps truthy_field_def framework_mode_def or_str_def
          truthy_str_def opt_str_def split: option.splits)
  qed
qed

text \<open>What the next page loads: the saved session, of this project, as it was saved.\<close>

lemma load_saved_session:
  assumes "current ov = Some i" "i \<noteq> []" and "wf_json (session_json pg ov)"
    and "lives (save_session pg ov) \<noteq> lives ov"
  shows "\<exists>v l. load_session pg (overlay_start (load_page owner (rec (save_session pg ov)))) =
      (Some v, set_live l (overlay_start (load_page owner (rec (save_session pg ov))))) \<and>
    (\<forall>k. k \<noteq> ''checkpointRevision'' \<longrightarrow> json_get k v = json_get k (session_json pg ov))"
proof -
  obtain kvs where kvs: "session_json pg ov = JObj kvs" by (auto simp: session_json_def)
  have saved: "lives (save_session pg ov) = save_live_session (JObj kvs) (lives ov)"
    using assms(1,2) by (simp add: save_session_def truthy_str_def opt_str_def kvs)
  have 1: "field_truthy ''id'' (JObj kvs)"
    using saved_fields(1) [of pg ov] assms(1,2) by (simp add: field_truthy_def kvs opt_str_def)
  have 2: "wf_json (JObj kvs)" using assms(3) kvs by simp
  have 3: "safe_read (session_key (lives ov)) (save_live_session (JObj kvs) (lives ov)) =
      Some (print_json (session_payload (JObj kvs) (lives ov)))"
    using assms(4) 1 safe_write_cases [of "session_key (lives ov)" "print_json (session_payload (JObj kvs) (lives ov))" "lives ov"]
    by (auto simp: saved save_live_session_def)
  let ?r = "(save_live_session (JObj kvs) (lives ov))\<lparr>ls_revision := 0, ls_owner := owner\<rparr>"
  have 4: "session_key ?r = session_key (lives ov)" "ls_store ?r = ls_store (save_live_session (JObj kvs) (lives ov))"
    by (simp_all add: session_key_def save_live_session_def)
  note load = save_then_load [OF 1 2 3 4]
  let ?v = "session_payload (JObj kvs) (lives ov)"
  have get: "json_get k ?v = json_get k (session_json pg ov)" if "k \<noteq> ''checkpointRevision''" for k
    using that by (simp add: session_payload_def map_of_omap_set kvs)
  have "\<not> foreign_session (app_root pg) (Some ?v)"
    using get [of "''appRoot''"] saved_fields(2) [of pg ov]
    by (auto simp: foreign_session_def field_simps truthy_field_def)
  then have "load_session pg (overlay_start (load_page owner (rec (save_session pg ov)))) =
      (Some ?v, set_live (?r\<lparr>ls_revision := max (ls_revision ?r) (ls_revision (lives ov))\<rparr>)
         (overlay_start (load_page owner (rec (save_session pg ov)))))"
    using load by (simp add: load_session_def overlay_start_def load_page_def saved)
  with get show ?thesis by blast
qed

lemma drawn_fields [simp]:
  "source_file (emit es ov) = source_file ov" "preview_file (emit es ov) = preview_file ov" "preview_mode (emit es ov) = preview_mode ov"
  "expected (emit es ov) = expected ov" "arrived (emit es ov) = arrived ov" "visible (emit es ov) = visible ov" "state (emit es ov) = state ov"
  "source_file (save_session pg ov) = source_file ov" "preview_file (save_session pg ov) = preview_file ov"
  "preview_mode (save_session pg ov) = preview_mode ov" "expected (save_session pg ov) = expected ov"
  "arrived (save_session pg ov) = arrived ov" "visible (save_session pg ov) = visible ov" "state (save_session pg ov) = state ov"
  "source_file (queue_checkpoint r ov) = source_file ov" "preview_file (queue_checkpoint r ov) = preview_file ov"
  "preview_mode (queue_checkpoint r ov) = preview_mode ov" "expected (queue_checkpoint r ov) = expected ov"
  "arrived (queue_checkpoint r ov) = arrived ov" "visible (queue_checkpoint r ov) = visible ov" "state (queue_checkpoint r ov) = state ov"
  by (simp_all add: emit_def save_session_def set_live_def queue_checkpoint_def)

lemma send_visible [simp]: "visible (send_checkpoint pg r ov) = visible ov"
  by (simp add: send_checkpoint_def set_live_def Let_def split: prod.split)

lemma apply_saved_meta_None [simp]: "apply_saved_meta None ov = ov"
  by (simp add: apply_saved_meta_def)


definition sample_overlay :: "nat overlay" where
  "sample_overlay =
     (overlay_start (recovery_start (sample_live\<lparr>ls_store := Some (empty_storage 2000)\<rparr>) None))
       \<lparr>state := Live_cycling, expected := Some 3, arrived := Some 3, visible := Some 2, source_file := Some ''src/app.tsx''\<rparr>"


lemma find_Some_in: "List.find P xs = Some x \<Longrightarrow> x \<in> set xs \<and> P x"
  by (auto simp: find_Some_iff)

lemma adopted_id: "session_id (Some (server_session_as_saved s)) = session_id (Some s)"
  by (auto simp: field_simps server_session_as_saved_def map_add_def split: option.split json.split)

text \<open>
  What is restored without a wrapper is this page's own work: either the session this browser
  saved, not stamped with another project, or, where it saved none, a session of the server's list
  that names this page, is in a phase of comparison, is neither settled nor handled, expects variants and has a file. When
  the server lists sessions at all, the restored one is among them and not settled.
\<close>

theorem restored_session_is_ours:
  assumes "restore_without_wrapper pg reason sessions ov = (True, ov')"
  shows "\<exists>i. current ov' = Some i \<and>
    ((\<exists>v. fst (load_live_session (lives ov)) = Some v \<and> session_id (Some v) = Some i \<and> \<not> foreign_session (app_root pg) (Some v)) \<or>
     (\<exists>ss. \<exists>s \<in> set ss. sessions = Some ss \<and> session_id (Some s) = Some i \<and> adoptable pg (lives ov) s)) \<and>
    (\<forall>ss. sessions = Some ss \<longrightarrow> ss \<noteq> [] \<longrightarrow>
       (\<exists>s \<in> set ss. session_id (Some s) = Some i \<and> \<not> terminal_summary s))"
proof -
  obtain cached ov1 where load: "load_session pg ov = (cached, ov1)" by force
  let ?saved = "if session_id cached \<noteq> None then cached
                else map_option server_session_as_saved (find_adoptable pg (lives ov1) sessions)"
  obtain i where i: "session_id ?saved = Some i" "current ov' = Some i"
    "sessions = None \<or> sessions = Some [] \<or> find_active_summary pg ?saved sessions \<noteq> None"
    using assms unfolding restore_without_wrapper_def load
    by (simp add: Let_def split: option.splits if_splits) auto
  have listed: "\<exists>s \<in> set ss. session_id (Some s) = Some i \<and> \<not> terminal_summary s" if "sessions = Some ss" "ss \<noteq> []" for ss
    using i(1,3) that by (auto simp: find_active_summary_def split: option.splits dest!: find_Some_in)
  have handled: "is_handled j (lives ov1) = is_handled j (lives ov)" for j
    using load_session_frame(2) [of j pg ov] load by simp
  have "adoptable pg (lives ov1) s = adoptable pg (lives ov) s" for s
    by (simp add: adoptable_def handled split: option.split)
  then have adopt: "\<exists>ss. \<exists>s \<in> set ss. sessions = Some ss \<and> session_id (Some s) = Some i \<and> adoptable pg (lives ov) s"
    if "session_id cached = None"
  proof -
    have "session_id None = None" by (simp add: session_id_def field_def)
    with i(1) that obtain s where s: "find_adoptable pg (lives ov1) sessions = Some s" "session_id (Some s) = Some i"
      by (cases "find_adoptable pg (lives ov1) sessions") (auto simp: adopted_id)
    then show ?thesis using \<open>\<And>s. adoptable pg (lives ov1) s = adoptable pg (lives ov) s\<close>
      by (auto simp: find_adoptable_def split: option.splits dest!: find_Some_in)
  qed
  have own: "\<exists>v. fst (load_live_session (lives ov)) = Some v \<and> session_id (Some v) = Some i \<and> \<not> foreign_session (app_root pg) (Some v)"
    if "session_id cached \<noteq> None"
    using i(1) that load
    by (cases cached) (auto simp: load_session_def session_id_def field_def split: prod.splits if_splits)
  show ?thesis using i(2) listed adopt own by blast
qed

text \<open>
  The variant put on show is one that exists: a resumed wrapper with \<open>n\<close> variants shows one of the
  numbers 1 to \<open>n\<close>, and none (0) only where there is none; restored counts never show a number
  beyond the variants that arrived.
\<close>

theorem shown_variant_exists:
  "(\<exists>v. visible (resume_wrapper pg w i reason ov) = Some v \<and> 0 \<le> v \<and> v \<le> int (wr_variants w) \<and>
     (v = 0 \<longleftrightarrow> wr_variants w = 0)) \<and>
   (\<exists>v. visible (restore_counts saved server ov) = Some v \<and> 0 \<le> v \<and>
     (\<forall>a. arrived (restore_counts saved server ov) = Some a \<and> 0 < a \<longrightarrow> 1 \<le> v \<and> v \<le> a))"
proof
  let ?n = "Some (int (wr_variants w))" let ?first = "if wr_variants w > 0 then Some 1 else Some 0 :: num"
  let ?ov = "(set_current (Some i) ov)\<lparr>expected := parse_int_prefix (str_or (opt_str (wr_count w)) ''0''), arrived := ?n\<rparr>"
  obtain saved ov1 where load: "load_session pg ?ov = (saved, ov1)" by force
  let ?seen = "js_number (field ''visible'' saved)"
  have "visible (resume_wrapper pg w i reason ov) =
      (if session_id saved = Some i then (if pos_num ?seen \<and> num_le ?seen ?n then ?seen else ?first) else ?first)"
    by (simp add: resume_wrapper_def load Let_def)
  then show "\<exists>v. visible (resume_wrapper pg w i reason ov) = Some v \<and> 0 \<le> v \<and> v \<le> int (wr_variants w) \<and>
      (v = 0 \<longleftrightarrow> wr_variants w = 0)"
    by (auto simp: pos_num_def num_less_def num_le_def split: option.splits)
next
  show "\<exists>v. visible (restore_counts saved server ov) = Some v \<and> 0 \<le> v \<and>
     (\<forall>a. arrived (restore_counts saved server ov) = Some a \<and> 0 < a \<longrightarrow> 1 \<le> v \<and> v \<le> a)"
  proof -
    let ?a = "arrived (restore_counts saved server ov)" let ?e = "expected (restore_counts saved server ov)"
    have v: "visible (restore_counts saved server ov) = num_or (clamp_variant_index (field ''visible'' saved) (num_or ?a ?e))
        (num_or (clamp_variant_index (field ''visibleVariant'' server) (num_or ?a ?e)) (if pos_num ?a then Some 1 else Some 0))"
      by (simp add: restore_counts_def Let_def)
    have clamp: "\<exists>n. clamp_variant_index x t = Some n \<and> 0 \<le> n \<and> (\<forall>m. t = Some m \<and> 0 < m \<longrightarrow> n \<le> m)" for x t
      by (auto simp: clamp_variant_index_def split: option.split)
    from clamp [of "field ''visible'' saved" "num_or ?a ?e"] clamp [of "field ''visibleVariant'' server" "num_or ?a ?e"]
    show ?thesis unfolding v
      by (auto simp: num_or_def num_truthy_def pos_num_def num_less_def split: if_splits option.splits)
  qed
qed

lemma shown_variant_exists_witness:
  "(\<exists>v. visible (resume_wrapper sample_page (hd (wrappers sample_page)) ''s7'' ''r'' sample_overlay) = Some v \<and> 1 \<le> v \<and> v \<le> 2) \<and>
   visible (restore_counts (Some (JObj [(''visible'', JNum 9), (''arrived'', JNum 1)])) None sample_overlay) = Some 1"
proof -
  have n: "wr_variants (hd (wrappers sample_page)) = 2" by (simp add: sample_page_def)
  have a: "arrived (restore_counts (Some (JObj [(''visible'', JNum 9), (''arrived'', JNum 1)])) None sample_overlay) = Some 1"
    by code_simp
  show ?thesis
    using shown_variant_exists [of sample_page "hd (wrappers sample_page)" "''s7''" "''r''" sample_overlay
        "Some (JObj [(''visible'', JNum 9), (''arrived'', JNum 1)])" None] n a by auto
qed

definition sample_summary :: json where
  "sample_summary =
     JObj [(''id'', JStr ''s9''), (''phase'', JStr ''cycling''), (''pageUrl'', JStr ''/app''),
           (''sourceFile'', JStr ''src/app.tsx''), (''expectedVariants'', JNum 2)]"

lemma restored_session_is_ours_witness:
  "\<exists>ov'. restore_without_wrapper sample_page None (Some [sample_summary])
      (overlay_start (recovery_start (sample_live\<lparr>ls_store := None\<rparr>) None)) = (True, ov') \<and> current ov' = Some ''s9''"
proof -
  let ?r = "restore_without_wrapper sample_page None (Some [sample_summary])
      (overlay_start (recovery_start (sample_live\<lparr>ls_store := None\<rparr>) None) :: nat overlay)"
  have "fst ?r" by code_simp
  then have r: "?r = (True, snd ?r)" by (metis prod.collapse)
  have "session_id (Some sample_summary) = Some ''s9''" by code_simp
  with restored_session_is_ours [OF r] have "current (snd ?r) = Some ''s9''" by auto
  with r show ?thesis by blast
qed

end
