(* ===== verification/LiveDurable.thy ===== *)
theory LiveDurable imports LiveSession begin

text \<open>
  What \<open>agent/skills/impeccable/scripts/live-browser-session.js\<close> promises, without keys, JSON text and
  storage: one saved session, a list of handled ids, a revision. \<open>durable_of\<close> reads it off the storage;
  where a write is taken, every operation of the session object is the operation on \<open>durable\<close>.
\<close>

section \<open>The abstract store\<close>

record durable =
  du_saved :: "json option"
  du_handled :: "string list"
  du_revision :: int

definition durable_of :: "live_session \<Rightarrow> durable" where
  "durable_of l = \<lparr>du_saved = fst (load_live_session l), du_handled = read_handled_ids l, du_revision = ls_revision l\<rparr>"

definition du_save :: "json \<Rightarrow> durable \<Rightarrow> durable" where
  "du_save v d = d\<lparr>du_saved := Some (JObj (omap_set ''checkpointRevision'' (JNum (du_revision d)) (spread v)))\<rparr>"

definition du_clear :: "durable \<Rightarrow> durable" where
  "du_clear d = d\<lparr>du_saved := None\<rparr>"

definition du_load :: "durable \<Rightarrow> durable" where
  "du_load d =
     (case Option.bind (Option.bind (du_saved d) (json_get ''checkpointRevision'')) json_int of
        None \<Rightarrow> d | Some n \<Rightarrow> d\<lparr>du_revision := max (du_revision d) n\<rparr>)"

definition du_mark :: "string \<Rightarrow> durable \<Rightarrow> durable" where
  "du_mark i d = d\<lparr>du_handled := last_n 8 (filter (\<lambda>x. x \<noteq> i) (du_handled d) @ [i])\<rparr>"

definition du_forget :: "string \<Rightarrow> durable \<Rightarrow> durable" where
  "du_forget i d = d\<lparr>du_handled := (if i = [] then [] else filter (\<lambda>x. x \<noteq> i) (du_handled d))\<rparr>"

section \<open>Lemmas\<close>

lemma session_keys_apart [simp]: "handled_key l \<noteq> session_key l" "session_key l \<noteq> handled_key l"
  by (simp_all add: handled_key_def)

lemma load_cong:
  "safe_read (session_key b) a = safe_read (session_key b) b \<Longrightarrow> ls_prefix a = ls_prefix b \<Longrightarrow>
   fst (load_live_session a) = fst (load_live_session b)"
  by (auto simp: load_live_session_def session_key_def Let_def split: option.split)

lemma handled_cong:
  "safe_read (handled_key b) a = safe_read (handled_key b) b \<Longrightarrow> ls_prefix a = ls_prefix b \<Longrightarrow>
   read_handled_ids a = read_handled_ids b"
  by (simp add: read_handled_ids_def handled_key_def session_key_def)

lemma safe_frame [simp]:
  "ls_prefix (safe_write k v l) = ls_prefix l" "ls_revision (safe_write k v l) = ls_revision l"
  "ls_prefix (safe_remove k l) = ls_prefix l" "ls_revision (safe_remove k l) = ls_revision l"
  by (simp_all add: safe_write_def safe_remove_def split: option.split sum.split)

lemma read_remove: "safe_read j (safe_remove k l) = (if j = k then None else safe_read j l)"
  by (simp add: safe_read_def safe_remove_def items.get_del split: option.split)

lemma read_other: "j \<noteq> k \<Longrightarrow> safe_read j (safe_write k v l) = safe_read j l"
  using safe_write_cases [of k v l] by auto

lemma removed_keys [simp]:
  "session_key (safe_remove k l) = session_key l" "handled_key (safe_remove k l) = handled_key l"
  "session_key (safe_write k v l) = session_key l" "handled_key (safe_write k v l) = handled_key l"
  by (simp_all add: session_key_def handled_key_def)

lemma write_handled_durable:
  assumes "safe_read (handled_key l) (safe_write (handled_key l) (print_ids ids) l) = Some (print_ids ids)" "[] \<notin> set ids"
  shows "durable_of (safe_write (handled_key l) (print_ids ids) l) = (durable_of l)\<lparr>du_handled := ids\<rparr>"
proof -
  let ?l = "safe_write (handled_key l) (print_ids ids) l"
  have "fst (load_live_session ?l) = fst (load_live_session l)" by (rule load_cong) (simp_all add: read_other)
  moreover have "read_handled_ids ?l = ids" using assms by (intro read_back_ids) simp_all
  ultimately show ?thesis by (simp add: durable_of_def)
qed

lemma remove_handled_durable: "durable_of (safe_remove (handled_key l) l) = (durable_of l)\<lparr>du_handled := []\<rparr>"
proof -
  have "fst (load_live_session (safe_remove (handled_key l) l)) = fst (load_live_session l)"
    by (rule load_cong) (simp_all add: read_remove)
  moreover have "read_handled_ids (safe_remove (handled_key l) l) = []"
    by (simp add: read_handled_ids_def read_remove truthy_str_def opt_str_def)
  ultimately show ?thesis by (simp add: durable_of_def)
qed

lemma revision_durable: "durable_of (l\<lparr>ls_revision := n\<rparr>) = (durable_of l)\<lparr>du_revision := n\<rparr>"
proof -
  have "fst (load_live_session (l\<lparr>ls_revision := n\<rparr>)) = fst (load_live_session l)"
    by (rule load_cong) (simp_all add: safe_read_def)
  moreover have "read_handled_ids (l\<lparr>ls_revision := n\<rparr>) = read_handled_ids l"
    by (rule handled_cong) (simp_all add: safe_read_def)
  ultimately show ?thesis by (simp add: durable_of_def)
qed

lemma load_moves_revision:
  "ls_revision (snd (load_live_session l)) =
     (case Option.bind (Option.bind (fst (load_live_session l)) (json_get ''checkpointRevision'')) json_int of
        None \<Rightarrow> ls_revision l | Some n \<Rightarrow> max (ls_revision l) n)"
  by (auto simp: load_live_session_def Let_def split: option.split)

lemma load_wf: "load_live_session l = (Some v, l') \<Longrightarrow> wf_json v \<and> v \<noteq> JNull"
  by (auto simp: load_live_session_def Let_def split: option.splits if_splits dest: json_parse_wf)

lemma load_durable: "durable_of (snd (load_live_session l)) = du_load (durable_of l)"
proof -
  let ?n = "ls_revision (snd (load_live_session l))"
  have "durable_of (snd (load_live_session l)) = (durable_of l)\<lparr>du_revision := ?n\<rparr>"
    using load_revision_only [of l] revision_durable [of ?n l] by simp
  then show ?thesis
    using load_moves_revision [of l] by (simp add: du_load_def durable_of_def split: option.split)
qed

section \<open>Properties\<close>

definition taken :: "string \<Rightarrow> string \<Rightarrow> live_session \<Rightarrow> bool" where
  "taken k v l \<longleftrightarrow> safe_read k (safe_write k v l) = Some v"

definition roomy_live :: live_session where
  "roomy_live = \<lparr>ls_prefix = ''p'', ls_store = Some (empty_storage 2000), ls_revision = 4, ls_owner = ''o''\<rparr>"


definition stored_live :: live_session where
  "stored_live = save_live_session (JObj [(''id'', JStr ''s'')]) roomy_live"


text \<open>
  C6: The session object implements its abstract store. Where the storage takes the writes, saving,
  clearing, loading, marking a session as handled and forgetting one are, seen through
  \<open>durable_of\<close>, the operations on one saved session, a list of at most eight handled ids and a
  revision that never falls; none disturbs what another keeps.
\<close>

theorem session_refines_store:
  assumes "field_truthy ''id'' (JObj kvs)" "wf_json (JObj kvs)"
    and "taken (session_key l) (print_json (session_payload (JObj kvs) l)) l"
    and "i \<noteq> []" "taken (handled_key l) (print_ids (last_n 8 (filter (\<lambda>x. x \<noteq> i) (read_handled_ids l) @ [i]))) l"
    and "taken (handled_key l) (print_ids (filter (\<lambda>x. x \<noteq> j) (read_handled_ids l))) l"
  shows "durable_of (save_live_session (JObj kvs) l) = du_save (JObj kvs) (durable_of l) \<and>
    durable_of (clear_live_session l) = du_clear (durable_of l) \<and>
    durable_of (snd (load_live_session l)) = du_load (durable_of l) \<and>
    durable_of (mark_handled i l) = du_mark i (durable_of l) \<and>
    durable_of (clear_handled j l) = du_forget j (durable_of l)"
proof (intro conjI)
  let ?p = "session_payload (JObj kvs) l" let ?s = "save_live_session (JObj kvs) l"
  have s: "?s = safe_write (session_key l) (print_json ?p) l" using assms(1) by (simp add: save_live_session_def)
  have "fst (load_live_session ?s) = Some ?p"
    using save_then_load [OF assms(1,2), of l ?s] assms(3) s by (simp add: taken_def)
  moreover have "read_handled_ids ?s = read_handled_ids l" unfolding s by (rule handled_cong) (simp_all add: read_other)
  ultimately show "durable_of ?s = du_save (JObj kvs) (durable_of l)"
    by (simp add: durable_of_def du_save_def session_payload_def s)
  have "fst (load_live_session (clear_live_session l)) = None"
    by (simp add: clear_live_session_def load_live_session_def read_remove truthy_str_def opt_str_def)
  moreover have "read_handled_ids (clear_live_session l) = read_handled_ids l"
    unfolding clear_live_session_def by (rule handled_cong) (simp_all add: read_remove)
  ultimately show "durable_of (clear_live_session l) = du_clear (durable_of l)"
    by (simp add: durable_of_def du_clear_def clear_live_session_def)
  show "durable_of (snd (load_live_session l)) = du_load (durable_of l)" by (rule load_durable)
  have mark: "[] \<notin> set (last_n 8 (filter (\<lambda>x. x \<noteq> i) (read_handled_ids l) @ [i]))"
    using set_last_n [of 8 "filter (\<lambda>x. x \<noteq> i) (read_handled_ids l) @ [i]"] handled_ids_nonempty [of l] assms(4) by auto
  show "durable_of (mark_handled i l) = du_mark i (durable_of l)"
    using write_handled_durable [OF assms(5) [unfolded taken_def] mark] assms(4)
    by (simp add: mark_handled_def du_mark_def) (simp add: durable_of_def)
  have "[] \<notin> set (filter (\<lambda>x. x \<noteq> j) (read_handled_ids l))" using handled_ids_nonempty [of l] by auto
  from write_handled_durable [OF assms(6) [unfolded taken_def] this]
  show "durable_of (clear_handled j l) = du_forget j (durable_of l)"
    using remove_handled_durable [of l]
    by (simp add: clear_handled_def du_forget_def Let_def) (simp add: durable_of_def)
qed

lemma session_refines_store_witness:
  "durable_of (save_live_session (JObj [(''id'', JStr ''s'')]) roomy_live) =
     \<lparr>du_saved = Some (JObj [(''id'', JStr ''s''), (''checkpointRevision'', JNum 4)]), du_handled = [], du_revision = 4\<rparr>"
proof -
  have 1: "field_truthy ''id'' (JObj [(''id'', JStr ''s'')])" by (simp add: field_truthy_def)
  have 2: "wf_json (JObj [(''id'', JStr ''s'')])" by simp
  have 3: "taken (session_key roomy_live) (print_json (session_payload (JObj [(''id'', JStr ''s'')]) roomy_live)) roomy_live"
    by code_simp
  have 4: "taken (handled_key roomy_live)
      (print_ids (last_n 8 (filter (\<lambda>x. x \<noteq> ''a'') (read_handled_ids roomy_live) @ [''a'']))) roomy_live" by code_simp
  have 5: "taken (handled_key roomy_live) (print_ids (filter (\<lambda>x. x \<noteq> ''b'') (read_handled_ids roomy_live))) roomy_live"
    by code_simp
  have start: "durable_of roomy_live = \<lparr>du_saved = None, du_handled = [], du_revision = 4\<rparr>" by code_simp
  have "durable_of (save_live_session (JObj [(''id'', JStr ''s'')]) roomy_live) =
      du_save (JObj [(''id'', JStr ''s'')]) (durable_of roomy_live)"
    by (rule conjunct1 [OF session_refines_store [OF 1 2 3 _ 4 5]]) simp
  also have "\<dots> = \<lparr>du_saved = Some (JObj [(''id'', JStr ''s''), (''checkpointRevision'', JNum 4)]), du_handled = [], du_revision = 4\<rparr>"
    unfolding start by code_simp
  finally show ?thesis .
qed

end
