(* ===== verification/LiveParams.thy ===== *)
theory LiveParams imports LiveResume begin

text \<open>
  The parameters of a session's variants (\<open>agent/skills/impeccable/scripts/live-browser.js\<close>, lines
  2611 to 2648, 3152 to 3217, 4868 to 4929 and 6643 to 6690): what the bar says, the values of the
  visible variant's parameters, the style sheet that shows one variant and carries the values.

  \<open>cycle\<close> adds to the overlay what the handlers of \<open>LiveCycle\<close> and the theories above it share;
  \<open>stage\<close> is the document at one moment. An entry of a parameter list is an object.
\<close>

section \<open>State\<close>

text \<open>A selection in flight (\<open>next\<close>, \<open>previous\<close>, the reason of its checkpoint), or its rollback.\<close>

datatype selection = Showing num num "string option" | Restoring

text \<open>What waits for the mount of a component, and a mount in flight.\<close>

datatype mount_use = For_selection | For_show | For_injection | For_remount

record mounting =
  mt_session :: string
  mt_variant :: num
  mt_use :: mount_use
  mt_failed :: "string option"

record mount_card =
  mc_session :: "string option"
  mc_variant :: num
  mc_url :: string
  mc_message :: string
  mc_file :: "string option"

text \<open>The options of a source fallback: file, session, and how often it was tried.\<close>

record source_try =
  so_file :: string
  so_session :: string
  so_completed :: bool
  so_orphan :: bool
  so_attempt :: nat
  so_orphan_attempt :: nat

text \<open>What a retry checks before it reads again; a read of a JSX file only looks for the wrapper.\<close>

datatype retry_guard = Guard_empty | Guard_jsx | Guard_orphan

datatype source_use = Inject_source | Probe_jsx

record pending_accept =
  pa_id :: string
  pa_variant :: string
  pa_svelte :: bool
  pa_finalizing :: bool

datatype notice =
    Toast string
  | Busy_toast
  | Post json
  | Manual_activity json
  | Steered json

text \<open>
  The bar's display with the number of the timer that may hide it; the accept under way and the one
  whose result is awaited; requests, microtasks and timers that have not come back: accepts and
  discards posted, clean-ups of accepted sessions, fallback timers (file, session), retries and reads of
  a source, nudges, manifest reads (file, session), waits for a variant's anchor and for a component's
  target; the event source; accepts that wait for a selection; generate requests that wait for their
  screenshot and for their answer.
\<close>

record 'e cycle =
  ov :: "'e overlay"
  tune_open :: bool
  announced :: "string option"
  variant_css :: string
  selecting :: "selection option"
  apply_busy :: bool
  pick_on :: bool
  insert_on :: bool
  configure_insert :: bool
  bar_display :: bool
  bar_seq :: nat
  bar_timers :: "nat list"
  mounts :: "mounting list"
  mount_error :: "mount_card option"
  last_failure :: "string option"
  accepting :: "pending_accept option"
  awaiting :: "string option"
  accept_posts :: "string list"
  discard_posts :: nat
  cleanups :: "pending_accept list"
  source_timers :: "(string \<times> string) list"
  source_retries :: "(retry_guard \<times> source_try) list"
  source_reads :: "(source_use \<times> source_try) list"
  anchor_wait :: "source_try option"
  nudges :: nat
  manifest_reads :: "(string \<times> string) list"
  target_wait :: "(string \<times> string) option"
  bar_syncs :: "(string \<times> num) list"
  settles :: "string list"
  abandoned :: "string option"
  sse_retries :: nat
  sse_open :: bool
  has_context :: bool
  agent_polling :: bool
  steer_request :: "string option"
  accept_waits :: nat
  captures :: "json list"
  creations :: "string list"
  observing :: "string option"
  notices :: "notice list"

text \<open>
  The document: the page of \<open>LiveResume\<close>; the attribute \<open>data-impeccable-params\<close> of a session's
  variant (\<open>None\<close> where there is no such element); the numbers of the variants that are displayed;
  which elements are in the body; whether a component's place is found, and its mount element; whether
  the placeholder of an insertion has to be made again.
\<close>

record 'e stage =
  sg_page :: "'e page"
  sg_params :: "string \<Rightarrow> int \<Rightarrow> string option option"
  sg_displayed :: "string \<Rightarrow> int list"
  sg_attached :: "'e \<Rightarrow> bool"
  sg_target :: bool
  sg_mount :: "'e"
  sg_recreates :: bool

definition upd :: "('e overlay \<Rightarrow> 'e overlay) \<Rightarrow> 'e cycle \<Rightarrow> 'e cycle" where
  "upd f c = c\<lparr>ov := f (ov c)\<rparr>"

definition notify :: "notice list \<Rightarrow> 'e cycle \<Rightarrow> 'e cycle" where
  "notify ns c = c\<lparr>notices := notices c @ ns\<rparr>"

abbreviation cid :: "'e cycle \<Rightarrow> string option" where "cid c \<equiv> current (ov c)"

definition wrapper_for :: "string option \<Rightarrow> 'e page \<Rightarrow> 'e wrapper option" where
  "wrapper_for i pg =
     (if \<not> truthy_str i then None
      else pick_populated (filter (\<lambda>w. mk_variants (wr_marks w) = i) (wrappers pg)))"

definition own_component :: "'e cycle \<Rightarrow> bool" where
  "own_component c \<longleftrightarrow> svelte (ov c) \<noteq> None \<and> map_option sv_id (svelte (ov c)) = cid c"

section \<open>What the bar says\<close>

definition num_text :: "num \<Rightarrow> string" where
  "num_text x = (case x of None \<Rightarrow> ''NaN'' | Some n \<Rightarrow> show_int n)"

definition all_arrived :: "'e overlay \<Rightarrow> bool" where
  "all_arrived o1 \<longleftrightarrow> num_le (expected o1) (arrived o1) \<and> pos_num (expected o1)"

definition generation_status_text :: "'e overlay \<Rightarrow> string" where
  "generation_status_text o1 =
     (if all_arrived o1 then ''Done''
      else if gen_phase o1 = Some (JStr ''picked_up'') then ''Agent picked up the request...''
      else if gen_phase o1 = Some (JStr ''scaffolding'') then ''Finding the source...''
      else if gen_phase o1 = Some (JStr ''source_ready'') then ''Source ready. Generating...''
      else if gen_phase o1 = Some (JStr ''scaffold_fallback'') then ''Agent is locating the source...''
      else if gen_phase o1 = Some (JStr ''first_reviewable'') then ''First variant is ready. Exploring more...''
      else if gen_phase o1 = Some (JStr ''second_reviewable'') then ''Checking the remaining variants...''
      else ''Generating '' @ num_text (expected o1) @ '' variants...'')"

definition cycling_shown_variant :: "'e cycle \<Rightarrow> num" where
  "cycling_shown_variant c =
     (case svelte (ov c) of
        Some sv \<Rightarrow> if own_component c \<and> sv_mounted sv > 0 then Some (sv_mounted sv) else visible (ov c)
      | None \<Rightarrow> visible (ov c))"

definition cycling_counter_text :: "'e cycle \<Rightarrow> string" where
  "cycling_counter_text c =
     num_text (cycling_shown_variant c) @ ''/'' @
     num_text (if pos_num (arrived (ov c)) then arrived (ov c) else expected (ov c))"

section \<open>Parameters\<close>

definition parsed_list :: "json option \<Rightarrow> json list" where
  "parsed_list v = (case v of Some (JArr vs) \<Rightarrow> vs | _ \<Rightarrow> [])"

definition parse_variant_params :: "'e cycle \<Rightarrow> string option option \<Rightarrow> json list" where
  "parse_variant_params c attr =
     (if own_component c
      then (case svelte (ov c) of
              Some sv \<Rightarrow> parsed_list (map_of (sv_params sv) (num_text (visible (ov c)))) | None \<Rightarrow> [])
      else (case attr of
              None \<Rightarrow> []
            | Some raw \<Rightarrow> if \<not> truthy_str raw then [] else parsed_list (json_parse (opt_str raw))))"

definition visible_attr :: "'e stage \<Rightarrow> 'e cycle \<Rightarrow> string option option" where
  "visible_attr sg c =
     (if \<not> truthy_str (cid c) then None
      else if wrapper_for (cid c) (sg_page sg) = None then None
      else (case visible (ov c) of None \<Rightarrow> None | Some n \<Rightarrow> sg_params sg (opt_str (cid c)) n))"

text \<open>Whether \<open>getVisibleVariantEl\<close> finds an element: a component session has at least its wrapper.\<close>

definition visible_element :: "'e stage \<Rightarrow> 'e cycle \<Rightarrow> bool" where
  "visible_element sg c \<longleftrightarrow>
     truthy_str (cid c) \<and> (own_component c \<or> visible_attr sg c \<noteq> None)"

definition param_id :: "json \<Rightarrow> string" where
  "param_id p =
     (case json_get ''id'' p of Some (JStr s) \<Rightarrow> s | Some (JNum n) \<Rightarrow> show_int n | _ \<Rightarrow> ''undefined'')"

definition param_defaults :: "json list \<Rightarrow> (string \<times> json) list" where
  "param_defaults ps =
     foldl (\<lambda>m p. case json_get ''default'' p of None \<Rightarrow> m | Some d \<Rightarrow> omap_set (param_id p) d m) [] ps"

definition VARIANT_HIDE_DECL :: string where "VARIANT_HIDE_DECL = ''display: none !important;''"
definition VARIANT_SHOW_DECL :: string where "VARIANT_SHOW_DECL = ''display: block !important;''"

definition in_quotes :: "string \<Rightarrow> string" where "in_quotes s = [CHR 0x22] @ s @ [CHR 0x22]"

definition variant_state_selector :: "string \<Rightarrow> string option \<Rightarrow> string" where
  "variant_state_selector i n =
     ''[data-impeccable-variants='' @ in_quotes i @ ''] > '' @
     (case n of None \<Rightarrow> ''[data-impeccable-variant]'' | Some k \<Rightarrow> ''[data-impeccable-variant='' @ in_quotes k @ '']'')"

definition variant_param_decls :: "(string \<times> json) list \<Rightarrow> string" where
  "variant_param_decls values =
     concat (map (\<lambda>(i, v). case v of
         JNum n \<Rightarrow> '' --p-'' @ i @ '': '' @ show_int n @ '';''
       | JFrac t \<Rightarrow> '' --p-'' @ i @ '': '' @ t @ '';''
       | JBool b \<Rightarrow> '' --p-'' @ i @ '': '' @ (if b then ''1'' else ''0'') @ '';''
       | _ \<Rightarrow> []) values)"

definition variant_stylesheet :: "string \<Rightarrow> string \<Rightarrow> (string \<times> json) list \<Rightarrow> string" where
  "variant_stylesheet i k values =
     variant_state_selector i None @ '':not([data-impeccable-variant='' @ in_quotes k @ '']) { '' @ VARIANT_HIDE_DECL @ '' }'' @ [CHR 0x0A] @
     variant_state_selector i (Some k) @ '' { '' @ VARIANT_SHOW_DECL @ variant_param_decls values @ '' }'' @ [CHR 0x0A]"

definition update_stylesheet :: "string option \<Rightarrow> num \<Rightarrow> 'e cycle \<Rightarrow> 'e cycle" where
  "update_stylesheet i n c =
     (if \<not> truthy_str i \<or> num_less n (Some 1) then c
      else c\<lparr>variant_css := variant_stylesheet (opt_str i) (num_text n) (param_values (ov c))\<rparr>)"

text \<open>The values an element's defaults leave, and the style sheet they are driven through.\<close>

definition apply_param_defaults :: "json list \<Rightarrow> 'e cycle \<Rightarrow> 'e cycle" where
  "apply_param_defaults ps c =
     (let c1 = upd (\<lambda>o1. o1\<lparr>param_values := param_defaults ps\<rparr>) c in
      if ps = [] \<or> own_component c then c1 else update_stylesheet (cid c1) (visible (ov c1)) c1)"

definition refresh_params :: "'e stage \<Rightarrow> 'e cycle \<Rightarrow> 'e cycle" where
  "refresh_params sg c =
     (let clear = (\<lambda>x. (upd (\<lambda>o1. o1\<lparr>param_values := []\<rparr>) x)\<lparr>tune_open := False\<rparr>) in
      if state (ov c) \<noteq> Live_cycling then clear c
      else
        let ps = parse_variant_params c (visible_attr sg c) in
        if \<not> visible_element sg c \<or> ps = [] then
          (let c1 = clear c in
           if truthy_str (cid c1) \<and> num_truthy (visible (ov c1))
           then update_stylesheet (cid c1) (visible (ov c1)) c1 else c1)
        else apply_param_defaults ps c)"

section \<open>Publication\<close>

definition session_attrs :: "'e stage \<Rightarrow> 'e wrapper \<Rightarrow> string \<Rightarrow> string option list" where
  "session_attrs sg w i = List.map_filter (sg_params sg i) (map int [1..<wr_variants w + 1])"

definition mounted_parameter_count :: "'e stage \<Rightarrow> 'e cycle \<Rightarrow> nat" where
  "mounted_parameter_count sg c =
     (if own_component c
      then (case svelte (ov c) of
              Some sv \<Rightarrow> sum_list (map (\<lambda>(k, v). length (parsed_list (Some v))) (sv_params sv)) | None \<Rightarrow> 0)
      else (case wrapper_for (cid c) (sg_page sg) of
              None \<Rightarrow> 0
            | Some w \<Rightarrow>
                sum_list (map (\<lambda>a. length (parse_variant_params c (Some a))) (session_attrs sg w (opt_str (cid c))))))"

end
