(* ===== verification/LiveCycle.thy ===== *)
theory LiveCycle imports LiveParams begin

text \<open>
  Showing and ending a session (\<open>agent/skills/impeccable/scripts/live-browser.js\<close>, lines 1160 to
  1200, 2179 to 2182, 3031 to 3055, 4909 to 5015, 6161 to 6192, 6548 to 6613, 8915 to 8935 and 9263 to
  9350): the bar of the comparison, the tune panel, switching variants, the three ways a session is
  torn down.

  The bar draws nothing without a variant: \<open>show_cycling_bar\<close> then ends the session. Ending it hides
  the bar, which may draw it once more: \<open>recoveringEmptyCycling\<close> stops the recursion there, so the
  operations come in two versions, \<open>_in\<close> for those inside a recovery.
\<close>

section \<open>Small steps\<close>

definition set_state :: "live_state \<Rightarrow> 'e cycle \<Rightarrow> 'e cycle" where
  "set_state s = upd (\<lambda>o1. o1\<lparr>state := s\<rparr>)"

abbreviation save :: "'e stage \<Rightarrow> 'e cycle \<Rightarrow> 'e cycle" where
  "save sg \<equiv> upd (save_session (sg_page sg))"

definition num_eq :: "num \<Rightarrow> num \<Rightarrow> bool" where
  "num_eq a b \<longleftrightarrow> a \<noteq> None \<and> a = b"

definition component_of :: "string option \<Rightarrow> 'e cycle \<Rightarrow> bool" where
  "component_of i c \<longleftrightarrow> svelte (ov c) \<noteq> None \<and> map_option sv_id (svelte (ov c)) = i"

text \<open>\<open>v > 0 && v <= m\<close>, false with \<open>NaN\<close>.\<close>

definition in_reach :: "num \<Rightarrow> num \<Rightarrow> bool" where
  "in_reach v m \<longleftrightarrow> pos_num v \<and> num_le v m"

section \<open>Ending a session\<close>

definition clamp_visible :: "'e cycle \<Rightarrow> 'e cycle" where
  "clamp_visible c =
     (if num_less (visible (ov c)) (Some 1) \<or> num_less (arrived (ov c)) (visible (ov c))
      then upd (\<lambda>o1. o1\<lparr>visible := Some 1\<rparr>) c else c)"

definition finalize_insert :: "'e cycle \<Rightarrow> 'e cycle" where
  "finalize_insert c = (upd (\<lambda>o1. o1\<lparr>insert_placeholder := None\<rparr>) c)\<lparr>configure_insert := False\<rparr>"

definition hide_bar_start :: "bool \<Rightarrow> 'e cycle \<Rightarrow> 'e cycle" where
  "hide_bar_start instant c =
     (let c1 = c\<lparr>bar_seq := bar_seq c + 1\<rparr>;
          c2 = (if configure_insert c1 then finalize_insert c1 else c1);
          c3 = (if instant then c2\<lparr>bar_display := False\<rparr> else c2\<lparr>bar_timers := bar_timers c2 @ [bar_seq c2]\<rparr>)
      in c3\<lparr>tune_open := False\<rparr>)"

definition redraws :: "'e cycle \<Rightarrow> bool" where
  "redraws c \<longleftrightarrow> bar_display c \<and> state (ov c) = Live_cycling"

definition hide_bar_in :: "bool \<Rightarrow> 'e cycle \<Rightarrow> 'e cycle" where
  "hide_bar_in instant c =
     (let c1 = hide_bar_start instant c in
      if redraws c1 \<and> pos_num (arrived (ov c1)) then clamp_visible c1 else c1)"

definition teardown_component :: "'e cycle \<Rightarrow> 'e cycle" where
  "teardown_component = upd (\<lambda>o1. o1\<lparr>svelte := None\<rparr>)"

definition clear_scroll :: "'e cycle \<Rightarrow> 'e cycle" where
  "clear_scroll = upd (\<lambda>o1. set_live (clear_scroll_y (lives o1)) o1)"

definition cleanup_start :: "'e cycle \<Rightarrow> 'e cycle" where
  "cleanup_start c =
     (let c1 = c\<lparr>mount_error := None, last_failure := None\<rparr> in
      if component_of (cid c1) c1 then teardown_component c1 else c1)"

definition cleanup_end :: "'e cycle \<Rightarrow> 'e cycle" where
  "cleanup_end c =
     (let c1 = finalize_insert (clear_scroll (c\<lparr>observing := None, anchor_wait := None, variant_css := []\<rparr>));
          c2 = upd (\<lambda>o1. (set_current None (reset_session_file_meta (clear_session o1)))
                 \<lparr>selected := None, param_state := JStr ''idle'', sel_action := JStr ''impeccable''\<rparr>) c1
      in set_state Live_picking (c2\<lparr>announced := None\<rparr>))"

definition cleanup_in :: "bool \<Rightarrow> 'e cycle \<Rightarrow> 'e cycle" where
  "cleanup_in instant c = cleanup_end (hide_bar_in instant (cleanup_start c))"

definition NO_VARIANTS :: string where
  "NO_VARIANTS = ''No variants were mounted. Please try again.''"

text \<open>The card of a failed mount and the wait for a component's target go with the session here.\<close>

definition reset_svelte_session :: "string option \<Rightarrow> string \<Rightarrow> 'e cycle \<Rightarrow> 'e cycle" where
  "reset_svelte_session i message c =
     (let c1 = (if component_of i c then teardown_component c else c);
          c2 = c1\<lparr>observing := None, target_wait := None, anchor_wait := None, variant_css := [], mount_error := None\<rparr>;
          c3 = upd (\<lambda>o1. (set_current None (reset_session_file_meta (clear_handled_session [] (clear_session o1))))
                 \<lparr>param_state := JStr ''idle'', expected := Some 0, arrived := Some 0, visible := Some 0, selected := None\<rparr>) c2
      in notify [Toast message] (hide_bar_in False (set_state Live_picking (c3\<lparr>announced := None\<rparr>))))"

definition recover_empty_cycling :: "'e cycle \<Rightarrow> 'e cycle" where
  "recover_empty_cycling c =
     (if component_of (cid c) c then reset_svelte_session (cid c) NO_VARIANTS c
      else notify [Toast NO_VARIANTS] (cleanup_in False c))"

definition ensure_cycling_renderable :: "'e cycle \<Rightarrow> bool \<times> 'e cycle" where
  "ensure_cycling_renderable c =
     (if pos_num (arrived (ov c)) then (True, clamp_visible c) else (False, recover_empty_cycling c))"

definition show_cycling_bar :: "'e cycle \<Rightarrow> 'e cycle" where
  "show_cycling_bar c =
     (let c0 = (if bar_display c then c else c\<lparr>bar_seq := bar_seq c + 1\<rparr>);
          (ok, c1) = ensure_cycling_renderable c0
      in if ok then c1\<lparr>bar_display := True\<rparr> else c1)"

text \<open>\<open>showBar\<close> for another content, and \<open>updateBarContent('cycling')\<close>.\<close>

definition show_bar :: "'e cycle \<Rightarrow> 'e cycle" where
  "show_bar c = c\<lparr>bar_seq := bar_seq c + 1, bar_display := True\<rparr>"

definition update_cycling_bar :: "'e cycle \<Rightarrow> 'e cycle" where
  "update_cycling_bar c = (if bar_display c then snd (ensure_cycling_renderable c) else c)"

definition hide_bar :: "bool \<Rightarrow> 'e cycle \<Rightarrow> 'e cycle" where
  "hide_bar instant c =
     (let c1 = hide_bar_start instant c in if redraws c1 then show_cycling_bar c1 else c1)"

definition bar_hidden :: "nat \<Rightarrow> 'e cycle \<Rightarrow> 'e cycle" where
  "bar_hidden k c =
     (if k \<ge> length (bar_timers c) then c
      else
        let c1 = c\<lparr>bar_timers := take k (bar_timers c) @ drop (k + 1) (bar_timers c)\<rparr> in
        if bar_timers c ! k = bar_seq c1 then c1\<lparr>bar_display := False\<rparr> else c1)"

definition cleanup :: "bool \<Rightarrow> 'e cycle \<Rightarrow> 'e cycle" where
  "cleanup instant c = cleanup_end (hide_bar instant (cleanup_start c))"

definition cleanup_accepted_session :: "'e cycle \<Rightarrow> 'e cycle" where
  "cleanup_accepted_session c =
     (let c1 = clear_scroll ((hide_bar False c)\<lparr>observing := None, variant_css := []\<rparr>);
          c2 = upd (\<lambda>o1. (set_current None (reset_session_file_meta (clear_session o1)))
                 \<lparr>selected := None, param_state := JStr ''idle'', sel_action := JStr ''impeccable''\<rparr>) c1
      in set_state Live_picking (c2\<lparr>announced := None, accepting := None\<rparr>))"

definition mark_current_handled :: "'e cycle \<Rightarrow> 'e cycle" where
  "mark_current_handled = upd mark_session_handled"

definition discard_orphaned_session :: "'e cycle \<Rightarrow> 'e cycle" where
  "discard_orphaned_session c =
     (if \<not> truthy_str (cid c) then c
      else
        let c1 = notify [Post (JObj [(''type'', JStr ''discard''), (''id'', JStr (opt_str (cid c))), (''orphaned'', JBool True)])] c
        in notify [Toast (''The previous live session no longer matches the source file, so it was discarded. '' @
                          ''Pick an element to start fresh.'')]
             (cleanup True (mark_current_handled c1)))"

definition abandon_foreign_session :: "string \<Rightarrow> 'e cycle \<Rightarrow> 'e cycle" where
  "abandon_foreign_session i c =
     (if abandoned c = Some i \<or> cid c \<noteq> Some i then c
      else notify [Toast (''A saved live session belonged to a different project, so it was cleared. '' @
                          ''Pick an element to start fresh.'')]
             (cleanup True (mark_current_handled (c\<lparr>abandoned := Some i\<rparr>))))"

section \<open>Parameters of the shown variant\<close>

definition complete_parameter_publication :: "'e stage \<Rightarrow> 'e cycle \<Rightarrow> 'e cycle" where
  "complete_parameter_publication sg c =
     (if \<not> truthy_str (cid c) then c
      else
        let ready = mounted_parameter_count sg c > 0;
            c1 = upd (\<lambda>o1. o1\<lparr>param_state := JStr (if ready then ''ready'' else ''none'')\<rparr>) c;
            c2 = (if ready \<and> announced c1 \<noteq> cid c1
                  then notify [Toast ''Tune controls are ready.''] (c1\<lparr>announced := cid c1\<rparr>) else c1);
            c3 = (if state (ov c2) = Live_cycling then show_cycling_bar (refresh_params sg c2) else c2)
        in save sg c3)"

definition complete_if_ready :: "'e stage \<Rightarrow> 'e cycle \<Rightarrow> 'e cycle" where
  "complete_if_ready sg c =
     (if num_le (expected (ov c)) (Some 0) \<or> num_less (arrived (ov c)) (expected (ov c)) then c
      else if param_state (ov c) = JStr ''pending'' \<or> param_state (ov c) = JStr ''loading''
      then complete_parameter_publication sg c else c)"

definition open_tune :: "'e stage \<Rightarrow> 'e cycle \<Rightarrow> 'e cycle" where
  "open_tune sg c =
     (if state (ov c) \<noteq> Live_cycling then c
      else
        let ps = parse_variant_params c (visible_attr sg c) in
        if \<not> visible_element sg c \<or> ps = [] then c
        else show_cycling_bar ((apply_param_defaults ps c)\<lparr>tune_open := True\<rparr>))"

definition close_tune :: "'e cycle \<Rightarrow> 'e cycle" where
  "close_tune c =
     (let c1 = c\<lparr>tune_open := False\<rparr> in if redraws c1 then show_cycling_bar c1 else c1)"

definition toggle_tune :: "'e stage \<Rightarrow> 'e cycle \<Rightarrow> 'e cycle" where
  "toggle_tune sg c =
     (if apply_busy c then notify [Busy_toast] c else if tune_open c then close_tune c else open_tune sg c)"

section \<open>Switching variants\<close>

definition sync_cycling_controls :: "'e stage \<Rightarrow> 'e cycle \<Rightarrow> 'e cycle" where
  "sync_cycling_controls sg c =
     (if truthy_str (cid c) \<and> state (ov c) = Live_cycling then save sg c else c)"

definition cycling_bar_sync :: "nat \<Rightarrow> 'e stage \<Rightarrow> 'e cycle \<Rightarrow> 'e cycle" where
  "cycling_bar_sync k sg c =
     (if k \<ge> length (bar_syncs c) then c
      else
        let (i, n) = bar_syncs c ! k;
            c1 = c\<lparr>bar_syncs := take k (bar_syncs c) @ drop (k + 1) (bar_syncs c)\<rparr>
        in if state (ov c1) \<noteq> Live_cycling \<or> cid c1 \<noteq> Some i \<or> \<not> num_eq (visible (ov c1)) n then c1
           else sync_cycling_controls sg (show_cycling_bar c1))"

definition update_selected :: "'e stage \<Rightarrow> 'e cycle \<Rightarrow> 'e cycle" where
  "update_selected sg c =
     (let select = (\<lambda>e. case e of None \<Rightarrow> c | Some x \<Rightarrow> upd (\<lambda>o1. o1\<lparr>selected := Some x\<rparr>) c) in
      if \<not> truthy_str (cid c) then c
      else if own_component c then select (svelte_anchor (sg_page sg))
      else (case wrapper_for (cid c) (sg_page sg) of
              None \<Rightarrow> c
            | Some w \<Rightarrow> select (if visible (ov c) = None then None else wr_content w (visible (ov c)))))"

definition read_visible_from_dom :: "'e stage \<Rightarrow> string option \<Rightarrow> 'e cycle \<Rightarrow> int" where
  "read_visible_from_dom sg i c =
     (let mounted = (case svelte (ov c) of
                       Some sv \<Rightarrow> if Some (sv_id sv) = i \<and> sv_mounted sv > 0 then sv_mounted sv else 0 | None \<Rightarrow> 0)
      in if mounted > 0 then mounted
         else (case wrapper_for i (sg_page sg) of
                 None \<Rightarrow> 0
               | Some w \<Rightarrow>
                   (case List.find (\<lambda>n. 0 < n) (sg_displayed sg (opt_str i)) of
                      None \<Rightarrow> 0 | Some n \<Rightarrow> n)))"

text \<open>
  \<open>showVariantInDOM\<close>: what it answers at once, \<open>None\<close> where a component is being mounted. The value
  \<open>use\<close> says who waits for it.
\<close>

definition show_variant :: "'e stage \<Rightarrow> string option \<Rightarrow> num \<Rightarrow> mount_use \<Rightarrow> 'e cycle \<Rightarrow> bool option \<times> 'e cycle" where
  "show_variant sg i n use c =
     (if component_of i c then
        (let c1 = upd (\<lambda>o1. o1\<lparr>visible := n\<rparr>) c in
         if \<not> num_truthy n then (Some False, c1)
         else (None, c1\<lparr>mounts := mounts c1 @ [\<lparr>mt_session = opt_str i, mt_variant = n, mt_use = use, mt_failed = None\<rparr>]\<rparr>))
      else (case wrapper_for i (sg_page sg) of
              None \<Rightarrow> (Some False, c)
            | Some _ \<Rightarrow> (Some True, refresh_params sg (update_stylesheet i n c))))"

text \<open>A mount that came back: what \<open>showVariantInDOM\<close> does after its \<open>await\<close>.\<close>

definition shown_component :: "'e stage \<Rightarrow> string \<Rightarrow> num \<Rightarrow> 'e cycle \<Rightarrow> 'e cycle" where
  "shown_component sg i n c =
     (let c1 = refresh_params sg (update_selected sg c) in c1\<lparr>bar_syncs := bar_syncs c1 @ [(i, n)]\<rparr>)"

definition selection_restored :: "'e stage \<Rightarrow> 'e cycle \<Rightarrow> 'e cycle" where
  "selection_restored sg c = (save sg (show_cycling_bar c))\<lparr>selecting := None\<rparr>"

definition selection_shown :: "'e stage \<Rightarrow> bool \<Rightarrow> 'e cycle \<Rightarrow> 'e cycle" where
  "selection_shown sg shown c =
     (case selecting c of
        None \<Rightarrow> c
      | Some Restoring \<Rightarrow> selection_restored sg c
      | Some (Showing next previous reason) \<Rightarrow>
          if shown then
            let c1 = save sg (show_cycling_bar (update_selected sg c));
                c2 = (if truthy_str reason then upd (queue_checkpoint (opt_str reason)) c1 else c1)
            in c2\<lparr>selecting := None\<rparr>
          else
            let (done, c1) = show_variant sg (cid c) previous For_selection (upd (\<lambda>o1. o1\<lparr>visible := previous\<rparr>) c);
                c2 = c1\<lparr>selecting := Some Restoring\<rparr>
            in if done = None then c2 else selection_restored sg c2)"

definition select_variant :: "'e stage \<Rightarrow> num \<Rightarrow> string option \<Rightarrow> 'e cycle \<Rightarrow> 'e cycle" where
  "select_variant sg next reason c =
     (if apply_busy c then notify [Busy_toast] c
      else if selecting c \<noteq> None then c
      else if num_less next (Some 1) \<or> num_less (arrived (ov c)) next then c
      else if num_eq next (visible (ov c)) then c
      else
        let c1 = upd (\<lambda>o1. o1\<lparr>visible := next\<rparr>) (c\<lparr>selecting := Some (Showing next (visible (ov c)) reason)\<rparr>);
            c2 = save sg (show_cycling_bar c1);
            (done, c3) = show_variant sg (cid c2) next For_selection c2
        in case done of None \<Rightarrow> c3 | Some shown \<Rightarrow> selection_shown sg shown c3)"

definition cycle_variant :: "'e stage \<Rightarrow> int \<Rightarrow> 'e cycle \<Rightarrow> 'e cycle" where
  "cycle_variant sg dir c = select_variant sg (map_option (\<lambda>v. v + dir) (visible (ov c))) (Some ''variant_changed'') c"


section \<open>Lemmas\<close>

text \<open>What a step on the overlay leaves alone, and the retries of the source fallback, which few steps touch.\<close>

definition tries :: "'e cycle \<Rightarrow> (retry_guard \<times> source_try) list \<times> (source_use \<times> source_try) list" where
  "tries c = (source_retries c, source_reads c)"

lemma upd_ov [simp]: "ov (upd f c) = f (ov c)"
  by (simp add: upd_def)

lemma upd_frame [simp]:
  "tune_open (upd f c) = tune_open c" "announced (upd f c) = announced c" "selecting (upd f c) = selecting c"
  "apply_busy (upd f c) = apply_busy c" "bar_display (upd f c) = bar_display c" "bar_seq (upd f c) = bar_seq c"
  "configure_insert (upd f c) = configure_insert c" "mounts (upd f c) = mounts c" "mount_error (upd f c) = mount_error c"
  "last_failure (upd f c) = last_failure c" "accepting (upd f c) = accepting c" "awaiting (upd f c) = awaiting c"
  "accept_posts (upd f c) = accept_posts c" "discard_posts (upd f c) = discard_posts c" "cleanups (upd f c) = cleanups c"
  "source_timers (upd f c) = source_timers c" "source_retries (upd f c) = source_retries c"
  "source_reads (upd f c) = source_reads c" "manifest_reads (upd f c) = manifest_reads c"
  "target_wait (upd f c) = target_wait c" "anchor_wait (upd f c) = anchor_wait c" "sse_retries (upd f c) = sse_retries c"
  "sse_open (upd f c) = sse_open c" "observing (upd f c) = observing c" "notices (upd f c) = notices c"
  "variant_css (upd f c) = variant_css c" "bar_timers (upd f c) = bar_timers c" "abandoned (upd f c) = abandoned c"
  "accept_waits (upd f c) = accept_waits c" "settles (upd f c) = settles c" "captures (upd f c) = captures c"
  "creations (upd f c) = creations c" "steer_request (upd f c) = steer_request c" "bar_syncs (upd f c) = bar_syncs c"
  by (simp_all add: upd_def)

lemma notify_frame [simp]:
  "ov (notify ns c) = ov c" "notices (notify ns c) = notices c @ ns" "accepting (notify ns c) = accepting c"
  "sse_open (notify ns c) = sse_open c" "sse_retries (notify ns c) = sse_retries c" "selecting (notify ns c) = selecting c"
  "mounts (notify ns c) = mounts c" "mount_error (notify ns c) = mount_error c" "target_wait (notify ns c) = target_wait c"
  "manifest_reads (notify ns c) = manifest_reads c" "bar_display (notify ns c) = bar_display c"
  "accept_posts (notify ns c) = accept_posts c" "discard_posts (notify ns c) = discard_posts c"
  "observing (notify ns c) = observing c" "last_failure (notify ns c) = last_failure c"
  "awaiting (notify ns c) = awaiting c" "creations (notify ns c) = creations c" "captures (notify ns c) = captures c"
  "accept_waits (notify ns c) = accept_waits c"
  by (simp_all add: notify_def)

lemma tries_frame [simp]:
  "tries (upd f c) = tries c" "tries (notify ns c) = tries c" "tries (c\<lparr>ov := x\<rparr>) = tries c"
  "tries (c\<lparr>tune_open := b\<rparr>) = tries c" "tries (c\<lparr>announced := i\<rparr>) = tries c" "tries (c\<lparr>variant_css := s\<rparr>) = tries c"
  "tries (c\<lparr>selecting := se\<rparr>) = tries c" "tries (c\<lparr>configure_insert := b\<rparr>) = tries c"
  "tries (c\<lparr>bar_display := b\<rparr>) = tries c" "tries (c\<lparr>bar_seq := n\<rparr>) = tries c" "tries (c\<lparr>bar_timers := ns1\<rparr>) = tries c"
  "tries (c\<lparr>mounts := ms\<rparr>) = tries c" "tries (c\<lparr>mount_error := me\<rparr>) = tries c" "tries (c\<lparr>last_failure := i\<rparr>) = tries c"
  "tries (c\<lparr>accepting := pa\<rparr>) = tries c" "tries (c\<lparr>awaiting := i\<rparr>) = tries c" "tries (c\<lparr>accept_posts := is\<rparr>) = tries c"
  "tries (c\<lparr>discard_posts := n\<rparr>) = tries c" "tries (c\<lparr>cleanups := ps\<rparr>) = tries c" "tries (c\<lparr>source_timers := ts\<rparr>) = tries c"
  "tries (c\<lparr>anchor_wait := so\<rparr>) = tries c" "tries (c\<lparr>nudges := n\<rparr>) = tries c" "tries (c\<lparr>manifest_reads := ts\<rparr>) = tries c"
  "tries (c\<lparr>target_wait := tw\<rparr>) = tries c" "tries (c\<lparr>bar_syncs := bs\<rparr>) = tries c" "tries (c\<lparr>settles := is\<rparr>) = tries c"
  "tries (c\<lparr>abandoned := i\<rparr>) = tries c" "tries (c\<lparr>sse_retries := n\<rparr>) = tries c" "tries (c\<lparr>sse_open := b\<rparr>) = tries c"
  "tries (c\<lparr>has_context := b\<rparr>) = tries c" "tries (c\<lparr>agent_polling := b\<rparr>) = tries c"
  "tries (c\<lparr>steer_request := i\<rparr>) = tries c" "tries (c\<lparr>accept_waits := n\<rparr>) = tries c" "tries (c\<lparr>captures := js\<rparr>) = tries c"
  "tries (c\<lparr>creations := is\<rparr>) = tries c" "tries (c\<lparr>observing := i\<rparr>) = tries c"
  by (simp_all add: tries_def notify_def)

lemma tries_set_state [simp]: "tries (set_state s c) = tries c"
  by (simp add: set_state_def Let_def)

lemma tries_clamp_visible [simp]: "tries (clamp_visible c) = tries c"
  by (simp add: clamp_visible_def Let_def)

lemma tries_finalize_insert [simp]: "tries (finalize_insert c) = tries c"
  by (simp add: finalize_insert_def Let_def)

lemma tries_hide_bar_start [simp]: "tries (hide_bar_start b c) = tries c"
  by (simp add: hide_bar_start_def Let_def)

lemma tries_hide_bar_in [simp]: "tries (hide_bar_in b c) = tries c"
  by (simp add: hide_bar_in_def Let_def)

lemma tries_teardown_component [simp]: "tries (teardown_component c) = tries c"
  by (simp add: teardown_component_def Let_def)

lemma tries_clear_scroll [simp]: "tries (clear_scroll c) = tries c"
  by (simp add: clear_scroll_def Let_def)

lemma tries_cleanup_start [simp]: "tries (cleanup_start c) = tries c"
  by (simp add: cleanup_start_def Let_def)

lemma tries_cleanup_end [simp]: "tries (cleanup_end c) = tries c"
  by (simp add: cleanup_end_def Let_def)

lemma tries_cleanup_in [simp]: "tries (cleanup_in b c) = tries c"
  by (simp add: cleanup_in_def Let_def)

lemma tries_reset_svelte_session [simp]: "tries (reset_svelte_session i m c) = tries c"
  by (simp add: reset_svelte_session_def Let_def)

lemma tries_recover_empty_cycling [simp]: "tries (recover_empty_cycling c) = tries c"
  by (simp add: recover_empty_cycling_def Let_def)

lemma tries_show_cycling_bar [simp]: "tries (show_cycling_bar c) = tries c"
  by (simp add: show_cycling_bar_def ensure_cycling_renderable_def Let_def)

lemma tries_show_bar [simp]: "tries (show_bar c) = tries c"
  by (simp add: show_bar_def Let_def)

lemma tries_update_cycling_bar [simp]: "tries (update_cycling_bar c) = tries c"
  by (simp add: update_cycling_bar_def ensure_cycling_renderable_def Let_def)

lemma tries_hide_bar [simp]: "tries (hide_bar b c) = tries c"
  by (simp add: hide_bar_def Let_def)

lemma tries_bar_hidden [simp]: "tries (bar_hidden k c) = tries c"
  by (simp add: bar_hidden_def Let_def)

lemma tries_cleanup [simp]: "tries (cleanup b c) = tries c"
  by (simp add: cleanup_def Let_def)

lemma tries_cleanup_accepted_session [simp]: "tries (cleanup_accepted_session c) = tries c"
  by (simp add: cleanup_accepted_session_def Let_def)

lemma tries_mark_current_handled [simp]: "tries (mark_current_handled c) = tries c"
  by (simp add: mark_current_handled_def Let_def)

lemma tries_discard_orphaned_session [simp]: "tries (discard_orphaned_session c) = tries c"
  by (simp add: discard_orphaned_session_def Let_def)

lemma tries_abandon_foreign_session [simp]: "tries (abandon_foreign_session j c) = tries c"
  by (simp add: abandon_foreign_session_def Let_def)

lemma tries_update_stylesheet [simp]: "tries (update_stylesheet i n c) = tries c"
  by (simp add: update_stylesheet_def Let_def)

lemma tries_apply_param_defaults [simp]: "tries (apply_param_defaults ps c) = tries c"
  by (simp add: apply_param_defaults_def Let_def)

lemma tries_refresh_params [simp]: "tries (refresh_params sg c) = tries c"
  by (simp add: refresh_params_def Let_def)

lemma tries_show_variant [simp]: "tries (snd (show_variant sg i n u c)) = tries c"
  by (auto simp: show_variant_def Let_def split: option.split)

lemma tries_shows [simp]:
  "tries (complete_parameter_publication sg c) = tries c" "tries (complete_if_ready sg c) = tries c" "tries (open_tune sg c) = tries c"
  "tries (close_tune c) = tries c" "tries (toggle_tune sg c) = tries c" "tries (sync_cycling_controls sg c) = tries c"
  "tries (cycling_bar_sync k sg c) = tries c" "tries (update_selected sg c) = tries c" "tries (shown_component sg j n c) = tries c"
  "tries (selection_restored sg c) = tries c"
  by (simp_all add: complete_parameter_publication_def complete_if_ready_def open_tune_def close_tune_def toggle_tune_def
      sync_cycling_controls_def cycling_bar_sync_def update_selected_def shown_component_def selection_restored_def Let_def
      split: prod.split option.split)

lemma tries_selection_shown [simp]: "tries (selection_shown sg b c) = tries c"
proof -
  have "tries (snd (show_variant sg i n u (upd f c))) = tries c" for i n u f by simp
  then show ?thesis
    by (simp add: selection_shown_def Let_def case_prod_beta split: option.split selection.split)
qed

lemma tries_select_variant [simp]: "tries (select_variant sg n reason c) = tries c"
  by (simp add: select_variant_def Let_def case_prod_beta split: option.split)

lemma tries_cycle_variant [simp]: "tries (cycle_variant sg dir c) = tries c"
  by (simp add: cycle_variant_def)


section \<open>What ending a session leaves\<close>

text \<open>The recovery state (the durable part, the current session) is touched by few steps.\<close>

lemma rec_set_state [simp]: "rec (ov (set_state s c)) = rec (ov c)"
  by (simp add: set_state_def Let_def case_prod_beta)

lemma rec_clamp_visible [simp]: "rec (ov (clamp_visible c)) = rec (ov c)"
  by (simp add: clamp_visible_def Let_def case_prod_beta)

lemma rec_finalize_insert [simp]: "rec (ov (finalize_insert c)) = rec (ov c)"
  by (simp add: finalize_insert_def Let_def case_prod_beta)

lemma rec_hide_bar_start [simp]: "rec (ov (hide_bar_start b c)) = rec (ov c)"
  by (simp add: hide_bar_start_def Let_def case_prod_beta)

lemma rec_hide_bar_in [simp]: "rec (ov (hide_bar_in b c)) = rec (ov c)"
  by (simp add: hide_bar_in_def Let_def case_prod_beta)

lemma rec_teardown_component [simp]: "rec (ov (teardown_component c)) = rec (ov c)"
  by (simp add: teardown_component_def Let_def case_prod_beta)

lemma rec_cleanup_start [simp]: "rec (ov (cleanup_start c)) = rec (ov c)"
  by (simp add: cleanup_start_def Let_def case_prod_beta)

lemma rec_show_bar [simp]: "rec (ov (show_bar c)) = rec (ov c)"
  by (simp add: show_bar_def Let_def case_prod_beta)

lemma rec_update_stylesheet [simp]: "rec (ov (update_stylesheet i n c)) = rec (ov c)"
  by (simp add: update_stylesheet_def Let_def case_prod_beta)

lemma rec_apply_param_defaults [simp]: "rec (ov (apply_param_defaults ps c)) = rec (ov c)"
  by (simp add: apply_param_defaults_def Let_def case_prod_beta)

lemma rec_refresh_params [simp]: "rec (ov (refresh_params sg c)) = rec (ov c)"
  by (simp add: refresh_params_def Let_def case_prod_beta)

lemma rec_update_selected [simp]: "rec (ov (update_selected sg c)) = rec (ov c)"
  by (simp add: update_selected_def Let_def case_prod_beta split: option.split)

lemma rec_shown_component [simp]: "rec (ov (shown_component sg j n c)) = rec (ov c)"
  by (simp add: shown_component_def Let_def case_prod_beta)

lemma rec_show_variant [simp]: "rec (ov (snd (show_variant sg i n u c))) = rec (ov c)"
  by (auto simp: show_variant_def Let_def split: option.split)

lemma handled_scroll [simp]: "is_handled j (clear_scroll_y l) = is_handled j l" "is_handled j (write_scroll_y y l) = is_handled j l"
proof -
  have "handled_key l \<noteq> scroll_key l" by (simp add: handled_key_def scroll_key_def)
  then show "is_handled j (clear_scroll_y l) = is_handled j l"
    by (intro is_handled_cong) (auto simp: clear_scroll_y_def safe_remove_def safe_read_def items.get_del
        handled_key_def session_key_def scroll_key_def split: option.split)
  show "is_handled j (write_scroll_y y l) = is_handled j l"
    using safe_write_cases [of "scroll_key l" y l] \<open>handled_key l \<noteq> scroll_key l\<close>
    by (intro is_handled_cong) (auto simp: write_scroll_y_def handled_key_def session_key_def)
qed

lemma load_cleared: "fst (load_live_session (clear_live_session l)) = None"
proof -
  have "safe_read (session_key (clear_live_session l)) (clear_live_session l) = None"
    by (auto simp: clear_live_session_def safe_remove_def safe_read_def session_key_def items.get_del split: option.split)
  then show ?thesis by (simp add: load_live_session_def truthy_str_def opt_str_def)
qed

lemma cleanup_end_facts:
  "cid (cleanup_end c) = None" "state (ov (cleanup_end c)) = Live_picking"
  "is_handled j (lives (ov (cleanup_end c))) = is_handled j (lives (ov c))"
  "fst (load_live_session (lives (ov (cleanup_end c)))) = None" "observing (cleanup_end c) = None"
  "selected (ov (cleanup_end c)) = None" "revision (rec (ov (cleanup_end c))) = revision (rec (ov c))"
  by (simp_all add: cleanup_end_def set_state_def clear_scroll_def clear_session_def reset_session_file_meta_def Let_def
      set_current_def set_live_def load_cleared finalize_insert_def)

text \<open>A clean-up has taken its own component down first: hiding the bar cannot reset the handled ids.\<close>

lemma not_component_after_start: "\<not> component_of (cid (cleanup_start c)) (cleanup_start c)"
  by (simp add: cleanup_start_def Let_def component_of_def teardown_component_def)

lemma component_hide_start [simp]: "component_of i (hide_bar_start b c) = component_of i c"
  by (simp add: hide_bar_start_def Let_def component_of_def finalize_insert_def)

lemma component_bar_seq [simp]: "component_of i (c\<lparr>bar_seq := n\<rparr>) = component_of i c"
  by (simp add: component_of_def)

lemma handled_hide_bar:
  assumes "\<not> component_of (cid c) c" shows "is_handled j (lives (ov (hide_bar b c))) = is_handled j (lives (ov c))"
proof -
  have *: "is_handled j (lives (ov (show_cycling_bar d))) = is_handled j (lives (ov d))" if "\<not> component_of (cid d) d" for d
    using that by (simp add: show_cycling_bar_def ensure_cycling_renderable_def Let_def recover_empty_cycling_def
        cleanup_in_def cleanup_end_facts)
  with assms show ?thesis by (simp add: hide_bar_def Let_def *)
qed

lemma cleanup_facts:
  "cid (cleanup b c) = None" "state (ov (cleanup b c)) = Live_picking"
  "is_handled j (lives (ov (cleanup b c))) = is_handled j (lives (ov c))"
  "fst (load_live_session (lives (ov (cleanup b c)))) = None" "observing (cleanup b c) = None" "selected (ov (cleanup b c)) = None"
  using handled_hide_bar [OF not_component_after_start [of c], of j b]
  by (simp_all add: cleanup_def cleanup_end_facts)

lemma mark_current_facts [simp]:
  "cid (mark_current_handled c) = cid c" "state (ov (mark_current_handled c)) = state (ov c)"
  by (simp_all add: mark_current_handled_def mark_session_handled_def set_live_def)

lemma handled_marked:
  "cid c = Some i \<Longrightarrow> i \<noteq> [] \<Longrightarrow> lives (ov (mark_current_handled c)) = mark_handled i (lives (ov c))"
  by (simp add: mark_current_handled_def mark_session_handled_def truthy_str_def opt_str_def)


end
