(* ===== verification/LiveMount.thy ===== *)
theory LiveMount imports LiveCycle begin

text \<open>
  Component previews (\<open>agent/skills/impeccable/scripts/live-browser.js\<close>, lines 5205 to 5216, 5302 to
  5319, 5619 to 5764, 5767 to 5946, 5946 to 5994, 6002 to 6018 and 6098 to 6155): the manifest of the
  variants is read, one variant is mounted, a failure is reported once and shown in a card.

  A read and a mount are requests in \<open>manifest_reads\<close> and \<open>mounts\<close>; their answers are the events
  \<open>manifest_read\<close>, \<open>manifest_failed\<close>, \<open>mount_ok\<close>, \<open>mount_fails\<close> and \<open>mount_explained\<close>, in any order.
  The reads of the manifest and of its parameters count as one. The module's URL, the text of an
  error and the result of the probe come with the answer.
\<close>

section \<open>Reports and the card\<close>

definition MOUNT_URL_MAX :: nat where "MOUNT_URL_MAX = 2000"
definition MOUNT_ERROR_MAX :: nat where "MOUNT_ERROR_MAX = 1000"

text \<open>A number's text in JSON, \<open>variant\<close> being an integer.\<close>

definition report_mounted :: "string \<Rightarrow> num \<Rightarrow> string \<Rightarrow> 'e cycle \<Rightarrow> 'e cycle" where
  "report_mounted i n url c =
     (case num_or n (Some 0) of
        None \<Rightarrow> c
      | Some v \<Rightarrow>
          if i = [] \<or> v < 1 then c
          else notify [Post (JObj ([(''type'', JStr ''variant_mounted''), (''id'', JStr i), (''variant'', JNum v)] @
                 opt_text ''url'' (Some (take MOUNT_URL_MAX url))))] c)"

definition failure_key :: "string \<Rightarrow> int \<Rightarrow> string \<Rightarrow> string \<Rightarrow> string" where
  "failure_key i v url message = i @ ''|'' @ show_int v @ ''|'' @ url @ ''|'' @ message"

definition report_mount_failed :: "string \<Rightarrow> num \<Rightarrow> string \<Rightarrow> string \<Rightarrow> 'e cycle \<Rightarrow> 'e cycle" where
  "report_mount_failed i n url error c =
     (if i = [] then c
      else
        let v = (case n of Some m \<Rightarrow> if m \<ge> 1 then m else 1 | None \<Rightarrow> 1);
            u = take MOUNT_URL_MAX (str_or url ''unknown'');
            message = take MOUNT_ERROR_MAX (str_or error ''Unknown mount error'');
            key = failure_key i v u message
        in if last_failure c = Some key then c
           else notify [Post (JObj [(''type'', JStr ''variant_mount_failed''), (''id'', JStr i), (''variant'', JNum v),
                  (''url'', JStr u), (''error'', JStr message)])] (c\<lparr>last_failure := Some key\<rparr>))"

definition truncate_middle :: "string \<Rightarrow> nat \<Rightarrow> string" where
  "truncate_middle text m =
     (if length text \<le> m then text
      else let front = m div 2; end_part = m - 1 - front in
        take front text @ utf8 8230 @ drop (length text - end_part) text)"

definition or_some :: "string option \<Rightarrow> string option \<Rightarrow> string option" where
  "or_some a b = (if truthy_str a then a else if truthy_str b then b else None)"

definition show_mount_card :: "string option \<Rightarrow> num \<Rightarrow> string \<Rightarrow> string \<Rightarrow> string option \<Rightarrow> 'e cycle \<Rightarrow> 'e cycle" where
  "show_mount_card i n url message file c =
     c\<lparr>mount_error := Some \<lparr>mc_session = or_some i (cid c), mc_variant = num_or n (Some 0), mc_url = url,
         mc_message = str_or message ''A variant failed to load.'', mc_file = or_some file (preview_file (ov c))\<rparr>\<rparr>"

definition clear_mount_card :: "'e cycle \<Rightarrow> 'e cycle" where
  "clear_mount_card c = c\<lparr>mount_error := None\<rparr>"

definition card_title :: "mount_card \<Rightarrow> string" where
  "card_title mc =
     (if pos_num (mc_variant mc) then ''Variant '' @ num_text (mc_variant mc) @ '' failed to load''
      else ''Variants failed to load'')"

definition card_url :: "mount_card \<Rightarrow> string option" where
  "card_url mc = (if mc_url mc = [] then None else Some (truncate_middle (mc_url mc) 72))"

definition dismiss_mount_card :: "'e cycle \<Rightarrow> 'e cycle" where
  "dismiss_mount_card c =
     (let c1 = clear_mount_card c in if state (ov c1) = Live_generating then set_state Live_picking c1 else c1)"

section \<open>Reading the manifest\<close>

definition inject_components :: "string \<Rightarrow> string \<Rightarrow> 'e cycle \<Rightarrow> 'e cycle" where
  "inject_components file i c =
     c\<lparr>last_failure := None, manifest_reads := manifest_reads c @ [(file, i)]\<rparr>"

definition retry_mount_card :: "'e cycle \<Rightarrow> 'e cycle" where
  "retry_mount_card c =
     (case mount_error c of
        None \<Rightarrow> c
      | Some info \<Rightarrow>
          let i = or_some (mc_session info) (cid c); file = or_some (mc_file info) (preview_file (ov c));
              c1 = clear_mount_card c
          in if i = None \<or> file = None
             then notify [Toast ''No variant manifest to retry. Ask the agent to republish.''] c1
             else
               let c2 = c1\<lparr>last_failure := None\<rparr>;
                   c3 = (if state (ov c2) \<noteq> Live_cycling then set_state Live_generating c2 else c2)
               in inject_components (opt_str file) (opt_str i) c3)"

text \<open>The parameters of the sidecar file: the members that are lists.\<close>

definition component_params :: "json option \<Rightarrow> (string \<times> json) list" where
  "component_params v =
     (case v of
        Some (JObj ms) \<Rightarrow>
          filter (\<lambda>(k, x). case x of JArr _ \<Rightarrow> True | _ \<Rightarrow> False) ms
      | _ \<Rightarrow> [])"

definition abort_injection :: "'e stage \<Rightarrow> string \<Rightarrow> (num \<times> string \<times> string \<times> string option) option \<Rightarrow> 'e cycle \<Rightarrow> 'e cycle" where
  "abort_injection sg i details c =
     (let c1 = (if component_of (Some i) c then teardown_component c else c);
          c2 = hide_bar True (c1\<lparr>target_wait := None, anchor_wait := None, observing := None, variant_css := []\<rparr>);
          c3 = save sg c2
      in case details of
           Some (n, url, message, file) \<Rightarrow> show_mount_card (Some i) n url message file c3
         | None \<Rightarrow>
             if mount_error c3 \<noteq> None then c3
             else show_mount_card (Some i) None [] ''Variants could not be mounted. Retry, or ask the agent to republish.'' None c3)"

definition mount_component :: "string \<Rightarrow> num \<Rightarrow> mount_use \<Rightarrow> 'e cycle \<Rightarrow> 'e cycle" where
  "mount_component i n use c =
     c\<lparr>mounts := mounts c @ [\<lparr>mt_session = i, mt_variant = n, mt_use = use, mt_failed = None\<rparr>]\<rparr>"

definition first_reachable :: "num list \<Rightarrow> num \<Rightarrow> num" where
  "first_reachable vs top_count = (case List.find (\<lambda>v. in_reach v top_count) vs of Some v \<Rightarrow> v | None \<Rightarrow> Some 1)"

text \<open>The \<open>visible\<close> number of the saved session, when that is session \<open>i\<close>.\<close>

definition saved_visible :: "'e stage \<Rightarrow> string \<Rightarrow> 'e cycle \<Rightarrow> num \<times> 'e cycle" where
  "saved_visible sg i c =
     (let (saved, o1) = load_session (sg_page sg) (ov c) in
      (if session_id saved = Some i then js_number (field ''visible'' saved) else Some 0, c\<lparr>ov := o1\<rparr>))"

definition wait_for_anchor :: "'e stage \<Rightarrow> string \<Rightarrow> 'e cycle \<Rightarrow> 'e cycle" where
  "wait_for_anchor sg reason c =
     (let c1 = show_bar (set_state Live_generating
                 (upd (\<lambda>o1. o1\<lparr>waiting_for_anchor := True, selected := Some (body (sg_page sg))\<rparr>) c))
      in upd (queue_checkpoint reason) (save sg c1))"

definition enter_component_session :: "string \<Rightarrow> string \<Rightarrow> json \<Rightarrow> 'e cycle \<Rightarrow> 'e cycle" where
  "enter_component_session file i m c =
     (let c1 = upd (\<lambda>o1. remember_file_meta (Some (JObj (opt_member ''sourceFile'' (json_get ''sourceFile'' m) @
                  [(''previewFile'', JStr file), (''previewMode'', JStr ''svelte-component'')])))
                ((set_current (Some i) o1)
                  \<lparr>expected := num_or (js_number (json_get ''count'' m)) (num_or (expected o1) (Some 1))\<rparr>)) c
      in if state (ov c1) \<noteq> Live_cycling then set_state Live_generating c1 else c1)"

definition component_counts :: "json \<Rightarrow> 'e cycle \<Rightarrow> 'e cycle" where
  "component_counts m c =
     (let avail = num_or (js_number (json_get ''arrivedVariants'' m)) (num_or (js_number (json_get ''count'' m)) (Some 1))
      in upd (\<lambda>o1. o1\<lparr>arrived := avail,
                       expected := num_or (js_number (json_get ''count'' m)) (num_or (expected o1) avail)\<rparr>) c)"

definition show_first_reachable :: "'e stage \<Rightarrow> string \<Rightarrow> 'e cycle \<Rightarrow> 'e cycle" where
  "show_first_reachable sg i c =
     (let (seen, c1) = saved_visible sg i c in
      upd (\<lambda>o1. o1\<lparr>visible := first_reachable [visible o1, seen] (arrived o1)\<rparr>) c1)"

definition manifest_read :: "nat \<Rightarrow> json \<Rightarrow> (string \<times> json) list \<Rightarrow> 'e stage \<Rightarrow> 'e cycle \<Rightarrow> 'e cycle" where
  "manifest_read k m params sg c =
     (if k \<ge> length (manifest_reads c) then c
      else
        let (file, i) = manifest_reads c ! k;
            c0 = c\<lparr>manifest_reads := take k (manifest_reads c) @ drop (k + 1) (manifest_reads c)\<rparr>
        in if json_get ''id'' m \<noteq> Some (JStr i) then
             show_mount_card (Some i) (visible (ov c0)) file
               ''The variant manifest is for a different session. Ask the agent to republish.'' (Some file)
               (report_mount_failed i (num_or (visible (ov c0)) (Some 1)) file
                  (''Manifest at '' @ file @ '' belongs to session '' @
                   str_or (opt_str (Option.bind (json_get ''id'' m) json_str)) ''unknown'' @ '', not '' @ i @ ''.'') c0)
           else
             let c1 = enter_component_session file i m c0 in
             if wrapper_for (Some i) (sg_page sg) \<noteq> None \<and> component_of (Some i) c1 then
               let c2 = component_counts m
                          (upd (\<lambda>o1. o1\<lparr>waiting_for_anchor := False,
                                 svelte := map_option (\<lambda>sv. sv\<lparr>sv_count := json_get ''count'' m, sv_params := params\<rparr>) (svelte o1)\<rparr>) c1);
                   c3 = upd (\<lambda>o1. o1\<lparr>visible := first_reachable [visible o1] (arrived o1)\<rparr>) c2
               in mount_component i (num_or (visible (ov c3)) (Some 1)) For_remount c3
             else if \<not> sg_target sg then
               (wait_for_anchor sg ''component_preview_anchor_missing''
                  (show_first_reachable sg i (component_counts m c1)))\<lparr>target_wait := Some (file, i)\<rparr>
             else
               let c2 = (upd (\<lambda>o1. o1\<lparr>waiting_for_anchor := False,
                            svelte := Some \<lparr>sv_id = i, sv_mounted = 0, sv_count = json_get ''count'' m, sv_params = params\<rparr>\<rparr>) c1)
                          \<lparr>target_wait := None\<rparr>;
                   c3 = show_first_reachable sg i (component_counts m c2)
               in mount_component i (visible (ov c3)) For_injection c3)"

definition manifest_failed :: "nat \<Rightarrow> string \<Rightarrow> 'e stage \<Rightarrow> 'e cycle \<Rightarrow> 'e cycle" where
  "manifest_failed k error sg c =
     (if k \<ge> length (manifest_reads c) then c
      else
        let (file, i) = manifest_reads c ! k;
            c0 = c\<lparr>manifest_reads := take k (manifest_reads c) @ drop (k + 1) (manifest_reads c)\<rparr>
        in abort_injection sg i
             (Some (visible (ov c0), file, ''Could not read the variant manifest. '' @ str_or error ''Unknown error'', Some file))
             (report_mount_failed i (num_or (visible (ov c0)) (Some 1)) file error c0))"

text \<open>The observer of \<open>waitForSvelteComponentTargetAndRetry\<close> sees a change of the document.\<close>

definition target_mutation :: "'e stage \<Rightarrow> 'e cycle \<Rightarrow> 'e cycle" where
  "target_mutation sg c =
     (case target_wait c of
        None \<Rightarrow> c
      | Some (file, i) \<Rightarrow>
          if component_of (Some i) c then c\<lparr>target_wait := None\<rparr>
          else if \<not> sg_target sg then c
          else inject_components file i (c\<lparr>target_wait := None\<rparr>))"

section \<open>Mounting\<close>

definition cycling_component :: "'e stage \<Rightarrow> 'e cycle \<Rightarrow> 'e cycle" where
  "cycling_component sg c = complete_if_ready sg (save sg c)"

text \<open>What the caller of \<open>mountSvelteComponentVariant\<close> does with its answer.\<close>

definition mount_continue :: "'e stage \<Rightarrow> mounting \<Rightarrow> bool \<Rightarrow> 'e cycle \<Rightarrow> 'e cycle" where
  "mount_continue sg mt ok c =
     (let i = mt_session mt; after = (if ok then shown_component sg i (mt_variant mt) c else c) in
      case mt_use mt of
        For_selection \<Rightarrow> selection_shown sg ok after
      | For_show \<Rightarrow> after
      | For_injection \<Rightarrow>
          if \<not> ok then abort_injection sg i None c
          else
            let c1 = set_state Live_cycling (upd (\<lambda>o1. o1\<lparr>selected := Some (case svelte_anchor (sg_page sg) of
                         Some x \<Rightarrow> x | None \<Rightarrow> sg_mount sg)\<rparr>) c);
                c2 = upd (\<lambda>o1. o1\<lparr>waiting_for_anchor := False\<rparr>) c1
            in cycling_component sg (refresh_params sg (show_cycling_bar c2))
      | For_remount \<Rightarrow>
          if \<not> ok then save sg c else cycling_component sg (show_cycling_bar (set_state Live_cycling c)))"

definition drop_mount :: "nat \<Rightarrow> 'e cycle \<Rightarrow> 'e cycle" where
  "drop_mount k c = c\<lparr>mounts := take k (mounts c) @ drop (k + 1) (mounts c)\<rparr>"

definition mount_fails :: "nat \<Rightarrow> string \<Rightarrow> string \<Rightarrow> 'e cycle \<Rightarrow> 'e cycle" where
  "mount_fails k url error c =
     (if k \<ge> length (mounts c) \<or> mt_failed (mounts c ! k) \<noteq> None then c
      else
        let mt = mounts c ! k in
        report_mount_failed (mt_session mt) (mt_variant mt) url error
          (c\<lparr>mounts := (mounts c)[k := mt\<lparr>mt_failed := Some url\<rparr>]\<rparr>))"

text \<open>The probe of the preview tree has answered: \<open>message\<close> is what the card says.\<close>

definition mount_explained :: "nat \<Rightarrow> string \<Rightarrow> 'e stage \<Rightarrow> 'e cycle \<Rightarrow> 'e cycle" where
  "mount_explained k message sg c =
     (if k \<ge> length (mounts c) then c
      else
        let mt = mounts c ! k in
        case mt_failed mt of
          None \<Rightarrow> c
        | Some url \<Rightarrow>
            mount_continue sg mt False
              (show_mount_card (Some (mt_session mt)) (mt_variant mt) url message None (drop_mount k c)))"

text \<open>
  The module has come. Where the session has been torn down meanwhile, reading its fields throws:
  \<open>type_error\<close> is the text of that error. The mounted component's anchor may come a frame later.
\<close>

definition mount_ok :: "nat \<Rightarrow> string \<Rightarrow> string \<Rightarrow> 'e stage \<Rightarrow> 'e cycle \<Rightarrow> 'e cycle" where
  "mount_ok k url type_error sg c =
     (if k \<ge> length (mounts c) \<or> mt_failed (mounts c ! k) \<noteq> None then c
      else if svelte (ov c) = None then mount_fails k url type_error c
      else
        let mt = mounts c ! k; i = mt_session mt; n = mt_variant mt;
            c1 = upd (\<lambda>o1. o1\<lparr>svelte := map_option (\<lambda>sv. sv\<lparr>sv_mounted := the n\<rparr>) (svelte o1)\<rparr>) (drop_mount k c);
            c2 = (if state (ov c1) = Live_cycling then sync_cycling_controls sg c1 else c1);
            c3 = (case svelte_anchor (sg_page sg) of
                    Some x \<Rightarrow> upd (\<lambda>o1. o1\<lparr>selected := Some x\<rparr>) c2 | None \<Rightarrow> c2\<lparr>settles := settles c2 @ [i]\<rparr>);
            c4 = report_mounted i n url c3;
            c5 = (case mount_error c4 of
                    Some mc \<Rightarrow> if mc_session mc = Some i \<and> mc_variant mc = n then clear_mount_card c4 else c4
                  | None \<Rightarrow> c4)
        in mount_continue sg mt True c5)"

definition mount_settled :: "nat \<Rightarrow> 'e stage \<Rightarrow> 'e cycle \<Rightarrow> 'e cycle" where
  "mount_settled k sg c =
     (if k \<ge> length (settles c) then c
      else
        let c1 = c\<lparr>settles := take k (settles c) @ drop (k + 1) (settles c)\<rparr> in
        if \<not> component_of (Some (settles c ! k)) c1 then c1
        else (case svelte_anchor (sg_page sg) of
                None \<Rightarrow> c1 | Some x \<Rightarrow> upd (\<lambda>o1. o1\<lparr>selected := Some x\<rparr>) c1))"

text \<open>\<open>commitAcceptedSvelteComponentToDom\<close>; a clone counts as the element it copies.\<close>

definition commit_accepted_component :: "'e stage \<Rightarrow> string \<Rightarrow> 'e cycle \<Rightarrow> 'e cycle" where
  "commit_accepted_component sg i c =
     (if \<not> component_of (Some i) c then c
      else (case svelte_anchor (sg_page sg) of
              None \<Rightarrow> c
            | Some x \<Rightarrow> upd (\<lambda>o1. o1\<lparr>svelte := None, selected := Some x\<rparr>) c))"


section \<open>Lemmas\<close>

lemma tries_report_mounted [simp]: "tries (report_mounted i n u c) = tries c"
  by (simp add: report_mounted_def Let_def case_prod_beta split: option.split)

lemma tries_report_mount_failed [simp]: "tries (report_mount_failed i n u e c) = tries c"
  by (simp add: report_mount_failed_def Let_def case_prod_beta)

lemma tries_show_mount_card [simp]: "tries (show_mount_card i n u m f c) = tries c"
  by (simp add: show_mount_card_def Let_def case_prod_beta)

lemma tries_clear_mount_card [simp]: "tries (clear_mount_card c) = tries c"
  by (simp add: clear_mount_card_def Let_def case_prod_beta)

lemma tries_dismiss_mount_card [simp]: "tries (dismiss_mount_card c) = tries c"
  by (simp add: dismiss_mount_card_def Let_def case_prod_beta)

lemma tries_inject_components [simp]: "tries (inject_components f i c) = tries c"
  by (simp add: inject_components_def Let_def case_prod_beta)

lemma tries_retry_mount_card [simp]: "tries (retry_mount_card c) = tries c"
  by (simp add: retry_mount_card_def Let_def case_prod_beta split: option.split)

lemma tries_abort_injection [simp]: "tries (abort_injection sg i d c) = tries c"
  by (simp add: abort_injection_def Let_def case_prod_beta split: option.split)

lemma tries_mount_component [simp]: "tries (mount_component i n u c) = tries c"
  by (simp add: mount_component_def Let_def case_prod_beta)

lemma tries_wait_for_anchor [simp]: "tries (wait_for_anchor sg r c) = tries c"
  by (simp add: wait_for_anchor_def Let_def case_prod_beta)

lemma tries_enter_component_session [simp]: "tries (enter_component_session f i m c) = tries c"
  by (simp add: enter_component_session_def Let_def case_prod_beta)

lemma tries_component_counts [simp]: "tries (component_counts m c) = tries c"
  by (simp add: component_counts_def Let_def case_prod_beta)

lemma tries_show_first_reachable [simp]: "tries (show_first_reachable sg i c) = tries c"
  by (simp add: show_first_reachable_def saved_visible_def Let_def case_prod_beta)

lemma tries_manifest_read [simp]: "tries (manifest_read k m ps sg c) = tries c"
  by (simp add: manifest_read_def Let_def case_prod_beta)

lemma tries_manifest_failed [simp]: "tries (manifest_failed k e sg c) = tries c"
  by (simp add: manifest_failed_def Let_def case_prod_beta)

lemma tries_target_mutation [simp]: "tries (target_mutation sg c) = tries c"
  by (simp add: target_mutation_def Let_def case_prod_beta split: option.split)

lemma tries_cycling_component [simp]: "tries (cycling_component sg c) = tries c"
  by (simp add: cycling_component_def Let_def case_prod_beta)

lemma tries_mount_continue [simp]: "tries (mount_continue sg mt ok c) = tries c"
  by (simp add: mount_continue_def Let_def case_prod_beta split: mount_use.split)

lemma tries_drop_mount [simp]: "tries (drop_mount k c) = tries c"
  by (simp add: drop_mount_def Let_def case_prod_beta)

lemma tries_mount_fails [simp]: "tries (mount_fails k u e c) = tries c"
  by (simp add: mount_fails_def Let_def case_prod_beta)

lemma tries_mount_explained [simp]: "tries (mount_explained k m sg c) = tries c"
  by (simp add: mount_explained_def Let_def case_prod_beta split: option.split)

lemma tries_mount_ok [simp]: "tries (mount_ok k u e sg c) = tries c"
  by (simp add: mount_ok_def Let_def case_prod_beta split: option.split)

lemma tries_mount_settled [simp]: "tries (mount_settled k sg c) = tries c"
  by (simp add: mount_settled_def Let_def case_prod_beta split: option.split)

lemma tries_commit_accepted_component [simp]: "tries (commit_accepted_component sg i c) = tries c"
  by (simp add: commit_accepted_component_def Let_def case_prod_beta split: option.split)


end
