(* ===== verification/LiveSource.thy ===== *)
theory LiveSource imports LiveMount begin

text \<open>
  The fallback for servers that do not push the variants (\<open>agent/skills/impeccable/scripts/live-browser.js\<close>,
  lines 5173 to 5196, 6194 to 6198, 6218 to 6470): the source file is read, its wrapper replaces
  the element on the page, and reads that find nothing are repeated a bounded number of times before
  the session is given up. Parsing the source as HTML and the searches of the document are inputs.
\<close>

section \<open>Source text\<close>

definition COMPLETED_SOURCE_FALLBACK_RETRIES :: nat where
  "COMPLETED_SOURCE_FALLBACK_RETRIES = 3"

definition is_jsx_source_file :: "string \<Rightarrow> bool" where
  "is_jsx_source_file file =
     (\<exists>c \<in> {'''', ''c'', ''m''}. \<exists>t \<in> {''j'', ''t''}. ends_with (''.'' @ c @ t @ ''sx'') (to_lower file))"

definition source_has_session_wrapper :: "string \<Rightarrow> string \<Rightarrow> bool" where
  "source_has_session_wrapper text i \<longleftrightarrow>
     includes_str (''data-impeccable-variants='' @ [CHR 0x22] @ i @ [CHR 0x22]) text \<or>
     includes_str (''data-impeccable-variants='' @ [CHR 0x27] @ i @ [CHR 0x27]) text \<or>
     includes_str (''impeccable-variants-start '' @ i) text"

text \<open>\<open>indexOf\<close>, \<open>None\<close> for -1.\<close>

fun index_of :: "string \<Rightarrow> string \<Rightarrow> nat option" where
  "index_of s [] = (if s = [] then Some 0 else None)"
| "index_of s (c # t) = (if starts_with s (c # t) then Some 0 else map_option Suc (index_of s t))"

definition start_mark :: "string \<Rightarrow> string" where
  "start_mark i = ''<!-- impeccable-variants-start '' @ i @ '' -->''"

definition end_mark :: "string \<Rightarrow> string" where
  "end_mark i = ''<!-- impeccable-variants-end '' @ i @ '' -->''"

definition source_block :: "string \<Rightarrow> string \<Rightarrow> string" where
  "source_block i html =
     (case (index_of (start_mark i) html, index_of (end_mark i) html) of
        (Some s, Some e) \<Rightarrow>
          if e > s then trim (drop (s + length (start_mark i)) (take e html)) else html
      | _ \<Rightarrow> html)"

section \<open>Completing an injection\<close>

definition wait_retry :: "retry_guard \<Rightarrow> source_try \<Rightarrow> 'e cycle \<Rightarrow> 'e cycle" where
  "wait_retry g so c = c\<lparr>source_retries := source_retries c @ [(g, so)]\<rparr>"

definition next_attempt :: "source_try \<Rightarrow> source_try" where
  "next_attempt so = so\<lparr>so_attempt := so_attempt so + 1\<rparr>"

definition next_orphan_attempt :: "source_try \<Rightarrow> source_try" where
  "next_orphan_attempt so = so\<lparr>so_orphan_attempt := so_orphan_attempt so + 1\<rparr>"

definition show_injected :: "'e stage \<Rightarrow> 'e wrapper \<Rightarrow> num \<Rightarrow> 'e cycle \<Rightarrow> 'e cycle" where
  "show_injected sg w v c =
     (let c1 = upd (\<lambda>o1. o1\<lparr>waiting_for_anchor := False,
                 selected := (case wr_content w v of Some x \<Rightarrow> Some x | None \<Rightarrow> wr_parent w)\<rparr>) c
      in cycling_component sg (refresh_params sg (show_cycling_bar (set_state Live_cycling c1))))"

definition complete_source_injection :: "'e stage \<Rightarrow> 'e wrapper \<Rightarrow> source_try \<Rightarrow> 'e cycle \<Rightarrow> 'e cycle" where
  "complete_source_injection sg w so c =
     (let i = so_session so; n = Some (int (wr_variants w));
          previous = (if cid c = Some i then visible (ov c) else Some 0);
          c1 = upd (\<lambda>o1. o1\<lparr>waiting_for_anchor := False, arrived := n,
                   expected := (if truthy_str (wr_count w) then parse_int_prefix (opt_str (wr_count w)) else n)\<rparr>)
                 (c\<lparr>anchor_wait := None\<rparr>)
      in if wr_variants w = 0 then
           (if state (ov c1) = Live_generating \<and> \<not> so_completed so then c1
            else if state (ov c1) = Live_generating \<and> so_attempt so < COMPLETED_SOURCE_FALLBACK_RETRIES
            then wait_retry Guard_empty (next_attempt so) c1
            else recover_empty_cycling c1)
         else
           let (seen, c2) = saved_visible sg i c1;
               v = first_reachable [previous, seen] n;
               c3 = snd (show_variant sg (Some i) v For_show (upd (\<lambda>o1. o1\<lparr>visible := v\<rparr>) c2))
           in show_injected sg w v c3)"

section \<open>Reading\<close>

text \<open>A file of JSX is never parsed: its wrapper must come by itself, and is waited for.\<close>

definition await_jsx :: "'e stage \<Rightarrow> source_try \<Rightarrow> 'e cycle \<Rightarrow> 'e cycle" where
  "await_jsx sg so c =
     (let i = so_session so in
      case wrapper_for (Some i) (sg_page sg) of
        Some w \<Rightarrow>
          if wr_variants w > 0 then complete_source_injection sg w so c
          else if so_completed so \<and> cid c = Some i then
            (if so_attempt so < COMPLETED_SOURCE_FALLBACK_RETRIES then wait_retry Guard_jsx (next_attempt so) c
             else if wr_mode w \<noteq> Some ''insert'' then recover_empty_cycling c else c)
          else c
      | None \<Rightarrow>
          if so_completed so \<and> cid c = Some i then
            (if so_attempt so < COMPLETED_SOURCE_FALLBACK_RETRIES then wait_retry Guard_jsx (next_attempt so) c
             else notify [Toast (''Variants ready. If the picked element isn'' @ [CHR 0x27] @ ''t visible, retrace the path '' @
                    ''that revealed it - they'' @ [CHR 0x27] @ ''ll appear automatically.'')] c)
          else if so_orphan so \<and> cid c = Some i
          then c\<lparr>source_reads := source_reads c @ [(Probe_jsx, so)]\<rparr> else c)"

definition inject_source :: "'e stage \<Rightarrow> source_try \<Rightarrow> 'e cycle \<Rightarrow> 'e cycle" where
  "inject_source sg so c =
     (if manifest_path (Some (so_file so)) then inject_components (so_file so) (so_session so) c
      else
        let c1 = upd (remember_file_meta (Some (JObj [(''file'', JStr (so_file so))]))) c
        in if is_jsx_source_file (so_file so) then await_jsx sg so c1
           else c1\<lparr>source_reads := source_reads c1 @ [(Inject_source, so)]\<rparr>)"

definition drop_read :: "nat \<Rightarrow> 'e cycle \<Rightarrow> 'e cycle" where
  "drop_read k c = c\<lparr>source_reads := take k (source_reads c) @ drop (k + 1) (source_reads c)\<rparr>"

definition still_active :: "string \<Rightarrow> 'e cycle \<Rightarrow> bool" where
  "still_active i c \<longleftrightarrow> cid c = Some i \<and> state (ov c) \<in> {Live_generating, Live_cycling}"

definition no_wrapper :: "source_try \<Rightarrow> 'e cycle \<Rightarrow> 'e cycle" where
  "no_wrapper so c =
     (if so_orphan_attempt so < COMPLETED_SOURCE_FALLBACK_RETRIES
      then wait_retry Guard_orphan (next_orphan_attempt so) c else discard_orphaned_session c)"

text \<open>
  The answer of a read. For a JSX file: its text, or the text of the error. Otherwise: the wrapper the
  parsed block holds, whether that has an original, and whether its place on the page is found.
\<close>

definition jsx_probed :: "nat \<Rightarrow> string + string \<Rightarrow> 'e cycle \<Rightarrow> 'e cycle" where
  "jsx_probed k answer c =
     (if k \<ge> length (source_reads c) \<or> fst (source_reads c ! k) \<noteq> Probe_jsx then c
      else
        let so = snd (source_reads c ! k); i = so_session so; c1 = drop_read k c in
        if \<not> still_active i c1 then c1
        else case answer of
          Inr text \<Rightarrow> if source_has_session_wrapper text i then c1 else no_wrapper so c1
        | Inl detail \<Rightarrow>
            if ends_with ''source read failed: 404'' detail then no_wrapper so c1
            else if so_orphan_attempt so < COMPLETED_SOURCE_FALLBACK_RETRIES
            then wait_retry Guard_orphan (next_orphan_attempt so) c1
            else notify [Toast (''Could not read the source file to check this session; it stays open and is '' @
                   ''checked again on the next event.'')] c1)"

text \<open>The page once the new wrapper is in it: the one a search for its session finds.\<close>

definition put_wrapper :: "string \<Rightarrow> 'e wrapper \<Rightarrow> 'e stage \<Rightarrow> 'e stage" where
  "put_wrapper i w sg =
     sg\<lparr>sg_page := (sg_page sg)\<lparr>wrappers := w\<lparr>wr_marks := (wr_marks w)\<lparr>mk_variants := Some i\<rparr>\<rparr> # wrappers (sg_page sg)\<rparr>\<rparr>"

definition source_read :: "nat \<Rightarrow> 'e wrapper option \<Rightarrow> bool \<Rightarrow> bool \<Rightarrow> 'e stage \<Rightarrow> 'e cycle \<Rightarrow> 'e cycle" where
  "source_read k source has_original place_found sg c =
     (if k \<ge> length (source_reads c) \<or> fst (source_reads c ! k) \<noteq> Inject_source then c
      else
        let so = snd (source_reads c ! k); i = so_session so; c1 = drop_read k c in
        case source of
          None \<Rightarrow> if so_orphan so \<and> cid c1 = Some i then no_wrapper so c1 else c1
        | Some w \<Rightarrow>
            if wrapper_for (Some i) (sg_page sg) \<noteq> None then complete_source_injection (put_wrapper i w sg) w so c1
            else if \<not> has_original then c1
            else if \<not> place_found then
              upd (queue_checkpoint ''variant_anchor_missing'')
                ((save sg (show_bar (set_state Live_generating
                    (upd (\<lambda>o1. o1\<lparr>waiting_for_anchor := True, selected := Some (body (sg_page sg))\<rparr>) c1))))
                  \<lparr>anchor_wait := Some so\<rparr>)
            else complete_source_injection (put_wrapper i w sg) w so c1)"

definition source_failed :: "nat \<Rightarrow> 'e cycle \<Rightarrow> 'e cycle" where
  "source_failed k c =
     (if k \<ge> length (source_reads c) \<or> fst (source_reads c ! k) \<noteq> Inject_source then c
      else notify [Toast ''Could not load variants. Try refreshing the page.''] (drop_read k c))"

definition source_retry_due :: "nat \<Rightarrow> 'e stage \<Rightarrow> 'e cycle \<Rightarrow> 'e cycle" where
  "source_retry_due k sg c =
     (if k \<ge> length (source_retries c) then c
      else
        let (g, so) = source_retries c ! k;
            c1 = c\<lparr>source_retries := take k (source_retries c) @ drop (k + 1) (source_retries c)\<rparr>;
            i = so_session so;
            ok = (case g of
                    Guard_empty \<Rightarrow> state (ov c1) = Live_generating \<and> cid c1 = Some i \<and> \<not> pos_num (arrived (ov c1))
                  | Guard_jsx \<Rightarrow> state (ov c1) = Live_generating \<and> cid c1 = Some i
                  | Guard_orphan \<Rightarrow> still_active i c1)
        in if ok then inject_source sg so c1 else c1)"

definition plain_try :: "string \<Rightarrow> string \<Rightarrow> source_try" where
  "plain_try file i =
     \<lparr>so_file = file, so_session = i, so_completed = False, so_orphan = False, so_attempt = 0, so_orphan_attempt = 0\<rparr>"

text \<open>The observer of \<open>waitForVariantAnchorAndRetry\<close>; \<open>place_found\<close> as above.\<close>

definition anchor_mutation :: "bool \<Rightarrow> 'e stage \<Rightarrow> 'e cycle \<Rightarrow> 'e cycle" where
  "anchor_mutation place_found sg c =
     (case anchor_wait c of
        None \<Rightarrow> c
      | Some so \<Rightarrow>
          if wrapper_for (Some (so_session so)) (sg_page sg) = None \<and> \<not> place_found then c
          else inject_source sg (plain_try (so_file so) (so_session so)) (c\<lparr>anchor_wait := None\<rparr>))"

section \<open>Lemmas\<close>

definition try_bounded :: "source_try \<Rightarrow> bool" where
  "try_bounded so \<longleftrightarrow> so_attempt so \<le> COMPLETED_SOURCE_FALLBACK_RETRIES \<and>
     so_orphan_attempt so \<le> COMPLETED_SOURCE_FALLBACK_RETRIES"

definition tries_bounded :: "'e cycle \<Rightarrow> bool" where
  "tries_bounded c \<longleftrightarrow>
     list_all (try_bounded \<circ> snd) (fst (tries c)) \<and> list_all (try_bounded \<circ> snd) (snd (tries c))"

lemma tries_of_fields: "fst (tries c) = source_retries c" "snd (tries c) = source_reads c"
  by (simp_all add: tries_def)

lemma list_all_drop_nth: "list_all P xs \<Longrightarrow> list_all P (take k xs @ drop (k + 1) xs)"
  by (auto simp: list_all_iff dest: in_set_takeD in_set_dropD)

lemma tries_wait_retry [simp]: "tries (wait_retry g so c) = (fst (tries c) @ [(g, so)], snd (tries c))"
  by (simp add: tries_def wait_retry_def)

lemma wait_retry_bounded: "tries_bounded c \<Longrightarrow> try_bounded so \<Longrightarrow> tries_bounded (wait_retry g so c)"
  by (simp add: tries_bounded_def tries_def wait_retry_def)

lemma add_read_bounded:
  "tries_bounded c \<Longrightarrow> try_bounded so \<Longrightarrow> tries_bounded (c\<lparr>source_reads := source_reads c @ [(u, so)]\<rparr>)"
  by (simp add: tries_bounded_def tries_def)

lemma drop_read_bounded: "tries_bounded c \<Longrightarrow> tries_bounded (drop_read k c)"
  using list_all_drop_nth [of _ "source_reads c" k] by (simp add: tries_bounded_def tries_def drop_read_def)

lemma next_bounded:
  "try_bounded so \<Longrightarrow> so_attempt so < COMPLETED_SOURCE_FALLBACK_RETRIES \<Longrightarrow> try_bounded (next_attempt so)"
  "try_bounded so \<Longrightarrow> so_orphan_attempt so < COMPLETED_SOURCE_FALLBACK_RETRIES \<Longrightarrow> try_bounded (next_orphan_attempt so)"
  by (simp_all add: try_bounded_def next_attempt_def next_orphan_attempt_def)

lemma plain_try_bounded [simp]:
  "try_bounded (plain_try f i)" "try_bounded ((plain_try f i)\<lparr>so_orphan := b\<rparr>)" "try_bounded ((plain_try f i)\<lparr>so_completed := b\<rparr>)"
  by (simp_all add: try_bounded_def plain_try_def)

lemma tries_saved_visible [simp]: "tries (snd (saved_visible sg i c)) = tries c"
  by (simp add: saved_visible_def case_prod_beta)

lemma complete_source_bounded:
  assumes "tries_bounded c" "try_bounded so" shows "tries_bounded (complete_source_injection sg w so c)"
proof (cases "wr_variants w = 0")
  case True
  then show ?thesis using assms
    using next_bounded(1) [of so] by (simp add: complete_source_injection_def Let_def tries_bounded_def)
next
  case False
  have "tries (show_injected sg w v s) = tries s" for v s by (simp add: show_injected_def Let_def)
  with False have "tries (complete_source_injection sg w so c) = tries c"
    by (simp add: complete_source_injection_def Let_def case_prod_beta)
  with assms show ?thesis by (simp add: tries_bounded_def)
qed

lemma await_jsx_bounded:
  assumes "tries_bounded c" "try_bounded so" shows "tries_bounded (await_jsx sg so c)"
proof -
  have "tries_bounded (recover_empty_cycling c)" "tries_bounded (notify ns c)" for ns
    using assms by (simp_all add: tries_bounded_def)
  with assms show ?thesis
    by (auto simp: await_jsx_def Let_def split: option.split
        intro!: wait_retry_bounded add_read_bounded complete_source_bounded next_bounded)
qed

lemma inject_source_bounded:
  assumes "tries_bounded c" "try_bounded so" shows "tries_bounded (inject_source sg so c)"
proof -
  let ?c = "upd (remember_file_meta (Some (JObj [(''file'', JStr (so_file so))]))) c"
  have "tries_bounded ?c" "tries_bounded (inject_components f i c)" for f i
    using assms by (simp_all add: tries_bounded_def)
  moreover from this(1) assms(2) have "tries_bounded (await_jsx sg so ?c)"
    "tries_bounded (?c\<lparr>source_reads := source_reads ?c @ [(Inject_source, so)]\<rparr>)"
    by (rule await_jsx_bounded add_read_bounded)+
  ultimately show ?thesis unfolding inject_source_def Let_def by presburger
qed

lemma nth_bounded:
  "tries_bounded c \<Longrightarrow> k < length (source_reads c) \<Longrightarrow> try_bounded (snd (source_reads c ! k))"
  "tries_bounded c \<Longrightarrow> k < length (source_retries c) \<Longrightarrow> try_bounded (snd (source_retries c ! k))"
  by (simp_all add: tries_bounded_def tries_def list_all_length)


end
