(* ===== verification/LiveEvents.thy ===== *)
theory LiveEvents imports LiveSource begin

text \<open>
  What drives a session (\<open>agent/skills/impeccable/scripts/live-browser.js\<close>, lines 6968 to 7074, 7119 to
  7370, 7395 to 7403, 7772 to 7923, 8230 to 8287, 8700 to 8808, 8959 to 8968 and 10718 to 10736): the observer of the
  variants, the messages of the server, starting, accepting and discarding, and the loss of the server.
  Every handler and every answer is an event; a run applies events in any order.

  The command in the message of a missing PRODUCT.md is the one without a prefix of the host.
  A message is a JSON value. Ids and phases are strings; an answer's error only aims its branch.
\<close>

section \<open>Effects of a restored session\<close>

text \<open>The calls that \<open>LiveResume\<close> records, carried out in their order.\<close>

definition perform :: "'e stage \<Rightarrow> 'e effect \<Rightarrow> 'e cycle \<Rightarrow> 'e cycle" where
  "perform sg e c =
     (case e of
        Show_bar mode \<Rightarrow> if mode = ''cycling'' then show_cycling_bar c else show_bar c
      | Observe i \<Rightarrow> c\<lparr>observing := Some i\<rparr>
      | Checkpoint payload \<Rightarrow> notify [Post payload] c
      | Inject file i orphan \<Rightarrow> inject_source sg ((plain_try file i)\<lparr>so_orphan := orphan\<rparr>) c
      | Recover file i \<Rightarrow> inject_source sg ((plain_try file i)\<lparr>so_completed := True\<rparr>) c
      | Show_variant i n \<Rightarrow> snd (show_variant sg (Some i) n For_show c)
      | Refresh_params \<Rightarrow> refresh_params sg c
      | Finalize_insert \<Rightarrow> finalize_insert c
      | _ \<Rightarrow> c)"

definition perform_all :: "'e stage \<Rightarrow> 'e cycle \<Rightarrow> 'e cycle" where
  "perform_all sg c =
     foldl (\<lambda>s e. perform sg e s) (upd (\<lambda>o1. o1\<lparr>effects := []\<rparr>) c) (effects (ov c))"

definition resume :: "'e stage \<Rightarrow> nat \<Rightarrow> string \<Rightarrow> 'e cycle \<Rightarrow> 'e cycle" where
  "resume sg rev_seen reason c =
     perform_all sg (upd (\<lambda>o1. snd (resume_session (sg_page sg) rev_seen reason o1)) c)"

section \<open>The observer of the variants\<close>

definition anchor_again :: "'e stage \<Rightarrow> 'e wrapper \<Rightarrow> 'e cycle \<Rightarrow> 'e cycle" where
  "anchor_again sg w c =
     (let aim = (\<lambda>e. case e of None \<Rightarrow> c | Some x \<Rightarrow> upd (\<lambda>o1. o1\<lparr>selected := Some x\<rparr>) c);
          chain = (\<lambda>a b. case a of Some x \<Rightarrow> Some x | None \<Rightarrow> b);
          pg = sg_page sg; is_insert = (wr_mode w = Some ''insert'') in
      if (case selected (ov c) of Some e \<Rightarrow> \<not> sg_attached sg e | None \<Rightarrow> False) then
        (if is_insert
         then aim (chain (if wr_variants w > 0 then wr_content w (num_or (visible (ov c)) (Some 1)) else None)
                (chain (insert_spot pg) (insert_anchor pg)))
         else aim (chain (wr_content w None) (Some (wr_element w))))
      else if state (ov c) = Live_generating \<and> is_insert \<and> cid c = mk_variants (wr_marks w) \<and>
              wr_variants w = 0 \<and> sg_recreates sg
      then aim (insert_spot pg) else c)"

definition send :: "'e stage \<Rightarrow> string \<Rightarrow> 'e cycle \<Rightarrow> 'e cycle" where
  "send sg reason c = perform_all sg (upd (send_checkpoint (sg_page sg) reason) c)"

text \<open>New variants: their number, the first to show, the number announced; then the comparison.\<close>

definition count_variants :: "'e wrapper \<Rightarrow> 'e cycle \<Rightarrow> 'e cycle" where
  "count_variants w =
     (let n = Some (int (wr_variants w)) in
      upd (\<lambda>o1. o1\<lparr>arrived := n, gen_phase := Some (JStr (if num_le (expected o1) n
             then ''variants_ready'' else ''variants_progress''))\<rparr>))"

definition reveal_first :: "'e stage \<Rightarrow> string \<Rightarrow> 'e wrapper \<Rightarrow> 'e cycle \<Rightarrow> 'e cycle" where
  "reveal_first sg i w c =
     (let (seen, c1) = saved_visible sg i c; v = first_reachable [seen] (arrived (ov c));
          c2 = snd (show_variant sg (Some i) v For_show (upd (\<lambda>o1. o1\<lparr>visible := v\<rparr>) c1))
      in case wr_content w v of None \<Rightarrow> c2 | Some x \<Rightarrow> upd (\<lambda>o1. o1\<lparr>selected := Some x\<rparr>) c2)"

definition expect_announced :: "'e wrapper \<Rightarrow> 'e cycle \<Rightarrow> 'e cycle" where
  "expect_announced w c =
     (let e = parse_int_prefix (str_or (opt_str (wr_count w)) ''0'') in
      if pos_num e then upd (\<lambda>o1. o1\<lparr>expected := e\<rparr>) c else c)"

definition enter_cycling :: "'e stage \<Rightarrow> 'e wrapper \<Rightarrow> 'e cycle \<Rightarrow> 'e cycle" where
  "enter_cycling sg w c =
     (let c1 = upd (\<lambda>o1. o1\<lparr>waiting_for_anchor := False\<rparr>) (set_state Live_cycling c);
          c2 = (if wr_mode w = Some ''insert'' then finalize_insert c1 else c1);
          c3 = show_cycling_bar (update_selected sg c2)
      in if all_arrived (ov c3) then refresh_params sg c3 else c3)"

definition observe_variants :: "'e stage \<Rightarrow> 'e cycle \<Rightarrow> 'e cycle" where
  "observe_variants sg c =
     (case Option.bind (observing c) (\<lambda>i. map_option (Pair i) (wrapper_for (Some i) (sg_page sg))) of
        None \<Rightarrow> c
      | Some (i, w) \<Rightarrow>
          let c1 = anchor_again sg w c in
          if num_le (Some (int (wr_variants w))) (arrived (ov c1)) then c1
          else
            let c2 = count_variants w c1;
                c3 = (if visible (ov c2) = Some 0 \<and> pos_num (arrived (ov c2)) then reveal_first sg i w c2 else c2);
                c4 = complete_if_ready sg (expect_announced w c3);
                c5 = (if pos_num (arrived (ov c4)) then enter_cycling sg w c4 else c4)
            in send sg (if all_arrived (ov c5) then ''variants_ready'' else ''variants_progress'') (save sg c5))"

section \<open>Starting\<close>

record go_input =
  gi_id :: string
  gi_prompt :: string
  gi_context :: json
  gi_comments :: "json list"
  gi_strokes :: "json list"
  gi_snapshot :: "json option"
  gi_top :: json
  gi_scroll :: string
  gi_now :: int

definition fresh_session :: "string \<Rightarrow> 'e cycle \<Rightarrow> 'e cycle" where
  "fresh_session i c =
     (let c1 = c\<lparr>mount_error := None, last_failure := None, accepting := None, awaiting := None, announced := None\<rparr> in
      upd (\<lambda>o1. reset_session_file_meta ((set_current (Some i) o1)
              \<lparr>expected := js_number (Some (sel_count o1)), arrived := Some 0, visible := Some 0,
               gen_phase := Some (JStr ''queued''), param_state := JStr ''pending''\<rparr>)) c1)"

definition notes_of :: "go_input \<Rightarrow> (string \<times> json) list" where
  "notes_of g =
     (if gi_comments g = [] then [] else [(''comments'', JArr (gi_comments g))]) @
     (if gi_strokes g = [] then [] else [(''strokes'', JArr (gi_strokes g))])"

text \<open>\<open>captureAndEmit\<close>: with notes the request waits for the screenshot, otherwise it is sent at once.\<close>

definition json_with :: "json \<Rightarrow> (string \<times> json) list \<Rightarrow> json" where
  "json_with v ms = JObj (foldl (\<lambda>m (k, x). omap_set k x m) (spread v) ms)"

definition emit_generate :: "json \<Rightarrow> 'e cycle \<Rightarrow> 'e cycle" where
  "emit_generate payload c =
     notify [Post payload] (c\<lparr>creations := creations c @ [opt_str (Option.bind (json_get ''id'' payload) json_str)]\<rparr>)"

definition capture_and_emit :: "go_input \<Rightarrow> json \<Rightarrow> 'e cycle \<Rightarrow> 'e cycle" where
  "capture_and_emit g payload c =
     (if gi_comments g = [] \<and> gi_strokes g = []
      then emit_generate (json_with payload [(''clientSentAt'', JNum (gi_now g))]) c
      else c\<lparr>captures := captures c @ [payload]\<rparr>)"

definition capture_uploaded :: "nat \<Rightarrow> string option \<Rightarrow> int \<Rightarrow> 'e cycle \<Rightarrow> 'e cycle" where
  "capture_uploaded k path now c =
     (if k \<ge> length (captures c) then c
      else emit_generate (json_with (captures c ! k)
               ([(''clientSentAt'', JNum now)] @ opt_text ''screenshotPath'' path))
             (c\<lparr>captures := take k (captures c) @ drop (k + 1) (captures c)\<rparr>))"

definition generate_answered :: "nat \<Rightarrow> bool \<Rightarrow> 'e stage \<Rightarrow> 'e cycle \<Rightarrow> 'e cycle" where
  "generate_answered k ok sg c =
     (if k \<ge> length (creations c) then c
      else
        let c1 = c\<lparr>creations := take k (creations c) @ drop (k + 1) (creations c)\<rparr> in
        if ok \<and> cid c1 = Some (creations c ! k) then send sg ''generate_started'' c1 else c1)"

definition start_generating :: "'e stage \<Rightarrow> go_input \<Rightarrow> json \<Rightarrow> 'e cycle \<Rightarrow> 'e cycle" where
  "start_generating sg g payload c =
     (let c1 = save sg (show_bar (set_state Live_generating c));
          c2 = upd (\<lambda>o1. set_live (write_scroll_y (gi_scroll g) (lives o1)) o1) c1
      in capture_and_emit g payload (c2\<lparr>observing := Some (gi_id g)\<rparr>))"

definition handle_go :: "'e stage \<Rightarrow> go_input \<Rightarrow> 'e cycle \<Rightarrow> 'e cycle" where
  "handle_go sg g c =
     (if apply_busy c then notify [Busy_toast] c
      else if selected (ov c) = None \<or> state (ov c) \<noteq> Live_configuring then c
      else
        let c1 = upd (\<lambda>o1. o1\<lparr>picked_anchor := gi_snapshot g, anchor_top := Some (gi_top g)\<rparr>) (fresh_session (gi_id g) c);
            payload = JObj ([(''type'', JStr ''generate''), (''id'', JStr (gi_id g)), (''action'', sel_action (ov c1))] @
              opt_text ''freeformPrompt'' (Some (trim (gi_prompt g))) @
              [(''count'', sel_count (ov c1)), (''pageUrl'', JStr (pathname (sg_page sg))), (''element'', gi_context g)] @
              notes_of g)
        in start_generating sg g payload c1)"

definition stroke_points :: "json \<Rightarrow> nat" where
  "stroke_points s = length (parsed_list (json_get ''points'' s))"

record 'e insert_input =
  in_go :: go_input
  in_placeholder :: "'e option"
  in_anchor :: bool
  in_position :: json
  in_width :: int
  in_height :: int

definition handle_insert_create :: "'e stage \<Rightarrow> 'e insert_input \<Rightarrow> 'e cycle \<Rightarrow> 'e cycle" where
  "handle_insert_create sg x c =
     (let g = in_go x; prompt = trim (gi_prompt g) in
      case in_placeholder x of
        None \<Rightarrow> c
      | Some ph \<Rightarrow>
          if \<not> in_anchor x \<or> state (ov c) \<noteq> Live_configuring \<or> \<not> configure_insert c \<or>
             \<not> can_create_insert (Some prompt) (length (gi_comments g)) (map stroke_points (gi_strokes g))
          then c
          else
            let c1 = upd (\<lambda>o1. o1\<lparr>selected := Some ph, insert_placeholder := gi_snapshot g, anchor_top := Some (gi_top g)\<rparr>)
                       (fresh_session (gi_id g) c);
                payload = JObj ([(''type'', JStr ''generate''), (''mode'', JStr ''insert''), (''id'', JStr (gi_id g)),
                  (''count'', sel_count (ov c1)), (''pageUrl'', JStr (pathname (sg_page sg))),
                  (''insert'', JObj [(''position'', in_position x), (''anchor'', gi_context g)]),
                  (''placeholder'', JObj [(''width'', JNum (in_width x)), (''height'', JNum (in_height x))])] @
                  opt_text ''freeformPrompt'' (Some prompt) @ notes_of g)
            in start_generating sg g payload c1)"

definition cancel_insert_configure :: "'e cycle \<Rightarrow> 'e cycle" where
  "cancel_insert_configure c =
     (let c1 = finalize_insert (hide_bar False c); c2 = upd (\<lambda>o1. o1\<lparr>selected := None\<rparr>) (c1\<lparr>configure_insert := False\<rparr>)
      in set_state (if insert_on c2 then Live_picking else Live_idle) c2)"

section \<open>Accepting and discarding\<close>

abbreviation "Live_saving \<equiv> Live_other ''SAVING''"
abbreviation "Live_confirmed \<equiv> Live_other ''CONFIRMED''"

definition accept_payload :: "'e stage \<Rightarrow> int \<Rightarrow> 'e cycle \<Rightarrow> json" where
  "accept_payload sg now c =
     JObj ([(''type'', JStr ''accept''), (''id'', JStr (opt_str (cid c))), (''variantId'', JStr (num_text (visible (ov c)))),
        (''pageUrl'', JStr (pathname (sg_page sg))), (''clientSentAt'', JNum now)] @
       (if param_values (ov c) = [] then [] else [(''paramValues'', JObj (param_values (ov c)))]))"

text \<open>\<open>handleAccept\<close> after it has waited for a selection in flight.\<close>

definition accept_now :: "'e stage \<Rightarrow> int \<Rightarrow> 'e cycle \<Rightarrow> 'e cycle" where
  "accept_now sg now c =
     (let shown = read_visible_from_dom sg (cid c) c;
          c1 = (if shown > 0 then upd (\<lambda>o1. o1\<lparr>visible := Some shown\<rparr>) c else c)
      in if \<not> truthy_str (cid c1) \<or> arrived (ov c1) = Some 0 then c1
         else
           let i = opt_str (cid c1);
               component = (component_of (Some i) c1 \<or>
                 (case wrapper_for (Some i) (sg_page sg) of Some w \<Rightarrow> framework_preview w | None \<Rightarrow> False));
               c2 = (set_state Live_saving c1)\<lparr>accepting := Some \<lparr>pa_id = i, pa_variant = num_text (visible (ov c1)),
                        pa_svelte = component, pa_finalizing = False\<rparr>\<rparr>
           in notify [Post (accept_payload sg now c1)] ((save sg c2)\<lparr>accept_posts := accept_posts c2 @ [i]\<rparr>))"

definition handle_accept :: "'e stage \<Rightarrow> int \<Rightarrow> 'e cycle \<Rightarrow> 'e cycle" where
  "handle_accept sg now c =
     (if apply_busy c then notify [Busy_toast] c
      else if accepting c \<noteq> None \<or> state (ov c) = Live_saving then c
      else if selecting c \<noteq> None then c\<lparr>accept_waits := accept_waits c + 1\<rparr>
      else accept_now sg now c)"

definition accept_waited :: "'e stage \<Rightarrow> int \<Rightarrow> 'e cycle \<Rightarrow> 'e cycle" where
  "accept_waited sg now c =
     (if accept_waits c = 0 \<or> selecting c \<noteq> None then c
      else accept_now sg now (c\<lparr>accept_waits := accept_waits c - 1\<rparr>))"

definition drop_post :: "nat \<Rightarrow> 'e cycle \<Rightarrow> 'e cycle" where
  "drop_post k c = c\<lparr>accept_posts := take k (accept_posts c) @ drop (k + 1) (accept_posts c)\<rparr>"

definition accept_confirmed :: "nat \<Rightarrow> 'e cycle \<Rightarrow> 'e cycle" where
  "accept_confirmed k c =
     (if k \<ge> length (accept_posts c) then c
      else
        let i = accept_posts c ! k; c1 = drop_post k c in
        case accepting c1 of
          None \<Rightarrow> c1
        | Some p \<Rightarrow>
            if pa_id p \<noteq> i then c1
            else let c2 = set_state Live_confirmed (mark_current_handled c1) in
              c2\<lparr>awaiting := Some i, cleanups := cleanups c2 @ [p]\<rparr>)"

definition accept_refused :: "nat \<Rightarrow> 'e cycle \<Rightarrow> 'e cycle" where
  "accept_refused k c =
     (if k \<ge> length (accept_posts c) then c
      else
        let i = accept_posts c ! k; c1 = drop_post k c;
            c2 = (if map_option pa_id (accepting c1) = Some i then c1\<lparr>accepting := None\<rparr> else c1)
        in notify [Toast (''Could not confirm accept with the live server. Session kept for recovery; '' @ ''try Accept again.'')]
             (show_cycling_bar (set_state Live_cycling c2)))"

definition msg_text :: "string \<Rightarrow> json \<Rightarrow> string option" where
  "msg_text key msg = Option.bind (json_get key msg) json_str"

definition maybe_complete_accepted :: "'e stage \<Rightarrow> json \<Rightarrow> 'e cycle \<Rightarrow> 'e cycle" where
  "maybe_complete_accepted sg msg c =
     (case accepting c of
        None \<Rightarrow> c
      | Some p \<Rightarrow>
          if \<not> truthy_str (msg_text ''id'' msg) \<or> msg_text ''id'' msg \<noteq> Some (pa_id p) then c
          else if truthy_str (cid c) \<and> cid c \<noteq> Some (pa_id p) then c\<lparr>accepting := None\<rparr>
          else if pa_finalizing p then c
          else
            let q = p\<lparr>pa_finalizing := True\<rparr>;
                c1 = mark_current_handled (c\<lparr>accepting := Some q\<rparr>);
                c2 = (if pa_svelte q then commit_accepted_component sg (pa_id q) c1 else c1);
                c3 = set_state Live_confirmed c2
            in c3\<lparr>cleanups := cleanups c3 @ [q]\<rparr>)"

text \<open>The microtask of \<open>scheduleAcceptCleanup\<close>, the \<open>k\<close>th of those pending.\<close>

definition cleanup_due :: "nat \<Rightarrow> 'e stage \<Rightarrow> 'e cycle \<Rightarrow> 'e cycle" where
  "cleanup_due k sg c =
     (if k \<ge> length (cleanups c) then c
      else
        let p = cleanups c ! k; c1 = c\<lparr>cleanups := take k (cleanups c) @ drop (k + 1) (cleanups c)\<rparr> in
        if map_option pa_id (accepting c1) \<noteq> Some (pa_id p) then c1
        else cleanup_accepted_session (if pa_svelte p then commit_accepted_component sg (pa_id p) c1 else c1))"

definition handle_discard :: "'e cycle \<Rightarrow> 'e cycle" where
  "handle_discard c =
     (if apply_busy c then notify [Busy_toast] c
      else if \<not> truthy_str (cid c) then c
      else notify [Post (JObj [(''type'', JStr ''discard''), (''id'', JStr (opt_str (cid c)))])]
             (c\<lparr>discard_posts := discard_posts c + 1\<rparr>))"

definition discard_confirmed :: "'e cycle \<Rightarrow> 'e cycle" where
  "discard_confirmed c =
     (if discard_posts c = 0 then c
      else cleanup True (mark_current_handled (c\<lparr>discard_posts := discard_posts c - 1\<rparr>)))"

definition discard_refused :: "'e cycle \<Rightarrow> 'e cycle" where
  "discard_refused c =
     (if discard_posts c = 0 then c
      else notify [Toast ''Could not confirm discard with the live server. Session kept for recovery.'']
             (c\<lparr>discard_posts := discard_posts c - 1\<rparr>))"

section \<open>The server\<close>

definition is_current :: "json \<Rightarrow> 'e cycle \<Rightarrow> bool" where
  "is_current msg c \<longleftrightarrow>
     (case json_get ''id'' msg of Some (JStr s) \<Rightarrow> cid c = Some s | Some JNull \<Rightarrow> cid c = None | _ \<Rightarrow> False)"

definition connected :: "'e stage \<Rightarrow> json \<Rightarrow> 'e cycle \<Rightarrow> 'e cycle" where
  "connected sg msg c =
     (let truthy = (\<lambda>key. truthy_field key (Some msg) \<noteq> None);
          sessions = Option.bind (json_get ''activeSessions'' msg) json_arr;
          c1 = c\<lparr>has_context := truthy ''hasProjectContext''\<rparr>;
          c2 = (if has_context c1 then c1
                else notify [Toast (''No PRODUCT.md found. Variants will be brand-agnostic. '' @
                  ''Run /impeccable init to generate one.'')] c1);
          c3 = c2\<lparr>agent_polling := truthy ''agentPolling''\<rparr>;
          c4 = perform_all sg (upd (\<lambda>o1. snd (restore_from_active (sg_page sg) sessions (Some ''sse_connected'') o1)) c3);
          c5 = upd (recover_missed_completion sessions) c4
      in if state (ov c5) = Live_idle \<and> (pick_on c5 \<or> insert_on c5) then set_state Live_picking c5 else c5)"

definition agent_phase :: "'e stage \<Rightarrow> json \<Rightarrow> 'e cycle \<Rightarrow> 'e cycle" where
  "agent_phase sg msg c =
     (if \<not> is_current msg c \<or> state (ov c) \<notin> {Live_generating, Live_cycling} then c
      else
        let phase = opt_str (msg_text ''phase'' msg);
            seen = opt_str (Option.bind (gen_phase (ov c)) json_str);
            c1 = (if should_advance_phase seen phase
                  then upd (\<lambda>o1. o1\<lparr>gen_phase := Some (JStr phase)\<rparr>) c else c);
            c2 = (if state (ov c1) = Live_cycling then update_cycling_bar c1 else c1)
        in save sg c2)"

definition variant_progress :: "json \<Rightarrow> 'e cycle \<Rightarrow> 'e cycle" where
  "variant_progress msg c =
     (if \<not> is_current msg c then c
      else
        let c1 = (if json_get ''publicationKind'' msg = Some (JStr ''params'')
                  then upd (\<lambda>o1. o1\<lparr>param_state := JStr ''loading''\<rparr>) c else c);
            c2 = upd (remember_file_meta (Some msg)) c1
        in if framework_mode (json_get ''previewMode'' msg) \<and> truthy_str (msg_text ''previewFile'' msg)
           then inject_components (opt_str (msg_text ''previewFile'' msg)) (opt_str (msg_text ''id'' msg)) c2 else c2)"

text \<open>\<open>maybeCompleteSteer\<close>: whether the message answers the steer under way, which it then releases.\<close>

definition answers_steer :: "json \<Rightarrow> 'e cycle \<Rightarrow> bool" where
  "answers_steer msg c \<longleftrightarrow>
     truthy_str (steer_request c) \<and> msg_text ''id'' msg = steer_request c \<and>
     msg_text ''type'' msg \<in> {Some ''steer_done'', Some ''error''}"

definition complete_steer :: "json \<Rightarrow> 'e cycle \<Rightarrow> 'e cycle" where
  "complete_steer msg c = notify [Steered msg] (c\<lparr>steer_request := None\<rparr>)"

definition generation_done :: "'e stage \<Rightarrow> json \<Rightarrow> 'e cycle \<Rightarrow> 'e cycle" where
  "generation_done sg msg c =
     (let c1 = upd (remember_file_meta (Some msg)) c; i = opt_str (msg_text ''id'' msg);
          file = opt_str (msg_text ''file'' msg) in
      if is_current msg c1 \<and> framework_mode (preview_mode (ov c1)) \<and> truthy_str (preview_file (ov c1))
      then inject_components (opt_str (preview_file (ov c1))) i c1
      else if all_arrived (ov c1) then
        (if state (ov c1) = Live_generating
         then refresh_params sg (show_cycling_bar (set_state Live_cycling c1)) else c1)
      else if file \<noteq> [] \<and> i \<noteq> [] \<and> state (ov c1) = Live_generating \<and> is_current msg c1
      then c1\<lparr>source_timers := source_timers c1 @ [(file, i)]\<rparr>
      else c1\<lparr>nudges := nudges c1 + 1\<rparr>)"

definition source_timer_due :: "nat \<Rightarrow> 'e stage \<Rightarrow> 'e cycle \<Rightarrow> 'e cycle" where
  "source_timer_due k sg c =
     (if k \<ge> length (source_timers c) then c
      else
        let (file, i) = source_timers c ! k;
            c1 = c\<lparr>source_timers := take k (source_timers c) @ drop (k + 1) (source_timers c)\<rparr>
        in if all_arrived (ov c1) \<or> state (ov c1) \<noteq> Live_generating \<or> cid c1 \<noteq> Some i then c1
           else inject_source sg ((plain_try file i)\<lparr>so_completed := True\<rparr>) c1)"

definition nudge_due :: "'e cycle \<Rightarrow> 'e cycle" where
  "nudge_due c =
     (if nudges c = 0 then c
      else
        let c1 = c\<lparr>nudges := nudges c - 1\<rparr> in
        if all_arrived (ov c1) \<or> state (ov c1) \<noteq> Live_generating then c1
        else notify [Toast (''Variants ready. If the picked element isn'' @ [CHR 0x27] @ ''t visible, retrace the path '' @
               ''that revealed it - they'' @ [CHR 0x27] @ ''ll appear automatically.'')] c1)"

definition release_awaited :: "json \<Rightarrow> 'e cycle \<Rightarrow> 'e cycle" where
  "release_awaited msg c =
     (if truthy_str (awaiting c) \<and> msg_text ''id'' msg = awaiting c then c\<lparr>awaiting := None\<rparr> else c)"

definition end_current :: "'e cycle \<Rightarrow> 'e cycle" where
  "end_current c = cleanup False (mark_current_handled c)"

text \<open>The detail of line 7270: the message, with a full stop at its end.\<close>

definition full_stop :: "string \<Rightarrow> string" where
  "full_stop s = (let t = trim s in
     if t \<noteq> [] \<and> last t \<in> set ''.!?'' then butlast t @ ''.'' else t @ ''.'')"

definition agent_error :: "'e stage \<Rightarrow> json \<Rightarrow> 'e cycle \<Rightarrow> 'e cycle" where
  "agent_error sg msg c =
     (let i = msg_text ''id'' msg in
      if (case accepting c of Some p \<Rightarrow> pa_id p \<noteq> [] \<and> i = Some (pa_id p) | None \<Rightarrow> False) then
        notify [Toast ''Could not complete accept cleanup. Try Accept again.'']
          (update_cycling_bar (set_state Live_cycling (c\<lparr>accepting := None, awaiting := None\<rparr>)))
      else if truthy_str (awaiting c) \<and> i = awaiting c then
        notify [Toast (''Accept failed: '' @ full_stop (str_or (opt_str (msg_text ''message'' msg)) ''unknown error'') @
            '' The variant may not have been saved. If the change is missing, pick the element and generate again.'')]
          (c\<lparr>awaiting := None\<rparr>)
      else if answers_steer msg c then complete_steer msg c
      else
        let c1 = notify [Toast (''Error: '' @ (case msg_text ''message'' msg of Some t \<Rightarrow> t | None \<Rightarrow> ''undefined''))] c in
        if truthy_str i \<and> is_current msg c1 then end_current c1
        else
          let (saved, o1) = (if truthy_str i then load_session (sg_page sg) (ov c1) else (None, ov c1));
              c2 = c1\<lparr>ov := o1\<rparr>;
              c3 = (if truthy_str i \<and> session_id saved = i then upd clear_session c2 else c2)
          in set_state Live_picking (hide_bar False c3))"

definition MANUAL_ACTIVITY :: "string list" where
  "MANUAL_ACTIVITY =
     [''manual_edit_stashed'', ''manual_edit_discarded'', ''manual_edit_commit_started'',
      ''manual_edit_apply_reply_received'', ''manual_edit_apply_dispatched'', ''manual_edit_repair_needs_decision'',
      ''manual_edit_repair_rollback_done'', ''manual_edit_commit_done'', ''manual_edit_commit_failed'']"

definition sse_message :: "'e stage \<Rightarrow> json \<Rightarrow> 'e cycle \<Rightarrow> 'e cycle" where
  "sse_message sg msg c0 =
     (let c = c0\<lparr>sse_retries := 0\<rparr>; kind = opt_str (msg_text ''type'' msg) in
      if \<not> sse_open c0 then c0
      else if kind = ''connected'' then connected sg msg c
      else if kind = ''agent_polling'' then c\<lparr>agent_polling := truthy_field ''connected'' (Some msg) \<noteq> None\<rparr>
      else if kind = ''agent_phase'' then agent_phase sg msg c
      else if kind = ''variant_progress'' then variant_progress msg c
      else if kind = ''steer_done'' then (if answers_steer msg c then complete_steer msg c else c)
      else if kind \<in> set MANUAL_ACTIVITY then notify [Manual_activity msg] c
      else if kind = ''done'' then generation_done sg msg c
      else if kind = ''complete'' \<or> kind = ''accept'' then maybe_complete_accepted sg msg (release_awaited msg c)
      else if kind = ''agent_done'' then
        (if field ''carbonize'' (json_get ''data'' msg) = Some (JBool True)
         then maybe_complete_accepted sg msg (release_awaited msg c) else c)
      else if kind = ''discarded'' then
        (if truthy_str (msg_text ''id'' msg) \<and> is_current msg c then end_current c else c)
      else if kind = ''error'' then agent_error sg msg c
      else c)"

definition SSE_MAX_RETRIES :: nat where "SSE_MAX_RETRIES = 20"

definition server_lost :: "'e stage \<Rightarrow> 'e cycle \<Rightarrow> 'e cycle" where
  "server_lost sg c =
     (let recovery = (if truthy_str (cid c) then state (ov c) else Live_idle);
          c1 = (if state (ov c) \<in> {Live_generating, Live_cycling, Live_saving}
                then notify [Toast (''Live server connection lost. Your session is saved; reopen this page or '' @
                       ''restart live-poll.mjs to continue.'')] c else c);
          c2 = (hide_bar False c1)\<lparr>observing := None\<rparr>;
          c3 = set_state recovery (upd (\<lambda>o1. o1\<lparr>selected := None, sel_action := JStr ''impeccable''\<rparr>) c2)
      in if truthy_str (cid c3) then save sg c3 else c3)"

definition sse_error :: "'e stage \<Rightarrow> 'e cycle \<Rightarrow> 'e cycle" where
  "sse_error sg c =
     (if \<not> sse_open c then c
      else
        let c1 = c\<lparr>sse_retries := sse_retries c + 1\<rparr> in
        if sse_retries c1 \<le> SSE_MAX_RETRIES then c1 else server_lost sg (c1\<lparr>sse_open := False\<rparr>))"

text \<open>The answer \<open>unknown_session\<close> to a checkpoint of session \<open>i\<close>.\<close>

definition checkpoint_refused :: "string \<Rightarrow> 'e cycle \<Rightarrow> 'e cycle" where
  "checkpoint_refused i c =
     (if i \<noteq> [] \<and> cid c = Some i then abandon_foreign_session i c else c)"


section \<open>Runs\<close>

text \<open>
  One step under the document \<open>sg\<close>: a handler, an answer, a timer or a frame. Choosing an element for
  a new configuration is \<open>configure\<close>. Reachable is what any run leads to, the document changing.
\<close>

definition configure :: "'e \<Rightarrow> 'e cycle \<Rightarrow> 'e cycle" where
  "configure x c =
     (if state (ov c) \<noteq> Live_picking then c
      else set_state Live_configuring
             (upd (\<lambda>o1. o1\<lparr>selected := Some x, rec := (rec o1)\<lparr>revision := revision (rec o1) + 1\<rparr>\<rparr>) c))"

inductive live_step :: "'e stage \<Rightarrow> 'e cycle \<Rightarrow> 'e cycle \<Rightarrow> bool" for sg :: "'e stage" and c :: "'e cycle" where
  Sse: "live_step sg c (sse_message sg msg c)"
| Sse_opened: "live_step sg c (if sse_open c then c\<lparr>sse_retries := 0\<rparr> else c)"
| Sse_failed: "live_step sg c (sse_error sg c)"
| Page_changed: "live_step sg c (observe_variants sg c)"
| Resumed: "live_step sg c (resume sg r reason c)"
| Completion: "live_step sg c (perform_all sg (upd (completion_due k) c))"
| Checkpoint_timer: "live_step sg c (perform_all sg (upd (checkpoint_due (sg_page sg)) c))"
| Checkpoint_refused: "live_step sg c (checkpoint_refused i c)"
| Configured: "live_step sg c (configure x c)"
| Went: "live_step sg c (handle_go sg g c)"
| Insert_created: "live_step sg c (handle_insert_create sg y c)"
| Insert_cancelled: "live_step sg c (cancel_insert_configure c)"
| Captured: "live_step sg c (capture_uploaded k path now c)"
| Generated: "live_step sg c (generate_answered k ok sg c)"
| Selected: "live_step sg c (select_variant sg n reason2 c)"
| Cycled: "live_step sg c (cycle_variant sg dir c)"
| Tuned: "live_step sg c (toggle_tune sg c)"
| Bar_synced: "live_step sg c (cycling_bar_sync k sg c)"
| Bar_timer: "live_step sg c (bar_hidden k c)"
| Manifest_read: "live_step sg c (manifest_read k m params sg c)"
| Manifest_failed: "live_step sg c (manifest_failed k error sg c)"
| Target_changed: "live_step sg c (target_mutation sg c)"
| Mounted: "live_step sg c (mount_ok k url error sg c)"
| Mount_failed: "live_step sg c (mount_fails k url error c)"
| Mount_explained: "live_step sg c (mount_explained k message sg c)"
| Mount_settled: "live_step sg c (mount_settled k sg c)"
| Card_dismissed: "live_step sg c (dismiss_mount_card c)"
| Card_retried: "live_step sg c (retry_mount_card c)"
| Source_read: "live_step sg c (source_read k w orig place sg c)"
| Source_failed: "live_step sg c (source_failed k c)"
| Jsx_probed: "live_step sg c (jsx_probed k answer c)"
| Source_retried: "live_step sg c (source_retry_due k sg c)"
| Source_timer: "live_step sg c (source_timer_due k sg c)"
| Anchor_changed: "live_step sg c (anchor_mutation place sg c)"
| Nudged: "live_step sg c (nudge_due c)"
| Accepted: "live_step sg c (handle_accept sg now c)"
| Accept_waited: "live_step sg c (accept_waited sg now c)"
| Accept_confirmed: "live_step sg c (accept_confirmed k c)"
| Accept_refused: "live_step sg c (accept_refused k c)"
| Accept_cleaned: "live_step sg c (cleanup_due k sg c)"
| Discarded: "live_step sg c (handle_discard c)"
| Discard_confirmed: "live_step sg c (discard_confirmed c)"
| Discard_refused: "live_step sg c (discard_refused c)"

inductive live_reach :: "'e cycle \<Rightarrow> 'e cycle \<Rightarrow> bool" for c0 :: "'e cycle" where
  here: "live_reach c0 c0"
| there: "live_reach c0 c \<Longrightarrow> live_step sg c c' \<Longrightarrow> live_reach c0 c'"

section \<open>Lemmas\<close>

lemma tries_anchor_again [simp]: "tries (anchor_again sg w c) = tries c"
  by (simp add: anchor_again_def Let_def case_prod_beta split: option.split)

lemma tries_fresh_session [simp]: "tries (fresh_session i c) = tries c"
  by (simp add: fresh_session_def Let_def case_prod_beta)

lemma tries_emit_generate [simp]: "tries (emit_generate p c) = tries c"
  by (simp add: emit_generate_def Let_def case_prod_beta)

lemma tries_capture_and_emit [simp]: "tries (capture_and_emit g p c) = tries c"
  by (simp add: capture_and_emit_def Let_def case_prod_beta)

lemma tries_capture_uploaded [simp]: "tries (capture_uploaded k p n c) = tries c"
  by (simp add: capture_uploaded_def Let_def case_prod_beta)

lemma tries_start_generating [simp]: "tries (start_generating sg g p c) = tries c"
  by (simp add: start_generating_def Let_def case_prod_beta)

lemma tries_handle_go [simp]: "tries (handle_go sg g c) = tries c"
  by (simp add: handle_go_def Let_def case_prod_beta)

lemma tries_handle_insert_create [simp]: "tries (handle_insert_create sg x c) = tries c"
  by (simp add: handle_insert_create_def Let_def case_prod_beta split: option.split)

lemma tries_cancel_insert_configure [simp]: "tries (cancel_insert_configure c) = tries c"
  by (simp add: cancel_insert_configure_def Let_def case_prod_beta)

lemma tries_accept_now [simp]: "tries (accept_now sg n c) = tries c"
  by (simp add: accept_now_def Let_def case_prod_beta)

lemma tries_handle_accept [simp]: "tries (handle_accept sg n c) = tries c"
  by (simp add: handle_accept_def Let_def case_prod_beta)

lemma tries_accept_waited [simp]: "tries (accept_waited sg n c) = tries c"
  by (simp add: accept_waited_def Let_def case_prod_beta)

lemma tries_drop_post [simp]: "tries (drop_post k c) = tries c"
  by (simp add: drop_post_def Let_def case_prod_beta)

lemma tries_accept_confirmed [simp]: "tries (accept_confirmed k c) = tries c"
  by (simp add: accept_confirmed_def Let_def case_prod_beta split: option.split)

lemma tries_accept_refused [simp]: "tries (accept_refused k c) = tries c"
  by (simp add: accept_refused_def Let_def case_prod_beta)

lemma tries_maybe_complete_accepted [simp]: "tries (maybe_complete_accepted sg m c) = tries c"
  by (simp add: maybe_complete_accepted_def Let_def case_prod_beta split: option.split)

lemma tries_cleanup_due [simp]: "tries (cleanup_due k sg c) = tries c"
  by (simp add: cleanup_due_def Let_def case_prod_beta)

lemma tries_handle_discard [simp]: "tries (handle_discard c) = tries c"
  by (simp add: handle_discard_def Let_def case_prod_beta)

lemma tries_discard_confirmed [simp]: "tries (discard_confirmed c) = tries c"
  by (simp add: discard_confirmed_def Let_def case_prod_beta)

lemma tries_discard_refused [simp]: "tries (discard_refused c) = tries c"
  by (simp add: discard_refused_def Let_def case_prod_beta)

lemma tries_agent_phase [simp]: "tries (agent_phase sg m c) = tries c"
  by (simp add: agent_phase_def Let_def case_prod_beta)

lemma tries_variant_progress [simp]: "tries (variant_progress m c) = tries c"
  by (simp add: variant_progress_def Let_def case_prod_beta)

lemma tries_complete_steer [simp]: "tries (complete_steer m c) = tries c"
  by (simp add: complete_steer_def Let_def case_prod_beta)

lemma tries_generation_done [simp]: "tries (generation_done sg m c) = tries c"
  by (simp add: generation_done_def Let_def case_prod_beta)

lemma tries_nudge_due [simp]: "tries (nudge_due c) = tries c"
  by (simp add: nudge_due_def Let_def case_prod_beta)

lemma tries_release_awaited [simp]: "tries (release_awaited m c) = tries c"
  by (simp add: release_awaited_def Let_def case_prod_beta)

lemma tries_end_current [simp]: "tries (end_current c) = tries c"
  by (simp add: end_current_def Let_def case_prod_beta)

lemma tries_agent_error [simp]: "tries (agent_error sg m c) = tries c"
  by (simp add: agent_error_def Let_def case_prod_beta split: option.split)

lemma tries_server_lost [simp]: "tries (server_lost sg c) = tries c"
  by (simp add: server_lost_def Let_def case_prod_beta)

lemma tries_sse_error [simp]: "tries (sse_error sg c) = tries c"
  by (simp add: sse_error_def Let_def case_prod_beta)

lemma tries_checkpoint_refused [simp]: "tries (checkpoint_refused i c) = tries c"
  by (simp add: checkpoint_refused_def Let_def case_prod_beta)

lemma tries_configure [simp]: "tries (configure x c) = tries c"
  by (simp add: configure_def Let_def case_prod_beta)


section \<open>Properties\<close>

lemma bounded_if_same: "tries c' = tries c \<Longrightarrow> tries_bounded c \<Longrightarrow> tries_bounded c'"
  by (simp add: tries_bounded_def)

lemma perform_bounded: "tries_bounded c \<Longrightarrow> tries_bounded (perform sg e c)"
  by (cases e) (auto simp: perform_def intro: inject_source_bounded bounded_if_same [rotated])

lemma foldl_perform_bounded: "tries_bounded c \<Longrightarrow> tries_bounded (foldl (\<lambda>s e. perform sg e s) c es)"
  by (induction es arbitrary: c) (simp_all add: perform_bounded)

lemma perform_all_bounded: "tries_bounded c \<Longrightarrow> tries_bounded (perform_all sg c)"
  unfolding perform_all_def by (rule foldl_perform_bounded) (simp add: tries_bounded_def)

lemma send_bounded: "tries_bounded c \<Longrightarrow> tries_bounded (send sg r c)"
  unfolding send_def by (rule perform_all_bounded) (simp add: tries_bounded_def)

lemma tries_bounded_upd [simp]: "tries_bounded (upd f c) = tries_bounded c" "tries_bounded (set_state s c) = tries_bounded c"
  by (simp_all add: tries_bounded_def)

lemma tries_observed [simp]:
  "tries (count_variants w c) = tries c" "tries (reveal_first sg i w c) = tries c" "tries (expect_announced w c) = tries c"
  "tries (enter_cycling sg w c) = tries c"
  by (simp_all add: count_variants_def reveal_first_def expect_announced_def enter_cycling_def Let_def case_prod_beta
      split: option.split)

lemma observe_bounded:
  assumes "tries_bounded c" shows "tries_bounded (observe_variants sg c)"
proof -
  have "tries_bounded (send sg r (save sg d))" if "tries d = tries c" for r d
    using that assms by (intro send_bounded) (simp add: tries_bounded_def)
  with assms show ?thesis
    by (simp add: observe_variants_def Let_def tries_bounded_def split: option.split)
qed

lemma retry_due_bounded:
  assumes "tries_bounded c" shows "tries_bounded (source_retry_due k sg c)"
proof (cases "k < length (source_retries c)")
  case True
  obtain g so where so: "source_retries c ! k = (g, so)" by force
  let ?c = "c\<lparr>source_retries := take k (source_retries c) @ drop (k + 1) (source_retries c)\<rparr>"
  have "tries_bounded ?c" using assms list_all_drop_nth [of _ "source_retries c" k]
    by (simp add: tries_bounded_def tries_def)
  moreover have "try_bounded so" using nth_bounded(2) [OF assms True] so by simp
  ultimately show ?thesis using True so inject_source_bounded [of ?c so sg]
    by (simp add: source_retry_due_def Let_def)
qed (simp add: source_retry_due_def assms)

lemma no_wrapper_bounded: "tries_bounded c \<Longrightarrow> try_bounded so \<Longrightarrow> tries_bounded (no_wrapper so c)"
  by (auto simp: no_wrapper_def intro: wait_retry_bounded next_bounded bounded_if_same [rotated])

lemma jsx_probed_bounded:
  assumes "tries_bounded c" shows "tries_bounded (jsx_probed k answer c)"
proof (cases "k < length (source_reads c)")
  case True
  have "try_bounded (snd (source_reads c ! k))" "tries_bounded (drop_read k c)"
    using nth_bounded(1) [OF assms True] drop_read_bounded [OF assms] by simp_all
  moreover have "tries_bounded (notify ns (drop_read k c))" for ns
    using drop_read_bounded [OF assms] by (simp add: tries_bounded_def)
  ultimately show ?thesis using assms
    by (auto simp: jsx_probed_def Let_def split: sum.split intro: no_wrapper_bounded wait_retry_bounded next_bounded)
qed (simp add: jsx_probed_def assms)

lemma source_read_bounded:
  assumes "tries_bounded c" shows "tries_bounded (source_read k w orig place sg c)"
proof (cases "k < length (source_reads c)")
  case True
  let ?c = "drop_read k c" let ?so = "snd (source_reads c ! k)"
  have *: "try_bounded ?so" "tries_bounded ?c"
    using nth_bounded(1) [OF assms True] drop_read_bounded [OF assms] by simp_all
  have "tries_bounded (upd f ((save sg (show_bar (set_state s (upd g ?c))))\<lparr>anchor_wait := a\<rparr>))" for f g s a
    using *(2) by (simp add: tries_bounded_def)
  with * show ?thesis using assms
    by (auto simp: source_read_def Let_def split: option.split intro: no_wrapper_bounded complete_source_bounded)
qed (simp add: source_read_def assms)

lemma connected_bounded:
  assumes "tries_bounded c" shows "tries_bounded (connected sg msg c)"
proof -
  have *: "tries_bounded (perform_all sg (upd f d))" if "tries d = tries c" for f d
    using that assms by (intro perform_all_bounded) (simp add: tries_bounded_def)
  show ?thesis unfolding connected_def Let_def by (simp add: *)
qed

lemma sse_bounded:
  assumes "tries_bounded c" shows "tries_bounded (sse_message sg msg c)"
proof -
  have *: "tries_bounded d" if "tries d = tries c" for d using assms that by (simp add: tries_bounded_def)
  show ?thesis by (simp add: sse_message_def Let_def * connected_bounded)
qed

lemma resume_bounded: "tries_bounded c \<Longrightarrow> tries_bounded (resume sg r reason c)"
  unfolding resume_def by (rule perform_all_bounded) simp

lemma generate_answered_bounded:
  assumes "tries_bounded c" shows "tries_bounded (generate_answered k ok sg c)"
proof -
  have "tries_bounded (c\<lparr>creations := is\<rparr>)" for "is" using assms by (simp add: tries_bounded_def)
  with assms show ?thesis by (simp add: generate_answered_def Let_def send_bounded)
qed

lemma source_failed_bounded: "tries_bounded c \<Longrightarrow> tries_bounded (source_failed k c)"
  using drop_read_bounded [of c k] by (simp add: source_failed_def tries_bounded_def)

lemma source_timer_bounded:
  assumes "tries_bounded c" shows "tries_bounded (source_timer_due k sg c)"
proof -
  have "tries_bounded (c\<lparr>source_timers := ts\<rparr>)" for ts using assms by (simp add: tries_bounded_def)
  with assms show ?thesis by (simp add: source_timer_due_def Let_def case_prod_beta inject_source_bounded)
qed

lemma anchor_mutation_bounded:
  assumes "tries_bounded c" shows "tries_bounded (anchor_mutation place sg c)"
proof -
  have "tries_bounded (c\<lparr>anchor_wait := None\<rparr>)" using assms by (simp add: tries_bounded_def)
  with assms show ?thesis by (simp add: anchor_mutation_def inject_source_bounded split: option.split)
qed

lemma step_bounded:
  assumes "live_step sg c c'" "tries_bounded c" shows "tries_bounded c'"
  using assms(1)
  by cases (use assms(2) in \<open>auto intro: sse_bounded observe_bounded perform_all_bounded retry_due_bounded jsx_probed_bounded
    source_read_bounded resume_bounded generate_answered_bounded source_failed_bounded source_timer_bounded
    anchor_mutation_bounded bounded_if_same [rotated]\<close>)

end
