(* ===== verification/LiveLifecycle.thy ===== *)
theory LiveLifecycle imports LiveEvents begin

text \<open>
  What holds of a session of the live overlay over its handlers and their interleavings, on the model
  of \<open>LiveCycle\<close> to \<open>LiveEvents\<close>; and, as lemmas on small runs, the orders of events for which the code
  does not do what it means to.
\<close>

section \<open>Lemmas\<close>

lemma load_none: "safe_read (session_key l) l = None \<Longrightarrow> fst (load_live_session l) = None"
  by (simp add: load_live_session_def truthy_str_def opt_str_def)

lemma load_reset: "fst (load_live_session (clear_handled [] (clear_live_session l))) = None"
  by (rule load_none) (auto simp: clear_handled_def clear_live_session_def safe_remove_def safe_read_def handled_key_def
      session_key_def items.get_del split: option.split)

lemma show_cycling_bar_full:
  assumes "pos_num (arrived (ov c))"
  shows "bar_display (show_cycling_bar c)" "rec (ov (show_cycling_bar c)) = rec (ov c)"
    "state (ov (show_cycling_bar c)) = state (ov c)" "arrived (ov (show_cycling_bar c)) = arrived (ov c)"
    "svelte (ov (show_cycling_bar c)) = svelte (ov c)" "selecting (show_cycling_bar c) = selecting c"
    "visible (ov (show_cycling_bar c)) =
      (if num_less (visible (ov c)) (Some 1) \<or> num_less (arrived (ov c)) (visible (ov c)) then Some 1 else visible (ov c))"
  using assms by (simp_all add: show_cycling_bar_def ensure_cycling_renderable_def clamp_visible_def Let_def)

lemma reset_facts:
  "cid (reset_svelte_session i m c) = None" "state (ov (reset_svelte_session i m c)) = Live_picking"
  "fst (load_live_session (lives (ov (reset_svelte_session i m c)))) = None"
proof -
  have redraw: "redraws (hide_bar_start b (set_state Live_picking d)) = False" for b and d :: "'a cycle"
    by (simp add: redraws_def hide_bar_start_def set_state_def Let_def finalize_insert_def)
  show "cid (reset_svelte_session i m c) = None" "state (ov (reset_svelte_session i m c)) = Live_picking"
    "fst (load_live_session (lives (ov (reset_svelte_session i m c)))) = None"
    by (simp_all add: reset_svelte_session_def Let_def hide_bar_in_def redraw set_live_def set_current_def clear_session_def
        reset_session_file_meta_def clear_handled_session_def load_reset)
      (simp add: hide_bar_start_def Let_def set_state_def finalize_insert_def)
qed

lemma show_cycling_bar_empty:
  assumes "\<not> pos_num (arrived (ov c))"
  shows "cid (show_cycling_bar c) = None \<and> state (ov (show_cycling_bar c)) = Live_picking \<and>
    fst (load_live_session (lives (ov (show_cycling_bar c)))) = None"
  using assms by (simp add: show_cycling_bar_def ensure_cycling_renderable_def recover_empty_cycling_def Let_def
      reset_facts cleanup_in_def cleanup_end_facts)

section \<open>A sample\<close>

definition sample_cycle :: "string \<Rightarrow> nat cycle" where
  "sample_cycle i =
     \<lparr>ov = set_current (Some i) sample_overlay, tune_open = False, announced = None, variant_css = [], selecting = None,
      apply_busy = False, pick_on = True, insert_on = False, configure_insert = False, bar_display = True, bar_seq = 0,
      bar_timers = [], mounts = [], mount_error = None, last_failure = None, accepting = None, awaiting = None,
      accept_posts = [], discard_posts = 0, cleanups = [], source_timers = [], source_retries = [], source_reads = [],
      anchor_wait = None, nudges = 0, manifest_reads = [], target_wait = None, bar_syncs = [], settles = [], abandoned = None,
      sse_retries = 0, sse_open = True, has_context = True, agent_polling = True, steer_request = None, accept_waits = 0,
      captures = [], creations = [], observing = Some i, notices = []\<rparr>"

definition sample_stage :: "nat stage" where
  "sample_stage =
     \<lparr>sg_page = sample_page, sg_params = (\<lambda>i n. Some None), sg_displayed = (\<lambda>i. [2]), sg_attached = (\<lambda>e. True),
      sg_target = False, sg_mount = 9, sg_recreates = False\<rparr>"

lemma sample_fields [simp]:
  "cid (sample_cycle i) = Some i" "state (ov (sample_cycle i)) = Live_cycling" "arrived (ov (sample_cycle i)) = Some 3"
  "visible (ov (sample_cycle i)) = Some 2" "expected (ov (sample_cycle i)) = Some 3" "svelte (ov (sample_cycle i)) = None"
  "selecting (sample_cycle i) = None" "apply_busy (sample_cycle i) = False" "sse_open (sample_cycle i)"
  "sse_retries (sample_cycle i) = 0" "source_reads (sample_cycle i) = []" "source_retries (sample_cycle i) = []"
  "notices (sample_cycle i) = []" "accepting (sample_cycle i) = None"
  by (simp_all add: sample_cycle_def sample_overlay_def overlay_start_def set_current_def)

section \<open>Properties\<close>



text \<open>
  C19: The bar never offers an empty comparison. Drawing it either shows it with one of the variants
  that have arrived, the session unchanged, or, when none has arrived, ends the session: no current
  session, nothing saved, back to picking.
\<close>

theorem comparison_never_empty:
  assumes "arrived (ov c) = Some a" and "visible (ov c) = Some v"
  shows "if 0 < a
    then bar_display (show_cycling_bar c) \<and> cid (show_cycling_bar c) = cid c \<and>
      state (ov (show_cycling_bar c)) = state (ov c) \<and>
      (\<exists>n. visible (ov (show_cycling_bar c)) = Some n \<and> 1 \<le> n \<and> n \<le> a \<and> (1 \<le> v \<and> v \<le> a \<longrightarrow> n = v))
    else cid (show_cycling_bar c) = None \<and> state (ov (show_cycling_bar c)) = Live_picking \<and>
      fst (load_live_session (lives (ov (show_cycling_bar c)))) = None"
proof (cases "0 < a")
  case True
  then have "pos_num (arrived (ov c))" using assms by (simp add: pos_num_def num_less_def)
  from show_cycling_bar_full [OF this] True assms show ?thesis by (auto simp: num_less_def)
next
  case False
  with assms show ?thesis using show_cycling_bar_empty [of c] by (simp add: pos_num_def num_less_def)
qed

lemma comparison_never_empty_witness:
  "bar_display (show_cycling_bar (sample_cycle ''s1'')) \<and> visible (ov (show_cycling_bar (sample_cycle ''s1''))) = Some 2 \<and>
   cid (show_cycling_bar (upd (\<lambda>o1. o1\<lparr>arrived := Some 0\<rparr>) (sample_cycle ''s1''))) = None"
  using comparison_never_empty [of "sample_cycle ''s1''" 3 2]
    comparison_never_empty [of "upd (\<lambda>o1. o1\<lparr>arrived := Some 0\<rparr>) (sample_cycle ''s1'')" 0 2] by auto

text \<open>
  A source fallback is bounded: whatever happens and in whatever order, no read and no retry that
  is pending has been repeated more than three times, of either kind.
\<close>

theorem fallback_reads_bounded:
  assumes "live_reach c0 c" and "source_retries c0 = []" and "source_reads c0 = []"
  shows "\<forall>so \<in> snd ` set (source_retries c) \<union> snd ` set (source_reads c). so_attempt so \<le> 3 \<and> so_orphan_attempt so \<le> 3"
proof -
  from assms(1) have "tries_bounded c"
  proof induction
    case here
    then show ?case using assms by (simp add: tries_bounded_def tries_def)
  next
    case there
    then show ?case using step_bounded by blast
  qed
  then show ?thesis
    by (auto simp: tries_bounded_def tries_def list_all_iff try_bounded_def COMPLETED_SOURCE_FALLBACK_RETRIES_def)
qed

lemma fallback_reads_bounded_witness:
  "\<exists>c0 c so. live_reach c0 (c :: nat cycle) \<and> source_reads c0 = [] \<and> source_reads c = [(Inject_source, so)] \<and> so_attempt so \<le> 3"
proof -
  let ?c0 = "(upd (\<lambda>o1. o1\<lparr>state := Live_generating, arrived := Some 0\<rparr>) (sample_cycle ''s1''))
    \<lparr>source_timers := [(''a.html'', ''s1'')]\<rparr>"
  let ?so = "(plain_try ''a.html'' ''s1'')\<lparr>so_completed := True\<rparr>"
  have reach: "live_reach ?c0 (source_timer_due 0 sample_stage ?c0)" by (rule live_reach.there [OF live_reach.here live_step.Source_timer])
  have path: "\<not> manifest_path (Some ''a.html'')" "\<not> is_jsx_source_file ''a.html''" by code_simp+
  have "source_reads (source_timer_due 0 sample_stage ?c0) = [(Inject_source, ?so)]"
    using path by (simp add: source_timer_due_def all_arrived_def num_le_def inject_source_def plain_try_def)
  with fallback_reads_bounded [OF reach] reach show ?thesis by (intro exI [of _ ?c0] exI) auto
qed

text \<open>Showing a variant of a wrapper leaves the session as it is, but for the values of the parameters.\<close>

lemma refresh_params_keeps [simp]:
  "visible (ov (refresh_params sg c)) = visible (ov c)" "arrived (ov (refresh_params sg c)) = arrived (ov c)"
  "svelte (ov (refresh_params sg c)) = svelte (ov c)" "state (ov (refresh_params sg c)) = state (ov c)"
  "selecting (refresh_params sg c) = selecting c"
  by (simp_all add: refresh_params_def apply_param_defaults_def update_stylesheet_def Let_def)

lemma update_stylesheet_keeps [simp]: "ov (update_stylesheet i n c) = ov c" "selecting (update_stylesheet i n c) = selecting c"
  by (simp_all add: update_stylesheet_def)

lemma save_keeps [simp]:
  "visible (save_session pg o1) = visible o1" "arrived (save_session pg o1) = arrived o1"
  "svelte (save_session pg o1) = svelte o1" "state (save_session pg o1) = state o1"
  by (simp_all add: save_session_def set_live_def)

lemma queue_keeps [simp]: "visible (queue_checkpoint r o1) = visible o1"
  by (simp add: queue_checkpoint_def)

lemma update_selected_keeps [simp]:
  "visible (ov (update_selected sg c)) = visible (ov c)" "arrived (ov (update_selected sg c)) = arrived (ov c)"
  by (simp_all add: update_selected_def Let_def split: option.split)

lemma bar_in_range:
  assumes "arrived (ov d) = Some a" "visible (ov d) = Some m" "1 \<le> m" "m \<le> a"
  shows "rec (ov (show_cycling_bar d)) = rec (ov d)" "visible (ov (show_cycling_bar d)) = Some m"
    "arrived (ov (show_cycling_bar d)) = Some a" "svelte (ov (show_cycling_bar d)) = svelte (ov d)"
    "selecting (show_cycling_bar d) = selecting d"
proof -
  have "pos_num (arrived (ov d))" using assms by (simp add: pos_num_def num_less_def)
  from show_cycling_bar_full [OF this] assms show
    "rec (ov (show_cycling_bar d)) = rec (ov d)" "visible (ov (show_cycling_bar d)) = Some m"
    "arrived (ov (show_cycling_bar d)) = Some a" "svelte (ov (show_cycling_bar d)) = svelte (ov d)"
    "selecting (show_cycling_bar d) = selecting d" by (simp_all add: num_less_def)
qed

lemma selection_of_wrapper:
  assumes "svelte (ov s) = None" "arrived (ov s) = Some a" "visible (ov s) = Some n" "1 \<le> n" "n \<le> a"
    and "selecting s = Some (Showing (Some n) (Some v) reason)" "1 \<le> v" "v \<le> a"
  shows "\<exists>t ok. show_variant sg (cid s) (Some n) For_selection s = (Some ok, t) \<and>
    selecting (selection_shown sg ok t) = None \<and> cid (selection_shown sg ok t) = cid s \<and>
    visible (ov (selection_shown sg ok t)) = (if wrapper_for (cid s) (sg_page sg) \<noteq> None then Some n else Some v)"
proof (cases "wrapper_for (cid s) (sg_page sg)")
  case (Some w)
  let ?t = "refresh_params sg (update_stylesheet (cid s) (Some n) s)"
  have "show_variant sg (cid s) (Some n) For_selection s = (Some True, ?t)"
    using assms(1) Some by (simp add: show_variant_def component_of_def)
  moreover have "arrived (ov (update_selected sg ?t)) = Some a" "visible (ov (update_selected sg ?t)) = Some n"
    using assms by simp_all
  from bar_in_range [OF this assms(4,5)] Some assms
  have "selecting (selection_shown sg True ?t) = None \<and> cid (selection_shown sg True ?t) = cid s \<and>
      visible (ov (selection_shown sg True ?t)) = Some n"
    by (simp add: selection_shown_def Let_def)
  ultimately show ?thesis using Some by auto
next
  case None
  let ?b = "upd (\<lambda>o1. o1\<lparr>visible := Some v\<rparr>) s"
  have "show_variant sg (cid s) (Some n) For_selection s = (Some False, s)"
    "show_variant sg (cid s) (Some v) For_selection ?b = (Some False, ?b)"
    using assms(1) None by (simp_all add: show_variant_def component_of_def)
  moreover have "arrived (ov (?b\<lparr>selecting := Some Restoring\<rparr>)) = Some a" "visible (ov (?b\<lparr>selecting := Some Restoring\<rparr>)) = Some v"
    using assms by simp_all
  from bar_in_range [OF this assms(7,8)] None assms calculation(2)
  have "selecting (selection_shown sg False s) = None \<and> cid (selection_shown sg False s) = cid s \<and>
      visible (ov (selection_shown sg False s)) = Some v"
    by (simp add: selection_shown_def Let_def selection_restored_def)
  ultimately show ?thesis using None by auto
qed

text \<open>
  Choosing another variant settles: with the wrapper on the page the chosen variant is shown,
  without it the one before is shown again; in both cases the session is the same and a new choice is
  free to start.
\<close>

theorem choosing_settles:
  assumes "\<not> apply_busy c" "selecting c = None" "truthy_str (cid c)" "svelte (ov c) = None"
    and "arrived (ov c) = Some a" "visible (ov c) = Some v" "1 \<le> v" "v \<le> a" "1 \<le> n" "n \<le> a" "n \<noteq> v"
  shows "selecting (select_variant sg (Some n) reason c) = None \<and>
    cid (select_variant sg (Some n) reason c) = cid c \<and>
    visible (ov (select_variant sg (Some n) reason c)) =
      (if wrapper_for (cid c) (sg_page sg) \<noteq> None then Some n else Some v)"
proof -
  let ?c1 = "upd (\<lambda>o1. o1\<lparr>visible := Some n\<rparr>) (c\<lparr>selecting := Some (Showing (Some n) (Some v) reason)\<rparr>)"
  let ?c2 = "save sg (show_cycling_bar ?c1)"
  have start: "arrived (ov ?c1) = Some a" "visible (ov ?c1) = Some n" using assms by simp_all
  have c2: "svelte (ov ?c2) = None" "arrived (ov ?c2) = Some a" "visible (ov ?c2) = Some n"
    "selecting ?c2 = Some (Showing (Some n) (Some v) reason)" "cid ?c2 = cid c"
    using bar_in_range [OF start assms(9,10)] assms by simp_all
  obtain t ok where t: "show_variant sg (cid ?c2) (Some n) For_selection ?c2 = (Some ok, t)"
    "selecting (selection_shown sg ok t) = None" "cid (selection_shown sg ok t) = cid ?c2"
    "visible (ov (selection_shown sg ok t)) = (if wrapper_for (cid ?c2) (sg_page sg) \<noteq> None then Some n else Some v)"
    using selection_of_wrapper [OF c2(1-3) assms(9,10) c2(4) assms(7,8)] by blast
  have "select_variant sg (Some n) reason c = (case show_variant sg (cid ?c2) (Some n) For_selection ?c2 of (done, c3) \<Rightarrow>
      case done of None \<Rightarrow> c3 | Some shown \<Rightarrow> selection_shown sg shown c3)"
    using assms(1,2,5,6,9-11) by (simp add: select_variant_def num_less_def num_eq_def Let_def)
  then have "select_variant sg (Some n) reason c = selection_shown sg ok t" unfolding t(1) by simp
  with t(2-4) c2(5) show ?thesis by simp
qed

lemma choosing_settles_witness:
  "visible (ov (select_variant sample_stage (Some 3) None (sample_cycle ''s7''))) = Some 3 \<and>
   visible (ov (select_variant sample_stage (Some 3) None (sample_cycle ''s1''))) = Some 2"
proof -
  have "wrapper_for (Some ''s7'') sample_page \<noteq> None" "wrapper_for (Some ''s1'') sample_page = None"
    by (simp_all add: wrapper_for_def sample_page_def truthy_str_def opt_str_def pick_populated_def)
  then show ?thesis
    using choosing_settles [of "sample_cycle ''s7''" 3 2 3 sample_stage None]
      choosing_settles [of "sample_cycle ''s1''" 3 2 3 sample_stage None]
    by (simp add: sample_stage_def truthy_str_def opt_str_def)
qed

definition posted :: "'e cycle \<Rightarrow> 'e cycle \<Rightarrow> json list" where
  "posted c c' = List.map_filter (\<lambda>n. case n of Post p \<Rightarrow> Some p | _ \<Rightarrow> None) (drop (length (notices c)) (notices c'))"

text \<open>
  What is accepted is what is seen. A request to accept is made for the current session, once it has
  a variant, and names the variant the page displays, or the chosen one where the page displays none;
  the session is then being saved and no second accept starts while its answer is out.
\<close>

theorem accept_names_the_shown_variant:
  assumes "\<not> apply_busy c" and "notices (handle_accept sg now c) \<noteq> notices c"
  shows "\<exists>i. cid c = Some i \<and> arrived (ov c) \<noteq> Some 0 \<and>
    (\<exists>p. notices (handle_accept sg now c) = notices c @ [Post p] \<and>
       json_get ''type'' p = Some (JStr ''accept'') \<and> json_get ''id'' p = Some (JStr i) \<and>
       json_get ''variantId'' p = Some (JStr (num_text
         (let d = read_visible_from_dom sg (cid c) c in if 0 < d then Some d else visible (ov c))))) \<and>
    state (ov (handle_accept sg now c)) = Live_saving \<and>
    handle_accept sg later (handle_accept sg now c) = handle_accept sg now c"
proof -
  let ?d = "read_visible_from_dom sg (cid c) c"
  let ?c1 = "if 0 < ?d then upd (\<lambda>o1. o1\<lparr>visible := Some ?d\<rparr>) c else c"
  have c1: "cid ?c1 = cid c" "arrived (ov ?c1) = arrived (ov c)" "notices ?c1 = notices c" by simp_all
  have now: "handle_accept sg now c = accept_now sg now c" "accepting c = None" "selecting c = None"
    using assms by (auto simp: handle_accept_def split: if_splits)
  have go: "truthy_str (cid c)" "arrived (ov c) \<noteq> Some 0"
    using assms(2) unfolding now(1) by (auto simp: accept_now_def Let_def split: if_splits)
  then obtain i where i: "cid c = Some i" by (cases "cid c") (auto simp: truthy_str_def opt_str_def)
  let ?c' = "handle_accept sg now c"
  have c': "notices ?c' = notices c @ [Post (accept_payload sg now ?c1)]" "state (ov ?c') = Live_saving" "accepting ?c' \<noteq> None"
    "apply_busy ?c' = apply_busy c"
    using go unfolding now(1) by (auto simp: accept_now_def Let_def set_state_def notify_def upd_def save_session_def set_live_def)
  then have "handle_accept sg later ?c' = ?c'" using assms(1) by (simp add: handle_accept_def)
  with i go c' show ?thesis by (auto simp: accept_payload_def opt_str_def Let_def)
qed

lemma accept_names_the_shown_variant_witness:
  "\<exists>p. notices (handle_accept sample_stage 7 (sample_cycle ''s7'')) = [Post p] \<and>
     json_get ''id'' p = Some (JStr ''s7'') \<and> json_get ''variantId'' p = Some (JStr ''2'')"
proof -
  have w: "wrapper_for (Some ''s7'') sample_page \<noteq> None"
    by (simp add: wrapper_for_def sample_page_def truthy_str_def opt_str_def pick_populated_def)
  then have d: "read_visible_from_dom sample_stage (Some ''s7'') (sample_cycle ''s7'') = 2"
    by (auto simp: read_visible_from_dom_def sample_stage_def)
  have "notices (handle_accept sample_stage 7 (sample_cycle ''s7'')) \<noteq> notices (sample_cycle ''s7'')"
    by (simp add: handle_accept_def accept_now_def d truthy_str_def opt_str_def Let_def)
  moreover have "num_text (Some 2) = ''2''" by code_simp
  ultimately show ?thesis
    using accept_names_the_shown_variant [of "sample_cycle ''s7''" sample_stage 7 8] d by auto
qed


text \<open>Hiding the bar keeps a session that has variants or is not being compared.\<close>

lemma hide_bar_keeps:
  assumes "state (ov c) \<noteq> Live_cycling \<or> pos_num (arrived (ov c))"
  shows "rec (ov (hide_bar b c)) = rec (ov c)" "state (ov (hide_bar b c)) = state (ov c)"
proof -
  have s: "state (ov (hide_bar_start b c)) = state (ov c)" "arrived (ov (hide_bar_start b c)) = arrived (ov c)"
    by (simp_all add: hide_bar_start_def Let_def finalize_insert_def)
  show "rec (ov (hide_bar b c)) = rec (ov c)" "state (ov (hide_bar b c)) = state (ov c)"
    using assms show_cycling_bar_full(2,3) [of "hide_bar_start b c"]
    by (simp_all add: hide_bar_def Let_def redraws_def s)
qed

lemma hide_bar_sse [simp]: "sse_open (hide_bar b c) = sse_open c"
proof -
  have start: "sse_open (hide_bar_start b d) = sse_open d" for b and d :: "'a cycle"
    by (simp add: hide_bar_start_def Let_def finalize_insert_def)
  have inner: "sse_open (hide_bar_in b d) = sse_open d" for b and d :: "'a cycle"
    by (simp add: hide_bar_in_def Let_def clamp_visible_def start)
  have cleaned: "sse_open (cleanup_in b d) = sse_open d" for b and d :: "'a cycle"
    by (simp add: cleanup_in_def cleanup_end_def set_state_def clear_scroll_def Let_def finalize_insert_def inner
        cleanup_start_def teardown_component_def)
  have "sse_open (show_cycling_bar d) = sse_open d" for d :: "'a cycle"
    by (simp add: show_cycling_bar_def ensure_cycling_renderable_def Let_def clamp_visible_def recover_empty_cycling_def
        cleaned reset_svelte_session_def inner set_state_def teardown_component_def)
  then show ?thesis by (simp add: hide_bar_def Let_def start)
qed

lemma errors_counted:
  "sse_open c \<Longrightarrow> sse_retries c = 0 \<Longrightarrow> n \<le> 20 \<Longrightarrow> (sse_error sg ^^ n) c = c\<lparr>sse_retries := n\<rparr>"
  by (induction n) (simp_all add: sse_error_def SSE_MAX_RETRIES_def)

text \<open>
  C39: Losing the server loses no work. Twenty errors of the event stream in a row change nothing but
  their count; the next one closes the stream for good, and the session in hand stays: the same
  id, the same state, the same handled ids, and it is saved once more.
\<close>

theorem outage_keeps_the_session:
  assumes "sse_open c" "sse_retries c = 0" "truthy_str (cid c)"
    and "state (ov c) \<noteq> Live_cycling \<or> pos_num (arrived (ov c))"
  shows "(n \<le> 20 \<longrightarrow> (sse_error sg ^^ n) c = c\<lparr>sse_retries := n\<rparr>) \<and>
    (20 < n \<longrightarrow> (\<exists>c'. (sse_error sg ^^ n) c = c' \<and> \<not> sse_open c' \<and> cid c' = cid c \<and> state (ov c') = state (ov c) \<and>
      observing c' = None \<and> (\<forall>j. is_handled j (lives (ov c')) = is_handled j (lives (ov c))) \<and>
      (\<exists>o1. current o1 = cid c \<and> state o1 = state (ov c) \<and> ov c' = save_session (sg_page sg) o1)))"
proof (intro conjI)
  show "n \<le> 20 \<longrightarrow> (sse_error sg ^^ n) c = c\<lparr>sse_retries := n\<rparr>" using errors_counted [OF assms(1,2)] by simp
  let ?lost = "server_lost sg (c\<lparr>sse_retries := 21, sse_open := False\<rparr>)"
  let ?c1 = "if state (ov c) \<in> {Live_generating, Live_cycling, Live_saving}
    then notify [Toast (''Live server connection lost. Your session is saved; reopen this page or '' @
      ''restart live-poll.mjs to continue.'')] (c\<lparr>sse_retries := 21, sse_open := False\<rparr>) else c\<lparr>sse_retries := 21, sse_open := False\<rparr>"
  have c1: "ov ?c1 = ov c" "\<not> sse_open ?c1" by simp_all
  have h: "rec (ov (hide_bar False ?c1)) = rec (ov c)" "state (ov (hide_bar False ?c1)) = state (ov c)"
    using hide_bar_keeps [of ?c1 False] assms(4) c1 by simp_all
  let ?o = "(ov (hide_bar False ?c1))\<lparr>selected := None, sel_action := JStr ''impeccable'', state := state (ov c)\<rparr>"
  have lost: "ov ?lost = save_session (sg_page sg) ?o" "\<not> sse_open ?lost" "observing ?lost = None"
    using assms(3) h c1(2) by (simp_all add: server_lost_def Let_def set_state_def)
  then have kept: "cid ?lost = cid c \<and> state (ov ?lost) = state (ov c) \<and>
      (\<forall>j. is_handled j (lives (ov ?lost)) = is_handled j (lives (ov c)))"
    using h by simp
  have last: "(sse_error sg ^^ 21) c = ?lost"
  proof -
    have "(sse_error sg ^^ Suc 20) c = sse_error sg (c\<lparr>sse_retries := 20\<rparr>)"
      using errors_counted [OF assms(1,2), of 20 sg] by (simp only: funpow.simps comp_apply)
    then show ?thesis using assms(1) by (simp add: sse_error_def SSE_MAX_RETRIES_def)
  qed
  have closed: "\<not> sse_open d \<Longrightarrow> sse_error sg d = d" for d by (simp add: sse_error_def)
  have "(sse_error sg ^^ (21 + m)) c = ?lost" for m
  proof (induction m)
    case 0
    show ?case using last by simp
  next
    case (Suc m)
    have "21 + Suc m = Suc (21 + m)" by simp
    then have "(sse_error sg ^^ (21 + Suc m)) c = sse_error sg ((sse_error sg ^^ (21 + m)) c)"
      by (simp only: funpow.simps comp_apply)
    with Suc closed lost(2) show ?case by simp
  qed
  then have "(sse_error sg ^^ n) c = ?lost" if "20 < n" using that le_iff_add [of 21 n] by auto
  with lost kept h show "20 < n \<longrightarrow> (\<exists>c'. (sse_error sg ^^ n) c = c' \<and> \<not> sse_open c' \<and> cid c' = cid c \<and> state (ov c') = state (ov c) \<and>
      observing c' = None \<and> (\<forall>j. is_handled j (lives (ov c')) = is_handled j (lives (ov c))) \<and>
      (\<exists>o1. current o1 = cid c \<and> state o1 = state (ov c) \<and> ov c' = save_session (sg_page sg) o1))"
    by (intro impI exI [of _ ?lost] conjI) (auto intro!: exI [of _ ?o])
qed

lemma outage_keeps_the_session_witness:
  "(sse_error sample_stage ^^ 20) (sample_cycle ''s1'') = (sample_cycle ''s1'')\<lparr>sse_retries := 20\<rparr> \<and>
   \<not> sse_open ((sse_error sample_stage ^^ 21) (sample_cycle ''s1'')) \<and>
   cid ((sse_error sample_stage ^^ 21) (sample_cycle ''s1'')) = Some ''s1''"
  using outage_keeps_the_session [of "sample_cycle ''s1''" 20 sample_stage]
    outage_keeps_the_session [of "sample_cycle ''s1''" 21 sample_stage]
  by (auto simp: truthy_str_def opt_str_def pos_num_def num_less_def)

text \<open>
  A component that fails to mount is reported and explained, and never looks like a comparison: the
  session keeps its id and its state, the card names it, the half-built preview is taken down, and
  the same failure is not reported twice in a row.
\<close>

theorem failed_mount_keeps_session:
  assumes "k < length (mounts c)" "mounts c ! k = mt" "mt_failed mt = Some url" "mt_use mt = For_injection"
  shows "cid (mount_explained k message sg c) = cid c \<and> state (ov (mount_explained k message sg c)) = state (ov c) \<and>
    \<not> component_of (Some (mt_session mt)) (mount_explained k message sg c) \<and>
    (mt_session mt \<noteq> [] \<longrightarrow> (\<exists>mc. mount_error (mount_explained k message sg c) = Some mc \<and> mc_session mc = Some (mt_session mt))) \<and>
    report_mount_failed i n u e (report_mount_failed i n u e c) = report_mount_failed i n u e c"
proof (intro conjI)
  let ?d = "show_mount_card (Some (mt_session mt)) (mt_variant mt) url message None (drop_mount k c)"
  have step: "mount_explained k message sg c = abort_injection sg (mt_session mt) None ?d"
    using assms by (simp add: mount_explained_def mount_continue_def Let_def)
  have card: "mount_error ?d \<noteq> None" "mt_session mt \<noteq> [] \<longrightarrow> map_option mc_session (mount_error ?d) = Some (Some (mt_session mt))"
    "rec (ov ?d) = rec (ov c)" "state (ov ?d) = state (ov c)"
    by (simp_all add: show_mount_card_def drop_mount_def or_some_def truthy_str_def opt_str_def)
  have hide: "ov (hide_bar True x) = (if configure_insert x then (ov x)\<lparr>insert_placeholder := None\<rparr> else ov x)"
    "mount_error (hide_bar True x) = mount_error x" for x :: "'a cycle"
    by (simp_all add: hide_bar_def hide_bar_start_def redraws_def Let_def finalize_insert_def)
  show "cid (mount_explained k message sg c) = cid c" "state (ov (mount_explained k message sg c)) = state (ov c)"
    "\<not> component_of (Some (mt_session mt)) (mount_explained k message sg c)"
    "mt_session mt \<noteq> [] \<longrightarrow> (\<exists>mc. mount_error (mount_explained k message sg c) = Some mc \<and> mc_session mc = Some (mt_session mt))"
    using card unfolding step
    by (auto simp: abort_injection_def Let_def hide component_of_def teardown_component_def show_mount_card_def)
  show "report_mount_failed i n u e (report_mount_failed i n u e c) = report_mount_failed i n u e c"
    by (simp add: report_mount_failed_def Let_def notify_def)
qed

lemma failed_mount_keeps_session_witness:
  "\<exists>c :: nat cycle. mounts c \<noteq> [] \<and> cid (mount_explained 0 ''broken'' sample_stage c) = Some ''s1'' \<and>
     mount_error (mount_explained 0 ''broken'' sample_stage c) \<noteq> None"
proof -
  let ?mt = "\<lparr>mt_session = ''s1'', mt_variant = Some 1, mt_use = For_injection, mt_failed = Some ''/v1.svelte''\<rparr>"
  let ?c = "(sample_cycle ''s1'')\<lparr>mounts := [?mt]\<rparr>"
  have "0 < length (mounts ?c)" "mounts ?c ! 0 = ?mt" "mt_failed ?mt = Some ''/v1.svelte''" "mt_use ?mt = For_injection" by simp_all
  from failed_mount_keeps_session [OF this, where message = "''broken''" and sg = sample_stage and i = "''s1''" and n = None and u = "[]" and e = "[]"]
  show ?thesis by (intro exI [of _ ?c]) auto
qed


definition request_of :: "string \<Rightarrow> json \<Rightarrow> bool" where
  "request_of i p \<longleftrightarrow> json_get ''type'' p = Some (JStr ''generate'') \<and> json_get ''id'' p = Some (JStr i)"

lemma omap_foldl_keeps:
  "k \<notin> fst ` set ms \<Longrightarrow> map_of (foldl (\<lambda>m (k, x). omap_set k x m) m0 ms) k = map_of m0 k"
  by (induction ms arbitrary: m0) (auto simp: map_of_omap_set)

text \<open>
  Go starts afresh. From a configured element it makes the new id current in the generating state,
  with no variant arrived or shown, watched by its own observer, no accept of an earlier session
  awaited, and one request to generate under that id is sent or waits for its screenshot.
\<close>

theorem go_starts_fresh:
  assumes "\<not> apply_busy c" "selected (ov c) \<noteq> None" "state (ov c) = Live_configuring"
  shows "cid (handle_go sg g c) = Some (gi_id g) \<and> state (ov (handle_go sg g c)) = Live_generating \<and>
    arrived (ov (handle_go sg g c)) = Some 0 \<and> visible (ov (handle_go sg g c)) = Some 0 \<and>
    observing (handle_go sg g c) = Some (gi_id g) \<and> accepting (handle_go sg g c) = None \<and> awaiting (handle_go sg g c) = None \<and>
    (\<forall>j. is_handled j (lives (ov (handle_go sg g c))) = is_handled j (lives (ov c))) \<and>
    (\<exists>p. request_of (gi_id g) p \<and>
      (if gi_comments g = [] \<and> gi_strokes g = []
       then notices (handle_go sg g c) = notices c @ [Post p] \<and> creations (handle_go sg g c) = creations c @ [gi_id g]
       else notices (handle_go sg g c) = notices c \<and> captures (handle_go sg g c) = captures c @ [p]))"
proof -
  let ?c1 = "upd (\<lambda>o1. o1\<lparr>picked_anchor := gi_snapshot g, anchor_top := Some (gi_top g)\<rparr>) (fresh_session (gi_id g) c)"
  let ?p = "JObj ([(''type'', JStr ''generate''), (''id'', JStr (gi_id g)), (''action'', sel_action (ov ?c1))] @
      opt_text ''freeformPrompt'' (Some (trim (gi_prompt g))) @
      [(''count'', sel_count (ov ?c1)), (''pageUrl'', JStr (pathname (sg_page sg))), (''element'', gi_context g)] @ notes_of g)"
  have go: "handle_go sg g c = start_generating sg g ?p ?c1"
    using assms by (auto simp: handle_go_def Let_def)
  let ?q = "json_with ?p [(''clientSentAt'', JNum (gi_now g))]"
  have fresh: "cid ?c1 = Some (gi_id g)" "arrived (ov ?c1) = Some 0" "visible (ov ?c1) = Some 0" "accepting ?c1 = None"
    "awaiting ?c1 = None" "notices ?c1 = notices c" "creations ?c1 = creations c" "captures ?c1 = captures c"
    "\<And>j. is_handled j (lives (ov ?c1)) = is_handled j (lives (ov c))"
    by (simp_all add: fresh_session_def Let_def reset_session_file_meta_def set_current_def)
  have req: "request_of (gi_id g) ?p" by (simp add: request_of_def)
  then have req': "request_of (gi_id g) ?q"
    using omap_foldl_keeps [of _ "[(''clientSentAt'', JNum (gi_now g))]"] by (simp add: request_of_def json_with_def)
  have id: "Option.bind (json_get ''id'' ?q) json_str = Some (gi_id g)" using req' by (simp add: request_of_def)
  let ?c2 = "(upd (\<lambda>o1. set_live (write_scroll_y (gi_scroll g) (lives o1)) o1)
     (save sg (show_bar (set_state Live_generating ?c1))))\<lparr>observing := Some (gi_id g)\<rparr>"
  have start: "start_generating sg g ?p ?c1 = capture_and_emit g ?p ?c2"
    by (simp only: start_generating_def Let_def)
  have c2: "cid ?c2 = Some (gi_id g)" "state (ov ?c2) = Live_generating" "arrived (ov ?c2) = Some 0" "visible (ov ?c2) = Some 0"
    "observing ?c2 = Some (gi_id g)" "accepting ?c2 = None" "awaiting ?c2 = None" "notices ?c2 = notices c"
    "creations ?c2 = creations c" "captures ?c2 = captures c" "\<And>j. is_handled j (lives (ov ?c2)) = is_handled j (lives (ov c))"
    using fresh by (simp_all add: set_state_def show_bar_def set_live_def save_session_def)
  show ?thesis
  proof (cases "gi_comments g = [] \<and> gi_strokes g = []")
    case True
    then have "handle_go sg g c = emit_generate ?q ?c2" unfolding go start by (simp only: capture_and_emit_def simp_thms if_True)
    with True c2 req' id show ?thesis by (auto simp: emit_generate_def notify_def opt_str_def)
  next
    case False
    then have "handle_go sg g c = ?c2\<lparr>captures := captures ?c2 @ [?p]\<rparr>"
      unfolding go start by (simp only: capture_and_emit_def simp_thms if_False)
    with False c2 req show ?thesis by auto
  qed
qed

definition sample_go :: go_input where
  "sample_go = \<lparr>gi_id = ''s2'', gi_prompt = ''bolder'', gi_context = JObj [], gi_comments = [], gi_strokes = [],
     gi_snapshot = None, gi_top = JNum 10, gi_scroll = ''0'', gi_now = 5\<rparr>"

lemma go_starts_fresh_witness:
  "cid (handle_go sample_stage sample_go (configure 4 (cleanup False (sample_cycle ''s1'')))) = Some ''s2'' \<and>
   creations (handle_go sample_stage sample_go (configure 4 (cleanup False (sample_cycle ''s1'')))) \<noteq> []"
proof -
  let ?c = "configure 4 (cleanup False (sample_cycle ''s1''))"
  have s: "state (ov (cleanup False (sample_cycle ''s1''))) = Live_picking" by (rule cleanup_facts)
  have "\<not> apply_busy (cleanup False (sample_cycle ''s1''))" by code_simp
  with s have "\<not> apply_busy ?c" "selected (ov ?c) \<noteq> None" "state (ov ?c) = Live_configuring"
    by (simp_all add: configure_def set_state_def)
  from go_starts_fresh [OF this, of sample_stage sample_go] show ?thesis by (auto simp: sample_go_def)
qed


section \<open>Where the code does not do what it means to\<close>

text \<open>
  An answer for the manifest of a session that has ended meanwhile enters that session again: neither
  the current session nor the handled ids are looked at.
\<close>

lemma late_manifest_enters:
  assumes "k < length (manifest_reads c)" "manifest_reads c ! k = (file, i)" "json_get ''id'' m = Some (JStr i)"
  shows "cid (manifest_read k m params sg c) = Some i"
proof -
  have enter: "cid (enter_component_session file i m d) = Some i" for d :: "'a cycle"
    by (simp add: enter_component_session_def Let_def set_current_def)
  have shown: "rec (ov (component_counts m d)) = rec (ov d)" "cid (show_first_reachable sg i d) = cid d" for d :: "'a cycle"
    by (simp_all add: component_counts_def Let_def show_first_reachable_def saved_visible_def case_prod_beta)
  have mount: "ov (mount_component i n u d) = ov d" "cid (wait_for_anchor sg r d) = cid d" for d :: "'a cycle" and n u r
    by (simp_all add: mount_component_def wait_for_anchor_def Let_def)
  show ?thesis using assms by (simp add: manifest_read_def Let_def enter shown mount)
qed

text \<open>
  The observer that waits for a component's place survives a discard, and asks for the manifest of the
  discarded session when the place comes: with \<open>late_manifest_enters\<close> that session is back.
\<close>

lemma target_wait_survives_cleanup: "target_wait (cleanup b c) = target_wait c" if "\<not> redraws (hide_bar_start b (cleanup_start c))"
  using that by (simp add: cleanup_def hide_bar_def Let_def cleanup_end_def set_state_def clear_scroll_def finalize_insert_def
      hide_bar_start_def cleanup_start_def teardown_component_def)

lemma discarded_session_comes_back:
  assumes "0 < discard_posts c" "state (ov c) = Live_generating" "target_wait c = Some (file, i)" "svelte (ov c) = None"
    and "sg_target sg" "json_get ''id'' m = Some (JStr i)"
  shows "cid (discard_confirmed c) = None \<and>
    cid (manifest_read (length (manifest_reads c)) m params sg (target_mutation sg (discard_confirmed c))) = Some i"
proof -
  let ?c = "mark_current_handled (c\<lparr>discard_posts := discard_posts c - 1\<rparr>)"
  have d: "discard_confirmed c = cleanup True ?c" using assms(1) by (simp add: discard_confirmed_def)
  have "\<not> redraws (hide_bar_start True x)" for x :: "'a cycle"
    by (simp add: redraws_def hide_bar_start_def Let_def finalize_insert_def)
  from target_wait_survives_cleanup [OF this, of ?c]
  have w: "target_wait (cleanup True ?c) = Some (file, i)" using assms(3) by (simp add: mark_current_handled_def)
  have r: "manifest_reads (cleanup True ?c) = manifest_reads c" and s: "svelte (ov (cleanup True ?c)) = None"
    using assms(4) by (simp_all add: cleanup_def hide_bar_def hide_bar_start_def redraws_def Let_def finalize_insert_def
        cleanup_end_def set_state_def clear_scroll_def cleanup_start_def teardown_component_def mark_current_handled_def
        mark_session_handled_def set_live_def set_current_def clear_session_def reset_session_file_meta_def)
  have "target_mutation sg (cleanup True ?c) = inject_components file i ((cleanup True ?c)\<lparr>target_wait := None\<rparr>)"
    using w s assms(5) by (simp add: target_mutation_def component_of_def)
  then have "manifest_reads (target_mutation sg (cleanup True ?c)) = manifest_reads c @ [(file, i)]"
    using r by (simp add: inject_components_def)
  then have "cid (manifest_read (length (manifest_reads c)) m params sg (target_mutation sg (cleanup True ?c))) = Some i"
    by (intro late_manifest_enters [OF _ _ assms(6)]) simp_all
  with d show ?thesis by (simp add: cleanup_facts)
qed

text \<open>
  A refused accept restores the comparison of whatever session is current. When that is a new one
  without variants yet, the bar finds nothing to show and the new session is ended.
\<close>

lemma late_refusal_ends_new_session:
  assumes "accept_posts c = [i]" "cid c = Some j" "j \<noteq> i" "arrived (ov c) = Some 0"
  shows "cid (accept_refused 0 c) = None \<and> state (ov (accept_refused 0 c)) = Live_picking"
proof -
  have "cid (show_cycling_bar (set_state Live_cycling d)) = None \<and> state (ov (show_cycling_bar (set_state Live_cycling d))) = Live_picking"
    if "arrived (ov d) = Some 0" for d :: "'a cycle"
    using show_cycling_bar_empty [of "set_state Live_cycling d"] that by (simp add: set_state_def pos_num_def num_less_def)
  with assms show ?thesis by (simp add: accept_refused_def Let_def drop_post_def)
qed

text \<open>Two accepts that wait for the same selection are both sent.\<close>

lemma waiting_accepts_both_sent:
  assumes "accept_waits c = 2" "selecting c = None" "accepting c = None" "truthy_str (cid c)" "arrived (ov c) = Some a" "a \<noteq> 0"
  shows "accept_posts (accept_waited sg t2 (accept_waited sg t1 c)) = accept_posts c @ [opt_str (cid c), opt_str (cid c)]"
proof -
  have now: "accept_posts (accept_now sg t d) = accept_posts d @ [opt_str (cid d)]" "cid (accept_now sg t d) = cid d"
    "arrived (ov (accept_now sg t d)) = arrived (ov d)" "selecting (accept_now sg t d) = selecting d"
    "accept_waits (accept_now sg t d) = accept_waits d"
    if "truthy_str (cid d)" "arrived (ov d) = Some a" for t and d :: "'a cycle"
    using that assms(6) by (simp_all add: accept_now_def Let_def set_state_def)
  show ?thesis using assms by (simp add: accept_waited_def now)
qed

text \<open>The first variant that is seen to arrive takes the phase back behind what the agent has reported.\<close>

lemma observer_phase_goes_back:
  "gen_phase (ov (count_variants w c)) = Some (JStr (if num_le (expected (ov c)) (Some (int (wr_variants w)))
     then ''variants_ready'' else ''variants_progress'')) \<and>
   \<not> should_advance_phase ''first_reviewable'' ''variants_progress''"
  by (simp add: count_variants_def Let_def) code_simp

text \<open>Giving up an empty component session forgets every handled session.\<close>

lemma reset_forgets_handled:
  assumes "ls_store (lives (ov c)) \<noteq> None" shows "\<not> is_handled j (lives (ov (reset_svelte_session i m c)))"
proof -
  have wiped: "\<not> is_handled j (clear_handled [] l)" if "ls_store l \<noteq> None" for l
    using that by (auto simp: is_handled_def read_handled_ids_def clear_handled_def safe_remove_def safe_read_def handled_key_def
        session_key_def items.get_del truthy_str_def opt_str_def Let_def)
  have redraw: "redraws (hide_bar_start b (set_state Live_picking d)) = False" for b and d :: "'a cycle"
    by (simp add: redraws_def hide_bar_start_def set_state_def Let_def finalize_insert_def)
  have "ls_store (clear_live_session l) \<noteq> None" if "ls_store l \<noteq> None" for l
    using that by (simp add: clear_live_session_def safe_remove_def split: option.split)
  with wiped assms show ?thesis
    by (simp add: reset_svelte_session_def Let_def hide_bar_in_def redraw set_live_def set_current_def clear_session_def
        reset_session_file_meta_def clear_handled_session_def teardown_component_def)
qed

text \<open>The answer to a discard ends the session that is current when it comes, not the one it was asked for.\<close>

lemma discard_answer_hits_current:
  assumes "0 < discard_posts c" "cid c = Some j" "j \<noteq> []" "is_handled j (mark_handled j (lives (ov c)))"
  shows "cid (discard_confirmed c) = None \<and> is_handled j (lives (ov (discard_confirmed c)))"
  using assms handled_marked [of "c\<lparr>discard_posts := discard_posts c - 1\<rparr>" j]
  by (simp add: discard_confirmed_def cleanup_facts)


text \<open>A source that is read after its session has ended still starts a comparison, of no session.\<close>

lemma show_injected_without_session:
  assumes "cid c = None" "pos_num (arrived (ov c))"
  shows "cid (show_injected sg w v c) = None \<and> state (ov (show_injected sg w v c)) = Live_cycling"
proof -
  have end_kept: "cid (cycling_component sg d) = None \<and> state (ov (cycling_component sg d)) = state (ov d)" if "cid d = None" for d :: "'a cycle"
    using that by (simp add: cycling_component_def complete_if_ready_def complete_parameter_publication_def truthy_str_def opt_str_def
        save_session_def)
  have bar: "cid (show_cycling_bar (set_state Live_cycling d)) = cid d \<and> state (ov (show_cycling_bar (set_state Live_cycling d))) = Live_cycling"
    if "pos_num (arrived (ov d))" for d :: "'a cycle"
    using show_cycling_bar_full(2,3) [of "set_state Live_cycling d"] that by (simp add: set_state_def)
  show ?thesis using assms bar by (simp add: show_injected_def Let_def end_kept)
qed

lemma late_source_compares_nothing:
  assumes "k < length (source_reads c)" "source_reads c ! k = (Inject_source, so)" "cid c = None" "wr_variants w = Suc n"
  shows "cid (source_read k (Some w) True True sg c) = None \<and> state (ov (source_read k (Some w) True True sg c)) = Live_cycling"
proof -
  let ?sg = "put_wrapper (so_session so) w sg"
  have read: "source_read k (Some w) True True sg c = complete_source_injection ?sg w so (drop_read k c)"
    using assms(1,2) by (simp add: source_read_def Let_def)
  have saved: "cid (snd (saved_visible s i d)) = cid d" "arrived (ov (snd (saved_visible s i d))) = arrived (ov d)"
    "svelte (ov (snd (saved_visible s i d))) = svelte (ov d)" for s i and d :: "'a cycle"
    by (simp_all add: saved_visible_def case_prod_beta) (simp_all add: load_session_def case_prod_beta set_live_def Let_def)
  have kept: "arrived (ov (snd (show_variant s i m u d))) = arrived (ov d)" for s i m u and d :: "'a cycle"
    by (auto simp: show_variant_def Let_def split: option.split)
  show ?thesis using assms(3,4) unfolding read
    by (simp add: complete_source_injection_def Let_def case_prod_beta show_injected_without_session saved kept
        pos_num_def num_less_def drop_read_def)
qed


end
