(* ===== verification/LivePage.thy ===== *)
theory LivePage imports Prelude "HOL-Library.Sublist" begin

text \<open>
  The text of the page as the live overlay's copy editor sees it
  (\<open>agent/skills/impeccable/scripts/live-browser.js\<close>, lines 3351 to 3505):
  a tree of nodes, the places of text that can be edited, the spans that are put around the text of mixed
  content and taken away again, and the walk that decides whether the badge of the editor is shown.

  An element is named by its path, the list of positions in \<open>childNodes\<close> from \<open>body\<close>, the root; only the
  root has the tag \<open>body\<close>. The overlay changes the tree in place (a text becomes a span at the same
  position), so that a path names the same element as long as the page's own scripts leave the tree
  alone. Of the attributes and inline styles, those the editor reads or writes are fields.
\<close>

section \<open>Nodes\<close>

record elem =
  nd_tag :: string
  nd_id :: string
  nd_classes :: "string list"
  nd_editable :: "string option"
  nd_wrap :: bool
  nd_marked :: bool
  nd_original :: "string option"
  nd_source_file :: "string option"
  nd_source_loc :: "string option"
  nd_white_space :: string
  nd_user_select :: string
  nd_cursor :: string
  nd_outline :: string

datatype node = Txt string | Cmt | El elem "node list"

type_synonym path = "nat list"

fun node_at :: "path \<Rightarrow> node \<Rightarrow> node option" where
  "node_at [] t = Some t"
| "node_at (i # p) (El e cs) = (if i < length cs then node_at p (cs ! i) else None)"
| "node_at (i # p) _ = None"

fun edit_at :: "path \<Rightarrow> (node \<Rightarrow> node) \<Rightarrow> node \<Rightarrow> node" where
  "edit_at [] f t = f t"
| "edit_at (i # p) f (El e cs) = El e (if i < length cs then cs[i := edit_at p f (cs ! i)] else cs)"
| "edit_at (i # p) f t = t"

fun text_content :: "node \<Rightarrow> string" where
  "text_content (Txt s) = s"
| "text_content Cmt = []"
| "text_content (El e cs) = concat (map text_content cs)"

definition is_txt :: "node \<Rightarrow> bool" where "is_txt t = (case t of Txt _ \<Rightarrow> True | _ \<Rightarrow> False)"
definition is_el :: "node \<Rightarrow> bool" where "is_el t = (case t of El _ _ \<Rightarrow> True | _ \<Rightarrow> False)"

definition nonblank :: "string \<Rightarrow> bool" where "nonblank s = (\<not> list_all white_space s)"

definition nonblank_txt :: "node \<Rightarrow> bool" where
  "nonblank_txt t = (case t of Txt s \<Rightarrow> nonblank s | _ \<Rightarrow> False)"

text \<open>\<open>el.textContent = s\<close>: the empty text leaves no child.\<close>

definition text_nodes :: "string \<Rightarrow> node list" where
  "text_nodes s = (if s = [] then [] else [Txt s])"

definition map_elem :: "(elem \<Rightarrow> elem) \<Rightarrow> node \<Rightarrow> node" where
  "map_elem f t = (case t of El e cs \<Rightarrow> El (f e) cs | _ \<Rightarrow> t)"

definition put_children :: "node list \<Rightarrow> node \<Rightarrow> node" where
  "put_children cs t = (case t of El e _ \<Rightarrow> El e cs | _ \<Rightarrow> t)"

section \<open>Mixed content\<close>

definition MIXED_WRAP_SKIP :: "string list" where
  "MIXED_WRAP_SKIP = [''script'', ''style'', ''template'', ''noscript'', ''svg'', ''code'', ''pre'']"

definition closed_to_edits :: "elem \<Rightarrow> bool" where
  "closed_to_edits e \<longleftrightarrow> nd_tag e \<in> set MIXED_WRAP_SKIP \<or> nd_editable e \<noteq> None"

definition wrap_span :: "string \<Rightarrow> node" where
  "wrap_span s = El \<lparr>nd_tag = ''span'', nd_id = [], nd_classes = [], nd_editable = None, nd_wrap = True, nd_marked = False,
     nd_original = None, nd_source_file = None, nd_source_loc = None, nd_white_space = [], nd_user_select = [],
     nd_cursor = [], nd_outline = []\<rparr> (text_nodes s)"

definition mixed :: "node list \<Rightarrow> bool" where
  "mixed cs \<longleftrightarrow> list_ex nonblank_txt cs \<and> list_ex is_el cs"

fun wrap_mixed :: "node \<Rightarrow> node" and wrap_kids :: "bool \<Rightarrow> node list \<Rightarrow> node list" where
  "wrap_mixed (Txt s) = Txt s"
| "wrap_mixed Cmt = Cmt"
| "wrap_mixed (El e cs) = (if closed_to_edits e then El e cs else El e (wrap_kids (mixed cs) cs))"
| "wrap_kids m [] = []"
| "wrap_kids m (Txt s # cs) = (if m \<and> nonblank s then wrap_span s else Txt s) # wrap_kids m cs"
| "wrap_kids m (Cmt # cs) = Cmt # wrap_kids m cs"
| "wrap_kids m (El e ds # cs) = (if nd_wrap e then El e ds else wrap_mixed (El e ds)) # wrap_kids m cs"

text \<open>\<open>Node.normalize()\<close>: adjacent texts become one, empty ones go, in the whole subtree.\<close>

fun merge_texts :: "node list \<Rightarrow> node list" where
  "merge_texts [] = []"
| "merge_texts (Txt s # cs) =
     (case merge_texts cs of
        Txt r # ds \<Rightarrow> Txt (s @ r) # ds
      | ds \<Rightarrow> if s = [] then ds else Txt s # ds)"
| "merge_texts (c # cs) = c # merge_texts cs"

fun normalize_node :: "node \<Rightarrow> node" where
  "normalize_node (El e cs) = El e (merge_texts (map normalize_node cs))"
| "normalize_node t = t"

definition is_wrap :: "node \<Rightarrow> bool" where
  "is_wrap t = (case t of El e _ \<Rightarrow> nd_wrap e | _ \<Rightarrow> False)"

text \<open>
  The spans below a root become text again; the parent of each is normalized. The code goes through the
  list of spans; what it leaves is given here by recursion.
\<close>

fun unwrap_mixed :: "node \<Rightarrow> node" and unwrap_kids :: "node list \<Rightarrow> node list" where
  "unwrap_mixed (El e cs) =
     El e (if list_ex is_wrap cs then merge_texts (map normalize_node (unwrap_kids cs)) else unwrap_kids cs)"
| "unwrap_mixed (Txt s) = Txt s"
| "unwrap_mixed Cmt = Cmt"
| "unwrap_kids [] = []"
| "unwrap_kids (El e ds # cs) =
     (if nd_wrap e then Txt (text_content (El e ds)) else unwrap_mixed (El e ds)) # unwrap_kids cs"
| "unwrap_kids (c # cs) = c # unwrap_kids cs"

section \<open>The places of text\<close>

definition UI_PREFIX :: string where "UI_PREFIX = ''impeccable-live''"

definition ui_elem :: "elem \<Rightarrow> bool" where "ui_elem e \<longleftrightarrow> starts_with UI_PREFIX (nd_id e)"

text \<open>\<open>own\<close> looks at the element and all above it.\<close>

fun own_at :: "path \<Rightarrow> node \<Rightarrow> bool" where
  "own_at [] (El e cs) = ui_elem e"
| "own_at (i # p) (El e cs) = (ui_elem e \<or> i < length cs \<and> own_at p (cs ! i))"
| "own_at _ _ = False"

definition all_text :: "node list \<Rightarrow> bool" where
  "all_text cs \<longleftrightarrow> cs \<noteq> [] \<and> list_all is_txt cs \<and> list_ex nonblank_txt cs"

text \<open>\<open>inside\<close>: whether an element above belongs to the overlay; \<open>first\<close>: whether this is the element picked.\<close>

fun text_rows :: "bool \<Rightarrow> bool \<Rightarrow> node \<Rightarrow> path list" and rows_in :: "bool \<Rightarrow> nat \<Rightarrow> node list \<Rightarrow> path list" where
  "text_rows inside first (El e cs) =
     (if closed_to_edits e \<or> \<not> first \<and> (inside \<or> ui_elem e) then []
      else (if all_text cs then [[]] else []) @ rows_in (inside \<or> ui_elem e) 0 cs)"
| "text_rows inside first _ = []"
| "rows_in inside i [] = []"
| "rows_in inside i (c # cs) = map (\<lambda>p. i # p) (text_rows inside False c) @ rows_in inside (Suc i) cs"

fun has_text :: "bool \<Rightarrow> bool \<Rightarrow> node \<Rightarrow> bool" where
  "has_text inside first (El e cs) =
     (nd_tag e \<notin> set MIXED_WRAP_SKIP \<and> (first \<or> \<not> (inside \<or> ui_elem e)) \<and>
      (list_ex nonblank_txt cs \<or> list_ex (has_text (inside \<or> ui_elem e) False) cs))"
| "has_text inside first _ = False"

definition has_text_rows :: "path \<Rightarrow> node \<Rightarrow> bool" where
  "has_text_rows p d = (case node_at p d of Some t \<Rightarrow> has_text (own_at (butlast p) d \<and> p \<noteq> []) True t | None \<Rightarrow> False)"

section \<open>Wrapping is undone\<close>

fun separate :: "node list \<Rightarrow> bool" where
  "separate (Txt r # Txt s # cs) \<longleftrightarrow> False"
| "separate (c # cs) \<longleftrightarrow> c \<noteq> Txt [] \<and> separate cs"
| "separate [] \<longleftrightarrow> True"

text \<open>A page as the parser or a framework leaves it: no empty or adjacent texts, no spans of the editor.\<close>

fun tidy :: "node \<Rightarrow> bool" where
  "tidy (El e cs) \<longleftrightarrow> \<not> nd_wrap e \<and> separate cs \<and> list_all tidy cs"
| "tidy _ \<longleftrightarrow> True"

lemma separate_Cons: "separate (c # cs) \<longleftrightarrow> c \<noteq> Txt [] \<and> (is_txt c \<longrightarrow> cs = [] \<or> \<not> is_txt (hd cs)) \<and> separate cs"
  by (cases c; cases cs; cases "hd cs") (auto simp: is_txt_def)

lemma merge_separate: "separate cs \<Longrightarrow> merge_texts cs = cs"
proof (induction cs rule: merge_texts.induct)
  case (2 s cs)
  then show ?case by (cases cs; cases "hd cs") (auto simp: separate_Cons is_txt_def)
qed (auto simp: separate_Cons)

lemma map_same: "(\<And>x. x \<in> set xs \<Longrightarrow> f x = x) \<Longrightarrow> map f xs = xs"
  by (simp add: map_idI)

lemma normalize_tidy: "tidy t \<Longrightarrow> normalize_node t = t"
  by (induction t rule: normalize_node.induct) (auto simp: merge_separate list_all_iff map_same)

lemma text_of_span [simp]: "text_content (wrap_span s) = s" "is_wrap (wrap_span s)" "is_el (wrap_span s)" "\<not> is_txt (wrap_span s)"
  by (simp_all add: wrap_span_def text_nodes_def is_wrap_def is_el_def is_txt_def)

lemma unwrap_span: "unwrap_kids (wrap_span s # cs) = Txt s # unwrap_kids cs"
  by (simp add: wrap_span_def text_nodes_def)

lemma unwrap_tidy: "tidy t \<Longrightarrow> unwrap_mixed t = t" "list_all tidy cs \<Longrightarrow> unwrap_kids cs = cs \<and> \<not> list_ex is_wrap cs"
  by (induction t and cs rule: unwrap_mixed_unwrap_kids.induct) (auto simp: is_wrap_def)

lemma unwrap_wrapped:
  "tidy t \<Longrightarrow> unwrap_mixed (wrap_mixed t) = t"
  "list_all tidy cs \<Longrightarrow> unwrap_kids (wrap_kids m cs) = cs"
proof (induction t and m cs rule: wrap_mixed_wrap_kids.induct)
  case (3 e cs)
  have tidy: "list_all tidy cs" "separate cs" using 3(2) by auto
  have "map normalize_node cs = cs" using tidy(1) by (auto simp: list_all_iff normalize_tidy map_same)
  moreover have "unwrap_kids cs = cs \<and> \<not> list_ex is_wrap cs" using unwrap_tidy(2) tidy(1) by simp
  ultimately show ?case using 3 tidy by (auto simp: merge_separate)
qed (auto simp: unwrap_span)

lemma text_wrapped [simp]:
  "text_content (wrap_mixed t) = text_content t" "concat (map text_content (wrap_kids m cs)) = concat (map text_content cs)"
  by (induction t and m cs rule: wrap_mixed_wrap_kids.induct) auto

text \<open>
  Opening an element for editing changes no text and can be undone: the spans around the text of
  mixed content leave what the page says as it is, and taking them away gives back exactly the tree
  that was there, if the page had no empty or adjacent texts.
\<close>

theorem wrapping_is_undone:
  "text_content (wrap_mixed t) = text_content t \<and> (tidy t \<longrightarrow> unwrap_mixed (wrap_mixed t) = t)"
  by (simp add: unwrap_wrapped(1))

definition plain_elem :: "string \<Rightarrow> elem" where
  "plain_elem tag = \<lparr>nd_tag = tag, nd_id = [], nd_classes = [], nd_editable = None, nd_wrap = False, nd_marked = False,
     nd_original = None, nd_source_file = None, nd_source_loc = None, nd_white_space = [], nd_user_select = [],
     nd_cursor = [], nd_outline = []\<rparr>"

definition sample_text :: node where
  "sample_text = El (plain_elem ''p'') [Txt ''Read '', El (plain_elem ''code'') [Txt ''x''], Txt '' now'']"

lemma wrapping_is_undone_witness:
  "wrap_mixed sample_text \<noteq> sample_text \<and> unwrap_mixed (wrap_mixed sample_text) = sample_text"
proof -
  have "tidy sample_text" by (simp add: sample_text_def plain_elem_def)
  moreover have "wrap_mixed sample_text \<noteq> sample_text"
    by (simp add: sample_text_def plain_elem_def closed_to_edits_def mixed_def nonblank_txt_def nonblank_def is_el_def
        MIXED_WRAP_SKIP_def wrap_span_def white_space_def)
  ultimately show ?thesis using wrapping_is_undone [of sample_text] by simp
qed

section \<open>The badge\<close>

fun editor_text :: "node \<Rightarrow> bool" where
  "editor_text (El e cs) \<longleftrightarrow> \<not> nd_wrap e \<and> nd_editable e = None \<and> list_all editor_text cs"
| "editor_text (Txt s) \<longleftrightarrow> True"
| "editor_text Cmt \<longleftrightarrow> False"

lemma span_rows: "nonblank s \<Longrightarrow> text_rows False False (wrap_span s) = [[]]"
  by (cases s) (auto simp: wrap_span_def text_nodes_def closed_to_edits_def MIXED_WRAP_SKIP_def ui_elem_def UI_PREFIX_def
      starts_with_def all_text_def is_txt_def nonblank_txt_def nonblank_def)

lemma text_rows_blocked: "text_rows True False t = []" by (cases t) simp_all

lemma rows_in_blocked: "rows_in True i cs = []"
  by (induction cs arbitrary: i) (simp_all add: text_rows_blocked)

lemma rows_in_nonempty: "rows_in u i cs \<noteq> [] \<longleftrightarrow> (\<exists>c \<in> set cs. text_rows u False c \<noteq> [])"
  by (induction cs arbitrary: i) auto

lemma wrap_kids_True:
  "editor_text (El e cs) \<Longrightarrow> list_ex nonblank_txt cs \<Longrightarrow> \<exists>c \<in> set (wrap_kids True cs). text_rows False False c \<noteq> []"
proof (induction cs)
  case (Cons c cs)
  show ?case
  proof (cases "nonblank_txt c")
    case True
    then obtain s where "c = Txt s" "nonblank s" by (cases c) (auto simp: nonblank_txt_def)
    then show ?thesis using span_rows by auto
  next
    case False
    with Cons show ?thesis by (cases c) auto
  qed
qed simp

lemma wrap_kids_els: "editor_text (El e cs) \<Longrightarrow>
   set (wrap_kids False cs) = wrap_mixed ` set cs"
proof (induction cs)
  case (Cons c cs)
  then show ?case by (cases c) auto
qed simp

lemma wrap_el: "list_ex is_el cs \<Longrightarrow> \<not> list_all is_txt (wrap_kids m cs)"
proof (induction cs)
  case (Cons c cs)
  then show ?case by (cases c) (auto simp: is_el_def is_txt_def)
qed simp

lemma has_text_wrapped:
  "editor_text t \<Longrightarrow> (first \<Longrightarrow> \<not> u \<and> (\<forall>e cs. t = El e cs \<longrightarrow> \<not> ui_elem e)) \<Longrightarrow>
   has_text u first t \<longleftrightarrow> text_rows u first (wrap_mixed t) \<noteq> []"
proof (induction t arbitrary: u first)
  case (El e cs)
  have kids: "\<And>c. c \<in> set cs \<Longrightarrow> editor_text c" using El.prems(1) by (simp add: list_all_iff)
  have shut: "closed_to_edits e \<longleftrightarrow> nd_tag e \<in> set MIXED_WRAP_SKIP" using El.prems(1) by (simp add: closed_to_edits_def)
  show ?case
  proof (cases "nd_tag e \<in> set MIXED_WRAP_SKIP \<or> u \<or> ui_elem e")
    case True
    then show ?thesis using El.prems(2) by (cases first) (auto simp: shut)
  next
    case False
    have IH: "has_text False False c \<longleftrightarrow> text_rows False False (wrap_mixed c) \<noteq> []" if "c \<in> set cs" for c
      using El.IH [OF that kids [OF that]] by simp
    have l: "has_text u first (El e cs) \<longleftrightarrow> list_ex nonblank_txt cs \<or> (\<exists>c \<in> set cs. has_text False False c)"
      using False by (auto simp: list_ex_iff)
    have r: "text_rows u first (wrap_mixed (El e cs)) \<noteq> [] \<longleftrightarrow> all_text (wrap_kids (mixed cs) cs) \<or>
        (\<exists>c \<in> set (wrap_kids (mixed cs) cs). text_rows False False c \<noteq> [])"
      using False by (simp add: shut rows_in_nonempty)
    show ?thesis
    proof (cases "list_ex nonblank_txt cs")
      case True
      show ?thesis
      proof (cases "list_ex is_el cs")
        case True
        with \<open>list_ex nonblank_txt cs\<close> have "mixed cs" by (simp add: mixed_def)
        then show ?thesis using l r wrap_kids_True [OF El.prems(1)] \<open>list_ex nonblank_txt cs\<close> by simp
      next
        case False
        then have texts: "list_all is_txt cs"
          using kids by (force simp: list_all_iff list_ex_iff is_el_def is_txt_def split: node.splits)
        have same: "wrap_kids m ds = ds" if "list_all is_txt ds" "\<not> m" for m ds
          using that by (induction ds) (auto simp: is_txt_def split: node.splits)
        have "\<not> mixed cs" using False by (simp add: mixed_def)
        with same texts True have "all_text (wrap_kids (mixed cs) cs)" by (cases cs) (auto simp: all_text_def)
        then show ?thesis using l r True by simp
      qed
    next
      case blank: False
      then have "\<not> mixed cs" by (simp add: mixed_def)
      then have kidset: "set (wrap_kids (mixed cs) cs) = wrap_mixed ` set cs" using wrap_kids_els [OF El.prems(1)] by simp
      have "nonblank_txt (wrap_mixed c) \<longleftrightarrow> nonblank_txt c" for c by (cases c) (auto simp: nonblank_txt_def)
      then have "\<not> all_text (wrap_kids (mixed cs) cs)"
        using blank kidset by (auto simp: all_text_def list_ex_iff)
      then show ?thesis using l r blank kidset IH by auto
    qed
  qed
qed simp_all

lemma own_above: "own_at (butlast p) d \<Longrightarrow> node_at p d = Some t \<Longrightarrow> is_el t \<Longrightarrow> own_at p d"
proof (induction p d rule: node_at.induct)
  case (2 i p e cs)
  then show ?case by (cases p; cases "cs ! i") (auto split: if_splits simp: is_el_def)
qed auto

lemma own_here: "ui_elem e \<Longrightarrow> node_at p d = Some (El e cs) \<Longrightarrow> own_at p d"
  by (induction p d rule: node_at.induct) (auto split: if_splits)

text \<open>
  The badge offers editing exactly where there is something to edit. For an element that is not the
  overlay's, without comments, nested editors or spans of the editor below it, \<open>hasTextRows\<close> says yes if
  and only if opening it for editing makes at least one place of text editable.
\<close>

theorem badge_iff_rows:
  assumes "node_at p d = Some t" "is_el t" "editor_text t" "\<not> own_at p d"
  shows "has_text_rows p d \<longleftrightarrow> text_rows (own_at (butlast p) d \<and> p \<noteq> []) True (wrap_mixed t) \<noteq> []"
proof -
  have "\<not> own_at (butlast p) d" using own_above [OF _ assms(1,2)] assms(4) by blast
  moreover have "\<forall>e cs. t = El e cs \<longrightarrow> \<not> ui_elem e" using own_here assms(1,4) by blast
  ultimately show ?thesis using has_text_wrapped [OF assms(3), of True False] by (simp add: has_text_rows_def assms(1))
qed

lemma badge_iff_rows_witness:
  "has_text_rows [0] (El (plain_elem ''body'') [sample_text]) \<and>
   text_rows False True (wrap_mixed sample_text) = [[0], [2]]"
proof -
  let ?d = "El (plain_elem ''body'') [sample_text]"
  have 1: "node_at [0] ?d = Some sample_text" by simp
  have 2: "is_el sample_text" "editor_text sample_text" by (simp_all add: sample_text_def is_el_def plain_elem_def)
  have 3: "\<not> own_at [0] ?d" by code_simp
  have 4: "text_rows (own_at (butlast [0]) ?d \<and> [0] \<noteq> []) True (wrap_mixed sample_text) = [[0], [2]]" by code_simp
  have "text_rows False True (wrap_mixed sample_text) = [[0], [2]]" by code_simp
  with badge_iff_rows [OF 1 2 3] 4 show ?thesis by simp
qed

text \<open>A comment beside the text, or an editor of the page: the badge is shown, and nothing can be edited.\<close>

lemma comment_hides_text:
  "has_text_rows [] (El (plain_elem ''p'') [Cmt, Txt ''hello'']) \<and>
   text_rows False True (wrap_mixed (El (plain_elem ''p'') [Cmt, Txt ''hello''])) = []"
  by code_simp

lemma editor_hides_text:
  "has_text_rows [] (El (plain_elem ''p'' \<lparr>nd_editable := Some []\<rparr>) [Txt ''hello'']) \<and>
   text_rows False True (wrap_mixed (El (plain_elem ''p'' \<lparr>nd_editable := Some []\<rparr>) [Txt ''hello''])) = []"
  by code_simp

section \<open>Changes in place\<close>

lemma node_at_edit: "node_at p (edit_at p f t) = map_option f (node_at p t)"
  by (induction p f t rule: edit_at.induct) auto

lemma node_at_append: "node_at (p @ q) t = Option.bind (node_at p t) (node_at q)"
  by (induction p t rule: node_at.induct) auto

lemma edit_at_append: "edit_at (p @ q) f t = edit_at p (edit_at q f) t"
  by (induction p "edit_at q f" t rule: edit_at.induct) auto

lemma edit_twice: "edit_at p f (edit_at p g t) = edit_at p (f \<circ> g) t"
  by (induction p g t rule: edit_at.induct) auto

lemma edit_same: "(\<And>x. node_at p t = Some x \<Longrightarrow> f x = x) \<Longrightarrow> edit_at p f t = t"
  by (induction p f t rule: edit_at.induct) (auto simp: list_update_same_conv)

lemma edit_cong: "(\<And>x. node_at p t = Some x \<Longrightarrow> f x = g x) \<Longrightarrow> edit_at p f t = edit_at p g t"
  by (induction p f t rule: edit_at.induct) auto

definition unrelated :: "path \<Rightarrow> path \<Rightarrow> bool" where
  "unrelated p q \<longleftrightarrow> \<not> prefix p q \<and> \<not> prefix q p"

lemma unrelated_sym: "unrelated p q = unrelated q p"
  by (auto simp: unrelated_def)

lemma unrelated_Cons [simp]: "unrelated (i # p) (j # q) \<longleftrightarrow> i \<noteq> j \<or> unrelated p q"
  by (auto simp: unrelated_def)

lemma unrelated_Nil [simp]: "\<not> unrelated [] q" "\<not> unrelated p []"
  by (simp_all add: unrelated_def)

lemma node_at_other: "unrelated p q \<Longrightarrow> node_at p (edit_at q f t) = node_at p t"
proof (induction p arbitrary: q t)
  case (Cons i p)
  then obtain j r where q: "q = j # r" by (cases q) auto
  with Cons show ?case by (cases t) (auto simp: nth_list_update)
qed simp

lemma edit_commute: "unrelated p q \<Longrightarrow> edit_at p f (edit_at q g t) = edit_at q g (edit_at p f t)"
proof (induction p arbitrary: q t)
  case (Cons i p)
  then obtain j r where q: "q = j # r" by (cases q) auto
  show ?case
  proof (cases t)
    case (El e cs)
    with Cons q show ?thesis by (cases "i = j") (auto simp: list_update_swap)
  qed (simp_all add: q)
qed simp

text \<open>A page without what is at the paths of a list: two pages that agree off the list and at it are one.\<close>

definition erase :: "path list \<Rightarrow> node \<Rightarrow> node" where
  "erase ps t = foldl (\<lambda>x q. edit_at q (\<lambda>_. Cmt) x) t ps"

definition apart :: "path list \<Rightarrow> bool" where
  "apart ps \<longleftrightarrow> distinct ps \<and> (\<forall>p \<in> set ps. \<forall>q \<in> set ps. p \<noteq> q \<longrightarrow> unrelated p q)"

lemma apart_Cons: "apart (p # ps) \<longleftrightarrow> apart ps \<and> (\<forall>q \<in> set ps. unrelated p q)"
  unfolding apart_def using unrelated_sym by (auto simp: unrelated_def)

lemma erase_edit: "apart ps \<Longrightarrow> q \<in> set ps \<Longrightarrow> erase ps (edit_at q f t) = erase ps t"
proof (induction ps arbitrary: t)
  case (Cons p ps)
  show ?case
  proof (cases "q = p")
    case True
    then show ?thesis by (simp add: erase_def edit_twice) (simp add: comp_def)
  next
    case False
    then have "unrelated p q" "q \<in> set ps" using Cons.prems by (auto simp: apart_Cons)
    from edit_commute [OF this(1)] show ?thesis
      using Cons.IH [OF _ \<open>q \<in> set ps\<close>] Cons.prems(1) by (simp add: erase_def apart_Cons)
  qed
qed simp

lemma erase_eq: "apart ps \<Longrightarrow> erase ps t = erase ps t' \<Longrightarrow> (\<And>q. q \<in> set ps \<Longrightarrow> node_at q t = node_at q t') \<Longrightarrow> t = t'"
proof (induction ps arbitrary: t t')
  case (Cons p ps)
  have "edit_at p (\<lambda>_. Cmt) t = edit_at p (\<lambda>_. Cmt) t'"
  proof (rule Cons.IH)
    show "apart ps" "erase ps (edit_at p (\<lambda>_. Cmt) t) = erase ps (edit_at p (\<lambda>_. Cmt) t')"
      using Cons.prems(1,2) by (simp_all add: apart_Cons erase_def)
    show "node_at q (edit_at p (\<lambda>_. Cmt) t) = node_at q (edit_at p (\<lambda>_. Cmt) t')" if "q \<in> set ps" for q
    proof -
      have "unrelated q p" using Cons.prems(1) that unrelated_sym by (auto simp: apart_Cons)
      then show ?thesis using Cons.prems(3) [of q] that by (simp add: node_at_other)
    qed
  qed
  then have "edit_at p (\<lambda>_. x) t = edit_at p (\<lambda>_. x) t'" for x
    using edit_twice [of p "\<lambda>_. x" "\<lambda>_. Cmt" t] edit_twice [of p "\<lambda>_. x" "\<lambda>_. Cmt" t'] by (simp add: comp_def)
  moreover have "edit_at p (\<lambda>_. the (node_at p u)) u = u" for u by (rule edit_same) simp
  moreover have "node_at p t = node_at p t'" using Cons.prems(3) by simp
  ultimately show ?case by metis
qed (simp add: erase_def)

section \<open>The rows of a tidy element\<close>

definition clean_elem :: "elem \<Rightarrow> bool" where
  "clean_elem e \<longleftrightarrow> \<not> nd_marked e \<and> nd_original e = None \<and> nd_user_select e = [] \<and> nd_cursor e = [] \<and> nd_outline e = []"

fun clean :: "node \<Rightarrow> bool" where
  "clean (El e cs) \<longleftrightarrow> clean_elem e \<and> list_all clean cs"
| "clean _ \<longleftrightarrow> True"

fun single_texts :: "node \<Rightarrow> bool" where
  "single_texts (El e cs) \<longleftrightarrow> clean_elem e \<and> (all_text cs \<longrightarrow> (\<exists>s. s \<noteq> [] \<and> cs = [Txt s])) \<and> list_all single_texts cs"
| "single_texts _ \<longleftrightarrow> True"

lemma all_text_single: "separate cs \<Longrightarrow> all_text cs \<Longrightarrow> \<exists>s. s \<noteq> [] \<and> cs = [Txt s]"
  by (cases cs; cases "tl cs") (auto simp: all_text_def separate_Cons is_txt_def split: node.splits)

lemma single_span: "s \<noteq> [] \<Longrightarrow> single_texts (wrap_span s)"
  by (simp add: wrap_span_def text_nodes_def clean_elem_def)

lemma single_tidy: "tidy t \<Longrightarrow> clean t \<Longrightarrow> single_texts t"
proof (induction t)
  case (El e cs)
  then show ?case using all_text_single by (auto simp: list_all_iff)
qed simp_all

lemma single_kids: "list_all tidy cs \<Longrightarrow> list_all clean cs \<Longrightarrow> (\<And>t. t \<in> set cs \<Longrightarrow> single_texts (wrap_mixed t)) \<Longrightarrow>
   list_all single_texts (wrap_kids m cs)"
proof (induction cs)
  case (Cons c cs)
  then have kids: "list_all single_texts (wrap_kids m cs)" and here: "single_texts (wrap_mixed c)" by simp_all
  show ?case
  proof (cases c)
    case (Txt s)
    then show ?thesis using kids single_span [of s] by (cases s) (auto simp: nonblank_def)
  next
    case (El e ds)
    then show ?thesis using kids here Cons.prems single_tidy by auto
  qed (simp add: kids)
qed simp

lemma single_wrapped: "tidy t \<Longrightarrow> clean t \<Longrightarrow> single_texts (wrap_mixed t)"
proof (induction t)
  case (El e cs)
  have kids: "list_all single_texts (wrap_kids (mixed cs) cs)"
    using El by (intro single_kids) (auto simp: list_all_iff)
  have "\<exists>s. s \<noteq> [] \<and> wrap_kids (mixed cs) cs = [Txt s]" if "all_text (wrap_kids (mixed cs) cs)"
  proof -
    have "\<not> list_ex is_el cs" using that wrap_el [of cs "mixed cs"] by (auto simp: all_text_def)
    then have "\<not> mixed cs" by (simp add: mixed_def)
    have "wrap_kids False ds = ds" if "\<not> list_ex is_el ds" for ds
      using that by (induction ds) (auto simp: is_el_def split: node.splits)
    with \<open>\<not> list_ex is_el cs\<close> \<open>\<not> mixed cs\<close> have "wrap_kids (mixed cs) cs = cs" by simp
    with that El.prems(1) show ?thesis using all_text_single by simp
  qed
  moreover have "single_texts (El e cs)" using El.prems single_tidy by blast
  ultimately show ?case using kids El.prems(2) by (cases "closed_to_edits e") auto
qed simp_all

lemma row_is_leaf:
  "q \<in> set (text_rows u f t) \<Longrightarrow> single_texts t \<Longrightarrow>
     \<exists>e s. node_at q t = Some (El e [Txt s]) \<and> nonblank s \<and> clean_elem e \<and> nd_editable e = None"
  "q \<in> set (rows_in u i cs) \<Longrightarrow> list_all single_texts cs \<Longrightarrow>
     \<exists>k p e s. q = (i + k) # p \<and> k < length cs \<and> node_at p (cs ! k) = Some (El e [Txt s]) \<and> nonblank s \<and> clean_elem e \<and> nd_editable e = None"
proof (induction u f t and u i cs arbitrary: q and q rule: text_rows_rows_in.induct)
  case (1 u first e cs)
  from "1.prems" consider "q = []" "all_text cs" "nd_editable e = None" | "q \<in> set (rows_in (u \<or> ui_elem e) 0 cs)"
    by (auto split: if_splits simp: closed_to_edits_def)
  then show ?case
  proof cases
    case 1
    then show ?thesis using "1.prems"(2) by (auto simp: all_text_def nonblank_txt_def)
  next
    case 2
    moreover have "\<not> (closed_to_edits e \<or> \<not> first \<and> (u \<or> ui_elem e))" using "1.prems"(1) by auto
    ultimately show ?thesis using "1.IH" [of q] "1.prems"(2) by auto
  qed
next
  case (4 u i c cs)
  from "4.prems"(1) consider p where "q = i # p" "p \<in> set (text_rows u False c)" | "q \<in> set (rows_in u (Suc i) cs)" by auto
  then show ?case
  proof cases
    case 1
    then show ?thesis using "4.IH"(1) [of p] "4.prems"(2) by (intro exI [of _ 0]) auto
  next
    case 2
    then obtain k p e s where "q = (Suc i + k) # p" "k < length cs" "node_at p (cs ! k) = Some (El e [Txt s])" "nonblank s"
      "clean_elem e" "nd_editable e = None" using "4.IH"(2) [of q] "4.prems"(2) by auto
    then show ?thesis by (intro exI [of _ "Suc k"]) auto
  qed
qed simp_all

lemma rows_distinct:
  "distinct (text_rows u f t)" "distinct (rows_in u i cs) \<and> (\<forall>q \<in> set (rows_in u i cs). q \<noteq> [] \<and> i \<le> hd q)"
proof (induction u f t and u i cs rule: text_rows_rows_in.induct)
  case (4 u i c cs)
  then show ?case by (auto simp: distinct_map inj_on_def)
qed auto

lemma leaves_independent:
  assumes "node_at p t = Some (El e [Txt s])" "node_at q t = Some (El e' [Txt s'])" "p \<noteq> q"
  shows "unrelated p q"
proof -
  have "\<not> prefix p q" if "node_at p t = Some (El e [Txt s])" "node_at q t = Some (El e' [Txt s'])" "p \<noteq> q" for p q e s e' s'
  proof
    assume "prefix p q"
    then obtain r where r: "q = p @ r" by (auto simp: prefix_def)
    with that have "node_at r (El e [Txt s]) = Some (El e' [Txt s'])" "r \<noteq> []" by (auto simp: node_at_append)
    then show False by (cases r; cases "tl r") (auto split: if_splits)
  qed
  with assms show ?thesis unfolding unrelated_def by metis
qed

lemma rows_apart:
  assumes "single_texts t" shows "apart (text_rows u f t)"
  unfolding apart_def using rows_distinct(1) row_is_leaf(1) [OF _ assms] leaves_independent by metis

end
