(* ===== verification/LiveRefs.thy ===== *)
theory LiveRefs imports LivePage begin

text \<open>
  How the copy editor names an element and finds it again
  (\<open>agent/skills/impeccable/scripts/live-browser.js\<close>, \<open>documentRefForElement\<close> and
  \<open>queryManualEditRef\<close> with their helpers): a reference is the chain of segments from \<open>body\<close>, each a tag,
  an id, up to two classes and the position among the siblings of that tag.
\<close>

section \<open>Naming\<close>

text \<open>\<open>squash P r s\<close>: every run of characters in \<open>P\<close> becomes \<open>r\<close>.\<close>

fun squash_from :: "(char \<Rightarrow> bool) \<Rightarrow> char \<Rightarrow> bool \<Rightarrow> string \<Rightarrow> string" where
  "squash_from P r inside [] = []"
| "squash_from P r inside (c # s) =
     (if \<not> P c then c # squash_from P r False s
      else if inside then squash_from P r True s else r # squash_from P r True s)"

abbreviation squash :: "(char \<Rightarrow> bool) \<Rightarrow> char \<Rightarrow> string \<Rightarrow> string" where
  "squash P r \<equiv> squash_from P r False"

definition normalize_document_ref_token :: "string \<Rightarrow> string" where
  "normalize_document_ref_token s = squash (\<lambda>c. c = CHR ''>'' \<or> white_space c) (CHR ''_'') s"

definition normalize_text :: "string \<Rightarrow> string" where
  "normalize_text s = trim (squash white_space (CHR '' '') s)"

definition same_tag :: "string \<Rightarrow> node \<Rightarrow> bool" where
  "same_tag tag t = (case t of El e _ \<Rightarrow> nd_tag e = tag | _ \<Rightarrow> False)"

definition index_among_same_tag :: "nat \<Rightarrow> node list \<Rightarrow> string \<Rightarrow> nat" where
  "index_among_same_tag i cs tag = length (filter (same_tag tag) (take (i + 1) cs))"

definition own_class :: "string \<Rightarrow> bool" where
  "own_class c \<longleftrightarrow> starts_with ''impeccable-'' c"

definition document_ref_id_suffix :: "elem \<Rightarrow> string" where
  "document_ref_id_suffix e = (if nd_id e = [] then [] else ''#'' @ normalize_document_ref_token (nd_id e))"

definition ref_classes :: "elem \<Rightarrow> string list" where
  "ref_classes e = take 2 (filter (\<lambda>c. c \<noteq> [] \<and> \<not> own_class c) (nd_classes e))"

definition document_ref_class_suffix :: "elem \<Rightarrow> string" where
  "document_ref_class_suffix e =
     (let classes = map normalize_document_ref_token (ref_classes e)
      in if classes = [] then [] else ''.'' @ join_with ''.'' classes)"

definition document_ref_segment :: "elem \<Rightarrow> nat \<Rightarrow> string" where
  "document_ref_segment e n =
     nd_tag e @ document_ref_id_suffix e @ document_ref_class_suffix e @ '':nth-of-type('' @ show_nat n @ '')''"

fun ref_parts :: "path \<Rightarrow> node \<Rightarrow> string list" where
  "ref_parts (i # p) (El e cs) =
     (case (if i < length cs then cs ! i else Cmt) of
        El f ds \<Rightarrow> document_ref_segment f (index_among_same_tag i cs (nd_tag f)) # ref_parts p (El f ds)
      | _ \<Rightarrow> [])"
| "ref_parts _ _ = []"

definition document_ref_for_element :: "path \<Rightarrow> node \<Rightarrow> string" where
  "document_ref_for_element p d = join_with ''>'' (''body'' # ref_parts p d)"

section \<open>Finding\<close>

record ref_segment =
  rs_tag :: string
  rs_id :: "string option"
  rs_classes :: "string list"
  rs_nth :: "nat option"

text \<open>\<open>/:nth-of-type\((\d+)\)$/\<close>: what comes before it, and the number.\<close>

definition split_nth :: "string \<Rightarrow> string \<times> nat option" where
  "split_nth s =
     (case rev s of
        [] \<Rightarrow> (s, None)
      | c # r \<Rightarrow>
          let ds = takeWhile is_digit r; rest = dropWhile is_digit r in
          if c = CHR '')'' \<and> ds \<noteq> [] \<and> starts_with (rev '':nth-of-type('') rest
          then (rev (drop 13 rest), Some (read_nat (rev ds))) else (s, None))"

definition tag_char :: "char \<Rightarrow> bool" where
  "tag_char c \<longleftrightarrow> c \<noteq> CHR ''#'' \<and> c \<noteq> CHR ''.'' \<and> c \<noteq> CHR '':'' \<and> \<not> white_space c"

definition id_char :: "char \<Rightarrow> bool" where
  "id_char c \<longleftrightarrow> c \<noteq> CHR ''#'' \<and> c \<noteq> CHR ''.''"

text \<open>The first match of \<open>/#([^#.]+)/\<close>: what is before it, the id, what is after it.\<close>

fun split_id :: "string \<Rightarrow> (string \<times> string \<times> string) option" where
  "split_id [] = None"
| "split_id (c # s) =
     (if c = CHR ''#'' \<and> takeWhile id_char s \<noteq> [] then Some ([], takeWhile id_char s, dropWhile id_char s)
      else map_option (apfst (\<lambda>a. c # a)) (split_id s))"

definition parse_manual_edit_ref_segment :: "string \<Rightarrow> ref_segment option" where
  "parse_manual_edit_ref_segment segment =
     (let (base, nth) = split_nth segment; tag = to_lower (takeWhile tag_char base);
          rest = drop (length tag) base
      in if tag = [] then None
         else Some \<lparr>rs_tag = tag, rs_id = map_option (\<lambda>(a, i, b). i) (split_id base),
                rs_classes = filter (\<lambda>c. c \<noteq> []) (split_on (CHR ''.'') (case split_id rest of Some (a, i, b) \<Rightarrow> a @ b | None \<Rightarrow> rest)),
                rs_nth = nth\<rparr>)"

definition element_matches :: "elem \<Rightarrow> nat \<Rightarrow> ref_segment \<Rightarrow> bool" where
  "element_matches e n seg \<longleftrightarrow>
     nd_tag e = rs_tag seg \<and> (case rs_id seg of Some i \<Rightarrow> i = [] \<or> nd_id e = i | None \<Rightarrow> True) \<and>
     list_all (\<lambda>c. c \<in> set (nd_classes e)) (rs_classes seg) \<and>
     (case rs_nth seg of Some k \<Rightarrow> k = 0 \<or> n = k | None \<Rightarrow> True)"

definition child_matches :: "ref_segment \<Rightarrow> node list \<Rightarrow> nat \<Rightarrow> bool" where
  "child_matches seg cs i =
     (case cs ! i of El e _ \<Rightarrow> element_matches e (index_among_same_tag i cs (nd_tag e)) seg | _ \<Rightarrow> False)"

definition children_of :: "node \<Rightarrow> node list" where
  "children_of t = (case t of El _ cs \<Rightarrow> cs | _ \<Rightarrow> [])"

text \<open>Going down from an element, at the path \<open>acc\<close> reversed.\<close>

fun find_parts :: "ref_segment option list \<Rightarrow> node \<Rightarrow> path option" where
  "find_parts [] t = Some []"
| "find_parts (None # segs) t = None"
| "find_parts (Some seg # segs) t =
     (let cs = children_of t in
      case List.find (child_matches seg cs) [0..<length cs] of
        None \<Rightarrow> None
      | Some i \<Rightarrow> map_option (\<lambda>p. i # p) (find_parts segs (cs ! i)))"

definition query_manual_edit_ref :: "string \<Rightarrow> node \<Rightarrow> path option" where
  "query_manual_edit_ref ref d =
     (let segs = map parse_manual_edit_ref_segment (filter (\<lambda>s. s \<noteq> []) (map trim (split_on (CHR ''>'') ref))) in
      case segs of
        [] \<Rightarrow> None
      | first # rest \<Rightarrow>
          (case first of
             Some seg \<Rightarrow>
               if rs_tag seg = ''body'' then
                 (case d of El e _ \<Rightarrow> if element_matches e 1 seg then find_parts rest d else None | _ \<Rightarrow> None)
               else find_parts segs d
           | None \<Rightarrow> None))"

section \<open>What is named is found\<close>

definition plain_token :: "string \<Rightarrow> bool" where
  "plain_token s \<longleftrightarrow> s \<noteq> [] \<and> list_all (\<lambda>c. id_char c \<and> c \<noteq> CHR ''>'' \<and> \<not> white_space c) s"

definition plain_tag :: "string \<Rightarrow> bool" where
  "plain_tag s \<longleftrightarrow> s \<noteq> [] \<and> to_lower s = s \<and> list_all (\<lambda>c. tag_char c \<and> c \<noteq> CHR ''>'') s"

definition plain_names :: "elem \<Rightarrow> bool" where
  "plain_names e \<longleftrightarrow> plain_tag (nd_tag e) \<and> (nd_id e = [] \<or> plain_token (nd_id e)) \<and> list_all plain_token (ref_classes e)"

fun named_plainly :: "path \<Rightarrow> node \<Rightarrow> bool" where
  "named_plainly (i # p) (El e cs) =
     (case (if i < length cs then cs ! i else Cmt) of El f ds \<Rightarrow> plain_names f \<and> named_plainly p (El f ds) | _ \<Rightarrow> False)"
| "named_plainly [] t = is_el t"
| "named_plainly _ _ = False"

lemma squash_plain: "list_all (\<lambda>c. \<not> P c) s \<Longrightarrow> squash_from P r False s = s"
  by (induction s) auto

lemma token_plain: "plain_token s \<Longrightarrow> normalize_document_ref_token s = s"
  unfolding normalize_document_ref_token_def plain_token_def by (intro squash_plain) (auto simp: list_all_iff)

lemma classes_plain: "list_all plain_token cs \<Longrightarrow> map normalize_document_ref_token cs = cs"
  by (auto simp: list_all_iff token_plain map_same)

lemma split_nth_segment: "split_nth (base @ '':nth-of-type('' @ show_nat n @ '')'') = (base, Some n)"
proof -
  have digits: "list_all is_digit (rev (show_nat n))" using show_nat_digits [of n] by (simp add: list_all_iff)
  let ?r = "rev (show_nat n) @ rev '':nth-of-type('' @ rev base"
  have paren: "\<not> is_digit (CHR ''('')" by (simp add: is_digit_def)
  have "takeWhile is_digit ?r = rev (show_nat n)" "dropWhile is_digit ?r = rev '':nth-of-type('' @ rev base"
    using digits paren by (simp_all add: takeWhile_append dropWhile_append list_all_iff)
  moreover have "starts_with (rev '':nth-of-type('') (rev '':nth-of-type('' @ rev base)" by (rule starts_with_append)
  ultimately show ?thesis by (simp add: split_nth_def Let_def)
qed

lemma split_id_none: "CHR ''#'' \<notin> set s \<Longrightarrow> split_id s = None"
  by (induction s) auto

lemma split_id_here:
  "CHR ''#'' \<notin> set a \<Longrightarrow> plain_token i \<Longrightarrow> (b = [] \<or> hd b = CHR ''.'') \<Longrightarrow> split_id (a @ ''#'' @ i @ b) = Some (a, i, b)"
proof (induction a)
  case Nil
  then have "takeWhile id_char (i @ b) = i" "dropWhile id_char (i @ b) = b"
    by (cases b; auto simp: plain_token_def list_all_iff takeWhile_append dropWhile_append id_char_def)+
  with Nil show ?case by (simp add: plain_token_def)
qed auto

lemma class_suffix_parts:
  assumes "list_all plain_token (ref_classes e)"
  shows "CHR ''#'' \<notin> set (document_ref_class_suffix e)"
    "filter (\<lambda>c. c \<noteq> []) (split_on (CHR ''.'') (document_ref_class_suffix e)) = ref_classes e"
    "document_ref_class_suffix e = [] \<or> hd (document_ref_class_suffix e) = CHR ''.''"
proof -
  have plain: "\<forall>c \<in> set (ref_classes e). CHR ''#'' \<notin> set c \<and> CHR ''.'' \<notin> set c \<and> c \<noteq> []"
    using assms by (auto simp: list_all_iff plain_token_def id_char_def)
  have hash: "CHR ''#'' \<notin> set (join_with ''.'' cs)" if "\<forall>c \<in> set cs. CHR ''#'' \<notin> set c" for cs
    using that by (induction "''.''" cs rule: join_with.induct) auto
  have suffix: "document_ref_class_suffix e = (if ref_classes e = [] then [] else CHR ''.'' # join_with ''.'' (ref_classes e))"
    by (simp add: document_ref_class_suffix_def classes_plain [OF assms] Let_def)
  show "CHR ''#'' \<notin> set (document_ref_class_suffix e)" using hash [of "ref_classes e"] plain by (auto simp: suffix)
  have "filter (\<lambda>c. c \<noteq> []) (ref_classes e) = ref_classes e" using plain by (simp add: filter_id_conv)
  then show "filter (\<lambda>c. c \<noteq> []) (split_on (CHR ''.'') (document_ref_class_suffix e)) = ref_classes e"
    using split_join [of "ref_classes e" "CHR ''.''"] plain by (simp add: suffix)
  show "document_ref_class_suffix e = [] \<or> hd (document_ref_class_suffix e) = CHR ''.''" by (simp add: suffix)
qed

lemma parse_segment:
  assumes "plain_names e"
  shows "parse_manual_edit_ref_segment (document_ref_segment e n) =
    Some \<lparr>rs_tag = nd_tag e, rs_id = (if nd_id e = [] then None else Some (nd_id e)), rs_classes = ref_classes e, rs_nth = Some n\<rparr>"
proof -
  note parts = class_suffix_parts [of e]
  have tag: "plain_tag (nd_tag e)" and cls: "list_all plain_token (ref_classes e)"
    and id: "nd_id e = [] \<or> plain_token (nd_id e)" using assms by (simp_all add: plain_names_def)
  let ?base = "nd_tag e @ document_ref_id_suffix e @ document_ref_class_suffix e"
  have suffix: "document_ref_id_suffix e = (if nd_id e = [] then [] else CHR ''#'' # nd_id e)"
    using id by (auto simp: document_ref_id_suffix_def token_plain)
  have hash: "CHR ''#'' \<notin> set (nd_tag e)" using tag by (auto simp: plain_tag_def list_all_iff tag_char_def)
  have stop: "document_ref_id_suffix e @ document_ref_class_suffix e = [] \<or>
      \<not> tag_char (hd (document_ref_id_suffix e @ document_ref_class_suffix e))"
    using parts(3) [OF cls] by (cases "nd_id e") (auto simp: suffix tag_char_def)
  have "takeWhile tag_char (nd_tag e @ r) = nd_tag e" if "r = [] \<or> \<not> tag_char (hd r)" for r
    using that tag by (cases r) (simp_all add: plain_tag_def list_all_iff takeWhile_append)
  with stop have "takeWhile tag_char ?base = nd_tag e" by blast
  moreover have "map_option (\<lambda>(a, i, b). i) (split_id ?base) = (if nd_id e = [] then None else Some (nd_id e))"
  proof (cases "nd_id e")
    case Nil
    then show ?thesis using split_id_none [of "nd_tag e @ document_ref_class_suffix e"] hash parts(1) [OF cls]
      by (simp add: suffix)
  next
    case Cons
    then show ?thesis using split_id_here [OF hash, of "nd_id e" "document_ref_class_suffix e"] parts(3) [OF cls] id
      by (simp add: suffix)
  qed
  moreover have "filter (\<lambda>c. c \<noteq> []) (split_on (CHR ''.'')
      (case split_id (document_ref_id_suffix e @ document_ref_class_suffix e) of Some (a, i, b) \<Rightarrow> a @ b
       | None \<Rightarrow> document_ref_id_suffix e @ document_ref_class_suffix e)) = ref_classes e"
  proof (cases "nd_id e")
    case Nil
    then show ?thesis using split_id_none [OF parts(1) [OF cls]] parts(2) [OF cls] by (simp add: suffix)
  next
    case Cons
    then show ?thesis using split_id_here [of "[]" "nd_id e" "document_ref_class_suffix e"] parts(2,3) [OF cls] id
      by (simp add: suffix)
  qed
  moreover have "to_lower (nd_tag e) = nd_tag e" "nd_tag e \<noteq> []" using tag by (simp_all add: plain_tag_def)
  ultimately show ?thesis
    using split_nth_segment [of ?base n] by (simp add: parse_manual_edit_ref_segment_def document_ref_segment_def)
qed

lemma index_positive: "i < length cs \<Longrightarrow> same_tag tag (cs ! i) \<Longrightarrow> 0 < index_among_same_tag i cs tag"
  by (auto simp: index_among_same_tag_def filter_empty_conv take_Suc_conv_app_nth)

lemma index_before:
  assumes "j < i" "i < length cs" "same_tag tag (cs ! i)"
  shows "index_among_same_tag j cs tag < index_among_same_tag i cs tag"
proof -
  have "take (i + 1) cs = take i cs @ [cs ! i]" using assms(2) by (simp add: take_Suc_conv_app_nth)
  moreover have "take i cs = take (j + 1) cs @ drop (j + 1) (take i cs)"
    using append_take_drop_id [of "j + 1" "take i cs"] assms(1) by (simp add: min_def)
  ultimately have "take (i + 1) cs = take (j + 1) cs @ drop (j + 1) (take i cs) @ [cs ! i]" by simp
  with assms(3) show ?thesis by (simp only: index_among_same_tag_def filter_append length_append) simp
qed

lemma find_upt: "i < n \<Longrightarrow> P i \<Longrightarrow> (\<And>j. j < i \<Longrightarrow> \<not> P j) \<Longrightarrow> List.find P [0..<n] = Some i"
  by (auto simp: find_Some_iff intro!: exI [of _ i])

definition segment_of :: "elem \<Rightarrow> nat \<Rightarrow> ref_segment" where
  "segment_of e n = \<lparr>rs_tag = nd_tag e, rs_id = (if nd_id e = [] then None else Some (nd_id e)), rs_classes = ref_classes e,
     rs_nth = Some n\<rparr>"

lemma segment_finds:
  assumes "i < length cs" "cs ! i = El f ds"
  shows "List.find (child_matches (segment_of f (index_among_same_tag i cs (nd_tag f))) cs) [0..<length cs] = Some i"
proof (rule find_upt)
  have st: "same_tag (nd_tag f) (cs ! i)" by (simp add: assms(2) same_tag_def)
  have "set (ref_classes f) \<subseteq> set (nd_classes f)" by (auto simp: ref_classes_def dest: in_set_takeD)
  then show "child_matches (segment_of f (index_among_same_tag i cs (nd_tag f))) cs i"
    by (auto simp: child_matches_def assms(2) element_matches_def segment_of_def list_all_iff)
  show "\<not> child_matches (segment_of f (index_among_same_tag i cs (nd_tag f))) cs j" if "j < i" for j
    using index_before [OF that assms(1) st] index_positive [OF assms(1) st]
    by (auto simp: child_matches_def element_matches_def segment_of_def split: node.split)
qed (rule assms(1))

lemma named_el: "named_plainly p d \<Longrightarrow> is_el d"
  by (cases p; cases d) (simp_all add: is_el_def)

lemma ref_parts_segments:
  "named_plainly p d \<Longrightarrow>
   find_parts (map parse_manual_edit_ref_segment (ref_parts p d)) d = Some p"
proof (induction p d rule: ref_parts.induct)
  case (1 i p e cs)
  then obtain f ds where f: "i < length cs" "cs ! i = El f ds" "plain_names f" "named_plainly p (El f ds)"
    by (auto split: node.splits if_splits)
  have "find_parts (map parse_manual_edit_ref_segment (ref_parts p (El f ds))) (El f ds) = Some p"
    using "1.IH" [of f ds] f by simp
  then show ?case using f parse_segment [OF f(3)] segment_finds [OF f(1,2)]
    by (simp add: children_of_def segment_of_def)
qed (auto dest: named_el simp: is_el_def)

definition ref_char :: "char \<Rightarrow> bool" where
  "ref_char c \<longleftrightarrow> c \<noteq> CHR ''>'' \<and> \<not> white_space c"

definition word :: "string \<Rightarrow> bool" where
  "word s \<longleftrightarrow> s \<noteq> [] \<and> list_all ref_char s"

lemma trim_word: "list_all (\<lambda>c. \<not> white_space c) s \<Longrightarrow> trim s = s"
proof -
  assume a: "list_all (\<lambda>c. \<not> white_space c) s"
  have d: "dropWhile white_space r = r" if "list_all (\<lambda>c. \<not> white_space c) r" for r using that by (cases r) auto
  have "list_all (\<lambda>c. \<not> white_space c) (rev s)" using a by (simp add: list_all_iff)
  then show ?thesis using d [OF a] d by (simp add: trim_def trim_start_def trim_end_def)
qed

lemma word_facts: assumes "word s" shows "s \<noteq> []" "CHR ''>'' \<notin> set s" "trim s = s"
proof -
  have "list_all ref_char s" using assms by (simp add: word_def)
  then show "CHR ''>'' \<notin> set s" "trim s = s"
    using trim_word [of s] by (auto simp: ref_char_def list_all_iff)
qed (use assms in \<open>simp add: word_def\<close>)

lemma join_ref_chars: "list_all (list_all ref_char) cs \<Longrightarrow> list_all ref_char (join_with ''.'' cs)"
  by (induction "''.''" cs rule: join_with.induct) (simp_all add: ref_char_def white_space_def)

lemma token_chars: "plain_token s \<Longrightarrow> list_all ref_char s" "plain_tag s \<Longrightarrow> list_all ref_char s"
  by (simp_all add: plain_token_def plain_tag_def tag_char_def ref_char_def list_all_iff)

lemma tokens_chars: "list_all plain_token cs \<Longrightarrow> list_all (list_all ref_char) cs"
  by (induction cs) (simp_all add: token_chars(1))

lemma segment_word: assumes "plain_names e" shows "word (document_ref_segment e n)"
proof -
  have ascii: "list_all ref_char '':nth-of-type(''" "list_all ref_char '')''" "ref_char (CHR ''#'')" "ref_char (CHR ''.'')"
    by (simp_all add: ref_char_def white_space_def)
  have "ref_char c" if "is_digit c" for c using that by (auto simp: is_digit_def ref_char_def white_space_def)
  then have num: "list_all ref_char (show_nat n)" using show_nat_digits [of n] by (simp add: list_all_iff)
  have cls: "map normalize_document_ref_token (ref_classes e) = ref_classes e" "list_all (list_all ref_char) (ref_classes e)"
    using assms tokens_chars by (simp_all add: plain_names_def classes_plain)
  have "list_all ref_char (document_ref_class_suffix e)"
    using join_ref_chars [OF cls(2)] ascii by (simp add: document_ref_class_suffix_def cls(1) Let_def)
  moreover have "list_all ref_char (document_ref_id_suffix e)"
    using assms token_chars(1) ascii by (auto simp: plain_names_def document_ref_id_suffix_def token_plain)
  moreover have "list_all ref_char (nd_tag e)" "nd_tag e \<noteq> []"
    using assms token_chars(2) by (simp_all add: plain_names_def) (simp add: plain_tag_def)
  ultimately show ?thesis using ascii num by (simp add: word_def document_ref_segment_def)
qed

lemma parts_words: "named_plainly p d \<Longrightarrow> list_all word (ref_parts p d)"
proof (induction p d rule: ref_parts.induct)
  case (1 i p e cs)
  then show ?case by (auto split: node.splits if_splits simp: segment_word)
qed auto

lemma ref_finds_named:
  assumes "named_plainly p (El b cs)" "nd_tag b = ''body''"
  shows "query_manual_edit_ref (document_ref_for_element p (El b cs)) (El b cs) = Some p"
proof -
  let ?d = "El b cs" and ?parts = "''body'' # ref_parts p (El b cs)"
  have words: "list_all word ?parts" using parts_words [OF assms(1)] by (simp add: word_def ref_char_def white_space_def)
  then have each: "s \<noteq> []" "CHR ''>'' \<notin> set s" "trim s = s" if "s \<in> set ?parts" for s
    using word_facts [OF words [unfolded list_all_iff, rule_format, OF that]] by simp_all
  have "split_on (CHR ''>'') (document_ref_for_element p ?d) = ?parts"
    unfolding document_ref_for_element_def by (rule split_join) (use each(2) in blast)+
  moreover have "map trim ?parts = ?parts" using each(3) by (rule map_same)
  moreover have "filter (\<lambda>s. s \<noteq> []) ?parts = ?parts" using each(1) by (simp only: filter_id_conv) blast
  moreover have "parse_manual_edit_ref_segment ''body'' = Some \<lparr>rs_tag = ''body'', rs_id = None, rs_classes = [], rs_nth = None\<rparr>"
    by code_simp
  moreover have "element_matches b 1 \<lparr>rs_tag = ''body'', rs_id = None, rs_classes = [], rs_nth = None\<rparr>"
    using assms(2) by (simp add: element_matches_def)
  ultimately show ?thesis using ref_parts_segments [OF assms(1)] by (simp add: query_manual_edit_ref_def Let_def)
qed

text \<open>
  C26: A reference finds the element it was made for. On a page whose tags, ids and first two classes
  contain none of the characters the reference itself uses (\<open>#\<close>, \<open>.\<close>, \<open>>\<close>, white space), looking up the
  reference of an element gives exactly that element, however many others have its tag, its id or its
  classes.
\<close>

theorem ref_finds_its_element:
  assumes "named_plainly p (El b cs)" "nd_tag b = ''body''"
  shows "query_manual_edit_ref (document_ref_for_element p (El b cs)) (El b cs) = Some p"
  using assms by (rule ref_finds_named)

definition sample_page :: node where
  "sample_page = El (plain_elem ''body'') [El (plain_elem ''p'') [], Txt ''x'',
     El (plain_elem ''p'' \<lparr>nd_id := ''a'', nd_classes := [''lead'', ''md:flex'']\<rparr>) [El (plain_elem ''b'') [Txt ''y'']]]"

lemma ref_finds_its_element_witness:
  "document_ref_for_element [2, 0] sample_page = ''body>p#a.lead.md:flex:nth-of-type(2)>b:nth-of-type(1)'' \<and>
   query_manual_edit_ref (document_ref_for_element [2, 0] sample_page) sample_page = Some [2, 0]"
proof -
  have 1: "named_plainly [2, 0] sample_page" by code_simp
  have 2: "nd_tag (plain_elem ''body'') = ''body''" by (simp add: plain_elem_def)
  have "document_ref_for_element [2, 0] sample_page = ''body>p#a.lead.md:flex:nth-of-type(2)>b:nth-of-type(1)''" by code_simp
  with ref_finds_its_element [OF 1 [unfolded sample_page_def] 2] show ?thesis by (simp add: sample_page_def)
qed

text \<open>Class names with a dot or a hash, as utility classes have them, make references that find nothing.\<close>

lemma dotted_class_not_found:
  "query_manual_edit_ref (document_ref_for_element [0]
       (El (plain_elem ''body'') [El (plain_elem ''p'' \<lparr>nd_classes := [''w-1.5'']\<rparr>) []]))
     (El (plain_elem ''body'') [El (plain_elem ''p'' \<lparr>nd_classes := [''w-1.5'']\<rparr>) []]) = None"
  by code_simp

lemma hash_class_not_found:
  "query_manual_edit_ref (document_ref_for_element [0]
       (El (plain_elem ''body'') [El (plain_elem ''p'' \<lparr>nd_classes := [''bg-[#fff]'']\<rparr>) []]))
     (El (plain_elem ''body'') [El (plain_elem ''p'' \<lparr>nd_classes := [''bg-[#fff]'']\<rparr>) []]) = None"
  by code_simp

end
