(* ===== verification/LiveApply.thy ===== *)
theory LiveApply imports LiveResume begin

text \<open>
  Applying staged copy edits (\<open>agent/skills/impeccable/scripts/live-browser.js\<close>, lines 3872 to 4346):
  the dock with its buttons, the state of a running apply that \<open>sessionStorage\<close> keeps across reloads,
  and the messages of the server. The elements of the dock are the fields of \<open>dock\<close> with what of them
  the code reads or what a user can see; requests in flight are a list, their answers come in any
  order. Colours, animations and positions are left out. Counts are integers or \<open>NaN\<close> as in
  \<open>LiveResume\<close>; the counts the server sends are taken as numbers.
\<close>

section \<open>State\<close>

datatype request = Req_commit | Req_repair int | Req_discard int | Req_rollback | Req_count

text \<open>What \<open>fetch\<close> gave: nothing, or \<open>res.ok\<close>, \<open>res.status\<close> and the content (\<open>None\<close>: no JSON).\<close>

datatype answer = Lost | Answer bool nat "json option"

record dock =
  tab_store :: "storage option"
  address :: string
  server :: string
  built :: bool
  in_flight :: bool
  pill_count :: int
  pill_shown :: bool
  pill_disabled :: bool
  pill_busy :: bool
  pill_label :: string
  pill_name :: string
  spinner :: bool
  count_shown :: bool
  count_text :: string
  trash_shown :: bool
  trash_disabled :: bool
  keep_shown :: bool
  rollback_shown :: bool
  dock_shown :: bool
  first_save :: bool
  requests :: "request list"
  toasts :: "string list"
  refreshes :: nat

definition toast :: "string \<Rightarrow> dock \<Rightarrow> dock" where
  "toast t d = d\<lparr>toasts := toasts d @ [t]\<rparr>"

definition ask :: "request \<Rightarrow> dock \<Rightarrow> dock" where
  "ask r d = d\<lparr>requests := requests d @ [r]\<rparr>"

definition drop_request :: "nat \<Rightarrow> dock \<Rightarrow> dock" where
  "drop_request k d = d\<lparr>requests := take k (requests d) @ drop (k + 1) (requests d)\<rparr>"

section \<open>The stored state of an apply\<close>

definition MANUAL_APPLY_STATE_TTL_MS :: int where "MANUAL_APPLY_STATE_TTL_MS = 15 * 60 * 1000"

text \<open>\<open>server\<close> is the port and the token, with the colon between them.\<close>

definition manual_apply_state_key :: "dock \<Rightarrow> string" where
  "manual_apply_state_key d = ''impeccable-live:manual-apply:'' @ server d @ '':'' @ address d"

definition clear_stored :: "dock \<Rightarrow> dock" where
  "clear_stored d = d\<lparr>tab_store := map_option (\<lambda>t. remove_item t (manual_apply_state_key d)) (tab_store d)\<rparr>"

definition or_zero :: "num \<Rightarrow> int" where
  "or_zero x = (case x of None \<Rightarrow> 0 | Some n \<Rightarrow> n)"

definition stale :: "int \<Rightarrow> json \<Rightarrow> dock \<Rightarrow> bool" where
  "stale now v d \<longleftrightarrow>
     \<not> json_truthy v \<or> json_get ''pageUrl'' v \<noteq> Some (JStr (address d)) \<or>
     num_less (case truthy_field ''expiresAt'' (Some v) of None \<Rightarrow> Some 0 | Some e \<Rightarrow> js_number (Some e)) (Some now)"

definition stored_value :: "dock \<Rightarrow> json option" where
  "stored_value d =
     (case tab_store d of
        None \<Rightarrow> None
      | Some t \<Rightarrow>
          let raw = get_item t (manual_apply_state_key d) in
          if \<not> truthy_str raw then None else json_parse (opt_str raw))"

definition read_stored :: "int \<Rightarrow> dock \<Rightarrow> json option \<times> dock" where
  "read_stored now d =
     (case stored_value d of
        None \<Rightarrow> (None, d)
      | Some v \<Rightarrow> if stale now v d then (None, clear_stored d) else (Some v, d))"

definition applied_state :: "int \<Rightarrow> (string \<times> json) list \<Rightarrow> dock \<Rightarrow> json" where
  "applied_state now kvs d =
     JObj (omap_set ''expiresAt'' (JNum (now + MANUAL_APPLY_STATE_TTL_MS))
            (omap_set ''updatedAt'' (JNum now) (omap_set ''pageUrl'' (JStr (address d)) kvs)))"

definition write_state :: "int \<Rightarrow> (string \<times> json) list \<Rightarrow> dock \<Rightarrow> dock" where
  "write_state now kvs d =
     (case tab_store d of
        None \<Rightarrow> d
      | Some t \<Rightarrow>
          case set_item t (manual_apply_state_key d) (print_json (applied_state now kvs d)) of
            Inl _ \<Rightarrow> d
          | Inr t' \<Rightarrow> d\<lparr>tab_store := Some t'\<rparr>)"

text \<open>\<open>a || b || c\<close> on numbers, the last one an integer.\<close>

definition or_count :: "num list \<Rightarrow> int \<Rightarrow> int" where
  "or_count xs n = or_zero (foldr num_or xs (Some n))"

definition number_field :: "string \<Rightarrow> json option \<Rightarrow> num" where
  "number_field k v = js_number (field k v)"

definition next_state :: "int \<Rightarrow> int \<Rightarrow> (string \<times> json) list \<Rightarrow> json option \<Rightarrow> (string \<times> json) list" where
  "next_state now cur patch existing =
     (let n = (\<lambda>k. number_field k existing);
          tot = or_count [n ''totalOps'', n ''count''] cur
      in foldl (\<lambda>m (k, v). omap_set k v m)
           [(''count'', JNum (or_count [n ''count'', Some cur] tot)),
            (''totalOps'', JNum (or_count [Some tot] cur)),
            (''completedOps'', JNum (or_count [n ''completedOps''] 0)),
            (''remainingCount'', JNum (case n ''remainingCount'' of Some r \<Rightarrow> r | None \<Rightarrow> cur)),
            (''phase'', case truthy_field ''phase'' existing of Some p \<Rightarrow> p | None \<Rightarrow> JStr ''applying''),
            (''startedAt'', JNum (or_count [n ''startedAt''] now))] patch)"

definition store_state :: "int \<Rightarrow> num \<Rightarrow> (string \<times> json) list \<Rightarrow> dock \<Rightarrow> dock" where
  "store_state now cnt patch d =
     (let cur = or_count [cnt] 0;
          (existing, d1) = read_stored now d;
          tot = or_count [number_field ''totalOps'' existing, number_field ''count'' existing] cur
      in if tot \<le> 0 \<and> cur \<le> 0 then d1
         else write_state now (next_state now cur patch existing) d1)"

definition should_resume :: "int \<Rightarrow> num \<Rightarrow> dock \<Rightarrow> bool \<times> dock" where
  "should_resume now cnt d =
     (if num_less (Some 0) cnt then (case read_stored now d of (v, d1) \<Rightarrow> (v \<noteq> None, d1)) else (False, d))"

definition edits :: "string \<Rightarrow> int \<Rightarrow> string" where
  "edits what n = show_int n @ '' '' @ what @ (if n = 1 then [] else ''s'')"

definition loading_text_of :: "json option \<Rightarrow> int \<Rightarrow> string" where
  "loading_text_of stored fallback =
     (let phase = field ''phase'' stored in
      if phase = Some (JStr ''repair-decision'') then ''Apply needs attention''
      else if phase = Some (JStr ''repairing'') then
        ''Fixing apply issue, attempt '' @ show_int (or_count [number_field ''repairAttempt'' stored] 1) @ ''/'' @
          show_int (or_count [number_field ''repairMaxAttempts'' stored] 3)
      else if phase = Some (JStr ''verifying'') then ''Verifying copy edits''
      else
        let remaining = (case number_field ''remainingCount'' stored of Some r \<Rightarrow> r | None \<Rightarrow> fallback) in
        if 0 < remaining then ''Applying '' @ edits ''copy edit'' remaining else ''Verifying copy edits'')"

definition pending_apply_label :: "int \<Rightarrow> string" where
  "pending_apply_label n = (if n = 1 then ''Apply copy edit'' else ''Apply copy edits'')"

definition reset_progress :: "int \<Rightarrow> int \<Rightarrow> dock \<Rightarrow> dock" where
  "reset_progress now tot d =
     (if tot \<le> 0 then d
      else write_state now
        [(''count'', JNum tot), (''totalOps'', JNum tot), (''completedOps'', JNum 0),
         (''remainingCount'', JNum tot), (''phase'', JStr ''applying''), (''startedAt'', JNum now)] d)"

section \<open>The dock\<close>

text \<open>\<open>refreshLiveControlsForManualApply\<close> closes the overlay's pickers and redraws its bars: it is counted.\<close>

definition refresh_controls :: "dock \<Rightarrow> dock" where
  "refresh_controls d = d\<lparr>refreshes := refreshes d + 1\<rparr>"

definition hide_dock :: "dock \<Rightarrow> dock" where
  "hide_dock d =
     (let d1 = clear_stored (d\<lparr>in_flight := False\<rparr>);
          d2 = (if built d then d1\<lparr>dock_shown := False, pill_count := 0, pill_shown := False, pill_disabled := False,
                     pill_busy := False, pill_name := ''Apply copy edits to source'', spinner := False,
                     pill_label := pending_apply_label 0, count_text := ''0'', count_shown := True,
                     trash_shown := False, trash_disabled := False, keep_shown := False, rollback_shown := False\<rparr>
                else d1)
      in refresh_controls d2)"

definition set_loading :: "int \<Rightarrow> bool \<Rightarrow> num \<Rightarrow> dock \<Rightarrow> dock" where
  "set_loading now loading cnt d =
     (if \<not> built d then d
      else
        let cur = or_count [cnt] (pill_count d);
            d1 = d\<lparr>in_flight := loading\<rparr>;
            d2 = (if loading then store_state now (Some cur) [] d1 else clear_stored d1);
            (text, d3) = (if loading then case read_stored now d2 of (v, e) \<Rightarrow> (loading_text_of v cur, e)
                          else (pending_apply_label cur, d2));
            d4 = d3\<lparr>spinner := loading, pill_label := text, count_shown := \<not> loading, pill_disabled := loading,
                     pill_busy := loading, trash_disabled := loading\<rparr>;
            d5 = (if loading then d4\<lparr>keep_shown := False, rollback_shown := False, trash_shown := True\<rparr> else d4)
        in refresh_controls d5)"

definition update_counter :: "int \<Rightarrow> num \<Rightarrow> dock \<Rightarrow> dock" where
  "update_counter now cnt d =
     (if \<not> built d then d
      else if \<not> num_less (Some 0) cnt then hide_dock d
      else
        let n = or_zero cnt;
            d1 = d\<lparr>pill_label := pending_apply_label n, count_text := show_int n,
                   pill_name := ''Apply '' @ edits ''copy edit'' n @ '' to source'', pill_shown := True,
                   trash_shown := True, dock_shown := True, pill_count := n\<rparr>;
            (resume, d2) = (if in_flight d1 then (True, d1) else should_resume now cnt d1)
        in if resume then set_loading now True cnt d2 else d2)"

definition chunk_patch :: "int \<Rightarrow> int \<Rightarrow> (string \<times> json) list" where
  "chunk_patch tot completed =
     (let remaining = max 0 (tot - completed) in
      [(''totalOps'', JNum tot), (''completedOps'', JNum completed), (''remainingCount'', JNum remaining),
       (''phase'', JStr (if 0 < remaining then ''applying'' else ''verifying''))])"

definition progress_from_chunk :: "int \<Rightarrow> json option \<Rightarrow> dock \<Rightarrow> dock" where
  "progress_from_chunk now chunk d =
     (if chunk = None \<or> \<not> in_flight d then d
      else
        let (stored, d1) = read_stored now d;
            tot = or_count [number_field ''totalOpCount'' chunk, number_field ''totalOps'' stored,
                              number_field ''count'' stored] (if built d1 then pill_count d1 else 0);
            completed = min tot (or_count [number_field ''completedOps'' stored] 0 + or_count [number_field ''opCount'' chunk] 0);
            d2 = store_state now (Some (or_count [number_field ''count'' stored] tot)) (chunk_patch tot completed) d1
        in set_loading now True (Some (max 0 (tot - completed))) d2)"

text \<open>\<open>Number(repair?.a || repair?.b) || m\<close>.\<close>

definition repair_number :: "string list \<Rightarrow> json option \<Rightarrow> int \<Rightarrow> int" where
  "repair_number ks v m = or_count [js_number (first_truthy (map (\<lambda>k. field k v) ks))] m"

definition shown_count :: "dock \<Rightarrow> int" where
  "shown_count d = (if built d then pill_count d else 0)"

definition repair_state :: "int \<Rightarrow> json option \<Rightarrow> string \<Rightarrow> dock \<Rightarrow> dock" where
  "repair_state now repair phase d =
     (let (cnt, d1) = (if shown_count d \<noteq> 0 then (shown_count d, d)
                         else case read_stored now d of (v, e) \<Rightarrow> (or_count [number_field ''count'' v] 0, e))
      in if cnt \<le> 0 then d1
         else set_loading now True (Some cnt)
           (store_state now (Some cnt)
             [(''phase'', JStr phase), (''repairAttempt'', JNum (repair_number [''attempt'', ''attempts''] repair 1)),
              (''repairMaxAttempts'', JNum (repair_number [''maxAttempts''] repair 3))] d1))"

definition show_decision :: "int \<Rightarrow> num \<Rightarrow> json option \<Rightarrow> dock \<Rightarrow> dock" where
  "show_decision now remaining repair d =
     (let cnt = or_count [Some (shown_count d), remaining] 0;
          d1 = store_state now (Some cnt)
                 [(''phase'', JStr ''repair-decision''),
                  (''repairAttempt'', JNum (or_count [number_field ''attempts'' repair, number_field ''attempt'' repair] 3)),
                  (''repairMaxAttempts'', JNum (or_count [number_field ''maxAttempts'' repair] 3))] (d\<lparr>in_flight := False\<rparr>);
          d2 = (if built d then d1\<lparr>spinner := False, pill_label := ''Apply needs attention'', count_shown := False,
                     pill_disabled := True, pill_busy := False, pill_shown := True, trash_shown := False,
                     keep_shown := True, rollback_shown := True, dock_shown := True\<rparr> else d1)
      in refresh_controls d2)"

definition maybe_first_save_toast :: "dock \<Rightarrow> dock" where
  "maybe_first_save_toast d =
     (if first_save d
      then toast (''Saved. Click '' @ [quote] @ ''Apply copy edits'' @ [quote] @ '' to write changes.'') (d\<lparr>first_save := False\<rparr>)
      else d)"

section \<open>The buttons and their answers\<close>

text \<open>\<open>confirmed\<close> is the answer of the dialogue. A disabled or hidden button fires no click.\<close>

definition pill_click :: "int \<Rightarrow> bool \<Rightarrow> dock \<Rightarrow> dock" where
  "pill_click now confirmed d =
     (if \<not> built d \<or> \<not> pill_shown d \<or> pill_disabled d then d
      else if pill_count d \<le> 0 \<or> in_flight d then d
      else if \<not> confirmed then d
      else ask Req_commit (set_loading now True (Some (pill_count d)) (reset_progress now (pill_count d) d)))"

definition page_count :: "string \<Rightarrow> json option \<Rightarrow> num" where
  "page_count path v = number_field path (field ''perPage'' v)"

definition remaining_count :: "json option \<Rightarrow> dock \<Rightarrow> num" where
  "remaining_count payload d =
     (case page_count (address d) payload of
        Some n \<Rightarrow> Some n
      | None \<Rightarrow> (case number_field ''remainingCount'' payload of
          Some n \<Rightarrow> Some n
        | None \<Rightarrow> if number_field ''totalCount'' payload = Some 0 then Some 0 else None))"

definition array_length :: "json option \<Rightarrow> int option" where
  "array_length v = (case v of Some (JArr vs) \<Rightarrow> Some (int (length vs)) | _ \<Rightarrow> None)"

definition settle_commit :: "int \<Rightarrow> dock \<Rightarrow> dock" where
  "settle_commit now d = (if 0 < shown_count d then set_loading now False None d else hide_dock d)"

definition failed_commit :: "int \<Rightarrow> dock \<Rightarrow> dock" where
  "failed_commit now d = settle_commit now (toast ''Apply failed - see console'' d)"

definition applied_count :: "json option \<Rightarrow> num" where
  "applied_count result =
     (case array_length (field ''applied'' result) of
        Some n \<Rightarrow> Some n
      | None \<Rightarrow> Some (or_count [number_field ''cleared'' result] 0))"

definition commit_done :: "int \<Rightarrow> json \<Rightarrow> dock \<Rightarrow> dock" where
  "commit_done now r d =
     (let result = Some r;
          d1 = update_counter now (remaining_count result d) d;
          failed = (case array_length (field ''failed'' result) of Some n \<Rightarrow> n | None \<Rightarrow> 0);
          n = or_zero (applied_count result);
          d2 = (if 0 < failed
                then toast (''Applied '' @ show_int (case array_length (field ''applied'' result) of Some k \<Rightarrow> k | None \<Rightarrow> 0) @
                       '', '' @ show_int failed @ '' failed - see console'') d1
                else if 0 < n then toast (''Applied '' @ edits ''edit'' n) d1
                else toast ''No edits applied - see console'' d1)
      in settle_commit now d2)"

definition commit_answered :: "nat \<Rightarrow> int \<Rightarrow> answer \<Rightarrow> dock \<Rightarrow> dock" where
  "commit_answered k now a d0 =
     (if \<not> k < length (requests d0) \<or> requests d0 ! k \<noteq> Req_commit then d0
      else
        let d = drop_request k d0 in
        case a of
          Lost \<Rightarrow> failed_commit now d
        | Answer ok status content \<Rightarrow>
            if \<not> ok then failed_commit now d
            else (case content of
                None \<Rightarrow> failed_commit now d
              | Some r \<Rightarrow>
                  if status = 202 \<or> field ''status'' (Some r) = Some (JStr ''started'') then d
                  else if r = JNull then failed_commit now d
                  else commit_done now r d))"

definition trash_click :: "bool \<Rightarrow> dock \<Rightarrow> dock" where
  "trash_click confirmed d =
     (if \<not> built d \<or> \<not> trash_shown d \<or> trash_disabled d then d
      else if pill_count d \<le> 0 \<or> in_flight d then d
      else if \<not> confirmed then d
      else ask (Req_discard (pill_count d)) d)"

text \<open>\<open>failures\<close> is what putting the texts of the answer back on the page returned.\<close>

definition discard_answered :: "nat \<Rightarrow> int \<Rightarrow> bool \<Rightarrow> nat \<Rightarrow> dock \<Rightarrow> dock" where
  "discard_answered k now ok failures d0 =
     (case (if k < length (requests d0) then requests d0 ! k else Req_count) of
        Req_discard n \<Rightarrow>
          let d = drop_request k d0 in
          if \<not> ok then toast ''Discard failed - see console'' d
          else
            let d1 = update_counter now (Some 0) d in
            toast (''Discarded '' @ edits ''copy edit'' n @
                   (if 0 < failures then '' - refresh to reset '' @ show_int (int failures) else [])) d1
      | _ \<Rightarrow> d0)"

definition keep_fixing_click :: "int \<Rightarrow> dock \<Rightarrow> dock" where
  "keep_fixing_click now d =
     (if \<not> built d \<or> \<not> keep_shown d then d
      else
        let (cnt, d1) = (if pill_count d \<noteq> 0 then (pill_count d, d)
                           else case read_stored now d of (v, e) \<Rightarrow> (or_count [number_field ''count'' v] 0, e))
        in if cnt \<le> 0 then d1
           else ask (Req_repair cnt) (repair_state now (Some (JObj [(''attempt'', JNum 1), (''maxAttempts'', JNum 3)])) ''repairing'' d1))"

text \<open>The stored state has no \<open>attempts\<close>, \<open>attempt\<close> or \<open>maxAttempts\<close>; the code reads them from it all the same.\<close>

definition repair_answered :: "nat \<Rightarrow> int \<Rightarrow> answer \<Rightarrow> dock \<Rightarrow> dock" where
  "repair_answered k now a d0 =
     (case (if k < length (requests d0) then requests d0 ! k else Req_count) of
        Req_repair cnt \<Rightarrow>
          let d = drop_request k d0; ok = (case a of Answer b _ _ \<Rightarrow> b | Lost \<Rightarrow> False) in
          if ok then (if built d then d\<lparr>keep_shown := False, rollback_shown := False, trash_shown := True\<rparr> else d)
          else
            let d1 = toast ''Repair retry failed - see console'' d; (stored, d2) = read_stored now d1
            in show_decision now (Some cnt) stored d2
      | _ \<Rightarrow> d0)"

definition rollback_click :: "bool \<Rightarrow> dock \<Rightarrow> dock" where
  "rollback_click confirmed d =
     (if \<not> built d \<or> \<not> rollback_shown d \<or> \<not> confirmed then d else ask Req_rollback d)"

definition rollback_answered :: "nat \<Rightarrow> int \<Rightarrow> answer \<Rightarrow> dock \<Rightarrow> dock" where
  "rollback_answered k now a d0 =
     (if \<not> k < length (requests d0) \<or> requests d0 ! k \<noteq> Req_rollback then d0
      else
        let d = drop_request k d0 in
        case a of
          Answer True _ content \<Rightarrow>
            if content = Some JNull then toast ''Rollback failed - see console'' (clear_stored d)
            else toast ''Rolled back source; copy edits are still staged.''
              (update_counter now (Some (or_count [number_field ''remainingCount'' content] 0)) (clear_stored d))
        | _ \<Rightarrow> toast ''Rollback failed - see console'' d)"

definition fetch_count :: "dock \<Rightarrow> dock" where
  "fetch_count d = ask Req_count d"

definition count_answered :: "nat \<Rightarrow> int \<Rightarrow> answer \<Rightarrow> dock \<Rightarrow> dock" where
  "count_answered k now a d0 =
     (if \<not> k < length (requests d0) \<or> requests d0 ! k \<noteq> Req_count then d0
      else
        let d = drop_request k d0 in
        case a of
          Answer True _ (Some r) \<Rightarrow>
            if r = JNull then d else update_counter now (Some (or_count [number_field ''count'' (Some r)] 0)) d
        | _ \<Rightarrow> d)"

section \<open>The messages of the server\<close>

definition for_current_page :: "json \<Rightarrow> dock \<Rightarrow> bool" where
  "for_current_page msg d \<longleftrightarrow>
     truthy_field ''pageUrl'' (Some msg) = None \<or> json_get ''pageUrl'' msg = Some (JStr (address d))"

definition commit_started :: "int \<Rightarrow> json \<Rightarrow> dock \<Rightarrow> dock" where
  "commit_started now msg d =
     (let n = number_field ''pendingCount'' (Some msg); some = num_less (Some 0) n;
          repair = (truthy_field ''repairOnly'' (Some msg) \<noteq> None);
          d1 = (if some then update_counter now n d else d);
          d2 = (if \<not> repair \<and> some then reset_progress now (or_zero n) d1 else d1);
          d3 = (if repair
                then repair_state now (Some (JObj [(''attempt'', JNum 1), (''maxAttempts'', JNum 3)])) ''repairing'' d2 else d2)
      in set_loading now True n d3)"

definition commit_over :: "int \<Rightarrow> json \<Rightarrow> dock \<Rightarrow> dock" where
  "commit_over now msg d =
     (let was = in_flight d;
          d1 = set_loading now False None d;
          d2 = update_counter now (Some (or_zero (remaining_count (Some msg) d1))) d1;
          failed = or_count [number_field ''failedCount'' (Some msg)] 0;
          applied = or_count [number_field ''appliedCount'' (Some msg), number_field ''cleared'' (Some msg)] 0
      in if \<not> was then d2
         else if 0 < failed
         then toast (''Applied '' @ show_int applied @ '', '' @ show_int failed @ '' failed - see console'') d2
         else if 0 < applied then toast (''Applied '' @ edits ''edit'' applied) d2
         else d2)"

definition manual_edit_activity :: "int \<Rightarrow> json \<Rightarrow> dock \<Rightarrow> dock" where
  "manual_edit_activity now msg d =
     (let kind = json_get ''type'' msg; chunk = truthy_field ''chunk'' (Some msg); repair = truthy_field ''repair'' (Some msg);
          decide = show_decision now (number_field ''remainingCount'' (Some msg)) (field ''repair'' (Some msg)) d
      in if \<not> for_current_page msg d then d
         else if kind = Some (JStr ''manual_edit_stashed'') then
           (case number_field ''pendingCount'' (Some msg) of None \<Rightarrow> d | Some n \<Rightarrow> update_counter now (Some n) d)
         else if kind = Some (JStr ''manual_edit_commit_started'') then commit_started now msg d
         else if kind = Some (JStr ''manual_edit_apply_reply_received'') then
           (let d1 = (if chunk = None then d else progress_from_chunk now chunk d)
            in if repair = None then d1 else repair_state now repair ''repairing'' d1)
         else if kind = Some (JStr ''manual_edit_apply_dispatched'') \<and> repair \<noteq> None then
           repair_state now repair ''repairing'' d
         else if kind = Some (JStr ''manual_edit_repair_needs_decision'') then decide
         else if kind = Some (JStr ''manual_edit_repair_rollback_done'') then fetch_count (clear_stored d)
         else if kind = Some (JStr ''manual_edit_commit_done'') then
           (if json_get ''reason'' msg = Some (JStr ''manual_edit_repair_needs_decision'') \<or>
               json_get ''needsManualDecision'' msg = Some (JBool True)
            then decide else commit_over now msg d)
         else if kind = Some (JStr ''manual_edit_commit_failed'') then fetch_count (set_loading now False None d)
         else if kind = Some (JStr ''manual_edit_discarded'') then fetch_count d
         else d)"

section \<open>Building, removing and reloading the dock\<close>

definition build_dock :: "dock \<Rightarrow> dock" where
  "build_dock d = d\<lparr>built := True, pill_count := 0, pill_shown := False, pill_disabled := False, pill_busy := False,
     pill_label := ''Apply copy edits'', pill_name := [], spinner := False, count_shown := True, count_text := [],
     trash_shown := False, trash_disabled := False, keep_shown := False, rollback_shown := False, dock_shown := False\<rparr>"

definition teardown_dock :: "dock \<Rightarrow> dock" where
  "teardown_dock d = (if built d then d\<lparr>built := False, in_flight := False\<rparr> else d)"

text \<open>A new page in the same tab: its storage and the server are what it keeps; it builds the dock and asks for the count.\<close>

definition load_dock :: "dock \<Rightarrow> dock" where
  "load_dock d = fetch_count (build_dock (d\<lparr>in_flight := False, first_save := True, requests := [], toasts := [], refreshes := 0\<rparr>))"

section \<open>Runs\<close>

datatype dock_event =
    Pill int bool | Trash bool | Keep int | Roll bool
  | Commit_answer nat int answer | Discard_answer nat int bool nat | Repair_answer nat int answer
  | Rollback_answer nat int answer | Count_answer nat int answer
  | Activity int json | Saved int num | Teardown | Reload

text \<open>\<open>Saved\<close>: the answer of a save from the editor, with its count.\<close>

fun dock_step :: "dock_event \<Rightarrow> dock \<Rightarrow> dock" where
  "dock_step (Pill now b) d = pill_click now b d"
| "dock_step (Trash b) d = trash_click b d"
| "dock_step (Keep now) d = keep_fixing_click now d"
| "dock_step (Roll b) d = rollback_click b d"
| "dock_step (Commit_answer k now a) d = commit_answered k now a d"
| "dock_step (Discard_answer k now ok n) d = discard_answered k now ok n d"
| "dock_step (Repair_answer k now a) d = repair_answered k now a d"
| "dock_step (Rollback_answer k now a) d = rollback_answered k now a d"
| "dock_step (Count_answer k now a) d = count_answered k now a d"
| "dock_step (Activity now msg) d = manual_edit_activity now msg d"
| "dock_step (Saved now n) d = maybe_first_save_toast (update_counter now n d)"
| "dock_step Teardown d = teardown_dock d"
| "dock_step Reload d = load_dock d"

definition dock_run :: "dock_event list \<Rightarrow> dock \<Rightarrow> dock" where
  "dock_run es d = foldl (\<lambda>s e. dock_step e s) d es"

section \<open>Lemmas\<close>

text \<open>What the storage operations leave alone.\<close>

lemma write_frame [simp]:
  "built (write_state now kvs d) = built d" "in_flight (write_state now kvs d) = in_flight d"
  "pill_count (write_state now kvs d) = pill_count d" "pill_shown (write_state now kvs d) = pill_shown d"
  "pill_disabled (write_state now kvs d) = pill_disabled d"
  "trash_disabled (write_state now kvs d) = trash_disabled d"
  "keep_shown (write_state now kvs d) = keep_shown d"
  "rollback_shown (write_state now kvs d) = rollback_shown d"
  "trash_shown (write_state now kvs d) = trash_shown d" "dock_shown (write_state now kvs d) = dock_shown d"
  "pill_label (write_state now kvs d) = pill_label d" "requests (write_state now kvs d) = requests d"
  "toasts (write_state now kvs d) = toasts d" "address (write_state now kvs d) = address d"
  "server (write_state now kvs d) = server d"
  by (simp_all add: write_state_def split: option.split sum.split)

lemma clear_frame [simp]:
  "built (clear_stored d) = built d" "in_flight (clear_stored d) = in_flight d"
  "pill_count (clear_stored d) = pill_count d" "pill_shown (clear_stored d) = pill_shown d"
  "pill_disabled (clear_stored d) = pill_disabled d" "trash_disabled (clear_stored d) = trash_disabled d"
  "keep_shown (clear_stored d) = keep_shown d" "rollback_shown (clear_stored d) = rollback_shown d"
  "trash_shown (clear_stored d) = trash_shown d" "dock_shown (clear_stored d) = dock_shown d"
  "pill_label (clear_stored d) = pill_label d" "requests (clear_stored d) = requests d"
  "toasts (clear_stored d) = toasts d" "address (clear_stored d) = address d"
  "server (clear_stored d) = server d"
  by (simp_all add: clear_stored_def)

lemma read_frame [simp]:
  "built (snd (read_stored now d)) = built d" "in_flight (snd (read_stored now d)) = in_flight d"
  "pill_count (snd (read_stored now d)) = pill_count d" "pill_shown (snd (read_stored now d)) = pill_shown d"
  "pill_disabled (snd (read_stored now d)) = pill_disabled d"
  "trash_disabled (snd (read_stored now d)) = trash_disabled d"
  "keep_shown (snd (read_stored now d)) = keep_shown d"
  "rollback_shown (snd (read_stored now d)) = rollback_shown d"
  "trash_shown (snd (read_stored now d)) = trash_shown d"
  "dock_shown (snd (read_stored now d)) = dock_shown d" "pill_label (snd (read_stored now d)) = pill_label d"
  "requests (snd (read_stored now d)) = requests d" "toasts (snd (read_stored now d)) = toasts d"
  "address (snd (read_stored now d)) = address d" "server (snd (read_stored now d)) = server d"
  by (simp_all add: read_stored_def split: option.split)

lemma store_frame [simp]:
  "built (store_state now n patch d) = built d" "in_flight (store_state now n patch d) = in_flight d"
  "pill_count (store_state now n patch d) = pill_count d"
  "pill_shown (store_state now n patch d) = pill_shown d"
  "pill_disabled (store_state now n patch d) = pill_disabled d"
  "trash_disabled (store_state now n patch d) = trash_disabled d"
  "keep_shown (store_state now n patch d) = keep_shown d"
  "rollback_shown (store_state now n patch d) = rollback_shown d"
  "trash_shown (store_state now n patch d) = trash_shown d"
  "dock_shown (store_state now n patch d) = dock_shown d"
  "pill_label (store_state now n patch d) = pill_label d" "requests (store_state now n patch d) = requests d"
  "toasts (store_state now n patch d) = toasts d" "address (store_state now n patch d) = address d"
  "server (store_state now n patch d) = server d"
  by (simp_all add: store_state_def Let_def case_prod_beta)

lemma reset_frame [simp]:
  "built (reset_progress now n d) = built d" "in_flight (reset_progress now n d) = in_flight d"
  "pill_count (reset_progress now n d) = pill_count d" "pill_shown (reset_progress now n d) = pill_shown d"
  "pill_disabled (reset_progress now n d) = pill_disabled d"
  "trash_disabled (reset_progress now n d) = trash_disabled d"
  "keep_shown (reset_progress now n d) = keep_shown d"
  "rollback_shown (reset_progress now n d) = rollback_shown d"
  "trash_shown (reset_progress now n d) = trash_shown d" "dock_shown (reset_progress now n d) = dock_shown d"
  "pill_label (reset_progress now n d) = pill_label d" "requests (reset_progress now n d) = requests d"
  "toasts (reset_progress now n d) = toasts d" "address (reset_progress now n d) = address d"
  "server (reset_progress now n d) = server d"
  by (simp_all add: reset_progress_def)

lemma resume_frame [simp]:
  "built (snd (should_resume now n d)) = built d" "in_flight (snd (should_resume now n d)) = in_flight d"
  "pill_count (snd (should_resume now n d)) = pill_count d"
  "pill_shown (snd (should_resume now n d)) = pill_shown d"
  "pill_disabled (snd (should_resume now n d)) = pill_disabled d"
  "trash_disabled (snd (should_resume now n d)) = trash_disabled d"
  "keep_shown (snd (should_resume now n d)) = keep_shown d"
  "rollback_shown (snd (should_resume now n d)) = rollback_shown d"
  "trash_shown (snd (should_resume now n d)) = trash_shown d"
  "dock_shown (snd (should_resume now n d)) = dock_shown d"
  "pill_label (snd (should_resume now n d)) = pill_label d"
  "requests (snd (should_resume now n d)) = requests d" "toasts (snd (should_resume now n d)) = toasts d"
  "address (snd (should_resume now n d)) = address d" "server (snd (should_resume now n d)) = server d"
  by (simp_all add: should_resume_def case_prod_beta)

lemma refresh_frame [simp]:
  "built (refresh_controls d) = built d" "in_flight (refresh_controls d) = in_flight d"
  "pill_count (refresh_controls d) = pill_count d" "pill_shown (refresh_controls d) = pill_shown d"
  "pill_disabled (refresh_controls d) = pill_disabled d"
  "trash_disabled (refresh_controls d) = trash_disabled d" "keep_shown (refresh_controls d) = keep_shown d"
  "rollback_shown (refresh_controls d) = rollback_shown d" "trash_shown (refresh_controls d) = trash_shown d"
  "dock_shown (refresh_controls d) = dock_shown d" "pill_label (refresh_controls d) = pill_label d"
  "requests (refresh_controls d) = requests d" "toasts (refresh_controls d) = toasts d"
  "address (refresh_controls d) = address d" "server (refresh_controls d) = server d"
  by (simp_all add: refresh_controls_def)

text \<open>The key in the storage.\<close>

lemma key_eq: "manual_apply_state_key d = manual_apply_state_key e" if "address d = address e" "server d = server e"
  using that by (simp add: manual_apply_state_key_def)

lemma stored_cleared [simp]: "stored_value (clear_stored d) = None"
  by (simp add: stored_value_def clear_stored_def manual_apply_state_key_def items.get_del truthy_str_def opt_str_def split: option.split)

lemma read_cleared: "stored_value d = None \<Longrightarrow> read_stored now d = (None, d)"
  by (simp add: read_stored_def)

lemma stored_cong:
  "tab_store d = tab_store e \<Longrightarrow> address d = address e \<Longrightarrow> server d = server e \<Longrightarrow> stored_value d = stored_value e"
  by (simp add: stored_value_def manual_apply_state_key_def split: option.split)

section \<open>The lock\<close>

definition locked :: "dock \<Rightarrow> bool" where
  "locked d \<longleftrightarrow> built d \<and> pill_disabled d \<and> trash_disabled d \<and> \<not> keep_shown d \<and> \<not> rollback_shown d"

definition dock_inv :: "dock \<Rightarrow> bool" where
  "dock_inv d \<longleftrightarrow> (in_flight d \<longrightarrow> locked d)"

lemma inv_if_same:
  "dock_inv d \<Longrightarrow> in_flight e = in_flight d \<Longrightarrow> built e = built d \<Longrightarrow> pill_disabled e = pill_disabled d \<Longrightarrow>
   trash_disabled e = trash_disabled d \<Longrightarrow> keep_shown e = keep_shown d \<Longrightarrow> rollback_shown e = rollback_shown d \<Longrightarrow> dock_inv e"
  by (simp add: dock_inv_def locked_def)

lemma inv_hide [intro]: "dock_inv (hide_dock d)"
  by (simp add: dock_inv_def hide_dock_def Let_def)

lemma inv_loading [intro]: "dock_inv d \<Longrightarrow> dock_inv (set_loading now b n d)"
  by (auto simp: dock_inv_def locked_def set_loading_def Let_def case_prod_beta)

lemma inv_counter [intro]: assumes "dock_inv d" shows "dock_inv (update_counter now n d)"
proof (cases "built d \<and> num_less (Some 0) n")
  case True
  let ?d1 = "d\<lparr>pill_label := pending_apply_label (or_zero n), count_text := show_int (or_zero n),
     pill_name := ''Apply '' @ edits ''copy edit'' (or_zero n) @ '' to source'', pill_shown := True,
     trash_shown := True, dock_shown := True, pill_count := or_zero n\<rparr>"
  have 1: "dock_inv ?d1" using assms by (simp add: dock_inv_def locked_def)
  moreover from 1 have "dock_inv (snd (should_resume now n ?d1))"
    by (rule inv_if_same) (simp_all only: resume_frame)
  ultimately show ?thesis using True
    by (simp add: update_counter_def Let_def case_prod_beta inv_loading del: resume_frame)
qed (use assms in \<open>auto simp: update_counter_def\<close>)

lemma inv_same_simps:
  "dock_inv (toast t d) = dock_inv d" "dock_inv (ask r d) = dock_inv d" "dock_inv (drop_request k d) = dock_inv d"
  "dock_inv (clear_stored d) = dock_inv d" "dock_inv (snd (read_stored now d)) = dock_inv d"
  "dock_inv (store_state now n patch d) = dock_inv d" "dock_inv (reset_progress now m d) = dock_inv d"
  "dock_inv (maybe_first_save_toast d) = dock_inv d" "dock_inv (fetch_count d) = dock_inv d"
  by (simp_all add: dock_inv_def locked_def toast_def ask_def drop_request_def maybe_first_save_toast_def fetch_count_def)

lemma inv_decision [intro]: "dock_inv (show_decision now n r d)"
  by (simp add: dock_inv_def show_decision_def Let_def)

lemma inv_repair [intro]: "dock_inv d \<Longrightarrow> dock_inv (repair_state now r p d)"
  by (auto simp: repair_state_def Let_def case_prod_beta inv_same_simps)

lemma inv_chunk [intro]: "dock_inv d \<Longrightarrow> dock_inv (progress_from_chunk now c d)"
  by (auto simp: progress_from_chunk_def Let_def case_prod_beta inv_same_simps)

lemma inv_settle [intro]: "dock_inv d \<Longrightarrow> dock_inv (settle_commit now d)"
  by (auto simp: settle_commit_def)

lemmas dock_inv_intros = inv_hide inv_loading inv_counter inv_decision inv_repair inv_chunk inv_settle

lemma inv_commit_done [intro]: "dock_inv d \<Longrightarrow> dock_inv (commit_done now r d)"
  by (auto simp: commit_done_def Let_def inv_same_simps intro!: inv_settle)

lemma inv_commit_over [intro]: "dock_inv d \<Longrightarrow> dock_inv (commit_over now msg d)"
  by (auto simp: commit_over_def Let_def inv_same_simps)

lemma inv_commit_started [intro]: "dock_inv d \<Longrightarrow> dock_inv (commit_started now msg d)"
  by (auto simp: commit_started_def Let_def inv_same_simps intro!: dock_inv_intros)

lemma inv_activity [intro]: "dock_inv d \<Longrightarrow> dock_inv (manual_edit_activity now msg d)"
  by (auto simp: manual_edit_activity_def Let_def inv_same_simps split: option.split)

lemma inv_clicks [intro]:
  assumes "dock_inv d"
  shows "dock_inv (pill_click now b d)" "dock_inv (trash_click b d)" "dock_inv (keep_fixing_click now d)"
    "dock_inv (rollback_click b d)"
  using assms
  by (auto simp: pill_click_def trash_click_def keep_fixing_click_def rollback_click_def Let_def case_prod_beta inv_same_simps)

lemma inv_commit_answered [intro]: "dock_inv d \<Longrightarrow> dock_inv (commit_answered k now a d)"
  by (auto simp: commit_answered_def failed_commit_def Let_def inv_same_simps split: answer.split option.split)

lemma inv_discard_answered [intro]: "dock_inv d \<Longrightarrow> dock_inv (discard_answered k now ok n d)"
  by (auto simp: discard_answered_def Let_def inv_same_simps split: request.split)

lemma inv_repair_answered [intro]: assumes "dock_inv d" shows "dock_inv (repair_answered k now a d)"
proof -
  have "dock_inv (e\<lparr>keep_shown := False, rollback_shown := False, trash_shown := True\<rparr>)" if "dock_inv e" for e
    using that by (simp add: dock_inv_def locked_def)
  with assms show ?thesis by (auto simp: repair_answered_def Let_def case_prod_beta inv_same_simps split: request.split)
qed

lemma inv_rollback_answered [intro]: "dock_inv d \<Longrightarrow> dock_inv (rollback_answered k now a d)"
  by (auto simp: rollback_answered_def Let_def inv_same_simps split: answer.split bool.split)

lemma inv_count_answered [intro]: "dock_inv d \<Longrightarrow> dock_inv (count_answered k now a d)"
  by (auto simp: count_answered_def Let_def inv_same_simps split: answer.split option.split bool.split)

lemma inv_load [intro]: "dock_inv (load_dock d)" "dock_inv d \<Longrightarrow> dock_inv (teardown_dock d)"
  by (simp_all add: load_dock_def inv_same_simps teardown_dock_def) (simp_all add: dock_inv_def build_dock_def)

lemma inv_step: "dock_inv d \<Longrightarrow> dock_inv (dock_step e d)"
  by (cases e) (auto simp: inv_same_simps)

lemma inv_run: "dock_inv d \<Longrightarrow> dock_inv (dock_run es d)"
  unfolding dock_run_def by (induction es arbitrary: d) (auto simp: inv_step)

section \<open>What is written is read\<close>

definition taken_state :: "int \<Rightarrow> (string \<times> json) list \<Rightarrow> dock \<Rightarrow> bool" where
  "taken_state now kvs d \<longleftrightarrow>
     (\<exists>t t'. tab_store d = Some t \<and> set_item t (manual_apply_state_key d) (print_json (applied_state now kvs d)) = Inr t')"

lemma wf_omap_set: "wf_json (JObj m) \<Longrightarrow> wf_json v \<Longrightarrow> wf_json (JObj (omap_set k v m))"
proof -
  have elem: "e = (k, v) \<or> e \<in> set m" if "e \<in> set (omap_set k v m)" for e
    using that by (induction k v m rule: omap_set.induct) (auto split: if_splits)
  then show "wf_json (JObj m) \<Longrightarrow> wf_json v \<Longrightarrow> wf_json (JObj (omap_set k v m))"
    by (auto simp: distinct_omap_set dest!: elem)
qed

lemma wf_foldl_set:
  "wf_json (JObj m) \<Longrightarrow> \<forall>e \<in> set es. wf_json (snd e) \<Longrightarrow> wf_json (JObj (foldl (\<lambda>m (k, v). omap_set k v m) m es))"
proof (induction es arbitrary: m)
  case (Cons e es)
  then have "wf_json (JObj (omap_set (fst e) (snd e) m))" by (intro wf_omap_set) simp_all
  with Cons.IH [OF this] Cons.prems show ?case by (simp add: case_prod_beta del: wf_json.simps)
qed simp

lemma stored_wf: "stored_value d = Some v \<Longrightarrow> wf_json v"
  by (auto simp: stored_value_def Let_def split: option.splits if_splits dest: json_parse_wf)

lemma field_wf: "wf_json v \<Longrightarrow> field k (Some v) = Some w \<Longrightarrow> wf_json w"
  by (cases v) (auto simp: field_def dest: map_of_SomeD)

lemma wf_next_state:
  assumes "\<forall>v. existing = Some v \<longrightarrow> wf_json v" "\<forall>e \<in> set patch. wf_json (snd e)"
  shows "wf_json (JObj (next_state now c patch existing))"
proof -
  have "wf_json w" if "truthy_field k existing = Some w" for k w
    using that assms(1) field_wf by (cases existing) (auto simp: truthy_field_def field_def split: option.splits if_splits)
  then show ?thesis unfolding next_state_def Let_def
    by (intro wf_foldl_set) (use assms(2) in \<open>auto split: option.split\<close>)
qed

lemma fresh_state: "\<not> stale now (applied_state now kvs d) e" if "address e = address d"
  using that by (simp add: stale_def applied_state_def truthy_field_def field_def map_of_omap_set num_less_def
      MANUAL_APPLY_STATE_TTL_MS_def)

lemma write_taken:
  assumes "taken_state now kvs d" "wf_json (JObj kvs)"
  shows "stored_value (write_state now kvs d) = Some (applied_state now kvs d)"
proof -
  from assms(1) obtain t t' where t: "tab_store d = Some t"
    and put: "set_item t (manual_apply_state_key d) (print_json (applied_state now kvs d)) = Inr t'"
    by (auto simp: taken_state_def)
  have "wf_json (applied_state now kvs d)" unfolding applied_state_def using assms(2) by (intro wf_omap_set) simp_all
  then have "json_parse (print_json (applied_state now kvs d)) = Some (applied_state now kvs d)" by (rule json_parse_print)
  moreover have "print_json (applied_state now kvs d) \<noteq> []" by (simp add: applied_state_def)
  ultimately show ?thesis
    using t put items.get_put [OF put]
    by (simp add: write_state_def stored_value_def manual_apply_state_key_def truthy_str_def opt_str_def)
qed

lemma write_again: "write_state now kvs (write_state now kvs d) = write_state now kvs d"
  by (auto simp: write_state_def applied_state_def manual_apply_state_key_def set_item_def Let_def split: option.split)

lemma applied_fields [simp]:
  "k \<noteq> ''expiresAt'' \<Longrightarrow> k \<noteq> ''updatedAt'' \<Longrightarrow> k \<noteq> ''pageUrl'' \<Longrightarrow>
   field k (Some (applied_state now kvs d)) = map_of kvs k"
  by (simp add: field_def applied_state_def map_of_omap_set)

section \<open>The label of a running apply\<close>

lemma loading_label:
  assumes "built d" "stored_value d = Some v" "\<not> stale now v d" "c' = or_count [c] (pill_count d)"
    and "0 < or_count [number_field ''totalOps'' (Some v), number_field ''count'' (Some v)] c' \<or> 0 < c'"
    and "kvs = next_state now c' [] (Some v)" "taken_state now kvs d"
  shows "pill_label (set_loading now True c d) = loading_text_of (Some (applied_state now kvs d)) c' \<and>
    stored_value (set_loading now True c d) = Some (applied_state now kvs d) \<and> in_flight (set_loading now True c d)"
proof -
  let ?d1 = "d\<lparr>in_flight := True\<rparr>"
  let ?d2 = "write_state now kvs ?d1"
  note c = assms(4) [symmetric]
  have same: "stored_value ?d1 = stored_value d" by (rule stored_cong) simp_all
  have "stale now v ?d1 = stale now v d" by (simp add: stale_def)
  then have read: "read_stored now ?d1 = (Some v, ?d1)" using assms(2,3) same by (simp add: read_stored_def)
  have cur: "or_count [Some c'] 0 = c'" by (simp add: or_count_def num_or_def num_truthy_def or_zero_def)
  have store: "store_state now (Some c') [] ?d1 = ?d2"
    using assms(5,6) by (auto simp: store_state_def read cur)
  have "taken_state now kvs ?d1" using assms(7) by (simp add: taken_state_def applied_state_def manual_apply_state_key_def)
  moreover have "wf_json (JObj kvs)" using assms(2,6) stored_wf [OF assms(2)] by (auto intro!: wf_next_state simp del: wf_json.simps)
  ultimately have kept: "stored_value ?d2 = Some (applied_state now kvs ?d1)" by (rule write_taken)
  have applied: "applied_state now kvs ?d1 = applied_state now kvs d" by (simp add: applied_state_def)
  have read2: "read_stored now ?d2 = (Some (applied_state now kvs d), ?d2)"
    using kept fresh_state [of ?d2 d now kvs] by (simp add: read_stored_def applied)
  have final: "stored_value (set_loading now True c d) = stored_value ?d2"
    by (rule stored_cong) (simp_all add: set_loading_def assms(1) c Let_def store read2 refresh_controls_def)
  then show ?thesis
    by (simp add: final kept applied) (simp add: set_loading_def assms(1) c store read2 refresh_controls_def)
qed

lemma or_count_nonzero: "n \<noteq> 0 \<Longrightarrow> or_count [Some n] m = n" "n \<noteq> 0 \<Longrightarrow> or_count [Some n, x] m = n" "or_count [Some n] 0 = n"
  by (simp_all add: or_count_def num_or_def num_truthy_def or_zero_def)

lemma or_count_last: "m \<noteq> 0 \<Longrightarrow> or_count [x] m \<noteq> 0"
  by (simp add: or_count_def num_or_def num_truthy_def or_zero_def split: option.split)

lemma taken_again: "taken_state now kvs d \<Longrightarrow> taken_state now kvs (write_state now kvs d)"
  by (auto simp: taken_state_def write_state_def applied_state_def manual_apply_state_key_def set_item_def Let_def
      split: if_splits)

lemma number_of_field: "k \<noteq> ''expiresAt'' \<Longrightarrow> k \<noteq> ''updatedAt'' \<Longrightarrow> k \<noteq> ''pageUrl'' \<Longrightarrow>
   number_field k (Some (applied_state now kvs d)) = js_number (map_of kvs k)"
  by (simp add: number_field_def)

text \<open>The write of a chunk, and what the next write without a patch makes of it: the same.\<close>

lemma chunk_state:
  assumes "number_field ''totalOps'' (Some v) = Some T" "T \<noteq> 0" "c0 = or_count [number_field ''count'' (Some v)] T"
  shows "next_state now c0 (chunk_patch T C) (Some v) =
    [(''count'', JNum c0), (''totalOps'', JNum T), (''completedOps'', JNum C), (''remainingCount'', JNum (max 0 (T - C))),
     (''phase'', JStr (if 0 < max 0 (T - C) then ''applying'' else ''verifying'')),
     (''startedAt'', JNum (or_count [number_field ''startedAt'' (Some v)] now))]"
proof -
  have c0: "or_count [number_field ''count'' (Some v), Some c0] T = c0"
    using assms(2,3) or_count_last [of T "number_field ''count'' (Some v)"]
    by (simp add: or_count_def num_or_def num_truthy_def or_zero_def split: option.splits)
  have T: "or_count [Some T, x] y = T" "or_count [Some T] y = T" for x y using assms(2) by (simp_all add: or_count_nonzero)
  show ?thesis by (simp add: next_state_def chunk_patch_def Let_def assms(1) T c0)
qed

lemma chunk_state_again:
  assumes "T \<noteq> 0" "c0 \<noteq> 0" "kvs = [(''count'', JNum c0), (''totalOps'', JNum T), (''completedOps'', JNum C),
      (''remainingCount'', JNum r), (''phase'', JStr p), (''startedAt'', JNum s)]"
    and "p \<noteq> []" "s = or_count [x] now"
  shows "next_state now c' [] (Some (applied_state now kvs d)) = kvs"
proof -
  have "or_count [Some s] now = s" using assms(5)
    by (simp add: or_count_def num_or_def num_truthy_def or_zero_def split: option.splits if_splits)
  moreover have "truthy_field ''phase'' (Some (applied_state now kvs d)) = Some (JStr p)"
    using assms(3,4) by (simp add: truthy_field_def)
  ultimately show ?thesis using assms(1-3)
    by (simp add: next_state_def Let_def number_of_field or_count_nonzero)
qed

section \<open>Properties\<close>

text \<open>
  The progress of an apply is what was staged less what was applied. A chunk of \<open>n\<close> edits takes the
  stored progress from \<open>C\<close> of \<open>T\<close> to the smaller of \<open>C + n\<close> and \<open>T\<close>; what remains is never negative, the
  button names exactly that number, and says that the edits are being verified when none is left. The
  apply stays in flight. The tab's storage takes the write.
\<close>

theorem chunk_progress:
  assumes "built d" "in_flight d" "stored_value d = Some v" "\<not> stale now v d"
    and T: "number_field ''totalOps'' (Some v) = Some T" "0 < T" and C: "number_field ''completedOps'' (Some v) = Some C"
    and n: "number_field ''opCount'' (Some ch) = Some n" "number_field ''totalOpCount'' (Some ch) \<in> {None, Some T}"
    and taken: "taken_state now (next_state now (or_count [number_field ''count'' (Some v)] T) (chunk_patch T (min T (C + n))) (Some v)) d"
  shows "\<exists>w. stored_value (progress_from_chunk now (Some ch) d) = Some w \<and>
    number_field ''totalOps'' (Some w) = Some T \<and> number_field ''completedOps'' (Some w) = Some (min T (C + n)) \<and>
    number_field ''remainingCount'' (Some w) = Some (T - min T (C + n)) \<and> 0 \<le> T - min T (C + n) \<and>
    in_flight (progress_from_chunk now (Some ch) d) \<and>
    pill_label (progress_from_chunk now (Some ch) d) =
      (if C + n < T then ''Applying '' @ edits ''copy edit'' (T - (C + n)) else ''Verifying copy edits'')"
proof -
  let ?C = "min T (C + n)" and ?c0 = "or_count [number_field ''count'' (Some v)] T"
  let ?r = "max 0 (T - ?C)"
  obtain kvs where kvs: "kvs = next_state now ?c0 (chunk_patch T ?C) (Some v)" by simp
  have c0: "?c0 \<noteq> 0" using T(2) or_count_last by simp
  note form = chunk_state [OF T(1) _ refl, of now ?C, folded kvs]
  have wf: "wf_json (JObj kvs)" unfolding kvs
    by (intro wf_next_state) (use stored_wf [OF assms(3)] in \<open>auto simp: chunk_patch_def Let_def\<close>)
  let ?d2 = "write_state now kvs d"
  have read: "read_stored now d = (Some v, d)" using assms(3,4) by (simp add: read_stored_def)
  have tot: "or_count [number_field ''totalOpCount'' (Some ch), Some T, x] y = T" for x y
    using n(2) T(2) by (auto simp: or_count_def num_or_def num_truthy_def or_zero_def)
  have store: "store_state now (Some ?c0) (chunk_patch T ?C) d = ?d2"
    using T by (simp add: store_state_def read or_count_nonzero kvs)
  have e: "progress_from_chunk now (Some ch) d = set_loading now True (Some ?r) ?d2"
    using assms(1,2) by (simp add: progress_from_chunk_def read T(1) C n(1) tot or_count_nonzero store)
  have kept: "stored_value ?d2 = Some (applied_state now kvs d)" using taken wf unfolding kvs by (rule write_taken)
  have again: "next_state now c' [] (Some (applied_state now kvs d)) = kvs" for c'
    using T(2) c0 form by (intro chunk_state_again [OF _ _ form [OF _]]) simp_all
  have form': "kvs = [(''count'', JNum ?c0), (''totalOps'', JNum T), (''completedOps'', JNum ?C), (''remainingCount'', JNum ?r),
      (''phase'', JStr (if 0 < ?r then ''applying'' else ''verifying'')),
      (''startedAt'', JNum (or_count [number_field ''startedAt'' (Some v)] now))]"
    using form T(2) by simp
  let ?w = "applied_state now kvs ?d2"
  have w: "applied_state now kvs d = ?w" by (simp add: applied_state_def)
  have fields: "number_field ''totalOps'' (Some ?w) = Some T" "number_field ''completedOps'' (Some ?w) = Some ?C"
    "number_field ''remainingCount'' (Some ?w) = Some ?r"
    "field ''phase'' (Some ?w) = Some (JStr (if 0 < ?r then ''applying'' else ''verifying''))"
    by (simp_all add: number_of_field form')
  have "0 < or_count [number_field ''totalOps'' (Some ?w), number_field ''count'' (Some ?w)] c' \<or> 0 < c'" for c'
    using T(2) by (simp add: fields(1) or_count_nonzero)
  from loading_label [OF _ kept [unfolded w] _ refl this again [unfolded w, symmetric]]
  have l: "pill_label (set_loading now True (Some ?r) ?d2) = loading_text_of (Some ?w) (or_count [Some ?r] (pill_count ?d2)) \<and>
      stored_value (set_loading now True (Some ?r) ?d2) = Some ?w \<and> in_flight (set_loading now True (Some ?r) ?d2)"
    using assms(1) taken [folded kvs] taken_again fresh_state [of ?d2 ?d2] by simp
  have "loading_text_of (Some ?w) m = (if C + n < T then ''Applying '' @ edits ''copy edit'' (T - (C + n)) else ''Verifying copy edits'')" for m
    using fields(3,4) by (auto simp: loading_text_of_def Let_def)
  with l fields show ?thesis by (intro exI [of _ ?w]) (simp add: e)
qed

text \<open>A tab with room for two states and no more.\<close>

definition progress_state :: "int \<Rightarrow> string \<Rightarrow> (string \<times> json) list" where
  "progress_state n phase =
     [(''count'', JNum 3), (''totalOps'', JNum 3), (''completedOps'', JNum n), (''remainingCount'', JNum (3 - n)),
      (''phase'', JStr phase), (''startedAt'', JNum 5)]"

definition sample_dock :: dock where
  "sample_dock = \<lparr>tab_store = None, address = ''/'', server = ''8400:t'', built = True, in_flight = True,
     pill_count = 3, pill_shown = True, pill_disabled = True, pill_busy = True, pill_label = [], pill_name = [],
     spinner = True, count_shown = False, count_text = ''3'', trash_shown = True, trash_disabled = True,
     keep_shown = False, rollback_shown = False, dock_shown = True, first_save = False, requests = [], toasts = [],
     refreshes = 0\<rparr>"

definition state_size :: "int \<Rightarrow> (string \<times> json) list \<Rightarrow> nat" where
  "state_size now kvs =
     storage_size [(manual_apply_state_key sample_dock, print_json (applied_state now kvs sample_dock))]"

definition stored_dock :: dock where
  "stored_dock = write_state 5 (progress_state 0 ''applying'')
     (sample_dock\<lparr>tab_store := Some (empty_storage (state_size 5 (progress_state 0 ''applying'') + state_size 6 (progress_state 2 ''applying'')))\<rparr>)"

lemma stored_dock_eq:
  "stored_dock = sample_dock\<lparr>tab_store := Some \<lparr>entries =
     [(manual_apply_state_key sample_dock, print_json (applied_state 5 (progress_state 0 ''applying'') sample_dock))],
     quota = state_size 5 (progress_state 0 ''applying'') + state_size 6 (progress_state 2 ''applying'')\<rparr>\<rparr>"
  by (simp add: stored_dock_def write_state_def set_item_def empty_storage_def state_size_def storage_size_def
      manual_apply_state_key_def applied_state_def)

lemma stored_dock_state: "stored_value stored_dock = Some (applied_state 5 (progress_state 0 ''applying'') stored_dock)"
proof -
  have v: "applied_state 5 k stored_dock = applied_state 5 k sample_dock" for k by (simp add: applied_state_def stored_dock_eq)
  have "wf_json (applied_state 5 (progress_state 0 ''applying'') sample_dock)"
    unfolding applied_state_def by (intro wf_omap_set) (simp_all add: progress_state_def)
  then have "json_parse (print_json (applied_state 5 (progress_state 0 ''applying'') sample_dock)) =
      Some (applied_state 5 (progress_state 0 ''applying'') sample_dock)" by (rule json_parse_print)
  moreover have "print_json (applied_state 5 (progress_state 0 ''applying'') sample_dock) \<noteq> []" by (simp add: applied_state_def)
  ultimately show ?thesis unfolding v
    by (simp add: stored_value_def stored_dock_eq get_item_def manual_apply_state_key_def truthy_str_def opt_str_def)
qed

lemma sample_dock_built: "built sample_dock" "toasts sample_dock = []"
  by (simp_all add: sample_dock_def)

lemma chunk_progress_witness:
  "pill_label (progress_from_chunk 6 (Some (JObj [(''opCount'', JNum 2)])) stored_dock) = ''Applying 1 copy edit''"
proof -
  let ?v = "applied_state 5 (progress_state 0 ''applying'') stored_dock"
  have f: "number_field ''totalOps'' (Some ?v) = Some 3" "number_field ''completedOps'' (Some ?v) = Some 0"
    "number_field ''count'' (Some ?v) = Some 3" "number_field ''startedAt'' (Some ?v) = Some 5"
    by (simp_all add: number_of_field progress_state_def)
  have 2: "\<not> stale 6 ?v stored_dock"
    by (simp add: stale_def applied_state_def truthy_field_def field_def map_of_omap_set num_less_def MANUAL_APPLY_STATE_TTL_MS_def)
  have "next_state 6 (or_count [number_field ''count'' (Some ?v)] 3) (chunk_patch 3 (min 3 (0 + 2))) (Some ?v) = progress_state 2 ''applying''"
    using chunk_state [OF f(1) _ refl, of 6 2] f by (simp add: progress_state_def or_count_nonzero)
  moreover have "taken_state 6 (progress_state 2 ''applying'') stored_dock"
    by (simp add: taken_state_def stored_dock_eq set_item_def state_size_def storage_size_def manual_apply_state_key_def applied_state_def)
  ultimately have 3: "taken_state 6 (next_state 6 (or_count [number_field ''count'' (Some ?v)] 3) (chunk_patch 3 (min 3 (0 + 2))) (Some ?v)) stored_dock"
    by simp
  have label: "edits ''copy edit'' (3 - (0 + 2)) = ''1 copy edit''" by code_simp
  have ready: "built stored_dock" "in_flight stored_dock" by (simp_all add: stored_dock_eq sample_dock_def)
  have n: "number_field ''opCount'' (Some (JObj [(''opCount'', JNum 2)])) = Some 2"
    "number_field ''totalOpCount'' (Some (JObj [(''opCount'', JNum 2)])) \<in> {None, Some 3}"
    by (simp_all add: number_field_def field_def)
  have "(0 :: int) < 3" by simp
  from chunk_progress [OF ready stored_dock_state 2 f(1) this f(2) n 3] label show ?thesis by auto
qed



lemma unlocked:
  assumes "built d"
  shows "\<not> in_flight (set_loading now False c d)" "\<not> pill_disabled (set_loading now False c d)"
    "\<not> trash_disabled (set_loading now False c d)" "stored_value (set_loading now False c d) = None"
    "address (set_loading now False c d) = address d" "built (set_loading now False c d)"
    "pill_shown (set_loading now False c d) = pill_shown d" "pill_count (set_loading now False c d) = pill_count d"
    "dock_shown (set_loading now False c d) = dock_shown d" "toasts (set_loading now False c d) = toasts d"
proof -
  have "stored_value (set_loading now False c d) = stored_value (clear_stored d)"
    using assms by (intro stored_cong) (simp_all add: set_loading_def refresh_controls_def clear_stored_def manual_apply_state_key_def)
  then show "stored_value (set_loading now False c d) = None" by simp
qed (use assms in \<open>simp_all add: set_loading_def\<close>)

lemma hidden:
  "\<not> in_flight (hide_dock d)" "stored_value (hide_dock d) = None" "toasts (hide_dock d) = toasts d"
  "built (hide_dock d) = built d" "address (hide_dock d) = address d"
  "built d \<Longrightarrow> pill_count (hide_dock d) = 0 \<and> \<not> dock_shown (hide_dock d) \<and> \<not> pill_disabled (hide_dock d) \<and> \<not> trash_disabled (hide_dock d)"
proof -
  have "stored_value (hide_dock d) = stored_value (clear_stored d)"
    by (rule stored_cong) (simp_all add: hide_dock_def Let_def refresh_controls_def clear_stored_def manual_apply_state_key_def)
  then show "stored_value (hide_dock d) = None" by simp
qed (simp_all add: hide_dock_def Let_def)

lemma toast_frame [simp]:
  "in_flight (toast t d) = in_flight d" "stored_value (toast t d) = stored_value d" "pill_disabled (toast t d) = pill_disabled d"
  "trash_disabled (toast t d) = trash_disabled d" "pill_shown (toast t d) = pill_shown d" "dock_shown (toast t d) = dock_shown d"
  "pill_count (toast t d) = pill_count d" "built (toast t d) = built d" "toasts (toast t d) = toasts d @ [t]"
  "requests (toast t d) = requests d"
  by (rule stored_cong | simp add: toast_def)+

lemma counter_idle:
  assumes "built d" "\<not> in_flight d" "stored_value d = None" "0 < n"
  shows "update_counter now (Some n) d = d\<lparr>pill_label := pending_apply_label n, count_text := show_int n,
     pill_name := ''Apply '' @ edits ''copy edit'' n @ '' to source'', pill_shown := True,
     trash_shown := True, dock_shown := True, pill_count := n\<rparr>"
proof -
  have "stored_value (d\<lparr>pill_label := a, count_text := b, pill_name := c, pill_shown := True, trash_shown := True,
      dock_shown := True, pill_count := n\<rparr>) = None" for a b c
    using stored_cong [of "d\<lparr>pill_label := a, count_text := b, pill_name := c, pill_shown := True, trash_shown := True,
      dock_shown := True, pill_count := n\<rparr>" d] assms(3) by simp
  then show ?thesis
    using assms(1,2,4) by (simp add: update_counter_def num_less_def or_zero_def should_resume_def read_cleared)
qed

text \<open>
  An apply that is over unlocks the dock. When the server reports the end of a commit that needs no
  decision, nothing is in flight and the tab's storage has no running apply, whatever it had; if edits
  remain staged they are shown with a button that can be clicked again, otherwise the dock is hidden.
\<close>

theorem finished_apply_unlocks:
  assumes "built d" "for_current_page msg d" "json_get ''type'' msg = Some (JStr ''manual_edit_commit_done'')"
    and "json_get ''reason'' msg \<noteq> Some (JStr ''manual_edit_repair_needs_decision'')"
    and "json_get ''needsManualDecision'' msg \<noteq> Some (JBool True)"
  shows "\<not> in_flight (manual_edit_activity now msg d) \<and> stored_value (manual_edit_activity now msg d) = None \<and>
    \<not> pill_disabled (manual_edit_activity now msg d) \<and> \<not> trash_disabled (manual_edit_activity now msg d) \<and>
    (case remaining_count (Some msg) d of
       Some n \<Rightarrow> if 0 < n then pill_shown (manual_edit_activity now msg d) \<and> dock_shown (manual_edit_activity now msg d) \<and>
                   pill_count (manual_edit_activity now msg d) = n
                 else \<not> dock_shown (manual_edit_activity now msg d)
     | None \<Rightarrow> \<not> dock_shown (manual_edit_activity now msg d))"
proof -
  let ?d1 = "set_loading now False None d"
  have same: "remaining_count (Some msg) ?d1 = remaining_count (Some msg) d"
    using unlocked(5) [OF assms(1), of now None] by (simp add: remaining_count_def)
  let ?n = "or_zero (remaining_count (Some msg) d)"
  let ?d2 = "update_counter now (Some ?n) ?d1"
  have "manual_edit_activity now msg d = commit_over now msg d"
    using assms(2-5) by (simp add: manual_edit_activity_def Let_def)
  moreover have "\<exists>t. commit_over now msg d = ?d2 \<or> commit_over now msg d = toast t ?d2"
    by (simp add: commit_over_def Let_def same) blast
  ultimately obtain t where e: "manual_edit_activity now msg d = ?d2 \<or> manual_edit_activity now msg d = toast t ?d2" by auto
  show ?thesis
  proof (cases "0 < ?n")
    case True
    then obtain n where n: "remaining_count (Some msg) d = Some n" "0 < n"
      by (cases "remaining_count (Some msg) d") (auto simp: or_zero_def)
    note c = counter_idle [OF unlocked(6,1,4) [OF assms(1)], of ?n now now]
    have "stored_value ?d2 = stored_value ?d1" using True by (subst c) (auto intro: stored_cong)
    then show ?thesis using e True n c toast_frame unlocked [OF assms(1), of now None] by (auto simp: or_zero_def)
  next
    case False
    then have "?d2 = hide_dock ?d1" by (simp add: update_counter_def unlocked(6) [OF assms(1)] num_less_def)
    then show ?thesis using e False toast_frame hidden(1,2) hidden(6) [OF unlocked(6) [OF assms(1), of now None]]
      by (auto simp: or_zero_def split: option.splits)
  qed
qed

lemma finished_apply_unlocks_witness:
  "\<not> in_flight (manual_edit_activity 1 (JObj [(''type'', JStr ''manual_edit_commit_done''), (''remainingCount'', JNum 2)]) sample_dock) \<and>
   pill_count (manual_edit_activity 1 (JObj [(''type'', JStr ''manual_edit_commit_done''), (''remainingCount'', JNum 2)]) sample_dock) = 2"
proof -
  let ?msg = "JObj [(''type'', JStr ''manual_edit_commit_done''), (''remainingCount'', JNum 2)]"
  have 1: "for_current_page ?msg sample_dock" by (simp add: for_current_page_def truthy_field_def field_def)
  have 2: "remaining_count (Some ?msg) sample_dock = Some 2"
    by (simp add: remaining_count_def page_count_def number_field_def field_def)
  have 3: "json_get ''type'' ?msg = Some (JStr ''manual_edit_commit_done'')"
    "json_get ''reason'' ?msg \<noteq> Some (JStr ''manual_edit_repair_needs_decision'')"
    "json_get ''needsManualDecision'' ?msg \<noteq> Some (JBool True)" by simp_all
  show ?thesis using finished_apply_unlocks [OF _ 1 3, of 1] by (simp only: 2) (simp add: sample_dock_def)
qed

text \<open>
  The answer to a commit settles it. Unless the server says that the commit has started and will
  report, any answer - a lost connection, an error status, a body that is no JSON, a result - ends it: the
  request is gone, nothing is in flight, the tab's storage has no running apply, the buttons are
  unlocked and exactly one message says what happened.
\<close>

theorem commit_answer_settles:
  assumes "built d" "k < length (requests d)" "requests d ! k = Req_commit"
    and "\<nexists>status r. a = Answer True status (Some r) \<and> (status = 202 \<or> field ''status'' (Some r) = Some (JStr ''started''))"
  shows "\<not> in_flight (commit_answered k now a d) \<and> stored_value (commit_answered k now a d) = None \<and>
    \<not> pill_disabled (commit_answered k now a d) \<and> \<not> trash_disabled (commit_answered k now a d) \<and>
    (\<exists>t. toasts (commit_answered k now a d) = toasts d @ [t])"
proof -
  have settled: "\<not> in_flight (settle_commit now e) \<and> stored_value (settle_commit now e) = None \<and>
      \<not> pill_disabled (settle_commit now e) \<and> \<not> trash_disabled (settle_commit now e) \<and> toasts (settle_commit now e) = toasts e"
    if "built e" for e
    using that unlocked [OF that, of now None] hidden [of e] by (simp add: settle_commit_def)
  have counted: "built (update_counter now n e) = built e \<and> toasts (update_counter now n e) = toasts e" if "built e" for n e
    using that by (simp add: update_counter_def Let_def case_prod_beta hidden set_loading_def)
  let ?d = "drop_request k d"
  have d: "built ?d" "toasts ?d = toasts d" using assms(1) by (simp_all add: drop_request_def)
  have "(\<exists>t. commit_answered k now a d = settle_commit now (toast t ?d)) \<or>
      (\<exists>r t. commit_answered k now a d = settle_commit now (toast t (update_counter now (remaining_count (Some r) ?d) ?d)))"
    using assms(2-4) by (auto simp: commit_answered_def failed_commit_def commit_done_def Let_def split: answer.split option.split)
  then show ?thesis using settled counted d by auto
qed

lemma commit_answer_settles_witness:
  "let d = commit_answered 0 3 (Answer False 500 None) (sample_dock\<lparr>requests := [Req_commit]\<rparr>)
   in \<not> in_flight d \<and> \<not> pill_disabled d \<and> toasts d = [''Apply failed - see console'']"
proof -
  have 1: "0 < length (requests (sample_dock\<lparr>requests := [Req_commit]\<rparr>))" by simp
  have 2: "toasts (commit_answered 0 3 (Answer False 500 None) (sample_dock\<lparr>requests := [Req_commit]\<rparr>)) =
      [''Apply failed - see console'']" by code_simp
  from commit_answer_settles [OF _ 1, of "Answer False 500 None" 3] 2 show ?thesis by (simp add: sample_dock_built Let_def)
qed

section \<open>What the decision of a repair meets\<close>

text \<open>
  After a rollback the edits are staged and shown, but their button stays disabled, and the buttons
  of the decision stay.
\<close>

lemma rollback_leaves_apply_disabled:
  assumes "built d" "pill_disabled d" "keep_shown d" "\<not> in_flight d" "requests d = [Req_rollback]"
    and "number_field ''remainingCount'' (Some (JObj r)) = Some n" "0 < n"
  shows "pill_count (rollback_answered 0 now (Answer True 200 (Some (JObj r))) d) = n \<and>
    keep_shown (rollback_answered 0 now (Answer True 200 (Some (JObj r))) d) \<and>
    pill_click later True (rollback_answered 0 now (Answer True 200 (Some (JObj r))) d) =
      rollback_answered 0 now (Answer True 200 (Some (JObj r))) d"
proof -
  let ?d = "clear_stored (drop_request 0 d)"
  have "update_counter now (Some n) ?d = ?d\<lparr>pill_label := pending_apply_label n, count_text := show_int n,
     pill_name := ''Apply '' @ edits ''copy edit'' n @ '' to source'', pill_shown := True,
     trash_shown := True, dock_shown := True, pill_count := n\<rparr>"
    using assms by (intro counter_idle) (simp_all add: drop_request_def)
  then show ?thesis
    using assms by (simp add: rollback_answered_def Let_def or_count_nonzero pill_click_def toast_def drop_request_def)
qed

text \<open>
  A count that arrives while a decision is open takes it away: the stored state of the decision counts
  as a running apply, so all buttons are locked or hidden and the overlay is busy.
\<close>

lemma decision_lost_on_count:
  assumes "built d" "stored_value d = Some v" "\<not> stale now v d" "0 < n"
  shows "in_flight (update_counter now (Some n) d) \<and> pill_disabled (update_counter now (Some n) d) \<and>
    trash_disabled (update_counter now (Some n) d) \<and> \<not> keep_shown (update_counter now (Some n) d) \<and>
    \<not> rollback_shown (update_counter now (Some n) d)"
proof -
  let ?d1 = "d\<lparr>pill_label := pending_apply_label n, count_text := show_int n,
     pill_name := ''Apply '' @ edits ''copy edit'' n @ '' to source'', pill_shown := True,
     trash_shown := True, dock_shown := True, pill_count := n\<rparr>"
  have "stored_value ?d1 = Some v" using stored_cong [of ?d1 d] assms(2) by simp
  moreover have "stale now v ?d1 = stale now v d" by (simp add: stale_def)
  ultimately have "should_resume now (Some n) ?d1 = (True, ?d1)"
    using assms(3,4) by (simp add: should_resume_def read_stored_def num_less_def)
  then show ?thesis using assms(1,4) by (simp add: update_counter_def num_less_def or_zero_def Let_def set_loading_def case_prod_beta)
qed

text \<open>
  The number of a repair attempt is stored and at once dropped: the label names the first of three
  attempts whichever it is.
\<close>

lemma repair_attempt_never_shown:
  assumes "built d" "pill_count d = n" "0 < n" "kvs = next_state now n
      [(''phase'', JStr ''repairing''), (''repairAttempt'', JNum (repair_number [''attempt'', ''attempts''] r 1)),
       (''repairMaxAttempts'', JNum (repair_number [''maxAttempts''] r 3))] (fst (read_stored now d))"
    and "taken_state now kvs (snd (read_stored now d))"
    and "taken_state now (next_state now n [] (Some (applied_state now kvs (snd (read_stored now d)))))
      (write_state now kvs (snd (read_stored now d)))"
  shows "pill_label (repair_state now r ''repairing'' d) = ''Fixing apply issue, attempt 1/3''"
proof -
  let ?d1 = "snd (read_stored now d)"
  let ?d2 = "write_state now kvs ?d1" and ?w = "applied_state now kvs ?d1"
  let ?kvs2 = "next_state now n [] (Some ?w)"
  have "\<forall>v. fst (read_stored now d) = Some v \<longrightarrow> wf_json v"
    by (auto simp: read_stored_def stored_wf split: option.splits if_splits)
  then have "wf_json (JObj kvs)" unfolding assms(4) by (intro wf_next_state) simp_all
  with assms(5) have kept: "stored_value ?d2 = Some ?w" by (rule write_taken)
  have e: "repair_state now r ''repairing'' d = set_loading now True (Some n) ?d2"
    using assms(1-4) by (simp add: repair_state_def shown_count_def store_state_def or_count_nonzero case_prod_beta)
  have phase: "field ''phase'' (Some ?w) = Some (JStr ''repairing'')" unfolding assms(4) by (simp add: next_state_def Let_def)
  have "field ''phase'' (Some (applied_state now ?kvs2 ?d2)) = Some (JStr ''repairing'')"
    using phase by (simp add: next_state_def Let_def truthy_field_def)
  moreover have "field ''repairAttempt'' (Some (applied_state now ?kvs2 ?d2)) = None"
    "field ''repairMaxAttempts'' (Some (applied_state now ?kvs2 ?d2)) = None" by (simp_all add: next_state_def Let_def)
  moreover have "show_int 1 = ''1''" "show_int 3 = ''3''" by code_simp+
  ultimately have "loading_text_of (Some (applied_state now ?kvs2 ?d2)) n = ''Fixing apply issue, attempt 1/3''"
    by (simp add: loading_text_of_def Let_def number_field_def or_count_def or_zero_def num_or_def num_truthy_def)
  moreover have "n = or_count [Some n] (pill_count ?d2)" using assms(2,3) by (simp add: or_count_nonzero)
  ultimately show ?thesis
    using loading_label [OF _ kept _ \<open>n = or_count [Some n] (pill_count ?d2)\<close> _ refl assms(6)] assms(1,3) fresh_state [of ?d2 ?d1]
    by (simp add: e)
qed

end
