(* ===== verification/LiveEdit.thy ===== *)
theory LiveEdit imports LiveRefs LiveApply begin

text \<open>
  The copy editor (\<open>agent/skills/impeccable/scripts/live-browser.js\<close>, lines 1014 to 1076 and 3441 to 3820): opening an element for editing, typing, giving up, and staging what was typed as edits
  the agent can find in the source. The page is the tree of \<open>LivePage\<close>, the dock that counts staged
  edits that of \<open>LiveApply\<close>. What only draws is recorded in order in \<open>drawn\<close>.
\<close>

section \<open>State\<close>

record edit_row =
  er_path :: path
  er_ref :: string
  er_text :: string
  er_white :: string

record leaf_context =
  lc_ref :: string
  lc_tag :: string
  lc_id :: "string option"
  lc_classes :: "string list"
  lc_edit :: "(string \<times> string) option"
  lc_text :: string
  lc_html :: "string option"

record near_text =
  nt_ref :: string
  nt_tag :: string
  nt_classes :: "string list"
  nt_text :: string

record source_hint =
  sh_file :: string
  sh_loc :: string
  sh_line :: "nat option"
  sh_column :: "nat option"

record locator =
  lo_tag :: string
  lo_id :: "string option"
  lo_classes :: "string list"

record edit_op =
  op_ref :: string
  op_locator :: locator
  op_original :: "string option"
  op_new :: string
  op_leaf :: leaf_context
  op_near :: "near_text list"
  op_restore :: "(string \<times> int) option"
  op_hint :: "source_hint option"
  op_context :: "string option"
  op_container :: "leaf_context option"

text \<open>A save on its way to the server: the edits and the element they are described in.\<close>

record save =
  sv_ops :: "edit_op list"
  sv_context :: path

datatype drawn = Draw_bar | Draw_hide_bar | Draw_annotations | Draw_no_annotations | Draw_clear_annotations
  | Draw_badge string | Draw_no_highlight | Draw_stop_scroll | Draw_focus string

record editor =
  doc :: node
  rows :: "edit_row list"
  drafts :: "(path, string) omap"
  edit_root :: "path option"
  picked :: "path option"
  mode :: live_state
  dock_of :: dock
  saves :: "save list"
  drawn :: "drawn list"

abbreviation "Live_editing \<equiv> Live_other ''EDITING''"

definition draw :: "drawn list \<Rightarrow> editor \<Rightarrow> editor" where
  "draw ds ed = ed\<lparr>drawn := drawn ed @ ds\<rparr>"

definition tell :: "string \<Rightarrow> editor \<Rightarrow> editor" where
  "tell t ed = ed\<lparr>dock_of := toast t (dock_of ed)\<rparr>"

definition BUSY_TOAST :: string where
  "BUSY_TOAST = ''Apply is still running. Wait for it to finish.''"

section \<open>Opening and closing\<close>

definition node_of :: "path \<Rightarrow> node \<Rightarrow> node" where
  "node_of p d = (case node_at p d of Some t \<Rightarrow> t | None \<Rightarrow> Cmt)"

definition elem_of :: "path \<Rightarrow> node \<Rightarrow> elem" where
  "elem_of p d = (case node_at p d of Some (El e _) \<Rightarrow> e | _ \<Rightarrow> plain_elem [])"

definition collect_rows :: "path \<Rightarrow> node \<Rightarrow> edit_row list" where
  "collect_rows p d =
     map (\<lambda>q. \<lparr>er_path = q, er_ref = str_or (document_ref_for_element q d) (nd_tag (elem_of q d)),
               er_text = text_content (node_of q d), er_white = nd_white_space (elem_of q d)\<rparr>)
       (map (\<lambda>q. p @ q) (text_rows (own_at (butlast p) d \<and> p \<noteq> []) True (node_of p d)))"

definition mark_row :: "string \<Rightarrow> edit_row \<Rightarrow> elem \<Rightarrow> elem" where
  "mark_row white r e = e\<lparr>nd_white_space := white, nd_editable := Some ''true'', nd_marked := True,
     nd_original := Some (er_text r), nd_user_select := ''text'', nd_cursor := ''text'', nd_outline := ''none''\<rparr>"

definition unmark_row :: "edit_row \<Rightarrow> elem \<Rightarrow> elem" where
  "unmark_row r e = e\<lparr>nd_editable := None, nd_marked := False, nd_original := None, nd_white_space := er_white r,
     nd_user_select := [], nd_cursor := [], nd_outline := []\<rparr>"

text \<open>\<open>white\<close> is the computed \<open>white-space\<close> of an element.\<close>

definition enable_inline_edit :: "(path \<Rightarrow> string) \<Rightarrow> path option \<Rightarrow> editor \<Rightarrow> editor" where
  "enable_inline_edit white target ed =
     (case target of
        None \<Rightarrow> ed
      | Some p \<Rightarrow>
          let d = edit_at p wrap_mixed (doc ed); rs = collect_rows p d
          in ed\<lparr>edit_root := Some p, rows := rs, drafts := [],
               doc := foldl (\<lambda>d r. edit_at (er_path r) (map_elem (mark_row (white (er_path r)) r)) d) d rs\<rparr>)"

definition disable_inline_edit :: "editor \<Rightarrow> editor" where
  "disable_inline_edit ed =
     (let d = foldl (\<lambda>d r. edit_at (er_path r) (map_elem (unmark_row r)) d) (doc ed) (rows ed)
      in ed\<lparr>rows := [], drafts := [], edit_root := None,
           doc := (case edit_root ed of Some p \<Rightarrow> edit_at p unwrap_mixed d | None \<Rightarrow> d)\<rparr>)"

definition is_row :: "path \<Rightarrow> editor \<Rightarrow> bool" where
  "is_row q ed \<longleftrightarrow> q \<in> set (map er_path (rows ed))"

text \<open>What a user types replaces the children of the row; the listener keeps the text.\<close>

definition inline_input :: "path \<Rightarrow> node list \<Rightarrow> editor \<Rightarrow> editor" where
  "inline_input q cs ed =
     (if \<not> is_row q ed then ed
      else let d = edit_at q (put_children cs) (doc ed)
        in ed\<lparr>doc := d, drafts := omap_set q (text_content (node_of q d)) (drafts ed)\<rparr>)"

definition put_original :: "node \<Rightarrow> node" where
  "put_original t = (case t of El e cs \<Rightarrow> El e (text_nodes (opt_str (nd_original e))) | _ \<Rightarrow> t)"

definition escape_row :: "path \<Rightarrow> editor \<Rightarrow> editor" where
  "escape_row q ed =
     (if \<not> is_row q ed then ed
      else ed\<lparr>doc := (if nd_original (elem_of q (doc ed)) \<noteq> None then edit_at q put_original (doc ed) else doc ed),
              drafts := omap_del q (drafts ed)\<rparr>)"

definition restore_inline_edit_drafts :: "editor \<Rightarrow> editor" where
  "restore_inline_edit_drafts ed =
     ed\<lparr>doc := foldl (\<lambda>d r. if er_path r \<in> set (keys (drafts ed)) then edit_at (er_path r) put_original d else d) (doc ed) (rows ed)\<rparr>"

definition hide_edit_bar :: "editor \<Rightarrow> editor" where
  "hide_edit_bar ed =
     (let e1 = draw [Draw_hide_bar] ed
      in disable_inline_edit (if mode e1 = Live_editing then restore_inline_edit_drafts e1 else e1))"

definition enter_editing_mode :: "(path \<Rightarrow> string) \<Rightarrow> editor \<Rightarrow> editor" where
  "enter_editing_mode white ed =
     (if in_flight (dock_of ed) then tell BUSY_TOAST ed
      else
        let e1 = hide_edit_bar (ed\<lparr>mode := Live_editing\<rparr>)
        in enable_inline_edit white (picked e1) (draw [Draw_no_annotations, Draw_badge ''editing''] e1))"

definition configure_chrome :: "editor \<Rightarrow> editor" where
  "configure_chrome ed = draw [Draw_bar, Draw_annotations, Draw_badge ''idle''] (ed\<lparr>mode := Live_configuring\<rparr>)"

definition cancel_editing :: "editor \<Rightarrow> editor" where
  "cancel_editing ed = configure_chrome (disable_inline_edit (restore_inline_edit_drafts ed))"

definition cancel_editing_to_picking :: "editor \<Rightarrow> editor" where
  "cancel_editing_to_picking ed =
     (let e1 = hide_edit_bar (disable_inline_edit (restore_inline_edit_drafts ed));
          e2 = draw [Draw_stop_scroll, Draw_no_annotations, Draw_clear_annotations, Draw_badge ''hidden''] e1
      in draw [Draw_no_highlight, Draw_focus ''editing-outside-click''] (e2\<lparr>mode := Live_picking\<rparr>))"

definition teardown_configure_chrome :: "editor \<Rightarrow> editor" where
  "teardown_configure_chrome ed =
     draw [Draw_stop_scroll, Draw_no_annotations, Draw_clear_annotations, Draw_badge ''hidden''] (hide_edit_bar ed)"

definition exit_configure_to_picking :: "string \<Rightarrow> bool \<Rightarrow> editor \<Rightarrow> editor" where
  "exit_configure_to_picking reason clear_hover ed =
     (let e1 = (teardown_configure_chrome ed)\<lparr>mode := Live_picking\<rparr>
      in draw ((if clear_hover then [Draw_no_highlight] else []) @ [Draw_focus reason]) e1)"

section \<open>Describing an edit\<close>

definition opt_id :: "elem \<Rightarrow> string option" where
  "opt_id e = (if nd_id e = [] then None else Some (nd_id e))"

definition locator_of :: "elem \<Rightarrow> locator" where
  "locator_of e = \<lparr>lo_tag = nd_tag e, lo_id = opt_id e, lo_classes = nd_classes e\<rparr>"

definition has_name :: "elem \<Rightarrow> bool" where
  "has_name e \<longleftrightarrow> nd_id e \<noteq> [] \<or> nd_classes e \<noteq> []"

text \<open>The paths above \<open>p\<close>, nearest first, without \<open>body\<close>.\<close>

definition above_paths :: "path \<Rightarrow> path list" where
  "above_paths p = map (\<lambda>k. take k p) (rev [1..<length p])"

definition build_locator_for_leaf :: "path \<Rightarrow> path option \<Rightarrow> node \<Rightarrow> locator" where
  "build_locator_for_leaf p fallback d =
     (if has_name (elem_of p d) then locator_of (elem_of p d)
      else case List.find (\<lambda>q. has_name (elem_of q d)) (above_paths p) of
          Some q \<Rightarrow> locator_of (elem_of q d)
        | None \<Rightarrow> locator_of (elem_of (case fallback of Some q \<Rightarrow> q | None \<Rightarrow> p) d))"

text \<open>\<open>/^(\d+)(?::(\d+))?/\<close>.\<close>

definition parse_source_loc :: "string \<Rightarrow> nat option \<times> nat option" where
  "parse_source_loc loc =
     (let ds = takeWhile is_digit loc; rest = dropWhile is_digit loc;
          cs = (case rest of c # r \<Rightarrow> if c = CHR '':'' then takeWhile is_digit r else [] | [] \<Rightarrow> [])
      in if ds = [] then (None, None) else (Some (read_nat ds), if cs = [] then None else Some (read_nat cs)))"

definition source_hint_for_element :: "elem \<Rightarrow> source_hint option" where
  "source_hint_for_element e =
     (if truthy_str (nd_source_file e) \<or> truthy_str (nd_source_loc e) then
        let (line, column) = parse_source_loc (opt_str (nd_source_loc e))
        in Some \<lparr>sh_file = opt_str (nd_source_file e), sh_loc = opt_str (nd_source_loc e), sh_line = line, sh_column = column\<rparr>
      else None)"

definition page_classes :: "elem \<Rightarrow> string list" where
  "page_classes e = filter (\<lambda>c. \<not> own_class c) (nd_classes e)"

text \<open>\<open>html\<close> is \<open>outerHTML\<close> without the marks of the editor.\<close>

definition element_context :: "(node \<Rightarrow> string) \<Rightarrow> nat \<Rightarrow> nat \<Rightarrow> (string \<times> string) option \<Rightarrow> path \<Rightarrow> node \<Rightarrow> leaf_context" where
  "element_context html text_len html_len texts p d =
     (let e = elem_of p d; h = take html_len (html (node_of p d)) in
      \<lparr>lc_ref = document_ref_for_element p d, lc_tag = nd_tag e, lc_id = opt_id e, lc_classes = page_classes e,
       lc_edit = texts, lc_text = take text_len (text_content (node_of p d)), lc_html = (if h = [] then None else Some h)\<rparr>)"

definition copy_edit_leaf_context :: "(node \<Rightarrow> string) \<Rightarrow> path \<Rightarrow> string \<Rightarrow> string \<Rightarrow> node \<Rightarrow> leaf_context" where
  "copy_edit_leaf_context html p original new d = element_context html 500 3000 (Some (original, new)) p d"

definition copy_edit_container_context :: "(node \<Rightarrow> string) \<Rightarrow> path \<Rightarrow> node \<Rightarrow> leaf_context" where
  "copy_edit_container_context html p d = element_context html 1000 10000 None p d"

fun near_texts :: "node \<Rightarrow> path \<Rightarrow> string list \<Rightarrow> edit_row list \<Rightarrow> near_text list" where
  "near_texts d active seen [] = []"
| "near_texts d active seen (r # rs) =
     (let text = normalize_text (er_text r); e = elem_of (er_path r) d in
      if er_path r = active \<or> length text < 2 \<or> text \<in> set seen then near_texts d active seen rs
      else \<lparr>nt_ref = document_ref_for_element (er_path r) d, nt_tag = nd_tag e, nt_classes = page_classes e, nt_text = text\<rparr> #
        near_texts d active (text # seen) rs)"

definition nearby_editable_texts :: "edit_row list \<Rightarrow> path \<Rightarrow> string \<Rightarrow> string \<Rightarrow> node \<Rightarrow> near_text list" where
  "nearby_editable_texts rs active original new d =
     take 12 (near_texts d active [normalize_text original, normalize_text new] rs)"

definition forbidden_manual_text_chars :: "string \<Rightarrow> char list" where
  "forbidden_manual_text_chars s = filter (\<lambda>c. c \<in> set s) [CHR ''<'', CHR ''{'', CHR ''}'', CHR 0x60]"

text \<open>The nonblank texts directly below an element, and the spans that stand for one.\<close>

definition restore_node :: "node \<Rightarrow> bool" where
  "restore_node t = (case t of Txt s \<Rightarrow> nonblank s | El e cs \<Rightarrow> nd_wrap e \<and> nonblank (text_content t) | Cmt \<Rightarrow> False)"

definition mixed_text_wrap_restore_hint :: "path \<Rightarrow> node \<Rightarrow> (string \<times> int) option" where
  "mixed_text_wrap_restore_hint p d =
     (if p = [] \<or> \<not> is_wrap (node_of p d) then None
      else
        let cs = children_of (node_of (butlast p) d); i = last p
        in Some (document_ref_for_element (butlast p) d,
             if restore_node (node_of p d) then int (length (filter restore_node (take i cs))) else - 1))"

section \<open>The element an edit is described in\<close>

definition numeric_text :: "string \<Rightarrow> bool" where
  "numeric_text s \<longleftrightarrow> s \<noteq> [] \<and>
     list_all (\<lambda>c. is_digit c \<or> c \<in> {CHR ''.'', CHR '','', CHR ''+'', CHR ''-'', CHR ''%''} \<or> white_space c) s"

definition meaningful_piece :: "string list \<Rightarrow> string \<Rightarrow> bool" where
  "meaningful_piece edited s \<longleftrightarrow> 3 \<le> length s \<and> length s \<le> 160 \<and> \<not> numeric_text s \<and> s \<notin> set edited"

fun context_pieces :: "bool \<Rightarrow> bool \<Rightarrow> string list \<Rightarrow> node \<Rightarrow> string list" where
  "context_pieces inside first edited (Txt s) = filter (meaningful_piece edited) [normalize_text s]"
| "context_pieces inside first edited Cmt = []"
| "context_pieces inside first edited (El e cs) =
     (if nd_tag e \<in> set MIXED_WRAP_SKIP \<or> \<not> first \<and> (inside \<or> ui_elem e) then []
      else concat (map (context_pieces (inside \<or> ui_elem e) False edited) cs))"

definition useful_context :: "string list \<Rightarrow> path \<Rightarrow> node \<Rightarrow> bool" where
  "useful_context edited p d \<longleftrightarrow>
     (has_name (elem_of p d) \<or> 2 \<le> length (filter is_el (children_of (node_of p d)))) \<and>
     context_pieces (own_at (butlast p) d) True edited (node_of p d) \<noteq> []"

fun first_useful :: "string list \<Rightarrow> node \<Rightarrow> path list \<Rightarrow> path option" where
  "first_useful edited d [] = None"
| "first_useful edited d (p # ps) =
     (if own_at p d then None else if useful_context edited p d then Some p else first_useful edited d ps)"

definition context_element :: "path \<Rightarrow> edit_row list \<Rightarrow> edit_op list \<Rightarrow> node \<Rightarrow> path" where
  "context_element p rs ops d =
     (if map er_path rs \<noteq> [p] then p
      else
        let edited = filter (\<lambda>s. s \<noteq> []) (map normalize_text
              (map er_text rs @ concat (map (\<lambda>o1. [opt_str (op_original o1), op_new o1]) ops)))
        in case first_useful edited d (take 4 (above_paths p)) of Some q \<Rightarrow> q | None \<Rightarrow> p)"

section \<open>Staging\<close>

definition edit_of_row :: "(node \<Rightarrow> string) \<Rightarrow> editor \<Rightarrow> edit_row \<Rightarrow> string \<Rightarrow> edit_op" where
  "edit_of_row html ed r new =
     (let p = er_path r; d = doc ed in
      \<lparr>op_ref = er_ref r, op_locator = build_locator_for_leaf p (picked ed) d, op_original = Some (er_text r), op_new = new,
       op_leaf = copy_edit_leaf_context html p (er_text r) new d,
       op_near = nearby_editable_texts (rows ed) p (er_text r) new d,
       op_restore = mixed_text_wrap_restore_hint p d, op_hint = source_hint_for_element (elem_of p d),
       op_context = None, op_container = None\<rparr>)"

text \<open>The first draft that cannot be saved ends the save with what is told about it.\<close>

fun changed_ops :: "(node \<Rightarrow> string) \<Rightarrow> editor \<Rightarrow> edit_row list \<Rightarrow> string + edit_op list" where
  "changed_ops html ed [] = Inr []"
| "changed_ops html ed (r # rs) =
     (case map_of (drafts ed) (er_path r) of
        None \<Rightarrow> changed_ops html ed rs
      | Some new \<Rightarrow>
          if new = er_text r then changed_ops html ed rs
          else if trim new = [] then Inl ''Save rejected: copy edits cannot be empty.''
          else if forbidden_manual_text_chars new \<noteq> [] then
            Inl (''Save rejected: newText cannot contain '' @
              join_with '' '' (map (\<lambda>c. [c]) (forbidden_manual_text_chars new)) @
              '' (plain text only; ask the AI to insert markup)'')
          else (case changed_ops html ed rs of
              Inl e \<Rightarrow> Inl e
            | Inr ops \<Rightarrow> Inr (edit_of_row html ed r new # ops)))"

definition with_context :: "(node \<Rightarrow> string) \<Rightarrow> path \<Rightarrow> node \<Rightarrow> edit_op \<Rightarrow> edit_op" where
  "with_context html p d o1 =
     o1\<lparr>op_context := Some (document_ref_for_element p d), op_container := Some (copy_edit_container_context html p d)\<rparr>"

text \<open>Without a picked element the save fails where its context is taken.\<close>

definition apply_editing :: "(node \<Rightarrow> string) \<Rightarrow> editor \<Rightarrow> editor" where
  "apply_editing html ed =
     (if in_flight (dock_of ed) then tell BUSY_TOAST ed
      else case changed_ops html ed (rows ed) of
          Inl t \<Rightarrow> tell t ed
        | Inr ops \<Rightarrow>
            if ops = [] then cancel_editing ed
            else (case picked ed of
                None \<Rightarrow> tell ''Save failed - retry or cancel'' ed
              | Some p \<Rightarrow>
                  let q = context_element p (rows ed) ops (doc ed)
                  in ed\<lparr>saves := saves ed @ [\<lparr>sv_ops = map (with_context html q (doc ed)) ops, sv_context = q\<rparr>]\<rparr>))"

text \<open>\<open>detail.replace(/^manual_edits:\s*/, '')\<close>.\<close>

definition drop_prefix :: "string \<Rightarrow> string" where
  "drop_prefix s = (if starts_with ''manual_edits:'' s then trim_start (drop 13 s) else s)"

definition error_text :: "nat \<Rightarrow> json option \<Rightarrow> string" where
  "error_text status content =
     (case truthy_field ''error'' content of Some (JStr e) \<Rightarrow> e | _ \<Rightarrow> ''HTTP '' @ show_nat status)"

definition save_failed :: "string \<Rightarrow> editor \<Rightarrow> editor" where
  "save_failed detail ed =
     tell (if includes_str ''newText cannot contain'' detail \<or> includes_str ''newText cannot be empty'' detail
           then ''Save rejected: '' @ drop_prefix detail else ''Save failed - retry or cancel'') ed"

definition save_done :: "int \<Rightarrow> json \<Rightarrow> editor \<Rightarrow> editor" where
  "save_done now r ed =
     (let d = maybe_first_save_toast (update_counter now (Some (or_count [number_field ''pendingCount'' (Some r)] 0)) (dock_of ed))
      in configure_chrome (disable_inline_edit (ed\<lparr>dock_of := d\<rparr>)))"

definition save_answered :: "nat \<Rightarrow> int \<Rightarrow> answer \<Rightarrow> editor \<Rightarrow> editor" where
  "save_answered k now a ed0 =
     (if \<not> k < length (saves ed0) then ed0
      else
        let ed = ed0\<lparr>saves := take k (saves ed0) @ drop (k + 1) (saves ed0)\<rparr> in
        case a of
          Lost \<Rightarrow> save_failed [] ed
        | Answer ok status content \<Rightarrow>
            if \<not> ok then save_failed (error_text status content) ed
            else (case content of
                None \<Rightarrow> save_failed [] ed
              | Some r \<Rightarrow> if r = JNull then save_failed [] ed else save_done now r ed))"

section \<open>Rows while they are edited\<close>

lemma fold_edits_erase:
  "apart ps \<Longrightarrow> er_path ` set rs \<subseteq> set ps \<Longrightarrow> erase ps (foldl (\<lambda>d r. edit_at (er_path r) (F r) d) d rs) = erase ps d"
  by (induction rs arbitrary: d) (auto simp: erase_edit)

lemma fold_edits_other:
  "\<forall>r \<in> set rs. unrelated q (er_path r) \<Longrightarrow> node_at q (foldl (\<lambda>d r. edit_at (er_path r) (F r) d) d rs) = node_at q d"
  by (induction rs arbitrary: d) (auto simp: node_at_other)

lemma fold_edits_at:
  "apart (map er_path rs) \<Longrightarrow> r \<in> set rs \<Longrightarrow>
   node_at (er_path r) (foldl (\<lambda>d r. edit_at (er_path r) (F r) d) d rs) = map_option (F r) (node_at (er_path r) d)"
proof (induction rs arbitrary: d)
  case (Cons a rs)
  have rest: "\<forall>b \<in> set rs. unrelated (er_path a) (er_path b)" using Cons.prems(1) by (simp add: apart_Cons)
  show ?case
  proof (cases "r = a")
    case True
    then show ?thesis using rest by (simp add: fold_edits_other node_at_edit)
  next
    case False
    with Cons.prems have r: "r \<in> set rs" by simp
    then have "unrelated (er_path r) (er_path a)" using rest unrelated_sym by blast
    then show ?thesis using Cons r by (simp add: apart_Cons node_at_other)
  qed
qed simp

lemma nonblank_Nil: "\<not> nonblank []"
  by (simp add: nonblank_def)

definition row_of :: "node \<Rightarrow> edit_row \<Rightarrow> bool" where
  "row_of d r \<longleftrightarrow> (\<exists>e. node_at (er_path r) d = Some (El e [Txt (er_text r)]) \<and> nonblank (er_text r) \<and> er_white r = nd_white_space e \<and>
     clean_elem e \<and> nd_editable e = None)"

lemma collected_rows:
  assumes "node_at p d = Some t" "single_texts t"
  shows "apart (map er_path (collect_rows p d))" "\<forall>r \<in> set (collect_rows p d). row_of d r"
proof -
  let ?qs = "text_rows (own_at (butlast p) d \<and> p \<noteq> []) True t"
  have paths: "map er_path (collect_rows p d) = map (\<lambda>q. p @ q) ?qs"
    by (simp add: collect_rows_def node_of_def assms(1) comp_def)
  have "unrelated (p @ a) (p @ b) \<longleftrightarrow> unrelated a b" for a b by (induction p) auto
  then show "apart (map er_path (collect_rows p d))"
    using rows_apart [OF assms(2)] unfolding paths apart_def by (auto simp: distinct_map inj_on_def)
  show "\<forall>r \<in> set (collect_rows p d). row_of d r"
  proof
    fix r assume "r \<in> set (collect_rows p d)"
    then obtain q where q: "q \<in> set ?qs" and r: "er_path r = p @ q" "er_text r = text_content (node_of (p @ q) d)"
      "er_white r = nd_white_space (elem_of (p @ q) d)"
      by (auto simp: collect_rows_def node_of_def assms(1))
    from row_is_leaf(1) [OF q assms(2)] obtain e s where "node_at q t = Some (El e [Txt s])" "nonblank s" "clean_elem e"
      "nd_editable e = None" by blast
    with r assms(1) show "row_of d r" by (auto simp: row_of_def node_at_append node_of_def elem_of_def)
  qed
qed

text \<open>What holds from opening to closing: off the rows the page is as it was opened, at a row only what the user typed differs.\<close>

definition editing :: "(path \<Rightarrow> string) \<Rightarrow> node \<Rightarrow> path \<Rightarrow> edit_row list \<Rightarrow> editor \<Rightarrow> bool" where
  "editing white d p rs ed \<longleftrightarrow>
     rows ed = rs \<and> edit_root ed = Some p \<and> erase (map er_path rs) (doc ed) = erase (map er_path rs) d \<and>
     (\<forall>r \<in> set rs. \<exists>e cs. node_at (er_path r) d = Some (El e [Txt (er_text r)]) \<and>
        node_at (er_path r) (doc ed) = Some (El (mark_row (white (er_path r)) r e) cs) \<and>
        (er_path r \<notin> set (keys (drafts ed)) \<longrightarrow> cs = [Txt (er_text r)]))"

datatype typing = Typed path "node list" | Escaped path

fun type_step :: "typing \<Rightarrow> editor \<Rightarrow> editor" where
  "type_step (Typed q cs) ed = inline_input q cs ed"
| "type_step (Escaped q) ed = escape_row q ed"

lemma editing_opened:
  assumes "apart (map er_path rs)" "\<forall>r \<in> set rs. row_of d r"
    and "rows ed = rs" "edit_root ed = Some p" "drafts ed = []"
    and "doc ed = foldl (\<lambda>d r. edit_at (er_path r) (map_elem (mark_row (white (er_path r)) r)) d) d rs"
  shows "editing white d p rs ed"
  using assms(2-) fold_edits_at [OF assms(1)] fold_edits_erase [OF assms(1)]
  by (fastforce simp: editing_def row_of_def map_elem_def)

lemma editing_edit:
  assumes "editing white d p rs ed" "apart (map er_path rs)" "q \<in> set (map er_path rs)"
    and f: "\<And>r e cs. r \<in> set rs \<Longrightarrow> er_path r = q \<Longrightarrow> node_at q d = Some (El e [Txt (er_text r)]) \<Longrightarrow>
      \<exists>cs'. f (El (mark_row (white q) r e) cs) = El (mark_row (white q) r e) cs' \<and> (q \<notin> set (keys D) \<longrightarrow> cs' = [Txt (er_text r)])"
    and D: "\<And>x. x \<noteq> q \<Longrightarrow> x \<notin> set (keys D) \<Longrightarrow> x \<notin> set (keys (drafts ed))"
  shows "editing white d p rs (ed\<lparr>doc := edit_at q f (doc ed), drafts := D\<rparr>)"
proof -
  have "\<exists>e ds. node_at (er_path r) d = Some (El e [Txt (er_text r)]) \<and>
      node_at (er_path r) (edit_at q f (doc ed)) = Some (El (mark_row (white (er_path r)) r e) ds) \<and>
      (er_path r \<notin> set (keys D) \<longrightarrow> ds = [Txt (er_text r)])" if r: "r \<in> set rs" for r
  proof -
    from assms(1) r obtain e cs where e: "node_at (er_path r) d = Some (El e [Txt (er_text r)])"
      and n: "node_at (er_path r) (doc ed) = Some (El (mark_row (white (er_path r)) r e) cs)"
      and k: "er_path r \<notin> set (keys (drafts ed)) \<longrightarrow> cs = [Txt (er_text r)]" by (fastforce simp: editing_def)
    show ?thesis
    proof (cases "er_path r = q")
      case True
      then show ?thesis using f [OF r True, of e cs] e n by (auto simp: node_at_edit)
    next
      case False
      then have "unrelated (er_path r) q" using assms(2,3) r by (auto simp: apart_def)
      then show ?thesis using e n k D [OF False] by (auto simp: node_at_other)
    qed
  qed
  then show ?thesis using assms(1) erase_edit [OF assms(2,3)] by (simp add: editing_def)
qed

lemma editing_step:
  assumes "editing white d p rs ed" "apart (map er_path rs)" "\<forall>r \<in> set rs. row_of d r"
  shows "editing white d p rs (type_step ev ed)"
proof (cases ev)
  case (Typed q cs)
  show ?thesis
  proof (cases "is_row q ed")
    case True
    then have q: "q \<in> set (map er_path rs)" using assms(1) by (simp add: is_row_def editing_def)
    let ?D = "omap_set q (text_content (node_of q (edit_at q (put_children cs) (doc ed)))) (drafts ed)"
    have "editing white d p rs (ed\<lparr>doc := edit_at q (put_children cs) (doc ed), drafts := ?D\<rparr>)"
    proof (rule editing_edit [OF assms(1,2) q])
      show "x \<notin> set (keys (drafts ed))" if "x \<noteq> q" "x \<notin> set (keys ?D)" for x
        using that by (simp add: keys_omap_set split: if_splits)
    qed (simp add: put_children_def keys_omap_set)
    then show ?thesis using True by (simp add: Typed inline_input_def Let_def)
  qed (simp add: Typed inline_input_def assms(1))
next
  case (Escaped q)
  show ?thesis
  proof (cases "is_row q ed")
    case True
    then have q: "q \<in> set (map er_path rs)" using assms(1) by (simp add: is_row_def editing_def)
    have texts: "text_nodes (er_text r) = [Txt (er_text r)]" if "r \<in> set rs" for r
      using assms(3) that nonblank_Nil by (fastforce simp: row_of_def text_nodes_def)
    have "editing white d p rs (ed\<lparr>doc := edit_at q put_original (doc ed), drafts := omap_del q (drafts ed)\<rparr>)"
      using assms(1,2) q by (rule editing_edit) (auto simp: put_original_def mark_row_def opt_str_def texts keys_omap_del)
    moreover have "nd_original (elem_of q (doc ed)) \<noteq> None"
      using assms(1) q by (fastforce simp: editing_def elem_of_def mark_row_def)
    ultimately show ?thesis using True by (simp add: Escaped escape_row_def)
  qed (simp add: Escaped escape_row_def assms(1))
qed

lemma editing_steps:
  assumes "editing white d p rs ed" "apart (map er_path rs)" "\<forall>r \<in> set rs. row_of d r"
  shows "editing white d p rs (foldl (\<lambda>s e. type_step e s) ed evs)"
  using assms(1)
proof (induction evs arbitrary: ed)
  case (Cons ev evs)
  then show ?case using Cons.IH [OF editing_step [OF Cons.prems assms(2,3)]] by simp
qed simp

text \<open>Unmarking after the texts are put back gives the page as it was opened.\<close>

lemma editing_closed:
  assumes "editing white d p rs ed" "apart (map er_path rs)" "\<forall>r \<in> set rs. row_of d r"
  shows "doc (disable_inline_edit (restore_inline_edit_drafts ed)) = edit_at p unwrap_mixed d"
proof -
  let ?G = "\<lambda>r. if er_path r \<in> set (keys (drafts ed)) then put_original else id"
  have G: "(\<lambda>d r. if er_path r \<in> set (keys (drafts ed)) then edit_at (er_path r) put_original d else d) =
      (\<lambda>d r. edit_at (er_path r) (?G r) d)"
    by (intro ext) (simp add: edit_same)
  let ?d1 = "foldl (\<lambda>d r. edit_at (er_path r) (?G r) d) (doc ed) rs"
  let ?d2 = "foldl (\<lambda>d r. edit_at (er_path r) (map_elem (unmark_row r)) d) ?d1 rs"
  have d2: "doc (disable_inline_edit (restore_inline_edit_drafts ed)) = edit_at p unwrap_mixed ?d2"
    using assms(1) unfolding disable_inline_edit_def restore_inline_edit_drafts_def G by (simp add: editing_def Let_def)
  have "?d2 = d"
  proof (rule erase_eq [OF assms(2)])
    show "erase (map er_path rs) ?d2 = erase (map er_path rs) d"
      using assms(1) fold_edits_erase [OF assms(2), of rs] by (simp add: editing_def)
    fix q assume "q \<in> set (map er_path rs)"
    then obtain r where r: "r \<in> set rs" "q = er_path r" by auto
    obtain e cs where e: "node_at q d = Some (El e [Txt (er_text r)])"
      and n: "node_at q (doc ed) = Some (El (mark_row (white q) r e) cs)"
      and k: "q \<notin> set (keys (drafts ed)) \<longrightarrow> cs = [Txt (er_text r)]" using assms(1) r by (fastforce simp: editing_def)
    have row: "nonblank (er_text r)" "er_white r = nd_white_space e" "clean_elem e" "nd_editable e = None"
      using assms(3) r e by (auto simp: row_of_def)
    have "node_at q ?d1 = Some (El (mark_row (white q) r e) [Txt (er_text r)])"
      using n k fold_edits_at [OF assms(2) r(1), of ?G "doc ed"] row(1) nonblank_Nil r(2)
      by (auto simp: put_original_def mark_row_def opt_str_def text_nodes_def)
    then have "node_at q ?d2 = Some (El (unmark_row r (mark_row (white q) r e)) [Txt (er_text r)])"
      using fold_edits_at [OF assms(2) r(1), of "\<lambda>r. map_elem (unmark_row r)" ?d1] r(2) by (simp add: map_elem_def)
    moreover have "unmark_row r (mark_row (white q) r e) = e"
      using row by (cases e) (simp add: unmark_row_def mark_row_def clean_elem_def)
    ultimately show "node_at q ?d2 = node_at q d" using e by simp
  qed
  with d2 show ?thesis by simp
qed

section \<open>Properties\<close>

text \<open>
  C9: Giving up gives the page back. Whatever was typed into the editable places of an element, in
  any order, with markup or without, and whichever were reset with Escape: cancelling leaves exactly the
  tree that was there before editing began, attributes and styles included, and no edit behind. The
  element is tidy (no empty or adjacent texts) and has no inline cursor, selection or outline style.
\<close>

theorem cancel_gives_page_back:
  assumes "\<not> in_flight (dock_of ed)" "rows ed = []" "edit_root ed = None" "picked ed = Some p"
    and "node_at p (doc ed) = Some t" "tidy t" "clean t"
  shows "doc (cancel_editing (foldl (\<lambda>s e. type_step e s) (enter_editing_mode white ed) es)) = doc ed \<and>
    rows (cancel_editing (foldl (\<lambda>s e. type_step e s) (enter_editing_mode white ed) es)) = [] \<and>
    drafts (cancel_editing (foldl (\<lambda>s e. type_step e s) (enter_editing_mode white ed) es)) = [] \<and>
    mode (cancel_editing (foldl (\<lambda>s e. type_step e s) (enter_editing_mode white ed) es)) = Live_configuring"
proof -
  let ?d = "edit_at p wrap_mixed (doc ed)"
  let ?rs = "collect_rows p ?d" and ?open = "enter_editing_mode white ed"
  let ?typed = "foldl (\<lambda>s e. type_step e s) ?open es"
  have node: "node_at p ?d = Some (wrap_mixed t)" using assms(5) by (simp add: node_at_edit)
  note rows = collected_rows [OF node single_wrapped [OF assms(6,7)]]
  have "editing white ?d p ?rs ?open"
    using rows by (rule editing_opened)
      (simp_all add: enter_editing_mode_def assms enable_inline_edit_def hide_edit_bar_def disable_inline_edit_def
        restore_inline_edit_drafts_def draw_def Let_def)
  from editing_closed [OF editing_steps [OF this rows] rows, of es]
  have "doc (disable_inline_edit (restore_inline_edit_drafts ?typed)) = edit_at p unwrap_mixed ?d" .
  also have "\<dots> = doc ed"
    unfolding edit_twice using assms(5,6) by (intro edit_same) (simp add: unwrap_wrapped(1))
  finally show ?thesis
    by (simp add: cancel_editing_def configure_chrome_def draw_def) (simp add: disable_inline_edit_def Let_def)
qed

definition sample_editor :: editor where
  "sample_editor = \<lparr>doc = El (plain_elem ''body'') [sample_text], rows = [], drafts = [], edit_root = None, picked = Some [0],
     mode = Live_configuring, dock_of = sample_dock\<lparr>in_flight := False\<rparr>, saves = [], drawn = []\<rparr>"

lemma sample_text_facts: "node_at [0] (El (plain_elem ''body'') [sample_text]) = Some sample_text" "tidy sample_text" "clean sample_text"
  by (simp_all add: sample_text_def plain_elem_def clean_elem_def)

lemma cancel_gives_page_back_witness:
  "let typed = type_step (Typed [0, 0] [Txt ''Write '', El (plain_elem ''b'') []]) (enter_editing_mode (\<lambda>_. ''normal'') sample_editor)
   in doc typed \<noteq> doc sample_editor \<and> doc (cancel_editing typed) = doc sample_editor"
proof -
  let ?es = "[Typed [0, 0] [Txt ''Write '', El (plain_elem ''b'') []]]"
  let ?typed = "foldl (\<lambda>s e. type_step e s) (enter_editing_mode (\<lambda>_. ''normal'') sample_editor) ?es"
  have "text_content (doc ?typed) \<noteq> text_content (doc sample_editor)" by code_simp
  moreover have "doc (cancel_editing ?typed) = doc sample_editor"
    using cancel_gives_page_back [of sample_editor "[0]" sample_text "\<lambda>_. ''normal''" ?es] sample_text_facts
    by (simp add: sample_editor_def)
  ultimately show ?thesis by (auto simp: Let_def)
qed

end
