(* ===== verification/LiveRestore.thy ===== *)
theory LiveRestore imports LiveEdit begin

text \<open>
  Discarding staged edits puts the original texts back on the page
  (\<open>agent/skills/impeccable/scripts/live-browser.js\<close>, lines 4348 to 4429): each edit the server returns is
  looked up again, by the text's place among its siblings, by reference, or by tag, classes and text. The
  main result joins opening, typing, saving and discarding: the page is again what it was.
\<close>

section \<open>Looking up an edit\<close>

definition text_places :: "node list \<Rightarrow> nat list" where
  "text_places cs = filter (\<lambda>i. nonblank_txt (cs ! i)) [0..<length cs]"

definition says :: "edit_op \<Rightarrow> node \<Rightarrow> bool" where
  "says o1 t \<longleftrightarrow> normalize_text (text_content t) = normalize_text (op_new o1)"

definition restore_mixed_text :: "edit_op \<Rightarrow> node \<Rightarrow> node option" where
  "restore_mixed_text o1 d =
     (case (op_restore o1, op_original o1) of
        (Some (parent, k), Some original) \<Rightarrow>
          (case query_manual_edit_ref parent d of
             None \<Rightarrow> None
           | Some q \<Rightarrow>
               let cs = children_of (node_of q d); places = text_places cs;
                   put = (\<lambda>i. Some (edit_at (q @ [i]) (\<lambda>_. Txt original) d));
                   same = filter (\<lambda>i. says o1 (cs ! i)) places
               in if 0 \<le> k \<and> nat k < length places \<and> says o1 (cs ! (places ! nat k)) then put (places ! nat k)
                  else (case same of [i] \<Rightarrow> put i | _ \<Rightarrow> None))
      | _ \<Rightarrow> None)"

text \<open>All elements in document order.\<close>

fun element_paths :: "node \<Rightarrow> path list" and kid_paths :: "nat \<Rightarrow> node list \<Rightarrow> path list" where
  "element_paths (El e cs) = [] # kid_paths 0 cs"
| "element_paths _ = []"
| "kid_paths i [] = []"
| "kid_paths i (c # cs) = map (\<lambda>p. i # p) (element_paths c) @ kid_paths (Suc i) cs"

definition selected_by :: "edit_op \<Rightarrow> elem \<Rightarrow> bool" where
  "selected_by o1 e \<longleftrightarrow>
     (let tag = str_or (lo_tag (op_locator o1)) (str_or (lc_tag (op_leaf o1)) ''*'') in
      (tag = ''*'' \<or> to_lower tag = nd_tag e) \<and> list_all (\<lambda>c. c \<in> set (nd_classes e)) (lo_classes (op_locator o1)))"

definition find_restore_element :: "edit_op \<Rightarrow> node \<Rightarrow> path option" where
  "find_restore_element o1 d =
     (case query_manual_edit_ref (op_ref o1) d of
        Some q \<Rightarrow> Some q
      | None \<Rightarrow> (case query_manual_edit_ref (lc_ref (op_leaf o1)) d of
          Some q \<Rightarrow> Some q
        | None \<Rightarrow>
            (case filter (\<lambda>q. selected_by o1 (elem_of q d) \<and> says o1 (node_of q d)) (element_paths d) of
               [q] \<Rightarrow> Some q | _ \<Rightarrow> None)))"

definition can_restore :: "edit_op \<Rightarrow> node \<Rightarrow> bool" where
  "can_restore o1 t \<longleftrightarrow> op_original o1 \<noteq> None \<and> \<not> list_ex is_el (children_of t) \<and> says o1 t"

definition restore_edit :: "edit_op \<Rightarrow> node \<Rightarrow> node option" where
  "restore_edit o1 d =
     (case restore_mixed_text o1 d of
        Some d' \<Rightarrow> Some d'
      | None \<Rightarrow> (case (find_restore_element o1 d, op_original o1) of
          (Some q, Some original) \<Rightarrow>
            if can_restore o1 (node_of q d) then Some (edit_at q (put_children (text_nodes original)) d) else None
        | _ \<Rightarrow> None))"

text \<open>The number of edits that could not be put back, and the page.\<close>

fun restore_discarded :: "edit_op list \<Rightarrow> node \<Rightarrow> nat \<times> node" where
  "restore_discarded [] d = (0, d)"
| "restore_discarded (o1 # ops) d =
     (case restore_edit o1 d of
        Some d' \<Rightarrow> restore_discarded ops d'
      | None \<Rightarrow> apfst Suc (restore_discarded ops d))"

text \<open>The answer to a discard, page and dock: the entries it returns, each with its edits.\<close>

definition edits_discarded :: "nat \<Rightarrow> int \<Rightarrow> edit_op list list option \<Rightarrow> editor \<Rightarrow> editor" where
  "edits_discarded k now returned ed =
     (case (if k < length (requests (dock_of ed)) then requests (dock_of ed) ! k else Req_count) of
        Req_discard n \<Rightarrow>
          (case returned of
             None \<Rightarrow> ed\<lparr>dock_of := discard_answered k now False 0 (dock_of ed)\<rparr>
           | Some es \<Rightarrow>
               let (failures, d) = restore_discarded (concat es) (doc ed)
               in ed\<lparr>doc := d, dock_of := discard_answered k now True failures (dock_of ed)\<rparr>)
      | _ \<Rightarrow> ed)"

section \<open>Names do not depend on the text of a leaf\<close>

definition named_alike :: "node \<Rightarrow> node \<Rightarrow> bool" where
  "named_alike x d \<longleftrightarrow> nd_tag (elem_of [] x) = nd_tag (elem_of [] d) \<and>
     (\<forall>q. ref_parts q x = ref_parts q d \<and> named_plainly q x = named_plainly q d)"

lemma same_count: "map P xs = map P ys \<Longrightarrow> length (filter P xs) = length (filter P ys)"
proof -
  assume same: "map P xs = map P ys"
  have "length (filter P zs) = length (filter id (map P zs))" for zs by (simp add: filter_map comp_def)
  then show ?thesis using same by metis
qed

lemma put_texts_alike:
  assumes "node_at q' d = Some (El e (text_nodes s))"
  shows "ref_parts q (edit_at q' (put_children (text_nodes r)) d) = ref_parts q d \<and>
    named_plainly q (edit_at q' (put_children (text_nodes r)) d) = named_plainly q d"
  using assms
proof (induction q arbitrary: q' d)
  case Nil
  then show ?case by (cases q'; cases d) (auto simp: is_el_def put_children_def)
next
  case (Cons i q)
  show ?case
  proof (cases q')
    case Nil
    have none: "ref_parts (i # q) (El e (text_nodes u)) = []" "\<not> named_plainly (i # q) (El e (text_nodes u))" for u
      by (simp_all add: text_nodes_def)
    show ?thesis using Cons.prems none by (simp add: Nil put_children_def)
  next
    case (Cons j q'')
    then obtain f cs where d: "d = El f cs" "j < length cs" "node_at q'' (cs ! j) = Some (El e (text_nodes s))"
      using Cons.prems by (cases d) (auto split: if_splits)
    let ?c = "edit_at q'' (put_children (text_nodes r)) (cs ! j)"
    have tags: "same_tag tag ?c = same_tag tag (cs ! j)" for tag
      by (cases q''; cases "cs ! j") (simp_all add: same_tag_def put_children_def)
    have "map (same_tag tag) (cs[j := ?c]) = map (same_tag tag) cs" for tag
      using d(2) tags by (simp add: map_update list_update_same_conv)
    then have index: "index_among_same_tag i (cs[j := ?c]) tag = index_among_same_tag i cs tag" for tag
      unfolding index_among_same_tag_def using same_count by (metis take_map)
    show ?thesis
    proof (cases "i = j")
      case True
      obtain g ds hs where g: "cs ! j = El g ds \<and> ?c = El g hs \<or> ?c = cs ! j \<and> \<not> is_el (cs ! j)"
        by (cases q''; cases "cs ! j") (simp_all add: put_children_def is_el_def)
      then show ?thesis using Cons.IH [OF d(3)] d(1,2) index True by (auto simp: Cons is_el_def split: node.splits)
    next
      case False
      then show ?thesis using d index by (auto simp: Cons split: node.splits)
    qed
  qed
qed

lemma put_texts_named:
  "named_alike x d \<Longrightarrow> node_at q x = Some (El e (text_nodes s)) \<Longrightarrow> named_alike (edit_at q (put_children (text_nodes r)) x) d"
  using put_texts_alike [of q x e s]
  by (cases q; cases x) (auto simp: named_alike_def elem_of_def put_children_def)

lemma restored_leaf:
  assumes "named_alike x d" "nd_tag (elem_of [] d) = ''body''" "named_plainly q d"
    and "op_ref o1 = document_ref_for_element q d" "op_original o1 = Some s" "op_new o1 = u" "op_restore o1 = None"
    and "node_at q x = Some (El e (text_nodes u))"
  shows "restore_edit o1 x = Some (edit_at q (put_children (text_nodes s)) x)"
proof -
  have plain: "named_plainly q x" and ref: "document_ref_for_element q x = op_ref o1"
    using assms(1,3,4) by (simp_all add: named_alike_def document_ref_for_element_def)
  then have "is_el x" by (cases q; cases x) (simp_all add: is_el_def)
  then obtain b cs where x: "x = El b cs" by (cases x) (simp_all add: is_el_def)
  have "nd_tag b = ''body''" using assms(1,2) by (simp add: named_alike_def x elem_of_def)
  from ref_finds_named [OF plain [unfolded x] this]
  have found: "find_restore_element o1 x = Some q" using ref by (simp add: find_restore_element_def x)
  have "text_content (El e (text_nodes u)) = u" "\<not> list_ex is_el (text_nodes u)" by (simp_all add: text_nodes_def is_el_def)
  then have "can_restore o1 (node_of q x)"
    using assms(5,6,8) by (simp add: can_restore_def node_of_def says_def children_of_def)
  then show ?thesis using found assms(5,7) by (simp add: restore_edit_def restore_mixed_text_def)
qed

lemma restore_context: "restore_edit (with_context html c d o1) x = restore_edit o1 x"
proof -
  have "find_restore_element (with_context html c d o1) = find_restore_element o1"
    "restore_mixed_text (with_context html c d o1) = restore_mixed_text o1"
    "can_restore (with_context html c d o1) = can_restore o1"
    by (auto simp: fun_eq_iff find_restore_element_def restore_mixed_text_def can_restore_def says_def selected_by_def with_context_def
        split: option.splits)
  moreover have "op_original (with_context html c d o1) = op_original o1" by (simp add: with_context_def)
  ultimately show ?thesis by (simp only: restore_edit_def)
qed

lemma discarded_context: "restore_discarded (map (with_context html c d) ops) x = restore_discarded ops x"
  by (induction ops arbitrary: x) (simp_all add: restore_context split: option.split)

section \<open>Typing plain text\<close>

text \<open>What a row shows: what was typed last, else its first text.\<close>

definition row_text :: "editor \<Rightarrow> edit_row \<Rightarrow> string" where
  "row_text ed r = (case map_of (drafts ed) (er_path r) of Some u \<Rightarrow> u | None \<Rightarrow> er_text r)"

definition shows_drafts :: "editor \<Rightarrow> bool" where
  "shows_drafts ed \<longleftrightarrow> (\<forall>r \<in> set (rows ed). \<exists>e. node_at (er_path r) (doc ed) = Some (El e (text_nodes (row_text ed r))))"

definition plain_typing :: "typing \<Rightarrow> bool" where
  "plain_typing ev = (case ev of Typed q cs \<Rightarrow> (case cs of [] \<Rightarrow> True | [Txt s] \<Rightarrow> s \<noteq> [] | _ \<Rightarrow> False) | Escaped q \<Rightarrow> True)"

lemma plain_texts: "plain_typing (Typed q cs) \<Longrightarrow> text_nodes (text_content (El e cs)) = cs"
  by (cases cs; cases "hd cs"; cases "tl cs") (simp_all add: plain_typing_def text_nodes_def)

lemma drafts_step:
  assumes "editing white d p rs ed" "apart (map er_path rs)" "shows_drafts ed" "plain_typing ev"
  shows "shows_drafts (type_step ev ed)"
  unfolding shows_drafts_def
proof
  have rows: "rows (type_step ev ed) = rs" using assms(1)
    by (cases ev) (simp_all add: editing_def inline_input_def escape_row_def Let_def)
  fix r assume "r \<in> set (rows (type_step ev ed))"
  then have r: "r \<in> set rs" by (simp add: rows)
  obtain e where e: "node_at (er_path r) (doc ed) = Some (El e (text_nodes (row_text ed r)))"
    using assms(1,3) r by (auto simp: shows_drafts_def editing_def)
  have marked: "nd_original e = Some (er_text r)" using assms(1) r e by (fastforce simp: editing_def mark_row_def)
  obtain q where q: "(\<exists>cs. ev = Typed q cs) \<or> ev = Escaped q" by (cases ev) auto
  consider "\<not> is_row q ed" | "is_row q ed" "er_path r = q" | "is_row q ed" "unrelated (er_path r) q"
    using assms(1,2) r by (auto simp: is_row_def editing_def apart_def)
  then show "\<exists>e. node_at (er_path r) (doc (type_step ev ed)) = Some (El e (text_nodes (row_text (type_step ev ed) r)))"
  proof cases
    case 1
    then have "type_step ev ed = ed" using q by (auto simp: inline_input_def escape_row_def)
    then show ?thesis using e by simp
  next
    case 2
    from q show ?thesis
    proof
      assume "\<exists>cs. ev = Typed q cs"
      then obtain cs where ev: "ev = Typed q cs" by blast
      have "node_at q (edit_at q (put_children cs) (doc ed)) = Some (El e cs)"
        using e 2(2) by (simp add: node_at_edit put_children_def)
      then show ?thesis using 2 plain_texts [of q cs e] assms(4)
        by (auto simp: ev inline_input_def Let_def row_text_def map_of_omap_set node_of_def)
    next
      assume ev: "ev = Escaped q"
      have "elem_of q (doc ed) = e" using e 2(2) by (simp add: elem_of_def)
      then show ?thesis using 2 e marked
        by (auto simp: ev escape_row_def row_text_def map_of_omap_del node_at_edit put_original_def opt_str_def)
    qed
  next
    case 3
    then have "er_path r \<noteq> q" by (auto simp: unrelated_def)
    then have "row_text (type_step ev ed) r = row_text ed r"
      using q by (auto simp: row_text_def inline_input_def escape_row_def Let_def map_of_omap_set map_of_omap_del)
    moreover have "node_at (er_path r) (doc (type_step ev ed)) = node_at (er_path r) (doc ed)"
      using q 3 by (auto simp: inline_input_def escape_row_def Let_def node_at_other)
    ultimately show ?thesis using e by simp
  qed
qed

lemma drafts_steps:
  assumes "editing white d p rs ed" "apart (map er_path rs)" "\<forall>r \<in> set rs. row_of d r" "shows_drafts ed" "list_all plain_typing evs"
  shows "shows_drafts (foldl (\<lambda>s e. type_step e s) ed evs)"
  using assms(1,4,5)
proof (induction evs arbitrary: ed)
  case (Cons ev evs)
  then show ?case using editing_step [OF Cons.prems(1) assms(2,3)] drafts_step [OF Cons.prems(1) assms(2)] by simp
qed simp

section \<open>Saving, then discarding\<close>

fun no_wraps :: "node \<Rightarrow> bool" where
  "no_wraps (El e cs) \<longleftrightarrow> \<not> nd_wrap e \<and> list_all no_wraps cs"
| "no_wraps _ \<longleftrightarrow> True"

lemma unwrap_none: "no_wraps t \<Longrightarrow> unwrap_mixed t = t"
proof (induction t)
  case (El e cs)
  have "\<not> list_ex is_wrap cs"
    using El.prems by (auto simp: list_ex_iff list_all_iff is_wrap_def split: node.splits)
  moreover have "unwrap_kids cs = cs"
    using El
  proof (induction cs)
    case (Cons c cs)
    then show ?case by (cases c) (simp_all del: unwrap_mixed.simps(1))
  qed simp
  ultimately show ?case by simp
qed simp_all

lemma tidy_no_wraps: "tidy t \<Longrightarrow> no_wraps t"
  by (induction t) (auto simp: list_all_iff)

lemma put_texts_no_wraps: "no_wraps t \<Longrightarrow> no_wraps (edit_at q (put_children (text_nodes s)) t)"
proof (induction q "put_children (text_nodes s)" t rule: edit_at.induct)
  case (1 t)
  then show ?case by (cases t) (simp_all add: put_children_def text_nodes_def)
next
  case (2 i p e cs)
  then show ?case by (auto simp: list_all_length nth_list_update)
qed simp_all

lemma no_wraps_at: "node_at p t = Some u \<Longrightarrow> no_wraps t \<Longrightarrow> no_wraps u"
  by (induction p t rule: node_at.induct) (auto simp: list_all_length split: if_splits)

lemma put_rows:
  assumes "apart (map er_path rs)" "\<forall>r \<in> set rs. \<exists>e s. node_at (er_path r) x = Some (El e (text_nodes s))"
    and "named_alike x d" "no_wraps x"
  shows "named_alike (foldl (\<lambda>x r. edit_at (er_path r) (put_children (text_nodes (\<sigma> r))) x) x rs) d \<and>
    no_wraps (foldl (\<lambda>x r. edit_at (er_path r) (put_children (text_nodes (\<sigma> r))) x) x rs)"
  using assms
proof (induction rs arbitrary: x)
  case (Cons a rs)
  let ?x = "edit_at (er_path a) (put_children (text_nodes (\<sigma> a))) x"
  obtain e s where a: "node_at (er_path a) x = Some (El e (text_nodes s))" using Cons.prems(2) by auto
  have "node_at (er_path r) ?x = node_at (er_path r) x" if "r \<in> set rs" for r
    using Cons.prems(1) that unrelated_sym by (auto simp: apart_Cons intro!: node_at_other)
  then show ?case
    using Cons.IH [of ?x] Cons.prems put_texts_named [OF Cons.prems(3) a] put_texts_no_wraps [OF Cons.prems(4)]
    by (auto simp: apart_Cons)
qed simp


text \<open>The rows not yet put back show what was typed, the others their first text.\<close>

lemma restored_rows:
  assumes "apart (map er_path rs)" "nd_tag (elem_of [] d) = ''body''"
    and "\<forall>r \<in> set rs. named_plainly (er_path r) d \<and> er_ref r = document_ref_for_element (er_path r) d \<and>
      mixed_text_wrap_restore_hint (er_path r) (doc ed) = None"
  shows "set ss \<subseteq> set rs \<Longrightarrow> distinct ss \<Longrightarrow> changed_ops html ed ss = Inr ops \<Longrightarrow> named_alike x d \<Longrightarrow>
    erase (map er_path rs) x = erase (map er_path rs) d \<Longrightarrow>
    (\<forall>r \<in> set rs. \<exists>e. node_at (er_path r) d = Some (El e (text_nodes (er_text r))) \<and>
       node_at (er_path r) x = Some (El e (text_nodes (if r \<in> set ss then row_text ed r else er_text r)))) \<Longrightarrow>
    restore_discarded ops x = (0, d)"
proof (induction ss arbitrary: ops x)
  case Nil
  have "x = d" using Nil.prems(6) by (intro erase_eq [OF assms(1) Nil.prems(5)]) fastforce
  with Nil.prems(3) show ?case by simp
next
  case (Cons r ss)
  have r: "r \<in> set rs" "r \<notin> set ss" using Cons.prems(1,2) by auto
  show ?case
  proof (cases "row_text ed r = er_text r")
    case True
    have "changed_ops html ed ss = Inr ops" using Cons.prems(3) True by (auto simp: row_text_def split: option.splits if_splits)
    then show ?thesis
      by (rule Cons.IH [rotated 2]) (use Cons.prems True in \<open>auto split: if_splits\<close>)
  next
    case False
    then obtain u where u: "map_of (drafts ed) (er_path r) = Some u" "u \<noteq> er_text r" "row_text ed r = u"
      by (auto simp: row_text_def split: option.splits)
    then obtain ops' where ops: "changed_ops html ed ss = Inr ops'" "ops = edit_of_row html ed r u # ops'"
      using Cons.prems(3) by (auto split: if_splits sum.splits)
    obtain e where e: "node_at (er_path r) d = Some (El e (text_nodes (er_text r)))" "node_at (er_path r) x = Some (El e (text_nodes u))"
      using Cons.prems(6) r(1) u(3) by auto
    let ?x = "edit_at (er_path r) (put_children (text_nodes (er_text r))) x"
    have "restore_edit (edit_of_row html ed r u) x = Some ?x"
      by (rule restored_leaf [OF Cons.prems(4) assms(2)]) (use assms(3) r(1) e(2) in \<open>simp_all add: edit_of_row_def Let_def\<close>)
    moreover have "restore_discarded ops' ?x = (0, d)"
    proof (rule Cons.IH [OF _ _ ops(1)])
      show "named_alike ?x d" by (rule put_texts_named [OF Cons.prems(4) e(2)])
      show "erase (map er_path rs) ?x = erase (map er_path rs) d" using erase_edit [OF assms(1)] r(1) Cons.prems(5) by simp
      show "\<forall>b \<in> set rs. \<exists>f. node_at (er_path b) d = Some (El f (text_nodes (er_text b))) \<and>
          node_at (er_path b) ?x = Some (El f (text_nodes (if b \<in> set ss then row_text ed b else er_text b)))"
      proof
        fix b assume b: "b \<in> set rs"
        show "\<exists>f. node_at (er_path b) d = Some (El f (text_nodes (er_text b))) \<and>
          node_at (er_path b) ?x = Some (El f (text_nodes (if b \<in> set ss then row_text ed b else er_text b)))"
        proof (cases "b = r")
          case True
          then show ?thesis using e r(2) by (simp add: node_at_edit put_children_def)
        next
          case False
          then have "er_path b \<noteq> er_path r" using assms(1) b r(1) by (auto simp: apart_def distinct_map dest: inj_onD)
          then have "unrelated (er_path b) (er_path r)" using assms(1) b r(1) by (auto simp: apart_def)
          then show ?thesis using Cons.prems(6) b False by (auto simp: node_at_other)
        qed
      qed
    qed (use Cons.prems(1,2) in simp_all)
    ultimately show ?thesis by (simp add: ops(2))
  qed
qed

text \<open>What the page is when the save is done: each row with what was typed, the editor's marks gone.\<close>

lemma saved_page:
  assumes "editing white d p rs ed" "apart (map er_path rs)" "\<forall>r \<in> set rs. row_of d r" "shows_drafts ed"
    and "no_wraps d" "named_alike d d"
  shows "named_alike (doc (disable_inline_edit ed)) d" (is ?n)
    "erase (map er_path rs) (doc (disable_inline_edit ed)) = erase (map er_path rs) d" (is ?e)
    "\<forall>r \<in> set rs. \<exists>e. node_at (er_path r) d = Some (El e (text_nodes (er_text r))) \<and>
       node_at (er_path r) (doc (disable_inline_edit ed)) = Some (El e (text_nodes (row_text ed r)))" (is ?r)
proof -
  let ?x = "foldl (\<lambda>d r. edit_at (er_path r) (map_elem (unmark_row r)) d) (doc ed) rs"
  let ?y = "foldl (\<lambda>x r. edit_at (er_path r) (put_children (text_nodes (row_text ed r))) x) d rs"
  have leaf: "\<exists>e. node_at (er_path r) d = Some (El e (text_nodes (er_text r))) \<and>
      node_at (er_path r) ?x = Some (El e (text_nodes (row_text ed r)))" if r: "r \<in> set rs" for r
  proof -
    obtain e cs where e: "node_at (er_path r) d = Some (El e [Txt (er_text r)])"
      and n: "node_at (er_path r) (doc ed) = Some (El (mark_row (white (er_path r)) r e) cs)"
      using assms(1) r by (fastforce simp: editing_def)
    have "cs = text_nodes (row_text ed r)" using assms(1,4) r n by (auto simp: shows_drafts_def editing_def)
    moreover have row: "nonblank (er_text r)" "er_white r = nd_white_space e" "clean_elem e" "nd_editable e = None"
      using assms(3) r e by (auto simp: row_of_def)
    then have "unmark_row r (mark_row (white (er_path r)) r e) = e"
      by (cases e) (simp add: unmark_row_def mark_row_def clean_elem_def)
    moreover have "text_nodes (er_text r) = [Txt (er_text r)]" using row(1) nonblank_Nil by (auto simp: text_nodes_def)
    ultimately show ?thesis
      using fold_edits_at [OF assms(2) r, of "\<lambda>r. map_elem (unmark_row r)" "doc ed"] e n by (simp add: map_elem_def)
  qed
  have "?x = ?y"
  proof (rule erase_eq [OF assms(2)])
    show "erase (map er_path rs) ?x = erase (map er_path rs) ?y"
      using assms(1) fold_edits_erase [OF assms(2), of rs] by (simp add: editing_def)
    fix q assume "q \<in> set (map er_path rs)"
    then obtain r where r: "r \<in> set rs" "q = er_path r" by auto
    then show "node_at q ?x = node_at q ?y"
      using leaf [OF r(1)] fold_edits_at [OF assms(2) r(1), of "\<lambda>r. put_children (text_nodes (row_text ed r))" d]
      by (auto simp: put_children_def)
  qed
  moreover have y: "named_alike ?y d" "no_wraps ?y"
    using put_rows [OF assms(2) _ assms(6,5), of "row_text ed"] leaf by blast+
  moreover have "edit_at p unwrap_mixed ?y = ?y"
    using no_wraps_at [OF _ y(2)] unwrap_none by (intro edit_same) blast
  ultimately have closed: "doc (disable_inline_edit ed) = ?x"
    using assms(1) by (simp add: disable_inline_edit_def editing_def Let_def)
  show ?n using y(1) \<open>?x = ?y\<close> closed by simp
  show ?e using assms(1) fold_edits_erase [OF assms(2), of rs] closed by (simp add: editing_def)
  show ?r using leaf closed by simp
qed


lemma tidy_at: "node_at p d = Some t \<Longrightarrow> tidy d \<Longrightarrow> tidy t"
  by (induction p d rule: node_at.induct) (auto simp: list_all_length split: if_splits)

lemma tree_ref: "str_or (document_ref_for_element q d) s = document_ref_for_element q d"
  by (cases "ref_parts q d") (simp_all add: str_or_def document_ref_for_element_def)

lemma save_sent:
  assumes "saves (apply_editing html s) = [sv]" "saves s = []"
  shows "\<exists>ops c. changed_ops html s (rows s) = Inr ops \<and> sv_ops sv = map (with_context html c (doc s)) ops \<and>
    doc (save_done now r (apply_editing html s)) = doc (disable_inline_edit s)"
proof -
  have "saves (tell x s) = []" "saves (cancel_editing s) = []" for x
    using assms(2) by (simp_all add: tell_def cancel_editing_def configure_chrome_def draw_def disable_inline_edit_def
        restore_inline_edit_drafts_def Let_def)
  then obtain ops q where "changed_ops html s (rows s) = Inr ops" "picked s = Some q" and sent:
    "apply_editing html s = s\<lparr>saves := saves s @ [\<lparr>sv_ops = map (with_context html (context_element q (rows s) ops (doc s)) (doc s)) ops,
       sv_context = context_element q (rows s) ops (doc s)\<rparr>]\<rparr>"
    using assms(1) by (auto simp: apply_editing_def Let_def split: if_splits sum.splits option.splits)
  moreover have "doc (save_done now r (apply_editing html s)) = doc (disable_inline_edit s)"
    unfolding sent by (simp add: save_done_def configure_chrome_def draw_def disable_inline_edit_def Let_def)
  ultimately show ?thesis using assms by auto
qed

section \<open>Properties\<close>



definition sample_list :: editor where
  "sample_list = sample_editor\<lparr>doc := El (plain_elem ''body'') [El (plain_elem ''ul'')
     [El (plain_elem ''li'') [Txt ''One''], El (plain_elem ''li'') [Txt ''Two'']]]\<rparr>"

definition sample_typing :: "typing list" where
  "sample_typing = [Typed [0, 0] [Txt ''Uno''], Typed [0, 1] [Txt ''Du''], Escaped [0, 1], Typed [0, 1] [Txt ''Due'']]"

definition typed_list :: editor where
  "typed_list = apply_editing (\<lambda>_. []) (foldl (\<lambda>s e. type_step e s) (enter_editing_mode (\<lambda>_. ''normal'') sample_list) sample_typing)"


text \<open>
  With mixed content the editor's own spans are counted where an element is named: the first \<open>span\<close>
  after a text is then the second, and a discarded edit of it is looked for in another and not put back.
\<close>

definition mixed_list :: editor where
  "mixed_list = sample_editor\<lparr>doc := El (plain_elem ''body'') [El (plain_elem ''p'')
     [Txt ''aa '', El (plain_elem ''span'') [Txt ''x''], Txt '' bb '', El (plain_elem ''span'') [Txt ''y'']]]\<rparr>"

definition typed_mixed :: editor where
  "typed_mixed = apply_editing (\<lambda>_. []) (foldl (\<lambda>s e. type_step e s) (enter_editing_mode (\<lambda>_. ''normal'') mixed_list)
     [Typed [0, 1] [Txt ''z'']])"

lemma spans_shift_references:
  "map op_ref (concat (map sv_ops (saves typed_mixed))) = [''body>p:nth-of-type(1)>span:nth-of-type(2)'']"
  "map (\<lambda>sv. apsnd text_content (restore_discarded (sv_ops sv) (doc (save_done 0 JNull typed_mixed)))) (saves typed_mixed) =
     [(1, ''aa z bb y'')]"
  by code_simp+

end
