(* ===== verification/LiveAnnot.thy ===== *)
theory LiveAnnot imports LiveInsert begin

text \<open>
  Notes and strokes on the picked element (\<open>agent/skills/impeccable/scripts/live-browser.js\<close>, lines 427 to
  898, and what go and create send of them, 7774 to 7871): one overlay takes every pointer event and
  decides by what lies under the pointer. Notes are pins with a text, strokes are lists of points, both in
  coordinates of the element. The pins and stroke paths on the screen are drawn anew from the two lists
  after each change, so that a pointer event can only hit what is in them. Colours and paths are left out.
\<close>

section \<open>State\<close>

type_synonym spot = "real \<times> real"

record pin_note =
  no_at :: spot
  no_text :: string

text \<open>A stroke or pin being made, with its points once the pointer has moved; a pin being dragged.\<close>

datatype gesture = Drawing spot "spot list option" | Moving nat spot spot bool

text \<open>The open input of a pin: its index, what is typed, its text before.\<close>

record pin_edit =
  pe_note :: nat
  pe_value :: string
  pe_before :: string

record resize_drag =
  rz_edge :: edge
  rz_start :: extent
  rz_from :: spot
  rz_parent :: real

record annot =
  comments :: "pin_note list"
  strokes :: "spot list list"
  pointer :: "gesture option"
  open_note :: "pin_edit option"
  last_pin :: "(nat \<times> int) option"
  annot_active :: bool
  clear_chip :: bool
  overlay_at :: spot
  resizing :: "resize_drag option"
  sizes :: "extent list"

definition DRAG_THRESHOLD :: real where "DRAG_THRESHOLD = 5"
definition PIN_DBL_CLICK_MS :: int where "PIN_DBL_CLICK_MS = 300"

definition update_clear_chip :: "annot \<Rightarrow> annot" where
  "update_clear_chip a = a\<lparr>clear_chip := comments a \<noteq> [] \<or> strokes a \<noteq> []\<rparr>"

definition clear_annotations :: "annot \<Rightarrow> annot" where
  "clear_annotations a = update_clear_chip (a\<lparr>comments := [], strokes := [], pointer := None, open_note := None, last_pin := None\<rparr>)"

definition show_annot_overlay :: "spot \<Rightarrow> annot \<Rightarrow> annot" where
  "show_annot_overlay p a = a\<lparr>annot_active := True, overlay_at := p\<rparr>"

definition hide_annot_overlay :: "annot \<Rightarrow> annot" where
  "hide_annot_overlay a = a\<lparr>annot_active := False, resizing := None, open_note := None\<rparr>"

definition position_annot_overlay :: "spot \<Rightarrow> annot \<Rightarrow> annot" where
  "position_annot_overlay p a = a\<lparr>overlay_at := p\<rparr>"

definition local_coords :: "spot \<Rightarrow> annot \<Rightarrow> spot" where
  "local_coords c a = (fst c - fst (overlay_at a), snd c - snd (overlay_at a))"

text \<open>\<open>splice(i, 1)\<close>: beyond the end it removes nothing.\<close>

definition remove_at :: "nat \<Rightarrow> 'a list \<Rightarrow> 'a list" where
  "remove_at i xs = take i xs @ drop (Suc i) xs"

text \<open>\<open>Math.hypot(dx, dy) < DRAG_THRESHOLD\<close>.\<close>

definition near :: "spot \<Rightarrow> spot \<Rightarrow> bool" where
  "near p q \<longleftrightarrow> (fst q - fst p) * (fst q - fst p) + (snd q - snd p) * (snd q - snd p) < DRAG_THRESHOLD * DRAG_THRESHOLD"

section \<open>Editing a pin\<close>

definition begin_edit_pin :: "nat \<Rightarrow> annot \<Rightarrow> annot" where
  "begin_edit_pin i a =
     (if i < length (comments a)
      then a\<lparr>open_note := Some \<lparr>pe_note = i, pe_value = no_text (comments a ! i), pe_before = no_text (comments a ! i)\<rparr>\<rparr>
      else a)"

text \<open>The flag: whether it returned; it throws where the index is beyond the notes.\<close>

definition finalize_editing_pin :: "annot \<Rightarrow> bool \<times> annot" where
  "finalize_editing_pin a =
     (case open_note a of
        None \<Rightarrow> (True, a)
      | Some e \<Rightarrow>
          let i = pe_note e; s = trim (pe_value e); a1 = a\<lparr>open_note := None\<rparr> in
          if s = [] then (True, update_clear_chip (a1\<lparr>comments := remove_at i (comments a)\<rparr>))
          else if i < length (comments a)
          then (True, update_clear_chip (a1\<lparr>comments := (comments a)[i := (comments a ! i)\<lparr>no_text := s\<rparr>]\<rparr>))
          else (False, a1))"

definition cancel_editing_pin :: "annot \<Rightarrow> annot" where
  "cancel_editing_pin a =
     (case open_note a of
        None \<Rightarrow> a
      | Some e \<Rightarrow>
          let i = pe_note e; a1 = a\<lparr>open_note := None\<rparr> in
          if pe_before e = [] then update_clear_chip (a1\<lparr>comments := remove_at i (comments a)\<rparr>)
          else if i < length (comments a)
          then update_clear_chip (a1\<lparr>comments := (comments a)[i := (comments a ! i)\<lparr>no_text := pe_before e\<rparr>]\<rparr>)
          else a1)"

definition type_note :: "string \<Rightarrow> annot \<Rightarrow> annot" where
  "type_note s a = a\<lparr>open_note := map_option (\<lambda>e. e\<lparr>pe_value := s\<rparr>) (open_note a)\<rparr>"

section \<open>The pointer\<close>

text \<open>The edges of the placeholder are there only while it is, and come with its size.\<close>

datatype hit = Hit_edge edge extent real | Hit_chip | Hit_stroke nat | Hit_pin nat | Hit_empty

definition twice :: "nat \<Rightarrow> int \<Rightarrow> annot \<Rightarrow> bool" where
  "twice i now a \<longleftrightarrow> (case last_pin a of Some (j, t) \<Rightarrow> j = i \<and> now - t < PIN_DBL_CLICK_MS | None \<Rightarrow> False)"

definition opens :: "nat \<Rightarrow> annot \<Rightarrow> bool" where
  "opens i a \<longleftrightarrow> (case open_note a of Some e \<Rightarrow> pe_note e = i | None \<Rightarrow> False)"

definition pin_down :: "nat \<Rightarrow> spot \<Rightarrow> int \<Rightarrow> annot \<Rightarrow> annot" where
  "pin_down i c now a =
     (if twice i now a
      then update_clear_chip (a\<lparr>open_note := (if opens i a then None else open_note a),
             comments := remove_at i (comments a), last_pin := None\<rparr>)
      else
        let a1 = a\<lparr>last_pin := Some (i, now)\<rparr> in
        if opens i a1 then a1
        else case finalize_editing_pin a1 of
            (ok, a2) \<Rightarrow>
              if ok \<and> i < length (comments a2)
              then a2\<lparr>pointer := Some (Moving i (local_coords c a2) (no_at (comments a2 ! i)) False)\<rparr> else a2)"

definition on_annot_down :: "hit \<Rightarrow> spot \<Rightarrow> int \<Rightarrow> annot \<Rightarrow> annot" where
  "on_annot_down h c now a =
     (if \<not> annot_active a then a
      else case h of
          Hit_edge e start parent \<Rightarrow>
            a\<lparr>resizing := Some \<lparr>rz_edge = e, rz_start = start, rz_from = c, rz_parent = parent\<rparr>\<rparr>
        | Hit_chip \<Rightarrow> clear_annotations a
        | Hit_stroke i \<Rightarrow> update_clear_chip (a\<lparr>strokes := remove_at i (strokes a)\<rparr>)
        | Hit_pin i \<Rightarrow> pin_down i c now a
        | Hit_empty \<Rightarrow>
            if open_note a \<noteq> None then snd (finalize_editing_pin a)
            else a\<lparr>pointer := Some (Drawing (local_coords c a) None)\<rparr>)"

definition drag_size :: "resize_drag \<Rightarrow> spot \<Rightarrow> extent" where
  "drag_size d c =
     resize_placeholder_from_edge (rz_start d) (Some (rz_edge d)) (fst c - fst (rz_from d)) (snd c - snd (rz_from d)) (rz_parent d)"

definition on_annot_move :: "spot \<Rightarrow> annot \<Rightarrow> annot" where
  "on_annot_move c a =
     (if \<not> annot_active a then a
      else case resizing a of
          Some d \<Rightarrow> a\<lparr>sizes := sizes a @ [drag_size d c]\<rparr>
        | None \<Rightarrow>
            let p = local_coords c a in
            (case pointer a of
               None \<Rightarrow> a
             | Some (Moving i from start moved) \<Rightarrow>
                 if \<not> moved \<and> near from p then a
                 else if i < length (comments a)
                 then update_clear_chip (a\<lparr>pointer := Some (Moving i from start True),
                        comments := (comments a)[i := (comments a ! i)\<lparr>no_at :=
                          (fst start + (fst p - fst from), snd start + (snd p - snd from))\<rparr>]\<rparr>)
                 else a\<lparr>pointer := None\<rparr>
             | Some (Drawing from pts) \<Rightarrow>
                 if pts = None \<and> near from p then a
                 else a\<lparr>pointer := Some (Drawing from (Some ((case pts of None \<Rightarrow> [from] | Some ps \<Rightarrow> ps) @ [p])))\<rparr>))"

definition on_annot_up :: "annot \<Rightarrow> annot" where
  "on_annot_up a =
     (if resizing a \<noteq> None then a\<lparr>resizing := None\<rparr>
      else if \<not> annot_active a then a
      else case pointer a of
          None \<Rightarrow> a
        | Some (Moving i from start moved) \<Rightarrow>
            let a1 = a\<lparr>pointer := None\<rparr> in if moved then a1\<lparr>last_pin := None\<rparr> else begin_edit_pin i a1
        | Some (Drawing from (Some pts)) \<Rightarrow> update_clear_chip (a\<lparr>strokes := strokes a @ [pts], pointer := None\<rparr>)
        | Some (Drawing from None) \<Rightarrow>
            (begin_edit_pin (length (comments a))
              (update_clear_chip (a\<lparr>comments := comments a @ [\<lparr>no_at = from, no_text = []\<rparr>]\<rparr>)))\<lparr>pointer := None\<rparr>)"

section \<open>What is sent\<close>

text \<open>A started session takes the annotations and clears them; where closing the open note throws, it ends there.\<close>

definition go_annotations :: "annot \<Rightarrow> (pin_note list \<times> spot list list) option \<times> annot" where
  "go_annotations a =
     (case finalize_editing_pin a of
        (ok, a1) \<Rightarrow> if ok then (Some (comments a1, strokes a1), clear_annotations (hide_annot_overlay a1)) else (None, a1))"

definition create_annotations :: "string \<Rightarrow> annot \<Rightarrow> (pin_note list \<times> spot list list) option \<times> annot" where
  "create_annotations prompt a =
     (case finalize_editing_pin a of
        (ok, a1) \<Rightarrow>
          if ok \<and> can_create_insert (Some prompt) (length (comments a1)) (map length (strokes a1))
          then (Some (comments a1, strokes a1), clear_annotations (hide_annot_overlay a1)) else (None, a1))"

section \<open>Runs\<close>

datatype annot_event =
    Down hit spot int | Move spot | Up
  | Type_note string | Enter_note | Escape_note | Blur_note
  | Show_overlay spot | Hide_overlay | Place_overlay spot | Clear_all

text \<open>Only a pin or stroke that is drawn can be hit.\<close>

definition can_hit :: "hit \<Rightarrow> annot \<Rightarrow> bool" where
  "can_hit h a = (case h of Hit_pin i \<Rightarrow> i < length (comments a) | Hit_stroke i \<Rightarrow> i < length (strokes a) | _ \<Rightarrow> True)"

fun annot_step :: "annot_event \<Rightarrow> annot \<Rightarrow> annot" where
  "annot_step (Down h c now) a = (if can_hit h a then on_annot_down h c now a else a)"
| "annot_step (Move c) a = on_annot_move c a"
| "annot_step Up a = on_annot_up a"
| "annot_step (Type_note s) a = type_note s a"
| "annot_step Enter_note a = snd (finalize_editing_pin a)"
| "annot_step Escape_note a = cancel_editing_pin a"
| "annot_step Blur_note a = snd (finalize_editing_pin a)"
| "annot_step (Show_overlay p) a = show_annot_overlay p a"
| "annot_step Hide_overlay a = hide_annot_overlay a"
| "annot_step (Place_overlay p) a = position_annot_overlay p a"
| "annot_step Clear_all a = clear_annotations a"

definition annot_run :: "annot_event list \<Rightarrow> annot \<Rightarrow> annot" where
  "annot_run es a = foldl (\<lambda>s e. annot_step e s) a es"

section \<open>One gesture\<close>

lemma run_Nil [simp]: "annot_run [] a = a" and run_Cons [simp]: "annot_run (e # es) a = annot_run es (annot_step e a)"
  and run_append [simp]: "annot_run (es @ fs) a = annot_run fs (annot_run es a)"
  by (simp_all add: annot_run_def)

lemma local_coords_pointer [simp]: "local_coords c (a\<lparr>pointer := g\<rparr>) = local_coords c a"
  by (simp add: local_coords_def)

lemma drawing_on:
  "annot_active a \<Longrightarrow> resizing a = None \<Longrightarrow> pointer a = Some (Drawing p (Some ps)) \<Longrightarrow>
   annot_run (map Move cs) a = a\<lparr>pointer := Some (Drawing p (Some (ps @ map (\<lambda>c. local_coords c a) cs)))\<rparr>"
  by (induction cs arbitrary: a ps) (simp_all add: on_annot_move_def Let_def)

lemma drawing_begins:
  "annot_active a \<Longrightarrow> resizing a = None \<Longrightarrow> pointer a = Some (Drawing p None) \<Longrightarrow>
   annot_run (map Move cs) a =
     a\<lparr>pointer := Some (Drawing p (case dropWhile (\<lambda>c. near p (local_coords c a)) cs of
        [] \<Rightarrow> None | ds \<Rightarrow> Some (p # map (\<lambda>c. local_coords c a) ds)))\<rparr>"
proof (induction cs)
  case (Cons c cs)
  show ?case
  proof (cases "near p (local_coords c a)")
    case True
    then have "annot_step (Move c) a = a" using Cons.prems by (simp add: on_annot_move_def Let_def)
    then show ?thesis using Cons True by simp
  next
    case False
    let ?b = "a\<lparr>pointer := Some (Drawing p (Some [p, local_coords c a]))\<rparr>"
    have "annot_step (Move c) a = ?b" using Cons.prems False by (simp add: on_annot_move_def Let_def)
    moreover have "annot_run (map Move cs) ?b = a\<lparr>pointer := Some (Drawing p (Some ([p, local_coords c a] @ map (\<lambda>c. local_coords c a) cs)))\<rparr>"
      using drawing_on [of ?b p "[p, local_coords c a]" cs] Cons.prems by simp
    ultimately show ?thesis using False by simp
  qed
qed simp

lemma gesture_one:
  assumes "annot_active a" "pointer a = None" "open_note a = None" "resizing a = None"
  shows "annot_run (Down Hit_empty c now # map Move cs @ [Up]) a =
    (if \<forall>d \<in> set cs. near (local_coords c a) (local_coords d a)
     then a\<lparr>comments := comments a @ [\<lparr>no_at = local_coords c a, no_text = []\<rparr>], clear_chip := True,
            open_note := Some \<lparr>pe_note = length (comments a), pe_value = [], pe_before = []\<rparr>\<rparr>
     else a\<lparr>strokes := strokes a @ [local_coords c a # map (\<lambda>d. local_coords d a)
              (dropWhile (\<lambda>d. near (local_coords c a) (local_coords d a)) cs)], clear_chip := True\<rparr>)"
proof -
  let ?p = "local_coords c a" and ?b = "a\<lparr>pointer := Some (Drawing (local_coords c a) None)\<rparr>"
  have down: "annot_step (Down Hit_empty c now) a = ?b" using assms by (simp add: on_annot_down_def can_hit_def)
  have moved: "annot_run (Down Hit_empty c now # map Move cs @ [Up]) a =
      on_annot_up (a\<lparr>pointer := Some (Drawing ?p (case dropWhile (\<lambda>d. near ?p (local_coords d a)) cs of
        [] \<Rightarrow> None | ds \<Rightarrow> Some (?p # map (\<lambda>d. local_coords d a) ds)))\<rparr>)"
    using drawing_begins [of ?b ?p cs, unfolded local_coords_pointer] assms down by (simp del: annot_step.simps(1))
  show ?thesis
  proof (cases "\<forall>d \<in> set cs. near ?p (local_coords d a)")
    case True
    then have none: "dropWhile (\<lambda>d. near ?p (local_coords d a)) cs = []" by simp
    have "a\<lparr>pointer := None\<rparr> = a" using assms(2) by simp
    then show ?thesis
      unfolding moved none using True assms by (simp add: on_annot_up_def begin_edit_pin_def update_clear_chip_def nth_append)
  next
    case False
    then obtain d ds where d: "dropWhile (\<lambda>d. near ?p (local_coords d a)) cs = d # ds"
      by (cases "dropWhile (\<lambda>d. near ?p (local_coords d a)) cs") (auto simp: dropWhile_eq_Nil_conv)
    have "a\<lparr>pointer := None\<rparr> = a" using assms(2) by simp
    then show ?thesis
      unfolding moved d using False assms by (auto simp: on_annot_up_def update_clear_chip_def)
  qed
qed

text \<open>
  A gesture is a pin or a stroke, never both. Pressed on an empty place, moved anywhere and
  released: if the pointer never left the five pixels around the start, there is one pin more, at the
  start, open for its text; if it did, there is one stroke more, from the start through every place from
  the first outside on, and no pin. Nothing else changes.
\<close>

theorem gesture_makes_one:
  assumes "annot_active a" "pointer a = None" "open_note a = None" "resizing a = None"
  shows "annot_run (Down Hit_empty c now # map Move cs @ [Up]) a =
    (if \<forall>d \<in> set cs. near (local_coords c a) (local_coords d a)
     then a\<lparr>comments := comments a @ [\<lparr>no_at = local_coords c a, no_text = []\<rparr>], clear_chip := True,
            open_note := Some \<lparr>pe_note = length (comments a), pe_value = [], pe_before = []\<rparr>\<rparr>
     else a\<lparr>strokes := strokes a @ [local_coords c a # map (\<lambda>d. local_coords d a)
              (dropWhile (\<lambda>d. near (local_coords c a) (local_coords d a)) cs)], clear_chip := True\<rparr>)"
  using assms by (rule gesture_one)

section \<open>What is kept\<close>

definition note_done :: "pin_note \<Rightarrow> bool" where
  "note_done n \<longleftrightarrow> trim (no_text n) \<noteq> []"

definition open_ok :: "annot \<Rightarrow> bool" where
  "open_ok a \<longleftrightarrow> (\<forall>e. open_note a = Some e \<longrightarrow> pe_note e < length (comments a) \<and> pe_before e = no_text (comments a ! pe_note e))"

definition notes_done :: "annot \<Rightarrow> bool" where
  "notes_done a \<longleftrightarrow> (\<forall>i < length (comments a). note_done (comments a ! i) \<or> opens i a \<and> no_text (comments a ! i) = [])"

definition strokes_ok :: "annot \<Rightarrow> bool" where
  "strokes_ok a \<longleftrightarrow> (\<forall>s \<in> set (strokes a). 2 \<le> length s) \<and>
     (\<forall>p ps. pointer a = Some (Drawing p (Some ps)) \<longrightarrow> 2 \<le> length ps) \<and> (pointer a \<noteq> None \<longrightarrow> open_note a = None)"

definition annot_ok :: "annot \<Rightarrow> bool" where
  "annot_ok a \<longleftrightarrow> open_ok a \<and> notes_done a \<and> strokes_ok a \<and> (clear_chip a \<longleftrightarrow> comments a \<noteq> [] \<or> strokes a \<noteq> [])"

text \<open>
  A step with which the overlay can cope: no second press on a pin within the window for deleting it while
  the note of another is open, and a note without text is left before the overlay goes.
\<close>

definition careful :: "annot_event \<Rightarrow> annot \<Rightarrow> bool" where
  "careful ev a =
     (case ev of
        Down (Hit_pin i) c now \<Rightarrow> \<not> twice i now a \<or> open_note a = None \<or> opens i a
      | Hide_overlay \<Rightarrow> (case open_note a of Some e \<Rightarrow> pe_before e \<noteq> [] | None \<Rightarrow> True)
      | _ \<Rightarrow> True)"

fun careful_run :: "annot_event list \<Rightarrow> annot \<Rightarrow> bool" where
  "careful_run [] a = True"
| "careful_run (ev # es) a = (careful ev a \<and> careful_run es (annot_step ev a))"

lemma length_remove_at: "i < length xs \<Longrightarrow> length (remove_at i xs) = length xs - 1"
  by (simp add: remove_at_def)

lemma set_remove_at: "set (remove_at i xs) \<subseteq> set xs"
  by (auto simp: remove_at_def dest: in_set_takeD in_set_dropD)

lemma remove_at_nth: "i < length xs \<Longrightarrow> j < length xs - 1 \<Longrightarrow> remove_at i xs ! j = xs ! (if j < i then j else Suc j)"
  by (auto simp: remove_at_def nth_append)

lemma remove_at_others:
  assumes "\<forall>j < length xs. j \<noteq> i \<longrightarrow> P (xs ! j)" "i < length xs"
  shows "\<forall>j < length (remove_at i xs). P (remove_at i xs ! j)"
  using assms by (simp add: length_remove_at remove_at_nth)

lemma remove_last [simp]: "remove_at (length xs) (xs @ [x]) = xs"
  by (simp add: remove_at_def)

lemma finalize_ok:
  assumes "annot_ok a"
  shows "fst (finalize_editing_pin a)" "annot_ok (snd (finalize_editing_pin a))" "open_note (snd (finalize_editing_pin a)) = None"
    "pointer (snd (finalize_editing_pin a)) = pointer a"
proof -
  have all: "fst (finalize_editing_pin a) \<and> annot_ok (snd (finalize_editing_pin a)) \<and> open_note (snd (finalize_editing_pin a)) = None \<and>
      pointer (snd (finalize_editing_pin a)) = pointer a"
  proof (cases "open_note a")
    case None
    then show ?thesis using assms by (simp add: finalize_editing_pin_def)
  next
    case (Some e)
    then have i: "pe_note e < length (comments a)" and p: "pointer a = None"
      using assms by (auto simp: annot_ok_def open_ok_def strokes_ok_def)
    have rest: "\<forall>j < length (comments a). j \<noteq> pe_note e \<longrightarrow> note_done (comments a ! j)"
      using assms Some by (auto simp: annot_ok_def notes_done_def opens_def)
    have less: "\<forall>j < length (remove_at (pe_note e) (comments a)). note_done (remove_at (pe_note e) (comments a) ! j)"
      by (rule remove_at_others [OF rest i])
    show ?thesis
    proof (cases "trim (pe_value e) = []")
      case True
      let ?b = "update_clear_chip (a\<lparr>open_note := None, comments := remove_at (pe_note e) (comments a)\<rparr>)"
      have fin: "finalize_editing_pin a = (True, ?b)" using True Some by (simp add: finalize_editing_pin_def)
      have "open_ok ?b" "strokes_ok ?b" "pointer ?b = pointer a" using assms p
        by (auto simp: annot_ok_def open_ok_def strokes_ok_def update_clear_chip_def)
      moreover have "notes_done ?b" using less by (simp add: notes_done_def update_clear_chip_def)
      ultimately show ?thesis unfolding fin by (simp add: annot_ok_def) (simp add: update_clear_chip_def)
    next
      case False
      let ?b = "update_clear_chip (a\<lparr>open_note := None,
        comments := (comments a)[pe_note e := (comments a ! pe_note e)\<lparr>no_text := trim (pe_value e)\<rparr>]\<rparr>)"
      have fin: "finalize_editing_pin a = (True, ?b)" using False Some i by (simp add: finalize_editing_pin_def Let_def)
      have "open_ok ?b" "strokes_ok ?b" "pointer ?b = pointer a" using assms p
        by (auto simp: annot_ok_def open_ok_def strokes_ok_def update_clear_chip_def)
      moreover have "notes_done ?b" using rest False i by (simp add: notes_done_def update_clear_chip_def nth_list_update note_done_def)
      ultimately show ?thesis unfolding fin by (simp add: annot_ok_def) (simp add: update_clear_chip_def)
    qed
  qed
  then show "fst (finalize_editing_pin a)" "annot_ok (snd (finalize_editing_pin a))" "open_note (snd (finalize_editing_pin a)) = None"
    "pointer (snd (finalize_editing_pin a)) = pointer a" by simp_all
qed


lemma chip_ok: "annot_ok a \<Longrightarrow> update_clear_chip a = a"
  by (simp add: annot_ok_def update_clear_chip_def)

lemma annot_okI:
  "open_ok a \<Longrightarrow> notes_done a \<Longrightarrow> strokes_ok a \<Longrightarrow> annot_ok (update_clear_chip a)"
  by (simp add: annot_ok_def open_ok_def notes_done_def strokes_ok_def opens_def update_clear_chip_def)

lemma clear_ok: "annot_ok (clear_annotations a)"
  unfolding clear_annotations_def by (rule annot_okI) (simp_all add: open_ok_def notes_done_def strokes_ok_def)

lemma cancel_ok: assumes "annot_ok a" shows "annot_ok (cancel_editing_pin a)"
proof (cases "open_note a")
  case None
  then show ?thesis using assms by (simp add: cancel_editing_pin_def)
next
  case (Some e)
  then have i: "pe_note e < length (comments a)" and before: "pe_before e = no_text (comments a ! pe_note e)"
    and p: "pointer a = None" using assms by (auto simp: annot_ok_def open_ok_def strokes_ok_def)
  have rest: "\<forall>j < length (comments a). j \<noteq> pe_note e \<longrightarrow> note_done (comments a ! j)"
    using assms Some by (auto simp: annot_ok_def notes_done_def opens_def)
  have done_if: "pe_before e \<noteq> [] \<Longrightarrow> note_done (comments a ! pe_note e)"
    using assms i before by (auto simp: annot_ok_def notes_done_def)
  have same: "(comments a)[pe_note e := (comments a ! pe_note e)\<lparr>no_text := pe_before e\<rparr>] = comments a"
    using before by (simp add: list_update_same_conv i)
  show ?thesis
  proof (cases "pe_before e = []")
    case True
    have "notes_done (a\<lparr>open_note := None, comments := remove_at (pe_note e) (comments a)\<rparr>)"
      using remove_at_others [OF rest i] by (simp add: notes_done_def)
    then have "annot_ok (update_clear_chip (a\<lparr>open_note := None, comments := remove_at (pe_note e) (comments a)\<rparr>))"
      using assms p by (intro annot_okI) (simp_all add: annot_ok_def open_ok_def strokes_ok_def)
    then show ?thesis using True Some by (simp add: cancel_editing_pin_def Let_def)
  next
    case False
    have "notes_done (a\<lparr>open_note := None\<rparr>)" using rest done_if [OF False] by (auto simp: notes_done_def)
    then have "annot_ok (update_clear_chip (a\<lparr>open_note := None\<rparr>))"
      using assms p by (intro annot_okI) (simp_all add: annot_ok_def open_ok_def strokes_ok_def)
    then show ?thesis using False Some i same by (simp add: cancel_editing_pin_def Let_def)
  qed
qed

lemma pin_down_ok:
  assumes "annot_ok a" "i < length (comments a)" "\<not> twice i now a \<or> open_note a = None \<or> opens i a"
  shows "annot_ok (pin_down i c now a)"
proof (cases "twice i now a")
  case True
  with assms(3) have rest: "\<forall>j < length (comments a). j \<noteq> i \<longrightarrow> note_done (comments a ! j)"
    using assms(1) by (auto simp: annot_ok_def notes_done_def opens_def split: option.splits)
  have shut: "(if opens i a then None else open_note a) = None" using True assms(3) by (auto simp: opens_def)
  have "annot_ok (update_clear_chip (a\<lparr>open_note := None, comments := remove_at i (comments a), last_pin := None\<rparr>))"
    using assms(1) remove_at_others [OF rest assms(2)]
    by (intro annot_okI) (auto simp: annot_ok_def open_ok_def notes_done_def strokes_ok_def)
  then show ?thesis using True shut by (simp add: pin_down_def)
next
  case False
  let ?a = "a\<lparr>last_pin := Some (i, now)\<rparr>"
  have a1: "annot_ok ?a" using assms(1) by (simp add: annot_ok_def open_ok_def notes_done_def strokes_ok_def opens_def)
  obtain ok b where b: "finalize_editing_pin ?a = (ok, b)" by fastforce
  have "annot_ok b" "open_note b = None" using finalize_ok [OF a1] by (simp_all add: b)
  then have "annot_ok (b\<lparr>pointer := Some (Moving i p q False)\<rparr>)" for p q
    by (simp add: annot_ok_def open_ok_def notes_done_def strokes_ok_def opens_def)
  then show ?thesis using False a1 b \<open>annot_ok b\<close> by (simp add: pin_down_def Let_def)
qed

lemma down_ok: assumes "annot_ok a" "careful (Down h c now) a" "can_hit h a" shows "annot_ok (on_annot_down h c now a)"
proof (cases h)
  case (Hit_stroke i)
  have "set (remove_at i (strokes a)) \<subseteq> set (strokes a)" by (rule set_remove_at)
  then have "annot_ok (update_clear_chip (a\<lparr>strokes := remove_at i (strokes a)\<rparr>))"
    using assms(1) by (intro annot_okI) (auto simp: annot_ok_def open_ok_def notes_done_def strokes_ok_def opens_def)
  with assms(1) show ?thesis by (simp add: Hit_stroke on_annot_down_def)
next
  case (Hit_pin i)
  have "annot_ok (pin_down i c now a)" using assms by (intro pin_down_ok) (simp_all add: Hit_pin careful_def can_hit_def)
  then show ?thesis using assms(1) by (simp add: Hit_pin on_annot_down_def)
qed (use assms(1) finalize_ok(2) [OF assms(1)] clear_ok in \<open>auto simp: on_annot_down_def annot_ok_def open_ok_def notes_done_def strokes_ok_def opens_def\<close>)


lemma move_ok: assumes "annot_ok a" shows "annot_ok (on_annot_move c a)"
proof (cases "pointer a")
  case None
  then show ?thesis using assms
    by (auto simp: on_annot_move_def Let_def annot_ok_def open_ok_def notes_done_def strokes_ok_def opens_def split: option.split)
next
  case (Some g)
  then have shut: "open_note a = None" using assms by (simp add: annot_ok_def strokes_ok_def)
  show ?thesis
  proof (cases g)
    case (Drawing p0 pts)
    have "2 \<le> length ps" if "pts = Some ps" for ps using assms Some Drawing that by (simp add: annot_ok_def strokes_ok_def)
    then have "2 \<le> length ((case pts of None \<Rightarrow> [p0] | Some ps \<Rightarrow> ps) @ [local_coords c a])" by (cases pts) auto
    then show ?thesis using assms Some Drawing shut
      by (auto simp: on_annot_move_def Let_def annot_ok_def open_ok_def notes_done_def strokes_ok_def opens_def split: option.split)
  next
    case (Moving i p0 start moved)
    have "annot_ok (update_clear_chip (a\<lparr>pointer := Some (Moving i p0 start True), comments := (comments a)[i := (comments a ! i)\<lparr>no_at := q\<rparr>]\<rparr>))"
      if "i < length (comments a)" for q
      using assms shut that by (intro annot_okI) (auto simp: annot_ok_def open_ok_def notes_done_def strokes_ok_def opens_def note_done_def nth_list_update)
    then show ?thesis using assms Some Moving shut
      by (auto simp: on_annot_move_def Let_def annot_ok_def open_ok_def notes_done_def strokes_ok_def opens_def split: option.split)
  qed
qed

lemma up_ok: assumes "annot_ok a" shows "annot_ok (on_annot_up a)"
proof (cases "resizing a \<noteq> None \<or> \<not> annot_active a \<or> pointer a = None")
  case True
  then show ?thesis using assms
    by (auto simp: on_annot_up_def annot_ok_def open_ok_def notes_done_def strokes_ok_def opens_def split: option.split)
next
  case False
  then obtain g where g: "pointer a = Some g" and shut: "open_note a = None"
    using assms by (auto simp: annot_ok_def strokes_ok_def)
  show ?thesis
  proof (cases g)
    case (Moving i p0 start moved)
    have "annot_ok (begin_edit_pin i (a\<lparr>pointer := None\<rparr>))" "annot_ok (a\<lparr>pointer := None, last_pin := None\<rparr>)"
      using assms shut by (auto simp: begin_edit_pin_def annot_ok_def open_ok_def notes_done_def strokes_ok_def opens_def)
    then show ?thesis using False g Moving by (simp add: on_annot_up_def Let_def)
  next
    case (Drawing p0 pts)
    show ?thesis
    proof (cases pts)
      case None
      let ?n = "comments a @ [\<lparr>no_at = p0, no_text = []\<rparr>]"
      let ?e = "\<lparr>pe_note = length (comments a), pe_value = [], pe_before = []\<rparr>"
      have "annot_ok (a\<lparr>comments := ?n, clear_chip := True, open_note := Some ?e, pointer := None\<rparr>)"
        using assms shut by (auto simp: annot_ok_def open_ok_def notes_done_def strokes_ok_def opens_def nth_append less_Suc_eq)
      then show ?thesis using False g Drawing None by (simp add: on_annot_up_def begin_edit_pin_def update_clear_chip_def nth_append)
    next
      case (Some ps)
      have "2 \<le> length ps" using assms g Drawing Some by (simp add: annot_ok_def strokes_ok_def)
      then have "annot_ok (update_clear_chip (a\<lparr>strokes := strokes a @ [ps], pointer := None\<rparr>))"
        using assms shut by (intro annot_okI) (auto simp: annot_ok_def open_ok_def notes_done_def strokes_ok_def opens_def)
      then show ?thesis using False g Drawing Some by (simp add: on_annot_up_def)
    qed
  qed
qed

lemma hide_ok: "annot_ok a \<Longrightarrow> careful Hide_overlay a \<Longrightarrow> annot_ok (hide_annot_overlay a)"
  by (fastforce simp: careful_def hide_annot_overlay_def annot_ok_def open_ok_def notes_done_def strokes_ok_def opens_def
      split: option.splits)

lemma overlay_ok: "annot_ok a \<Longrightarrow> annot_ok (show_annot_overlay p a)" "annot_ok a \<Longrightarrow> annot_ok (position_annot_overlay p a)"
  by (simp_all add: show_annot_overlay_def position_annot_overlay_def annot_ok_def open_ok_def notes_done_def strokes_ok_def opens_def)

lemma type_ok: assumes "annot_ok a" shows "annot_ok (type_note s a)"
proof (cases "open_note a")
  case None
  then have "type_note s a = a" by (simp add: type_note_def)
  with assms show ?thesis by simp
next
  case (Some e)
  have "opens i (type_note s a) = opens i a" for i by (simp add: type_note_def opens_def Some)
  then show ?thesis using assms Some by (auto simp: annot_ok_def open_ok_def notes_done_def strokes_ok_def type_note_def)
qed

lemma step_ok: assumes "annot_ok a" "careful ev a" shows "annot_ok (annot_step ev a)"
proof (cases ev)
  case (Down h c now)
  then show ?thesis using assms down_ok by simp
next
  case Hide_overlay
  then show ?thesis using assms hide_ok by simp
next
  case (Type_note s)
  then show ?thesis using assms(1) by (simp add: type_ok)
qed (use assms(1) move_ok up_ok cancel_ok finalize_ok(2) clear_ok overlay_ok in simp_all)

lemma run_ok: "annot_ok a \<Longrightarrow> careful_run es a \<Longrightarrow> annot_ok (annot_run es a)"
  by (induction es arbitrary: a) (simp_all add: step_ok del: annot_step.simps)

text \<open>The overlay as it is built.\<close>

definition no_annot :: annot where
  "no_annot = \<lparr>comments = [], strokes = [], pointer = None, open_note = None, last_pin = None, annot_active = False,
     clear_chip = False, overlay_at = (0, 0), resizing = None, sizes = []\<rparr>"

text \<open>
  C15: What is sent is complete. After any careful use of the overlay, go sends, without an error, only
  notes that have a text and strokes of at least two points, the open note included with what is typed;
  and it leaves the overlay empty.
\<close>

theorem sent_annotations_complete:
  assumes "careful_run es no_annot"
  shows "\<exists>cs ss a. go_annotations (annot_run es no_annot) = (Some (cs, ss), a) \<and>
    (\<forall>n \<in> set cs. trim (no_text n) \<noteq> []) \<and> (\<forall>s \<in> set ss. 2 \<le> length s) \<and>
    comments a = [] \<and> strokes a = [] \<and> \<not> clear_chip a \<and> \<not> annot_active a"
proof -
  have "annot_ok no_annot" by (simp add: no_annot_def annot_ok_def open_ok_def notes_done_def strokes_ok_def)
  from run_ok [OF this assms] have ok: "annot_ok (annot_run es no_annot)" .
  obtain b a1 where f: "finalize_editing_pin (annot_run es no_annot) = (b, a1)" by fastforce
  note fin = finalize_ok [OF ok, unfolded f, simplified]
  have "note_done n" if "n \<in> set (comments a1)" for n
    using fin(2,3) that by (auto simp: annot_ok_def notes_done_def opens_def in_set_conv_nth)
  moreover have "\<forall>s \<in> set (strokes a1). 2 \<le> length s" using fin(2) by (simp add: annot_ok_def strokes_ok_def)
  ultimately show ?thesis using fin(1)
    by (auto simp: go_annotations_def f note_done_def clear_annotations_def hide_annot_overlay_def update_clear_chip_def)
qed


lemma types_only: "annot_run (map Type_note ss) a = a\<lparr>open_note := map_option (\<lambda>e. e\<lparr>pe_value := last (pe_value e # ss)\<rparr>) (open_note a)\<rparr>"
proof (induction ss arbitrary: a)
  case Nil
  then show ?case by (simp add: option.map_ident)
next
  case (Cons s ss)
  show ?case by (cases "open_note a") (simp_all add: Cons type_note_def)
qed

text \<open>
  Escape leaves no trace. A pin put down or an existing one opened with a press, anything typed, then
  Escape: the notes are what they were before the press, in order, place and text, the strokes too, and
  no input is open.
\<close>

theorem escape_undoes:
  assumes "annot_ok a" "annot_active a" "pointer a = None" "open_note a = None" "resizing a = None"
    and "h = Hit_empty \<or> (\<exists>i < length (comments a). h = Hit_pin i \<and> \<not> twice i now a)"
  shows "comments (annot_run ([Down h c now, Up] @ map Type_note ss @ [Escape_note]) a) = comments a \<and>
    strokes (annot_run ([Down h c now, Up] @ map Type_note ss @ [Escape_note]) a) = strokes a \<and>
    open_note (annot_run ([Down h c now, Up] @ map Type_note ss @ [Escape_note]) a) = None"
  using assms(6)
proof
  assume h: "h = Hit_empty"
  have "annot_run [Down h c now, Up] a =
      a\<lparr>comments := comments a @ [\<lparr>no_at = local_coords c a, no_text = []\<rparr>], clear_chip := True,
        open_note := Some \<lparr>pe_note = length (comments a), pe_value = [], pe_before = []\<rparr>\<rparr>"
    using gesture_one [OF assms(2-5), of c now "[]"] by (simp add: h del: annot_step.simps)
  then show ?thesis by (simp add: types_only cancel_editing_pin_def update_clear_chip_def Let_def del: annot_step.simps(1,3))
next
  assume "\<exists>i < length (comments a). h = Hit_pin i \<and> \<not> twice i now a"
  then obtain i where i: "i < length (comments a)" "h = Hit_pin i" "\<not> twice i now a" by auto
  have "trim (no_text (comments a ! i)) \<noteq> []"
    using assms(1,4) i(1) by (auto simp: annot_ok_def notes_done_def opens_def note_done_def)
  then have full: "no_text (comments a ! i) \<noteq> []" by auto
  let ?t = "no_text (comments a ! i)"
  have "annot_run [Down h c now, Up] a = a\<lparr>last_pin := Some (i, now), pointer := None,
      open_note := Some \<lparr>pe_note = i, pe_value = ?t, pe_before = ?t\<rparr>\<rparr>"
    using assms(2-5) i by (simp add: can_hit_def on_annot_down_def pin_down_def opens_def finalize_editing_pin_def on_annot_up_def
        begin_edit_pin_def Let_def)
  then show ?thesis using full i(1)
    by (simp add: types_only cancel_editing_pin_def update_clear_chip_def Let_def list_update_same_conv del: annot_step.simps(1,3))
qed

section \<open>Examples\<close>

definition shown_annot :: annot where
  "shown_annot = show_annot_overlay (100, 50) no_annot"

lemma gesture_makes_one_witness:
  "strokes (annot_run [Down Hit_empty (110, 60) 0, Move (112, 61), Move (130, 60), Up] shown_annot) = [[(10, 10), (30, 10)]]"
  using gesture_makes_one [of shown_annot "(110, 60)" 0 "[(112, 61), (130, 60)]"]
  by (simp add: shown_annot_def show_annot_overlay_def no_annot_def local_coords_def near_def DRAG_THRESHOLD_def)

definition note_events :: "annot_event list" where
  "note_events = [Show_overlay (0, 0), Down Hit_empty (3, 4) 0, Up, Type_note ''bolder'', Down Hit_empty (9, 9) 1000]"

lemma sent_annotations_complete_witness:
  "\<exists>a. go_annotations (annot_run note_events no_annot) = (Some ([\<lparr>no_at = (3, 4), no_text = ''bolder''\<rparr>], []), a) \<and> comments a = []"
proof -
  have trimmed: "trim ''bolder'' = ''bolder''" by code_simp
  have "careful_run note_events no_annot" by (simp add: note_events_def careful_def)
  from sent_annotations_complete [OF this] show ?thesis
    by (auto simp: note_events_def no_annot_def show_annot_overlay_def can_hit_def on_annot_down_def on_annot_up_def begin_edit_pin_def
        update_clear_chip_def local_coords_def type_note_def finalize_editing_pin_def trimmed go_annotations_def Let_def)
qed

definition three_notes :: annot where
  "three_notes = shown_annot\<lparr>comments := [\<lparr>no_at = (10, 10), no_text = ''a''\<rparr>, \<lparr>no_at = (20, 10), no_text = ''b''\<rparr>,
     \<lparr>no_at = (30, 10), no_text = ''c''\<rparr>], clear_chip := True\<rparr>"

lemma escape_undoes_witness:
  "comments (annot_run [Down (Hit_pin 1) (120, 60) 0, Up, Type_note ''x'', Escape_note] three_notes) = comments three_notes"
proof -
  have filled: "trim ''a'' \<noteq> []" "trim ''b'' \<noteq> []" "trim ''c'' \<noteq> []" by code_simp+
  have "annot_ok three_notes"
    by (simp add: three_notes_def shown_annot_def show_annot_overlay_def no_annot_def annot_ok_def open_ok_def notes_done_def
        strokes_ok_def note_done_def filled less_Suc_eq all_conj_distrib imp_conjR nth_Cons')
  from escape_undoes [OF this, of "Hit_pin 1" 0 "(120, 60)" "[''x'']"] show ?thesis
    by (simp add: three_notes_def shown_annot_def show_annot_overlay_def no_annot_def twice_def)
qed

text \<open>
  Emptying an open note and pressing another pin removes the first and then takes the index of the pressed
  one as it was: the pin after it is dragged.
\<close>

lemma wrong_pin_dragged:
  "map no_text (comments (annot_run [Down (Hit_pin 0) (110, 60) 0, Up, Type_note [],
     Down (Hit_pin 1) (120, 60) 1000, Move (120, 160), Up] three_notes)) = [''b'', ''c''] \<and>
   map no_at (comments (annot_run [Down (Hit_pin 0) (110, 60) 0, Up, Type_note [],
     Down (Hit_pin 1) (120, 60) 1000, Move (120, 160), Up] three_notes)) = [(20, 10), (30, 110)]"
  by (simp add: three_notes_def shown_annot_def show_annot_overlay_def no_annot_def can_hit_def on_annot_down_def pin_down_def twice_def
      opens_def finalize_editing_pin_def local_coords_def on_annot_up_def begin_edit_pin_def type_note_def update_clear_chip_def
      remove_at_def on_annot_move_def near_def DRAG_THRESHOLD_def PIN_DBL_CLICK_MS_def Let_def)

text \<open>
  Deleting a pin with a second press while the note of another is open leaves that note's index beyond the
  list: closing it throws, and go sends nothing.
\<close>

lemma stale_note_stops_go:
  "fst (go_annotations (annot_run [Show_overlay (0, 0), Down Hit_empty (3, 4) 0, Up, Type_note ''a'', Enter_note,
     Down (Hit_pin 0) (3, 4) 1000, Up, Enter_note, Down Hit_empty (50, 50) 1100, Up, Down (Hit_pin 0) (3, 4) 1200,
     Type_note ''b''] no_annot)) = None"
proof -
  have trimmed: "trim ''a'' = ''a''" "trim ''b'' = ''b''" by code_simp+
  show ?thesis
    by (simp add: no_annot_def show_annot_overlay_def can_hit_def on_annot_down_def pin_down_def twice_def
      opens_def finalize_editing_pin_def local_coords_def on_annot_up_def begin_edit_pin_def type_note_def update_clear_chip_def
      remove_at_def go_annotations_def PIN_DBL_CLICK_MS_def trimmed Let_def)
qed

end
