(* ===== verification/LiveSteer.thy ===== *)
theory LiveSteer imports LiveInsert begin

text \<open>
  Steering the page by text or voice (\<open>agent/skills/impeccable/scripts/live-browser.js\<close>, lines 9773 to
  9795 and 9964 to 10770, with the listeners of \<open>initPageChat\<close>, 10841 to 10951): the chat field of the
  global bar, the lock while a message is on its way, its time-out, the answer, and the voice engine it
  shares with the prompt of the picked element. Sizes, colours and hints are left out; focusing an
  enabled field succeeds. The clock is a field, moved by its own event.
\<close>

section \<open>State\<close>

datatype voice_mode = Voice_steer | Voice_configure

text \<open>\<open>vo_detached\<close>: what the prompt field held when the bar was rebuilt without it.\<close>

record voice_ctx =
  vo_mode :: voice_mode
  vo_detached :: "string option"

datatype steer_msg =
    Steer string string
  | Steer_checkpoint string string string

record steer =
  chat_built :: bool
  chat_text :: string
  chat_focused :: bool
  chat_expanded :: bool
  steer_locked :: bool
  steer_request :: "string option"
  steer_pending :: string
  steer_was_focused :: bool
  await_timer :: "string option"
  send_shown :: bool
  send_enabled :: bool
  queue_hint :: bool
  blur_timers :: nat
  agent_polling :: bool
  live :: live_state
  clock :: int
  focus_suspended :: bool
  focus_pause :: int
  page_editing :: bool
  prompt_field :: "string option"
  prompts_sent :: nat
  engine :: "nat option"
  next_engine :: nat
  listening :: bool
  voice_suppress :: bool
  voice_base :: string
  voice :: "voice_ctx option"
  sending :: "(string \<times> string) list"
  steer_sent :: "steer_msg list"
  steer_toasts :: "string list"
  reload_notices :: nat

abbreviation "Live_saving \<equiv> Live_other ''SAVING''"
abbreviation "Live_edits \<equiv> Live_other ''EDITING''"

definition steer_toast :: "string \<Rightarrow> steer \<Rightarrow> steer" where
  "steer_toast t s = s\<lparr>steer_toasts := steer_toasts s @ [t]\<rparr>"

definition send_steer_checkpoint :: "string \<Rightarrow> string \<Rightarrow> string \<Rightarrow> steer \<Rightarrow> steer" where
  "send_steer_checkpoint i reason extra s = s\<lparr>steer_sent := steer_sent s @ [Steer_checkpoint i reason extra]\<rparr>"

section \<open>The chat field\<close>

definition sync_send_button :: "steer \<Rightarrow> steer" where
  "sync_send_button s =
     (let has_text = trim (chat_text s) \<noteq> []; shown = \<not> steer_locked s \<and> (chat_expanded s \<or> has_text \<or> chat_focused s)
      in if chat_built s then s\<lparr>send_shown := shown, send_enabled := shown \<and> has_text\<rparr> else s)"

text \<open>Of the focus ring only the send button is kept.\<close>

definition sync_focus_ring :: "steer \<Rightarrow> steer" where
  "sync_focus_ring s = (if chat_built s then sync_send_button s else s)"

definition prepare_for_typing :: "steer \<Rightarrow> steer" where
  "prepare_for_typing s = (if chat_built s then s\<lparr>chat_expanded := True\<rparr> else s)"

definition take_focus :: "steer \<Rightarrow> steer" where
  "take_focus s = sync_focus_ring (s\<lparr>chat_focused := True, steer_was_focused := True\<rparr>)"

definition focus_page_chat_input :: "steer \<Rightarrow> steer" where
  "focus_page_chat_input s =
     (let s1 = prepare_for_typing s in if \<not> chat_built s \<or> steer_locked s then s1 else take_focus s1)"

definition expand_page_chat :: "bool \<Rightarrow> steer \<Rightarrow> steer" where
  "expand_page_chat focus s =
     (if \<not> chat_built s \<or> steer_locked s then s
      else let s1 = sync_focus_ring (prepare_for_typing s) in if focus then focus_page_chat_input s1 else s1)"

definition collapse_page_chat :: "steer \<Rightarrow> steer" where
  "collapse_page_chat s = (if listening s \<or> \<not> chat_built s then s else sync_focus_ring (s\<lparr>chat_expanded := False\<rparr>))"

definition sync_visual :: "steer \<Rightarrow> steer" where
  "sync_visual s =
     (if \<not> chat_built s \<or> steer_locked s then sync_send_button s
      else sync_send_button
        (if chat_text s \<noteq> [] \<and> \<not> chat_expanded s then expand_page_chat False s
         else if chat_text s = [] \<and> chat_expanded s then collapse_page_chat s else s))"

definition arm_page_chat :: "bool \<Rightarrow> steer \<Rightarrow> steer" where
  "arm_page_chat focus s =
     (if \<not> chat_built s \<or> steer_locked s then s
      else let s1 = (if chat_expanded s then s else prepare_for_typing s)
        in if focus then focus_page_chat_input s1 else sync_focus_ring s1)"

definition should_focus_steer_chat :: "steer \<Rightarrow> bool" where
  "should_focus_steer_chat s \<longleftrightarrow> live s \<noteq> Live_configuring \<and> live s \<noteq> Live_edits \<and> \<not> steer_locked s"

definition should_auto_focus :: "steer \<Rightarrow> bool" where
  "should_auto_focus s \<longleftrightarrow> should_focus_steer_chat s \<and> \<not> focus_suspended s \<and> \<not> page_editing s \<and> focus_pause s \<le> clock s"

definition focus_steer_chat :: "steer \<Rightarrow> steer" where
  "focus_steer_chat s = (if \<not> chat_built s \<or> \<not> should_auto_focus s then s else take_focus (sync_visual s))"

definition sync_page_chat_focus :: "steer \<Rightarrow> steer" where
  "sync_page_chat_focus s =
     (if live s = Live_configuring then s else if should_auto_focus s then focus_steer_chat s else s)"

section \<open>Waiting for the agent\<close>

definition agent_has_work :: "steer \<Rightarrow> bool" where
  "agent_has_work s \<longleftrightarrow> live s \<in> {Live_generating, Live_saving}"

definition queued_behind_generation :: "steer \<Rightarrow> bool" where
  "queued_behind_generation s \<longleftrightarrow> steer_locked s \<and> \<not> agent_polling s \<and> agent_has_work s"

definition sync_queue_hint :: "steer \<Rightarrow> steer" where
  "sync_queue_hint s = (if chat_built s then s\<lparr>queue_hint := queued_behind_generation s\<rparr> else s)"

definition steer_timeout_message :: "steer \<Rightarrow> string" where
  "steer_timeout_message s = ''Steer timed out after 2 minutes. '' @
     (if queued_behind_generation s then
        ''The agent is still busy with the current generation - your message was not lost, but it never got picked up. '' @
        ''Send it again once the variants land.''
      else if \<not> agent_polling s then ''No agent is polling right now. Run live-poll.mjs, then send it again.''
      else ''The agent picked it up but never replied with steer_done. Check the agent session for a stalled or failed steer.'')"

section \<open>The voice engine\<close>

definition release_engine :: "bool \<Rightarrow> steer \<Rightarrow> steer" where
  "release_engine suppress s = s\<lparr>voice_suppress := voice_suppress s \<or> suppress, engine := None\<rparr>"

definition stop_voice :: "string option \<Rightarrow> steer \<Rightarrow> steer" where
  "stop_voice message s =
     (let s1 = (release_engine True s)\<lparr>listening := False, voice := None\<rparr>
      in case message of Some m \<Rightarrow> if m = [] then s1 else steer_toast m s1 | None \<Rightarrow> s1)"

definition lock_steer_chat :: "steer \<Rightarrow> steer" where
  "lock_steer_chat s =
     (if \<not> chat_built s then s
      else sync_focus_ring (sync_queue_hint (prepare_for_typing ((stop_voice None s)\<lparr>steer_locked := True, chat_focused := False\<rparr>))))"

definition reset_chat :: "bool \<Rightarrow> string \<Rightarrow> steer \<Rightarrow> steer" where
  "reset_chat keep given_back s =
     sync_focus_ring (s\<lparr>await_timer := None, steer_locked := False, steer_request := None, chat_expanded := keep,
       chat_text := (if keep then given_back else []), queue_hint := False, steer_pending := (if keep then given_back else []),
       steer_was_focused := False\<rparr>)"

definition say_unlocked :: "string option \<Rightarrow> string option \<Rightarrow> steer \<Rightarrow> steer" where
  "say_unlocked problem message s =
     (if truthy_str problem then steer_toast (opt_str problem) s
      else if truthy_str message then steer_toast (opt_str message) s else s)"

definition report_unlocked :: "string option \<Rightarrow> string option \<Rightarrow> string option \<Rightarrow> steer \<Rightarrow> steer" where
  "report_unlocked completed problem message s =
     (case completed of
        Some i \<Rightarrow> send_steer_checkpoint i (if truthy_str problem then ''steer_error'' else ''steer_done'')
                    (str_or (opt_str message) (opt_str problem)) s
      | None \<Rightarrow> s)"

text \<open>\<open>problem\<close> is the error, \<open>given_back\<close> the message to put back with it, \<open>message\<close> the answer of a success.\<close>

definition unlock_steer_chat :: "string option \<Rightarrow> string \<Rightarrow> string option \<Rightarrow> steer \<Rightarrow> steer" where
  "unlock_steer_chat problem given_back message s =
     (let keep = truthy_str problem \<and> given_back \<noteq> [] in
      if \<not> chat_built s then s\<lparr>await_timer := None, steer_locked := False, steer_request := None\<rparr>
      else
        let s1 = report_unlocked (steer_request s) problem message (say_unlocked problem message (reset_chat keep given_back s))
        in if keep then focus_page_chat_input s1 else sync_page_chat_focus s1)"

definition await_fires :: "steer \<Rightarrow> steer" where
  "await_fires s =
     (case await_timer s of
        None \<Rightarrow> s
      | Some i \<Rightarrow>
          if \<not> steer_locked s \<or> steer_request s \<noteq> Some i then s\<lparr>await_timer := None\<rparr>
          else unlock_steer_chat (Some (steer_timeout_message s)) (steer_pending s) None s)"

text \<open>\<open>i\<close> is the fresh identifier.\<close>

definition submit_steer_message :: "string \<Rightarrow> steer \<Rightarrow> steer" where
  "submit_steer_message i s0 =
     (let s = stop_voice None s0; text = trim (chat_text s) in
      if \<not> chat_built s \<or> text = [] \<or> steer_locked s then s
      else
        let s1 = (lock_steer_chat (s\<lparr>steer_request := Some i, steer_pending := text\<rparr>))\<lparr>await_timer := Some i\<rparr>
        in s1\<lparr>steer_sent := steer_sent s1 @ [Steer i text], sending := sending s1 @ [(i, text)]\<rparr>)"

text \<open>The answer to the request: whether it reached the server.\<close>

definition steer_sending_over :: "nat \<Rightarrow> bool \<Rightarrow> steer \<Rightarrow> steer" where
  "steer_sending_over k ok s0 =
     (if \<not> k < length (sending s0) then s0
      else
        let (i, text) = sending s0 ! k; s = s0\<lparr>sending := take k (sending s0) @ drop (k + 1) (sending s0)\<rparr> in
        if \<not> ok then unlock_steer_chat (Some ''Could not reach live server'') text None s
        else send_steer_checkpoint i ''steer_submitted'' text
          (if steer_was_focused s then send_steer_checkpoint i ''steer_input_focused'' [] s else s))"

text \<open>\<open>Inr\<close> the message of a success and whether its file is a Svelte file, \<open>Inl\<close> the message of an error.\<close>

definition maybe_complete_steer :: "string \<Rightarrow> string option + string option \<times> bool \<Rightarrow> steer \<Rightarrow> bool \<times> steer" where
  "maybe_complete_steer i answer s =
     (if steer_request s \<noteq> Some i \<or> i = [] then (False, s)
      else case answer of
          Inr (message, svelte) \<Rightarrow>
            let s1 = unlock_steer_chat None [] message s
            in (True, if svelte then s1\<lparr>reload_notices := reload_notices s1 + 1\<rparr> else s1)
        | Inl message \<Rightarrow> (True, unlock_steer_chat (Some (str_or (opt_str message) ''Steer failed'')) (steer_pending s) None s))"

definition reload_notice_fires :: "steer \<Rightarrow> steer" where
  "reload_notice_fires s0 =
     (if reload_notices s0 = 0 then s0
      else let s = s0\<lparr>reload_notices := reload_notices s0 - 1\<rparr>
        in if steer_locked s then s else steer_toast ''Steer applied. Reload if the page has not refreshed yet.'' s)"

section \<open>Speaking\<close>

text \<open>What the browser offers: the engine, a secure context, a preview without speech services, and how starting fails.\<close>

record voice_env =
  has_engine :: bool
  secure_context :: bool
  embedded_preview :: bool
  start_error :: "string option"

definition voice_unavailable_message :: string where
  "voice_unavailable_message = ''Voice input works in Chrome or Safari. Cursor'' @ [CHR 0x27] @
     ''s preview browser cannot reach speech services.''"

definition steer_voice_error_message :: "bool \<Rightarrow> string \<Rightarrow> string option" where
  "steer_voice_error_message embedded code =
     (if code = ''not-allowed'' then Some ''Microphone access blocked''
      else if code = ''audio-capture'' then Some ''No microphone found''
      else if code = ''network'' then
        Some (if embedded then voice_unavailable_message
              else ''Voice input needs a network connection (browser speech uses a cloud service)'')
      else if code = ''service-not-allowed'' then Some ''Voice input is not available in this browser tab''
      else if code = ''language-not-supported'' then Some ''Speech language not supported''
      else if code \<in> {''no-speech'', ''aborted''} then None
      else Some (''Voice input failed ('' @ code @ '')''))"

text \<open>The field the voice writes to: the chat field, or the prompt field as it was when it started.\<close>

definition voice_text :: "steer \<Rightarrow> string" where
  "voice_text s =
     (case voice s of
        None \<Rightarrow> []
      | Some v \<Rightarrow> (case vo_mode v of
          Voice_steer \<Rightarrow> chat_text s
        | Voice_configure \<Rightarrow> (case vo_detached v of Some t \<Rightarrow> t | None \<Rightarrow> opt_str (prompt_field s))))"

definition put_voice_text :: "string \<Rightarrow> steer \<Rightarrow> steer" where
  "put_voice_text t s =
     (case voice s of
        None \<Rightarrow> s
      | Some v \<Rightarrow> (case vo_mode v of
          Voice_steer \<Rightarrow> sync_visual (s\<lparr>chat_text := t\<rparr>)
        | Voice_configure \<Rightarrow>
            (if vo_detached v \<noteq> None then s\<lparr>voice := Some (v\<lparr>vo_detached := Some t\<rparr>)\<rparr>
             else s\<lparr>prompt_field := map_option (\<lambda>_. t) (prompt_field s)\<rparr>)))"

definition voice_allowed :: "voice_mode \<Rightarrow> steer \<Rightarrow> bool" where
  "voice_allowed m s \<longleftrightarrow> \<not> listening s \<and>
     (case m of
        Voice_steer \<Rightarrow> chat_built s \<and> \<not> steer_locked s \<and> live s \<noteq> Live_configuring
      | Voice_configure \<Rightarrow> prompt_field s \<noteq> None \<and> live s = Live_configuring)"

definition start_voice :: "voice_env \<Rightarrow> voice_mode \<Rightarrow> steer \<Rightarrow> steer" where
  "start_voice env m s =
     (if \<not> voice_allowed m s then s
      else if \<not> has_engine env then steer_toast ''Voice input needs Speech Recognition (Chrome, Safari, or Edge)'' s
      else if \<not> secure_context env then steer_toast ''Voice input needs HTTPS or localhost'' s
      else if embedded_preview env then steer_toast voice_unavailable_message s
      else
        let s1 = (release_engine True s)\<lparr>voice_suppress := False, voice := Some \<lparr>vo_mode = m, vo_detached = None\<rparr>\<rparr>;
            s2 = (if m = Voice_steer \<and> \<not> chat_expanded s1 then expand_page_chat False s1 else s1);
            said = trim (voice_text s2);
            s3 = s2\<lparr>voice_base := (if said = [] then [] else said @ '' ''), engine := Some (next_engine s2),
                   next_engine := next_engine s2 + 1\<rparr>
        in case start_error env of
            None \<Rightarrow> s3
          | Some e \<Rightarrow> stop_voice (Some (if includes_str ''already started'' e then ''Voice input already running''
                else ''Could not start voice input'')) s3)"

definition toggle_voice :: "voice_env \<Rightarrow> voice_mode \<Rightarrow> steer \<Rightarrow> steer" where
  "toggle_voice env m s =
     (if listening s \<and> map_option vo_mode (voice s) = Some m then stop_voice None s else start_voice env m s)"

text \<open>The callbacks of an engine are taken away when it is released; \<open>n\<close> is the engine that calls.\<close>

definition voice_started :: "nat \<Rightarrow> steer \<Rightarrow> steer" where
  "voice_started n s = (if engine s = Some n then s\<lparr>listening := True\<rparr> else s)"

definition voice_result :: "nat \<Rightarrow> string list \<Rightarrow> steer \<Rightarrow> steer" where
  "voice_result n parts s =
     (if engine s = Some n \<and> voice s \<noteq> None then put_voice_text (trim (voice_base s @ concat parts)) s else s)"

definition voice_error :: "nat \<Rightarrow> bool \<Rightarrow> string \<Rightarrow> steer \<Rightarrow> steer" where
  "voice_error n embedded code s =
     (if engine s = Some n then stop_voice (steer_voice_error_message embedded (str_or code ''unknown'')) s else s)"

definition finish_voice_session :: "string \<Rightarrow> steer \<Rightarrow> steer" where
  "finish_voice_session i s =
     (let text = trim (voice_text s); ctx = voice s;
          s1 = s\<lparr>engine := None, listening := False, voice_suppress := False, voice := None\<rparr>
      in if voice_suppress s \<or> text = [] then s1
         else (case ctx of
             None \<Rightarrow> s1
           | Some v \<Rightarrow> (case vo_mode v of
               Voice_steer \<Rightarrow> if steer_locked s then s1 else submit_steer_message i s1
             | Voice_configure \<Rightarrow> if live s = Live_configuring then s1\<lparr>prompts_sent := prompts_sent s1 + 1\<rparr> else s1)))"

definition voice_ended :: "nat \<Rightarrow> string \<Rightarrow> steer \<Rightarrow> steer" where
  "voice_ended n i s = (if engine s = Some n then finish_voice_session i s else s)"

text \<open>The bar is rebuilt, with another prompt field or none.\<close>

definition rebuild_bar :: "string option \<Rightarrow> steer \<Rightarrow> steer" where
  "rebuild_bar field s =
     s\<lparr>prompt_field := field,
       voice := (case voice s of
          Some v \<Rightarrow> Some (if vo_mode v = Voice_configure \<and> vo_detached v = None
                          then v\<lparr>vo_detached := Some (opt_str (prompt_field s))\<rparr> else v)
        | None \<Rightarrow> None)\<rparr>"

section \<open>The listeners of the chat field\<close>

definition type_chat :: "string \<Rightarrow> steer \<Rightarrow> steer" where
  "type_chat t s =
     (if \<not> chat_built s \<or> \<not> chat_focused s \<or> steer_locked s then s else sync_send_button (sync_visual (s\<lparr>chat_text := t\<rparr>)))"

definition escape_chat :: "steer \<Rightarrow> steer" where
  "escape_chat s =
     (if \<not> chat_built s \<or> \<not> chat_focused s then s
      else if chat_text s \<noteq> [] then sync_visual (s\<lparr>chat_text := []\<rparr>) else collapse_page_chat s)"

definition enter_chat :: "string \<Rightarrow> steer \<Rightarrow> steer" where
  "enter_chat i s = (if \<not> chat_built s \<or> \<not> chat_focused s then s else submit_steer_message i s)"

definition click_send :: "string \<Rightarrow> steer \<Rightarrow> steer" where
  "click_send i s = (if \<not> chat_built s \<or> steer_locked s \<or> \<not> send_enabled s then s else submit_steer_message i s)"

definition blur_chat :: "steer \<Rightarrow> steer" where
  "blur_chat s =
     (if \<not> chat_built s \<or> \<not> chat_focused s then s
      else (sync_focus_ring (s\<lparr>chat_focused := False\<rparr>))\<lparr>blur_timers := blur_timers s + 1\<rparr>)"

definition blur_timer_fires :: "steer \<Rightarrow> steer" where
  "blur_timer_fires s0 =
     (if blur_timers s0 = 0 then s0
      else
        let s = s0\<lparr>blur_timers := blur_timers s0 - 1\<rparr> in
        if \<not> chat_built s \<or> live s = Live_configuring \<or> steer_locked s \<or> listening s \<or> chat_focused s then s
        else if trim (chat_text s) = [] then collapse_page_chat s else s)"

definition set_steer_live_state :: "live_state \<Rightarrow> steer \<Rightarrow> steer" where
  "set_steer_live_state l s = sync_queue_hint (s\<lparr>live := l\<rparr>)"

definition sync_agent_polling :: "bool \<Rightarrow> steer \<Rightarrow> steer" where
  "sync_agent_polling b s = sync_queue_hint (s\<lparr>agent_polling := b\<rparr>)"

definition teardown_chat :: "steer \<Rightarrow> steer" where
  "teardown_chat s =
     (stop_voice None s)\<lparr>focus_suspended := False, focus_pause := 0, chat_built := False, chat_expanded := False, chat_focused := False\<rparr>"

section \<open>Runs\<close>

datatype steer_event =
    Type_chat string | Enter_chat string | Escape_chat | Click_send string | Click_chat | Press_chat | Blur_chat
  | Blur_timer | Await_timer | Notice_timer | Sending_over nat bool | Steer_answer string "string option + string option \<times> bool"
  | Toggle_voice voice_env voice_mode | Voice_started nat | Voice_result nat "string list"
  | Voice_error nat bool string | Voice_ended nat string | Bar_hidden | Bar_rebuilt "string option"
  | Live_now live_state | Polling bool | Clock int | Page_focus bool bool int | Teardown_chat

fun steer_step :: "steer_event \<Rightarrow> steer \<Rightarrow> steer" where
  "steer_step (Type_chat t) s = type_chat t s"
| "steer_step (Enter_chat i) s = enter_chat i s"
| "steer_step Escape_chat s = escape_chat s"
| "steer_step (Click_send i) s = click_send i s"
| "steer_step Click_chat s = arm_page_chat True s"
| "steer_step Press_chat s = arm_page_chat False s"
| "steer_step Blur_chat s = blur_chat s"
| "steer_step Blur_timer s = blur_timer_fires s"
| "steer_step Await_timer s = await_fires s"
| "steer_step Notice_timer s = reload_notice_fires s"
| "steer_step (Sending_over k ok) s = steer_sending_over k ok s"
| "steer_step (Steer_answer i a) s = snd (maybe_complete_steer i a s)"
| "steer_step (Toggle_voice env m) s = (if m = Voice_steer \<and> (steer_locked s \<or> \<not> chat_built s) then s else toggle_voice env m s)"
| "steer_step (Voice_started n) s = voice_started n s"
| "steer_step (Voice_result n ps) s = voice_result n ps s"
| "steer_step (Voice_error n b c) s = voice_error n b c s"
| "steer_step (Voice_ended n i) s = voice_ended n i s"
| "steer_step Bar_hidden s = stop_voice None s"
| "steer_step (Bar_rebuilt f) s = rebuild_bar f s"
| "steer_step (Live_now l) s = set_steer_live_state l s"
| "steer_step (Polling b) s = sync_agent_polling b s"
| "steer_step (Clock t) s = s\<lparr>clock := t\<rparr>"
| "steer_step (Page_focus suspended field until) s =
     s\<lparr>focus_suspended := suspended, page_editing := field, focus_pause := until\<rparr>"
| "steer_step Teardown_chat s = teardown_chat s"

definition steer_run :: "steer_event list \<Rightarrow> steer \<Rightarrow> steer" where
  "steer_run es s = foldl (\<lambda>s e. steer_step e s) s es"

section \<open>What the parts leave alone\<close>

definition core :: "steer \<Rightarrow> bool \<times> bool \<times> string option \<times> string \<times> string option" where
  "core s = (chat_built s, steer_locked s, steer_request s, steer_pending s, await_timer s)"

definition heard :: "steer \<Rightarrow> nat option \<times> nat" where
  "heard s = (engine s, prompts_sent s)"

definition sent_of :: "steer \<Rightarrow> steer_msg list \<times> (string \<times> string) list" where
  "sent_of s = (steer_sent s, sending s)"

lemma frame_fields [simp]:
  "core (s\<lparr>chat_text := x1\<rparr>) = core s" "sent_of (s\<lparr>chat_text := x1\<rparr>) = sent_of s"
  "core (s\<lparr>chat_focused := x2\<rparr>) = core s" "sent_of (s\<lparr>chat_focused := x2\<rparr>) = sent_of s"
  "core (s\<lparr>chat_expanded := x3\<rparr>) = core s" "sent_of (s\<lparr>chat_expanded := x3\<rparr>) = sent_of s"
  "core (s\<lparr>steer_was_focused := x4\<rparr>) = core s" "sent_of (s\<lparr>steer_was_focused := x4\<rparr>) = sent_of s"
  "core (s\<lparr>queue_hint := x5\<rparr>) = core s" "sent_of (s\<lparr>queue_hint := x5\<rparr>) = sent_of s"
  "core (s\<lparr>blur_timers := x6\<rparr>) = core s" "sent_of (s\<lparr>blur_timers := x6\<rparr>) = sent_of s"
  "core (s\<lparr>agent_polling := x7\<rparr>) = core s" "sent_of (s\<lparr>agent_polling := x7\<rparr>) = sent_of s"
  "core (s\<lparr>live := x8\<rparr>) = core s" "sent_of (s\<lparr>live := x8\<rparr>) = sent_of s"
  "core (s\<lparr>clock := x9\<rparr>) = core s" "sent_of (s\<lparr>clock := x9\<rparr>) = sent_of s"
  "core (s\<lparr>focus_suspended := y1\<rparr>) = core s" "sent_of (s\<lparr>focus_suspended := y1\<rparr>) = sent_of s"
  "core (s\<lparr>page_editing := y2\<rparr>) = core s" "sent_of (s\<lparr>page_editing := y2\<rparr>) = sent_of s"
  "core (s\<lparr>focus_pause := y3\<rparr>) = core s" "sent_of (s\<lparr>focus_pause := y3\<rparr>) = sent_of s"
  "core (s\<lparr>prompt_field := z1\<rparr>) = core s" "sent_of (s\<lparr>prompt_field := z1\<rparr>) = sent_of s"
  "core (s\<lparr>prompts_sent := z2\<rparr>) = core s" "sent_of (s\<lparr>prompts_sent := z2\<rparr>) = sent_of s"
  "core (s\<lparr>listening := z4\<rparr>) = core s" "sent_of (s\<lparr>listening := z4\<rparr>) = sent_of s"
  "core (s\<lparr>voice_suppress := z5\<rparr>) = core s" "sent_of (s\<lparr>voice_suppress := z5\<rparr>) = sent_of s"
  "core (s\<lparr>voice_base := z6\<rparr>) = core s" "sent_of (s\<lparr>voice_base := z6\<rparr>) = sent_of s"
  "core (s\<lparr>voice := z7\<rparr>) = core s" "sent_of (s\<lparr>voice := z7\<rparr>) = sent_of s"
  "core (s\<lparr>steer_toasts := z8\<rparr>) = core s" "sent_of (s\<lparr>steer_toasts := z8\<rparr>) = sent_of s"
  "core (s\<lparr>reload_notices := z9\<rparr>) = core s" "sent_of (s\<lparr>reload_notices := z9\<rparr>) = sent_of s"
  "core (s\<lparr>engine := e1\<rparr>) = core s" "sent_of (s\<lparr>engine := e1\<rparr>) = sent_of s"
  "core (s\<lparr>next_engine := e2\<rparr>) = core s" "sent_of (s\<lparr>next_engine := e2\<rparr>) = sent_of s"
  "sent_of (s\<lparr>chat_built := b1\<rparr>) = sent_of s" "sent_of (s\<lparr>await_timer := b2\<rparr>) = sent_of s"
  by (simp_all add: core_def sent_of_def heard_def)

lemma heard_fields [simp]:
  "heard (s\<lparr>chat_text := x1\<rparr>) = heard s"
  "heard (s\<lparr>chat_focused := x2\<rparr>) = heard s"
  "heard (s\<lparr>chat_expanded := x3\<rparr>) = heard s"
  "heard (s\<lparr>steer_was_focused := x4\<rparr>) = heard s"
  "heard (s\<lparr>queue_hint := x5\<rparr>) = heard s"
  "heard (s\<lparr>blur_timers := x6\<rparr>) = heard s"
  "heard (s\<lparr>agent_polling := x7\<rparr>) = heard s"
  "heard (s\<lparr>live := x8\<rparr>) = heard s"
  "heard (s\<lparr>clock := x9\<rparr>) = heard s"
  "heard (s\<lparr>prompt_field := z1\<rparr>) = heard s"
  "heard (s\<lparr>listening := z4\<rparr>) = heard s"
  "heard (s\<lparr>voice_suppress := z5\<rparr>) = heard s"
  "heard (s\<lparr>voice_base := z6\<rparr>) = heard s"
  "heard (s\<lparr>voice := z7\<rparr>) = heard s"
  "heard (s\<lparr>steer_toasts := z8\<rparr>) = heard s"
  "heard (s\<lparr>reload_notices := z9\<rparr>) = heard s"
  "heard (s\<lparr>sending := w1\<rparr>) = heard s"
  "heard (s\<lparr>steer_sent := w2\<rparr>) = heard s"
  "heard (s\<lparr>await_timer := w3\<rparr>) = heard s"
  "heard (s\<lparr>next_engine := w4\<rparr>) = heard s" "heard (s\<lparr>steer_locked := w5\<rparr>) = heard s"
  "heard (s\<lparr>steer_request := w6\<rparr>) = heard s" "heard (s\<lparr>steer_pending := w7\<rparr>) = heard s" "heard (s\<lparr>chat_built := w8\<rparr>) = heard s"
  "heard (s\<lparr>focus_suspended := w9\<rparr>) = heard s" "heard (s\<lparr>focus_pause := v1\<rparr>) = heard s" "heard (s\<lparr>page_editing := v2\<rparr>) = heard s"
  by (simp_all add: heard_def)

lemma frame_send [simp]: "core (sync_send_button s) = core s" "sent_of (sync_send_button s) = sent_of s" "heard (sync_send_button s) = heard s"
  "core (sync_focus_ring s) = core s" "sent_of (sync_focus_ring s) = sent_of s" "heard (sync_focus_ring s) = heard s"
  by (simp_all add: sync_focus_ring_def sync_send_button_def core_def sent_of_def heard_def Let_def)

lemma frame_focus [simp]: "core (prepare_for_typing s) = core s" "sent_of (prepare_for_typing s) = sent_of s" "heard (prepare_for_typing s) = heard s"
  "core (take_focus s) = core s" "sent_of (take_focus s) = sent_of s" "heard (take_focus s) = heard s"
  by (simp_all add: prepare_for_typing_def take_focus_def core_def sent_of_def heard_def sync_focus_ring_def sync_send_button_def Let_def)

lemma frame_chat [simp]: "core (focus_page_chat_input s) = core s" "sent_of (focus_page_chat_input s) = sent_of s"
  "heard (focus_page_chat_input s) = heard s"
  "core (expand_page_chat b s) = core s" "sent_of (expand_page_chat b s) = sent_of s" "heard (expand_page_chat b s) = heard s"
  by (simp_all add: focus_page_chat_input_def expand_page_chat_def Let_def)

lemma frame_collapse [simp]: "core (collapse_page_chat s) = core s" "sent_of (collapse_page_chat s) = sent_of s"
  "heard (collapse_page_chat s) = heard s"
  unfolding collapse_page_chat_def by (auto simp: core_def sent_of_def heard_def sync_focus_ring_def sync_send_button_def Let_def)

lemma frame_visual [simp]: "core (sync_visual s) = core s" "sent_of (sync_visual s) = sent_of s" "heard (sync_visual s) = heard s"
  by (simp_all add: sync_visual_def)

lemma frame_arm [simp]: "core (arm_page_chat b s) = core s" "sent_of (arm_page_chat b s) = sent_of s" "heard (arm_page_chat b s) = heard s"
  by (simp_all add: arm_page_chat_def Let_def)

lemma frame_steer_focus [simp]: "core (focus_steer_chat s) = core s" "sent_of (focus_steer_chat s) = sent_of s"
  "heard (focus_steer_chat s) = heard s"
  "core (sync_page_chat_focus s) = core s" "sent_of (sync_page_chat_focus s) = sent_of s" "heard (sync_page_chat_focus s) = heard s"
  by (simp_all add: focus_steer_chat_def sync_page_chat_focus_def)

lemma frame_hint [simp]: "core (sync_queue_hint s) = core s" "sent_of (sync_queue_hint s) = sent_of s" "heard (sync_queue_hint s) = heard s"
  by (simp_all add: sync_queue_hint_def core_def sent_of_def heard_def)

lemma frame_stop [simp]: "core (stop_voice m s) = core s" "sent_of (stop_voice m s) = sent_of s" "heard (stop_voice m s) = (None, prompts_sent s)"
  by (simp_all add: stop_voice_def release_engine_def core_def sent_of_def heard_def steer_toast_def Let_def split: option.split)

lemma core_parts: "core s = core t \<Longrightarrow> chat_built s = chat_built t \<and> steer_locked s = steer_locked t \<and> steer_request s = steer_request t \<and>
  steer_pending s = steer_pending t \<and> await_timer s = await_timer t"
  by (simp add: core_def)

lemma frame_voice [simp]: "core (put_voice_text t s) = core s" "sent_of (put_voice_text t s) = sent_of s" "heard (put_voice_text t s) = heard s"
  by (simp_all add: put_voice_text_def split: option.split voice_mode.split)

section \<open>One message at a time\<close>

definition is_steer :: "steer_msg \<Rightarrow> bool" where
  "is_steer m = (case m of Steer i t \<Rightarrow> True | Steer_checkpoint i r x \<Rightarrow> False)"

definition steer_ok :: "steer \<Rightarrow> bool" where
  "steer_ok s \<longleftrightarrow>
     (case steer_request s of
        None \<Rightarrow> \<not> steer_locked s
      | Some i \<Rightarrow> steer_locked s \<and> await_timer s = Some i \<and> steer_pending s \<noteq> [] \<and> Steer i (steer_pending s) \<in> set (steer_sent s)) \<and>
     (\<forall>i t. (i, t) \<in> set (sending s) \<longrightarrow> t \<noteq> [] \<and> Steer i t \<in> set (steer_sent s))"

lemma ok_same: "core t = core s \<Longrightarrow> sent_of t = sent_of s \<Longrightarrow> steer_ok s \<Longrightarrow> steer_ok t"
  by (simp add: core_def sent_of_def heard_def steer_ok_def split: option.splits)

text \<open>What a step did: nothing to the message on its way, sent one, or let it go.\<close>

definition sends :: "steer \<Rightarrow> steer \<Rightarrow> bool" where
  "sends s t \<longleftrightarrow> chat_built s \<and> \<not> steer_locked s \<and>
     (\<exists>i text. text \<noteq> [] \<and> core t = (True, True, Some i, text, Some i) \<and>
        sent_of t = (steer_sent s @ [Steer i text], sending s @ [(i, text)]))"

definition lets_go :: "steer \<Rightarrow> steer \<Rightarrow> bool" where
  "lets_go s t \<longleftrightarrow> \<not> steer_locked t \<and> steer_request t = None \<and> set (sending t) \<subseteq> set (sending s) \<and>
     (\<exists>cs. steer_sent t = steer_sent s @ cs \<and> \<not> list_ex is_steer cs)"

definition quiet :: "steer \<Rightarrow> steer \<Rightarrow> bool" where
  "quiet s t \<longleftrightarrow> snd (core t) = snd (core s) \<and> set (sending t) \<subseteq> set (sending s) \<and>
     (\<exists>cs. steer_sent t = steer_sent s @ cs \<and> \<not> list_ex is_steer cs)"

lemma quiet_same: "core t = core s \<Longrightarrow> sent_of t = sent_of s \<Longrightarrow> quiet s t"
  by (simp add: quiet_def sent_of_def)

lemma moves_ok: assumes "steer_ok s" "sends s t \<or> lets_go s t \<or> quiet s t" shows "steer_ok t"
  using assms(2)
proof (elim disjE)
  assume q: "quiet s t"
  then have "steer_locked t = steer_locked s" "steer_request t = steer_request s" "steer_pending t = steer_pending s"
    "await_timer t = await_timer s" by (simp_all add: quiet_def core_def)
  moreover have "set (steer_sent s) \<subseteq> set (steer_sent t)" "set (sending t) \<subseteq> set (sending s)" using q by (auto simp: quiet_def)
  ultimately show ?thesis using assms(1) by (auto simp: steer_ok_def split: option.splits)
next
  assume l: "lets_go s t"
  then have "set (steer_sent s) \<subseteq> set (steer_sent t)" "set (sending t) \<subseteq> set (sending s)" by (auto simp: lets_go_def)
  with l assms(1) show ?thesis by (auto simp: steer_ok_def lets_go_def)
next
  assume "sends s t"
  then show ?thesis using assms(1) by (fastforce simp: sends_def steer_ok_def core_def sent_of_def heard_def)
qed

lemma lock_core: "chat_built s \<Longrightarrow> core (lock_steer_chat s) = (True, True, steer_request s, steer_pending s, await_timer s)"
  "sent_of (lock_steer_chat s) = sent_of s" "heard (lock_steer_chat s) = (if chat_built s then (None, prompts_sent s) else heard s)"
proof -
  have "core (t\<lparr>steer_locked := True, chat_focused := False\<rparr>) = (chat_built t, True, steer_request t, steer_pending t, await_timer t)"
    "sent_of (t\<lparr>steer_locked := True, chat_focused := False\<rparr>) = sent_of t"
    "heard (t\<lparr>steer_locked := True, chat_focused := False\<rparr>) = heard t" for t by (simp_all add: core_def sent_of_def heard_def)
  then show "chat_built s \<Longrightarrow> core (lock_steer_chat s) = (True, True, steer_request s, steer_pending s, await_timer s)"
    "sent_of (lock_steer_chat s) = sent_of s" "heard (lock_steer_chat s) = (if chat_built s then (None, prompts_sent s) else heard s)"
    using core_parts [OF frame_stop(1) [of None s]] by (simp_all add: lock_steer_chat_def)
qed

lemma submit_moves:
  "sends s (submit_steer_message i s) \<or> core (submit_steer_message i s) = core s \<and> sent_of (submit_steer_message i s) = sent_of s"
proof -
  let ?v = "stop_voice None s" and ?text = "trim (chat_text s)"
  have v: "chat_text ?v = chat_text s" by (simp add: stop_voice_def release_engine_def Let_def)
  note p = core_parts [OF frame_stop(1) [of None s]]
  show ?thesis
  proof (cases "\<not> chat_built s \<or> ?text = [] \<or> steer_locked s")
    case True
    then have "submit_steer_message i s = ?v" using v p by (auto simp: submit_steer_message_def Let_def)
    then show ?thesis by simp
  next
    case False
    let ?q = "lock_steer_chat (?v\<lparr>steer_request := Some i, steer_pending := ?text\<rparr>)"
    have q: "core ?q = (True, True, Some i, ?text, await_timer s)"
      using False p lock_core(1) [of "?v\<lparr>steer_request := Some i, steer_pending := ?text\<rparr>"] by simp
    have "sent_of (?v\<lparr>steer_request := Some i, steer_pending := ?text\<rparr>) = sent_of s"
      using frame_stop(2) [of None s] by (simp add: sent_of_def)
    then have "sent_of ?q = sent_of s" by (simp add: lock_core(2))
    then have "sends s (submit_steer_message i s)"
      using False p v q by (auto simp: submit_steer_message_def Let_def sends_def core_def sent_of_def heard_def)
    then show ?thesis ..
  qed
qed

lemma reset_core: "core (reset_chat keep g s) = (chat_built s, False, None, (if keep then g else []), None)"
  "sent_of (reset_chat keep g s) = sent_of s" "heard (reset_chat keep g s) = heard s"
  unfolding reset_chat_def frame_send by (simp_all add: core_def sent_of_def heard_def)

lemma say_core [simp]: "core (say_unlocked p m s) = core s" "sent_of (say_unlocked p m s) = sent_of s" "heard (say_unlocked p m s) = heard s"
  by (simp_all add: say_unlocked_def steer_toast_def)

lemma report_core [simp]: "core (report_unlocked i p m s) = core s" "sending (report_unlocked i p m s) = sending s"
  "heard (report_unlocked i p m s) = heard s" "\<exists>cs. steer_sent (report_unlocked i p m s) = steer_sent s @ cs \<and> \<not> list_ex is_steer cs"
  by (auto simp: report_unlocked_def send_steer_checkpoint_def core_def is_steer_def split: option.split)

lemma unlock_core: "core (unlock_steer_chat p g m s) =
    (chat_built s, False, None, (if \<not> chat_built s then steer_pending s else if truthy_str p \<and> g \<noteq> [] then g else []), None)"
  by (simp add: unlock_steer_chat_def reset_core Let_def) (simp add: core_def)

lemma unlock_engine [simp]: "heard (unlock_steer_chat p g m s) = heard s"
  by (simp add: unlock_steer_chat_def reset_core Let_def)

lemma unlock_sent: "sending (unlock_steer_chat p g m s) = sending s"
  "\<exists>cs. steer_sent (unlock_steer_chat p g m s) = steer_sent s @ cs \<and> \<not> list_ex is_steer cs"
proof -
  let ?keep = "truthy_str p \<and> g \<noteq> []"
  let ?s1 = "report_unlocked (steer_request s) p m (say_unlocked p m (reset_chat ?keep g s))"
  have base: "sending (say_unlocked p m (reset_chat ?keep g s)) = sending s" "steer_sent (say_unlocked p m (reset_chat ?keep g s)) = steer_sent s"
    using say_core(2) reset_core(2) unfolding sent_of_def by (metis prod.inject)+
  have out: "sent_of (unlock_steer_chat p g m s) = (if chat_built s then sent_of ?s1 else sent_of s)"
    by (simp add: unlock_steer_chat_def Let_def) (simp add: sent_of_def)
  then show "sending (unlock_steer_chat p g m s) = sending s" using base by (simp add: sent_of_def split: if_splits)
  show "\<exists>cs. steer_sent (unlock_steer_chat p g m s) = steer_sent s @ cs \<and> \<not> list_ex is_steer cs"
    using out base report_core(4) [of "steer_request s" p m "say_unlocked p m (reset_chat ?keep g s)"]
    by (auto simp: sent_of_def split: if_splits)
qed

lemma unlock_moves: "lets_go s (unlock_steer_chat p g m s)"
  using unlock_core [of p g m s] unlock_sent [of p g m s] by (simp add: lets_go_def core_def)

definition moves :: "steer \<Rightarrow> steer \<Rightarrow> bool" where
  "moves s t \<longleftrightarrow> sends s t \<or> lets_go s t \<or> quiet s t"

lemma moves_same: "core t = core s \<Longrightarrow> sent_of t = sent_of s \<Longrightarrow> moves s t"
  by (simp add: moves_def quiet_same)

lemma moves_submit: "core t = core s \<Longrightarrow> sent_of t = sent_of s \<Longrightarrow> moves s (submit_steer_message i t)"
  using submit_moves [of t i] by (auto simp: moves_def quiet_def sends_def core_def sent_of_def heard_def)

lemma voice_core: "core (toggle_voice env m s) = core s" "sent_of (toggle_voice env m s) = sent_of s"
  "core (start_voice env m s) = core s" "sent_of (start_voice env m s) = sent_of s"
  by (simp_all add: toggle_voice_def start_voice_def steer_toast_def release_engine_def Let_def split: option.split)

lemma finish_moves: "moves s (finish_voice_session i s)"
proof -
  let ?s1 = "s\<lparr>engine := None, listening := False, voice_suppress := False, voice := None\<rparr>"
  have same: "core ?s1 = core s" "sent_of ?s1 = sent_of s" "core (?s1\<lparr>prompts_sent := n\<rparr>) = core s"
    "sent_of (?s1\<lparr>prompts_sent := n\<rparr>) = sent_of s" for n by (simp_all add: core_def sent_of_def heard_def)
  have "finish_voice_session i s \<in> {?s1, submit_steer_message i ?s1, ?s1\<lparr>prompts_sent := prompts_sent ?s1 + 1\<rparr>}"
    by (simp add: finish_voice_session_def Let_def split: option.split voice_mode.split)
  then show ?thesis using moves_submit [OF same(1,2)] moves_same [OF same(1,2)] moves_same [OF same(3,4)] by auto
qed

lemma point_quiet: "quiet s t \<Longrightarrow> quiet s (send_steer_checkpoint i r x t)"
  by (auto simp: quiet_def send_steer_checkpoint_def core_def is_steer_def)

lemma sending_over_moves: "lets_go s (steer_sending_over k ok s) \<or> quiet s (steer_sending_over k ok s)"
proof (cases "k < length (sending s)")
  case True
  obtain i t where it: "sending s ! k = (i, t)" by fastforce
  let ?s = "s\<lparr>sending := take k (sending s) @ drop (k + 1) (sending s)\<rparr>"
  have sub: "set (sending ?s) \<subseteq> set (sending s)" by (auto dest: in_set_takeD in_set_dropD)
  show ?thesis
  proof (cases ok)
    case True
    then have "steer_sending_over k ok s = send_steer_checkpoint i ''steer_submitted'' t
        (if steer_was_focused ?s then send_steer_checkpoint i ''steer_input_focused'' [] ?s else ?s)"
      using \<open>k < length (sending s)\<close> it by (simp add: steer_sending_over_def Let_def)
    moreover have "quiet s ?s" using sub by (simp add: quiet_def core_def)
    ultimately show ?thesis using point_quiet by simp
  next
    case False
    then have "steer_sending_over k ok s = unlock_steer_chat (Some ''Could not reach live server'') t None ?s"
      using \<open>k < length (sending s)\<close> it by (simp add: steer_sending_over_def)
    then show ?thesis using unlock_moves [of ?s "Some ''Could not reach live server''" t None] sub by (auto simp: lets_go_def)
  qed
qed (simp add: steer_sending_over_def quiet_same)

lemma complete_moves: "lets_go s (snd (maybe_complete_steer i a s)) \<or> quiet s (snd (maybe_complete_steer i a s))"
proof -
  have "lets_go s (t\<lparr>reload_notices := n\<rparr>)" if "lets_go s t" for t n using that by (simp add: lets_go_def)
  then show ?thesis using unlock_moves by (auto simp: maybe_complete_steer_def quiet_same Let_def split: sum.split)
qed

lemma await_moves: "moves s (await_fires s) \<or> await_fires s = s\<lparr>await_timer := None\<rparr> \<and> \<not> (steer_locked s \<and> steer_request s = await_timer s)"
  using unlock_moves by (auto simp: await_fires_def moves_def quiet_same split: option.split)

lemma typing_core: "core (type_chat t s) = core s" "sent_of (type_chat t s) = sent_of s"
  "core (escape_chat s) = core s" "sent_of (escape_chat s) = sent_of s"
  "core (blur_chat s) = core s" "sent_of (blur_chat s) = sent_of s"
  "core (blur_timer_fires s) = core s" "sent_of (blur_timer_fires s) = sent_of s"
  "core (reload_notice_fires s) = core s" "sent_of (reload_notice_fires s) = sent_of s"
  by (simp_all add: type_chat_def escape_chat_def blur_chat_def blur_timer_fires_def reload_notice_fires_def steer_toast_def Let_def)

lemma calls_core: "core (voice_started n s) = core s" "sent_of (voice_started n s) = sent_of s"
  "core (voice_result n ps s) = core s" "sent_of (voice_result n ps s) = sent_of s"
  "core (voice_error n b c s) = core s" "sent_of (voice_error n b c s) = sent_of s"
  "core (rebuild_bar f s) = core s" "sent_of (rebuild_bar f s) = sent_of s"
  by (simp_all add: voice_started_def voice_result_def voice_error_def rebuild_bar_def)

lemma step_moves: assumes "ev \<noteq> Await_timer" shows "moves s (steer_step ev s)"
proof (cases ev)
  case (Sending_over k ok)
  then show ?thesis using sending_over_moves by (auto simp: moves_def)
next
  case (Steer_answer i a)
  then show ?thesis using complete_moves by (auto simp: moves_def)
next
  case Teardown_chat
  then show ?thesis using frame_stop(1,2) [of None s] by (auto simp: teardown_chat_def moves_def quiet_def core_def sent_of_def heard_def)
qed (use assms moves_same [OF refl refl] in
  \<open>auto simp: moves_same typing_core calls_core voice_core moves_submit enter_chat_def click_send_def
    voice_ended_def finish_moves set_steer_live_state_def sync_agent_polling_def\<close>)

lemma steer_step_ok: assumes "steer_ok s" shows "steer_ok (steer_step ev s)"
proof (cases "ev = Await_timer")
  case True
  have "\<not> (steer_locked s \<and> steer_request s = await_timer s) \<Longrightarrow> steer_ok (s\<lparr>await_timer := None\<rparr>)"
    using assms by (auto simp: steer_ok_def split: option.splits)
  then show ?thesis using await_moves [of s] moves_ok [OF assms] by (auto simp: True moves_def)
next
  case False
  then show ?thesis using step_moves [OF False, of s] moves_ok [OF assms] by (simp add: moves_def)
qed

lemma steer_run_ok: "steer_ok s \<Longrightarrow> steer_ok (steer_run es s)"
  by (induction es arbitrary: s) (simp_all add: steer_run_def steer_step_ok)


section \<open>What a released engine can do\<close>

lemma point_heard [simp]: "heard (send_steer_checkpoint i r x s) = heard s" "heard (steer_toast m s) = heard s"
  by (simp_all add: send_steer_checkpoint_def steer_toast_def)

definition asks :: "steer_event \<Rightarrow> bool" where
  "asks ev = (case ev of Toggle_voice env m \<Rightarrow> True | Enter_chat i \<Rightarrow> True | Click_send i \<Rightarrow> True | _ \<Rightarrow> False)"

lemma other_heard: assumes "heard s = (None, n)"
  shows "heard (type_chat t s) = (None, n)" "heard (escape_chat s) = (None, n)" "heard (blur_chat s) = (None, n)"
    "heard (blur_timer_fires s) = (None, n)" "heard (reload_notice_fires s) = (None, n)" "heard (await_fires s) = (None, n)"
    "heard (steer_sending_over k ok s) = (None, n)" "heard (snd (maybe_complete_steer i a s)) = (None, n)"
    "heard (rebuild_bar f s) = (None, n)" "heard (teardown_chat s) = (None, n)" "heard (stop_voice m s) = (None, n)"
    "voice_started j s = s" "voice_result j ps s = s" "voice_error j b c s = s" "voice_ended j i s = s"
proof -
  have parts: "engine s = None" "prompts_sent s = n" using assms by (simp_all add: heard_def)
  then show "voice_started j s = s" "voice_result j ps s = s" "voice_error j b c s = s" "voice_ended j i s = s"
    by (simp_all add: voice_started_def voice_result_def voice_error_def voice_ended_def)
  show "heard (stop_voice m s) = (None, n)" "heard (teardown_chat s) = (None, n)"
    by (simp_all add: parts(2) teardown_chat_def)
  show "heard (type_chat t s) = (None, n)" "heard (escape_chat s) = (None, n)" "heard (blur_chat s) = (None, n)"
    "heard (blur_timer_fires s) = (None, n)" "heard (reload_notice_fires s) = (None, n)" "heard (await_fires s) = (None, n)"
    "heard (steer_sending_over k ok s) = (None, n)" "heard (snd (maybe_complete_steer i a s)) = (None, n)"
    "heard (rebuild_bar f s) = (None, n)"
    by (simp_all add: assms type_chat_def escape_chat_def blur_chat_def blur_timer_fires_def reload_notice_fires_def await_fires_def
      steer_sending_over_def maybe_complete_steer_def rebuild_bar_def Let_def case_prod_beta split: option.split sum.split)
qed

lemma silent_step: assumes "heard s = (None, n)" "\<not> asks ev" shows "heard (steer_step ev s) = (None, n)"
proof -
  have "prompts_sent s = n" using assms(1) by (simp add: heard_def)
  then show ?thesis
    using assms(2) by (cases ev) (simp_all add: asks_def other_heard [OF assms(1)] assms(1) set_steer_live_state_def sync_agent_polling_def)
qed

lemma silent_sent: assumes "heard s = (None, n)" "\<not> asks ev"
  shows "filter is_steer (steer_sent (steer_step ev s)) = filter is_steer (steer_sent s)"
proof -
  have kept: "filter is_steer (steer_sent t) = filter is_steer (steer_sent s)" if "lets_go s t \<or> quiet s t" for t
    using that by (auto simp: lets_go_def quiet_def filter_empty_conv list_ex_iff)
  have same: "filter is_steer (steer_sent t) = filter is_steer (steer_sent s)" if "sent_of t = sent_of s" for t
    using that by (simp add: sent_of_def)
  show ?thesis
  proof (cases ev)
    case (Sending_over k ok)
    then show ?thesis using kept [OF sending_over_moves [of s k ok]] by simp
  next
    case (Steer_answer i a)
    then show ?thesis using kept [OF complete_moves [of s i a]] by simp
  next
    case Await_timer
    have "await_fires s = s\<lparr>await_timer := None\<rparr> \<or> lets_go s (await_fires s) \<or> quiet s (await_fires s)"
      using unlock_moves by (auto simp: await_fires_def quiet_same split: option.split)
    then show ?thesis using kept by (auto simp: Await_timer)
  qed (rule same, use assms(2) frame_stop(2) [of None s] in \<open>simp add: asks_def typing_core calls_core other_heard(12-15) [OF assms(1)]
      set_steer_live_state_def sync_agent_polling_def teardown_chat_def\<close>)+
qed


section \<open>Properties\<close>

lemma given_back:
  assumes "chat_built s" "truthy_str p" "g \<noteq> []"
  shows "chat_text (unlock_steer_chat p g m s) = g \<and> chat_expanded (unlock_steer_chat p g m s) \<and>
    chat_focused (unlock_steer_chat p g m s) \<and> \<not> steer_locked (unlock_steer_chat p g m s)"
  using assms
  by (auto simp: unlock_steer_chat_def report_unlocked_def say_unlocked_def reset_chat_def send_steer_checkpoint_def steer_toast_def
      focus_page_chat_input_def prepare_for_typing_def take_focus_def sync_focus_ring_def sync_send_button_def Let_def split: option.split)

text \<open>
  C13: A steer that fails gives its message back. Whatever happened before, a locked chat waits for
  exactly one message it sent, and the timer of that message runs, so that it does not stay locked; when
  the timer fires or the agent answers with an error, the chat is unlocked, open and focused, with the
  message in it.
\<close>

theorem failed_steer_gives_back:
  assumes "steer_request s0 = None" "\<not> steer_locked s0" "sending s0 = []"
    and "steer_locked (steer_run es s0)" "chat_built (steer_run es s0)"
  shows "\<exists>i t. t \<noteq> [] \<and> Steer i t \<in> set (steer_sent (steer_run es s0)) \<and> steer_request (steer_run es s0) = Some i \<and>
    await_timer (steer_run es s0) = Some i \<and>
    (\<forall>ev. ev = Await_timer \<or> i \<noteq> [] \<and> (\<exists>m. ev = Steer_answer i (Inl m)) \<longrightarrow>
       (let s = steer_step ev (steer_run es s0)
        in \<not> steer_locked s \<and> chat_text s = t \<and> chat_expanded s \<and> chat_focused s))"
proof -
  let ?s = "steer_run es s0"
  have "steer_ok s0" using assms(1-3) by (simp add: steer_ok_def)
  from steer_run_ok [OF this] have "steer_ok ?s" .
  then obtain i where i: "steer_request ?s = Some i" "await_timer ?s = Some i" "steer_pending ?s \<noteq> []"
    "Steer i (steer_pending ?s) \<in> set (steer_sent ?s)" using assms(4) by (auto simp: steer_ok_def split: option.splits)
  have message: "truthy_str (Some (steer_timeout_message ?s))" "truthy_str (Some (str_or x ''Steer failed''))" for x
    by (simp_all add: truthy_str_def opt_str_def steer_timeout_message_def str_or_def)
  show ?thesis
  proof (rule exI [of _ i], rule exI [of _ "steer_pending ?s"], intro conjI allI impI i)
    fix ev assume ev: "ev = Await_timer \<or> i \<noteq> [] \<and> (\<exists>m. ev = Steer_answer i (Inl m))"
    then consider "steer_step ev ?s = unlock_steer_chat (Some (steer_timeout_message ?s)) (steer_pending ?s) None ?s"
      | m where "steer_step ev ?s = unlock_steer_chat (Some (str_or (opt_str m) ''Steer failed'')) (steer_pending ?s) None ?s"
      using i(1,2) assms(4) by (auto simp: await_fires_def maybe_complete_steer_def)
    then show "let s = steer_step ev ?s in \<not> steer_locked s \<and> chat_text s = steer_pending ?s \<and> chat_expanded s \<and> chat_focused s"
      using given_back [OF assms(5) message(1) i(3), of None] given_back [OF assms(5) message(2) i(3)] by cases (simp_all add: Let_def)
  qed
qed

text \<open>
  C28: No second message while one is on its way: as long as the chat is locked, no key, button, voice,
  timer, answer or message of the server sends a steer.
\<close>

theorem one_steer_in_flight:
  assumes "steer_locked s"
  shows "filter is_steer (steer_sent (steer_step ev s)) = filter is_steer (steer_sent s)"
proof -
  have kept: "filter is_steer (steer_sent t) = filter is_steer (steer_sent s)" if "moves s t" for t
    using that assms by (auto simp: moves_def sends_def lets_go_def quiet_def filter_empty_conv list_ex_iff)
  show ?thesis
  proof (cases "ev = Await_timer")
    case True
    then show ?thesis using await_moves [of s] kept by auto
  next
    case False
    then show ?thesis using step_moves kept by blast
  qed
qed

text \<open>
  A stopped voice is silent. After the user stops the voice, no matter what its engine still
  reports, until one is started again or a message is entered by hand nothing is sent, neither a steer nor
  the prompt of the picked element.
\<close>

theorem stopped_voice_is_silent:
  assumes "listening s" "map_option vo_mode (voice s) = Some m" "\<forall>ev \<in> set es. \<not> asks ev"
  shows "filter is_steer (steer_sent (steer_run es (toggle_voice env m s))) = filter is_steer (steer_sent s) \<and>
    prompts_sent (steer_run es (toggle_voice env m s)) = prompts_sent s"
proof -
  have run: "filter is_steer (steer_sent (steer_run es t)) = filter is_steer (steer_sent t) \<and> heard (steer_run es t) = (None, n)"
    if "heard t = (None, n)" "\<forall>ev \<in> set es. \<not> asks ev" for t n es
    using that
  proof (induction es arbitrary: t)
    case (Cons ev es)
    then show ?case using silent_step [of t n ev] silent_sent [of t n ev] by (simp add: steer_run_def)
  qed (simp add: steer_run_def)
  have "toggle_voice env m s = stop_voice None s" using assms(1,2) by (simp add: toggle_voice_def)
  then have "heard (toggle_voice env m s) = (None, prompts_sent s)" "steer_sent (toggle_voice env m s) = steer_sent s"
    using frame_stop(2) [of None s] by (simp_all add: sent_of_def)
  with run [OF this(1) assms(3)] show ?thesis by (simp add: heard_def)
qed


section \<open>Examples\<close>

definition fresh_steer :: steer where
  "fresh_steer = \<lparr>chat_built = True, chat_text = [], chat_focused = False, chat_expanded = False, steer_locked = False,
     steer_request = None, steer_pending = [], steer_was_focused = False, await_timer = None, send_shown = False,
     send_enabled = False, queue_hint = False, blur_timers = 0, agent_polling = True, live = Live_picking, clock = 0,
     focus_suspended = False, focus_pause = 0, page_editing = False, prompt_field = None, prompts_sent = 0, engine = None,
     next_engine = 0, listening = False, voice_suppress = False, voice_base = [], voice = None, sending = [], steer_sent = [],
     steer_toasts = [], reload_notices = 0\<rparr>"

definition working_voice :: voice_env where
  "working_voice = \<lparr>has_engine = True, secure_context = True, embedded_preview = False, start_error = None\<rparr>"

definition typed_steer :: "steer_event list" where
  "typed_steer = [Click_chat, Type_chat ''bigger'', Enter_chat ''s1'']"

lemma failed_steer_gives_back_witness:
  "steer_locked (steer_run typed_steer fresh_steer) \<and>
   \<not> steer_locked (steer_step Await_timer (steer_run typed_steer fresh_steer)) \<and>
   chat_text (steer_step Await_timer (steer_run typed_steer fresh_steer)) = ''bigger''"
proof -
  let ?s = "steer_run typed_steer fresh_steer"
  have locked: "steer_locked ?s" and more: "chat_built ?s" "steer_sent ?s = [Steer ''s1'' ''bigger'']" by code_simp+
  have "steer_request fresh_steer = None" "\<not> steer_locked fresh_steer" "sending fresh_steer = []" by (simp_all add: fresh_steer_def)
  from failed_steer_gives_back [OF this locked more(1)] locked show ?thesis by (auto simp: more(2) Let_def)
qed

lemma one_steer_in_flight_witness:
  "filter is_steer (steer_sent (steer_step (Click_send ''s2'') (steer_run typed_steer fresh_steer))) = [Steer ''s1'' ''bigger'']"
proof -
  have "steer_locked (steer_run typed_steer fresh_steer)" by code_simp
  moreover have "filter is_steer (steer_sent (steer_run typed_steer fresh_steer)) = [Steer ''s1'' ''bigger'']" by code_simp
  ultimately show ?thesis using one_steer_in_flight [of "steer_run typed_steer fresh_steer" "Click_send ''s2''"] by simp
qed

lemma stopped_voice_is_silent_witness:
  "let s = steer_run [Toggle_voice working_voice Voice_steer, Voice_started 0, Voice_result 0 [''red'']] fresh_steer
   in chat_text s = ''red'' \<and> steer_sent (steer_run [Voice_ended 0 ''s1''] s) \<noteq> [] \<and>
      filter is_steer (steer_sent (steer_run [Voice_ended 0 ''s1''] (toggle_voice working_voice Voice_steer s))) = []"
proof -
  let ?s = "steer_run [Toggle_voice working_voice Voice_steer, Voice_started 0, Voice_result 0 [''red'']] fresh_steer"
  have "listening ?s" "map_option vo_mode (voice ?s) = Some Voice_steer" "chat_text ?s = ''red''" by code_simp+
  moreover have "steer_sent (steer_run [Voice_ended 0 ''s1''] ?s) \<noteq> []" "filter is_steer (steer_sent ?s) = []" by code_simp+
  moreover have "\<forall>ev \<in> set [Voice_ended 0 ''s1'']. \<not> asks ev" by (simp add: asks_def)
  ultimately show ?thesis
    using stopped_voice_is_silent [of ?s Voice_steer "[Voice_ended 0 ''s1'']" working_voice] by (simp only: Let_def) simp
qed

text \<open>
  A request that fails late is not compared with the one in flight: after a time-out and a second
  message, the failure of the first unlocks the chat and puts the first message into it, while the second
  is on its way.
\<close>

lemma late_failure_unlocks_other:
  "let s = steer_run (typed_steer @ [Await_timer, Type_chat ''smaller'', Enter_chat ''s2'', Sending_over 0 False]) fresh_steer
   in \<not> steer_locked s \<and> chat_text s = ''bigger'' \<and> map fst (sending s) = [''s2'']"
  by code_simp

end
