(* ===== verification/Runs.thy ===== *)
theory Runs imports Main begin

text \<open>
  Runs of a component that reacts to events one by one: a step function folded over the events. The
  locale \<open>stepping\<close> is what an invariant needs, with a condition on the events where some are excluded.
\<close>

definition run_of :: "('e \<Rightarrow> 's \<Rightarrow> 's) \<Rightarrow> 'e list \<Rightarrow> 's \<Rightarrow> 's" where
  "run_of step es s = foldl (\<lambda>t e. step e t) s es"

lemma run_of_Nil [simp]: "run_of step [] s = s"
  by (simp add: run_of_def)

lemma run_of_Cons [simp]: "run_of step (e # es) s = run_of step es (step e s)"
  by (simp add: run_of_def)

lemma run_of_append: "run_of step (es @ fs) s = run_of step fs (run_of step es s)"
  by (simp add: run_of_def)

text \<open>Every event of a run satisfies the condition in the state it meets.\<close>

fun fair_run :: "('e \<Rightarrow> 's \<Rightarrow> 's) \<Rightarrow> ('e \<Rightarrow> 's \<Rightarrow> bool) \<Rightarrow> 'e list \<Rightarrow> 's \<Rightarrow> bool" where
  "fair_run step fair [] s = True"
| "fair_run step fair (e # es) s = (fair e s \<and> fair_run step fair es (step e s))"

lemma fair_append: "fair_run step fair (es @ fs) s \<longleftrightarrow> fair_run step fair es s \<and> fair_run step fair fs (run_of step es s)"
  by (induction es arbitrary: s) simp_all

locale stepping =
  fixes step :: "'e \<Rightarrow> 's \<Rightarrow> 's" and fair :: "'e \<Rightarrow> 's \<Rightarrow> bool" and inv :: "'s \<Rightarrow> bool"
  assumes step_keeps: "inv s \<Longrightarrow> fair e s \<Longrightarrow> inv (step e s)"
begin

lemma run_keeps: "inv s \<Longrightarrow> fair_run step fair es s \<Longrightarrow> inv (run_of step es s)"
  by (induction es arbitrary: s) (simp_all add: step_keeps)

lemma prefix_keeps: "inv s \<Longrightarrow> fair_run step fair (es @ fs) s \<Longrightarrow> inv (run_of step es s)"
  by (induction es arbitrary: s) (simp_all add: step_keeps)

end

text \<open>Where every event is allowed.\<close>

locale closed_stepping = stepping step "\<lambda>e s. True" inv
  for step :: "'e \<Rightarrow> 's \<Rightarrow> 's" and inv :: "'s \<Rightarrow> bool"
begin

lemma always_fair: "fair_run step (\<lambda>e s. True) es s"
  by (induction es arbitrary: s) simp_all

lemma always_keeps: "inv s \<Longrightarrow> inv (run_of step es s)"
  using run_keeps always_fair by blast

end

end
