(* ===== verification/LivePick.thy ===== *)
theory LivePick imports LiveEdit LiveInsert Json Storage Runs begin

text \<open>
  Choosing an element (\<open>agent/skills/impeccable/scripts/live-browser.js\<close>): the two modes of the global bar
  (pick, insert) and how they are kept across reloads, hovering, clicking, the keys, the palette of
  actions, and leaving the configuration of an element or of an insertion. The page and the copy editor
  are those of \<open>LiveEdit\<close>, the insert line and the cursor those of \<open>LiveInsert\<close>. Whether an element can be
  picked, and the boxes and styles of the layout, are inputs (\<open>layout\<close>). What a session does on its own
  (\<open>LiveEvents\<close>) is an event that sets the state. The placeholder of an insertion is kept beside the page.
\<close>

section \<open>State\<close>

datatype spot = On path | Holder

type_synonym place = "path \<times> position \<times> axis"

datatype call = Call_discard | Call_accept | Call_cycle int

record picker =
  ed :: editor
  ui :: "path insert_ui"
  line_made :: bool
  insert_kind :: bool
  hovered :: "path option"
  on_holder :: bool
  holder :: "place option"
  highlight :: "path option"
  palette_open :: bool
  palette_timers :: nat
  tune_shown :: bool
  bar_open :: bool
  bar_seq :: nat
  bar_timers :: "nat list"
  chosen_action :: string
  chosen_count :: nat
  gesture :: "(real \<times> real \<times> bool) option"
  skip_click :: bool
  prefs :: "storage option"
  calls :: "call list"

record layout =
  can_pick :: "path \<Rightarrow> bool"
  box_of :: "path \<Rightarrow> rect"
  style_of :: "path \<Rightarrow> layout_style"

text \<open>The live state is kept once, as the editor's mode; \<open>ui\<close> holds a copy that is refreshed before use.\<close>

definition with_ui :: "(path insert_ui \<Rightarrow> path insert_ui) \<Rightarrow> picker \<Rightarrow> picker" where
  "with_ui f pk = (let u = f ((ui pk)\<lparr>live_state := mode (ed pk)\<rparr>) in pk\<lparr>ui := u, ed := (ed pk)\<lparr>mode := live_state u\<rparr>\<rparr>)"

definition with_ed :: "(editor \<Rightarrow> editor) \<Rightarrow> picker \<Rightarrow> picker" where
  "with_ed f pk = pk\<lparr>ed := f (ed pk)\<rparr>"

abbreviation "live_mode pk \<equiv> mode (ed pk)"
abbreviation "busy pk \<equiv> in_flight (dock_of (ed pk))"
abbreviation "pick_on pk \<equiv> pick_active (ui pk)"
abbreviation "insert_on pk \<equiv> insert_active (ui pk)"

definition selected :: "picker \<Rightarrow> spot option" where
  "selected pk = (if on_holder pk then Some Holder else map_option On (picked (ed pk)))"

definition select :: "spot option \<Rightarrow> picker \<Rightarrow> picker" where
  "select s pk =
     (case s of
        None \<Rightarrow> with_ed (\<lambda>e. e\<lparr>picked := None\<rparr>) (pk\<lparr>on_holder := False\<rparr>)
      | Some Holder \<Rightarrow> with_ed (\<lambda>e. e\<lparr>picked := None\<rparr>) (pk\<lparr>on_holder := True\<rparr>)
      | Some (On p) \<Rightarrow> with_ed (\<lambda>e. e\<lparr>picked := Some p\<rparr>) (pk\<lparr>on_holder := False\<rparr>))"

definition busy_toast :: "picker \<Rightarrow> picker" where
  "busy_toast pk = with_ed (tell BUSY_TOAST) pk"

section \<open>The remembered modes\<close>

definition INTERACTION_PREFS_KEY :: string where "INTERACTION_PREFS_KEY = ''impeccable-live-interaction''"
definition PICK_PREFS_KEY :: string where "PICK_PREFS_KEY = ''impeccable-live-pick''"

definition flag :: "string \<Rightarrow> json \<Rightarrow> bool" where
  "flag k v = (case json_get k v of None \<Rightarrow> False | Some x \<Rightarrow> json_truthy x)"

text \<open>\<open>null\<close> has no members: reading one throws, and the answer is that of the \<open>catch\<close>.\<close>

definition load_interaction_prefs :: "storage option \<Rightarrow> bool \<times> bool" where
  "load_interaction_prefs store =
     (case store of
        None \<Rightarrow> (False, False)
      | Some st \<Rightarrow>
          let raw = get_item st INTERACTION_PREFS_KEY; legacy = get_item st PICK_PREFS_KEY in
          if truthy_str raw then
            (case json_parse (opt_str raw) of None \<Rightarrow> (False, False) | Some v \<Rightarrow> (flag ''pickActive'' v, flag ''insertActive'' v))
          else if truthy_str legacy then
            (case json_parse (opt_str legacy) of None \<Rightarrow> (False, False) | Some v \<Rightarrow> (flag ''pickActive'' v, False))
          else (False, False))"

definition prefs_json :: "bool \<Rightarrow> bool \<Rightarrow> json" where
  "prefs_json p i = JObj [(''pickActive'', JBool p), (''insertActive'', JBool i)]"

definition save_interaction_prefs :: "picker \<Rightarrow> picker" where
  "save_interaction_prefs pk =
     (case prefs pk of
        None \<Rightarrow> pk
      | Some st \<Rightarrow>
          case set_item st INTERACTION_PREFS_KEY (print_json (prefs_json (pick_on pk) (insert_on pk))) of
            Inl _ \<Rightarrow> pk
          | Inr st' \<Rightarrow> pk\<lparr>prefs := Some st'\<rparr>)"

section \<open>Showing and hiding\<close>

definition pk_state :: "live_state \<Rightarrow> picker \<Rightarrow> picker" where
  "pk_state l pk = with_ui (set_live_state l) pk"

definition pk_hide_line :: "picker \<Rightarrow> picker" where
  "pk_hide_line pk = with_ui (hide_insert_line (line_made pk)) pk"

definition finalize_insert_session :: "picker \<Rightarrow> picker" where
  "finalize_insert_session pk = pk\<lparr>holder := None, insert_kind := False\<rparr>"

definition clear_insert_picking :: "picker \<Rightarrow> picker" where
  "clear_insert_picking pk = finalize_insert_session (pk_hide_line pk)"

definition show_highlight :: "spot \<Rightarrow> picker \<Rightarrow> picker" where
  "show_highlight s pk = (case s of On p \<Rightarrow> pk\<lparr>highlight := Some p\<rparr> | Holder \<Rightarrow> pk)"

definition hide_highlight :: "picker \<Rightarrow> picker" where
  "hide_highlight pk = pk\<lparr>highlight := None\<rparr>"

definition hide_palette :: "picker \<Rightarrow> picker" where
  "hide_palette pk = pk\<lparr>palette_timers := palette_timers pk + 1\<rparr>"

definition palette_timer :: "picker \<Rightarrow> picker" where
  "palette_timer pk =
     (if palette_timers pk = 0 then pk else pk\<lparr>palette_timers := palette_timers pk - 1, palette_open := False\<rparr>)"

definition close_tune :: "picker \<Rightarrow> picker" where
  "close_tune pk = pk\<lparr>tune_shown := False\<rparr>"

definition show_pick_bar :: "picker \<Rightarrow> picker" where
  "show_pick_bar pk = with_ed (draw [Draw_bar]) (pk\<lparr>bar_seq := bar_seq pk + 1, bar_open := True\<rparr>)"

text \<open>What \<open>hideBar\<close> does outside the editor; the timer compares its number with that of the last call.\<close>

definition bar_goes :: "picker \<Rightarrow> picker" where
  "bar_goes pk =
     (let p1 = pk\<lparr>bar_seq := bar_seq pk + 1, bar_timers := bar_timers pk @ [bar_seq pk + 1]\<rparr>
      in close_tune (hide_palette (if insert_kind p1 then clear_insert_picking p1 else p1)))"

definition bar_timer :: "nat \<Rightarrow> picker \<Rightarrow> picker" where
  "bar_timer k pk =
     (if \<not> k < length (bar_timers pk) then pk
      else
        let p1 = pk\<lparr>bar_timers := take k (bar_timers pk) @ drop (k + 1) (bar_timers pk)\<rparr>
        in if bar_timers pk ! k = bar_seq pk then p1\<lparr>bar_open := False\<rparr> else p1)"

definition hide_pick_bar :: "picker \<Rightarrow> picker" where
  "hide_pick_bar pk = with_ed hide_edit_bar (bar_goes pk)"

definition teardown_chrome :: "picker \<Rightarrow> picker" where
  "teardown_chrome pk = with_ed teardown_configure_chrome (bar_goes pk)"

definition exit_to_picking :: "string \<Rightarrow> bool \<Rightarrow> picker \<Rightarrow> picker" where
  "exit_to_picking reason clear_hover pk =
     (let p1 = pk_state Live_picking (with_ed (exit_configure_to_picking reason clear_hover) (bar_goes pk))
      in if clear_hover then hide_highlight (p1\<lparr>hovered := None\<rparr>) else p1)"

definition cancel_insert_configure :: "picker \<Rightarrow> picker" where
  "cancel_insert_configure pk =
     (let p1 = with_ed (draw [Draw_stop_scroll, Draw_no_annotations, Draw_clear_annotations]) (hide_pick_bar pk);
          p2 = select None (clear_insert_picking p1)
      in with_ed (draw [Draw_focus ''insert-configure-cancel''])
           (hide_highlight (pk_state (if insert_on p2 then Live_picking else Live_idle) p2)))"

definition leave_editing :: "picker \<Rightarrow> picker" where
  "leave_editing pk = show_pick_bar (pk_state Live_configuring (with_ed cancel_editing pk))"

definition leave_editing_to_picking :: "picker \<Rightarrow> picker" where
  "leave_editing_to_picking pk =
     hide_highlight ((pk_state Live_picking (with_ed cancel_editing_to_picking (bar_goes pk)))\<lparr>hovered := None\<rparr>)"

definition open_editing :: "(path \<Rightarrow> string) \<Rightarrow> picker \<Rightarrow> picker" where
  "open_editing white pk =
     (if busy pk then busy_toast pk
      else pk_state Live_editing (with_ed (enter_editing_mode white) (bar_goes pk)))"

definition configure_element :: "path \<Rightarrow> picker \<Rightarrow> picker" where
  "configure_element p pk =
     (let p1 = show_highlight (On p) (with_ui begin_new_live_configuration (select (Some (On p)) pk));
          p2 = show_pick_bar (with_ed (draw [Draw_clear_annotations, Draw_annotations]) p1)
      in with_ed (draw [Draw_badge (if has_text_rows p (doc (ed p2)) then ''idle'' else ''hidden'')]) p2)"

definition remove_selection :: "picker \<Rightarrow> picker" where
  "remove_selection pk =
     (if insert_kind pk then cancel_insert_configure pk
      else exit_to_picking ''selection-pill-remove'' True (select None pk))"

section \<open>The two modes\<close>

text \<open>Of redrawing the global bar only the cursor is kept.\<close>

definition update_global_bar :: "picker \<Rightarrow> picker" where
  "update_global_bar pk = with_ui sync_page_interaction_cursor pk"

definition toggle_pick :: "picker \<Rightarrow> picker" where
  "toggle_pick pk0 =
     (if busy pk0 then busy_toast pk0
      else
        let on = \<not> pick_on pk0; p1 = pk0\<lparr>ui := (ui pk0)\<lparr>pick_active := on\<rparr>\<rparr>;
            p2 = (if on then clear_insert_picking (p1\<lparr>ui := (ui p1)\<lparr>insert_active := False\<rparr>\<rparr>) else p1);
            p3 = update_global_bar (save_interaction_prefs p2)
        in if \<not> on then
             (if insert_kind p3 \<and> live_mode p3 = Live_configuring then cancel_insert_configure p3
              else
                let p4 = (select None (hide_palette (hide_highlight (teardown_chrome p3))))\<lparr>hovered := None, insert_kind := False\<rparr>
                in with_ed (draw [Draw_focus ''toggle-pick''])
                     (if live_mode p4 \<in> {Live_picking, Live_configuring} then pk_state Live_idle p4 else p4))
           else with_ed (draw [Draw_focus ''toggle-pick'']) (if live_mode p3 = Live_idle then pk_state Live_picking p3 else p3))"

definition insert_mode_on :: "picker \<Rightarrow> picker" where
  "insert_mode_on pk =
     (let p1 = hide_palette (hide_pick_bar (hide_highlight (pk\<lparr>ui := (ui pk)\<lparr>pick_active := False\<rparr>\<rparr>)));
          p2 = (select None p1)\<lparr>insert_kind := False\<rparr>
      in if live_mode p2 = Live_configuring then cancel_insert_configure p2
         else if live_mode p2 \<in> {Live_idle, Live_picking} then pk_state Live_picking p2 else p2)"

definition insert_mode_off :: "picker \<Rightarrow> picker" where
  "insert_mode_off pk =
     (let p1 = clear_insert_picking pk
      in if live_mode p1 = Live_picking \<and> \<not> pick_on p1 then pk_state Live_idle p1 else p1)"

definition toggle_insert :: "picker \<Rightarrow> picker" where
  "toggle_insert pk0 =
     (if busy pk0 then busy_toast pk0
      else
        let on = \<not> insert_on pk0; p1 = pk0\<lparr>ui := (ui pk0)\<lparr>insert_active := on\<rparr>\<rparr>
        in with_ed (draw [Draw_focus ''toggle-insert''])
             (update_global_bar (save_interaction_prefs (if on then insert_mode_on p1 else insert_mode_off p1))))"

text \<open>After the modes are read, and again when the server is connected.\<close>

definition modes_start :: "picker \<Rightarrow> picker" where
  "modes_start pk =
     with_ui sync_page_interaction_cursor
       (if live_mode pk = Live_idle \<and> (pick_on pk \<or> insert_on pk) then pk_state Live_picking pk else pk)"

section \<open>The palette of actions and the count\<close>

definition toggle_palette :: "picker \<Rightarrow> picker" where
  "toggle_palette pk =
     (if busy pk then busy_toast pk else if palette_open pk then hide_palette pk else pk\<lparr>palette_open := True\<rparr>)"

definition choose_chip :: "string \<Rightarrow> picker \<Rightarrow> picker" where
  "choose_chip a pk = hide_palette (pk\<lparr>chosen_action := a\<rparr>)"

definition VARIANT_COUNT_MIN :: nat where "VARIANT_COUNT_MIN = 1"
definition VARIANT_COUNT_MAX :: nat where "VARIANT_COUNT_MAX = 4"

definition cycle_selected_count :: "picker \<Rightarrow> picker" where
  "cycle_selected_count pk =
     pk\<lparr>chosen_count := (if chosen_count pk \<ge> VARIANT_COUNT_MAX then VARIANT_COUNT_MIN else chosen_count pk + 1)\<rparr>"

section \<open>The mouse\<close>

text \<open>An element's flow children that can be picked, with their boxes.\<close>

definition kids_of :: "path \<Rightarrow> node \<Rightarrow> path list" where
  "kids_of q d = (let cs = children_of (node_of q d) in map (\<lambda>i. q @ [i]) (filter (\<lambda>i. is_el (cs ! i)) [0..<length cs]))"

definition insert_resolved :: "layout \<Rightarrow> real \<Rightarrow> real \<Rightarrow> path \<Rightarrow> node \<Rightarrow> path insert_target" where
  "insert_resolved lay x y t d =
     (let parent = (if t = [] then None else Some (butlast t)) in
      resolve_insert_hover x y t (box_of lay t)
        (detect_insert_axis (map_option (\<lambda>q. (1, style_of lay q)) parent))
        (layout_flow_children (can_pick lay) (box_of lay) (map_option (\<lambda>q. kids_of q d) parent)))"

definition it_place :: "path insert_target \<Rightarrow> place" where
  "it_place t = (it_anchor t, it_position t, it_axis t)"

text \<open>\<open>t\<close> is what \<open>elementFromPoint\<close> answers, when it is an element of the page and not of the overlay.\<close>

definition handle_mouse_move :: "layout \<Rightarrow> real \<Rightarrow> real \<Rightarrow> path option \<Rightarrow> picker \<Rightarrow> picker" where
  "handle_mouse_move lay x y t pk =
     (if busy pk then pk
      else if live_mode pk = Live_picking \<and> insert_on pk then
        (case t of
           None \<Rightarrow> pk_hide_line pk
         | Some p \<Rightarrow>
             if \<not> can_pick lay p then pk_hide_line pk
             else
               let r = insert_resolved lay x y p (doc (ed pk));
                   p1 = (if Some (it_place r) \<noteq> hover (ui pk)
                         then (with_ui (show_insert_line (Some r)) pk)\<lparr>line_made := True\<rparr> else pk)
               in with_ui sync_page_interaction_cursor p1)
      else if live_mode pk \<noteq> Live_picking \<or> \<not> pick_on pk then pk
      else case t of
          None \<Rightarrow> pk
        | Some p \<Rightarrow>
            if \<not> can_pick lay p \<or> hovered pk = Some p then pk else show_highlight (On p) (pk\<lparr>hovered := Some p\<rparr>))"

text \<open>Where a click lands: an element of the page, or the overlay's own parts.\<close>

datatype landing = At path | Own_dock | Own_panel | Own_bar | Own_other

definition is_own :: "landing \<Rightarrow> bool" where
  "is_own l \<longleftrightarrow> (case l of At _ \<Rightarrow> False | _ \<Rightarrow> True)"

definition lands_in :: "spot \<Rightarrow> landing \<Rightarrow> bool" where
  "lands_in s l \<longleftrightarrow> (case (s, l) of (On p, At q) \<Rightarrow> take (length p) q = p | _ \<Rightarrow> False)"

definition outside_selected :: "landing \<Rightarrow> picker \<Rightarrow> bool" where
  "outside_selected l pk \<longleftrightarrow> \<not> is_own l \<and> (case selected pk of None \<Rightarrow> False | Some s \<Rightarrow> \<not> lands_in s l)"

text \<open>A place whose anchor has no parent is refused.\<close>

definition place_insert :: "picker \<Rightarrow> picker" where
  "place_insert pk =
     (case hover (ui pk) of
        None \<Rightarrow> pk
      | Some (a, pos, ax) \<Rightarrow>
          if a = [] then pk\<lparr>holder := None\<rparr>
          else
            let p1 = (pk_hide_line (pk\<lparr>holder := Some (a, pos, ax)\<rparr>))\<lparr>insert_kind := True\<rparr>;
                p2 = hide_highlight (with_ui begin_new_live_configuration (select (Some Holder) p1))
            in show_pick_bar (with_ed (draw [Draw_clear_annotations, Draw_annotations]) p2))"

text \<open>The first popovers a click closes, whatever it does next.\<close>

definition close_popovers :: "landing \<Rightarrow> picker \<Rightarrow> picker" where
  "close_popovers l pk =
     (let p1 = (if palette_open pk \<and> \<not> is_own l then hide_palette pk else pk)
      in if tune_shown p1 \<and> l \<noteq> Own_panel \<and> l \<noteq> Own_bar then close_tune p1 else p1)"

definition pick_click :: "layout \<Rightarrow> bool \<Rightarrow> picker \<Rightarrow> picker" where
  "pick_click lay text_selected pk =
     (if skip_click pk \<or> text_selected then pk\<lparr>skip_click := False\<rparr>
      else case hovered pk of
          None \<Rightarrow> pk
        | Some p \<Rightarrow> if can_pick lay p then configure_element p pk else pk)"

definition handle_click :: "layout \<Rightarrow> landing \<Rightarrow> bool \<Rightarrow> picker \<Rightarrow> picker" where
  "handle_click lay l text_selected pk0 =
     (if busy pk0 \<and> l \<noteq> Own_dock then
        (let p1 = (if palette_open pk0 then hide_palette pk0 else pk0) in if is_own l then busy_toast p1 else p1)
      else
        let pk = close_popovers l pk0 in
        if live_mode pk = Live_editing \<and> outside_selected l pk then leave_editing_to_picking pk
        else if live_mode pk = Live_configuring \<and> outside_selected l pk then
          (if insert_kind pk then cancel_insert_configure pk else exit_to_picking ''configure-outside-click'' True pk)
        else if live_mode pk = Live_picking \<and> insert_on pk then (if is_own l then pk else place_insert pk)
        else if live_mode pk \<noteq> Live_picking \<or> \<not> pick_on pk \<or> is_own l then pk
        else pick_click lay text_selected pk)"

text \<open>A press that moves by more than four pixels, or that selects text, does not pick.\<close>

definition page_pointer_down :: "bool \<Rightarrow> landing \<Rightarrow> real \<Rightarrow> real \<Rightarrow> picker \<Rightarrow> picker" where
  "page_pointer_down chat_locked l x y pk =
     (if live_mode pk \<in> {Live_configuring, Live_editing} \<or> chat_locked \<or> is_own l then pk else pk\<lparr>gesture := Some (x, y, False)\<rparr>)"

definition page_pointer_move :: "real \<Rightarrow> real \<Rightarrow> picker \<Rightarrow> picker" where
  "page_pointer_move x y pk =
     (case gesture pk of
        None \<Rightarrow> pk
      | Some (x0, y0, dragged) \<Rightarrow>
          if \<not> dragged \<and> (x - x0) * (x - x0) + (y - y0) * (y - y0) > 4 * 4 then pk\<lparr>gesture := Some (x0, y0, True)\<rparr> else pk)"

definition page_pointer_up :: "bool \<Rightarrow> bool \<Rightarrow> picker \<Rightarrow> picker" where
  "page_pointer_up chat_locked text_selected pk =
     (if live_mode pk \<in> {Live_configuring, Live_editing} \<or> chat_locked then pk
      else pk\<lparr>skip_click := (case gesture pk of Some (_, _, dragged) \<Rightarrow> dragged | None \<Rightarrow> False) \<or> text_selected, gesture := None\<rparr>)"


section \<open>The keys\<close>

datatype key = Arrow_up bool | Arrow_down bool | Arrow_left | Arrow_right | Enter_key | Escape_key | Other_key

text \<open>
  Where the keys go: the page, the open note, a text field of the overlay (its id and what it holds),
  another control of the overlay that takes keys, a field of the page, or a text that is being edited.
  The flag of an arrow is \<open>shiftKey\<close>.
\<close>

datatype key_focus = On_page | In_note | In_own_field string string | In_own_select | In_page_field | In_row path

definition nav_key :: "key \<Rightarrow> bool" where
  "nav_key k \<longleftrightarrow> (case k of Arrow_up _ \<Rightarrow> True | Arrow_down _ \<Rightarrow> True | _ \<Rightarrow> False)"

definition should_passthrough :: "key_focus \<Rightarrow> key \<Rightarrow> live_state \<Rightarrow> bool" where
  "should_passthrough f k m \<longleftrightarrow>
     (case f of
        In_own_field i v \<Rightarrow>
          nav_key k \<and> v = [] \<and>
          (i = UI_PREFIX @ ''-input'' \<and> m = Live_configuring \<or> i = UI_PREFIX @ ''-page-chat-input'' \<and> m = Live_picking)
      | _ \<Rightarrow> False)"

text \<open>The elements after and before a place among its siblings, nearest first; the placeholder stands at its anchor.\<close>

definition later_sibs :: "node \<Rightarrow> place option \<Rightarrow> spot \<Rightarrow> path list" where
  "later_sibs d h s =
     (case s of
        On p \<Rightarrow> if p = [] then [] else filter (\<lambda>q. last p < last q) (kids_of (butlast p) d)
      | Holder \<Rightarrow> (case h of
            None \<Rightarrow> []
          | Some (a, pos, _) \<Rightarrow>
              filter (\<lambda>q. if pos = Before then last a \<le> last q else last a < last q) (kids_of (butlast a) d)))"

definition earlier_sibs :: "node \<Rightarrow> place option \<Rightarrow> spot \<Rightarrow> path list" where
  "earlier_sibs d h s =
     rev (case s of
        On p \<Rightarrow> if p = [] then [] else filter (\<lambda>q. last q < last p) (kids_of (butlast p) d)
      | Holder \<Rightarrow> (case h of
            None \<Rightarrow> []
          | Some (a, pos, _) \<Rightarrow>
              filter (\<lambda>q. if pos = Before then last q < last a else last q \<le> last a) (kids_of (butlast a) d)))"

definition parent_of :: "place option \<Rightarrow> spot \<Rightarrow> path option" where
  "parent_of h s =
     (case s of
        On p \<Rightarrow> if p = [] then None else Some (butlast p)
      | Holder \<Rightarrow> map_option (\<lambda>(a, _). butlast a) h)"

definition nav_target :: "layout \<Rightarrow> key \<Rightarrow> spot \<Rightarrow> picker \<Rightarrow> path option" where
  "nav_target lay k s pk =
     (let d = doc (ed pk); h = holder pk in
      case k of
        Arrow_down shift \<Rightarrow>
          if shift then (case s of On p \<Rightarrow> List.find (can_pick lay) (kids_of p d) | Holder \<Rightarrow> None)
          else List.find (can_pick lay) (later_sibs d h s)
      | Arrow_up shift \<Rightarrow>
          if shift then (case parent_of h s of None \<Rightarrow> None | Some q \<Rightarrow> if can_pick lay q then Some q else None)
          else List.find (can_pick lay) (earlier_sibs d h s)
      | _ \<Rightarrow> None)"

definition reselect :: "path \<Rightarrow> picker \<Rightarrow> picker" where
  "reselect p pk =
     (let p1 = show_pick_bar (with_ed (draw [Draw_clear_annotations, Draw_annotations]) (select (Some (On p)) pk));
          p2 = with_ed disable_inline_edit p1
      in with_ed (draw [Draw_badge (if has_text_rows p (doc (ed p2)) then ''idle'' else ''hidden'')]) p2)"

definition nav_spot :: "picker \<Rightarrow> spot option" where
  "nav_spot pk =
     (if live_mode pk = Live_picking then map_option On (hovered pk)
      else if live_mode pk = Live_configuring then selected pk else None)"

definition navigate :: "layout \<Rightarrow> key \<Rightarrow> spot \<Rightarrow> picker \<Rightarrow> picker" where
  "navigate lay k s pk =
     (case nav_target lay k s pk of
        None \<Rightarrow> pk
      | Some p \<Rightarrow> show_highlight (On p) (if live_mode pk = Live_picking then pk\<lparr>hovered := Some p\<rparr> else reselect p pk))"

definition call_out :: "call \<Rightarrow> picker \<Rightarrow> picker" where
  "call_out c pk = pk\<lparr>calls := calls pk @ [c]\<rparr>"

abbreviation "Live_saves \<equiv> Live_other ''SAVING''"
abbreviation "Live_confirmed \<equiv> Live_other ''CONFIRMED''"

text \<open>In the other states Escape falls through to the keys below, which do nothing with it.\<close>

definition escape_key :: "picker \<Rightarrow> picker" where
  "escape_key pk =
     (if palette_open pk then hide_palette pk
      else if live_mode pk = Live_editing then leave_editing pk
      else if live_mode pk = Live_configuring then
        (if insert_kind pk then cancel_insert_configure pk else exit_to_picking ''escape-from-configure'' False pk)
      else if live_mode pk = Live_cycling then call_out Call_discard pk
      else if live_mode pk = Live_picking then
        (if insert_on pk then toggle_insert pk
         else if pick_on pk then toggle_pick pk
         else pk_state Live_idle (hide_highlight pk))
      else pk)"

definition busy_key :: "key \<Rightarrow> picker \<Rightarrow> picker" where
  "busy_key k pk =
     (if k = Enter_key \<and> live_mode pk \<in> {Live_picking, Live_configuring, Live_cycling} then busy_toast pk else pk)"

definition cycling_key :: "key \<Rightarrow> picker \<Rightarrow> picker" where
  "cycling_key k pk =
     (if live_mode pk \<noteq> Live_cycling then pk
      else if k = Arrow_left then call_out (Call_cycle (- 1)) pk
      else if k = Arrow_right then call_out (Call_cycle 1) pk
      else if k = Enter_key then call_out Call_accept pk
      else pk)"

definition page_key :: "layout \<Rightarrow> key \<Rightarrow> picker \<Rightarrow> picker" where
  "page_key lay k pk =
     (if k = Escape_key then escape_key pk
      else case nav_spot pk of
          None \<Rightarrow> cycling_key k pk
        | Some s \<Rightarrow>
            if nav_key k then navigate lay k s pk
            else if k = Enter_key \<and> live_mode pk = Live_picking then
              (case hovered pk of None \<Rightarrow> pk | Some p \<Rightarrow> configure_element p pk)
            else cycling_key k pk)"

definition handle_key :: "layout \<Rightarrow> key_focus \<Rightarrow> key \<Rightarrow> picker \<Rightarrow> picker" where
  "handle_key lay f k pk =
     (if f = In_note then pk
      else if (case f of In_own_field _ _ \<Rightarrow> True | In_own_select \<Rightarrow> True | _ \<Rightarrow> False) \<and> \<not> should_passthrough f k (live_mode pk) then pk
      else if f = In_page_field then pk
      else case f of
          In_row q \<Rightarrow>
            if is_row q (ed pk) then (if k = Escape_key then with_ed (escape_row q) pk else pk) else pk
        | _ \<Rightarrow> if busy pk then busy_key k pk else page_key lay k pk)"

text \<open>Escape in the prompt of a picked element.\<close>

definition prompt_escape :: "picker \<Rightarrow> picker" where
  "prompt_escape pk = exit_to_picking ''configure-input-escape'' False pk"

section \<open>Runs\<close>

datatype pick_event =
    Mouse layout real real "path option" | Click layout landing bool
  | Press bool landing real real | Drag real real | Release bool bool
  | Key layout key_focus key | Prompt_escape | Pill_removed
  | Pick_toggled | Insert_toggled | Palette_toggled | Chip string | Count_clicked
  | Palette_timer | Bar_timer nat | Edit_opened "path \<Rightarrow> string" | Edit_typed path "node list" | Edit_cancelled
  | Modes_start | Session_state live_state | Session_over bool | Tune_opened | Apply_runs dock

text \<open>
  The handlers of a session set the state; at its end they also forget what is picked and hovered, and a
  discarded one its placeholder. An apply changes the dock. The editor's buttons are there while it is open.
\<close>

definition session_over :: "bool \<Rightarrow> picker \<Rightarrow> picker" where
  "session_over discarded pk =
     (let p1 = hide_highlight (hide_pick_bar pk);
          p2 = (if discarded then finalize_insert_session p1 else p1)
      in pk_state Live_picking ((select None p2)\<lparr>hovered := None, skip_click := False, chosen_action := ''impeccable''\<rparr>))"

fun pick_step :: "pick_event \<Rightarrow> picker \<Rightarrow> picker" where
  "pick_step (Mouse lay x y t) pk = handle_mouse_move lay x y t pk"
| "pick_step (Click lay l txt) pk = handle_click lay l txt pk"
| "pick_step (Press lck l x y) pk = page_pointer_down lck l x y pk"
| "pick_step (Drag x y) pk = page_pointer_move x y pk"
| "pick_step (Release lck txt) pk = page_pointer_up lck txt pk"
| "pick_step (Key lay f k) pk = handle_key lay f k pk"
| "pick_step Prompt_escape pk = (if live_mode pk = Live_configuring then prompt_escape pk else pk)"
| "pick_step Pill_removed pk = (if live_mode pk = Live_configuring then remove_selection pk else pk)"
| "pick_step Pick_toggled pk = toggle_pick pk"
| "pick_step Insert_toggled pk = toggle_insert pk"
| "pick_step Palette_toggled pk = toggle_palette pk"
| "pick_step (Chip a) pk = choose_chip a pk"
| "pick_step Count_clicked pk = (if busy pk then busy_toast pk else cycle_selected_count pk)"
| "pick_step Palette_timer pk = palette_timer pk"
| "pick_step (Bar_timer k) pk = bar_timer k pk"
| "pick_step (Edit_opened white) pk = (if live_mode pk = Live_configuring then open_editing white pk else pk)"
| "pick_step (Edit_typed q cs) pk = with_ed (inline_input q cs) pk"
| "pick_step Edit_cancelled pk = (if live_mode pk = Live_editing then leave_editing pk else pk)"
| "pick_step Modes_start pk = modes_start pk"
| "pick_step (Session_state l) pk = pk_state l pk"
| "pick_step (Session_over b) pk = session_over b pk"
| "pick_step Tune_opened pk = pk\<lparr>tune_shown := True\<rparr>"
| "pick_step (Apply_runs d) pk = with_ed (\<lambda>e. e\<lparr>dock_of := d\<rparr>) pk"

definition pick_run :: "pick_event list \<Rightarrow> picker \<Rightarrow> picker" where
  "pick_run es pk = run_of pick_step es pk"


section \<open>What the parts leave alone\<close>

lemma editor_frame [simp]:
  "mode (draw ds e) = mode e" "dock_of (draw ds e) = dock_of e" "rows (draw ds e) = rows e"
  "mode (tell t e) = mode e" "in_flight (dock_of (tell t e)) = in_flight (dock_of e)" "rows (tell t e) = rows e"
  "mode (disable_inline_edit e) = mode e" "dock_of (disable_inline_edit e) = dock_of e" "rows (disable_inline_edit e) = []"
  "mode (restore_inline_edit_drafts e) = mode e" "dock_of (restore_inline_edit_drafts e) = dock_of e"
  "mode (inline_input q cs e) = mode e" "dock_of (inline_input q cs e) = dock_of e"
  "mode (escape_row q e) = mode e" "dock_of (escape_row q e) = dock_of e"
  by (simp_all add: draw_def tell_def toast_def disable_inline_edit_def restore_inline_edit_drafts_def inline_input_def escape_row_def Let_def)

lemma editor_handlers [simp]:
  "mode (hide_edit_bar e) = mode e" "dock_of (hide_edit_bar e) = dock_of e"
  "mode (teardown_configure_chrome e) = mode e" "dock_of (teardown_configure_chrome e) = dock_of e"
  "mode (exit_configure_to_picking r c e) = Live_picking" "dock_of (exit_configure_to_picking r c e) = dock_of e"
  "mode (cancel_editing e) = Live_configuring" "dock_of (cancel_editing e) = dock_of e"
  "mode (cancel_editing_to_picking e) = Live_picking" "dock_of (cancel_editing_to_picking e) = dock_of e"
  by (simp_all add: hide_edit_bar_def teardown_configure_chrome_def exit_configure_to_picking_def cancel_editing_def
      configure_chrome_def cancel_editing_to_picking_def Let_def)

lemma enter_frame [simp]: "dock_of (enable_inline_edit w t e) = dock_of e"
  by (simp add: enable_inline_edit_def Let_def split: option.split)

lemma open_dock [simp]: "in_flight (dock_of (enter_editing_mode w e)) = in_flight (dock_of e)"
  by (simp add: enter_editing_mode_def Let_def)

text \<open>What decides about the modes: the two flags, how they are stored, and whether an insertion is configured.\<close>

definition modes :: "picker \<Rightarrow> bool \<times> bool \<times> storage option" where
  "modes pk = (pick_on pk, insert_on pk, prefs pk)"

lemma modes_with [simp]:
  "modes (with_ed f pk) = modes pk" "modes (select s pk) = modes pk" "modes (show_highlight x pk) = modes pk"
  "modes (hide_highlight pk) = modes pk" "modes (hide_palette pk) = modes pk" "modes (close_tune pk) = modes pk"
  "modes (show_pick_bar pk) = modes pk" "modes (busy_toast pk) = modes pk" "modes (finalize_insert_session pk) = modes pk"
  "modes (pk_state l pk) = modes pk" "modes (pk_hide_line pk) = modes pk" "modes (call_out c pk) = modes pk"
  by (auto simp: modes_def with_ed_def select_def show_highlight_def hide_highlight_def hide_palette_def close_tune_def
      show_pick_bar_def busy_toast_def finalize_insert_session_def pk_state_def pk_hide_line_def with_ui_def set_live_state_def
      hide_insert_line_def sync_page_interaction_cursor_def call_out_def Let_def split: option.split spot.split)

lemma modes_upd [simp]:
  "modes (pk\<lparr>hovered := h\<rparr>) = modes pk" "modes (pk\<lparr>insert_kind := b\<rparr>) = modes pk" "modes (pk\<lparr>skip_click := b\<rparr>) = modes pk"
  "modes (pk\<lparr>gesture := g\<rparr>) = modes pk" "modes (pk\<lparr>holder := hx\<rparr>) = modes pk" "modes (pk\<lparr>line_made := b\<rparr>) = modes pk"
  "modes (pk\<lparr>chosen_action := a\<rparr>) = modes pk" "modes (pk\<lparr>chosen_count := n\<rparr>) = modes pk" "modes (pk\<lparr>tune_shown := b\<rparr>) = modes pk"
  "modes (pk\<lparr>palette_open := b\<rparr>) = modes pk" "modes (pk\<lparr>bar_seq := n\<rparr>) = modes pk"
  "modes (pk\<lparr>palette_timers := n\<rparr>) = modes pk" "modes (pk\<lparr>bar_timers := ns\<rparr>) = modes pk"
  "modes (pk\<lparr>bar_open := b\<rparr>) = modes pk"
  by (simp_all add: modes_def)

lemma modes_handlers [simp]:
  "modes (clear_insert_picking pk) = modes pk" "modes (bar_goes pk) = modes pk" "modes (hide_pick_bar pk) = modes pk"
  "modes (teardown_chrome pk) = modes pk" "modes (exit_to_picking r c pk) = modes pk" "modes (cancel_insert_configure pk) = modes pk"
  "modes (leave_editing pk) = modes pk" "modes (leave_editing_to_picking pk) = modes pk" "modes (open_editing w pk) = modes pk"
  "modes (remove_selection pk) = modes pk" "modes (insert_mode_off pk) = modes pk"
  by (simp_all add: clear_insert_picking_def bar_goes_def hide_pick_bar_def teardown_chrome_def exit_to_picking_def
      cancel_insert_configure_def leave_editing_def leave_editing_to_picking_def open_editing_def remove_selection_def
      insert_mode_off_def Let_def)

lemma modes_configure [simp]:
  "modes (with_ui begin_new_live_configuration pk) = modes pk" "modes (configure_element p pk) = modes pk"
  "modes (with_ui sync_page_interaction_cursor pk) = modes pk" "modes (update_global_bar pk) = modes pk" "modes (with_ui (show_insert_line r) pk) = modes pk"
  by (simp_all add: modes_def configure_element_def update_global_bar_def with_ui_def begin_new_live_configuration_def set_live_state_def
      sync_page_interaction_cursor_def show_insert_line_def Let_def show_highlight_def show_pick_bar_def with_ed_def select_def
      split: option.split spot.split)

lemma modes_mouse [simp]: "modes (handle_mouse_move lay x y t pk) = modes pk"
  by (simp add: handle_mouse_move_def Let_def split: option.split)

lemma modes_click_parts [simp]:
  "modes (close_popovers l pk) = modes pk" "modes (place_insert pk) = modes pk" "modes (pick_click lay txt pk) = modes pk"
  by (simp_all add: close_popovers_def place_insert_def pick_click_def Let_def split: option.split)

lemma modes_click [simp]: "modes (handle_click lay l txt pk) = modes pk"
  by (simp add: handle_click_def Let_def if_distrib [of modes] split del: if_split cong del: if_weak_cong)

lemma modes_small [simp]:
  "modes (page_pointer_down lck l x y pk) = modes pk" "modes (page_pointer_move x y pk) = modes pk"
  "modes (page_pointer_up lck txt pk) = modes pk" "modes (toggle_palette pk) = modes pk" "modes (choose_chip a pk) = modes pk"
  "modes (cycle_selected_count pk) = modes pk" "modes (palette_timer pk) = modes pk" "modes (bar_timer n pk) = modes pk"
  "modes (modes_start pk) = modes pk" "modes (session_over b pk) = modes pk" "modes (navigate lay k s pk) = modes pk"
  "modes (cycling_key k pk) = modes pk" "modes (busy_key k pk) = modes pk"
  by (simp_all add: page_pointer_down_def page_pointer_move_def page_pointer_up_def toggle_palette_def choose_chip_def
      cycle_selected_count_def palette_timer_def bar_timer_def modes_start_def session_over_def navigate_def reselect_def
      cycling_key_def busy_key_def Let_def split: option.split prod.split)


lemma modes_escape: "live_mode pk \<noteq> Live_picking \<or> palette_open pk \<Longrightarrow> modes (escape_key pk) = modes pk"
  by (simp add: escape_key_def)

section \<open>The modes are remembered\<close>

text \<open>The storage has room for the flags, whatever they are.\<close>

definition room :: "storage option \<Rightarrow> bool" where
  "room store \<longleftrightarrow> (case store of None \<Rightarrow> False
     | Some st \<Rightarrow> \<forall>p i. storage_size (omap_set INTERACTION_PREFS_KEY (print_json (prefs_json p i)) (entries st)) \<le> quota st)"

definition one_mode :: "picker \<Rightarrow> bool" where
  "one_mode pk \<longleftrightarrow> \<not> (pick_on pk \<and> insert_on pk)"

definition modes_ok :: "bool \<times> bool \<times> storage option \<Rightarrow> bool" where
  "modes_ok m \<longleftrightarrow> (case m of (p, i, store) \<Rightarrow> \<not> (p \<and> i) \<and> room store \<and> load_interaction_prefs store = (p, i))"

definition remembered :: "picker \<Rightarrow> bool" where
  "remembered pk \<longleftrightarrow> modes_ok (modes pk)"

lemma remembered_iff:
  "remembered pk \<longleftrightarrow> one_mode pk \<and> room (prefs pk) \<and> load_interaction_prefs (prefs pk) = (pick_on pk, insert_on pk)"
  by (simp add: remembered_def modes_ok_def one_mode_def modes_def)

lemma prefs_read_back: "json_parse (print_json (prefs_json p i)) = Some (prefs_json p i)"
  by (rule json_parse_print) (simp add: prefs_json_def)

lemma saved_prefs:
  assumes "room (prefs pk)"
  shows "room (prefs (save_interaction_prefs pk))"
    "load_interaction_prefs (prefs (save_interaction_prefs pk)) = (pick_on pk, insert_on pk)"
proof -
  from assms obtain st where st: "prefs pk = Some st"
    and fits: "\<And>p i. storage_size (omap_set INTERACTION_PREFS_KEY (print_json (prefs_json p i)) (entries st)) \<le> quota st"
    by (auto simp: room_def split: option.splits)
  let ?raw = "print_json (prefs_json (pick_on pk) (insert_on pk))"
  let ?st = "st\<lparr>entries := omap_set INTERACTION_PREFS_KEY ?raw (entries st)\<rparr>"
  have saved: "prefs (save_interaction_prefs pk) = Some ?st"
    using fits by (simp add: save_interaction_prefs_def st set_item_def)
  then show "room (prefs (save_interaction_prefs pk))" by (simp add: room_def omap_set_twice fits)
  have raw: "get_item ?st INTERACTION_PREFS_KEY = Some ?raw" by (simp add: get_item_def map_of_omap_set)
  have "truthy_str (Some ?raw)" by (simp add: truthy_str_def opt_str_def prefs_json_def)
  then show "load_interaction_prefs (prefs (save_interaction_prefs pk)) = (pick_on pk, insert_on pk)"
    by (simp add: load_interaction_prefs_def saved raw opt_str_def prefs_read_back Let_def) (simp add: prefs_json_def flag_def)
qed

lemma saved_modes: "pick_on (save_interaction_prefs pk) = pick_on pk" "insert_on (save_interaction_prefs pk) = insert_on pk"
  by (simp_all add: save_interaction_prefs_def split: option.split sum.split)


lemma remembered_save:
  assumes "room (prefs pk)" "one_mode pk"
  shows "remembered (save_interaction_prefs pk)"
  using saved_prefs [OF assms(1)] assms(2) by (simp add: remembered_iff one_mode_def saved_modes)

lemma modes_ui [simp]: "modes (pk\<lparr>ui := u\<rparr>) = (pick_active u, insert_active u, prefs pk)"
  by (simp add: modes_def)

lemma insert_mode_on_modes: "modes (insert_mode_on pk) = (False, insert_on pk, prefs pk)"
proof -
  have "modes (insert_mode_on pk) = modes (pk\<lparr>ui := (ui pk)\<lparr>pick_active := False\<rparr>\<rparr>)"
    by (simp add: insert_mode_on_def Let_def if_distrib [of modes] split del: if_split cong del: if_weak_cong)
  then show ?thesis by (simp add: modes_def)
qed

lemma remembered_toggle_pick:
  assumes "remembered pk"
  shows "remembered (toggle_pick pk)"
proof (cases "busy pk")
  case True
  then show ?thesis using assms by (simp add: toggle_pick_def remembered_def)
next
  case False
  let ?on = "\<not> pick_on pk" let ?p1 = "pk\<lparr>ui := (ui pk)\<lparr>pick_active := ?on\<rparr>\<rparr>"
  let ?p2 = "if ?on then clear_insert_picking (?p1\<lparr>ui := (ui ?p1)\<lparr>insert_active := False\<rparr>\<rparr>) else ?p1"
  have p2: "modes ?p2 = (?on, \<not> ?on \<and> insert_on pk, prefs pk)"
    by (simp add: if_distrib [of modes] split del: if_split cong del: if_weak_cong) simp
  then have "room (prefs ?p2)" "one_mode ?p2"
    using assms by (auto simp: modes_def remembered_iff one_mode_def)
  then have saved: "remembered (save_interaction_prefs ?p2)" by (rule remembered_save)
  have "modes (toggle_pick pk) = modes (save_interaction_prefs ?p2)"
    using False by (simp add: toggle_pick_def Let_def if_distrib [of modes] split del: if_split cong del: if_weak_cong)
  then show ?thesis using saved by (simp add: remembered_def)
qed

lemma remembered_toggle_insert:
  assumes "remembered pk"
  shows "remembered (toggle_insert pk)"
proof (cases "busy pk")
  case True
  then show ?thesis using assms by (simp add: toggle_insert_def remembered_def)
next
  case False
  let ?p1 = "pk\<lparr>ui := (ui pk)\<lparr>insert_active := \<not> insert_on pk\<rparr>\<rparr>"
  let ?p2 = "if \<not> insert_on pk then insert_mode_on ?p1 else insert_mode_off ?p1"
  have "modes ?p2 = (insert_on pk \<and> pick_on pk, \<not> insert_on pk, prefs pk)"
    by (simp add: insert_mode_on_modes)
  then have "room (prefs ?p2)" "one_mode ?p2"
    using assms by (auto simp: modes_def remembered_iff one_mode_def)
  then have saved: "remembered (save_interaction_prefs ?p2)" by (rule remembered_save)
  have "modes (toggle_insert pk) = modes (save_interaction_prefs ?p2)"
    using False by (simp add: toggle_insert_def Let_def)
  then show ?thesis using saved by (simp add: remembered_def)
qed

lemma modes_leaving:
  "modes (if a then busy_toast pk else pk) = modes pk"
  "modes (if a then cancel_insert_configure pk else exit_to_picking r c pk) = modes pk"
  "modes (if a then leave_editing pk else pk) = modes pk" "modes (if a then prompt_escape pk else pk) = modes pk"
  "modes (if a then remove_selection pk else pk) = modes pk" "modes (if a then open_editing w pk else pk) = modes pk"
  "modes (if a then busy_toast pk else cycle_selected_count pk) = modes pk" "modes (with_ed (escape_row q) pk) = modes pk"
  by (simp_all add: prompt_escape_def)

lemma remembered_escape: "remembered pk \<Longrightarrow> remembered (escape_key pk)"
  using remembered_toggle_pick [of pk] remembered_toggle_insert [of pk]
  by (simp add: escape_key_def remembered_def modes_leaving)

lemma remembered_key: "remembered pk \<Longrightarrow> remembered (handle_key lay f k pk)"
  using remembered_escape [of pk]
  by (simp add: handle_key_def page_key_def remembered_def split: key_focus.split option.split)

lemma remembered_step: "remembered pk \<Longrightarrow> remembered (pick_step ev pk)"
  using remembered_toggle_pick [of pk] remembered_toggle_insert [of pk] remembered_key [of pk]
  by (cases ev) (simp_all add: remembered_def modes_leaving)

interpretation remembering: closed_stepping pick_step remembered
  by unfold_locales (rule remembered_step)

text \<open>
  C18: The modes survive a reload and exclude each other. As long as the storage has room, whatever is
  clicked, pressed, toggled, answered or fired, pick and insert are never both on, and a page loaded
  afterwards starts in the mode that was on.
\<close>

theorem modes_survive_reload:
  assumes "remembered pk"
  shows "load_interaction_prefs (prefs (pick_run es pk)) = (pick_on (pick_run es pk), insert_on (pick_run es pk)) \<and>
    \<not> (pick_on (pick_run es pk) \<and> insert_on (pick_run es pk))"
  using remembering.always_keeps [OF assms] by (simp add: pick_run_def remembered_iff one_mode_def)


section \<open>The cursor\<close>

definition cursor_of :: "live_state \<Rightarrow> bool \<Rightarrow> bool \<Rightarrow> place option \<Rightarrow> string" where
  "cursor_of m p i h =
     (if m \<noteq> Live_picking then []
      else if i then (case h of None \<Rightarrow> [] | Some (_, _, ax) \<Rightarrow> cursor_for_insert_axis ax)
      else if p then ''crosshair'' else [])"

text \<open>What the cursor depends on.\<close>

definition face :: "picker \<Rightarrow> string \<times> live_state \<times> bool \<times> bool \<times> place option \<times> bool" where
  "face pk = (page_cursor (ui pk), live_mode pk, pick_on pk, insert_on pk, hover (ui pk), line_made pk)"

definition lined :: "picker \<Rightarrow> bool" where
  "lined pk \<longleftrightarrow> (case face pk of (_, _, _, _, h, made) \<Rightarrow> h \<noteq> None \<longrightarrow> made)"

definition told :: "picker \<Rightarrow> bool" where
  "told pk \<longleftrightarrow> lined pk \<and> (case face pk of (c, m, p, i, h, _) \<Rightarrow> c = cursor_of m p i h)"

lemma synced_cursor: "page_cursor (sync_page_interaction_cursor u) = cursor_of (live_state u) (pick_active u) (insert_active u) (hover u)"
  by (auto simp: sync_page_interaction_cursor_def cursor_of_def split: option.split)

lemma sync_frame [simp]:
  "live_state (sync_page_interaction_cursor u) = live_state u" "pick_active (sync_page_interaction_cursor u) = pick_active u"
  "insert_active (sync_page_interaction_cursor u) = insert_active u" "hover (sync_page_interaction_cursor u) = hover u"
  by (simp_all add: sync_page_interaction_cursor_def)

lemma face_state: "face (pk_state l pk) = (cursor_of l (pick_on pk) (insert_on pk) (hover (ui pk)), l, pick_on pk, insert_on pk, hover (ui pk), line_made pk)"
  by (simp add: face_def pk_state_def with_ui_def set_live_state_def synced_cursor Let_def)

lemma face_hide_line:
  "face (pk_hide_line pk) = (if line_made pk then (cursor_of (live_mode pk) (pick_on pk) (insert_on pk) None, live_mode pk, pick_on pk, insert_on pk, None, True) else face pk)"
  by (simp add: face_def pk_hide_line_def with_ui_def hide_insert_line_def synced_cursor Let_def)

lemma face_begin:
  "face (with_ui begin_new_live_configuration pk) = ([], Live_configuring, pick_on pk, insert_on pk, hover (ui pk), line_made pk)"
  by (simp add: face_def with_ui_def begin_new_live_configuration_def set_live_state_def synced_cursor Let_def) (simp add: cursor_of_def)

lemma face_sync:
  "face (with_ui sync_page_interaction_cursor pk) =
     (cursor_of (live_mode pk) (pick_on pk) (insert_on pk) (hover (ui pk)), live_mode pk, pick_on pk, insert_on pk, hover (ui pk), line_made pk)"
  by (simp add: face_def with_ui_def synced_cursor Let_def)

lemma face_ed [simp]: "mode (f (ed pk)) = live_mode pk \<Longrightarrow> face (with_ed f pk) = face pk"
  by (simp add: face_def with_ed_def)

lemma face_same [simp]:
  "face (select s pk) = face pk" "face (show_highlight x pk) = face pk" "face (hide_highlight pk) = face pk"
  "face (hide_palette pk) = face pk" "face (close_tune pk) = face pk" "face (show_pick_bar pk) = face pk"
  "face (busy_toast pk) = face pk" "face (finalize_insert_session pk) = face pk" "face (call_out c pk) = face pk"
  "face (save_interaction_prefs pk) = face pk"
  by (auto simp: face_def with_ed_def select_def show_highlight_def hide_highlight_def hide_palette_def close_tune_def
      show_pick_bar_def busy_toast_def finalize_insert_session_def call_out_def save_interaction_prefs_def
      split: option.split spot.split sum.split)

lemma face_upd [simp]:
  "face (pk\<lparr>hovered := h\<rparr>) = face pk" "face (pk\<lparr>insert_kind := b\<rparr>) = face pk" "face (pk\<lparr>skip_click := b\<rparr>) = face pk"
  "face (pk\<lparr>gesture := g\<rparr>) = face pk" "face (pk\<lparr>holder := hx\<rparr>) = face pk" "face (pk\<lparr>bar_seq := n\<rparr>) = face pk"
  "face (pk\<lparr>chosen_action := a\<rparr>) = face pk" "face (pk\<lparr>chosen_count := n\<rparr>) = face pk" "face (pk\<lparr>tune_shown := b\<rparr>) = face pk"
  "face (pk\<lparr>palette_open := b\<rparr>) = face pk" "face (pk\<lparr>palette_timers := n\<rparr>) = face pk" "face (pk\<lparr>bar_timers := ns\<rparr>) = face pk"
  "face (pk\<lparr>bar_open := b\<rparr>) = face pk"
  by (simp_all add: face_def)

lemma told_state: "lined pk \<Longrightarrow> told (pk_state l pk)"
  by (simp add: told_def lined_def face_state) (simp add: face_def)

lemma told_hide: "told pk \<Longrightarrow> told (pk_hide_line pk)"
  by (auto simp: told_def lined_def face_hide_line)

lemma lined_hide: "lined pk \<Longrightarrow> lined (pk_hide_line pk)"
  by (auto simp: lined_def face_hide_line)

lemma lined_frame: "hover (ui a) = hover (ui b) \<Longrightarrow> line_made a = line_made b \<Longrightarrow> lined a = lined b"
  by (simp add: lined_def face_def)

lemma told_face: "face a = face b \<Longrightarrow> told a = told b" and lined_face: "face a = face b \<Longrightarrow> lined a = lined b"
  by (simp_all add: told_def lined_def)

lemma lined_with [simp]: "lined (with_ed f pk) = lined pk" "lined (pk\<lparr>ui := (ui pk)\<lparr>pick_active := b\<rparr>\<rparr>) = lined pk"
  "lined (pk\<lparr>ui := (ui pk)\<lparr>insert_active := b\<rparr>\<rparr>) = lined pk"
  by (simp_all add: lined_def face_def with_ed_def)

lemma told_lined: "told pk \<Longrightarrow> lined pk"
  by (simp add: told_def)


lemma told_begin: "lined pk \<Longrightarrow> told (with_ui begin_new_live_configuration pk)"
  by (simp add: told_def lined_def face_begin) (simp add: face_def cursor_of_def)

lemma told_sync: "lined pk \<Longrightarrow> told (with_ui sync_page_interaction_cursor pk)"
  by (simp add: told_def lined_def face_sync) (simp add: face_def)

lemma face_clear: "face (clear_insert_picking pk) = face (pk_hide_line pk)"
  by (simp add: clear_insert_picking_def)

lemma face_goes: "face (bar_goes pk) = (if insert_kind pk then face (pk_hide_line pk) else face pk)"
  by (simp add: bar_goes_def Let_def face_clear face_hide_line)

lemma told_goes: "told pk \<Longrightarrow> told (bar_goes pk)" and lined_goes: "lined pk \<Longrightarrow> lined (bar_goes pk)"
  using told_hide [of pk] told_face [of "bar_goes pk"] lined_hide [of pk] lined_face [of "bar_goes pk"] face_goes [of pk]
  by (auto simp: told_lined split: if_splits)

lemma told_same: "told a \<Longrightarrow> face b = face a \<Longrightarrow> told b"
  by (simp add: told_def lined_def)

lemma told_bar: "told pk \<Longrightarrow> told (hide_pick_bar pk)" "told pk \<Longrightarrow> told (teardown_chrome pk)"
  by (auto simp: hide_pick_bar_def teardown_chrome_def intro: told_same [OF told_goes])

lemma lined_bar: "lined pk \<Longrightarrow> lined (hide_pick_bar pk)" "lined pk \<Longrightarrow> lined (teardown_chrome pk)"
  by (simp_all add: hide_pick_bar_def teardown_chrome_def lined_goes)

lemma lined_clear: "lined pk \<Longrightarrow> lined (clear_insert_picking pk)"
  using lined_hide [of pk] lined_face [OF face_clear [of pk]] by simp

lemma lined_same [simp]:
  "lined (select s pk) = lined pk" "lined (show_highlight x pk) = lined pk" "lined (hide_highlight pk) = lined pk"
  "lined (hide_palette pk) = lined pk" "lined (show_pick_bar pk) = lined pk" "lined (finalize_insert_session pk) = lined pk"
  "lined (pk\<lparr>hovered := h\<rparr>) = lined pk" "lined (pk\<lparr>insert_kind := b\<rparr>) = lined pk" "lined (pk\<lparr>skip_click := b\<rparr>) = lined pk"
  "lined (pk\<lparr>holder := hx\<rparr>) = lined pk" "lined (pk\<lparr>chosen_action := a\<rparr>) = lined pk"
  by (simp_all add: lined_def)

lemma told_upd [simp]:
  "told (select s pk) = told pk" "told (show_highlight x pk) = told pk" "told (hide_highlight pk) = told pk"
  "told (hide_palette pk) = told pk" "told (show_pick_bar pk) = told pk" "told (finalize_insert_session pk) = told pk"
  "told (busy_toast pk) = told pk" "told (close_tune pk) = told pk" "told (call_out c pk) = told pk"
  "told (save_interaction_prefs pk) = told pk"
  "told (pk\<lparr>hovered := h\<rparr>) = told pk" "told (pk\<lparr>insert_kind := b\<rparr>) = told pk" "told (pk\<lparr>skip_click := b\<rparr>) = told pk"
  "told (pk\<lparr>holder := hx\<rparr>) = told pk" "told (pk\<lparr>chosen_action := a\<rparr>) = told pk" "told (pk\<lparr>gesture := g\<rparr>) = told pk"
  "told (pk\<lparr>chosen_count := n\<rparr>) = told pk" "told (pk\<lparr>tune_shown := b\<rparr>) = told pk" "told (pk\<lparr>palette_open := b\<rparr>) = told pk"
  "told (pk\<lparr>palette_timers := n\<rparr>) = told pk" "told (pk\<lparr>bar_timers := ns\<rparr>) = told pk" "told (pk\<lparr>bar_open := b\<rparr>) = told pk"
  by (simp_all add: told_def lined_def)

lemma told_ed [simp]: "mode (f (ed pk)) = live_mode pk \<Longrightarrow> told (with_ed f pk) = told pk"
  by (simp add: told_def lined_def)

lemma lined_save [simp]: "lined (save_interaction_prefs pk) = lined pk"
  by (simp add: lined_def)

lemma lined_state [simp]: "lined (pk_state l pk) = lined pk"
  by (simp add: lined_def face_state) (simp add: face_def)

lemma told_handlers:
  assumes "lined pk"
  shows "told (exit_to_picking r c pk)" "told (cancel_insert_configure pk)" "told (leave_editing pk)"
    "told (leave_editing_to_picking pk)" "told (configure_element p pk)"
  using assms
  by (simp_all add: exit_to_picking_def cancel_insert_configure_def leave_editing_def leave_editing_to_picking_def
      configure_element_def told_state told_begin lined_goes lined_bar lined_clear Let_def)

lemma told_others:
  assumes "told pk"
  shows "told (open_editing w pk)" "told (remove_selection pk)" "told (session_over b pk)" "told (modes_start pk)"
    "told (navigate lay k s pk)"
  using assms told_lined [OF assms]
  by (simp_all add: open_editing_def remove_selection_def session_over_def modes_start_def navigate_def reselect_def
      told_handlers told_state told_sync lined_goes lined_bar Let_def split: option.split)


lemma told_mouse: assumes "told pk" shows "told (handle_mouse_move lay x y t pk)"
proof -
  have lined: "lined pk" using assms by (rule told_lined)
  have shown: "lined ((with_ui (show_insert_line (Some r)) pk)\<lparr>line_made := True\<rparr>)" for r
    by (simp add: lined_def face_def)
  show ?thesis using assms lined shown
    by (auto simp: handle_mouse_move_def Let_def told_hide intro: told_sync split: option.split)
qed

lemma told_click: assumes "told pk" shows "told (handle_click lay l txt pk)"
proof -
  have pop: "told (close_popovers l pk)" using assms by (simp add: close_popovers_def Let_def)
  have place: "told (place_insert q)" if "told q" for q
    using that told_lined [OF that]
    by (simp add: place_insert_def told_begin lined_hide Let_def split: option.split)
  have pick: "told (pick_click lay txt q)" if "told q" for q
    using that told_lined [OF that] by (simp add: pick_click_def told_handlers split: option.split)
  show ?thesis using assms pop told_lined [OF pop] place [OF pop] pick [OF pop]
    by (simp add: handle_click_def told_handlers Let_def)
qed

lemma cursor_elsewhere: "m \<noteq> Live_picking \<Longrightarrow> cursor_of m p i h = []"
  by (simp add: cursor_of_def)

lemma mode_frame [simp]:
  "live_mode (hide_highlight pk) = live_mode pk" "live_mode (hide_palette pk) = live_mode pk" "live_mode (select s pk) = live_mode pk"
  "live_mode (hide_pick_bar pk) = live_mode pk" "live_mode (teardown_chrome pk) = live_mode pk"
  "live_mode (clear_insert_picking pk) = live_mode pk" "live_mode (save_interaction_prefs pk) = live_mode pk"
proof -
  have goes: "live_mode (bar_goes q) = live_mode q" "live_mode (clear_insert_picking q) = live_mode q" for q
    using face_goes [of q] face_hide_line [of q] face_clear [of q] by (simp_all add: face_def split: if_splits)
  show "live_mode (hide_highlight pk) = live_mode pk" "live_mode (hide_palette pk) = live_mode pk" "live_mode (select s pk) = live_mode pk"
    "live_mode (save_interaction_prefs pk) = live_mode pk"
    by (simp_all add: hide_highlight_def hide_palette_def select_def with_ed_def save_interaction_prefs_def split: option.split spot.split sum.split)
  show "live_mode (hide_pick_bar pk) = live_mode pk" "live_mode (teardown_chrome pk) = live_mode pk"
    by (simp_all add: hide_pick_bar_def teardown_chrome_def with_ed_def goes)
  show "live_mode (clear_insert_picking pk) = live_mode pk" by (rule goes)
qed

lemma told_global_bar: "lined pk \<Longrightarrow> told (update_global_bar pk)"
  by (simp add: update_global_bar_def told_sync)

lemma lined_flags [simp]: "lined (pk\<lparr>ui := (ui pk)\<lparr>pick_active := p, insert_active := i\<rparr>\<rparr>) = lined pk"
  by (simp add: lined_def face_def)

lemma told_toggle_pick: assumes "told pk" shows "told (toggle_pick pk)"
proof -
  have lined: "lined pk" using assms by (rule told_lined)
  have on: "told (update_global_bar (save_interaction_prefs (clear_insert_picking (pk\<lparr>ui := (ui pk)\<lparr>pick_active := True, insert_active := False\<rparr>\<rparr>))))"
    and off: "told (update_global_bar (save_interaction_prefs (pk\<lparr>ui := (ui pk)\<lparr>pick_active := False\<rparr>\<rparr>)))"
    using lined by (simp_all add: told_global_bar lined_clear)
  from told_bar(2) [OF off] on off assms show ?thesis
    by (simp add: toggle_pick_def Let_def told_state told_lined told_handlers lined_bar)
qed

lemma lined_insert_modes: assumes "lined pk" shows "lined (insert_mode_on pk)" "lined (insert_mode_off pk)"
  using assms
  by (simp_all add: insert_mode_on_def insert_mode_off_def Let_def lined_bar lined_clear told_lined told_handlers)

lemma told_toggle_insert: "told pk \<Longrightarrow> told (toggle_insert pk)"
  using lined_insert_modes [of "pk\<lparr>ui := (ui pk)\<lparr>insert_active := b\<rparr>\<rparr>" for b] told_lined [of pk]
  by (simp add: toggle_insert_def Let_def told_global_bar)

lemma told_key: assumes "told pk" shows "told (handle_key lay f k pk)"
proof -
  have lined: "lined pk" using assms by (rule told_lined)
  have esc: "told (escape_key pk)"
    using assms lined by (simp add: escape_key_def told_handlers told_toggle_pick told_toggle_insert told_state)
  have page: "told (page_key lay k pk)"
    using assms lined esc by (auto simp: page_key_def cycling_key_def told_others told_handlers split: option.split)
  show ?thesis using assms page by (auto simp: handle_key_def busy_key_def split: key_focus.split)
qed

lemma told_small:
  assumes "told pk"
  shows "told (page_pointer_down lck l x y pk)" "told (page_pointer_move x y pk)" "told (page_pointer_up lck txt pk)"
    "told (toggle_palette pk)" "told (choose_chip a pk)" "told (cycle_selected_count pk)" "told (palette_timer pk)" "told (bar_timer n pk)"
  using assms
  by (simp_all add: page_pointer_down_def page_pointer_move_def page_pointer_up_def toggle_palette_def choose_chip_def
      cycle_selected_count_def palette_timer_def bar_timer_def Let_def split: option.split prod.split)

lemma told_step: assumes "told pk" shows "told (pick_step ev pk)"
  using assms told_lined [OF assms]
  by (cases ev) (simp_all add: told_mouse told_click told_key told_small told_toggle_pick told_toggle_insert told_others
      told_handlers told_state prompt_escape_def)

interpretation telling: closed_stepping pick_step told
  by unfold_locales (rule told_step)

text \<open>
  C14: The cursor tells the mode. After every run the page shows the cross-hair exactly while picking, the
  arrows of the axis exactly while an insertion has a place, and its own cursor otherwise.
\<close>

theorem cursor_tells_mode:
  assumes "told pk"
  shows "page_cursor (ui (pick_run es pk)) =
    cursor_of (live_mode (pick_run es pk)) (pick_on (pick_run es pk)) (insert_on (pick_run es pk)) (hover (ui (pick_run es pk)))"
  using telling.always_keeps [OF assms, of es] by (simp add: pick_run_def told_def face_def)


section \<open>Escape\<close>

definition escapes :: "nat \<Rightarrow> pick_event list" where
  "escapes n = replicate n (Key \<lparr>can_pick = (\<lambda>_. False), box_of = (\<lambda>_. \<lparr>rect_x = 0, rect_y = 0, rect_width = 0, rect_height = 0\<rparr>),
     style_of = (\<lambda>_. \<lparr>st_display = [], st_flex_direction = [], st_columns = [], st_flow = []\<rparr>)\<rparr> On_page Escape_key)"

text \<open>What Escape decides by.\<close>

definition stand :: "picker \<Rightarrow> live_state \<times> bool \<times> bool \<times> bool \<times> bool \<times> bool" where
  "stand pk = (live_mode pk, pick_on pk, insert_on pk, insert_kind pk, palette_open pk, busy pk)"

lemma stand_with [simp]:
  "stand (select s pk) = stand pk" "stand (show_highlight x pk) = stand pk" "stand (hide_highlight pk) = stand pk"
  "stand (hide_palette pk) = stand pk" "stand (close_tune pk) = stand pk" "stand (show_pick_bar pk) = stand pk"
  "stand (save_interaction_prefs pk) = stand pk" "stand (update_global_bar pk) = stand pk" "stand (pk\<lparr>hovered := h\<rparr>) = stand pk" "stand (pk\<lparr>bar_seq := n\<rparr>) = stand pk"
  "stand (pk\<lparr>bar_timers := ns\<rparr>) = stand pk" "stand (pk_hide_line pk) = stand pk"
  by (auto simp: stand_def with_ed_def select_def show_highlight_def hide_highlight_def hide_palette_def close_tune_def
      show_pick_bar_def save_interaction_prefs_def update_global_bar_def pk_hide_line_def with_ui_def hide_insert_line_def Let_def
      split: option.split spot.split sum.split)

lemma stand_ed [simp]:
  "mode (f (ed pk)) = live_mode pk \<Longrightarrow> in_flight (dock_of (f (ed pk))) = busy pk \<Longrightarrow> stand (with_ed f pk) = stand pk"
  by (simp add: stand_def with_ed_def)

lemma stand_state: "stand (pk_state l pk) = (l, snd (stand pk))"
  by (simp add: stand_def pk_state_def with_ui_def set_live_state_def Let_def)

lemma stand_kind: "stand (clear_insert_picking pk) = (live_mode pk, pick_on pk, insert_on pk, False, palette_open pk, busy pk)"
  using stand_with(12) [of pk] by (simp add: clear_insert_picking_def finalize_insert_session_def stand_def)

lemma stand_goes: "stand (bar_goes pk) = (live_mode pk, pick_on pk, insert_on pk, False, palette_open pk, busy pk)"
  by (simp add: bar_goes_def Let_def stand_kind) (simp add: stand_def)

lemma standD:
  "stand a = (m, p, i, k, q, b) \<Longrightarrow> live_mode a = m \<and> pick_on a = p \<and> insert_on a = i \<and> insert_kind a = k \<and> palette_open a = q \<and> busy a = b"
  by (simp add: stand_def)

lemma stand_exits:
  "stand (exit_to_picking r c pk) = (Live_picking, pick_on pk, insert_on pk, False, palette_open pk, busy pk)"
  "stand (cancel_insert_configure pk) =
     (if insert_on pk then Live_picking else Live_idle, pick_on pk, insert_on pk, False, palette_open pk, busy pk)"
  "stand (leave_editing pk) = (Live_configuring, pick_on pk, insert_on pk, insert_kind pk, palette_open pk, busy pk)"
proof -
  have out: "stand (with_ed f q) = (mode (f (ed q)), pick_on q, insert_on q, insert_kind q, palette_open q, in_flight (dock_of (f (ed q))))" for f q
    by (simp add: stand_def with_ed_def)
  note goes = stand_goes [of pk, unfolded stand_def, simplified]
  show "stand (exit_to_picking r c pk) = (Live_picking, pick_on pk, insert_on pk, False, palette_open pk, busy pk)"
    by (simp add: exit_to_picking_def Let_def stand_state out goes)
  show "stand (leave_editing pk) = (Live_configuring, pick_on pk, insert_on pk, insert_kind pk, palette_open pk, busy pk)"
    by (simp add: leave_editing_def stand_state out)
  let ?q = "with_ed (draw [Draw_stop_scroll, Draw_no_annotations, Draw_clear_annotations]) (hide_pick_bar pk)"
  have bar: "stand ?q = (live_mode pk, pick_on pk, insert_on pk, False, palette_open pk, busy pk)"
    by (simp add: hide_pick_bar_def stand_goes)
  then have gone: "stand (select None (clear_insert_picking ?q)) = (live_mode pk, pick_on pk, insert_on pk, False, palette_open pk, busy pk)"
    using standD [OF bar] by (simp add: stand_kind)
  then show "stand (cancel_insert_configure pk) =
     (if insert_on pk then Live_picking else Live_idle, pick_on pk, insert_on pk, False, palette_open pk, busy pk)"
    using standD [OF gone] by (simp add: cancel_insert_configure_def Let_def stand_state)
qed


lemma stand_toggles:
  assumes "\<not> busy pk" "live_mode pk = Live_picking"
  shows "insert_on pk \<Longrightarrow> \<not> pick_on pk \<Longrightarrow> stand (toggle_insert pk) = (Live_idle, False, False, False, palette_open pk, False)"
    "pick_on pk \<Longrightarrow> stand (toggle_pick pk) = (Live_idle, False, insert_on pk, False, palette_open pk, False)"
proof -
  assume on: "insert_on pk" "\<not> pick_on pk"
  let ?p = "pk\<lparr>ui := (ui pk)\<lparr>insert_active := False\<rparr>\<rparr>"
  have gone: "stand (clear_insert_picking ?p) = (Live_picking, False, False, False, palette_open pk, False)"
    using assms on by (simp add: stand_kind)
  have "stand (insert_mode_off ?p) = (Live_idle, False, False, False, palette_open pk, False)"
    using standD [OF gone] gone by (simp add: insert_mode_off_def Let_def stand_state)
  then show "stand (toggle_insert pk) = (Live_idle, False, False, False, palette_open pk, False)"
    using assms on by (simp add: toggle_insert_def Let_def)
next
  assume on: "pick_on pk"
  let ?p = "update_global_bar (save_interaction_prefs (pk\<lparr>ui := (ui pk)\<lparr>pick_active := False\<rparr>\<rparr>))"
  have saved: "stand ?p = (Live_picking, False, insert_on pk, insert_kind pk, palette_open pk, False)"
    using assms by simp (simp add: stand_def)
  have torn: "stand (teardown_chrome ?p) = (Live_picking, False, insert_on pk, False, palette_open pk, False)"
    using standD [OF saved] by (simp add: teardown_chrome_def stand_goes)
  have "stand (select None (hide_palette (hide_highlight (teardown_chrome ?p)))) =
      (Live_picking, False, insert_on pk, False, palette_open pk, False)"
    using torn by simp
  from standD [OF this] have cleared: "stand ((select None (hide_palette (hide_highlight (teardown_chrome ?p))))\<lparr>hovered := None, insert_kind := False\<rparr>) =
      (Live_picking, False, insert_on pk, False, palette_open pk, False)"
    by (simp add: stand_def)
  show "stand (toggle_pick pk) = (Live_idle, False, insert_on pk, False, palette_open pk, False)"
    using assms on cleared standD [OF cleared] standD [OF saved] by (simp add: toggle_pick_def Let_def stand_state)
qed

lemma escape_steps:
  assumes "\<not> busy pk" "\<not> palette_open pk" "\<not> (pick_on pk \<and> insert_on pk)"
  shows "live_mode pk = Live_editing \<Longrightarrow> stand (escape_key pk) = (Live_configuring, pick_on pk, insert_on pk, insert_kind pk, False, False)"
    "live_mode pk = Live_configuring \<Longrightarrow> stand (escape_key pk) =
       (if insert_kind pk \<and> \<not> insert_on pk then Live_idle else Live_picking, pick_on pk, insert_on pk, False, False, False)"
    "live_mode pk = Live_picking \<Longrightarrow> \<exists>b. stand (escape_key pk) = (Live_idle, False, False, b, False, False)"
    "live_mode pk = Live_idle \<Longrightarrow> escape_key pk = pk"
  using assms stand_toggles [OF assms(1)]
  by (auto simp: escape_key_def stand_exits stand_state) (simp_all add: stand_def)


lemma escape_event: "\<not> busy pk \<Longrightarrow> pick_run (escapes (Suc n)) pk = pick_run (escapes n) (escape_key pk)"
  by (simp add: pick_run_def escapes_def handle_key_def page_key_def)

lemma escapes_append: "pick_run (es @ fs) pk = pick_run fs (pick_run es pk)"
  by (simp add: pick_run_def run_of_append)

lemma escapes_idle: "live_mode pk = Live_idle \<Longrightarrow> \<not> busy pk \<Longrightarrow> \<not> palette_open pk \<Longrightarrow> pick_run (escapes n) pk = pk"
  by (induction n) (simp_all add: escape_event escape_key_def, simp add: pick_run_def escapes_def)

lemma escape_picking:
  assumes "\<not> busy pk" "\<not> palette_open pk" "\<not> (pick_on pk \<and> insert_on pk)" "live_mode pk = Live_picking"
  shows "live_mode (pick_run (escapes (Suc n)) pk) = Live_idle"
proof -
  obtain b where "stand (escape_key pk) = (Live_idle, False, False, b, False, False)" using escape_steps(3) [OF assms] by blast
  from standD [OF this] show ?thesis by (simp add: escape_event assms(1) escapes_idle)
qed

lemma escape_configuring:
  assumes "\<not> busy pk" "\<not> palette_open pk" "\<not> (pick_on pk \<and> insert_on pk)" "live_mode pk = Live_configuring"
  shows "live_mode (pick_run (escapes (Suc (Suc n))) pk) = Live_idle"
  using standD [OF escape_steps(2) [OF assms]] assms(3) escape_picking [of "escape_key pk" n] escapes_idle [of "escape_key pk" "Suc n"]
  by (simp add: escape_event [OF assms(1)] split: if_splits)

lemma escape_closed_palette:
  assumes "\<not> busy pk" "\<not> palette_open pk" "\<not> (pick_on pk \<and> insert_on pk)" "live_mode pk \<in> {Live_editing, Live_configuring, Live_picking}"
  shows "live_mode (pick_run (escapes 3) pk) = Live_idle"
proof (cases "live_mode pk = Live_editing")
  case True
  from standD [OF escape_steps(1) [OF assms(1-3) True]] show ?thesis
    using escape_configuring [of "escape_key pk" 0] assms(3) by (simp add: numeral_3_eq_3 escape_event assms(1))
next
  case False
  then show ?thesis using escape_configuring [OF assms(1-3), of 1] escape_picking [OF assms(1-3), of 2] assms(4)
    by (auto simp: numeral_eq_Suc)
qed


section \<open>Walking with the arrows\<close>

lemma kids_last: "q \<in> set (kids_of p d) \<Longrightarrow> butlast q = p \<and> q \<noteq> [] \<and> q = p @ [last q]"
  by (auto simp: kids_of_def Let_def)

lemma kids_sorted: "sorted_wrt (\<lambda>a b. last a < last b) (kids_of p d)"
  by (auto simp: kids_of_def sorted_wrt_map Let_def intro!: sorted_wrt_filter)

text \<open>The first to the right, and from there the first to the left.\<close>

lemma find_back:
  assumes "sorted_wrt (\<lambda>a b. f a < (f b :: nat)) xs" "p \<in> set xs" "C p" "List.find C (filter (\<lambda>q. f p < f q) xs) = Some q"
  shows "q \<in> set xs \<and> C q \<and> List.find C (rev (filter (\<lambda>r. f r < f q) xs)) = Some p"
proof -
  from assms(2) obtain as bs where xs: "xs = as @ p # bs" by (auto simp: in_set_conv_decomp)
  have left: "\<forall>a \<in> set as. f a < f p" and right: "\<forall>b \<in> set bs. f p < f b" and cross: "\<forall>a \<in> set as. \<forall>b \<in> set bs. f a < f b"
    and bs: "sorted_wrt (\<lambda>a b. f a < f b) bs"
    using assms(1) by (auto simp: xs sorted_wrt_append)
  have nleft: "filter (\<lambda>q. f p < f q) as = []" and nright: "filter (\<lambda>q. f p < f q) bs = bs"
    using left right by (auto simp: filter_empty_conv filter_id_conv)
  then have "List.find C bs = Some q" using assms(4) by (simp add: xs)
  then obtain i where i: "i < length bs" "C (bs ! i)" "q = bs ! i" "\<forall>j < i. \<not> C (bs ! j)" by (auto simp: find_Some_iff)
  then have split: "bs = take i bs @ q # drop (Suc i) bs" by (simp add: id_take_nth_drop [symmetric])
  have before: "\<forall>r \<in> set (take i bs). f r < f q" and after: "\<forall>r \<in> set (drop (Suc i) bs). f q < f r"
    using bs by (subst (asm) split, simp add: sorted_wrt_append)+
  have q: "f p < f q" using right i by auto
  have keep: "filter (\<lambda>r. f r < f q) (take i bs) = take i bs" "filter (\<lambda>r. f r < f q) (drop (Suc i) bs) = []"
    "filter (\<lambda>r. f r < f q) as = as"
    using before after left q by (auto simp: filter_id_conv filter_empty_conv)
  have "filter (\<lambda>r. f r < f q) xs = as @ p # take i bs"
    by (subst xs, subst split) (simp add: keep q)
  moreover have "List.find C (rev (take i bs)) = None" using i(1,4) by (auto simp: find_None_iff in_set_conv_nth)
  moreover have "List.find C (ys @ zs) = (case List.find C ys of None \<Rightarrow> List.find C zs | Some x \<Rightarrow> Some x)" for ys zs
    by (induction ys) simp_all
  ultimately show ?thesis using assms(3) i by (auto simp: xs)
qed

text \<open>
  The arrows go back the way they came. While picking, an element that can be picked and from which
  the down arrow leads to a sibling is the one the up arrow leads back to.
\<close>

theorem up_undoes_down:
  assumes "live_mode pk = Live_picking" "\<not> busy pk" "hovered pk = Some p" "p \<in> set (kids_of (butlast p) (doc (ed pk)))" "can_pick lay p"
    and "nav_target lay (Arrow_down False) (On p) pk = Some q"
  shows "pick_run [Key lay On_page (Arrow_down False), Key lay On_page (Arrow_up False)] pk = pk\<lparr>highlight := Some p\<rparr>"
proof -
  have p: "p \<noteq> []" using kids_last [OF assms(4)] by simp
  have "List.find (can_pick lay) (filter (\<lambda>q. last p < last q) (kids_of (butlast p) (doc (ed pk)))) = Some q"
    using assms(6) p by (simp add: nav_target_def later_sibs_def Let_def)
  from find_back [OF kids_sorted assms(4,5) this]
  have q: "q \<in> set (kids_of (butlast p) (doc (ed pk)))"
    and behind: "List.find (can_pick lay) (rev (filter (\<lambda>r. last r < last q) (kids_of (butlast p) (doc (ed pk))))) = Some p" by auto
  from kids_last [OF q] have parent: "butlast q = butlast p" "q \<noteq> []" by auto
  have down: "pick_step (Key lay On_page (Arrow_down False)) pk = pk\<lparr>hovered := Some q, highlight := Some q\<rparr>"
    using assms by (simp add: handle_key_def page_key_def nav_spot_def nav_key_def navigate_def show_highlight_def)
  have "nav_target lay (Arrow_up False) (On q) (pk\<lparr>hovered := Some q, highlight := Some q\<rparr>) = Some p"
    using behind parent by (simp add: nav_target_def earlier_sibs_def Let_def)
  then have up: "pick_step (Key lay On_page (Arrow_up False)) (pk\<lparr>hovered := Some q, highlight := Some q\<rparr>) =
      pk\<lparr>hovered := Some p, highlight := Some p\<rparr>"
    using assms by (simp add: handle_key_def page_key_def nav_spot_def nav_key_def navigate_def show_highlight_def)
  have "pk\<lparr>hovered := Some p, highlight := Some p\<rparr> = pk\<lparr>highlight := Some p\<rparr>" using assms(3) by (cases pk) simp
  then show ?thesis by (simp only: pick_run_def run_of_Cons run_of_Nil down up)
qed


section \<open>While an apply runs\<close>

definition frozen_event :: "pick_event \<Rightarrow> bool" where
  "frozen_event ev \<longleftrightarrow>
     (case ev of
        Click _ l _ \<Rightarrow> l \<noteq> Own_dock
      | Key _ f _ \<Rightarrow> (case f of In_row _ \<Rightarrow> False | _ \<Rightarrow> True)
      | Mouse _ _ _ _ \<Rightarrow> True | Pick_toggled \<Rightarrow> True | Insert_toggled \<Rightarrow> True | Palette_toggled \<Rightarrow> True
      | Count_clicked \<Rightarrow> True | Edit_opened _ \<Rightarrow> True | _ \<Rightarrow> False)"

lemma toast_only: "busy_toast pk = pk\<lparr>ed := (ed pk)\<lparr>dock_of := dock_of (ed (busy_toast pk))\<rparr>\<rparr>"
  by (simp add: busy_toast_def with_ed_def tell_def)

definition only_told :: "picker \<Rightarrow> picker \<Rightarrow> bool" where
  "only_told a b \<longleftrightarrow> b = a\<lparr>ed := (ed a)\<lparr>dock_of := dock_of (ed b)\<rparr>, palette_timers := palette_timers b\<rparr>"

lemma only_told_simps [simp]: "only_told pk pk" "only_told pk (busy_toast pk)" "only_told pk (hide_palette pk)"
  "only_told pk (busy_toast (hide_palette pk))"
  by (simp_all add: only_told_def busy_toast_def with_ed_def tell_def hide_palette_def)

text \<open>
  A running apply freezes the overlay. While one runs, no move or click of the mouse outside the
  dock, no key outside a text that is being edited and no button of the bars changes the page, the modes,
  what is hovered, selected or being inserted; at most a toast is shown and the palette closed.
\<close>

theorem apply_freezes_picking:
  assumes "busy pk" "frozen_event ev"
  shows "pick_step ev pk = pk\<lparr>ed := (ed pk)\<lparr>dock_of := dock_of (ed (pick_step ev pk))\<rparr>,
    palette_timers := palette_timers (pick_step ev pk)\<rparr>"
proof -
  have "only_told pk (handle_key lay f k pk)" if "case f of In_row _ \<Rightarrow> False | _ \<Rightarrow> True" for lay f k
    using assms(1) that by (simp add: handle_key_def busy_key_def split: key_focus.splits)
  then have "only_told pk (pick_step ev pk)"
    using assms by (cases ev) (simp_all add: frozen_event_def handle_mouse_move_def handle_click_def toggle_pick_def toggle_insert_def
        toggle_palette_def open_editing_def Let_def)
  then show ?thesis by (simp add: only_told_def)
qed


section \<open>Examples\<close>

definition all_layout :: layout where
  "all_layout = \<lparr>can_pick = (\<lambda>p. p \<noteq> []), box_of = (\<lambda>_. \<lparr>rect_x = 0, rect_y = 0, rect_width = 100, rect_height = 40\<rparr>),
     style_of = (\<lambda>_. \<lparr>st_display = [], st_flex_direction = [], st_columns = [], st_flow = []\<rparr>)\<rparr>"

definition three_cards :: node where
  "three_cards = El (plain_elem ''body'') [El (plain_elem ''p'') [Txt ''one''], Txt '' '', El (plain_elem ''p'') [Txt ''two''],
     El (plain_elem ''p'') [Txt ''three'']]"

definition fresh_picker :: picker where
  "fresh_picker = \<lparr>ed = sample_editor\<lparr>doc := three_cards, picked := None, mode := Live_idle\<rparr>,
     ui = \<lparr>live_state = Live_idle, pick_active = False, insert_active = False, hover = None, shown_line = None, page_cursor = [],
           interaction_revision = 0\<rparr>,
     line_made = False, insert_kind = False, hovered = None, on_holder = False, holder = None, highlight = None,
     palette_open = False, palette_timers = 0, tune_shown = False, bar_open = False, bar_seq = 0, bar_timers = [],
     chosen_action = ''impeccable'', chosen_count = 3, gesture = None, skip_click = False, prefs = Some (empty_storage 200), calls = []\<rparr>"

definition picking :: "pick_event list" where
  "picking = [Pick_toggled, Mouse all_layout 0 0 (Some [0]), Click all_layout (At [0]) False]"

lemma fresh_remembered: "remembered fresh_picker"
proof -
  let ?size = "\<lambda>p i. storage_size (omap_set INTERACTION_PREFS_KEY (print_json (prefs_json p i)) [])"
  have "?size True True \<le> 200" "?size True False \<le> 200" "?size False True \<le> 200" "?size False False \<le> 200" by code_simp+
  then have "?size p i \<le> 200" for p i by (cases p; cases i) simp_all
  then show ?thesis
    by (simp add: remembered_iff one_mode_def room_def fresh_picker_def empty_storage_def)
      (simp add: load_interaction_prefs_def get_item_def truthy_str_def opt_str_def)
qed

lemma modes_survive_reload_witness:
  "load_interaction_prefs (prefs (pick_run (picking @ [Insert_toggled]) fresh_picker)) = (False, True)"
proof -
  have "pick_on (pick_run (picking @ [Insert_toggled]) fresh_picker) = False" "insert_on (pick_run (picking @ [Insert_toggled]) fresh_picker) = True"
    by code_simp+
  then show ?thesis using modes_survive_reload [OF fresh_remembered, of "picking @ [Insert_toggled]"] by simp
qed


definition insert_hovered :: picker where
  "insert_hovered = fresh_picker\<lparr>ed := (ed fresh_picker)\<lparr>mode := Live_picking\<rparr>, line_made := True,
     ui := (ui fresh_picker)\<lparr>insert_active := True, hover := Some ([0], After, Column), page_cursor := ''ns-resize''\<rparr>\<rparr>"

lemma cursor_tells_mode_witness: "page_cursor (ui (pick_run [Pick_toggled] insert_hovered)) = ''crosshair''"
proof -
  have "told insert_hovered" by code_simp
  from cursor_tells_mode [OF this] show ?thesis
    by (simp only:) code_simp
qed

lemma up_undoes_down_witness:
  "let s = pick_run [Pick_toggled, Mouse all_layout 0 0 (Some [0])] fresh_picker
   in hovered (pick_run [Key all_layout On_page (Arrow_down False)] s) = Some [2] \<and>
      hovered (pick_run [Key all_layout On_page (Arrow_down False), Key all_layout On_page (Arrow_up False)] s) = Some [0]"
proof -
  let ?s = "pick_run [Pick_toggled, Mouse all_layout 0 0 (Some [0])] fresh_picker"
  have facts: "live_mode ?s = Live_picking" "\<not> busy ?s" "hovered ?s = Some [0]" "[0] \<in> set (kids_of (butlast [0]) (doc (ed ?s)))"
    "can_pick all_layout [0]" "nav_target all_layout (Arrow_down False) (On [0]) ?s = Some [2]"
    "hovered (pick_run [Key all_layout On_page (Arrow_down False)] ?s) = Some [2]" by code_simp+
  then show ?thesis using up_undoes_down [of ?s "[0]" all_layout "[2]"] by (simp add: Let_def)
qed

lemma apply_freezes_picking_witness:
  "let s = fresh_picker\<lparr>ed := (ed fresh_picker)\<lparr>dock_of := sample_dock\<rparr>\<rparr> in live_mode (pick_step Pick_toggled s) = Live_idle \<and>
     toasts (dock_of (ed (pick_step Pick_toggled s))) = [BUSY_TOAST]"
proof -
  let ?s = "fresh_picker\<lparr>ed := (ed fresh_picker)\<lparr>dock_of := sample_dock\<rparr>\<rparr>"
  have "busy ?s" "frozen_event Pick_toggled" "live_mode ?s = Live_idle" by code_simp+
  from arg_cong [OF apply_freezes_picking [OF this(1,2)], of "\<lambda>pk. mode (ed pk)"] this(3)
  have "live_mode (pick_step Pick_toggled ?s) = Live_idle" by simp
  moreover have "toasts (dock_of (ed (pick_step Pick_toggled ?s))) = [BUSY_TOAST]" by code_simp
  ultimately show ?thesis by (simp add: Let_def)
qed

section \<open>What goes wrong\<close>

text \<open>
  Hiding the palette leaves a timer that does not look whether it was opened again: opened a second time,
  it is closed by the timer of the first. The bar numbers its timers, and stays.
\<close>

lemma old_timer_closes_palette:
  "palette_open (pick_run [Palette_toggled, Palette_toggled, Palette_toggled, Palette_timer, Palette_toggled] fresh_picker) \<and>
   \<not> palette_open (pick_run [Palette_toggled, Palette_toggled, Palette_toggled, Palette_timer, Palette_toggled, Palette_timer] fresh_picker)"
  by code_simp

text \<open>
  The pick button while a text is edited: the editor is torn down and nothing is selected, but the state stays
  editing, and picking, when it is turned on again, does nothing.
\<close>

lemma toggle_while_editing_stuck:
  "let s = pick_run (picking @ [Edit_opened (\<lambda>_. ''normal''), Pick_toggled, Pick_toggled]) fresh_picker
   in live_mode s = Live_editing \<and> selected s = None \<and> rows (ed s) = [] \<and> pick_on s \<and>
      hovered (pick_run [Mouse all_layout 0 0 (Some [2])] s) = None"
  by code_simp

text \<open>Turning insertion off while one is configured removes the placeholder and leaves its bar.\<close>

lemma insert_off_leaves_bar:
  "let s = pick_run [Click all_layout (At [0]) False, Insert_toggled] insert_hovered
   in live_mode s = Live_configuring \<and> selected s = Some Holder \<and> holder s = None \<and> bar_open s \<and> bar_timers s = []"
  by code_simp

text \<open>Insertion turned on keeps what was hovered while picking: Enter configures that element.\<close>

lemma stale_hover_configured:
  "let s = pick_run [Pick_toggled, Mouse all_layout 0 0 (Some [0]), Insert_toggled, Key all_layout On_page Enter_key] fresh_picker
   in live_mode s = Live_configuring \<and> insert_on s \<and> selected s = Some (On [0]) \<and> \<not> insert_kind s"
  by code_simp

text \<open>A save answered after the editor was left brings the configuration back, here during a generation.\<close>

lemma late_save_reopens:
  "mode (save_answered 0 5 (Answer True 200 (Some (JObj [(''pendingCount'', JNum 1)])))
     (sample_editor\<lparr>mode := Live_generating, saves := [\<lparr>sv_ops = [], sv_context = [0]\<rparr>]\<rparr>)) = Live_configuring"
  by code_simp


end
