(* ===== verification/LiveDetect.thy ===== *)
theory LiveDetect imports LiveIgnores Runs begin

text \<open>
  The detector of the global bar (\<open>agent/skills/impeccable/scripts/live-browser.js\<close>, lines 9703 to 9707, 9759,
  11561 and 11572 to 11714): switching it on and off, loading its script, the scans it asks for with the
  waivers of \<open>LiveIgnores\<close>, and the messages it answers with. The script itself is not under \<open>src\<close>: its
  messages are events.
\<close>

section \<open>State\<close>

text \<open>A command posted to the window.\<close>

datatype command = Scan string detect_ignores | Remove

record detect =
  detect_active :: bool
  detect_seq :: nat
  active_scan :: "string option"
  pending_scan :: "string option"
  detect_count :: nat
  script_loaded :: bool
  detect_ready :: bool
  scan_waits :: bool
  apply_runs :: bool
  posted :: "command list"
  scripts :: nat
  badge :: "nat option"
  detect_toasts :: "string list"

text \<open>The badge of the global bar.\<close>

definition update_badge :: "detect \<Rightarrow> detect" where
  "update_badge s = s\<lparr>badge := (if detect_active s \<and> detect_count s > 0 then Some (detect_count s) else None)\<rparr>"

definition DETECT_EMPTY_MESSAGE :: string where "DETECT_EMPTY_MESSAGE = ''No detector issues found.''"
definition DETECT_BUSY :: string where "DETECT_BUSY = ''Apply is still running. Wait for it to finish.''"

definition no_ignores :: detect_ignores where
  "no_ignores = \<lparr>disabled_rules = [], disabled_values = [], skip_scan = False\<rparr>"

text \<open>
  What the page offers: whether the resolver is there, whether it throws, the ignores of the project, the
  path of the page.
\<close>

record waivers =
  resolver :: bool
  resolver_throws :: bool
  project_ignores :: "json option"
  page_at :: string

definition scan_ignores :: "waivers \<Rightarrow> detect_ignores" where
  "scan_ignores w =
     (if resolver w \<and> \<not> resolver_throws w then resolve_detect_ignores (project_ignores w) (page_at w) else no_ignores)"

section \<open>Operations\<close>

definition request_detect_scan :: "waivers \<Rightarrow> detect \<Rightarrow> detect" where
  "request_detect_scan w s =
     (let n = detect_seq s + 1; i = show_nat n
      in s\<lparr>detect_seq := n, active_scan := Some i, pending_scan := Some i, posted := posted s @ [Scan i (scan_ignores w)]\<rparr>)"

definition load_detect_script :: "detect \<Rightarrow> detect" where
  "load_detect_script s = (if script_loaded s then s else s\<lparr>script_loaded := True, scripts := scripts s + 1\<rparr>)"

definition toggle_detect :: "waivers \<Rightarrow> detect \<Rightarrow> detect" where
  "toggle_detect w s0 =
     (if apply_runs s0 then s0\<lparr>detect_toasts := detect_toasts s0 @ [DETECT_BUSY]\<rparr>
      else
        let s = update_badge (s0\<lparr>detect_active := \<not> detect_active s0\<rparr>) in
        if detect_active s then
          (if \<not> script_loaded s then load_detect_script (s\<lparr>scan_waits := True\<rparr>)
           else if detect_ready s then request_detect_scan w s
           else s\<lparr>scan_waits := True\<rparr>)
        else update_badge (s\<lparr>posted := posted s @ [Remove], active_scan := None, pending_scan := None, detect_count := 0\<rparr>))"

definition detector_ready :: "waivers \<Rightarrow> detect \<Rightarrow> detect" where
  "detector_ready w s0 =
     (let s = s0\<lparr>detect_ready := True\<rparr>
      in if scan_waits s \<and> detect_active s then request_detect_scan w (s\<lparr>scan_waits := False\<rparr>) else s)"

definition detector_results :: "string \<Rightarrow> nat \<Rightarrow> detect \<Rightarrow> detect" where
  "detector_results i n s0 =
     (if \<not> detect_active s0 then s0
      else if truthy_str (active_scan s0) \<and> active_scan s0 \<noteq> Some i then s0
      else
        let s = s0\<lparr>detect_count := n\<rparr>;
            s1 = (if pending_scan s \<noteq> None \<and> n = 0 then s\<lparr>detect_toasts := detect_toasts s @ [DETECT_EMPTY_MESSAGE]\<rparr> else s)
        in update_badge (s1\<lparr>pending_scan := None\<rparr>))"

section \<open>Runs\<close>

datatype detect_event = Detect_toggled waivers | Detector_ready waivers | Detector_results string nat | Apply_now bool

fun detect_step :: "detect_event \<Rightarrow> detect \<Rightarrow> detect" where
  "detect_step (Detect_toggled w) s = toggle_detect w s"
| "detect_step (Detector_ready w) s = detector_ready w s"
| "detect_step (Detector_results i n) s = detector_results i n s"
| "detect_step (Apply_now b) s = s\<lparr>apply_runs := b\<rparr>"

definition detect_run :: "detect_event list \<Rightarrow> detect \<Rightarrow> detect" where
  "detect_run es s = run_of detect_step es s"

text \<open>The detector says it is ready once its script is there, and posts results only for a scan it was asked for.\<close>

definition answers_scans :: "detect_event \<Rightarrow> detect \<Rightarrow> bool" where
  "answers_scans ev s \<longleftrightarrow> (case ev of Detector_results i _ \<Rightarrow> i \<in> (\<lambda>n. show_nat n) ` {1..detect_seq s}
     | Detector_ready _ \<Rightarrow> script_loaded s | _ \<Rightarrow> True)"

definition fresh_detect :: detect where
  "fresh_detect = \<lparr>detect_active = False, detect_seq = 0, active_scan = None, pending_scan = None, detect_count = 0,
     script_loaded = False, detect_ready = False, scan_waits = False, apply_runs = False, posted = [], scripts = 0, badge = None,
     detect_toasts = []\<rparr>"

section \<open>What is kept\<close>

definition scans_of :: "command list \<Rightarrow> string list" where
  "scans_of cs = concat (map (\<lambda>c. case c of Scan i _ \<Rightarrow> [i] | Remove \<Rightarrow> []) cs)"

lemma scans_append [simp]: "scans_of (cs @ ds) = scans_of cs @ scans_of ds" "scans_of [Scan i g] = [i]" "scans_of [Remove] = []" "scans_of [] = []"
  by (simp_all add: scans_of_def)

definition detect_ok :: "detect \<Rightarrow> bool" where
  "detect_ok s \<longleftrightarrow>
     scans_of (posted s) = map (\<lambda>n. show_nat n) [1..<detect_seq s + 1] \<and>
     (detect_active s \<longrightarrow>
        (if detect_ready s then detect_seq s > 0 \<and> active_scan s = Some (show_nat (detect_seq s)) \<and>
             (\<exists>i g. posted s \<noteq> [] \<and> last (posted s) = Scan i g)
         else scan_waits s \<and> script_loaded s \<and> active_scan s = None)) \<and>
     (\<not> detect_active s \<longrightarrow> detect_count s = 0 \<and> active_scan s = None \<and> pending_scan s = None) \<and>
     (\<not> detect_ready s \<longrightarrow> detect_seq s = 0 \<and> detect_count s = 0) \<and> (detect_ready s \<longrightarrow> script_loaded s) \<and>
     badge s = (if detect_active s \<and> detect_count s > 0 then Some (detect_count s) else None)"

lemma fresh_ok: "detect_ok fresh_detect"
  by (simp add: detect_ok_def fresh_detect_def scans_of_def)

lemma show_nat_truthy: "truthy_str (Some (show_nat n))"
  by (simp add: truthy_str_def opt_str_def)

lemma badge_fields [simp]:
  "detect_active (update_badge s) = detect_active s" "detect_seq (update_badge s) = detect_seq s"
  "active_scan (update_badge s) = active_scan s" "pending_scan (update_badge s) = pending_scan s"
  "detect_count (update_badge s) = detect_count s" "script_loaded (update_badge s) = script_loaded s"
  "detect_ready (update_badge s) = detect_ready s" "scan_waits (update_badge s) = scan_waits s" "posted (update_badge s) = posted s"
  "badge (update_badge s) = (if detect_active s \<and> detect_count s > 0 then Some (detect_count s) else None)"
  by (simp_all add: update_badge_def)

lemma detect_step_ok: "detect_ok s \<Longrightarrow> answers_scans ev s \<Longrightarrow> detect_ok (detect_step ev s)"
  by (cases ev) (auto simp: detect_ok_def toggle_detect_def load_detect_script_def request_detect_scan_def detector_ready_def
      detector_results_def answers_scans_def Let_def split: if_splits)

interpretation detecting: stepping detect_step answers_scans detect_ok
  by unfold_locales (rule detect_step_ok)


section \<open>Whose findings the badge counts\<close>

definition since_off :: "command list \<Rightarrow> command list" where
  "since_off cs = takeWhile (\<lambda>c. c \<noteq> Remove) (rev cs)"

lemma since_off_simps [simp]: "since_off (cs @ [Scan i g]) = Scan i g # since_off cs" "since_off (cs @ [Remove]) = []" "since_off [] = []"
  by (simp_all add: since_off_def)

definition counted :: "detect_event list \<Rightarrow> detect \<Rightarrow> bool" where
  "counted es s \<longleftrightarrow>
     (\<forall>i. active_scan s = Some i \<longrightarrow> (\<exists>g. Scan i g \<in> set (since_off (posted s)))) \<and>
     (detect_count s \<noteq> 0 \<longrightarrow>
       (\<exists>i g. Scan i g \<in> set (since_off (posted s)) \<and> Detector_results i (detect_count s) \<in> set es))"

lemma counted_step:
  assumes "counted es s" "detect_ok s" "answers_scans ev s"
  shows "counted (es @ [ev]) (detect_step ev s)"
proof (cases ev)
  case (Detect_toggled w)
  show ?thesis using assms(1,2)
    by (fastforce simp: Detect_toggled counted_def detect_ok_def toggle_detect_def load_detect_script_def request_detect_scan_def Let_def
        split: if_splits)
next
  case (Detector_ready w)
  show ?thesis using assms(1)
    by (fastforce simp: Detector_ready counted_def detector_ready_def request_detect_scan_def Let_def split: if_splits)
next
  case (Detector_results i n)
  then have "i \<in> show_nat ` {1..detect_seq s}" using assms(3) by (simp add: answers_scans_def)
  then have "detect_active s \<Longrightarrow> active_scan s = Some (show_nat (detect_seq s))" using assms(2) by (auto simp: detect_ok_def split: if_splits)
  then show ?thesis using assms(1)
    by (fastforce simp: Detector_results counted_def detector_results_def show_nat_truthy Let_def split: if_splits)
next
  case (Apply_now b)
  then show ?thesis using assms(1) by (fastforce simp: counted_def)
qed

lemma counted_run: "fair_run detect_step answers_scans es fresh_detect \<Longrightarrow> counted es (detect_run es fresh_detect)"
proof (induction es rule: rev_induct)
  case Nil
  show ?case by (simp add: counted_def detect_run_def fresh_detect_def)
next
  case (snoc ev es)
  then have fair: "fair_run detect_step answers_scans es fresh_detect" "answers_scans ev (detect_run es fresh_detect)"
    by (simp_all add: fair_append detect_run_def)
  have "detect_ok (detect_run es fresh_detect)" using detecting.run_keeps [OF fresh_ok fair(1)] by (simp add: detect_run_def)
  with counted_step [OF snoc.IH [OF fair(1)] this fair(2)] show ?case by (simp add: detect_run_def run_of_append)
qed

text \<open>
  C23: The badge counts what a scan of this switching-on found. With a detector that answers only scans it
  was asked for, in whatever order: if the badge shows a number, then detection is on, and the number is
  what the detector answered to a scan that was requested after detection was last switched off; scans have
  different ids, so that no answer to an earlier one is ever shown.
\<close>

theorem badge_counts_current_scan:
  assumes "fair_run detect_step answers_scans es fresh_detect" "badge (detect_run es fresh_detect) = Some n"
  shows "detect_active (detect_run es fresh_detect) \<and> n > 0 \<and> distinct (scans_of (posted (detect_run es fresh_detect))) \<and>
    (\<exists>i g. Scan i g \<in> set (since_off (posted (detect_run es fresh_detect))) \<and> Detector_results i n \<in> set es)"
proof -
  let ?s = "detect_run es fresh_detect"
  have ok: "detect_ok ?s" using detecting.run_keeps [OF fresh_ok assms(1)] by (simp add: detect_run_def)
  then have n: "detect_active ?s" "n > 0" "detect_count ?s = n" using assms(2) by (auto simp: detect_ok_def split: if_splits)
  have "inj show_nat" by (metis injI read_show_nat)
  then have "distinct (scans_of (posted ?s))" using ok by (auto simp: detect_ok_def distinct_map intro: inj_on_subset)
  with n counted_run [OF assms(1)] show ?thesis by (auto simp: counted_def)
qed

text \<open>
  Switched on, the page is scanned. In every such run with detection on, once the script is ready the
  last command posted is a scan, and its answer is awaited under the id of that scan; until then, whenever
  the script becomes ready the scan is posted, with the waivers of the project.
\<close>

theorem switched_on_scans:
  assumes "fair_run detect_step answers_scans es fresh_detect" "detect_active (detect_run es fresh_detect)"
  shows "let s = detect_run es fresh_detect
    in if detect_ready s then \<exists>g. last (posted s) = Scan (show_nat (detect_seq s)) g \<and> active_scan s = Some (show_nat (detect_seq s))
       else script_loaded s \<and> (\<forall>w. last (posted (detector_ready w s)) = Scan (show_nat (detect_seq s + 1)) (scan_ignores w))"
proof -
  let ?s = "detect_run es fresh_detect"
  have ok: "detect_ok ?s" using detecting.run_keeps [OF fresh_ok assms(1)] by (simp add: detect_run_def)
  show ?thesis
  proof (cases "detect_ready ?s")
    case True
    with ok assms(2) obtain i g where last: "posted ?s \<noteq> []" "last (posted ?s) = Scan i g"
      and act: "active_scan ?s = Some (show_nat (detect_seq ?s))" and pos: "detect_seq ?s > 0" by (auto simp: detect_ok_def)
    have "posted ?s = butlast (posted ?s) @ [Scan i g]" using last by (metis append_butlast_last_id)
    then have "last (scans_of (posted ?s)) = i" by (metis last_snoc scans_append(1,2))
    then have "i = show_nat (detect_seq ?s)" using ok pos by (simp add: detect_ok_def last_map)
    with True last act show ?thesis by (simp add: Let_def)
  next
    case False
    with ok assms(2) show ?thesis by (auto simp: detect_ok_def detector_ready_def request_detect_scan_def Let_def)
  qed
qed

section \<open>Examples\<close>

definition plain_waivers :: waivers where
  "plain_waivers = \<lparr>resolver = True, resolver_throws = False, project_ignores = Some sample_ignores, page_at = ''/docs/''\<rparr>"

definition scanned :: "detect_event list" where
  "scanned = [Detect_toggled plain_waivers, Detector_ready plain_waivers, Detect_toggled plain_waivers, Detect_toggled plain_waivers,
     Detector_results ''1'' 7, Detector_results ''2'' 3]"

lemma badge_counts_current_scan_witness:
  "badge (detect_run scanned fresh_detect) = Some 3 \<and> detect_active (detect_run scanned fresh_detect)"
proof -
  have fair: "fair_run detect_step answers_scans scanned fresh_detect" by code_simp
  have "badge (detect_run scanned fresh_detect) = Some 3" by code_simp
  with badge_counts_current_scan [OF fair this] show ?thesis by simp
qed

lemma switched_on_scans_witness:
  "\<exists>g. last (posted (detect_run scanned fresh_detect)) = Scan (show_nat 2) g"
proof -
  have fair: "fair_run detect_step answers_scans scanned fresh_detect" by code_simp
  have facts: "detect_active (detect_run scanned fresh_detect)" "detect_ready (detect_run scanned fresh_detect)"
    "detect_seq (detect_run scanned fresh_detect) = 2" by code_simp+
  from switched_on_scans [OF fair facts(1)] facts(2,3) show ?thesis by (auto simp: Let_def)
qed

section \<open>What goes wrong\<close>

text \<open>
  A script that cannot be loaded counts as loaded: however often detection is switched off and on again,
  it is not asked for a second time, and nothing is scanned.
\<close>

lemma failed_script_never_retried:
  "let s = detect_run (map Detect_toggled ws) fresh_detect in scans_of (posted s) = [] \<and> scripts s \<le> 1 \<and> \<not> detect_ready s"
proof -
  have "scans_of (posted s') = [] \<and> scripts s' \<le> 1 \<and> \<not> detect_ready s' \<and> (scripts s' = 1 \<longrightarrow> script_loaded s')"
    if "s' = detect_run (map Detect_toggled ws) fresh_detect" for s'
    using that
  proof (induction ws arbitrary: s' rule: rev_induct)
    case Nil
    then show ?case by (simp add: detect_run_def fresh_detect_def)
  next
    case (snoc w ws)
    from snoc.IH [OF refl] show ?case
      by (auto simp: snoc.prems detect_run_def run_of_append toggle_detect_def load_detect_script_def update_badge_def Let_def)
  qed
  then show ?thesis by (simp add: Let_def)
qed


end
