(* ===== verification/LivePlace.thy ===== *)
theory LivePlace imports LiveDom Runs begin

text \<open>
  Where things stand on the page, of \<open>live-browser.js\<close>: the lock that holds the scroll position during a session
  (lines 6789 to 6926), the loop that keeps the floating parts at their element (7080 to 7112), and the places of
  the bar, the palette, the panel, the badge and the tooltips. The page is its scroll position, how far it can
  scroll, and where the element of the session stands in the document; lengths are real numbers in pixels.
\<close>

section \<open>The scroll lock\<close>

text \<open>
  \<open>holds_at\<close> is \<open>scrollLockTargetY\<close>, \<open>anchor_top\<close> is \<open>scrollLockAnchorTop\<close>, \<open>frame_due\<close> whether
  \<open>scrollLockRaf\<close> is set, \<open>lock_on\<close> whether the observer and the listeners are attached, \<open>gesture_at\<close> the
  \<open>userGestureAt\<close> of their closure, \<open>kept_y\<close> what \<open>writeScrollY\<close> wrote last. \<open>anchor_at\<close> is the place in the
  document of what \<open>resolveBarAnchor\<close> finds, when it is connected.
\<close>

record scroll_page =
  scroll_y :: real
  scroll_max :: real
  anchor_at :: "real option"
  holds_at :: "real option"
  anchor_top :: "real option"
  frame_due :: bool
  lock_on :: bool
  lock_style :: bool
  gesture_at :: real
  kept_y :: "real option"

definition scroll_to :: "real \<Rightarrow> scroll_page \<Rightarrow> scroll_page" where
  "scroll_to y p = p\<lparr>scroll_y := max 0 (min (scroll_max p) y)\<rparr>"

text \<open>The distance of the element from the top of the view.\<close>

definition resolve_anchor_top :: "scroll_page \<Rightarrow> real option" where
  "resolve_anchor_top p = map_option (\<lambda>a. a - scroll_y p) (anchor_at p)"

definition stop_scroll_lock :: "scroll_page \<Rightarrow> scroll_page" where
  "stop_scroll_lock p = p\<lparr>lock_on := False, frame_due := False, lock_style := False, holds_at := None, anchor_top := None\<rparr>"

definition start_scroll_lock :: "real option \<Rightarrow> real option \<Rightarrow> scroll_page \<Rightarrow> scroll_page" where
  "start_scroll_lock y tp p0 =
     (let p = stop_scroll_lock p0;
          t = (case y of Some v \<Rightarrow> v | None \<Rightarrow> scroll_y p);
          a = (case tp of Some v \<Rightarrow> Some v | None \<Rightarrow> resolve_anchor_top p);
          p1 = p\<lparr>holds_at := Some t, anchor_top := a, lock_style := True, lock_on := True, gesture_at := 0\<rparr>
      in if \<bar>scroll_y p1 - t\<bar> > 1 / 2 then scroll_to t p1 else p1)"

text \<open>The frame after a mutation: by the element, where it is there, and else by the position.\<close>

definition lock_correct :: "scroll_page \<Rightarrow> scroll_page" where
  "lock_correct p0 =
     (let p = p0\<lparr>frame_due := False\<rparr> in
      case holds_at p of
        None \<Rightarrow> p
      | Some t \<Rightarrow>
          let by_position = (if \<bar>scroll_y p - t\<bar> < 1 / 2 then p else scroll_to t p) in
          case (resolve_anchor_top p, anchor_top p) of
            (Some now, Some was) \<Rightarrow>
              if \<bar>now - was\<bar> \<ge> 1 / 2 then
                (let p1 = scroll_to (scroll_y p + (now - was)) p
                 in p1\<lparr>holds_at := Some (scroll_y p1), kept_y := Some (scroll_y p1)\<rparr>)
              else by_position
          | _ \<Rightarrow> by_position)"

definition lock_schedule :: "scroll_page \<Rightarrow> scroll_page" where
  "lock_schedule p = (if lock_on p then p\<lparr>frame_due := True\<rparr> else p)"

definition lock_reanchor :: "scroll_page \<Rightarrow> scroll_page" where
  "lock_reanchor p =
     p\<lparr>frame_due := False, holds_at := Some (scroll_y p), anchor_top := resolve_anchor_top p, kept_y := Some (scroll_y p)\<rparr>"

definition USER_GESTURE_WINDOW_MS :: real where "USER_GESTURE_WINDOW_MS = 250"

text \<open>A wheel, a touch, or a key that scrolls; the page has not moved yet.\<close>

definition mark_gesture :: "real \<Rightarrow> scroll_page \<Rightarrow> scroll_page" where
  "mark_gesture now p = (if lock_on p then lock_reanchor (p\<lparr>gesture_at := now\<rparr>) else p)"

definition SCROLL_KEYS :: "string list" where
  "SCROLL_KEYS = [''PageDown'', ''PageUp'', '' '', ''End'', ''Home'', ''ArrowDown'', ''ArrowUp'']"

definition lock_key :: "real \<Rightarrow> string \<Rightarrow> scroll_page \<Rightarrow> scroll_page" where
  "lock_key now k p = (if k \<in> set SCROLL_KEYS then mark_gesture now p else p)"

definition on_scroll :: "real \<Rightarrow> scroll_page \<Rightarrow> scroll_page" where
  "on_scroll now p =
     (if \<not> lock_on p then p
      else case holds_at p of
          None \<Rightarrow> p
        | Some t \<Rightarrow>
            if now - gesture_at p < USER_GESTURE_WINDOW_MS \<or> \<bar>scroll_y p - t\<bar> < 1 / 2 then p else scroll_to t p)"

text \<open>
  What happens to the page: the session starts and stops the lock, the wrapper is patched, a frame comes, the user
  makes a gesture, anything moves the page, the browser reports a scroll, the layout changes.
\<close>

datatype scroll_event =
    Lock_starts "real option" "real option" | Lock_stops | Wrapper_changes | Frame_comes
  | Wheel_or_touch real | Key_pressed real string | Page_moves real | Scroll_told real | Layout_changes real "real option"

fun scroll_step :: "scroll_event \<Rightarrow> scroll_page \<Rightarrow> scroll_page" where
  "scroll_step (Lock_starts y t) p = start_scroll_lock y t p"
| "scroll_step Lock_stops p = stop_scroll_lock p"
| "scroll_step Wrapper_changes p = lock_schedule p"
| "scroll_step Frame_comes p = (if frame_due p then lock_correct p else p)"
| "scroll_step (Wheel_or_touch now) p = mark_gesture now p"
| "scroll_step (Key_pressed now k) p = lock_key now k p"
| "scroll_step (Page_moves y) p = scroll_to y p"
| "scroll_step (Scroll_told now) p = on_scroll now p"
| "scroll_step (Layout_changes m a) p = p\<lparr>scroll_max := m, anchor_at := a, scroll_y := max 0 (min m (scroll_y p))\<rparr>"

section \<open>The loop that follows the element\<close>

text \<open>\<open>asked\<close> are the frames that were asked for and neither came nor were cancelled; \<open>scroll_raf\<close> is the last one.\<close>

record tracking =
  asked :: "nat list"
  scroll_raf :: "nat option"
  next_frame :: nat

definition ask_frame :: "tracking \<Rightarrow> tracking" where
  "ask_frame t = t\<lparr>asked := asked t @ [next_frame t], scroll_raf := Some (next_frame t), next_frame := next_frame t + 1\<rparr>"

definition start_scroll_tracking :: "tracking \<Rightarrow> tracking" where
  "start_scroll_tracking t = ask_frame t"

definition track_frame :: "nat \<Rightarrow> tracking \<Rightarrow> tracking" where
  "track_frame i t = (if i \<in> set (asked t) then ask_frame (t\<lparr>asked := filter (\<lambda>j. j \<noteq> i) (asked t)\<rparr>) else t)"

definition stop_scroll_tracking :: "tracking \<Rightarrow> tracking" where
  "stop_scroll_tracking t =
     (case scroll_raf t of
        None \<Rightarrow> t
      | Some i \<Rightarrow> t\<lparr>asked := filter (\<lambda>j. j \<noteq> i) (asked t), scroll_raf := None\<rparr>)"

section \<open>Places of the floating parts\<close>

record view =
  view_width :: real
  view_height :: real

definition BAR_GAP :: real where "BAR_GAP = 8"
definition GLOBAL_BAR_RESERVE :: real where "GLOBAL_BAR_RESERVE = 64"

text \<open>The bar while the session waits for its element; \<open>g\<close> is the rectangle of the global bar.\<close>

definition bar_place_waiting :: "view \<Rightarrow> rect option \<Rightarrow> real \<Rightarrow> real \<Rightarrow> real \<times> real" where
  "bar_place_waiting v g h w =
     (let reserve = (case g of
            Some r \<Rightarrow> if rect_height r > 0 then max GLOBAL_BAR_RESERVE (view_height v - rect_y r + 12) else GLOBAL_BAR_RESERVE
          | None \<Rightarrow> GLOBAL_BAR_RESERVE)
      in (view_height v - h - reserve, max BAR_GAP ((view_width v - w) / 2)))"

definition bar_place :: "view \<Rightarrow> rect \<Rightarrow> real \<Rightarrow> real \<Rightarrow> real \<times> real" where
  "bar_place v r h w =
     (let below = rect_bottom r + BAR_GAP; above = rect_y r - h - BAR_GAP;
          tp = (if below + h + BAR_GAP \<le> view_height v - GLOBAL_BAR_RESERVE then below
                 else if above \<ge> BAR_GAP then above else view_height v - h - GLOBAL_BAR_RESERVE);
          left0 = rect_x r + (rect_width r - w) / 2;
          left1 = (if left0 < BAR_GAP then BAR_GAP else left0);
          left = (if left1 + w > view_width v - BAR_GAP then view_width v - w - BAR_GAP else left1)
      in (tp, left))"

definition palette_place :: "view \<Rightarrow> rect \<Rightarrow> real \<Rightarrow> real \<times> real" where
  "palette_place v bar w =
     (let above = rect_y bar - 170 - 6
      in (if above < 8 then rect_bottom bar + 6 else above, max 8 (min (rect_right bar - w) (view_width v - w - 8))))"

definition tip_place :: "view \<Rightarrow> rect \<Rightarrow> real \<Rightarrow> real \<Rightarrow> real \<times> real" where
  "tip_place v r w h =
     (max 8 (rect_y r - h - 8), max 8 (min (view_width v - w - 8) (rect_x r + rect_width r / 2 - w / 2)))"

definition badge_place :: "view \<Rightarrow> rect \<Rightarrow> real \<Rightarrow> real \<times> real" where
  "badge_place v r w = (max 4 (rect_y r - 28), min (view_width v - w - 4) (rect_right r + 2 - w))"

definition outline_place :: "rect \<Rightarrow> rect" where
  "outline_place r =
     \<lparr>rect_x = rect_x r - 2, rect_y = rect_y r - 2, rect_width = rect_width r + 4, rect_height = rect_height r + 4\<rparr>"

definition tag_place :: "rect \<Rightarrow> real \<times> real" where
  "tag_place r = (let t = rect_y r - 20 in (if t < 4 then rect_bottom r + 4 else t, max 4 (rect_x r)))"

definition TUNE_OVERLAP :: real where "TUNE_OVERLAP = 6"

definition popover_below :: "rect option \<Rightarrow> rect option \<Rightarrow> bool" where
  "popover_below bar picked =
     (case (bar, picked) of (Some b, Some e) \<Rightarrow> rect_y b \<ge> rect_bottom e - 4 | _ \<Rightarrow> True)"

text \<open>The panel of the parameters: \<open>below\<close> is its direction, \<open>h\<close> its height or 80.\<close>

definition params_place :: "bool \<Rightarrow> rect \<Rightarrow> real \<Rightarrow> rect" where
  "params_place below bar h =
     \<lparr>rect_x = rect_x bar, rect_y = (if below then rect_bottom bar - TUNE_OVERLAP else rect_y bar - h + TUNE_OVERLAP),
      rect_width = rect_width bar, rect_height = h\<rparr>"

section \<open>Lemmas\<close>

definition clamp :: "scroll_page \<Rightarrow> real \<Rightarrow> real" where
  "clamp p y = max 0 (min (scroll_max p) y)"

text \<open>What a correction does to the position, given where the element wants the page and where the lock does.\<close>

lemma lock_correct_cases:
  "lock_correct p = p\<lparr>frame_due := False\<rparr> \<or>
   (\<exists>a w. anchor_at p = Some a \<and> anchor_top p = Some w \<and> \<bar>a - scroll_y p - w\<bar> \<ge> 1 / 2 \<and>
      lock_correct p = p\<lparr>frame_due := False, scroll_y := clamp p (a - w), holds_at := Some (clamp p (a - w)),
        kept_y := Some (clamp p (a - w))\<rparr>) \<or>
   (\<exists>t. holds_at p = Some t \<and> \<bar>scroll_y p - t\<bar> \<ge> 1 / 2 \<and> lock_correct p = p\<lparr>frame_due := False, scroll_y := clamp p t\<rparr>)"
  by (auto simp: lock_correct_def resolve_anchor_top_def scroll_to_def clamp_def Let_def algebra_simps split: option.splits)

lemma correct_unlocked: "holds_at p = None \<Longrightarrow> lock_correct p = p\<lparr>frame_due := False\<rparr>"
  by (simp add: lock_correct_def)

lemma correct_anchor:
  "holds_at p \<noteq> None \<Longrightarrow> anchor_at p = Some a \<Longrightarrow> anchor_top p = Some w \<Longrightarrow> \<bar>a - scroll_y p - w\<bar> \<ge> 1 / 2 \<Longrightarrow>
   lock_correct p = p\<lparr>frame_due := False, scroll_y := clamp p (a - w), holds_at := Some (clamp p (a - w)),
     kept_y := Some (clamp p (a - w))\<rparr>"
  by (auto simp: lock_correct_def resolve_anchor_top_def scroll_to_def clamp_def Let_def algebra_simps)

lemma correct_position:
  "holds_at p = Some t \<Longrightarrow>
   \<not> (\<exists>a w. anchor_at p = Some a \<and> anchor_top p = Some w \<and> \<bar>a - scroll_y p - w\<bar> \<ge> 1 / 2) \<Longrightarrow>
   lock_correct p = p\<lparr>frame_due := False, scroll_y := (if \<bar>scroll_y p - t\<bar> < 1 / 2 then scroll_y p else clamp p t)\<rparr>"
  by (auto simp: lock_correct_def resolve_anchor_top_def scroll_to_def clamp_def Let_def split: option.splits)

text \<open>A page corrected by its element, or one that neither rule moves any more, is settled.\<close>

lemma settled_after_anchor:
  assumes "holds_at p \<noteq> None" "anchor_at p = Some a" "anchor_top p = Some w" "\<bar>a - scroll_y p - w\<bar> \<ge> 1 / 2"
  shows "lock_correct (lock_correct p) = lock_correct p"
proof -
  let ?c = "clamp p (a - w)" and ?q = "lock_correct p"
  have q: "?q = p\<lparr>frame_due := False, scroll_y := ?c, holds_at := Some ?c, kept_y := Some ?c\<rparr>"
    using assms by (rule correct_anchor)
  show ?thesis
  proof (cases "\<bar>a - ?c - w\<bar> \<ge> 1 / 2")
    case True
    have "clamp ?q (a - w) = ?c" by (simp add: q clamp_def)
    with correct_anchor [of ?q a w] True assms(2,3) show ?thesis by (simp add: q)
  next
    case False
    with correct_position [of ?q ?c] assms(2,3) show ?thesis by (simp add: q)
  qed
qed

lemma lock_silent_step:
  "\<not> lock_on p \<Longrightarrow> \<not> frame_due p \<Longrightarrow> (case e of Lock_starts y t \<Rightarrow> False | _ \<Rightarrow> True) \<Longrightarrow>
   \<not> lock_on (scroll_step e p) \<and> \<not> frame_due (scroll_step e p)"
  by (cases e) (auto simp: stop_scroll_lock_def lock_schedule_def mark_gesture_def lock_key_def scroll_to_def on_scroll_def)

text \<open>What moves the page without the lock.\<close>

definition own_move :: "scroll_event \<Rightarrow> bool" where
  "own_move e = (case e of Page_moves y \<Rightarrow> True | Layout_changes m a \<Rightarrow> True | _ \<Rightarrow> False)"

definition place_of :: "scroll_page \<Rightarrow> real \<times> real" where "place_of p = (scroll_y p, scroll_max p)"

lemma own_move_place: "own_move e \<Longrightarrow> place_of p = place_of q \<Longrightarrow> place_of (scroll_step e p) = place_of (scroll_step e q)"
  by (cases e) (auto simp: own_move_def place_of_def scroll_to_def)

lemma other_move_place:
  "\<not> own_move e \<Longrightarrow> \<not> lock_on p \<Longrightarrow> \<not> frame_due p \<Longrightarrow> (case e of Lock_starts y t \<Rightarrow> False | _ \<Rightarrow> True) \<Longrightarrow>
   place_of (scroll_step e p) = place_of p"
  by (cases e)
    (auto simp: own_move_def place_of_def stop_scroll_lock_def lock_schedule_def mark_gesture_def lock_key_def on_scroll_def)

definition no_start :: "scroll_event \<Rightarrow> bool" where
  "no_start e = (case e of Lock_starts y t \<Rightarrow> False | _ \<Rightarrow> True)"

lemma lock_silent_run:
  "\<not> lock_on p \<Longrightarrow> \<not> frame_due p \<Longrightarrow> list_all no_start es \<Longrightarrow> place_of p = place_of q \<Longrightarrow>
   place_of (run_of scroll_step es p) = place_of (run_of scroll_step (filter own_move es) q)"
proof (induction es arbitrary: p q)
  case (Cons e es)
  have n: "case e of Lock_starts y t \<Rightarrow> False | _ \<Rightarrow> True" using Cons.prems(3) by (simp add: no_start_def)
  have s: "\<not> lock_on (scroll_step e p)" "\<not> frame_due (scroll_step e p)"
    using lock_silent_step [OF Cons.prems(1,2) n] by simp_all
  show ?case
  proof (cases "own_move e")
    case True
    with Cons.IH [OF s] Cons.prems own_move_place [of e p q] show ?thesis by simp
  next
    case False
    with Cons.IH [OF s] Cons.prems other_move_place [OF False Cons.prems(1,2) n] show ?thesis by simp
  qed
qed simp

section \<open>Properties\<close>

text \<open>
  C33: The lock comes to rest: however far the page and its element have moved, two frames put the page where it
  then stays; a third correction changes nothing.
\<close>

theorem lock_settles_in_two_frames:
  "lock_correct (lock_correct (lock_correct p)) = lock_correct (lock_correct p)"
proof (cases "holds_at p")
  case None
  then show ?thesis by (simp add: correct_unlocked)
next
  case (Some t)
  let ?off = "\<lambda>q. \<exists>a w. anchor_at q = Some a \<and> anchor_top q = Some w \<and> \<bar>a - scroll_y q - w\<bar> \<ge> 1 / 2"
  show ?thesis
  proof (cases "?off p")
    case True
    with Some settled_after_anchor [of p] show ?thesis by auto
  next
    case False
    let ?y = "if \<bar>scroll_y p - t\<bar> < 1 / 2 then scroll_y p else clamp p t"
    have q: "lock_correct p = p\<lparr>frame_due := False, scroll_y := ?y\<rparr>" by (rule correct_position [OF Some False])
    show ?thesis
    proof (cases "?off (lock_correct p)")
      case True
      with Some settled_after_anchor [of "lock_correct p"] show ?thesis by (auto simp: q)
    next
      case stays: False
      have "clamp (lock_correct p) t = clamp p t" by (simp add: q clamp_def)
      then have "lock_correct (lock_correct p) = lock_correct p"
        using correct_position [OF _ stays, of t] Some by (simp add: q) (auto simp: clamp_def)
      then show ?thesis by simp
    qed
  qed
qed

text \<open>
  A lock that was stopped is silent: until it is started again the page is where the page's own moves and
  changes of its layout put it, whatever mutations, frames, gestures, keys and scrolls come; no frame that was
  asked for before moves it.
\<close>

theorem stopped_lock_is_silent:
  assumes "list_all no_start es"
  shows "scroll_y (run_of scroll_step es (stop_scroll_lock p)) = scroll_y (run_of scroll_step (filter own_move es) p)"
proof -
  have "place_of (run_of scroll_step es (stop_scroll_lock p)) = place_of (run_of scroll_step (filter own_move es) p)"
    using assms by (intro lock_silent_run) (simp_all add: stop_scroll_lock_def place_of_def)
  then show ?thesis by (simp add: place_of_def)
qed

definition scrolled_page :: scroll_page where
  "scrolled_page = \<lparr>scroll_y = 100, scroll_max = 2000, anchor_at = Some 300, holds_at = None, anchor_top = None,
     frame_due = False, lock_on = False, lock_style = False, gesture_at = 0, kept_y = None\<rparr>"

lemma stopped_lock_is_silent_witness:
  "scroll_y (run_of scroll_step [Wrapper_changes, Page_moves 700, Scroll_told 9000, Frame_comes]
     (stop_scroll_lock (start_scroll_lock None None scrolled_page))) = 700"
  using stopped_lock_is_silent [of "[Wrapper_changes, Page_moves 700, Scroll_told 9000, Frame_comes]"
      "start_scroll_lock None None scrolled_page"]
  by (simp add: no_start_def own_move_def start_scroll_lock_def stop_scroll_lock_def scrolled_page_def scroll_to_def Let_def)

text \<open>
  The bar stays in the view of the element: where it fits beside the global bar, and the element is not
  scrolled out of the view, it is between the edges of the window, never under the top, and clear of its bottom.
\<close>

theorem bar_in_view:
  assumes "w + 2 * BAR_GAP \<le> view_width v" "h + BAR_GAP + GLOBAL_BAR_RESERVE \<le> view_height v"
    "0 \<le> rect_bottom r" "rect_y r \<le> view_height v"
  shows "case bar_place v r h w of (tp, left) \<Rightarrow>
    BAR_GAP \<le> left \<and> left + w \<le> view_width v - BAR_GAP \<and> BAR_GAP \<le> tp \<and> tp + h \<le> view_height v - BAR_GAP"
  using assms by (auto simp: bar_place_def BAR_GAP_def GLOBAL_BAR_RESERVE_def Let_def)

lemma bar_in_view_witness:
  "case bar_place \<lparr>view_width = 1000, view_height = 700\<rparr> \<lparr>rect_x = 900, rect_y = 40, rect_width = 90, rect_height = 30\<rparr> 44 380 of
     (tp, left) \<Rightarrow> left + 380 \<le> 1000 - BAR_GAP"
  using bar_in_view [of 380 "\<lparr>view_width = 1000, view_height = 700\<rparr>" 44
      "\<lparr>rect_x = 900, rect_y = 40, rect_width = 90, rect_height = 30\<rparr>"]
  by (simp add: BAR_GAP_def GLOBAL_BAR_RESERVE_def rect_bottom_def split: prod.splits)

text \<open>The last key that scrolls is taken back by the next patch: the lock takes its place before the page moves.\<close>

lemma key_scroll_taken_back:
  "scroll_y (run_of scroll_step
     [Lock_starts None None, Key_pressed 1000 ''PageDown'', Page_moves 700, Scroll_told 1010, Wrapper_changes, Frame_comes]
     scrolled_page) = 100"
  by (simp add: start_scroll_lock_def stop_scroll_lock_def scrolled_page_def scroll_to_def lock_key_def SCROLL_KEYS_def
      mark_gesture_def lock_reanchor_def resolve_anchor_top_def on_scroll_def USER_GESTURE_WINDOW_MS_def lock_schedule_def
      lock_correct_def Let_def)

text \<open>Dragging the scroll bar is no gesture: the page snaps back.\<close>

lemma scroll_bar_snaps_back:
  "scroll_y (run_of scroll_step [Lock_starts None None, Page_moves 700, Scroll_told 1000] scrolled_page) = 100"
  by (simp add: start_scroll_lock_def stop_scroll_lock_def scrolled_page_def scroll_to_def on_scroll_def
      USER_GESTURE_WINDOW_MS_def resolve_anchor_top_def Let_def)

text \<open>Every start adds a loop, and stopping ends one of them.\<close>

lemma tracking_loops_left:
  "let t = stop_scroll_tracking (start_scroll_tracking (start_scroll_tracking \<lparr>asked = [], scroll_raf = None, next_frame = 0\<rparr>))
   in asked t = [0] \<and> asked (track_frame 0 t) = [2]"
  by (simp add: stop_scroll_tracking_def start_scroll_tracking_def ask_frame_def track_frame_def Let_def)

end
