(* ===== verification/LiveProps.thy ===== *)
theory LiveProps imports LivePage begin

text \<open>
  What a previewed Svelte component is given for its properties, of \<open>live-browser.js\<close>: the blocks that are taken
  out of the source markup (lines 5549 to 5600), the values of its expressions read off the page (6471 to 6546),
  and the values of a contract of properties (5435 to 5542, 5602 to 5617). The markup the browser parses is a
  tree of \<open>LivePage\<close>; attributes of the page's elements are an input.
\<close>

section \<open>Blocks in the markup\<close>

text \<open>What follows the closing brace of \<open>d\<close> open ones.\<close>

fun after_braces :: "nat \<Rightarrow> string \<Rightarrow> string option" where
  "after_braces d [] = None"
| "after_braces d (c # s) =
     (if c = CHR ''{'' then after_braces (d + 1) s
      else if c = CHR ''}'' then (if d = 1 then Some s else after_braces (d - 1) s)
      else after_braces d s)"

lemma after_braces_shorter: "after_braces d s = Some r \<Longrightarrow> length r < length s"
  by (induction d s rule: after_braces.induct) (fastforce split: if_splits)+

lemma cut_at_shorter: "cut_at p s = Some (a, b) \<Longrightarrow> length a + length p + length b = length s"
  using cut_at_split [of p s a b] by simp

function strip_key_openings :: "string \<Rightarrow> string" where
  "strip_key_openings s =
     (case cut_at ''{#key'' s of
        None \<Rightarrow> s
      | Some (a, r) \<Rightarrow> (case after_braces 1 r of None \<Rightarrow> s | Some r' \<Rightarrow> strip_key_openings (a @ r')))"
  by pat_completeness auto
termination
  by (relation "measure length") (auto dest!: cut_at_shorter after_braces_shorter)

declare strip_key_openings.simps [simp del]

function remove_mark :: "string \<Rightarrow> string \<Rightarrow> string" where
  "remove_mark m s =
     (if m = [] then s else case cut_at m s of None \<Rightarrow> s | Some (a, r) \<Rightarrow> a @ remove_mark m r)"
  by pat_completeness auto
termination
proof (relation "measure (\<lambda>(m, s). length s)")
  fix m s and q :: "string \<times> string" and a r
  assume "m \<noteq> []" "cut_at m s = Some q" "(a, r) = q"
  then show "((m, r), m, s) \<in> measure (\<lambda>(m, s). length s)"
    using cut_at_shorter [of m s a r] by (cases m) auto
qed simp

declare remove_mark.simps [simp del]

definition strip_svelte_key_delimiters :: "string \<Rightarrow> string" where
  "strip_svelte_key_delimiters s = remove_mark ''{/key}'' (strip_key_openings s)"

definition block_open :: "string \<Rightarrow> string" where "block_open k = ''{#'' @ k"
definition block_close :: "string \<Rightarrow> string" where "block_close k = ''{/'' @ k @ ''}''"

text \<open>What follows the region of \<open>d\<close> open blocks of one kind.\<close>

function after_region :: "string \<Rightarrow> nat \<Rightarrow> string \<Rightarrow> string option" where
  "after_region k d [] = None"
| "after_region k d (c # s) =
     (if starts_with (block_open k) (c # s) then after_region k (d + 1) (drop (length (block_open k)) (c # s))
      else if starts_with (block_close k) (c # s) then
        (let r = drop (length (block_close k)) (c # s) in if d = 1 then Some r else after_region k (d - 1) r)
      else after_region k d s)"
  by pat_completeness auto
termination
  by (relation "measure (\<lambda>(k, d, s). length s)") (auto simp: block_open_def block_close_def)

lemma after_region_shorter: "after_region k d s = Some r \<Longrightarrow> length r < length s"
proof (induction k d s rule: after_region.induct)
  case (2 k d c s)
  have "length (drop (length (block_open k)) (c # s)) < length (c # s)"
    "length (drop (length (block_close k)) (c # s)) < length (c # s)"
    by (simp_all add: block_open_def block_close_def)
  with 2 show ?case
    by (auto simp: Let_def simp del: drop_Suc_Cons length_drop split: if_splits intro: less_trans)
qed simp

function strip_blocks :: "string \<Rightarrow> string \<Rightarrow> string" where
  "strip_blocks k s =
     (case cut_at (block_open k) s of
        None \<Rightarrow> s
      | Some (a, r) \<Rightarrow> (case after_region k 1 r of None \<Rightarrow> s | Some r' \<Rightarrow> strip_blocks k (a @ r')))"
  by pat_completeness auto
termination
  by (relation "measure (\<lambda>(k, s). length s)") (auto dest!: cut_at_shorter after_region_shorter)

declare strip_blocks.simps [simp del]

definition strip_svelte_block_regions :: "string \<Rightarrow> string" where
  "strip_svelte_block_regions s = strip_blocks ''if'' (strip_blocks ''each'' (strip_svelte_key_delimiters s))"

section \<open>Expressions and the texts they rendered\<close>

definition brace_free :: "string \<Rightarrow> bool" where
  "brace_free s \<longleftrightarrow> CHR ''{'' \<notin> set s \<and> CHR ''}'' \<notin> set s"

text \<open>An expression at the front of a text, and what follows it.\<close>

definition expr_at :: "string \<Rightarrow> (string \<times> string) option" where
  "expr_at s =
     (case s of
        [] \<Rightarrow> None
      | c # r \<Rightarrow>
          let e = takeWhile (\<lambda>x. x \<noteq> CHR ''{'' \<and> x \<noteq> CHR ''}'') r
          in if c = CHR ''{'' \<and> e \<noteq> [] \<and> starts_with ''}'' (drop (length e) r)
             then Some (''{'' @ e @ ''}'', drop (length e + 1) r) else None)"

lemma expr_at_shorter: "expr_at s = Some (t, r) \<Longrightarrow> length r < length s"
  by (cases s) (auto simp: expr_at_def Let_def split: if_splits)

function expr_tokens :: "string \<Rightarrow> string list" where
  "expr_tokens [] = []"
| "expr_tokens (c # s) = (case expr_at (c # s) of Some (t, r) \<Rightarrow> t # expr_tokens r | None \<Rightarrow> expr_tokens s)"
  by pat_completeness auto
termination
  by (relation "measure length") (auto dest: expr_at_shorter)

fun squeeze :: "string \<Rightarrow> string" where
  "squeeze [] = []"
| "squeeze (c # s) =
     (if \<not> white_space c then c # squeeze s
      else (case s of d # _ \<Rightarrow> if white_space d then squeeze s else CHR '' '' # squeeze s | [] \<Rightarrow> [CHR '' '']))"

definition normalize_preview_text :: "string \<Rightarrow> string" where
  "normalize_preview_text s = trim (squeeze s)"

text \<open>The pattern around an expression: a character of the source, or white space of any length.\<close>

datatype piece = Lit char | Space

fun pieces :: "string \<Rightarrow> piece list" where
  "pieces [] = []"
| "pieces (c # s) =
     (if \<not> white_space c then Lit c # pieces s
      else (case s of d # _ \<Rightarrow> if white_space d then pieces s else Space # pieces s | [] \<Rightarrow> [Space]))"

text \<open>What can be left of a text after white space, the longest match first.\<close>

fun space_rests :: "string \<Rightarrow> string list" where
  "space_rests [] = [[]]"
| "space_rests (c # s) = (if white_space c then space_rests s @ [c # s] else [c # s])"

fun rests :: "piece list \<Rightarrow> string \<Rightarrow> string list" where
  "rests [] s = [s]"
| "rests (Lit c # ps) [] = []"
| "rests (Lit c # ps) (d # s) = (if c = d then rests ps s else [])"
| "rests (Space # ps) s = concat (map (rests ps) (space_rests s))"

text \<open>\<open>(.*?)\<close> up to the end: the shortest text before what the last pieces match.\<close>

fun lazy_middle :: "piece list \<Rightarrow> string \<Rightarrow> string option" where
  "lazy_middle ps [] = (if [] \<in> set (rests ps []) then Some [] else None)"
| "lazy_middle ps (c # s) =
     (if [] \<in> set (rests ps (c # s)) then Some [] else map_option ((#) c) (lazy_middle ps s))"

definition expression_match :: "string \<Rightarrow> string \<Rightarrow> string \<Rightarrow> string option" where
  "expression_match source token live =
     (case cut_at token source of
        None \<Rightarrow> None
      | Some (a, b) \<Rightarrow>
          (case List.find (\<lambda>r. lazy_middle (pieces b) r \<noteq> None) (rests (pieces a) live) of
             None \<Rightarrow> None | Some r \<Rightarrow> lazy_middle (pieces b) r))"

definition map_source :: "string \<Rightarrow> string \<Rightarrow> (string, string) omap \<Rightarrow> (string, string) omap" where
  "map_source source live m =
     (let ts = expr_tokens source in
      if live = [] then m
      else case ts of
          [] \<Rightarrow> m
        | [t] \<Rightarrow>
            if normalize_preview_text source = t then omap_set t live m
            else (case expression_match source t live of None \<Rightarrow> m | Some v \<Rightarrow> if v = [] then m else omap_set t (trim v) m)
        | _ \<Rightarrow>
            if normalize_preview_text source = join_with '' '' ts then foldl (\<lambda>m' t. omap_set t live m') m ts else m)"

fun map_sources :: "string list \<Rightarrow> string list \<Rightarrow> (string, string) omap \<Rightarrow> (string, string) omap" where
  "map_sources [] live m = m"
| "map_sources (s # ss) live m =
     map_sources ss (tl live) (map_source s (case live of [] \<Rightarrow> [] | l # _ \<Rightarrow> l) m)"

fun collect_texts :: "node \<Rightarrow> string list" where
  "collect_texts (Txt s) = [s]"
| "collect_texts Cmt = []"
| "collect_texts (El e cs) = concat (map collect_texts cs)"

definition expression_text_map :: "node \<Rightarrow> node \<Rightarrow> (string, string) omap" where
  "expression_text_map source live =
     map_sources (filter (\<lambda>s. expr_tokens s \<noteq> []) (collect_texts source))
       (filter (\<lambda>s. s \<noteq> []) (map normalize_preview_text (collect_texts live))) []"

section \<open>The values of a contract\<close>

record attr_slot =
  at_key :: string
  at_tag :: string
  at_classes :: "string list"
  at_attr :: string

record item_spec =
  root_tag :: string
  root_classes :: "string list"
  static_texts :: "string list"
  text_slots :: "string list"
  attr_slots :: "attr_slot list"
  key_field :: "string option"

datatype probe = Probe_tag string "string list" | Probe_class string | No_probe

record prop_entry =
  pe_prop :: string
  pe_kind :: string
  pe_expr :: string
  preview_token :: "string option"
  pe_item :: "item_spec option"
  pe_probe :: probe

datatype prop_value = Text_value string | Flag bool | Item_values "(string, string) omap list"

text \<open>The elements below a node, in the order of the document.\<close>

fun els_below :: "node \<Rightarrow> path list" and els_in :: "nat \<Rightarrow> node list \<Rightarrow> path list" where
  "els_below (El e cs) = els_in 0 cs"
| "els_below t = []"
| "els_in i [] = []"
| "els_in i (c # cs) = (if is_el c then [i] # map ((#) i) (els_below c) else []) @ els_in (i + 1) cs"

definition element_has :: "string \<Rightarrow> string list \<Rightarrow> node \<Rightarrow> bool" where
  "element_has tag classes t =
     (case t of El e _ \<Rightarrow> nd_tag e = to_lower tag \<and> set classes \<subseteq> set (nd_classes e) | _ \<Rightarrow> False)"

definition has_at :: "string \<Rightarrow> string list \<Rightarrow> node \<Rightarrow> path \<Rightarrow> bool" where
  "has_at tag classes t0 p = (case node_at p t0 of None \<Rightarrow> False | Some t \<Rightarrow> element_has tag classes t)"

definition select_all :: "string \<Rightarrow> string list \<Rightarrow> node \<Rightarrow> path list" where
  "select_all tag classes t0 = filter (has_at tag classes t0) (els_below t0)"

definition visible_texts :: "node \<Rightarrow> string list" where
  "visible_texts t = filter (\<lambda>s. s \<noteq> []) (map trim (collect_texts t))"

text \<open>Below, \<open>attr p a\<close> is \<open>getAttribute\<close> of the element at \<open>p\<close>.\<close>

definition slot_element :: "attr_slot \<Rightarrow> node \<Rightarrow> path \<Rightarrow> path option" where
  "slot_element sl live p =
     (if has_at (at_tag sl) (at_classes sl) live p then Some p
      else case node_at p live of
          None \<Rightarrow> None
        | Some t \<Rightarrow> (case select_all (at_tag sl) (at_classes sl) t of [] \<Rightarrow> None | q # _ \<Rightarrow> Some (p @ q)))"

definition fill_attr :: "(path \<Rightarrow> string \<Rightarrow> string option) \<Rightarrow> node \<Rightarrow> path \<Rightarrow> attr_slot \<Rightarrow> (string, string) omap \<Rightarrow> (string, string) omap" where
  "fill_attr attr live p sl m =
     (if object_get m (at_key sl) \<noteq> Absent \<or> at_tag sl = [] then m
      else case Option.bind (slot_element sl live p) (\<lambda>q. attr q (at_attr sl)) of
          None \<Rightarrow> m | Some v \<Rightarrow> omap_set (at_key sl) v m)"

definition fill_texts :: "string list \<Rightarrow> string list \<Rightarrow> (string, string) omap" where
  "fill_texts slots texts = foldl (\<lambda>m (i, k). omap_set k (if i < length texts then texts ! i else []) m) [] (enumerate 0 slots)"

definition fill_key :: "string option \<Rightarrow> nat \<Rightarrow> (string, string) omap \<Rightarrow> (string, string) omap" where
  "fill_key k index m =
     (if truthy_str k \<and> object_get m (opt_str k) = Absent
      then omap_set (opt_str k) (''impeccable-live-'' @ show_nat index) m else m)"

definition item_value :: "(path \<Rightarrow> string \<Rightarrow> string option) \<Rightarrow> node \<Rightarrow> item_spec \<Rightarrow> nat \<Rightarrow> path \<Rightarrow> (string, string) omap" where
  "item_value attr live spec index p =
     (let texts = (case node_at p live of None \<Rightarrow> [] | Some t \<Rightarrow> visible_texts t);
          own = filter (\<lambda>s. s \<notin> set (map trim (static_texts spec))) texts
      in fill_key (key_field spec) index
           (foldl (\<lambda>m sl. fill_attr attr live p sl m) (fill_texts (text_slots spec) own) (attr_slots spec)))"

definition item_elements :: "node \<Rightarrow> item_spec \<Rightarrow> path list" where
  "item_elements live spec = select_all (root_tag spec) (root_classes spec) live"

definition item_values :: "(path \<Rightarrow> string \<Rightarrow> string option) \<Rightarrow> node \<Rightarrow> item_spec \<Rightarrow> (string, string) omap list" where
  "item_values attr live spec = map (\<lambda>(i, p). item_value attr live spec i p) (enumerate 0 (item_elements live spec))"

definition probe_value :: "node \<Rightarrow> probe \<Rightarrow> bool option" where
  "probe_value live pr =
     (case pr of
        Probe_tag tag classes \<Rightarrow> Some (select_all tag classes live \<noteq> [])
      | Probe_class c \<Rightarrow> Some (list_ex (\<lambda>p. case node_at p live of Some (El e _) \<Rightarrow> c \<in> set (nd_classes e) | _ \<Rightarrow> False) ([] # els_below live))
      | No_probe \<Rightarrow> None)"

definition collects :: "prop_entry \<Rightarrow> bool" where
  "collects en = (pe_kind en = ''collection'' \<and> (case pe_item en of None \<Rightarrow> False | Some spec \<Rightarrow> root_tag spec \<noteq> []))"

definition structural_value ::
  "(path \<Rightarrow> string \<Rightarrow> string option) \<Rightarrow> node \<Rightarrow> prop_entry \<Rightarrow> (string, prop_value) omap \<Rightarrow> (string, prop_value) omap" where
  "structural_value attr live en vs =
     (if collects en then (case pe_item en of None \<Rightarrow> vs | Some spec \<Rightarrow> omap_set (pe_prop en) (Item_values (item_values attr live spec)) vs)
      else if pe_kind en = ''condition'' then
        (case probe_value live (pe_probe en) of None \<Rightarrow> vs | Some b \<Rightarrow> omap_set (pe_prop en) (Flag b) vs)
      else vs)"

text \<open>A copy of the tree without the elements at some paths.\<close>

fun prune :: "path list \<Rightarrow> path \<Rightarrow> node \<Rightarrow> node" and prune_in :: "path list \<Rightarrow> path \<Rightarrow> nat \<Rightarrow> node list \<Rightarrow> node list" where
  "prune ex p (El e cs) = El e (prune_in ex p 0 cs)"
| "prune ex p t = t"
| "prune_in ex p i [] = []"
| "prune_in ex p i (c # cs) = (if p @ [i] \<in> set ex then [] else [prune ex (p @ [i]) c]) @ prune_in ex p (i + 1) cs"

definition expr_token :: "prop_entry \<Rightarrow> string" where "expr_token en = ''{'' @ pe_expr en @ ''}''"

text \<open>\<open>parse\<close> is \<open>parseOriginalMarkupElement\<close>, the browser's parser.\<close>

definition text_values ::
  "(string \<Rightarrow> node option) \<Rightarrow> string \<Rightarrow> node \<Rightarrow> prop_entry list \<Rightarrow> (string, prop_value) omap \<Rightarrow> (string, prop_value) omap" where
  "text_values parse markup live entries vs =
     (let texts = filter (\<lambda>en. pe_kind en = ''text'' \<or> pe_kind en = ''raw'') entries in
      if texts = [] then vs
      else case parse (strip_svelte_block_regions markup) of
          None \<Rightarrow> vs
        | Some source \<Rightarrow>
            let ex = concat (map snd (foldl (\<lambda>els en. case pe_item en of
                  None \<Rightarrow> els | Some spec \<Rightarrow> if collects en then omap_set (pe_prop en) (item_elements live spec) els else els) [] entries));
                m = expression_text_map source (prune ex [] live)
            in foldl (\<lambda>vs' en. case map_of m (expr_token en) of None \<Rightarrow> vs' | Some v \<Rightarrow> omap_set (pe_prop en) (Text_value v) vs') vs texts)"

definition prop_values_v2 ::
  "(string \<Rightarrow> node option) \<Rightarrow> (path \<Rightarrow> string \<Rightarrow> string option) \<Rightarrow> string \<Rightarrow> prop_entry list \<Rightarrow> node \<Rightarrow> (string, prop_value) omap" where
  "prop_values_v2 parse attr markup entries live =
     text_values parse markup live entries (foldl (\<lambda>vs en. structural_value attr live en vs) [] entries)"

definition prop_values_v1 :: "(string \<Rightarrow> node option) \<Rightarrow> string \<Rightarrow> prop_entry list \<Rightarrow> node \<Rightarrow> (string, prop_value) omap" where
  "prop_values_v1 parse markup entries live =
     (case parse markup of
        None \<Rightarrow> []
      | Some source \<Rightarrow>
          let m = expression_text_map source live
          in foldl (\<lambda>vs en. omap_set (pe_prop en)
               (Text_value (opt_str (map_of m (if truthy_str (preview_token en) then opt_str (preview_token en) else expr_token en)))) vs) [] entries)"

definition prop_values ::
  "bool \<Rightarrow> (string \<Rightarrow> node option) \<Rightarrow> (path \<Rightarrow> string \<Rightarrow> string option) \<Rightarrow> string \<Rightarrow> prop_entry list \<Rightarrow> node option \<Rightarrow>
   (string, prop_value) omap" where
  "prop_values second parse attr markup entries live =
     (case live of
        None \<Rightarrow> []
      | Some t \<Rightarrow>
          if entries = [] then []
          else if second then prop_values_v2 parse attr markup entries t else prop_values_v1 parse markup entries t)"

section \<open>Markup as it is written\<close>

text \<open>
  Text, expressions, blocks that are rendered under a condition or once for each item, and keyed blocks, whose
  content is always rendered.
\<close>

datatype block = Words string | Expr string | Block string string "block list" | Keyed string "block list"

fun show_blocks :: "block list \<Rightarrow> string" where
  "show_blocks [] = []"
| "show_blocks (Words t # bs) = t @ show_blocks bs"
| "show_blocks (Expr e # bs) = ''{'' @ e @ ''}'' @ show_blocks bs"
| "show_blocks (Block k h cs # bs) = block_open k @ h @ ''}'' @ show_blocks cs @ block_close k @ show_blocks bs"
| "show_blocks (Keyed h cs # bs) = ''{#key'' @ h @ ''}'' @ show_blocks cs @ ''{/key}'' @ show_blocks bs"

fun proper :: "block list \<Rightarrow> bool" where
  "proper [] = True"
| "proper (Words t # bs) = (brace_free t \<and> proper bs)"
| "proper (Expr e # bs) = (brace_free e \<and> e \<noteq> [] \<and> hd e \<noteq> CHR ''#'' \<and> hd e \<noteq> CHR ''/'' \<and> proper bs)"
| "proper (Block k h cs # bs) = ((k = ''each'' \<or> k = ''if'') \<and> brace_free h \<and> proper cs \<and> proper bs)"
| "proper (Keyed h cs # bs) = (brace_free h \<and> proper cs \<and> proper bs)"

text \<open>What is rendered whatever the conditions and the collections are.\<close>

fun unconditional :: "block list \<Rightarrow> string" where
  "unconditional [] = []"
| "unconditional (Words t # bs) = t @ unconditional bs"
| "unconditional (Expr e # bs) = ''{'' @ e @ ''}'' @ unconditional bs"
| "unconditional (Block k h cs # bs) = unconditional bs"
| "unconditional (Keyed h cs # bs) = unconditional cs @ unconditional bs"

text \<open>The stages: without key openings, without keys, without the blocks of one kind.\<close>

fun show_closings :: "block list \<Rightarrow> string" where
  "show_closings [] = []"
| "show_closings (Words t # bs) = t @ show_closings bs"
| "show_closings (Expr e # bs) = ''{'' @ e @ ''}'' @ show_closings bs"
| "show_closings (Block k h cs # bs) = block_open k @ h @ ''}'' @ show_closings cs @ block_close k @ show_closings bs"
| "show_closings (Keyed h cs # bs) = show_closings cs @ ''{/key}'' @ show_closings bs"

fun unkeyed :: "block list \<Rightarrow> block list" where
  "unkeyed [] = []"
| "unkeyed (Block k h cs # bs) = Block k h (unkeyed cs) # unkeyed bs"
| "unkeyed (Keyed h cs # bs) = unkeyed cs @ unkeyed bs"
| "unkeyed (b # bs) = b # unkeyed bs"

fun erase :: "string \<Rightarrow> block list \<Rightarrow> block list" where
  "erase k [] = []"
| "erase k (Block k' h cs # bs) = (if k' = k then erase k bs else Block k' h (erase k cs) # erase k bs)"
| "erase k (Keyed h cs # bs) = Keyed h (erase k cs) # erase k bs"
| "erase k (b # bs) = b # erase k bs"

section \<open>Lemmas\<close>

definition lift_cut :: "string \<Rightarrow> (string \<times> string) option \<Rightarrow> (string \<times> string) option" where
  "lift_cut x = map_option (\<lambda>(a, b). (x @ a, b))"

text \<open>A text in which, whatever follows it, a mark does not begin.\<close>

definition quiet :: "string \<Rightarrow> string \<Rightarrow> bool" where
  "quiet m x \<longleftrightarrow> (\<forall>s. cut_at m (x @ s) = lift_cut x (cut_at m s))"

lemma lift_cut_lift: "lift_cut x (lift_cut y c) = lift_cut (x @ y) c"
  by (cases c) (auto simp: lift_cut_def)

lemma quiet_append: "quiet m x \<Longrightarrow> quiet m y \<Longrightarrow> quiet m (x @ y)"
  by (simp add: quiet_def lift_cut_lift)

lemma quiet_block:
  "quiet m a \<Longrightarrow> quiet m (h @ ''}'') \<Longrightarrow> quiet m x \<Longrightarrow> quiet m c \<Longrightarrow> quiet m y \<Longrightarrow> quiet m (a @ h @ ''}'' @ x @ c @ y)"
  using quiet_append [of m a] quiet_append [of m "h @ ''}''"] quiet_append [of m x] quiet_append [of m c y]
  by (metis append.assoc)

lemma quiet_Nil: "quiet m []"
  by (auto simp: quiet_def lift_cut_def map_option_case split: option.split)

lemma quiet_char: "c \<noteq> CHR ''{'' \<Longrightarrow> quiet (CHR ''{'' # m) [c]"
  by (simp add: quiet_def lift_cut_def starts_with_def)

lemma quiet_plain: "CHR ''{'' \<notin> set x \<Longrightarrow> quiet (CHR ''{'' # m) x"
proof (induction x)
  case (Cons c x)
  then show ?case using quiet_append [of "CHR ''{'' # m" "[c]" x] quiet_char [of c m] by auto
qed (rule quiet_Nil)

lemma quiet_brace:
  assumes "\<And>s. \<not> starts_with (CHR ''{'' # m) (CHR ''{'' # x @ s)" "CHR ''{'' \<notin> set x"
  shows "quiet (CHR ''{'' # m) (CHR ''{'' # x)"
proof -
  have "cut_at (CHR ''{'' # m) (CHR ''{'' # x @ s) = lift_cut [CHR ''{''] (cut_at (CHR ''{'' # m) (x @ s))" for s
    using assms(1) [of s] by (simp add: lift_cut_def)
  with quiet_plain [OF assms(2), of m] show ?thesis by (simp add: quiet_def lift_cut_lift)
qed

lemma cut_here: "cut_at (CHR ''{'' # m) (CHR ''{'' # m @ s) = Some ([], s)"
  using starts_with_append [of "CHR ''{'' # m" s] by simp

lemma brace_freeD: "brace_free s \<Longrightarrow> CHR ''{'' \<notin> set s" "brace_free s \<Longrightarrow> CHR ''}'' \<notin> set s"
  by (simp_all add: brace_free_def)

text \<open>The pieces of markup a mark is not in.\<close>

lemma quiet_expr: "brace_free e \<Longrightarrow> e \<noteq> [] \<Longrightarrow> hd e \<noteq> c \<Longrightarrow> quiet (CHR ''{'' # c # m) (''{'' @ e @ ''}'')"
  using quiet_brace [of "c # m" "e @ ''}''"] by (cases e) (auto simp: starts_with_def brace_free_def)

lemma quiet_open:
  "(\<And>s. \<not> starts_with m (k @ s)) \<Longrightarrow> brace_free k \<Longrightarrow> quiet (CHR ''{'' # CHR ''#'' # m) (block_open k)"
  using quiet_brace [of "CHR ''#'' # m" "''#'' @ k"] by (auto simp: starts_with_def brace_free_def block_open_def)

lemma quiet_close: "brace_free k \<Longrightarrow> quiet (CHR ''{'' # CHR ''#'' # m) (block_close k)"
  using quiet_brace [of "CHR ''#'' # m" "''/'' @ k @ ''}''"] by (auto simp: starts_with_def brace_free_def block_close_def)

lemma quiet_header: "brace_free h \<Longrightarrow> quiet (CHR ''{'' # m) (h @ ''}'')"
  by (rule quiet_plain) (auto simp: brace_free_def)


text \<open>Markup without keyed blocks, and without blocks of one kind.\<close>

fun keyless :: "block list \<Rightarrow> bool" where
  "keyless [] = True"
| "keyless (Block k h cs # bs) = (keyless cs \<and> keyless bs)"
| "keyless (Keyed h cs # bs) = False"
| "keyless (b # bs) = keyless bs"

fun kindless :: "string \<Rightarrow> block list \<Rightarrow> bool" where
  "kindless k [] = True"
| "kindless k (Block k' h cs # bs) = (k' \<noteq> k \<and> kindless k cs \<and> kindless k bs)"
| "kindless k (Keyed h cs # bs) = (kindless k cs \<and> kindless k bs)"
| "kindless k (b # bs) = kindless k bs"

lemma quiet_parts:
  "brace_free t \<Longrightarrow> quiet (CHR ''{'' # m) t"
  "brace_free h \<Longrightarrow> quiet (CHR ''{'' # m) (h @ ''}'')"
  by (auto intro: quiet_plain simp: brace_free_def)

lemma block_quiet:
  "k = ''each'' \<or> k = ''if'' \<Longrightarrow> quiet ''{#key'' (block_open k)"
  "k = ''each'' \<or> k = ''if'' \<Longrightarrow> quiet ''{#key'' (block_close k)"
  "k = ''each'' \<or> k = ''if'' \<Longrightarrow> k' = ''each'' \<or> k' = ''if'' \<Longrightarrow> k \<noteq> k' \<Longrightarrow> quiet (block_open k') (block_open k)"
  "k = ''each'' \<or> k = ''if'' \<Longrightarrow> quiet (block_open k') (block_close k)"
  "k = ''each'' \<or> k = ''if'' \<Longrightarrow> quiet (block_open k) ''{#key''"
  "k = ''each'' \<or> k = ''if'' \<Longrightarrow> quiet (block_open k) ''{/key}''"
proof -
  assume k: "k = ''each'' \<or> k = ''if''"
  then have f: "brace_free k" by (auto simp: brace_free_def)
  show "quiet ''{#key'' (block_open k)" using quiet_open [OF _ f, of "''key''"] k by (auto simp: starts_with_def)
  show "quiet ''{#key'' (block_close k)" using quiet_close [OF f, of "''key''"] by simp
  show "quiet (block_open k') (block_close k)" using quiet_close [OF f, of k'] by (simp add: block_open_def)
  show "quiet (block_open k') (block_open k)" if "k' = ''each'' \<or> k' = ''if''" "k \<noteq> k'"
    using quiet_open [OF _ f, of k'] k that by (auto simp: starts_with_def block_open_def)
  show "quiet (block_open k) ''{#key''"
    using quiet_open [of k "''key''"] k by (auto simp: starts_with_def block_open_def brace_free_def)
  show "quiet (block_open k) ''{/key}''"
    using quiet_close [of "''key''" k] by (simp add: block_open_def block_close_def brace_free_def)
qed

lemma quiet_show_key: "proper bs \<Longrightarrow> keyless bs \<Longrightarrow> quiet ''{#key'' (show_blocks bs)"
proof (induction bs rule: show_blocks.induct)
  case (2 t bs)
  then show ?case using quiet_append [OF quiet_parts(1) [of t "''#key''"]] by simp
next
  case (3 e bs)
  then have "quiet ''{#key'' (''{'' @ e @ ''}'')" using quiet_expr [of e "CHR ''#''" "''key''"] by simp
  from quiet_append [OF this] 3 show ?case by simp
next
  case (4 k h cs bs)
  moreover have "quiet ''{#key'' (h @ ''}'')" using 4 quiet_parts(2) [of h "''#key''"] by simp
  ultimately show ?case using quiet_block [of "''{#key''" "block_open k" h] block_quiet(1,2) [of k] by auto
qed (auto simp: quiet_Nil)

lemma quiet_show_kind:
  "k = ''each'' \<or> k = ''if'' \<Longrightarrow> proper bs \<Longrightarrow> kindless k bs \<Longrightarrow> quiet (block_open k) (show_blocks bs)"
proof (induction bs rule: show_blocks.induct)
  case (2 t bs)
  then show ?case using quiet_append [OF quiet_parts(1) [of t "''#'' @ k"]] by (simp add: block_open_def)
next
  case (3 e bs)
  then have "quiet (block_open k) (''{'' @ e @ ''}'')" using quiet_expr [of e "CHR ''#''" k] by (simp add: block_open_def)
  from quiet_append [OF this] 3 show ?case by simp
next
  case (4 k' h cs bs)
  have "quiet (block_open k) (h @ ''}'')" using 4 quiet_parts(2) [of h "''#'' @ k"] by (simp add: block_open_def)
  with 4 show ?case using quiet_block [of "block_open k" "block_open k'" h] block_quiet(3,4) [of k' k] by auto
next
  case (5 h cs bs)
  have "quiet (block_open k) (h @ ''}'')" using 5 quiet_parts(2) [of h "''#'' @ k"] by (simp add: block_open_def)
  with 5 show ?case using quiet_block [of "block_open k" "''{#key''" h _ "''{/key}''"] block_quiet(5,6) [of k] by simp
qed (simp add: quiet_Nil)


text \<open>The stage of the keyed blocks.\<close>

lemma after_braces_header: "brace_free h \<Longrightarrow> after_braces 1 (h @ CHR ''}'' # s) = Some s"
  by (induction h) (auto simp: brace_free_def)

lemma quiet_key_close: "quiet ''{#key'' ''{/key}''"
  using quiet_close [of "''key''" "''key''"] by (simp add: block_close_def brace_free_def)

lemma quiet_closings: "proper bs \<Longrightarrow> quiet ''{#key'' (show_closings bs)"
proof (induction bs rule: show_closings.induct)
  case (2 t bs)
  then show ?case using quiet_append [OF quiet_parts(1) [of t "''#key''"]] by simp
next
  case (3 e bs)
  then have "quiet ''{#key'' (''{'' @ e @ ''}'')" using quiet_expr [of e "CHR ''#''" "''key''"] by simp
  from quiet_append [OF this] 3 show ?case by simp
next
  case (4 k h cs bs)
  moreover have "quiet ''{#key'' (h @ ''}'')" using 4 quiet_parts(2) [of h "''#key''"] by simp
  ultimately show ?case using quiet_block [of "''{#key''" "block_open k" h] block_quiet(1,2) [of k] by auto
next
  case (5 h cs bs)
  then show ?case using quiet_append [OF _ quiet_append [OF quiet_key_close]] by simp
qed (simp add: quiet_Nil)

lemma openings_step:
  assumes "quiet ''{#key'' a" "brace_free h"
  shows "strip_key_openings (a @ ''{#key'' @ h @ ''}'' @ s) = strip_key_openings (a @ s)"
proof -
  have "cut_at ''{#key'' (a @ ''{#key'' @ h @ ''}'' @ s) = Some (a, h @ CHR ''}'' # s)"
    using assms(1) cut_here [of "''#key''" "h @ CHR ''}'' # s"] by (simp add: quiet_def lift_cut_def)
  with after_braces_header [OF assms(2), of s] show ?thesis
    by (subst strip_key_openings.simps) simp
qed

lemma strip_keys:
  "proper bs \<Longrightarrow> quiet ''{#key'' a \<Longrightarrow> strip_key_openings (a @ show_blocks bs @ s) = strip_key_openings (a @ show_closings bs @ s)"
proof (induction bs arbitrary: a s rule: show_blocks.induct)
  case (2 t bs)
  have "quiet ''{#key'' (a @ t)" using 2 quiet_append quiet_parts(1) [of t "''#key''"] by simp
  with 2 show ?case using "2.IH" [of "a @ t"] by simp
next
  case (3 e bs)
  have "quiet ''{#key'' (a @ ''{'' @ e @ ''}'')" using 3 quiet_append quiet_expr [of e "CHR ''#''" "''key''"] by simp
  with 3 show ?case using "3.IH" [of "a @ ''{'' @ e @ ''}''"] by simp
next
  case (4 k h cs bs)
  have ks: "k = ''each'' \<or> k = ''if''" and h: "quiet ''{#key'' (h @ ''}'')" and ps: "proper cs" "proper bs"
    using 4 quiet_parts(2) [of h "''#key''"] by auto
  have o: "quiet ''{#key'' (a @ block_open k @ h @ ''}'')" using quiet_append [OF 4(4) quiet_append [OF block_quiet(1) [OF ks] h]] .
  have c: "quiet ''{#key'' ((a @ block_open k @ h @ ''}'') @ show_closings cs @ block_close k)"
    using quiet_append [OF o quiet_append [OF quiet_closings [OF ps(1)] block_quiet(2) [OF ks]]] .
  show ?case
    using "4.IH"(1) [OF ps(1) o, of "block_close k @ show_blocks bs @ s"] "4.IH"(2) [OF ps(2) c, of s] by simp
next
  case (5 h cs bs)
  have h: "brace_free h" and ps: "proper cs" "proper bs" using 5 by auto
  have c: "quiet ''{#key'' (a @ show_closings cs @ ''{/key}'')"
    using quiet_append [OF 5(4) quiet_append [OF quiet_closings [OF ps(1)] quiet_key_close]] .
  have "strip_key_openings (a @ show_blocks (Keyed h cs # bs) @ s) =
      strip_key_openings (a @ show_blocks cs @ ''{/key}'' @ show_blocks bs @ s)"
    using openings_step [OF 5(4) h, of "show_blocks cs @ ''{/key}'' @ show_blocks bs @ s"] by simp
  also have "\<dots> = strip_key_openings ((a @ show_closings cs @ ''{/key}'') @ show_blocks bs @ s)"
    using "5.IH"(1) [OF ps(1) 5(4), of "''{/key}'' @ show_blocks bs @ s"] by simp
  finally show ?case using "5.IH"(2) [OF ps(2) c, of s] by simp
qed simp

lemma remove_quiet: "quiet m x \<Longrightarrow> remove_mark m (x @ s) = x @ remove_mark m s"
  by (subst (1 2) remove_mark.simps) (auto simp: quiet_def lift_cut_def split: option.split)

lemma remove_here: "remove_mark (CHR ''{'' # m) ((CHR ''{'' # m) @ s) = remove_mark (CHR ''{'' # m) s"
  by (subst remove_mark.simps) (use cut_here [of m s] in simp)

lemma closing_quiet:
  "k = ''each'' \<or> k = ''if'' \<Longrightarrow> quiet ''{/key}'' (block_open k)"
  "k = ''each'' \<or> k = ''if'' \<Longrightarrow> quiet ''{/key}'' (block_close k)"
  using quiet_brace [of "''/key}''" "''#'' @ k"] quiet_brace [of "''/key}''" "''/'' @ k @ ''}''"]
  by (auto simp: block_open_def block_close_def starts_with_def)

lemma show_blocks_append [simp]: "show_blocks (xs @ ys) = show_blocks xs @ show_blocks ys"
  by (induction xs rule: show_blocks.induct) simp_all

lemma remove_closings:
  "proper bs \<Longrightarrow> remove_mark ''{/key}'' (show_closings bs @ s) = show_blocks (unkeyed bs) @ remove_mark ''{/key}'' s"
proof (induction bs arbitrary: s rule: show_closings.induct)
  case (2 t bs)
  then show ?case using remove_quiet [OF quiet_parts(1) [of t "''/key}''"]] by simp
next
  case (3 e bs)
  then have "quiet ''{/key}'' (''{'' @ e @ ''}'')" using quiet_expr [of e "CHR ''/''" "''key}''"] by simp
  from remove_quiet [OF this] 3 show ?case by simp
next
  case (4 k h cs bs)
  have ks: "k = ''each'' \<or> k = ''if''" and h: "quiet ''{/key}'' (h @ ''}'')" and ps: "proper cs" "proper bs"
    using 4 quiet_parts(2) [of h "''/key}''"] by auto
  note q = remove_quiet [OF closing_quiet(1) [OF ks]] remove_quiet [OF closing_quiet(2) [OF ks]] remove_quiet [OF h, simplified]
  show ?case using "4.IH"(1) [OF ps(1)] "4.IH"(2) [OF ps(2)] q by simp
next
  case (5 h cs bs)
  then show ?case using remove_here [of "''/key}''"] by simp
qed simp

lemma quiet_none: "quiet m x \<Longrightarrow> m \<noteq> [] \<Longrightarrow> cut_at m x = None"
proof -
  assume q: "quiet m x" and m: "m \<noteq> []"
  from q have "cut_at m (x @ []) = lift_cut x (cut_at m [])" unfolding quiet_def by blast
  with m show ?thesis by (simp add: lift_cut_def)
qed

lemma strip_key_delimiters_show: "proper bs \<Longrightarrow> strip_svelte_key_delimiters (show_blocks bs) = show_blocks (unkeyed bs)"
proof -
  assume p: "proper bs"
  have "strip_key_openings (show_closings bs) = show_closings bs"
    using quiet_none [OF quiet_closings [OF p]] by (subst strip_key_openings.simps) simp
  with strip_keys [OF p quiet_Nil, of "[]"] have "strip_key_openings (show_blocks bs) = show_closings bs" by simp
  moreover have "remove_mark ''{/key}'' [] = []" by (subst remove_mark.simps) simp
  ultimately show ?thesis using remove_closings [OF p, of "[]"] by (simp add: strip_svelte_key_delimiters_def)
qed


text \<open>The stage of the blocks of one kind.\<close>

lemma pass_char: "c \<noteq> CHR ''{'' \<Longrightarrow> after_region k d (c # s) = after_region k d s"
  by (simp add: starts_with_def block_open_def block_close_def)

lemma pass_plain: "CHR ''{'' \<notin> set x \<Longrightarrow> after_region k d (x @ s) = after_region k d s"
  by (induction x) (auto simp: pass_char simp del: after_region.simps)

lemma pass_brace:
  "\<not> starts_with (block_open k) (CHR ''{'' # x @ s) \<Longrightarrow> \<not> starts_with (block_close k) (CHR ''{'' # x @ s) \<Longrightarrow>
   CHR ''{'' \<notin> set x \<Longrightarrow> after_region k d (CHR ''{'' # x @ s) = after_region k d s"
  by (simp add: pass_plain)

lemma pass_expr:
  "brace_free e \<Longrightarrow> e \<noteq> [] \<Longrightarrow> hd e \<noteq> CHR ''#'' \<Longrightarrow> hd e \<noteq> CHR ''/'' \<Longrightarrow>
   after_region k d (CHR ''{'' # e @ CHR ''}'' # s) = after_region k d s"
  using pass_brace [of k "e @ ''}''" s d]
  by (cases e) (auto simp: starts_with_def block_open_def block_close_def brace_free_def simp del: after_region.simps)

lemma pass_other:
  assumes "k = ''each'' \<or> k = ''if''" "k' = ''each'' \<or> k' = ''if'' \<or> k' = ''key''" "k' \<noteq> k"
  shows "after_region k d (block_open k' @ s) = after_region k d s" "after_region k d (block_close k' @ s) = after_region k d s"
  using assms pass_brace [of k "''#'' @ k'" s d] pass_brace [of k "''/'' @ k' @ ''}''" s d]
  by (auto simp: starts_with_def block_open_def block_close_def simp del: after_region.simps)

lemma region_opens: "after_region k d (block_open k @ s) = after_region k (d + 1) s"
  using starts_with_append [of "block_open k" s] by (simp add: block_open_def)

lemma region_closes:
  "after_region k d (block_close k @ s) = (if d = 1 then Some s else after_region k (d - 1) s)"
proof -
  have "\<not> starts_with (block_open k) (block_close k @ s)" by (simp add: starts_with_def block_open_def block_close_def)
  then show ?thesis using starts_with_append [of "block_close k" s] by (simp add: block_close_def)
qed

lemma after_region_show:
  "k = ''each'' \<or> k = ''if'' \<Longrightarrow> proper bs \<Longrightarrow> d \<ge> 1 \<Longrightarrow> after_region k d (show_blocks bs @ s) = after_region k d s"
proof (induction bs arbitrary: d s rule: show_blocks.induct)
  case (2 t bs)
  then show ?case using pass_plain [of t k d] by (simp add: brace_free_def)
next
  case (3 e bs)
  then show ?case using pass_expr [of e k d] by simp
next
  case (4 k' h cs bs)
  have ps: "proper cs" "proper bs" and h: "after_region k d' (h @ CHR ''}'' # r) = after_region k d' r" for d' r
    using 4 pass_plain [of "h @ ''}''" k d' r] by (auto simp: brace_free_def)
  show ?case
  proof (cases "k' = k")
    case True
    have "after_region k (d + 1) (h @ CHR ''}'' # show_blocks cs @ block_close k @ show_blocks bs @ s) =
        after_region k (d + 1) (block_close k @ show_blocks bs @ s)"
      using h "4.IH"(1) [OF 4(3) ps(1), of "d + 1"] by simp
    also have "\<dots> = after_region k d (show_blocks bs @ s)" using 4(5) by (simp add: region_closes)
    finally show ?thesis using True region_opens [of k d] "4.IH"(2) [OF 4(3) ps(2) 4(5)] by simp
  next
    case False
    have k': "k' = ''each'' \<or> k' = ''if'' \<or> k' = ''key''" using 4(4) by auto
    show ?thesis
      using pass_other [OF 4(3) k' False] h "4.IH"(1) [OF 4(3) ps(1) 4(5)] "4.IH"(2) [OF 4(3) ps(2) 4(5)] by simp
  qed
next
  case (5 h cs bs)
  have ps: "proper cs" "proper bs" and h: "after_region k d (h @ CHR ''}'' # r) = after_region k d r" for r
    using 5 pass_plain [of "h @ ''}''" k d r] by (auto simp: brace_free_def)
  have "''key'' \<noteq> k" using 5(3) by auto
  from pass_other [OF 5(3) _ this, of d] show ?case
    using h "5.IH"(1) [OF 5(3) ps(1) 5(5)] "5.IH"(2) [OF 5(3) ps(2) 5(5)] by (simp add: block_open_def block_close_def)
qed simp

lemma proper_append [simp]: "proper (xs @ ys) \<longleftrightarrow> proper xs \<and> proper ys"
  by (induction xs rule: proper.induct) auto

lemma proper_unkeyed: "proper bs \<Longrightarrow> proper (unkeyed bs)"
  by (induction bs rule: unkeyed.induct) auto

lemma proper_erase: "proper bs \<Longrightarrow> proper (erase k bs)"
  by (induction k bs rule: erase.induct) auto

lemma kindless_erase: "kindless k (erase k bs)"
  by (induction k bs rule: erase.induct) auto

lemma strip_step:
  assumes "k = ''each'' \<or> k = ''if''" "quiet (block_open k) a" "brace_free h" "proper cs"
  shows "strip_blocks k (a @ block_open k @ h @ ''}'' @ show_blocks cs @ block_close k @ s) = strip_blocks k (a @ s)"
proof -
  let ?r = "h @ CHR ''}'' # show_blocks cs @ block_close k @ s"
  have "cut_at (block_open k) (a @ block_open k @ ?r) = Some (a, ?r)"
    using assms(2) cut_here [of "''#'' @ k" ?r] by (simp add: quiet_def lift_cut_def block_open_def)
  moreover have "after_region k 1 ?r = Some s"
    using pass_plain [of "h @ ''}''" k 1] after_region_show [OF assms(1,4), of 1] region_closes [of k 1] assms(3)
    by (simp add: brace_free_def)
  ultimately show ?thesis by (subst strip_blocks.simps) simp
qed

lemma strip_kind:
  "k = ''each'' \<or> k = ''if'' \<Longrightarrow> proper bs \<Longrightarrow> quiet (block_open k) a \<Longrightarrow>
   strip_blocks k (a @ show_blocks bs @ s) = strip_blocks k (a @ show_blocks (erase k bs) @ s)"
proof (induction bs arbitrary: a s rule: show_blocks.induct)
  case (2 t bs)
  have "quiet (block_open k) (a @ t)"
    using 2 quiet_append quiet_parts(1) [of t "''#'' @ k"] by (simp add: block_open_def)
  with 2 show ?case using "2.IH" [of "a @ t"] by simp
next
  case (3 e bs)
  have "quiet (block_open k) (a @ ''{'' @ e @ ''}'')"
    using 3 quiet_append quiet_expr [of e "CHR ''#''" k] by (simp add: block_open_def)
  with 3 show ?case using "3.IH" [of "a @ ''{'' @ e @ ''}''"] by simp
next
  case (4 k' h cs bs)
  have ks: "k' = ''each'' \<or> k' = ''if''" and h: "brace_free h" and ps: "proper cs" "proper bs" using 4(4) by auto
  show ?case
  proof (cases "k' = k")
    case True
    with strip_step [OF 4(3,5) h ps(1), of "show_blocks bs @ s"] "4.IH"(2) [OF 4(3) ps(2) 4(5), of s] show ?thesis by simp
  next
    case False
    have q: "quiet (block_open k) (h @ ''}'')" using quiet_parts(2) [OF h, of "''#'' @ k"] by (simp add: block_open_def)
    have o: "quiet (block_open k) (a @ block_open k' @ h @ ''}'')"
      using quiet_append [OF 4(5) quiet_append [OF block_quiet(3) [OF ks 4(3) False] q]] .
    have c: "quiet (block_open k) ((a @ block_open k' @ h @ ''}'') @ show_blocks (erase k cs) @ block_close k')"
      using quiet_append [OF o quiet_append [OF quiet_show_kind [OF 4(3) proper_erase [OF ps(1)] kindless_erase] block_quiet(4) [OF ks]]] .
    show ?thesis
      using False "4.IH"(1) [OF 4(3) ps(1) o, of "block_close k' @ show_blocks bs @ s"] "4.IH"(2) [OF 4(3) ps(2) c, of s] by simp
  qed
next
  case (5 h cs bs)
  have h: "brace_free h" and ps: "proper cs" "proper bs" using 5(4) by auto
  have q: "quiet (block_open k) (h @ ''}'')" using quiet_parts(2) [OF h, of "''#'' @ k"] by (simp add: block_open_def)
  have o: "quiet (block_open k) (a @ ''{#key'' @ h @ ''}'')"
    using quiet_append [OF 5(5) quiet_append [OF block_quiet(5) [OF 5(3)] q]] .
  have c: "quiet (block_open k) ((a @ ''{#key'' @ h @ ''}'') @ show_blocks (erase k cs) @ ''{/key}'')"
    using quiet_append [OF o quiet_append [OF quiet_show_kind [OF 5(3) proper_erase [OF ps(1)] kindless_erase] block_quiet(6) [OF 5(3)]]] .
  show ?case
    using "5.IH"(1) [OF 5(3) ps(1) o, of "''{/key}'' @ show_blocks bs @ s"] "5.IH"(2) [OF 5(3) ps(2) c, of s] by simp
qed simp

lemma strip_blocks_show:
  "k = ''each'' \<or> k = ''if'' \<Longrightarrow> proper bs \<Longrightarrow> strip_blocks k (show_blocks bs) = show_blocks (erase k bs)"
proof -
  assume k: "k = ''each'' \<or> k = ''if''" and p: "proper bs"
  have "strip_blocks k (show_blocks (erase k bs)) = show_blocks (erase k bs)"
    using quiet_none [OF quiet_show_kind [OF k proper_erase [OF p] kindless_erase]]
    by (subst strip_blocks.simps) (simp add: block_open_def)
  with strip_kind [OF k p quiet_Nil, of "[]"] show ?thesis by simp
qed

lemma erased_unconditional:
  "proper bs \<Longrightarrow> show_blocks (erase ''if'' (erase ''each'' (unkeyed bs))) = unconditional bs"
proof -
  have erase_append: "erase k (xs @ ys) = erase k xs @ erase k ys" for k xs ys
    by (induction k xs rule: erase.induct) auto
  show "proper bs \<Longrightarrow> ?thesis" by (induction bs rule: unconditional.induct) (auto simp: erase_append)
qed


text \<open>Texts as the page renders them: single blanks, and none at the ends.\<close>

fun tidy_text :: "string \<Rightarrow> bool" where
  "tidy_text [] = True"
| "tidy_text (c # s) =
     ((white_space c \<longrightarrow> c = CHR '' '' \<and> (case s of [] \<Rightarrow> True | d # _ \<Rightarrow> \<not> white_space d)) \<and> tidy_text s)"

definition starts_black :: "string \<Rightarrow> bool" where
  "starts_black s = (case s of [] \<Rightarrow> True | c # _ \<Rightarrow> \<not> white_space c)"

definition ends_black :: "string \<Rightarrow> bool" where "ends_black s = starts_black (rev s)"

lemma space_rests_black: "starts_black s \<Longrightarrow> space_rests s = [s]"
  by (cases s) (simp_all add: starts_black_def)

lemma tidy_tail: "tidy_text (c # s) \<Longrightarrow> white_space c \<Longrightarrow> starts_black s"
  by (simp add: starts_black_def split: list.splits)

lemma rests_first:
  "tidy_text (a @ r) \<Longrightarrow> starts_black r \<Longrightarrow> \<exists>rs. rests (pieces a) (a @ r) = r # rs"
proof (induction a)
  case (Cons c a)
  then have ih: "\<exists>rs. rests (pieces a) (a @ r) = r # rs" by simp
  show ?case
  proof (cases "white_space c")
    case True
    have black: "starts_black (a @ r)" using tidy_tail [of c "a @ r"] Cons.prems(1) True by simp
    have "pieces (c # a) = Space # pieces a" using True black by (cases a) (simp_all add: starts_black_def)
    moreover have "space_rests (c # a @ r) = [a @ r, c # a @ r]" using True space_rests_black [OF black] by simp
    ultimately show ?thesis using ih by auto
  next
    case False
    with ih show ?thesis by simp
  qed
qed simp

lemma tidy_space_rests: "tidy_text s \<Longrightarrow> t \<in> set (space_rests s) \<Longrightarrow> tidy_text t \<and> length s \<le> length t + 1"
proof (cases s)
  case (Cons c s')
  moreover assume "tidy_text s" "t \<in> set (space_rests s)"
  ultimately show ?thesis using space_rests_black [of s'] tidy_tail [of c s'] by (cases "white_space c") auto
qed simp

lemma rests_length: "tidy_text s \<Longrightarrow> r \<in> set (rests ps s) \<Longrightarrow> length s \<le> length ps + length r"
proof (induction ps s rule: rests.induct)
  case (4 ps s)
  then obtain t where t: "t \<in> set (space_rests s)" "r \<in> set (rests ps t)" by auto
  with tidy_space_rests [OF 4(2) t(1)] 4(1) [OF t(1)] show ?case by simp
qed (auto split: if_splits)

lemma length_pieces: "length (pieces a) \<le> length a"
proof (induction a)
  case (Cons c a)
  have "length (pieces (c # a)) \<le> Suc (length (pieces a))" by (cases a) simp_all
  with Cons show ?case by simp
qed simp

lemma tidy_append: "tidy_text (a @ b) \<Longrightarrow> tidy_text b"
  by (induction a) auto

lemma lazy_middle_reads:
  "tidy_text (v @ b) \<Longrightarrow> lazy_middle (pieces b) (v @ b) = Some v"
proof (induction v)
  case Nil
  then have "tidy_text (b @ [])" by simp
  from rests_first [OF this] have "[] \<in> set (rests (pieces b) b)" by (auto simp: starts_black_def)
  then show ?case by (cases b) simp_all
next
  case (Cons c v)
  have "[] \<notin> set (rests (pieces b) (c # v @ b))"
  proof
    assume "[] \<in> set (rests (pieces b) (c # v @ b))"
    from rests_length [OF _ this] Cons.prems length_pieces [of b] show False by simp
  qed
  with Cons show ?case by simp
qed

lemma expr_at_here: "brace_free e \<Longrightarrow> e \<noteq> [] \<Longrightarrow> expr_at (CHR ''{'' # e @ CHR ''}'' # s) = Some (CHR ''{'' # e @ ''}'', s)"
proof -
  assume e: "brace_free e" "e \<noteq> []"
  have "takeWhile (\<lambda>x. x \<noteq> CHR ''{'' \<and> x \<noteq> CHR ''}'') (e @ CHR ''}'' # s) = e"
    using e(1) by (subst takeWhile_append2) (auto simp: brace_free_def)
  with e(2) show ?thesis by (simp add: expr_at_def Let_def starts_with_def)
qed

lemma expr_tokens_plain: "CHR ''{'' \<notin> set a \<Longrightarrow> expr_tokens (a @ s) = expr_tokens s"
  by (induction a) (auto simp: expr_at_def Let_def)

lemma expr_tokens_single:
  "brace_free a \<Longrightarrow> brace_free b \<Longrightarrow> brace_free e \<Longrightarrow> e \<noteq> [] \<Longrightarrow>
   expr_tokens (a @ ''{'' @ e @ ''}'' @ b) = [''{'' @ e @ ''}'']"
  using expr_tokens_plain [of a "CHR ''{'' # e @ CHR ''}'' # b"] expr_tokens_plain [of b "[]"] expr_at_here [of e b]
  by (simp add: brace_free_def)

lemma expression_match_reads:
  assumes "brace_free a" "tidy_text (a @ v @ b)" "starts_black (v @ b)"
  shows "expression_match (a @ ''{'' @ e @ ''}'' @ b) (''{'' @ e @ ''}'') (a @ v @ b) = Some v"
proof -
  have "cut_at (''{'' @ e @ ''}'') (a @ (''{'' @ e @ ''}'') @ b) = Some (a, b)"
    using quiet_plain [of a "e @ ''}''"] cut_here [of "e @ ''}''" b] assms(1)
    by (simp add: quiet_def lift_cut_def brace_free_def)
  moreover obtain rs where "rests (pieces a) (a @ v @ b) = (v @ b) # rs" using rests_first [OF assms(2,3)] by auto
  moreover have "lazy_middle (pieces b) (v @ b) = Some v" using lazy_middle_reads tidy_append assms(2) by blast
  ultimately show ?thesis by (simp add: expression_match_def)
qed

lemma squeeze_ends:
  "s \<noteq> [] \<Longrightarrow> squeeze s \<noteq> []"
  "s \<noteq> [] \<Longrightarrow> \<not> white_space (hd s) \<Longrightarrow> hd (squeeze s) = hd s"
  "s \<noteq> [] \<Longrightarrow> \<not> white_space (last s) \<Longrightarrow> last (squeeze s) = last s"
proof (induction s rule: squeeze.induct)
  case (2 c s)
  { case 1 show ?case using 2 by (cases s) auto }
  { case 2 then show ?case by simp }
  { case 3 then show ?case using 2 by (cases s) auto }
qed simp_all

lemma black_ends: "s \<noteq> [] \<Longrightarrow> starts_black s = (\<not> white_space (hd s)) \<and> ends_black s = (\<not> white_space (last s))"
proof -
  have hd: "starts_black t = (\<not> white_space (hd t))" if "t \<noteq> []" for t using that by (cases t) (simp_all add: starts_black_def)
  assume "s \<noteq> []"
  then show ?thesis using hd [of s] hd [of "rev s"] by (simp add: ends_black_def hd_rev)
qed

lemma trim_black: "starts_black s \<Longrightarrow> ends_black s \<Longrightarrow> trim s = s"
proof -
  have drop: "dropWhile white_space t = t" if "starts_black t" for t using that by (cases t) (simp_all add: starts_black_def)
  assume "starts_black s" "ends_black s"
  then show ?thesis by (simp add: trim_def trim_start_def trim_end_def drop ends_black_def)
qed

lemma object_get_set: "object_get (omap_set k v m) j = (if j = k then Own v else object_get m j)"
  by (simp add: object_get_def map_of_omap_set)

lemma object_get_fill_texts:
  "k \<notin> set slots \<Longrightarrow> k \<notin> set object_prototype \<Longrightarrow> object_get (fill_texts slots texts) k = Absent"
proof -
  have fold: "object_get (foldl (\<lambda>m (i, j). omap_set j (f i) m) m (enumerate n js)) k = object_get m k"
    if "k \<notin> set js" for f :: "nat \<Rightarrow> string" and m js n
    using that by (induction js arbitrary: m n) (auto simp: object_get_set)
  assume "k \<notin> set slots" "k \<notin> set object_prototype"
  then show ?thesis unfolding fill_texts_def by (subst fold) (simp_all add: object_get_def)
qed

lemma object_get_fill_attrs:
  "k \<notin> at_key ` set sls \<Longrightarrow> object_get (foldl (\<lambda>m sl. fill_attr attr live p sl m) m sls) k = object_get m k"
  by (induction sls arbitrary: m) (auto simp: fill_attr_def object_get_set split: option.split)

lemma show_nat_inj: "show_nat m = show_nat n \<Longrightarrow> m = n"
  by (metis read_show_nat)

section \<open>Properties\<close>

text \<open>
  C31: Only what may not be rendered is taken out: from markup of texts, expressions, conditional and repeated blocks
  and keyed blocks, nested in any way, the source that is compared with the page keeps exactly the texts and
  expressions that are rendered unconditionally, in their order.
\<close>

theorem strip_keeps_unconditional:
  assumes "proper bs"
  shows "strip_svelte_block_regions (show_blocks bs) = unconditional bs"
proof -
  have "strip_svelte_block_regions (show_blocks bs) = show_blocks (erase ''if'' (erase ''each'' (unkeyed bs)))"
    using assms by (simp add: strip_svelte_block_regions_def strip_key_delimiters_show strip_blocks_show proper_unkeyed proper_erase)
  with erased_unconditional [OF assms] show ?thesis by simp
qed

lemma strip_keeps_unconditional_witness:
  "strip_svelte_block_regions ''<p>{a}{#if b}{#each c as d}{d}{/each}x{/if}{#key e}<i>{f}</i>{/key}</p>'' = ''<p>{a}<i>{f}</i></p>''"
  using strip_keeps_unconditional [of "[Words ''<p>'', Expr ''a'',
    Block ''if'' '' b'' [Block ''each'' '' c as d'' [Expr ''d''], Words ''x''],
    Keyed '' e'' [Words ''<i>'', Expr ''f'', Words ''</i>''], Words ''</p>'']"]
  by (simp add: brace_free_def block_open_def block_close_def)



text \<open>
  The items of a keyed collection have keys of their own: where the key is rendered nowhere, every item that is
  hydrated from the page has one and no two have the same.
\<close>

theorem keyed_items_distinct:
  assumes "key_field spec = Some k" "k \<noteq> []" "k \<notin> set (text_slots spec)" "k \<notin> at_key ` set (attr_slots spec)"
    "k \<notin> set object_prototype"
  shows "distinct (map (\<lambda>m. object_get m k) (item_values attr live spec)) \<and>
    Absent \<notin> set (map (\<lambda>m. object_get m k) (item_values attr live spec))"
proof -
  have key: "object_get (item_value attr live spec i p) k = Own (''impeccable-live-'' @ show_nat i)" for i p
    using assms
    by (simp add: item_value_def Let_def fill_key_def truthy_str_def opt_str_def object_get_set object_get_fill_attrs
        object_get_fill_texts)
  have keys: "map (\<lambda>m. object_get m k) (item_values attr live spec) =
      map (\<lambda>i. Own (''impeccable-live-'' @ show_nat i)) [0..<length (item_elements live spec)]"
  proof -
    have "map (\<lambda>q. Own (''impeccable-live-'' @ show_nat (fst q))) (enumerate 0 es) =
        map (\<lambda>i. Own (''impeccable-live-'' @ show_nat i)) [0..<length es]" for es :: "path list"
      using arg_cong [OF map_fst_enumerate [of 0 es], of "map (\<lambda>i. Own (''impeccable-live-'' @ show_nat i))"]
      by (simp only: map_map comp_def add_0)
    then show ?thesis by (simp add: item_values_def key case_prod_unfold comp_def)
  qed
  show ?thesis unfolding keys by (auto simp: distinct_map inj_on_def dest: show_nat_inj)
qed

definition plain_el :: "string \<Rightarrow> elem" where
  "plain_el tag = \<lparr>nd_tag = tag, nd_id = [], nd_classes = [], nd_editable = None, nd_wrap = False, nd_marked = False,
     nd_original = None, nd_source_file = None, nd_source_loc = None, nd_white_space = [], nd_user_select = [], nd_cursor = [],
     nd_outline = []\<rparr>"

definition two_links :: node where
  "two_links = El (plain_el ''nav'') [El (plain_el ''a'') [Txt ''Home''], El (plain_el ''a'') [Txt ''About'']]"

definition link_spec :: item_spec where
  "link_spec = \<lparr>root_tag = ''a'', root_classes = [], static_texts = [], text_slots = [''label''], attr_slots = [],
     key_field = Some ''id''\<rparr>"

lemma keyed_items_distinct_witness:
  "length (item_values (\<lambda>p a. None) two_links link_spec) = 2 \<and>
   distinct (map (\<lambda>m. object_get m ''id'') (item_values (\<lambda>p a. None) two_links link_spec))"
proof -
  have "distinct (map (\<lambda>m. object_get m ''id'') (item_values (\<lambda>p a. None) two_links link_spec))"
    using keyed_items_distinct [of link_spec "''id''" "\<lambda>p a. None" two_links]
    by (simp add: link_spec_def object_prototype_def)
  then show ?thesis
    by (simp add: item_values_def item_elements_def select_all_def has_at_def element_has_def two_links_def link_spec_def
        plain_el_def to_lower_def lower_char_def is_el_def)
qed

text \<open>Two expressions in one text are both given the whole of it.\<close>

lemma two_expressions_one_value:
  "map_source ''{first} {last}'' ''Ann Lee'' [] = [(''{first}'', ''Ann Lee''), (''{last}'', ''Ann Lee'')]"
  by (simp add: map_source_def Let_def expr_at_def starts_with_def normalize_preview_text_def white_space_def trim_def
      trim_start_def trim_end_def)

end
