(* ===== verification/LiveAnchor.thy ===== *)
theory LiveAnchor imports LiveProps begin

text \<open>
  How the live overlay finds the element of a session again when the page has rendered anew, and the modules of
  component previews (\<open>agent/skills/impeccable/scripts/live-browser.js\<close>, lines 2057 to 2130 and 5031 to 5291).
  The page is the tree of \<open>LivePage\<close>; \<open>previews\<close> are the paths of the elements with \<open>data-impeccable-variants\<close> or
  \<open>data-impeccable-carbonize\<close>. An element that is gone from the page is no element: all code here asks for one
  that is in the body.
\<close>

section \<open>Which elements may take a preview\<close>

record anchor_page =
  body_tree :: node
  previews :: "path list"

definition all_els :: "node \<Rightarrow> path list" where "all_els d = [] # els_below d"

definition usable_anchor :: "anchor_page \<Rightarrow> path \<Rightarrow> bool" where
  "usable_anchor pg p =
     ((case node_at p (body_tree pg) of Some t \<Rightarrow> is_el t | None \<Rightarrow> False) \<and> \<not> own_at p (body_tree pg) \<and>
      \<not> list_ex (\<lambda>q. prefix q p) (previews pg))"

definition elem_at :: "anchor_page \<Rightarrow> path \<Rightarrow> elem option" where
  "elem_at pg p = (case node_at p (body_tree pg) of Some (El e _) \<Rightarrow> Some e | _ \<Rightarrow> None)"

definition text_at :: "anchor_page \<Rightarrow> path \<Rightarrow> string" where
  "text_at pg p = (case node_at p (body_tree pg) of Some t \<Rightarrow> trim (text_content t) | None \<Rightarrow> [])"

text \<open>\<open>[A-Za-z_-]\<close>, then word characters and hyphens.\<close>

definition simple_class :: "string \<Rightarrow> bool" where
  "simple_class s =
     (case s of
        [] \<Rightarrow> False
      | c # r \<Rightarrow> (word_char c \<and> \<not> is_digit c \<or> c = CHR ''-'') \<and> list_all (\<lambda>d. word_char d \<or> d = CHR ''-'') r)"

definition has_classes :: "string list \<Rightarrow> elem \<Rightarrow> bool" where
  "has_classes cs e = list_all (\<lambda>c. c \<in> set (nd_classes e)) cs"

text \<open>One of the texts contains the beginning of the other.\<close>

definition texts_meet :: "string \<Rightarrow> string \<Rightarrow> bool" where
  "texts_meet live known = (includes_str (take 40 known) live \<or> length live \<ge> 4 \<and> includes_str (take 40 live) known)"

section \<open>What is remembered of the element that was picked\<close>

record anchor_snapshot =
  snap_tag :: string
  snap_id :: string
  snap_classes :: "string list"
  snap_text :: string

definition picked_snapshot :: "anchor_page \<Rightarrow> path \<Rightarrow> anchor_snapshot option" where
  "picked_snapshot pg p =
     (case elem_at pg p of
        None \<Rightarrow> None
      | Some e \<Rightarrow> Some \<lparr>snap_tag = nd_tag e, snap_id = nd_id e, snap_classes = nd_classes e, snap_text = take 120 (text_at pg p)\<rparr>)"

definition with_id :: "anchor_page \<Rightarrow> string \<Rightarrow> path option" where
  "with_id pg i = List.find (\<lambda>p. map_option nd_id (elem_at pg p) = Some i) (all_els (body_tree pg))"

definition with_tag :: "anchor_page \<Rightarrow> string \<Rightarrow> path list" where
  "with_tag pg tag = filter (\<lambda>p. map_option nd_tag (elem_at pg p) = Some tag) (all_els (body_tree pg))"

definition fits_snapshot :: "anchor_page \<Rightarrow> anchor_snapshot \<Rightarrow> path \<Rightarrow> bool" where
  "fits_snapshot pg sn p =
     (let cs = filter simple_class (snap_classes sn); needle = trim (snap_text sn) in
      usable_anchor pg p \<and>
      (cs = [] \<or> (case elem_at pg p of None \<Rightarrow> False | Some e \<Rightarrow> has_classes cs e)) \<and>
      (snap_id sn = [] \<and> cs = [] \<and> length needle \<ge> 4 \<longrightarrow> texts_meet (text_at pg p) needle))"

definition find_from_snapshot :: "anchor_page \<Rightarrow> anchor_snapshot option \<Rightarrow> path option" where
  "find_from_snapshot pg snap =
     (case snap of
        None \<Rightarrow> None
      | Some sn \<Rightarrow>
          let tag = to_lower (snap_tag sn);
              by_id = (if snap_id sn = [] then None else with_id pg (snap_id sn))
          in if tag = [] then None
             else case by_id of
                 Some p \<Rightarrow> if usable_anchor pg p then Some p else List.find (fits_snapshot pg sn) (with_tag pg tag)
               | None \<Rightarrow> List.find (fits_snapshot pg sn) (with_tag pg tag))"

section \<open>The element of the original markup\<close>

text \<open>\<open>e\<close> with the text \<open>txt\<close> is the first element of the markup, as the browser parses it.\<close>

definition matches_original :: "anchor_page \<Rightarrow> elem \<Rightarrow> string \<Rightarrow> path \<Rightarrow> bool" where
  "matches_original pg e txt p =
     (usable_anchor pg p \<and>
      (case elem_at pg p of
         None \<Rightarrow> False
       | Some live \<Rightarrow>
           if nd_id e \<noteq> [] then nd_id live = nd_id e
           else let cs = filter simple_class (nd_classes e); known = trim txt in
             nd_tag live = nd_tag e \<and> (cs = [] \<or> has_classes cs live) \<and>
             (cs = [] \<and> length known \<ge> 4 \<longrightarrow> texts_meet (text_at pg p) known)))"

text \<open>The element with the shortest text, the first of them.\<close>

fun shortest :: "(path \<Rightarrow> nat) \<Rightarrow> path list \<Rightarrow> path option \<Rightarrow> path option" where
  "shortest len [] best = best"
| "shortest len (p # ps) best =
     shortest len ps (case best of None \<Rightarrow> Some p | Some b \<Rightarrow> if len p < len b then Some p else Some b)"

definition find_for_original :: "anchor_page \<Rightarrow> elem \<Rightarrow> string \<Rightarrow> path option" where
  "find_for_original pg e txt =
     (let candidates = filter (usable_anchor pg) (with_tag pg (nd_tag e));
          by_id = (if nd_id e = [] then None else with_id pg (nd_id e));
          cs = filter simple_class (nd_classes e);
          by_class = (if cs = [] then None
            else List.find (\<lambda>p. case elem_at pg p of None \<Rightarrow> False | Some live \<Rightarrow> has_classes cs live) candidates);
          known = trim txt;
          by_text = (if length known < 4 then None
            else shortest (\<lambda>p. length (text_at pg p)) (filter (\<lambda>p. texts_meet (text_at pg p) known) candidates) None)
      in case by_id of
          Some p \<Rightarrow> if matches_original pg e txt p then Some p else (case by_class of Some q \<Rightarrow> Some q | None \<Rightarrow> by_text)
        | None \<Rightarrow> (case by_class of Some q \<Rightarrow> Some q | None \<Rightarrow> by_text))"

text \<open>The last resort: the picked element, where its tag is right and some class or the id agrees.\<close>

definition loosely_matches :: "anchor_page \<Rightarrow> elem \<Rightarrow> path \<Rightarrow> bool" where
  "loosely_matches pg e p =
     (usable_anchor pg p \<and>
      (case elem_at pg p of
         None \<Rightarrow> False
       | Some live \<Rightarrow>
           nd_tag live = nd_tag e \<and>
           (nd_id e \<noteq> [] \<and> nd_id live = nd_id e \<or> nd_classes e = [] \<or> list_ex (\<lambda>c. c \<in> set (nd_classes live)) (nd_classes e))))"

definition resolve_injection_anchor :: "anchor_page \<Rightarrow> path option \<Rightarrow> anchor_snapshot option \<Rightarrow> node option \<Rightarrow> path option" where
  "resolve_injection_anchor pg picked snap markup =
     (case markup of
        Some (El e cs) \<Rightarrow>
          let txt = text_content (El e cs);
              attempts = List.map_filter id [picked, find_from_snapshot pg snap, find_for_original pg e txt]
          in (case List.find (matches_original pg e txt) attempts of
                Some p \<Rightarrow> Some p
              | None \<Rightarrow> (case picked of Some p \<Rightarrow> if loosely_matches pg e p then Some p else None | None \<Rightarrow> None))
      | _ \<Rightarrow> None)"

section \<open>The place of an insertion\<close>

record insert_snapshot =
  anchor_tag :: string
  anchor_classes :: string
  anchor_text :: string

text \<open>
  The selector is the tag, a dot and the class as it is. For a class that is not a plain name the browser parses
  something else: \<open>query\<close> is what it selects then, \<open>None\<close> where it throws.
\<close>

definition find_insert_anchor ::
  "(string \<Rightarrow> path list option) \<Rightarrow> anchor_page \<Rightarrow> path option \<Rightarrow> insert_snapshot option \<Rightarrow> js_error + path option" where
  "find_insert_anchor query pg anchor snap =
     (case anchor of
        Some p \<Rightarrow> Inr (Some p)
      | None \<Rightarrow>
          (case snap of
             None \<Rightarrow> Inr None
           | Some sn \<Rightarrow>
               let tag = to_lower (if anchor_tag sn = [] then ''div'' else anchor_tag sn);
                   sel = (case words_of (anchor_classes sn) of
                       [] \<Rightarrow> Some (with_tag pg tag)
                     | c # _ \<Rightarrow>
                         if simple_class c then
                           Some (filter (\<lambda>p. case elem_at pg p of None \<Rightarrow> False | Some e \<Rightarrow> c \<in> set (nd_classes e)) (with_tag pg tag))
                         else query (tag @ ''.'' @ c))
               in case sel of
                   None \<Rightarrow> Inl SyntaxError
                 | Some ps \<Rightarrow>
                     Inr (List.find (\<lambda>p. \<not> own_at p (body_tree pg) \<and>
                       (anchor_text sn = [] \<or> (case node_at p (body_tree pg) of
                          None \<Rightarrow> False | Some t \<Rightarrow> includes_str (take 40 (anchor_text sn)) (text_content t)))) ps)))"

text \<open>Where the element of a component's session is: \<open>whole\<close> its original markup, else the markup of its anchor.\<close>

definition manifest_anchor ::
  "(string \<Rightarrow> path list option) \<Rightarrow> (string \<Rightarrow> node option) \<Rightarrow> anchor_page \<Rightarrow> path option \<Rightarrow> path option \<Rightarrow>
   anchor_snapshot option \<Rightarrow> insert_snapshot option \<Rightarrow> bool \<Rightarrow> string \<Rightarrow> string \<Rightarrow> js_error + path option" where
  "manifest_anchor query parse pg anchor picked snap isnap inserts whole beside =
     (let known = Inr (resolve_injection_anchor pg picked snap (parse (if whole \<noteq> [] then whole else beside))) in
      if \<not> inserts then known
      else case find_insert_anchor query pg anchor isnap of
          Inl e \<Rightarrow> Inl e
        | Inr (Some p) \<Rightarrow> Inr (Some p)
        | Inr None \<Rightarrow> known)"

section \<open>The element the bar stands at\<close>

text \<open>
  What there is: the anchor of a component session, the wrapper of the session with the number of its variants and the
  content of the one on show, the placeholder (the one in the page and one that can be made now), the element picked
  and the element of the insertion.
\<close>

record bar_offer =
  of_component :: "path option"
  of_wrapper :: "(nat \<times> path option) option"
  of_made :: "path option"
  of_placeholder :: "path option"
  of_picked :: "path option"
  of_insert :: "path option"

definition or_else :: "'a option \<Rightarrow> 'a option \<Rightarrow> 'a option" where
  "or_else a b = (case a of Some x \<Rightarrow> Some x | None \<Rightarrow> b)"

definition bar_in_wrapper :: "bool \<Rightarrow> nat \<Rightarrow> bar_offer \<Rightarrow> path option" where
  "bar_in_wrapper generating shown a =
     (case of_wrapper a of
        None \<Rightarrow> None
      | Some (n, content) \<Rightarrow>
          or_else (if n > 0 \<and> shown > 0 then content else None)
            (if generating then or_else (of_made a) (of_insert a) else None))"

text \<open>\<open>component\<close>: the component session is the current one; \<open>busy\<close>: generating or cycling.\<close>

definition resolve_bar_anchor :: "bool \<Rightarrow> bool \<Rightarrow> bool \<Rightarrow> bool \<Rightarrow> nat \<Rightarrow> bar_offer \<Rightarrow> path option" where
  "resolve_bar_anchor component in_session busy generating shown a =
     or_else (if component \<and> busy then of_component a else None)
       (or_else (if in_session \<and> busy then bar_in_wrapper generating shown a else None)
         (or_else (of_picked a) (or_else (of_placeholder a) (of_insert a))))"

section \<open>Modules of a preview\<close>

definition vite_base :: "string \<Rightarrow> string option" where
  "vite_base src =
     (case cut_at ''/@vite/client'' src of
        None \<Rightarrow> None | Some (a, b) \<Rightarrow> Some (a @ ''/''))"

text \<open>\<open>known\<close> is what an earlier call found; \<open>srcs\<close> are the sources of the module scripts.\<close>

fun first_base :: "string list \<Rightarrow> string" where
  "first_base [] = ''/''"
| "first_base (s # ss) = (case vite_base s of Some b \<Rightarrow> b | None \<Rightarrow> first_base ss)"

definition detect_dev_server_base :: "string option \<Rightarrow> string list \<Rightarrow> string" where
  "detect_dev_server_base known srcs = (case known of Some b \<Rightarrow> b | None \<Rightarrow> first_base srcs)"

definition no_slashes :: "string \<Rightarrow> string" where "no_slashes s = dropWhile (\<lambda>c. c = CHR ''/'') s"

text \<open>\<open>href\<close> resolves an address against the origin of the page.\<close>

definition module_candidates :: "(string \<Rightarrow> string) \<Rightarrow> string \<Rightarrow> string \<Rightarrow> string \<Rightarrow> string list" where
  "module_candidates href base module_path abs_path =
     (let rel = no_slashes module_path; fs = ''@fs/'' @ no_slashes abs_path in
      [href (base @ rel)] @ (if base \<noteq> ''/'' then [href (''/'' @ rel)] else []) @
      (if abs_path = [] then []
       else [href (base @ fs)] @ (if base \<noteq> ''/'' then [href (''/'' @ fs)] else [])))"

definition busted :: "bool \<Rightarrow> nat \<Rightarrow> string \<Rightarrow> string" where
  "busted bust now c = (if bust then c @ (if includes_str ''?'' c then ''&'' else ''?'') @ ''t='' @ show_nat now else c)"

text \<open>\<open>load\<close> is \<open>import()\<close>; where nothing can be imported, the addresses that were tried.\<close>

definition import_first_reachable ::
  "(string \<Rightarrow> 'm option) \<Rightarrow> string list \<Rightarrow> bool \<Rightarrow> nat \<Rightarrow> string list + 'm \<times> string" where
  "import_first_reachable load candidates bust now =
     (case List.find (\<lambda>c. load (busted bust now c) \<noteq> None) candidates of
        None \<Rightarrow> Inl candidates
      | Some c \<Rightarrow> (case load (busted bust now c) of None \<Rightarrow> Inl candidates | Some m \<Rightarrow> Inr (m, c)))"

definition probe_preview_tree :: "(string \<Rightarrow> string) \<Rightarrow> (string \<Rightarrow> 'm option) \<Rightarrow> string \<Rightarrow> string \<Rightarrow> string \<Rightarrow> string list option" where
  "probe_preview_tree href load base probe_module probe_abs =
     (if probe_module = [] then None
      else case import_first_reachable load (module_candidates href base probe_module probe_abs) False 0 of
          Inl tried \<Rightarrow> Some tried | Inr _ \<Rightarrow> None)"

text \<open>The runtime is asked for once: \<open>promise\<close> is what the first call got, a failure included.\<close>

definition load_svelte_runtime ::
  "(string \<Rightarrow> string) \<Rightarrow> (string \<Rightarrow> 'm option) \<Rightarrow> string \<Rightarrow> string \<Rightarrow> string \<Rightarrow> (string list + 'm) option \<Rightarrow> string list + 'm" where
  "load_svelte_runtime href load base runtime_module runtime_abs promise =
     (case promise of
        Some r \<Rightarrow> r
      | None \<Rightarrow>
          (case import_first_reachable load
             (module_candidates href base
               (if runtime_module \<noteq> [] then runtime_module else ''/src/lib/impeccable/__runtime.js'') runtime_abs) False 0 of
             Inl tried \<Rightarrow> Inl tried | Inr (m, c) \<Rightarrow> Inr m))"

section \<open>Lemmas\<close>

lemma find_holds: "List.find P xs = Some x \<Longrightarrow> x \<in> set xs \<and> P x"
  by (auto simp: find_Some_iff)

lemma find_only: "x \<in> set xs \<Longrightarrow> P x \<Longrightarrow> (\<And>y. y \<in> set xs \<Longrightarrow> P y \<Longrightarrow> y = x) \<Longrightarrow> List.find P xs = Some x"
proof (cases "List.find P xs")
  case None
  moreover assume "x \<in> set xs" "P x"
  ultimately show ?thesis by (simp add: find_None_iff)
next
  case (Some y)
  moreover assume "\<And>y. y \<in> set xs \<Longrightarrow> P y \<Longrightarrow> y = x"
  ultimately show ?thesis using find_holds by metis
qed

lemma els_below_iff:
  "p \<in> set (els_below t) \<longleftrightarrow> p \<noteq> [] \<and> (case node_at p t of Some s \<Rightarrow> is_el s | None \<Rightarrow> False)"
  "p \<in> set (els_in i cs) \<longleftrightarrow>
   (\<exists>j q. p = (i + j) # q \<and> j < length cs \<and> (case node_at q (cs ! j) of Some s \<Rightarrow> is_el s | None \<Rightarrow> False))"
proof (induction t and i cs arbitrary: p and p rule: els_below_els_in.induct)
  case (1 e cs)
  show ?case unfolding els_below.simps 1 by (cases p) simp_all
next
  case "2_1"
  then show ?case by (cases p) auto
next
  case "2_2"
  then show ?case by (cases p) auto
next
  case (4 i c cs)
  have here: "p \<in> set (if is_el c then [i] # map ((#) i) (els_below c) else []) \<longleftrightarrow>
      (\<exists>q. p = i # q \<and> (case node_at q c of Some s \<Rightarrow> is_el s | None \<Rightarrow> False))"
  proof -
    have "(\<exists>q. p = i # q \<and> (case node_at q c of Some s \<Rightarrow> is_el s | None \<Rightarrow> False)) \<longleftrightarrow>
        p = [i] \<and> is_el c \<or> (\<exists>q. p = i # q \<and> q \<noteq> [] \<and> (case node_at q c of Some s \<Rightarrow> is_el s | None \<Rightarrow> False))"
      by (metis node_at.simps(1) option.simps(5))
    moreover have "node_at q c = None" if "\<not> is_el c" "q \<noteq> []" for q
      using that by (cases c; cases q) (simp_all add: is_el_def)
    ultimately show ?thesis using 4(1) by (cases "is_el c") (auto simp: image_iff)
  qed
  have "(\<exists>j q. p = (i + j) # q \<and> j < length (c # cs) \<and> (case node_at q ((c # cs) ! j) of Some s \<Rightarrow> is_el s | None \<Rightarrow> False)) \<longleftrightarrow>
     (\<exists>q. p = i # q \<and> (case node_at q c of Some s \<Rightarrow> is_el s | None \<Rightarrow> False)) \<or>
     (\<exists>j q. p = (i + 1 + j) # q \<and> j < length cs \<and> (case node_at q (cs ! j) of Some s \<Rightarrow> is_el s | None \<Rightarrow> False))"
    (is "?l \<longleftrightarrow> ?r")
  proof
    assume ?l
    then obtain j q where "p = (i + j) # q" "j < length (c # cs)"
      "case node_at q ((c # cs) ! j) of Some s \<Rightarrow> is_el s | None \<Rightarrow> False" by blast
    then show ?r by (cases j) auto
  next
    assume ?r
    then show ?l
    proof
      assume "\<exists>q. p = i # q \<and> (case node_at q c of Some s \<Rightarrow> is_el s | None \<Rightarrow> False)"
      then show ?l by (intro exI [of _ 0]) simp
    next
      assume "\<exists>j q. p = (i + 1 + j) # q \<and> j < length cs \<and> (case node_at q (cs ! j) of Some s \<Rightarrow> is_el s | None \<Rightarrow> False)"
      then obtain j q where "p = (i + 1 + j) # q \<and> j < length cs \<and> (case node_at q (cs ! j) of Some s \<Rightarrow> is_el s | None \<Rightarrow> False)" by blast
      then show ?l by (intro exI [of _ "Suc j"]) simp
    qed
  qed
  with here 4(2) show ?case by simp
qed simp_all

lemma elem_at_iff: "elem_at pg p = Some e \<longleftrightarrow> (\<exists>cs. node_at p (body_tree pg) = Some (El e cs))"
  by (auto simp: elem_at_def split: option.splits node.splits)

lemma all_els_elem: "elem_at pg p = Some e \<Longrightarrow> p \<in> set (all_els (body_tree pg))"
  by (auto simp: elem_at_iff all_els_def els_below_iff(1) is_el_def)

lemma with_tag_iff: "p \<in> set (with_tag pg tag) \<longleftrightarrow> (\<exists>e. elem_at pg p = Some e \<and> nd_tag e = tag)"
  using all_els_elem by (auto simp: with_tag_def)

lemma with_id_Some: "with_id pg i = Some p \<Longrightarrow> \<exists>e. elem_at pg p = Some e \<and> nd_id e = i"
  using find_holds by (fastforce simp: with_id_def)

lemma shortest_from: "shortest len ps best = Some p \<Longrightarrow> p \<in> set ps \<or> best = Some p"
  by (induction len ps best rule: shortest.induct) (auto split: option.splits if_splits)

lemma matches_is_usable:
  "matches_original pg e txt p \<Longrightarrow> usable_anchor pg p \<and> (\<exists>live. elem_at pg p = Some live \<and>
    (nd_id e \<noteq> [] \<and> nd_id live = nd_id e \<or> nd_tag live = nd_tag e))"
  by (auto simp: matches_original_def Let_def split: option.splits if_splits)

lemma resolved_is_usable:
  "resolve_injection_anchor pg picked snap (Some (El e cs)) = Some p \<Longrightarrow> usable_anchor pg p \<and>
    (\<exists>live. elem_at pg p = Some live \<and> (nd_id e \<noteq> [] \<and> nd_id live = nd_id e \<or> nd_tag live = nd_tag e))"
  using matches_is_usable find_holds
  by (fastforce simp: resolve_injection_anchor_def loosely_matches_def Let_def split: option.splits if_splits)

lemma trim_is_part: "\<exists>a b. s = a @ trim s @ b"
proof -
  have "s = takeWhile white_space s @ trim_start s" by (simp add: trim_start_def)
  moreover have "\<exists>b. t = trim_end t @ b" for t
    unfolding trim_end_def by (metis rev_append rev_rev_ident takeWhile_dropWhile_id)
  ultimately show ?thesis unfolding trim_def by metis
qed

lemma meets_snapshot: "texts_meet s (trim (take n s))"
proof -
  obtain a b where "take n s = a @ trim (take n s) @ b" using trim_is_part by blast
  then have "s = (a @ take 40 (trim (take n s)) @ (drop 40 (trim (take n s)) @ b @ drop n s))"
    by (metis append.assoc append_take_drop_id)
  then show ?thesis unfolding texts_meet_def includes_str_iff by blast
qed

lemma import_found:
  "c \<in> set cs \<Longrightarrow> load (busted bust now c) \<noteq> None \<Longrightarrow>
   \<exists>m u. import_first_reachable load cs bust now = Inr (m, u) \<and> u \<in> set cs \<and> load (busted bust now u) = Some m"
  by (cases "List.find (\<lambda>c. load (busted bust now c) \<noteq> None) cs")
    (auto simp: import_first_reachable_def find_None_iff dest: find_holds)

lemma import_none:
  "(\<And>c. c \<in> set cs \<Longrightarrow> load (busted bust now c) = None) \<Longrightarrow> import_first_reachable load cs bust now = Inl cs"
  by (cases "List.find (\<lambda>c. load (busted bust now c) \<noteq> None) cs")
    (auto simp: import_first_reachable_def dest: find_holds)

section \<open>Properties\<close>

text \<open>
  A preview is only put into the page's own content: whatever the picked element, the snapshot and the markup
  are, the element that is resolved is in the body, is not of the overlay's own interface and lies in no preview that is
  there already, and its tag or its id is that of the source.
\<close>

theorem anchor_is_of_the_page:
  assumes "resolve_injection_anchor pg picked snap (Some (El e cs)) = Some p"
  shows "(\<exists>live. elem_at pg p = Some live \<and> (nd_tag live = nd_tag e \<or> nd_id e \<noteq> [] \<and> nd_id live = nd_id e)) \<and>
    \<not> own_at p (body_tree pg) \<and> (\<forall>q \<in> set (previews pg). \<not> prefix q p)"
  using resolved_is_usable [OF assms] by (auto simp: usable_anchor_def list_ex_iff)


text \<open>Before: a paragraph with a class. After: another one stands before it, and its text is new.\<close>

definition lead_el :: elem where "lead_el = (plain_el ''p'')\<lparr>nd_classes := [''lead'']\<rparr>"

definition page_before :: anchor_page where
  "page_before = \<lparr>body_tree = El (plain_el ''body'') [El lead_el [Txt ''Hello'']], previews = []\<rparr>"

definition page_after :: anchor_page where
  "page_after = \<lparr>body_tree = El (plain_el ''body'') [El (plain_el ''p'') [Txt ''News''], El lead_el [Txt ''Welcome'']], previews = []\<rparr>"

lemma page_after_els: "elem_at page_after r = Some f \<longleftrightarrow>
    r = [] \<and> f = plain_el ''body'' \<or> r = [0] \<and> f = plain_el ''p'' \<or> r = [1] \<and> f = lead_el"
proof -
  have "elem_at page_after r = Some f \<Longrightarrow> r \<in> set (all_els (body_tree page_after))" by (rule all_els_elem)
  then have "elem_at page_after r = Some f \<Longrightarrow> r = [] \<or> r = [0] \<or> r = [1]"
    by (auto simp: page_after_def all_els_def is_el_def split: if_splits)
  then show ?thesis by (auto simp: elem_at_def page_after_def)
qed

lemma anchor_is_of_the_page_witness:
  "resolve_injection_anchor page_after None (picked_snapshot page_before [0]) (Some (El lead_el [Txt ''Hello''])) = Some [1] \<and>
   \<not> own_at [1] (body_tree page_after)"
proof -
  have "resolve_injection_anchor page_after None (picked_snapshot page_before [0]) (Some (El lead_el [Txt ''Hello''])) = Some [1]"
    by code_simp
  with anchor_is_of_the_page [OF this] show ?thesis by blast
qed


section \<open>Findings\<close>

text \<open>
  Without id and class the first element with the tag whose text contains the beginning is taken: of nested elements
  the outer one, although the inner one was picked.
\<close>

definition nested_page :: anchor_page where
  "nested_page = \<lparr>body_tree = El (plain_el ''body'')
     [El (plain_el ''div'') [El (plain_el ''div'') [Txt ''Prices''], El (plain_el ''div'') [Txt ''Contact'']]], previews = []\<rparr>"

lemma outer_element_taken:
  "find_from_snapshot nested_page (picked_snapshot nested_page [0, 1]) = Some [0] \<and>
   resolve_injection_anchor nested_page None (picked_snapshot nested_page [0, 1]) (Some (El (plain_el ''div'') [Txt ''Contact''])) = Some [0]"
  by code_simp

text \<open>An element picked with an id that the page has made anew: the text is not compared, the first element with the tag is taken.\<close>

lemma lost_id_any_element:
  "find_from_snapshot page_after (Some \<lparr>snap_tag = ''P'', snap_id = ''r1'', snap_classes = [], snap_text = ''Welcome''\<rparr>) = Some [0]"
  by code_simp

text \<open>The class of an insertion's anchor goes into the selector as it is: \<open>p-1.5\<close> and \<open>md:flex\<close> make no selector and the search throws.\<close>

lemma insert_class_throws:
  assumes "query ''div.md:flex'' = None"
  shows "find_insert_anchor query pg None (Some \<lparr>anchor_tag = ''DIV'', anchor_classes = ''md:flex p-4'', anchor_text = t\<rparr>) = Inl SyntaxError"
proof -
  have "words_of ''md:flex p-4'' = [''md:flex'', ''p-4'']" "\<not> simple_class ''md:flex''" "to_lower ''DIV'' = ''div''"
    by code_simp+
  with assms show ?thesis by (simp add: find_insert_anchor_def Let_def)
qed

end
