(* ===== verification/LiveClean.thy ===== *)
theory LiveClean imports LiveInsert Runs begin

text \<open>
  What the live overlay does to the page after a session has ended, of
  \<open>agent/skills/impeccable/scripts/live-browser.js\<close>: the clean-up after an accept (lines 8796 to 8913) and after a
  discard (6713 to 6787, 9277 to 9328). Where a framework owns the elements the page is reloaded unless it has rendered
  the new source by then; on static pages the wrappers are unwound by hand. Every timer is a task that can fire in any
  order with the others.
\<close>

section \<open>The page\<close>

text \<open>
  A part is a text or an element. The attributes are \<open>data-impeccable-variants\<close>, \<open>-carbonize\<close> and \<open>-variant\<close>;
  \<open>pt_owned\<close> is whether a framework has left its properties on the element. Numbers are identities.
\<close>

record part_info =
  pt_id :: nat
  pt_tag :: string
  pt_classes :: "string list"
  pt_variants :: "string option"
  pt_carbonize :: "string option"
  pt_variant :: "string option"
  pt_display_none :: bool
  pt_owned :: bool

datatype part = Words nat string | Part part_info "part list"

text \<open>The elements in the order of the document.\<close>

fun infos :: "part list \<Rightarrow> part_info list" where
  "infos [] = []"
| "infos (Words n s # ps) = infos ps"
| "infos (Part e ks # ps) = e # infos ks @ infos ps"

definition in_preview :: "part_info \<Rightarrow> bool" where
  "in_preview e \<longleftrightarrow> pt_variants e \<noteq> None \<or> pt_variant e \<noteq> None \<or> pt_carbonize e \<noteq> None"

text \<open>With each element, whether it or one above it belongs to a preview.\<close>

fun placed :: "bool \<Rightarrow> part list \<Rightarrow> (bool \<times> part_info) list" where
  "placed m [] = []"
| "placed m (Words n s # ps) = placed m ps"
| "placed m (Part e ks # ps) = (m \<or> in_preview e, e) # placed (m \<or> in_preview e) ks @ placed m ps"

fun part_id :: "part \<Rightarrow> nat" where
  "part_id (Words n s) = n"
| "part_id (Part e ks) = pt_id e"

text \<open>The part with a number is replaced, in its parent, by what \<open>f\<close> gives.\<close>

fun replace_part :: "nat \<Rightarrow> (part_info \<Rightarrow> part list \<Rightarrow> part list) \<Rightarrow> part list \<Rightarrow> part list" where
  "replace_part i f [] = []"
| "replace_part i f (Words n s # ps) = Words n s # replace_part i f ps"
| "replace_part i f (Part e ks # ps) =
     (if pt_id e = i then f e ks else [Part e (replace_part i f ks)]) @ replace_part i f ps"

text \<open>\<open>querySelector\<close> for a variant: the first one below.\<close>

fun variant_in :: "string \<Rightarrow> part list \<Rightarrow> (part_info \<times> part list) option" where
  "variant_in v [] = None"
| "variant_in v (Words n s # ps) = variant_in v ps"
| "variant_in v (Part e ks # ps) =
     (if pt_variant e = Some v then Some (e, ks)
      else case variant_in v ks of Some r \<Rightarrow> Some r | None \<Rightarrow> variant_in v ps)"

fun first_element :: "part list \<Rightarrow> part option" where
  "first_element [] = None"
| "first_element (Words n s # ps) = first_element ps"
| "first_element (Part e ks # ps) = Some (Part e ks)"

text \<open>Whether a framework owns an element or one above it; \<open>up\<close>: one above does.\<close>

fun owned_at :: "nat \<Rightarrow> bool \<Rightarrow> part list \<Rightarrow> bool" where
  "owned_at i up [] = False"
| "owned_at i up (Words n s # ps) = owned_at i up ps"
| "owned_at i up (Part e ks # ps) =
     (pt_id e = i \<and> (up \<or> pt_owned e) \<or> owned_at i (up \<or> pt_owned e) ks \<or> owned_at i up ps)"

definition discarded_wrappers :: "string \<Rightarrow> part list \<Rightarrow> nat list" where
  "discarded_wrappers i d = (if i = [] then [] else map pt_id (filter (\<lambda>e. pt_variants e = Some i) (infos d)))"

definition accepted_wrappers :: "string \<Rightarrow> part list \<Rightarrow> nat list" where
  "accepted_wrappers i d =
     (let vs = discarded_wrappers i d;
          cs = (if i = [] then [] else map pt_id (filter (\<lambda>e. pt_carbonize e = Some i) (infos d)))
      in vs @ filter (\<lambda>n. n \<notin> set vs) cs)"

section \<open>What is remembered of an accepted variant\<close>

text \<open>A selector is a tag with classes.\<close>

type_synonym selector = "string \<times> string list"

definition selects :: "selector \<Rightarrow> part_info \<Rightarrow> bool" where
  "selects sel e \<longleftrightarrow> pt_tag e = fst sel \<and> set (snd sel) \<subseteq> set (pt_classes e)"

record accepted =
  ac_id :: string
  ac_variant :: string
  ac_html :: string
  ac_selector :: "selector option"
  ac_parent :: "nat option"
  ac_parent_owned :: bool
  ac_parent_selector :: "selector option"
  ac_next :: "nat option"

definition selector_for_root :: "part option \<Rightarrow> selector option" where
  "selector_for_root r =
     (case r of Some (Part e ks) \<Rightarrow> Some (to_lower (pt_tag e), filter (\<lambda>c. c \<noteq> []) (pt_classes e)) | _ \<Rightarrow> None)"

text \<open>The parent of an element and what follows it.\<close>

fun around :: "nat \<Rightarrow> part_info option \<Rightarrow> part list \<Rightarrow> (part_info option \<times> nat option) option" where
  "around i up [] = None"
| "around i up (Words n s # ps) = around i up ps"
| "around i up (Part e ks # ps) =
     (if pt_id e = i then Some (up, case ps of [] \<Rightarrow> None | q # _ \<Rightarrow> Some (part_id q))
      else case around i (Some e) ks of Some r \<Rightarrow> Some r | None \<Rightarrow> around i up ps)"

fun kids_of :: "nat \<Rightarrow> part list \<Rightarrow> part list" where
  "kids_of i [] = []"
| "kids_of i (Words n s # ps) = kids_of i ps"
| "kids_of i (Part e ks # ps) = (if pt_id e = i then ks else kids_of i ks @ kids_of i ps)"

text \<open>\<open>html\<close> is \<open>innerHTML\<close>; \<open>wrapper\<close> is what \<open>findVariantsWrapper\<close> finds.\<close>

definition snapshot_accepted :: "(part list \<Rightarrow> string) \<Rightarrow> nat option \<Rightarrow> part list \<Rightarrow> string \<Rightarrow> string \<Rightarrow> accepted" where
  "snapshot_accepted html wrapper d i v =
     (case wrapper of
        None \<Rightarrow> \<lparr>ac_id = i, ac_variant = v, ac_html = [], ac_selector = None, ac_parent = None, ac_parent_owned = False,
               ac_parent_selector = None, ac_next = None\<rparr>
      | Some w \<Rightarrow>
          let content = map_option snd (variant_in v (kids_of w d));
              place = (case around w None d of Some r \<Rightarrow> r | None \<Rightarrow> (None, None))
          in \<lparr>ac_id = i, ac_variant = v,
              ac_html = (case content of None \<Rightarrow> [] | Some ks \<Rightarrow> html ks),
              ac_selector = selector_for_root (Option.bind content first_element),
              ac_parent = map_option pt_id (fst place),
              ac_parent_owned = (case fst place of None \<Rightarrow> False | Some e \<Rightarrow> owned_at (pt_id e) False d),
              ac_parent_selector = selector_for_root (map_option (\<lambda>e. Part e []) (fst place)),
              ac_next = snd place\<rparr>)"

definition already_clean :: "accepted \<Rightarrow> part list \<Rightarrow> bool" where
  "already_clean a d =
     (case ac_selector a of
        None \<Rightarrow> False
      | Some sel \<Rightarrow> (let ms = filter (\<lambda>(m, e). selects sel e) (placed False d) in ms \<noteq> [] \<and> list_all (\<lambda>(m, e). \<not> m) ms))"

section \<open>State\<close>

datatype task =
    Accept_check accepted nat | Accept_reload accepted nat
  | Discard_check string nat | Discard_reload string nat | Watch_check string

text \<open>
  \<open>hide_styles\<close> are the sessions with a style sheet that shows the original, \<open>watched\<close> those whose wrapper is waited
  for; \<open>resting\<close> is the state \<open>IDLE\<close> or \<open>PICKING\<close>. \<open>reloads\<close> and \<open>ended\<close> record what happened.
\<close>

record clean_page =
  doc :: "part list"
  hide_styles :: "string list"
  watched :: "string list"
  tasks :: "task list"
  current :: "string option"
  revision :: nat
  resting :: bool
  reloads :: "string list"
  ended :: "string list"

definition passed :: "string \<Rightarrow> nat \<Rightarrow> clean_page \<Rightarrow> bool" where
  "passed i r p = deferred_recovery_superseded i r (current p) (revision p)"

definition reload_page :: "string \<Rightarrow> clean_page \<Rightarrow> clean_page" where
  "reload_page i p = p\<lparr>reloads := reloads p @ [i]\<rparr>"

definition add_task :: "task \<Rightarrow> clean_page \<Rightarrow> clean_page" where "add_task t p = p\<lparr>tasks := tasks p @ [t]\<rparr>"

section \<open>After an accept\<close>

definition reload_after_missing :: "accepted \<Rightarrow> nat \<Rightarrow> clean_page \<Rightarrow> clean_page" where
  "reload_after_missing a r p =
     (if passed (ac_id a) r p \<or> already_clean a (doc p) \<or> discarded_wrappers (ac_id a) (doc p) \<noteq> [] then p
      else reload_page (ac_id a) p)"

text \<open>The content is put before a part of the parent, or at its end.\<close>

fun put_before :: "nat option \<Rightarrow> part list \<Rightarrow> part list \<Rightarrow> part list" where
  "put_before n new [] = new"
| "put_before n new (q # ps) = (if Some (part_id q) = n then new @ q # ps else q # put_before n new ps)"

definition restore_parent :: "accepted \<Rightarrow> part list \<Rightarrow> nat option" where
  "restore_parent a d =
     (case ac_parent a of
        Some n \<Rightarrow> if n \<in> set (map pt_id (infos d)) then Some n
          else map_option pt_id (case ac_parent_selector a of None \<Rightarrow> None | Some sel \<Rightarrow> List.find (selects sel) (infos d))
      | None \<Rightarrow> map_option pt_id (case ac_parent_selector a of None \<Rightarrow> None | Some sel \<Rightarrow> List.find (selects sel) (infos d)))"

text \<open>\<open>parse\<close> is the browser's parser: what a template holds after \<open>innerHTML\<close> is set.\<close>

definition restore_accepted :: "(part list \<Rightarrow> string \<Rightarrow> part list) \<Rightarrow> accepted \<Rightarrow> nat \<Rightarrow> clean_page \<Rightarrow> clean_page" where
  "restore_accepted parse a r p =
     (if already_clean a (doc p) then p
      else if ac_html a = [] then reload_after_missing a r p
      else case restore_parent a (doc p) of
          None \<Rightarrow> reload_after_missing a r p
        | Some n \<Rightarrow>
            let p1 = p\<lparr>doc := replace_part n (\<lambda>e ks. [Part e (put_before (ac_next a) (parse (doc p) (ac_html a)) ks)]) (doc p)\<rparr>
            in if already_clean a (doc p1) then p1 else reload_after_missing a r p1)"

definition unwrap_variant :: "string \<Rightarrow> part_info \<Rightarrow> part list \<Rightarrow> part list" where
  "unwrap_variant v e ks = (case variant_in v ks of None \<Rightarrow> [] | Some (e', cs) \<Rightarrow> cs)"

definition accept_owned :: "accepted \<Rightarrow> part list \<Rightarrow> bool" where
  "accept_owned a d =
     (case accepted_wrappers (ac_id a) d of
        w # _ \<Rightarrow> owned_at w False d
      | [] \<Rightarrow> (case ac_parent a of
          None \<Rightarrow> False | Some n \<Rightarrow> if n \<in> set (map pt_id (infos d)) then owned_at n False d else ac_parent_owned a))"

definition ensure_accepted_clean :: "(part list \<Rightarrow> string \<Rightarrow> part list) \<Rightarrow> accepted \<Rightarrow> nat \<Rightarrow> clean_page \<Rightarrow> clean_page" where
  "ensure_accepted_clean parse a r p =
     (if passed (ac_id a) r p \<or> already_clean a (doc p) then p
      else if accept_owned a (doc p) then add_task (Accept_reload a r) p
      else let ws = accepted_wrappers (ac_id a) (doc p) in
        if ws = [] then restore_accepted parse a r p
        else let p1 = p\<lparr>doc := foldl (\<lambda>d w. replace_part w (unwrap_variant (ac_variant a)) d) (doc p) ws\<rparr>
          in if already_clean a (doc p1) then p1 else restore_accepted parse a r p1)"

definition accept_check :: "(part list \<Rightarrow> string \<Rightarrow> part list) \<Rightarrow> accepted \<Rightarrow> nat \<Rightarrow> clean_page \<Rightarrow> clean_page" where
  "accept_check parse a r p =
     (if passed (ac_id a) r p then p else if already_clean a (doc p) then p else ensure_accepted_clean parse a r p)"

definition accept_reload :: "accepted \<Rightarrow> nat \<Rightarrow> clean_page \<Rightarrow> clean_page" where
  "accept_reload a r p = (if passed (ac_id a) r p \<or> already_clean a (doc p) then p else reload_page (ac_id a) p)"

text \<open>The session is over at once; the page is looked at 1200 ms later.\<close>

definition accept_confirmed :: "accepted \<Rightarrow> clean_page \<Rightarrow> clean_page" where
  "accept_confirmed a p =
     (add_task (Accept_check a (revision p)) p)\<lparr>current := None, resting := True, ended := ended p @ [ac_id a]\<rparr>"

section \<open>After a discard\<close>

definition release_wrapper :: "part_info \<Rightarrow> part list \<Rightarrow> part list" where
  "release_wrapper e ks =
     (case variant_in ''original'' ks of
        None \<Rightarrow> []
      | Some (e', cs) \<Rightarrow> (case first_element cs of None \<Rightarrow> [] | Some c \<Rightarrow> [c]))"

definition remove_hide_style :: "string \<Rightarrow> clean_page \<Rightarrow> clean_page" where
  "remove_hide_style i p = p\<lparr>hide_styles := filter (\<lambda>j. j \<noteq> i) (hide_styles p)\<rparr>"

definition release_discarded :: "string \<Rightarrow> clean_page \<Rightarrow> clean_page" where
  "release_discarded i p =
     (remove_hide_style i p)\<lparr>doc := foldl (\<lambda>d w. replace_part w release_wrapper d) (doc p) (discarded_wrappers i (doc p))\<rparr>"

definition is_watch :: "string \<Rightarrow> task \<Rightarrow> bool" where
  "is_watch i t = (case t of Watch_check j \<Rightarrow> i = j | _ \<Rightarrow> False)"

definition finish_if_gone :: "string \<Rightarrow> clean_page \<Rightarrow> clean_page" where
  "finish_if_gone i p =
     (if discarded_wrappers i (doc p) \<noteq> [] then p
      else (remove_hide_style i p)\<lparr>watched := filter (\<lambda>j. j \<noteq> i) (watched p), tasks := filter (\<lambda>t. \<not> is_watch i t) (tasks p)\<rparr>)"

definition watch_removal :: "string \<Rightarrow> clean_page \<Rightarrow> clean_page" where
  "watch_removal i p =
     (if i = [] \<or> i \<in> set (watched p) then p
      else if discarded_wrappers i (doc p) = [] then finish_if_gone i p
      else (add_task (Watch_check i) p)\<lparr>watched := watched p @ [i]\<rparr>)"

text \<open>Twelve seconds later, and again while something new is going on.\<close>

definition watch_check :: "string \<Rightarrow> clean_page \<Rightarrow> clean_page" where
  "watch_check i p =
     (if discarded_wrappers i (doc p) = [] then finish_if_gone i p
      else if truthy_str (current p) \<or> \<not> resting p then add_task (Watch_check i) p
      else reload_page i ((remove_hide_style i p)\<lparr>watched := filter (\<lambda>j. j \<noteq> i) (watched p)\<rparr>))"

definition any_owned :: "nat list \<Rightarrow> part list \<Rightarrow> bool" where
  "any_owned ws d = (case ws of [] \<Rightarrow> False | w # _ \<Rightarrow> owned_at w False d)"

definition discard_check :: "string \<Rightarrow> nat \<Rightarrow> clean_page \<Rightarrow> clean_page" where
  "discard_check i r p =
     (let late = discarded_wrappers i (doc p) in
      if late = [] then remove_hide_style i p
      else if passed i r p then (if any_owned late (doc p) then watch_removal i p else release_discarded i p)
      else if any_owned late (doc p) then add_task (Discard_reload i r) p
      else release_discarded i p)"

definition discard_reload :: "string \<Rightarrow> nat \<Rightarrow> clean_page \<Rightarrow> clean_page" where
  "discard_reload i r p =
     (let stale = discarded_wrappers i (doc p) in
      if passed i r p then (if stale = [] then remove_hide_style i p else watch_removal i p)
      else let p1 = remove_hide_style i p in if stale \<noteq> [] then reload_page i p1 else p1)"

fun hide_parts :: "string \<Rightarrow> part list \<Rightarrow> part list" where
  "hide_parts i [] = []"
| "hide_parts i (Words n s # ps) = Words n s # hide_parts i ps"
| "hide_parts i (Part e ks # ps) =
     Part (if pt_variants e = Some i then e\<lparr>pt_display_none := True\<rparr> else e) (hide_parts i ks) # hide_parts i ps"

text \<open>The current session is discarded: what is on show changes at once, the elements later.\<close>

definition discard_session :: "bool \<Rightarrow> clean_page \<Rightarrow> clean_page" where
  "discard_session restore_original p =
     (if \<not> truthy_str (current p) then p\<lparr>current := None, resting := True\<rparr>
      else let i = opt_str (current p);
               p1 = (if discarded_wrappers i (doc p) = [] then p
                     else if restore_original then p\<lparr>hide_styles := filter (\<lambda>j. j \<noteq> i) (hide_styles p) @ [i]\<rparr>
                     else p\<lparr>doc := hide_parts i (doc p)\<rparr>)
           in (add_task (Discard_check i (revision p)) p1)\<lparr>current := None, resting := True, ended := ended p @ [i]\<rparr>)"

section \<open>Runs\<close>

datatype clean_event =
    Accepts accepted | Discards bool | Task_fires nat | Page_renders "part list"
  | New_configuration | Session_is "string option" bool

fun run_task :: "(part list \<Rightarrow> string \<Rightarrow> part list) \<Rightarrow> task \<Rightarrow> clean_page \<Rightarrow> clean_page" where
  "run_task parse (Accept_check a r) p = accept_check parse a r p"
| "run_task parse (Accept_reload a r) p = accept_reload a r p"
| "run_task parse (Discard_check i r) p = discard_check i r p"
| "run_task parse (Discard_reload i r) p = discard_reload i r p"
| "run_task parse (Watch_check i) p = watch_check i p"

definition drop_nth :: "nat \<Rightarrow> 'a list \<Rightarrow> 'a list" where "drop_nth n xs = take n xs @ drop (n + 1) xs"

fun clean_event_step :: "(part list \<Rightarrow> string \<Rightarrow> part list) \<Rightarrow> clean_event \<Rightarrow> clean_page \<Rightarrow> clean_page" where
  "clean_event_step parse (Accepts a) p = accept_confirmed a p"
| "clean_event_step parse (Discards b) p = discard_session b p"
| "clean_event_step parse (Task_fires n) p =
     (if n < length (tasks p) then run_task parse (tasks p ! n) (p\<lparr>tasks := drop_nth n (tasks p)\<rparr>) else p)"
| "clean_event_step parse (Page_renders d) p = p\<lparr>doc := d\<rparr>"
| "clean_event_step parse New_configuration p = p\<lparr>revision := revision p + 1, resting := False\<rparr>"
| "clean_event_step parse (Session_is i b) p = p\<lparr>current := i, resting := b\<rparr>"

text \<open>The observers of the sessions that are waited for run after every change.\<close>

definition observers_run :: "clean_page \<Rightarrow> clean_page" where
  "observers_run p = foldl (\<lambda>q i. finish_if_gone i q) p (watched p)"

definition clean_step :: "(part list \<Rightarrow> string \<Rightarrow> part list) \<Rightarrow> clean_event \<Rightarrow> clean_page \<Rightarrow> clean_page" where
  "clean_step parse e p = observers_run (clean_event_step parse e p)"

section \<open>Each ended session at most one reload\<close>

fun task_session :: "task \<Rightarrow> string" where
  "task_session (Accept_check a r) = ac_id a"
| "task_session (Accept_reload a r) = ac_id a"
| "task_session (Discard_check i r) = i"
| "task_session (Discard_reload i r) = i"
| "task_session (Watch_check i) = i"

text \<open>The reloads that a session has had and may still have.\<close>

definition reload_load :: "string \<Rightarrow> clean_page \<Rightarrow> nat" where
  "reload_load i p = count_list (reloads p) i + count_list (map task_session (tasks p)) i"

lemma load_simps [simp]:
  "reload_load i (p\<lparr>doc := d\<rparr>) = reload_load i p"
  "reload_load i (p\<lparr>hide_styles := h\<rparr>) = reload_load i p"
  "reload_load i (p\<lparr>watched := w\<rparr>) = reload_load i p"
  "reload_load i (p\<lparr>current := c\<rparr>) = reload_load i p"
  "reload_load i (p\<lparr>revision := n\<rparr>) = reload_load i p"
  "reload_load i (p\<lparr>resting := b\<rparr>) = reload_load i p"
  "reload_load i (p\<lparr>ended := es\<rparr>) = reload_load i p"
  "reload_load i (add_task t p) = reload_load i p + (if task_session t = i then 1 else 0)"
  "reload_load i (reload_page j p) = reload_load i p + (if j = i then 1 else 0)"
  "reload_load i (remove_hide_style j p) = reload_load i p"
  by (simp_all add: reload_load_def add_task_def reload_page_def remove_hide_style_def)

lemma ended_simps [simp]:
  "ended (add_task t p) = ended p" "ended (reload_page j p) = ended p" "ended (remove_hide_style j p) = ended p"
  by (simp_all add: add_task_def reload_page_def remove_hide_style_def)

lemma count_filter_le: "count_list (map f (filter P xs)) y \<le> count_list (map f xs) y"
  by (induction xs) auto

lemma finish_load: "reload_load i (finish_if_gone j p) \<le> reload_load i p"
  using count_filter_le [of task_session] by (simp add: finish_if_gone_def reload_load_def remove_hide_style_def)

lemma watch_removal_load:
  "reload_load j (watch_removal j p) \<le> Suc (reload_load j p)"
  "j \<noteq> i \<Longrightarrow> reload_load i (watch_removal j p) \<le> reload_load i p"
  by (simp_all add: watch_removal_def finish_load le_SucI)

lemma restore_load: "reload_load i (restore_accepted parse a r p) \<le> reload_load i p + (if ac_id a = i then 1 else 0)"
  by (simp add: restore_accepted_def reload_after_missing_def Let_def split: option.split)

lemma accept_check_load: "reload_load i (accept_check parse a r p) \<le> reload_load i p + (if ac_id a = i then 1 else 0)"
proof -
  define k :: nat where "k = (if ac_id a = i then 1 else 0)"
  have "reload_load i (restore_accepted parse a r (p\<lparr>doc := d\<rparr>)) \<le> reload_load i p + k" for d
    using restore_load [of i parse a r "p\<lparr>doc := d\<rparr>"] by (simp add: k_def)
  moreover have "reload_load i (restore_accepted parse a r p) \<le> reload_load i p + k"
    using restore_load [of i parse a r p] by (simp add: k_def)
  moreover have "reload_load i (add_task (Accept_reload a r) p) = reload_load i p + k" by (simp add: k_def)
  ultimately show ?thesis
    unfolding k_def [symmetric] accept_check_def ensure_accepted_clean_def Let_def by (simp del: load_simps(8))
qed

lemma run_task_load: "reload_load i (run_task parse t p) \<le> reload_load i p + (if task_session t = i then 1 else 0)"
proof (cases t)
  case (Accept_check a r)
  then show ?thesis using accept_check_load by simp
next
  case (Watch_check j)
  then show ?thesis by (simp add: watch_check_def finish_load le_SucI)
next
  case (Discard_check j r)
  then show ?thesis
    by (cases "j = i") (simp_all add: discard_check_def release_discarded_def watch_removal_load le_SucI Let_def)
next
  case (Discard_reload j r)
  then show ?thesis by (cases "j = i") (simp_all add: discard_reload_def watch_removal_load le_SucI Let_def)
qed (simp add: accept_reload_def)

lemma ended_run_task: "ended (run_task parse t p) = ended p"
  by (cases t)
    (simp_all add: accept_check_def ensure_accepted_clean_def restore_accepted_def reload_after_missing_def accept_reload_def
      discard_check_def discard_reload_def watch_check_def watch_removal_def finish_if_gone_def release_discarded_def Let_def
      split: option.split)

lemma load_without_task:
  "n < length (tasks p) \<Longrightarrow>
   reload_load i p = reload_load i (p\<lparr>tasks := drop_nth n (tasks p)\<rparr>) + (if task_session (tasks p ! n) = i then 1 else 0)"
proof -
  assume n: "n < length (tasks p)"
  have "map task_session (tasks p) =
      map task_session (take n (tasks p)) @ task_session (tasks p ! n) # map task_session (drop (n + 1) (tasks p))"
    using id_take_nth_drop [OF n] by (metis list.simps(9) map_append Suc_eq_plus1)
  then show ?thesis by (simp add: reload_load_def drop_nth_def)
qed

lemma observers_load: "reload_load i (observers_run p) \<le> reload_load i p \<and> ended (observers_run p) = ended p"
proof -
  have "reload_load i (foldl (\<lambda>q j. finish_if_gone j q) q js) \<le> reload_load i q \<and>
      ended (foldl (\<lambda>q j. finish_if_gone j q) q js) = ended q" for q js
  proof (induction js arbitrary: q)
    case (Cons j js)
    have "ended (finish_if_gone j q) = ended q" by (simp add: finish_if_gone_def)
    with Cons [of "finish_if_gone j q"] finish_load [of i j q] show ?case by simp
  qed simp
  then show ?thesis by (simp add: observers_run_def)
qed

lemma step_load:
  assumes "reload_load i p \<le> count_list (ended p) i"
  shows "reload_load i (clean_step parse e p) \<le> count_list (ended (clean_step parse e p)) i"
proof -
  have "reload_load i (clean_event_step parse e p) \<le> count_list (ended (clean_event_step parse e p)) i"
  proof (cases e)
    case (Task_fires n)
    show ?thesis
    proof (cases "n < length (tasks p)")
      case True
      let ?q = "p\<lparr>tasks := drop_nth n (tasks p)\<rparr>"
      have "reload_load i (run_task parse (tasks p ! n) ?q) \<le> reload_load i p"
        using run_task_load [of i parse "tasks p ! n" ?q] load_without_task [OF True, of i] by simp
      with True Task_fires assms show ?thesis by (simp add: ended_run_task)
    qed (use Task_fires assms in simp)
  next
    case (Discards b)
    have same: "reload_load i (p\<lparr>hide_styles := h, doc := d\<rparr>) = reload_load i p" for h d by simp
    show ?thesis using assms by (simp add: Discards discard_session_def Let_def)
  next
    case (Accepts a)
    with assms show ?thesis by (simp add: accept_confirmed_def)
  qed (use assms in simp_all)
  with observers_load [of i "clean_event_step parse e p"] show ?thesis unfolding clean_step_def by simp
qed

interpretation reloading: closed_stepping "clean_step parse" "\<lambda>p. \<forall>i. reload_load i p \<le> count_list (ended p) i" for parse
  by unfold_locales (use step_load in blast)

text \<open>A page as it is loaded.\<close>

definition loaded_page :: "part list \<Rightarrow> string option \<Rightarrow> bool \<Rightarrow> clean_page" where
  "loaded_page d c b = \<lparr>doc = d, hide_styles = [], watched = [], tasks = [], current = c, revision = 0, resting = b,
     reloads = [], ended = []\<rparr>"

lemma loaded_simps [simp]:
  "tasks (loaded_page d c b) = []" "hide_styles (loaded_page d c b) = []" "watched (loaded_page d c b) = []"
  "reloads (loaded_page d c b) = []" "ended (loaded_page d c b) = []" "doc (loaded_page d c b) = d" "current (loaded_page d c b) = c"
  by (simp_all add: loaded_page_def)

section \<open>What hides is taken back\<close>

fun task_of_discard :: "task \<Rightarrow> string option" where
  "task_of_discard (Discard_check i r) = Some i"
| "task_of_discard (Discard_reload i r) = Some i"
| "task_of_discard (Watch_check i) = Some i"
| "task_of_discard _ = None"

definition due_for :: "clean_page \<Rightarrow> string set" where
  "due_for p = {i. Some i \<in> task_of_discard ` set (tasks p)}"

definition tidy_but :: "string set \<Rightarrow> string set \<Rightarrow> clean_page \<Rightarrow> bool" where
  "tidy_but S W p \<longleftrightarrow> set (hide_styles p) \<subseteq> S \<union> due_for p \<and> (\<forall>i \<in> set (watched p). i \<in> W \<or> Watch_check i \<in> set (tasks p))"

lemma due_watch: "Watch_check i \<in> set (tasks p) \<Longrightarrow> i \<in> due_for p"
  by (force simp: due_for_def)

lemma due_add: "due_for (add_task t p) = (case task_of_discard t of None \<Rightarrow> due_for p | Some i \<Rightarrow> insert i (due_for p))"
  by (auto simp: due_for_def add_task_def split: option.split)

lemma finish_tidy: "tidy_but S W p \<Longrightarrow> discarded_wrappers i (doc p) = [] \<Longrightarrow> tidy_but (S - {i}) (W - {i}) (finish_if_gone i p)"
proof -
  assume t: "tidy_but S W p" and g: "discarded_wrappers i (doc p) = []"
  have "due_for p - {i} \<subseteq> due_for (finish_if_gone i p)"
    using g by (fastforce simp: due_for_def finish_if_gone_def is_watch_def split: task.splits)
  moreover have "Watch_check j \<in> set (tasks p) \<Longrightarrow> j \<noteq> i \<Longrightarrow> Watch_check j \<in> set (tasks (finish_if_gone i p))" for j
    using g by (simp add: finish_if_gone_def is_watch_def)
  ultimately show ?thesis using t g by (auto simp: tidy_but_def finish_if_gone_def remove_hide_style_def)
qed

lemma finish_keeps: "tidy_but {} {} p \<Longrightarrow> tidy_but {} {} (finish_if_gone i p)"
  using finish_tidy [of "{}" "{}" p i] by (cases "discarded_wrappers i (doc p) = []") (simp_all add: finish_if_gone_def)

lemma observers_tidy: "tidy_but {} {} p \<Longrightarrow> tidy_but {} {} (observers_run p)"
proof -
  have "tidy_but {} {} q \<Longrightarrow> tidy_but {} {} (foldl (\<lambda>q j. finish_if_gone j q) q js)" for q js
    by (induction js arbitrary: q) (simp_all add: finish_keeps)
  then show "tidy_but {} {} p \<Longrightarrow> ?thesis" by (simp add: observers_run_def)
qed

lemma style_removed_tidy: "tidy_but {i} {} p \<Longrightarrow> tidy_but {} {} (remove_hide_style i p)"
  by (auto simp: tidy_but_def remove_hide_style_def due_for_def)

lemma watch_removal_tidy: "i \<noteq> [] \<Longrightarrow> tidy_but {i} {} p \<Longrightarrow> tidy_but {} {} (watch_removal i p)"
proof -
  assume i: "i \<noteq> []" and t: "tidy_but {i} {} p"
  consider "i \<in> set (watched p)" | "i \<notin> set (watched p)" "discarded_wrappers i (doc p) = []"
    | "i \<notin> set (watched p)" "discarded_wrappers i (doc p) \<noteq> []" by blast
  then show ?thesis
  proof cases
    case 1
    with t have "i \<in> due_for p" using due_watch by (auto simp: tidy_but_def)
    with 1 t show ?thesis by (auto simp: tidy_but_def watch_removal_def)
  next
    case 2
    with i finish_tidy [OF t 2(2)] show ?thesis by (simp add: watch_removal_def)
  next
    case 3
    with i t show ?thesis by (auto simp: watch_removal_def tidy_but_def add_task_def due_for_def)
  qed
qed

lemma wrappers_named: "discarded_wrappers i d \<noteq> [] \<Longrightarrow> i \<noteq> []"
  by (auto simp: discarded_wrappers_def)

lemma doc_tidy [simp]: "tidy_but S W (p\<lparr>doc := d\<rparr>) = tidy_but S W p"
  by (simp add: tidy_but_def due_for_def)

lemma discard_check_tidy: "tidy_but {i} {} p \<Longrightarrow> tidy_but {} {} (discard_check i r p)"
  using wrappers_named style_removed_tidy watch_removal_tidy
  by (auto simp: discard_check_def release_discarded_def Let_def tidy_but_def add_task_def due_for_def)

lemma discard_reload_tidy: "tidy_but {i} {} p \<Longrightarrow> tidy_but {} {} (discard_reload i r p)"
proof -
  assume t: "tidy_but {i} {} p"
  have "tidy_but {} {} (reload_page i (remove_hide_style i p))"
    using style_removed_tidy [OF t] by (simp add: tidy_but_def reload_page_def due_for_def)
  with t style_removed_tidy [OF t] watch_removal_tidy [OF wrappers_named t] show ?thesis
    by (simp add: discard_reload_def Let_def)
qed

lemma watch_check_tidy: "tidy_but {i} {i} p \<Longrightarrow> tidy_but {} {} (watch_check i p)"
proof -
  assume t: "tidy_but {i} {i} p"
  have "tidy_but {} {} (add_task (Watch_check i) p)"
    using t by (auto simp: tidy_but_def add_task_def due_for_def)
  moreover have "tidy_but {} {} (reload_page i ((remove_hide_style i p)\<lparr>watched := filter (\<lambda>j. j \<noteq> i) (watched p)\<rparr>))"
    using t by (auto simp: tidy_but_def reload_page_def remove_hide_style_def due_for_def)
  ultimately show ?thesis using finish_tidy [OF t, of i] by (simp add: watch_check_def)
qed

lemma accept_tidy:
  "tidy_but {} {} p \<Longrightarrow> tidy_but {} {} (accept_check parse a r p)" "tidy_but {} {} p \<Longrightarrow> tidy_but {} {} (accept_reload a r p)"
proof -
  assume t: "tidy_but {} {} p"
  have reload: "tidy_but {} {} (reload_page i q) = tidy_but {} {} q" for i q by (simp add: tidy_but_def reload_page_def due_for_def)
  have restore: "tidy_but {} {} (restore_accepted parse a r q)" if "tidy_but {} {} q" for q
    using that by (simp add: restore_accepted_def reload_after_missing_def reload Let_def split: option.split)
  have "tidy_but {} {} (add_task (Accept_reload a r) p)" using t by (auto simp: tidy_but_def due_for_def add_task_def)
  with t restore show "tidy_but {} {} (accept_check parse a r p)" by (simp add: accept_check_def ensure_accepted_clean_def Let_def)
  show "tidy_but {} {} (accept_reload a r p)" using t by (simp add: accept_reload_def reload)
qed

lemma fired_tidy:
  assumes "tidy_but {} {} p" "n < length (tasks p)"
  shows "tidy_but {} {} (run_task parse (tasks p ! n) (p\<lparr>tasks := drop_nth n (tasks p)\<rparr>))"
proof -
  let ?q = "p\<lparr>tasks := drop_nth n (tasks p)\<rparr>" and ?t = "tasks p ! n"
  have tasks: "set (tasks p) = insert ?t (set (tasks ?q))"
    using id_take_nth_drop [OF assms(2)] by (metis drop_nth_def Suc_eq_plus1 list.simps(15) set_append Un_insert_right
        clean_page.ext_inject clean_page.surjective clean_page.update_convs(4))
  then have due: "due_for p = (case task_of_discard ?t of None \<Rightarrow> due_for ?q | Some i \<Rightarrow> insert i (due_for ?q))"
    by (auto simp: due_for_def split: option.split)
  show ?thesis
  proof (cases ?t)
    case (Accept_check a r)
    with assms(1) due tasks have "tidy_but {} {} ?q" by (simp add: tidy_but_def)
    with Accept_check accept_tidy(1) show ?thesis by simp
  next
    case (Accept_reload a r)
    with assms(1) due tasks have "tidy_but {} {} ?q" by (simp add: tidy_but_def)
    with Accept_reload accept_tidy(2) show ?thesis by simp
  next
    case (Discard_check i r)
    with assms(1) due tasks have "tidy_but {i} {} ?q" by (auto simp: tidy_but_def)
    with Discard_check discard_check_tidy show ?thesis by simp
  next
    case (Discard_reload i r)
    with assms(1) due tasks have "tidy_but {i} {} ?q" by (auto simp: tidy_but_def)
    with Discard_reload discard_reload_tidy show ?thesis by simp
  next
    case (Watch_check i)
    with assms(1) due tasks have "tidy_but {i} {i} ?q" by (auto simp: tidy_but_def)
    with Watch_check watch_check_tidy show ?thesis by simp
  qed
qed

lemma step_tidy: "tidy_but {} {} p \<Longrightarrow> tidy_but {} {} (clean_step parse e p)"
proof -
  assume t: "tidy_but {} {} p"
  have "tidy_but {} {} (clean_event_step parse e p)"
  proof (cases e)
    case (Task_fires n)
    with t fired_tidy show ?thesis by simp
  next
    case (Discards b)
    with t show ?thesis by (auto simp: discard_session_def tidy_but_def add_task_def due_for_def Let_def)
  next
    case (Accepts a)
    with t show ?thesis by (auto simp: accept_confirmed_def tidy_but_def add_task_def due_for_def)
  qed (use t in \<open>simp_all add: tidy_but_def due_for_def\<close>)
  then show ?thesis unfolding clean_step_def by (rule observers_tidy)
qed

interpretation tidying: closed_stepping "clean_step parse" "tidy_but {} {}" for parse
  by unfold_locales (rule step_tidy)

section \<open>Properties of runs\<close>


text \<open>
  C25: What hides the variants of a discarded session is taken back: as long as the style sheet of a session is in the
  page, a timer is running that removes it or keeps waiting for the framework to do its part.
\<close>

theorem hide_style_has_a_timer:
  "set (hide_styles (run_of (clean_step parse) es (loaded_page d c b))) \<subseteq>
   due_for (run_of (clean_step parse) es (loaded_page d c b))"
proof -
  have "tidy_but {} {} (loaded_page d c b)" by (simp add: tidy_but_def)
  from tidying.always_keeps [OF this, of parse es] show ?thesis by (simp add: tidy_but_def)
qed

lemma not_passed: "\<not> passed i r p \<Longrightarrow> current p \<in> {None, Some [], Some i}"
  by (cases "current p") (auto simp: passed_def deferred_recovery_superseded_def truthy_str_def opt_str_def)

lemma finish_reloads: "reloads (finish_if_gone i p) = reloads p"
  by (simp add: finish_if_gone_def remove_hide_style_def)

lemma watch_reloads: "reloads (watch_removal i p) = reloads p"
  by (simp add: watch_removal_def finish_reloads add_task_def)

definition reload_allowed :: "clean_page \<Rightarrow> clean_page \<Rightarrow> bool" where
  "reload_allowed p q \<longleftrightarrow>
     reloads q = reloads p \<or> (\<exists>i. reloads q = reloads p @ [i] \<and> current p \<in> {None, Some [], Some i})"

lemma allowed_refl [simp]: "reloads q = reloads p \<Longrightarrow> reload_allowed p q"
  by (simp add: reload_allowed_def)

lemma missing_allowed: "reload_allowed p (reload_after_missing a r (p\<lparr>doc := d\<rparr>))"
  using not_passed [of "ac_id a" r p]
  by (auto simp: reload_after_missing_def reload_allowed_def reload_page_def passed_def)

lemma restore_allowed: "reload_allowed p (restore_accepted parse a r (p\<lparr>doc := d\<rparr>))"
  using missing_allowed [of p a r] by (simp add: restore_accepted_def Let_def split: option.split)

lemma task_allowed: "reload_allowed p (run_task parse t p)"
proof (cases t)
  case (Accept_check a r)
  have "reload_allowed p (restore_accepted parse a r p)" using restore_allowed [of p parse a r "doc p"] by simp
  with Accept_check restore_allowed show ?thesis
    by (simp add: accept_check_def ensure_accepted_clean_def add_task_def Let_def)
next
  case (Accept_reload a r)
  then show ?thesis using not_passed [of "ac_id a" r p] by (auto simp: accept_reload_def reload_allowed_def reload_page_def)
next
  case (Discard_check i r)
  then show ?thesis
    by (simp add: discard_check_def release_discarded_def remove_hide_style_def watch_reloads add_task_def Let_def)
next
  case (Discard_reload i r)
  then show ?thesis
    using not_passed [of i r p]
    by (auto simp: discard_reload_def remove_hide_style_def watch_reloads reload_allowed_def reload_page_def Let_def)
next
  case (Watch_check i)
  moreover have "\<not> truthy_str (current p) \<Longrightarrow> current p \<in> {None, Some []}" by (cases "current p") (auto simp: truthy_str_def opt_str_def)
  ultimately show ?thesis
    by (auto simp: watch_check_def remove_hide_style_def finish_reloads reload_allowed_def reload_page_def add_task_def)
qed

lemma observers_reloads: "reloads (observers_run p) = reloads p"
proof -
  have "reloads (foldl (\<lambda>q j. finish_if_gone j q) q js) = reloads q" for q js
    by (induction js arbitrary: q) (simp_all add: finish_reloads)
  then show ?thesis by (simp add: observers_run_def)
qed

text \<open>
  A reload never takes away new work: when the page is reloaded for an ended session, no other session is going on.
\<close>

theorem reload_spares_other_sessions:
  "reloads (clean_step parse e p) = reloads p \<or>
   (\<exists>i. reloads (clean_step parse e p) = reloads p @ [i] \<and> current p \<in> {None, Some [], Some i})"
proof (cases "\<exists>n. e = Task_fires n \<and> n < length (tasks p)")
  case True
  then obtain n where n: "e = Task_fires n" "n < length (tasks p)" by blast
  from task_allowed [of "p\<lparr>tasks := drop_nth n (tasks p)\<rparr>" parse "tasks p ! n"] show ?thesis
    by (simp add: reload_allowed_def clean_step_def observers_reloads n)
next
  case False
  have "reloads (clean_event_step parse e p) = reloads p"
    using False by (cases e) (simp_all add: accept_confirmed_def discard_session_def add_task_def Let_def)
  then show ?thesis by (simp add: clean_step_def observers_reloads)
qed

section \<open>Unwinding by hand\<close>

text \<open>All parts with some numbers replaced, in one walk.\<close>

fun replace_all :: "nat set \<Rightarrow> (part_info \<Rightarrow> part list \<Rightarrow> part list) \<Rightarrow> part list \<Rightarrow> part list" where
  "replace_all S f [] = []"
| "replace_all S f (Words n s # ps) = Words n s # replace_all S f ps"
| "replace_all S f (Part e ks # ps) =
     (if pt_id e \<in> S then f e ks else [Part e (replace_all S f ks)]) @ replace_all S f ps"

definition ids_in :: "part list \<Rightarrow> nat set" where "ids_in d = pt_id ` set (infos d)"

lemma infos_append: "infos (xs @ ys) = infos xs @ infos ys"
  by (induction xs rule: infos.induct) simp_all

lemma replace_absent: "i \<notin> ids_in d \<Longrightarrow> replace_part i f d = d"
  by (induction i f d rule: replace_part.induct) (auto simp: ids_in_def)

lemma replace_part_append: "replace_part i f (xs @ ys) = replace_part i f xs @ replace_part i f ys"
  by (induction i f xs rule: replace_part.induct) simp_all

text \<open>No part with a number of \<open>S\<close> lies in another one.\<close>

fun flat :: "nat set \<Rightarrow> part list \<Rightarrow> bool" where
  "flat S [] = True"
| "flat S (Words n s # ps) = flat S ps"
| "flat S (Part e ks # ps) = ((pt_id e \<in> S \<longrightarrow> ids_in ks \<inter> S = {}) \<and> flat S ks \<and> flat S ps)"

lemma replace_all_absent: "ids_in d \<inter> T = {} \<Longrightarrow> replace_all T f d = d"
  by (induction T f d rule: replace_all.induct) (auto simp: ids_in_def)

lemma replace_more:
  "(\<And>e ks. ids_in (f e ks) \<subseteq> ids_in ks) \<Longrightarrow> flat S d \<Longrightarrow> T \<subseteq> S \<Longrightarrow> i \<in> S \<Longrightarrow>
   replace_part i f (replace_all T f d) = replace_all (insert i T) f d"
proof (induction T f d rule: replace_all.induct)
  case (3 T f e ks ps)
  have "replace_part i f (f e ks) = f e ks" if "pt_id e \<in> T"
  proof (rule replace_absent)
    have "pt_id e \<in> S" using that 3(5) by blast
    with 3(4) have "ids_in ks \<inter> S = {}" by simp
    with 3(6) 3(3) [of e ks] show "i \<notin> ids_in (f e ks)" by blast
  qed
  moreover have "replace_all T f ks = ks" if "pt_id e = i"
    using that 3(4,5,6) by (intro replace_all_absent) auto
  ultimately show ?case using 3 by (auto simp: replace_part_append)
qed simp_all

lemma replace_each:
  assumes "\<And>e ks. ids_in (f e ks) \<subseteq> ids_in ks" "flat S d"
  shows "set ws \<subseteq> S \<Longrightarrow> T \<subseteq> S \<Longrightarrow> foldl (\<lambda>d w. replace_part w f d) (replace_all T f d) ws = replace_all (T \<union> set ws) f d"
proof (induction ws arbitrary: T)
  case (Cons w ws)
  have "replace_part w f (replace_all T f d) = replace_all (insert w T) f d"
    using replace_more [of f S d T w] assms Cons.prems by simp
  with Cons show ?case by simp
qed simp

lemma replace_none: "replace_all {} f d = d"
  by (induction "{} :: nat set" f d rule: replace_all.induct) simp_all

lemma ids_simps [simp]:
  "ids_in [] = {}" "ids_in (Words n s # ps) = ids_in ps" "ids_in (Part e ks # ps) = insert (pt_id e) (ids_in ks \<union> ids_in ps)"
  by (auto simp: ids_in_def)

lemma variant_ids: "variant_in v ks = Some (e, cs) \<Longrightarrow> ids_in cs \<subseteq> ids_in ks"
  by (induction v ks rule: variant_in.induct) (auto split: if_splits option.splits)

lemma first_element_ids: "first_element cs = Some c \<Longrightarrow> ids_in [c] \<subseteq> ids_in cs"
  by (induction cs rule: first_element.induct) auto

lemma release_ids: "ids_in (release_wrapper e ks) \<subseteq> ids_in ks"
  by (auto simp: release_wrapper_def split: option.split prod.split dest!: variant_ids first_element_ids)

lemma unwrap_ids: "ids_in (unwrap_variant v e ks) \<subseteq> ids_in ks"
  by (auto simp: unwrap_variant_def split: option.split prod.split dest!: variant_ids)

text \<open>
  A page before the session, and with its wrappers: around some of the elements (all that one source element renders)
  a wrapper with the original and the variants.
\<close>

fun wrapped :: "(nat \<Rightarrow> (part_info \<times> part_info \<times> part list) option) \<Rightarrow> part list \<Rightarrow> part list" where
  "wrapped g [] = []"
| "wrapped g (Words n s # ps) = Words n s # wrapped g ps"
| "wrapped g (Part e ks # ps) =
     (case g (pt_id e) of
        Some (w, o1, vs) \<Rightarrow> Part w (Part o1 [Part e ks] # vs)
      | None \<Rightarrow> Part e (wrapped g ks)) # wrapped g ps"

definition wraps_session :: "string \<Rightarrow> (nat \<Rightarrow> (part_info \<times> part_info \<times> part list) option) \<Rightarrow> bool" where
  "wraps_session i g \<longleftrightarrow> (\<forall>n w o1 vs. g n = Some (w, o1, vs) \<longrightarrow>
     pt_variants w = Some i \<and> pt_variant o1 = Some ''original'' \<and> pt_variants o1 = None \<and>
     (\<forall>x \<in> set (infos vs). pt_variants x \<noteq> Some i))"

definition not_in_session :: "string \<Rightarrow> part list \<Rightarrow> bool" where
  "not_in_session i d \<longleftrightarrow> (\<forall>x \<in> set (infos d). pt_variants x \<noteq> Some i)"

text \<open>Different elements have different numbers.\<close>

definition well_numbered :: "part list \<Rightarrow> bool" where "well_numbered d \<longleftrightarrow> inj_on pt_id (set (infos d))"

lemma wrapper_ids: "i \<noteq> [] \<Longrightarrow> set (discarded_wrappers i d) = pt_id ` {x \<in> set (infos d). pt_variants x = Some i}"
  by (auto simp: discarded_wrappers_def)

definition numbers_of :: "string \<Rightarrow> nat set \<Rightarrow> part list \<Rightarrow> bool" where
  "numbers_of i S d \<longleftrightarrow> (\<forall>x \<in> set (infos d). pt_id x \<in> S \<longleftrightarrow> pt_variants x = Some i)"

lemma wrapper_numbers: "well_numbered d \<Longrightarrow> i \<noteq> [] \<Longrightarrow> numbers_of i (set (discarded_wrappers i d)) d"
  by (auto simp: numbers_of_def wrapper_ids well_numbered_def inj_on_def)

lemma not_in_session_simps [simp]:
  "not_in_session i []" "not_in_session i (Words n s # ps) = not_in_session i ps"
  "not_in_session i (Part e ks # ps) \<longleftrightarrow> pt_variants e \<noteq> Some i \<and> not_in_session i ks \<and> not_in_session i ps"
  by (auto simp: not_in_session_def)

lemma numbers_simps [simp]:
  "numbers_of i S []" "numbers_of i S (Words n s # ps) = numbers_of i S ps"
  "numbers_of i S (Part e ks # ps) \<longleftrightarrow> (pt_id e \<in> S \<longleftrightarrow> pt_variants e = Some i) \<and> numbers_of i S ks \<and> numbers_of i S ps"
  by (auto simp: numbers_of_def)

lemma outside_flat: "numbers_of i S d \<Longrightarrow> not_in_session i d \<Longrightarrow> ids_in d \<inter> S = {}"
  by (auto simp: numbers_of_def not_in_session_def ids_in_def)

lemma flat_outside: "ids_in d \<inter> S = {} \<Longrightarrow> flat S d"
  by (induction S d rule: flat.induct) auto

lemma wraps_at: "wraps_session i g \<Longrightarrow> g n = Some (w, o1, vs) \<Longrightarrow>
    pt_variants w = Some i \<and> pt_variant o1 = Some ''original'' \<and> pt_variants o1 = None \<and> not_in_session i vs"
  by (auto simp: wraps_session_def not_in_session_def)

lemma wrapped_flat:
  "wraps_session i g \<Longrightarrow> not_in_session i d \<Longrightarrow> numbers_of i S (wrapped g d) \<Longrightarrow> flat S (wrapped g d)"
proof (induction g d rule: wrapped.induct)
  case (3 g e ks ps)
  show ?case
  proof (cases "g (pt_id e)")
    case None
    with 3 show ?thesis by auto
  next
    case (Some a)
    then obtain w o1 vs where g: "g (pt_id e) = Some (w, o1, vs)" by (cases a) auto
    from wraps_at [OF 3(3) g] 3 g outside_flat [of i S ks] outside_flat [of i S vs] flat_outside show ?thesis by auto
  qed
qed simp_all

lemma release_wrapped:
  "wraps_session i g \<Longrightarrow> not_in_session i d \<Longrightarrow> numbers_of i S (wrapped g d) \<Longrightarrow> replace_all S release_wrapper (wrapped g d) = d"
proof (induction g d rule: wrapped.induct)
  case (3 g e ks ps)
  show ?case
  proof (cases "g (pt_id e)")
    case None
    with 3 show ?thesis by auto
  next
    case (Some a)
    then obtain w o1 vs where g: "g (pt_id e) = Some (w, o1, vs)" by (cases a) auto
    from wraps_at [OF 3(3) g] 3 g show ?thesis by (auto simp: release_wrapper_def)
  qed
qed simp_all

lemma release_all:
  assumes "wraps_session i g" "not_in_session i d" "well_numbered (wrapped g d)" "i \<noteq> []"
  shows "foldl (\<lambda>d w. replace_part w release_wrapper d) (wrapped g d) (discarded_wrappers i (wrapped g d)) = d"
proof -
  let ?S = "set (discarded_wrappers i (wrapped g d))"
  note n = wrapper_numbers [OF assms(3,4)]
  show ?thesis
    using replace_each [of release_wrapper ?S "wrapped g d", OF release_ids wrapped_flat [OF assms(1,2) n], of "discarded_wrappers i (wrapped g d)" "{}"]
      release_wrapped [OF assms(1,2) n] by (simp add: replace_none)
qed

lemma hide_outside: "not_in_session i d \<Longrightarrow> hide_parts i d = d"
  by (induction i d rule: hide_parts.induct) auto

definition hidden_wraps ::
  "(nat \<Rightarrow> (part_info \<times> part_info \<times> part list) option) \<Rightarrow> nat \<Rightarrow> (part_info \<times> part_info \<times> part list) option" where
  "hidden_wraps g n = map_option (\<lambda>(w, o1, vs). (w\<lparr>pt_display_none := True\<rparr>, o1, vs)) (g n)"

lemma hide_wrapped: "wraps_session i g \<Longrightarrow> not_in_session i d \<Longrightarrow> hide_parts i (wrapped g d) = wrapped (hidden_wraps g) d"
proof (induction g d rule: wrapped.induct)
  case (3 g e ks ps)
  show ?case
  proof (cases "g (pt_id e)")
    case None
    with 3 show ?thesis by (simp add: hidden_wraps_def)
  next
    case (Some a)
    then obtain w o1 vs where g: "g (pt_id e) = Some (w, o1, vs)" by (cases a) auto
    from wraps_at [OF 3(3) g] 3 g show ?thesis by (simp add: hidden_wraps_def hide_outside)
  qed
qed simp_all

lemma hidden_session: "wraps_session i g \<Longrightarrow> wraps_session i (hidden_wraps g)"
  by (auto simp: wraps_session_def hidden_wraps_def)

lemma infos_hide:
  "infos (hide_parts i d) = map (\<lambda>e. if pt_variants e = Some i then e\<lparr>pt_display_none := True\<rparr> else e) (infos d)"
  by (induction i d rule: hide_parts.induct) simp_all

lemma hide_numbered: "well_numbered d \<Longrightarrow> well_numbered (hide_parts i d)"
proof -
  have image: "inj_on f A \<Longrightarrow> (\<And>x. f (h x) = f x) \<Longrightarrow> inj_on f (h ` A)" for f :: "part_info \<Rightarrow> nat" and h A
    by (auto simp: inj_on_def)
  show "well_numbered d \<Longrightarrow> ?thesis" unfolding well_numbered_def infos_hide set_map by (rule image) simp_all
qed

lemma not_owned: "\<forall>x \<in> set (infos d). \<not> pt_owned x \<Longrightarrow> \<not> owned_at i False d"
  by (induction i "False" d rule: owned_at.induct) auto

lemma none_owned: "\<forall>x \<in> set (infos d). \<not> pt_owned x \<Longrightarrow> \<not> any_owned ws d"
  by (auto simp: any_owned_def not_owned split: list.split)

text \<open>What the user can do before the timer fires.\<close>

definition new_work :: "clean_event \<Rightarrow> bool" where
  "new_work e = (case e of New_configuration \<Rightarrow> True | Session_is c b \<Rightarrow> True | _ \<Rightarrow> False)"

lemma new_work_keeps:
  "list_all new_work es \<Longrightarrow> watched p = [] \<Longrightarrow>
   doc (run_of (clean_step parse) es p) = doc p \<and> tasks (run_of (clean_step parse) es p) = tasks p \<and>
   watched (run_of (clean_step parse) es p) = [] \<and> hide_styles (run_of (clean_step parse) es p) = hide_styles p"
proof (induction es arbitrary: p)
  case (Cons e es)
  have "doc (clean_step parse e p) = doc p \<and> tasks (clean_step parse e p) = tasks p \<and> watched (clean_step parse e p) = [] \<and>
      hide_styles (clean_step parse e p) = hide_styles p"
    using Cons.prems by (cases e) (simp_all add: new_work_def clean_step_def observers_run_def)
  with Cons show ?case by simp
qed simp

lemma fires_discard:
  assumes "tasks p = [Discard_check i r]" "watched p = []" "i \<noteq> []" "\<forall>x \<in> set (infos (doc p)). \<not> pt_owned x"
    "doc p = wrapped g d" "wraps_session i g" "not_in_session i d" "well_numbered (wrapped g d)"
  shows "doc (clean_step parse (Task_fires 0) p) = (if discarded_wrappers i (doc p) = [] then doc p else d) \<and>
    i \<notin> set (hide_styles (clean_step parse (Task_fires 0) p))"
  using release_all [OF assms(6,7,8,3)] none_owned [OF assms(4)] assms(1,2,5)
  by (auto simp: clean_step_def observers_run_def drop_nth_def discard_check_def release_discarded_def remove_hide_style_def Let_def)

lemma wrapped_unchanged:
  "wraps_session i g \<Longrightarrow> i \<noteq> [] \<Longrightarrow> discarded_wrappers i (wrapped g d) = [] \<Longrightarrow> wrapped g d = d"
proof (induction g d rule: wrapped.induct)
  case (3 g e ks ps)
  show ?case
  proof (cases "g (pt_id e)")
    case None
    with 3 show ?thesis by (simp add: discarded_wrappers_def split: if_splits)
  next
    case (Some a)
    then obtain w o1 vs where g: "g (pt_id e) = Some (w, o1, vs)" by (cases a) auto
    from wraps_at [OF 3(3) g] 3 g show ?thesis by (simp add: discarded_wrappers_def)
  qed
qed (simp_all add: discarded_wrappers_def)

text \<open>
  C16: A discard gives the page back: on a static page every element that the session had wrapped, however many the one
  source element renders, is put where it was and everything else of the page is as before; whether the originals were
  shown or the wrappers hidden meanwhile, and whatever the user has begun by the time the timer fires.
\<close>

theorem discard_restores_page:
  assumes "wraps_session i g" "not_in_session i d" "well_numbered (wrapped g d)" "i \<noteq> []"
    and "\<forall>x \<in> set (infos (wrapped g d)). \<not> pt_owned x" and "list_all new_work es"
  shows "doc (run_of (clean_step parse) (Discards b # es @ [Task_fires 0]) (loaded_page (wrapped g d) (Some i) False)) = d"
proof -
  let ?p = "clean_step parse (Discards b) (loaded_page (wrapped g d) (Some i) False)"
  obtain h where h: "wraps_session i h" "doc ?p = wrapped h d" "well_numbered (wrapped h d)" "\<forall>x \<in> set (infos (doc ?p)). \<not> pt_owned x"
  proof (cases "discarded_wrappers i (wrapped g d) = [] \<or> b")
    case True
    then have "doc ?p = wrapped g d"
      using assms(4) by (auto simp: clean_step_def observers_run_def discard_session_def add_task_def truthy_str_def opt_str_def Let_def)
    with assms show thesis by (intro that [of g]) simp_all
  next
    case False
    then have doc: "doc ?p = wrapped (hidden_wraps g) d"
      using assms(4) hide_wrapped [OF assms(1,2)]
      by (auto simp: clean_step_def observers_run_def discard_session_def add_task_def truthy_str_def opt_str_def Let_def)
    have "well_numbered (wrapped (hidden_wraps g) d)"
      using hide_numbered [OF assms(3), of i] by (simp add: hide_wrapped [OF assms(1,2)])
    moreover have "\<forall>x \<in> set (infos (doc ?p)). \<not> pt_owned x"
      using assms(5) unfolding doc hide_wrapped [OF assms(1,2), symmetric] infos_hide by auto
    ultimately show thesis using doc hidden_session [OF assms(1)] by (intro that [of "hidden_wraps g"])
  qed
  have p: "tasks ?p = [Discard_check i 0]" "watched ?p = []"
    using assms(4) by (auto simp: clean_step_def observers_run_def discard_session_def add_task_def truthy_str_def opt_str_def
        loaded_page_def Let_def)
  let ?q = "run_of (clean_step parse) es ?p"
  from new_work_keeps [OF assms(6) p(2), of parse] p h
  have q: "tasks ?q = [Discard_check i 0]" "watched ?q = []" "doc ?q = wrapped h d" "\<forall>x \<in> set (infos (doc ?q)). \<not> pt_owned x"
    by simp_all
  from fires_discard [OF q(1,2) assms(4) q(4,3) h(1) assms(2) h(3), of parse] wrapped_unchanged [OF h(1) assms(4), of d]
  show ?thesis by (simp add: run_of_append q(3) split: if_splits)
qed

definition part_el :: "nat \<Rightarrow> string \<Rightarrow> part_info" where
  "part_el n tag = \<lparr>pt_id = n, pt_tag = tag, pt_classes = [], pt_variants = None, pt_carbonize = None, pt_variant = None,
     pt_display_none = False, pt_owned = False\<rparr>"

text \<open>A list of two items, each with a wrapper of its own.\<close>

definition two_items :: "part list" where
  "two_items = [Part (part_el 0 ''body'') [Part (part_el 1 ''ul'')
     [Part (part_el 2 ''li'') [Words 3 ''one''], Part (part_el 4 ''li'') [Words 5 ''two'']], Words 6 ''end'']]"

definition item_wraps :: "nat \<Rightarrow> (part_info \<times> part_info \<times> part list) option" where
  "item_wraps n = (if n = 2 \<or> n = 4 then
     Some ((part_el (10 * n) ''div'')\<lparr>pt_variants := Some ''s1''\<rparr>, (part_el (10 * n + 1) ''div'')\<lparr>pt_variant := Some ''original''\<rparr>,
       [Part ((part_el (10 * n + 2) ''div'')\<lparr>pt_variant := Some ''1''\<rparr>) [Words (10 * n + 3) ''new'']])
     else None)"

lemma discard_restores_page_witness:
  "doc (run_of (clean_step (\<lambda>d s. [])) [Discards False, New_configuration, Task_fires 0]
     (loaded_page (wrapped item_wraps two_items) (Some ''s1'') False)) = two_items"
  using discard_restores_page [of "''s1''" item_wraps two_items "[New_configuration]" "\<lambda>d s. []" False]
  by (simp add: wraps_session_def not_in_session_def well_numbered_def item_wraps_def two_items_def part_el_def new_work_def inj_on_def
      split: if_splits)

section \<open>Findings\<close>

text \<open>
  A variant that is a text without an element leaves no selector, so that the page never counts as clean: the text is
  put in a second time and the page is reloaded.
\<close>

definition text_variant :: "part list" where
  "text_variant = [Part (part_el 0 ''body'') [Part ((part_el 1 ''div'')\<lparr>pt_variants := Some ''s1''\<rparr>)
     [Part ((part_el 2 ''div'')\<lparr>pt_variant := Some ''1''\<rparr>) [Words 3 ''new'']]]]"

fun text_of :: "part list \<Rightarrow> string" where
  "text_of [] = []"
| "text_of (Words n s # ps) = s @ text_of ps"
| "text_of (Part e ks # ps) = text_of ks @ text_of ps"

definition text_parser :: "part list \<Rightarrow> string \<Rightarrow> part list" where "text_parser d s = [Words 9 s]"

lemma text_variant_put_in_twice:
  "let p = run_of (clean_step text_parser) [Accepts (snapshot_accepted text_of (Some 1) text_variant ''s1'' ''1''), Task_fires 0]
             (loaded_page text_variant (Some ''s1'') False)
   in text_of (doc p) = ''newnew'' \<and> reloads p = [''s1'']"
  by code_simp

end
