(* ===== verification/LiveCapture.thy ===== *)
theory LiveCapture imports LiveInsert begin

text \<open>
  What the live overlay decides about backgrounds, of \<open>agent/skills/impeccable/scripts/live-browser.js\<close>: on which
  colour an element is captured, whether something is painted behind it, which ancestor is captured in its place and
  cropped (lines 8013 to 8220), the tone the shader dissolves into, taken from the pixels (8391 to 8502), and whether
  the page is light or dark (9821 to 9861). Colours are the strings \<open>getComputedStyle\<close> gives; pixels are the four
  bytes of \<open>getImageData\<close>.
\<close>

section \<open>Transparent colours\<close>

fun after_paren :: "string \<Rightarrow> string option" where
  "after_paren s =
     (if starts_with ''rgba('' s then Some (drop 5 s) else if starts_with ''rgb('' s then Some (drop 4 s) else None)"

text \<open>What the first match of \<open>/rgba?\(([^)]+)\)/\<close> holds between its parentheses.\<close>

fun rgb_inside :: "string \<Rightarrow> string option" where
  "rgb_inside [] = None"
| "rgb_inside (c # s) =
     (case after_paren (c # s) of
        Some r \<Rightarrow>
          let args = takeWhile (\<lambda>d. d \<noteq> CHR '')'') r
          in if args \<noteq> [] \<and> length args < length r then Some args else rgb_inside s
      | None \<Rightarrow> rgb_inside s)"

text \<open>Whether \<open>parseFloat\<close> of a text is zero: the digits before and after the point are all zeros, and there is one.\<close>

definition unsigned :: "string \<Rightarrow> string" where
  "unsigned s = (case s of c # r \<Rightarrow> if c = CHR ''-'' \<or> c = CHR ''+'' then r else s | [] \<Rightarrow> [])"

definition parses_to_zero :: "string \<Rightarrow> bool" where
  "parses_to_zero s =
     (let u = unsigned (trim s); whole = takeWhile is_digit u; r = dropWhile is_digit u;
          frac = (case r of c # q \<Rightarrow> if c = CHR ''.'' then takeWhile is_digit q else [] | [] \<Rightarrow> [])
      in whole @ frac \<noteq> [] \<and> list_all (\<lambda>d. d = CHR ''0'') (whole @ frac))"

definition is_transparent_color :: "string \<Rightarrow> bool" where
  "is_transparent_color s =
     (s = [] \<or> s = ''transparent'' \<or>
      (case rgb_inside s of
         None \<Rightarrow> False
       | Some args \<Rightarrow> (case map trim (split_on (CHR '','') args) of [r, g, b, a] \<Rightarrow> parses_to_zero a | _ \<Rightarrow> False)))"

section \<open>What is painted behind an element\<close>

text \<open>An element of the chain above the captured one: its colour, image, rectangle and children.\<close>

record layer =
  ly_color :: string
  ly_image :: string
  ly_rect :: rect

record child_layer = layer +
  ly_position :: string

record surround = layer +
  ly_children :: "child_layer list"

definition has_image :: "string \<Rightarrow> bool" where "has_image s \<longleftrightarrow> s \<noteq> [] \<and> s \<noteq> ''none''"

fun first_color :: "surround list \<Rightarrow> string option" where
  "first_color [] = None"
| "first_color (n # ns) = (if \<not> is_transparent_color (ly_color n) then Some (ly_color n) else first_color ns)"

text \<open>\<open>up\<close> are the ancestors, the nearest first, up to the root element.\<close>

definition resolve_canvas_background :: "surround \<Rightarrow> surround list \<Rightarrow> string option" where
  "resolve_canvas_background el up =
     (if \<not> is_transparent_color (ly_color el) then None
      else if has_image (ly_image el) then None
      else Some (case first_color up of Some c \<Rightarrow> c | None \<Rightarrow> ''#ffffff''))"

definition covers :: "rect \<Rightarrow> child_layer \<Rightarrow> bool" where
  "covers r c \<longleftrightarrow>
     (ly_position c = ''absolute'' \<or> ly_position c = ''fixed'') \<and>
     (\<not> is_transparent_color (ly_color c) \<or> has_image (ly_image c)) \<and>
     rect_width (ly_rect c) \<ge> rect_width r * (9 / 10) \<and> rect_height (ly_rect c) \<ge> rect_height r * (9 / 10)"

definition paints_backdrop :: "surround \<Rightarrow> bool" where
  "paints_backdrop n = (has_image (ly_image n) \<or> list_ex (covers (ly_rect n)) (ly_children n))"

text \<open>The root element is the last of the chain and not looked at.\<close>

definition find_backdrop_ancestor :: "surround list \<Rightarrow> surround option" where
  "find_backdrop_ancestor up = List.find paints_backdrop (butlast up)"

definition paints_proxy_surface :: "surround \<Rightarrow> bool" where
  "paints_proxy_surface n = (\<not> is_transparent_color (ly_color n) \<or> has_image (ly_image n) \<or> paints_backdrop n)"

definition encloses :: "rect \<Rightarrow> rect \<Rightarrow> bool" where
  "encloses n e \<longleftrightarrow>
     rect_width n > 0 \<and> rect_height n > 0 \<and> rect_x n \<le> rect_x e + 1 / 2 \<and> rect_y n \<le> rect_y e + 1 / 2 \<and>
     rect_right n \<ge> rect_right e - 1 / 2 \<and> rect_bottom n \<ge> rect_bottom e - 1 / 2"

definition find_capture_root :: "rect \<Rightarrow> surround list \<Rightarrow> surround option" where
  "find_capture_root e up = List.find (\<lambda>n. encloses (ly_rect n) e \<and> paints_proxy_surface n) (butlast up)"

text \<open>The part of an ancestor's picture that shows the element, \<open>k\<close> pixels to the unit.\<close>

record crop =
  cr_x :: real
  cr_y :: real
  cr_width :: real
  cr_height :: real
  canvas_width :: real
  canvas_height :: real

definition crop_of :: "real \<Rightarrow> rect \<Rightarrow> rect \<Rightarrow> crop" where
  "crop_of k e a =
     \<lparr>cr_x = (rect_x e - rect_x a) * k, cr_y = (rect_y e - rect_y a) * k, cr_width = rect_width e * k,
      cr_height = rect_height e * k, canvas_width = max 1 (js_round (rect_width e * k)),
      canvas_height = max 1 (js_round (rect_height e * k))\<rparr>"

definition capture_scale :: "real \<Rightarrow> real" where
  "capture_scale ratio = min (if ratio = 0 then 1 else ratio) 2"

text \<open>How the element is captured, without the shader's proxy.\<close>

datatype capture = Plain_capture "string option" | White_capture | Ancestor_capture surround crop

definition capture_plan :: "real \<Rightarrow> surround \<Rightarrow> surround list \<Rightarrow> capture" where
  "capture_plan k el up =
     (let bg = resolve_canvas_background el up in
      if bg \<noteq> Some ''#ffffff'' then Plain_capture bg
      else case find_backdrop_ancestor up of
          None \<Rightarrow> White_capture
        | Some n \<Rightarrow> Ancestor_capture n (crop_of k (ly_rect el) (ly_rect n)))"

text \<open>The proxy: \<open>None\<close> where it fails and the element itself is captured.\<close>

definition proxy_plan :: "real \<Rightarrow> surround \<Rightarrow> surround list \<Rightarrow> (surround \<times> crop) option" where
  "proxy_plan k el up =
     (case find_capture_root (ly_rect el) up of
        None \<Rightarrow> None
      | Some n \<Rightarrow>
          let c = crop_of k (ly_rect el) (ly_rect n) in
          if cr_width c \<le> 0 \<or> cr_height c \<le> 0 then None else Some (n, c))"

section \<open>Tones\<close>

type_synonym pixel = "nat \<times> nat \<times> nat \<times> nat"
type_synonym tone = "real \<times> real \<times> real"

definition SHADER_PAPER_FALLBACK :: tone where "SHADER_PAPER_FALLBACK = (39 / 40, 193 / 200, 191 / 200)"

fun chan_r :: "pixel \<Rightarrow> nat" where "chan_r (r, g, b, a) = r"
fun chan_g :: "pixel \<Rightarrow> nat" where "chan_g (r, g, b, a) = g"
fun chan_b :: "pixel \<Rightarrow> nat" where "chan_b (r, g, b, a) = b"
fun chan_a :: "pixel \<Rightarrow> nat" where "chan_a (r, g, b, a) = a"

text \<open>Every \<open>n\<close>th of a list, the first included.\<close>

definition strided :: "nat \<Rightarrow> 'a list \<Rightarrow> 'a list" where
  "strided n xs = map (\<lambda>k. xs ! (k * n)) [0..<(length xs + n - 1) div n]"

definition mean01 :: "nat list \<Rightarrow> real" where
  "mean01 xs = real (sum_list xs) / real (length xs) / 255"

definition tone_of :: "pixel list \<Rightarrow> tone" where
  "tone_of ps = (mean01 (map chan_r ps), mean01 (map chan_g ps), mean01 (map chan_b ps))"

definition average_rgb :: "pixel list \<Rightarrow> tone" where
  "average_rgb data = (let ps = strided 4 data in if ps = [] then SHADER_PAPER_FALLBACK else tone_of ps)"

definition bucket_key :: "pixel \<Rightarrow> nat \<times> nat \<times> nat" where
  "bucket_key p = (chan_r p div 16, chan_g p div 16, chan_b p div 16)"

text \<open>A bucket is its key with its pixels, in the order in which the buckets were made.\<close>

fun put_group :: "('a \<Rightarrow> 'k) \<Rightarrow> 'a \<Rightarrow> ('k \<times> 'a list) list \<Rightarrow> ('k \<times> 'a list) list" where
  "put_group f p [] = [(f p, [p])]"
| "put_group f p ((k, ps) # bs) = (if k = f p then (k, ps @ [p]) # bs else (k, ps) # put_group f p bs)"

definition groups_of :: "('a \<Rightarrow> 'k) \<Rightarrow> 'a list \<Rightarrow> ('k \<times> 'a list) list" where
  "groups_of f ps = foldl (\<lambda>bs p. put_group f p bs) [] ps"

definition buckets_of :: "pixel list \<Rightarrow> ((nat \<times> nat \<times> nat) \<times> pixel list) list" where
  "buckets_of ps = groups_of bucket_key ps"

fun biggest :: "('k \<times> 'a list) list \<Rightarrow> 'a list option \<Rightarrow> 'a list option" where
  "biggest [] best = best"
| "biggest ((k, ps) # bs) best =
     biggest bs (case best of None \<Rightarrow> Some ps | Some q \<Rightarrow> if length ps > length q then Some ps else Some q)"

definition visible_pixels :: "pixel list \<Rightarrow> pixel list" where
  "visible_pixels data = filter (\<lambda>p. chan_a p \<ge> 16) (strided (max 1 (length data div 6000)) data)"

definition dominant_rgb :: "pixel list \<Rightarrow> tone option" where
  "dominant_rgb data = map_option tone_of (biggest (buckets_of (visible_pixels data)) None)"

text \<open>The twelve points around a rectangle, three on each side.\<close>

definition around_points :: "real \<Rightarrow> real \<Rightarrow> real \<Rightarrow> real \<Rightarrow> (real \<times> real) list" where
  "around_points sx sy sw sh =
     (let pad = max 2 (js_round (min sw sh * (3 / 25)));
          fx = map (\<lambda>f. sx + sw * f) [1 / 5, 1 / 2, 4 / 5]; fy = map (\<lambda>f. sy + sh * f) [1 / 5, 1 / 2, 4 / 5]
      in concat (map (\<lambda>x. [(x, sy - pad), (x, sy + sh + pad)]) fx) @ concat (map (\<lambda>y. [(sx - pad, y), (sx + sw + pad, y)]) fy))"

definition sample_points :: "real \<Rightarrow> real \<Rightarrow> real \<Rightarrow> real \<Rightarrow> real \<Rightarrow> real \<Rightarrow> (real \<times> real) list" where
  "sample_points sx sy sw sh w h =
     map (\<lambda>(x, y). (max 0 (min (w - 1) (js_round x)), max 0 (min (h - 1) (js_round y)))) (around_points sx sy sw sh)"

text \<open>\<open>pixel_at\<close> reads one pixel of the ancestor's picture.\<close>

definition sample_surrounding :: "(real \<times> real \<Rightarrow> pixel) \<Rightarrow> real \<Rightarrow> real \<Rightarrow> real \<Rightarrow> real \<Rightarrow> real \<Rightarrow> real \<Rightarrow> tone option" where
  "sample_surrounding pixel_at sx sy sw sh w h =
     (let ps = filter (\<lambda>p. chan_a p \<noteq> 0) (map pixel_at (sample_points sx sy sw sh w h))
      in if ps = [] then None else Some (tone_of ps))"

section \<open>Light or dark\<close>

definition skip_white :: "string \<Rightarrow> string" where "skip_white s = dropWhile white_space s"

definition take_number :: "string \<Rightarrow> (nat \<times> string) option" where
  "take_number s = (case takeWhile is_digit s of [] \<Rightarrow> None | ds \<Rightarrow> Some (read_nat ds, dropWhile is_digit s))"

definition after_comma :: "string \<Rightarrow> string option" where
  "after_comma s = (case skip_white s of [] \<Rightarrow> None | c # r \<Rightarrow> if c = CHR '','' then Some (skip_white r) else None)"

definition closes :: "string \<Rightarrow> bool" where "closes s = starts_with '')'' (skip_white s)"

text \<open>\<open>parseFloat\<close> of digits and points, \<open>None\<close> where it is no number.\<close>

definition decimal :: "string \<Rightarrow> real option" where
  "decimal s =
     (let whole = takeWhile is_digit s;
          frac = (case dropWhile is_digit s of c # q \<Rightarrow> takeWhile is_digit q | [] \<Rightarrow> [])
      in if whole @ frac = [] then None else Some (real (read_nat whole) + real (read_nat frac) / 10 ^ length frac))"

text \<open>Three numbers and perhaps an alpha.\<close>

definition rgba_args :: "string \<Rightarrow> ((nat \<times> nat \<times> nat) \<times> string option) option" where
  "rgba_args s =
     (case take_number (skip_white s) of None \<Rightarrow> None | Some (r, s1) \<Rightarrow>
      case Option.bind (after_comma s1) take_number of None \<Rightarrow> None | Some (g, s2) \<Rightarrow>
      case Option.bind (after_comma s2) take_number of None \<Rightarrow> None | Some (b, s3) \<Rightarrow>
        if closes s3 then Some ((r, g, b), None)
        else case after_comma s3 of None \<Rightarrow> None | Some s4 \<Rightarrow>
          let a = takeWhile (\<lambda>c. is_digit c \<or> c = CHR ''.'') s4
          in if a \<noteq> [] \<and> closes (drop (length a) s4) then Some ((r, g, b), Some a) else None)"

fun rgba_match :: "string \<Rightarrow> ((nat \<times> nat \<times> nat) \<times> string option) option" where
  "rgba_match [] = None"
| "rgba_match (c # s) =
     (case Option.bind (after_paren (c # s)) rgba_args of Some m \<Rightarrow> Some m | None \<Rightarrow> rgba_match s)"

definition read_opaque :: "string \<Rightarrow> (nat \<times> nat \<times> nat) option" where
  "read_opaque bg =
     (case rgba_match bg of
        None \<Rightarrow> None
      | Some (rgb, a) \<Rightarrow>
          (case Option.bind a decimal of Some x \<Rightarrow> if x < 1 / 2 then None else Some rgb | None \<Rightarrow> Some rgb))"

definition luminance :: "nat \<times> nat \<times> nat \<Rightarrow> real" where
  "luminance c = (case c of (r, g, b) \<Rightarrow> (2126 * real r + 7152 * real g + 722 * real b) / 10000 / 255)"

text \<open>\<open>stored\<close> is the developer's choice, \<open>Inl\<close> where the storage throws; \<open>html\<close> the root element's colour.\<close>

definition detect_page_theme :: "js_error + string option \<Rightarrow> string \<Rightarrow> string \<Rightarrow> bool \<Rightarrow> string" where
  "detect_page_theme stored body html prefers_dark =
     (case stored of
        Inl e \<Rightarrow> ''light''
      | Inr choice \<Rightarrow>
          if choice = Some ''light'' \<or> choice = Some ''dark'' then opt_str choice
          else case (case read_opaque body of Some c \<Rightarrow> Some c | None \<Rightarrow> read_opaque html) of
              None \<Rightarrow> if prefers_dark then ''dark'' else ''light''
            | Some c \<Rightarrow> if luminance c > 11 / 20 then ''light'' else ''dark'')"

section \<open>Lemmas\<close>

lemma put_group_keys: "set (map fst (put_group f p bs)) = insert (f p) (set (map fst bs))"
  by (induction f p bs rule: put_group.induct) auto

lemma put_group_distinct: "distinct (map fst bs) \<Longrightarrow> distinct (map fst (put_group f p bs))"
proof (induction f p bs rule: put_group.induct)
  case (2 f p k ps bs)
  then show ?case using put_group_keys [of f p bs] by auto
qed simp

lemma map_of_put_group:
  "map_of (put_group f p bs) k =
   (if k = f p then Some (case map_of bs k of None \<Rightarrow> [p] | Some ps \<Rightarrow> ps @ [p]) else map_of bs k)"
  by (induction f p bs rule: put_group.induct) auto

lemma groups_are:
  "distinct (map fst (groups_of f ps)) \<and>
   map_of (groups_of f ps) k = (let qs = filter (\<lambda>p. f p = k) ps in if qs = [] then None else Some qs)"
proof (induction ps rule: rev_induct)
  case (snoc p ps)
  have step: "groups_of f (ps @ [p]) = put_group f p (groups_of f ps)" by (simp add: groups_of_def)
  show ?case unfolding step using snoc put_group_distinct [of "groups_of f ps"]
    by (cases "k = f p") (auto simp: map_of_put_group Let_def split: if_splits)
qed (simp add: groups_of_def)

lemma group_iff: "(k, qs) \<in> set (groups_of f ps) \<longleftrightarrow> qs = filter (\<lambda>p. f p = k) ps \<and> qs \<noteq> []"
  using groups_are [of f ps k] by (auto simp: Let_def map_of_eq_Some_iff [symmetric] split: if_splits)

lemma biggest_is:
  "biggest bs best = Some ps \<Longrightarrow> (best = Some ps \<or> (\<exists>k. (k, ps) \<in> set bs)) \<and>
   (\<forall>q. best = Some q \<longrightarrow> length q \<le> length ps) \<and> (\<forall>k q. (k, q) \<in> set bs \<longrightarrow> length q \<le> length ps)"
proof (induction bs best rule: biggest.induct)
  case (2 k qs bs best)
  then show ?case by (fastforce split: option.splits if_splits)
qed simp

lemma biggest_none: "biggest bs best = None \<longleftrightarrow> bs = [] \<and> best = None"
  by (induction bs best rule: biggest.induct) (auto split: option.splits)

section \<open>Properties\<close>

text \<open>
  C38: The tone a crop dissolves into is that of its most common colour: of the pixels looked at, those of one
  cluster, than which no other has more, and their mean is the tone; there is none only where no pixel is visible.
\<close>

theorem dominant_is_most_common:
  "case dominant_rgb data of
     None \<Rightarrow> visible_pixels data = []
   | Some t \<Rightarrow> \<exists>k. let cluster = (\<lambda>j. filter (\<lambda>p. bucket_key p = j) (visible_pixels data)) in
       cluster k \<noteq> [] \<and> t = tone_of (cluster k) \<and> (\<forall>j. length (cluster j) \<le> length (cluster k))"
proof (cases "biggest (buckets_of (visible_pixels data)) None")
  case None
  then have none: "groups_of bucket_key (visible_pixels data) = []" by (simp add: biggest_none buckets_of_def)
  have "visible_pixels data = []"
  proof (rule ccontr)
    assume "visible_pixels data \<noteq> []"
    then obtain p where "p \<in> set (visible_pixels data)" by (cases "visible_pixels data") auto
    then have "filter (\<lambda>q. bucket_key q = bucket_key p) (visible_pixels data) \<noteq> []" by (auto simp: filter_empty_conv)
    with group_iff [of "bucket_key p" "filter (\<lambda>q. bucket_key q = bucket_key p) (visible_pixels data)" bucket_key "visible_pixels data"]
      none show False by simp
  qed
  with None show ?thesis by (simp add: dominant_rgb_def)
next
  case (Some ps)
  let ?cluster = "\<lambda>j. filter (\<lambda>p. bucket_key p = j) (visible_pixels data)"
  from biggest_is [OF Some] obtain k where k: "(k, ps) \<in> set (groups_of bucket_key (visible_pixels data))"
    and most: "\<And>j q. (j, q) \<in> set (groups_of bucket_key (visible_pixels data)) \<Longrightarrow> length q \<le> length ps"
    unfolding buckets_of_def by blast
  have ps: "ps = ?cluster k" "ps \<noteq> []" using k group_iff [of k ps bucket_key "visible_pixels data"] by blast+
  have least: "length (?cluster j) \<le> length (?cluster k)" for j
    using most [of j "?cluster j"] ps by (cases "?cluster j = []") (simp_all add: group_iff)
  have t: "dominant_rgb data = Some (tone_of (?cluster k))" using Some ps(1) by (simp add: dominant_rgb_def)
  have "?cluster k \<noteq> [] \<and> tone_of (?cluster k) = tone_of (?cluster k) \<and> (\<forall>j. length (?cluster j) \<le> length (?cluster k))"
    using ps least by blast
  then show ?thesis unfolding t option.case Let_def by (rule exI)
qed

text \<open>
  The ground is only read where there is a picture: every point sampled around the element is a pixel of the
  ancestor's picture, wherever the element stands in it, and there are twelve.
\<close>

theorem samples_inside_canvas:
  assumes "1 \<le> w" "1 \<le> h"
  shows "length (sample_points sx sy sw sh w h) = 12 \<and>
    (\<forall>(x, y) \<in> set (sample_points sx sy sw sh w h). 0 \<le> x \<and> x \<le> w - 1 \<and> 0 \<le> y \<and> y \<le> h - 1)"
proof
  show "length (sample_points sx sy sw sh w h) = 12" by (simp add: sample_points_def around_points_def Let_def)
  show "\<forall>(x, y) \<in> set (sample_points sx sy sw sh w h). 0 \<le> x \<and> x \<le> w - 1 \<and> 0 \<le> y \<and> y \<le> h - 1"
    unfolding sample_points_def using assms by auto
qed

lemma samples_inside_canvas_witness:
  "\<forall>(x, y) \<in> set (sample_points 0 0 640 400 640 400). 0 \<le> x \<and> x \<le> 639 \<and> 0 \<le> y \<and> y \<le> 399"
  using samples_inside_canvas [of 640 400 0 0 640 400] by simp

section \<open>Findings\<close>

text \<open>
  A colour with its alpha in the newer notation, which browsers give back for \<open>oklch()\<close> and \<open>color()\<close>, counts as opaque
  although nothing is painted, and a dark page in such a colour counts as light.
\<close>

lemma oklch_transparent_is_opaque: "\<not> is_transparent_color ''oklch(0.5 0.1 20 / 0)''"
  by code_simp

lemma dark_oklch_page_is_light: "detect_page_theme (Inr None) ''oklch(0.15 0 0)'' ''rgba(0, 0, 0, 0)'' False = ''light''"
  by code_simp

text \<open>
  Where the page has a colour of its own, an image behind the element is not looked for: a transparent heading over a
  hero with a background image is captured on the colour of the body.
\<close>

definition a_rect :: rect where "a_rect = \<lparr>rect_x = 0, rect_y = 0, rect_width = 100, rect_height = 40\<rparr>"

definition see_through :: "string \<Rightarrow> string \<Rightarrow> surround" where
  "see_through color img = \<lparr>ly_color = color, ly_image = img, ly_rect = a_rect, ly_children = []\<rparr>"

lemma colored_body_hides_hero:
  "capture_plan 1 (see_through ''rgba(0, 0, 0, 0)'' ''none'')
     [see_through ''rgba(0, 0, 0, 0)'' ''url(hero.jpg)'', see_through ''rgb(255, 255, 255)'' ''none'', see_through [] ''none''] =
     Plain_capture (Some ''rgb(255, 255, 255)'')"
proof -
  have "is_transparent_color ''rgba(0, 0, 0, 0)''" "\<not> is_transparent_color ''rgb(255, 255, 255)''" by code_simp+
  then show ?thesis by (simp add: capture_plan_def resolve_canvas_background_def see_through_def has_image_def Let_def)
qed

end
