(* ===== verification/LiveDesign.thy ===== *)
theory LiveDesign imports LiveMarkdown LiveRefs Json Storage Runs begin

text \<open>
  The design panel of the live overlay, of \<open>agent/skills/impeccable/scripts/live-browser.js\<close> (lines 11783 to 11826 and
  12183 to 12780): when it asks for the design system, what it keeps across page loads, which message or which tiles it
  shows, and what the tiles are made of.
\<close>

section \<open>What the helper sends\<close>

text \<open>Of a sidecar's colours and types, of the front matter and of the prose, what the panel reads.\<close>

record color_meta =
  cm_role :: "string option"
  cm_display :: "string option"
  cm_canonical :: "string option"
  cm_description :: "string option"
  cm_ramp :: "string list"

record prose_color =
  pc_name :: "string option"
  pc_description :: "string option"

record type_spec =
  ts_family :: "string option"
  ts_weight :: "string option"
  ts_size :: "string option"
  ts_line :: "string option"
  ts_spacing :: "string option"

record type_meta =
  tm_display :: "string option"
  tm_style :: "string option"
  tm_purpose :: "string option"

record rule =
  rl_name :: string
  rl_body :: string
  rl_section :: "string option"

record narrative =
  north_star :: "string option"
  overview_text :: "string option"
  characteristics :: "string list"
  rules :: "rule list"
  dos :: "string list"
  donts :: "string list"

text \<open>The parsed \<open>DESIGN.md\<close>: front matter and prose.\<close>

record parsed_md =
  fm_colors :: "(string, string) omap option"
  fm_types :: "(string, type_spec) omap option"
  fm_rounded :: "(string, string) omap option"
  md_colors :: "prose_color list list option"
  md_north_star :: "string option"
  md_philosophy :: "string list"
  md_characteristics :: "string list"
  md_rules :: "(string \<times> rule list) list"
  md_dos :: "string list"
  md_donts :: "string list"

record sketch =
  sk_kind :: "string option"
  sk_name :: string

record sidecar =
  sc_colors :: "(string, color_meta) omap"
  sc_types :: "(string, type_meta) omap"
  sc_shadows :: "string list"
  sc_components :: "sketch list"
  sc_narrative :: "narrative option"

record design_answer =
  an_present :: bool
  an_parsed :: "parsed_md option"
  an_sidecar :: "sidecar option"
  an_has_md :: bool
  an_has_sidecar :: bool
  an_stale :: bool
  an_error :: "string option"
  an_raw :: "string option"

section \<open>State of the panel\<close>

text \<open>
  \<open>asked\<close> counts the requests on their way; \<open>visual_tab\<close> is the tab, \<open>prefs\<close> is \<open>localStorage\<close>, \<open>None\<close> where it throws.
\<close>

record panel =
  panel_open :: bool
  visual_tab :: bool
  md_parsed :: "parsed_md option"
  side :: "sidecar option"
  has_md :: bool
  has_sidecar :: bool
  present :: "bool option"
  raw_md :: "string option"
  md_newer :: bool
  fetching :: bool
  design_error :: "string option"
  collapsed :: "(string, json) omap"
  prefs :: "storage option"
  asked :: nat

definition DESIGN_PREFS_KEY :: string where "DESIGN_PREFS_KEY = ''impeccable-live-design-panel''"

definition design_start :: "storage option \<Rightarrow> panel" where
  "design_start st =
     \<lparr>panel_open = False, visual_tab = True, md_parsed = None, side = None, has_md = False, has_sidecar = False,
      present = None, raw_md = None, md_newer = False, fetching = False, design_error = None,
      collapsed = [(''rules'', JBool True), (''dosdonts'', JBool True), (''overview'', JBool True)], prefs = st, asked = 0\<rparr>"

text \<open>\<open>Object.assign\<close>; an array has its elements as properties, which no section is called by.\<close>

definition take_collapsed :: "json \<Rightarrow> panel \<Rightarrow> panel" where
  "take_collapsed v p = p\<lparr>collapsed := foldl (\<lambda>m (k, x). omap_set k x m) (collapsed p) (spread v)\<rparr>"

definition load_design_prefs :: "panel \<Rightarrow> panel" where
  "load_design_prefs p =
     (case Option.bind (prefs p) (\<lambda>st. get_item st DESIGN_PREFS_KEY) of
        None \<Rightarrow> p
      | Some raw \<Rightarrow>
          if raw = [] then p
          else case json_parse raw of
              None \<Rightarrow> p
            | Some v \<Rightarrow>
                let p1 = (case json_get ''tab'' v of
                    Some (JStr t) \<Rightarrow> if t = ''visual'' then p\<lparr>visual_tab := True\<rparr> else if t = ''raw'' then p\<lparr>visual_tab := False\<rparr> else p
                  | _ \<Rightarrow> p)
                in (case json_get ''collapsed'' v of
                      Some (JObj ms) \<Rightarrow> take_collapsed (JObj ms) p1
                    | Some (JArr xs) \<Rightarrow> take_collapsed (JArr xs) p1
                    | _ \<Rightarrow> p1))"

definition design_prefs :: "panel \<Rightarrow> json" where
  "design_prefs p = JObj [(''tab'', JStr (if visual_tab p then ''visual'' else ''raw'')), (''collapsed'', JObj (collapsed p))]"

definition save_design_prefs :: "panel \<Rightarrow> panel" where
  "save_design_prefs p =
     (case prefs p of
        None \<Rightarrow> p
      | Some st \<Rightarrow>
          (case set_item st DESIGN_PREFS_KEY (print_json (design_prefs p)) of Inl e \<Rightarrow> p | Inr st' \<Rightarrow> p\<lparr>prefs := Some st'\<rparr>))"

section \<open>Asking for the design system\<close>

definition fetch_design :: "panel \<Rightarrow> panel" where
  "fetch_design p = p\<lparr>fetching := True, design_error := None, asked := asked p + 1\<rparr>"

text \<open>The two answers, or the message of the error; \<open>an_raw\<close> is the text where its request succeeded.\<close>

definition design_arrives :: "string + design_answer \<Rightarrow> panel \<Rightarrow> panel" where
  "design_arrives r p =
     (if asked p = 0 then p
      else let p1 = p\<lparr>fetching := False, asked := asked p - 1\<rparr> in
        case r of
          Inl e \<Rightarrow> p1\<lparr>design_error := Some (str_or e ''Failed to load design system.'')\<rparr>
        | Inr a \<Rightarrow>
            p1\<lparr>present := Some (an_present a), md_parsed := an_parsed a, side := an_sidecar a, has_md := an_has_md a,
               has_sidecar := an_has_sidecar a, md_newer := an_stale a,
               raw_md := (if an_present a then an_raw a else None),
               design_error := (if truthy_str (an_error a) then an_error a else None)\<rparr>)"

definition toggle_design_panel :: "bool \<Rightarrow> panel \<Rightarrow> panel" where
  "toggle_design_panel applying p =
     (if applying then p
      else let p1 = p\<lparr>panel_open := \<not> panel_open p\<rparr>
        in if panel_open p1 \<and> present p1 = None \<and> \<not> fetching p1 then fetch_design p1 else p1)"

definition choose_tab :: "bool \<Rightarrow> panel \<Rightarrow> panel" where
  "choose_tab visual p =
     (if visual_tab p = visual then p
      else let p1 = save_design_prefs (p\<lparr>visual_tab := visual\<rparr>)
        in if \<not> visual \<and> raw_md p1 = None \<and> \<not> fetching p1 then fetch_design p1 else p1)"

definition toggle_section :: "string \<Rightarrow> panel \<Rightarrow> panel" where
  "toggle_section k p =
     save_design_prefs (p\<lparr>collapsed := omap_set k
       (JBool (\<not> (case map_of (collapsed p) k of None \<Rightarrow> False | Some v \<Rightarrow> json_truthy v))) (collapsed p)\<rparr>)"

datatype design_event = Panel_toggled bool | Tab_chosen bool | Section_toggled string | Design_arrives "string + design_answer"

fun design_step :: "design_event \<Rightarrow> panel \<Rightarrow> panel" where
  "design_step (Panel_toggled applying) p = toggle_design_panel applying p"
| "design_step (Tab_chosen v) p = choose_tab v p"
| "design_step (Section_toggled k) p = toggle_section k p"
| "design_step (Design_arrives r) p = design_arrives r p"

section \<open>Tiles\<close>

text \<open>\<open>replace(/\b\w/g, toUpperCase)\<close>; \<open>w\<close>: the character before is a word character.\<close>

fun capitals :: "bool \<Rightarrow> string \<Rightarrow> string" where
  "capitals w [] = []"
| "capitals w (c # s) = (if \<not> w \<and> word_char c then upper_char c else c) # capitals (word_char c) s"

definition humanize_key :: "string \<Rightarrow> string" where
  "humanize_key k = capitals False (squash (\<lambda>c. c = CHR ''-'' \<or> c = CHR ''_'') (CHR '' '') k)"

definition quote_mark :: "char \<Rightarrow> bool" where "quote_mark c \<longleftrightarrow> c = CHR 0x27 \<or> c = CHR 0x22"

definition drop_quote :: "string \<Rightarrow> string" where
  "drop_quote s = (case s of [] \<Rightarrow> [] | c # r \<Rightarrow> if quote_mark c then r else s)"

definition strip_quotes :: "string \<Rightarrow> string" where "strip_quotes s = rev (drop_quote (rev (drop_quote s)))"

definition split_font_family :: "string option \<Rightarrow> string \<times> string" where
  "split_font_family stack =
     (if \<not> truthy_str stack then ([], [])
      else let parts = map (\<lambda>s. strip_quotes (trim s)) (split_on (CHR '','') (opt_str stack))
        in (hd parts, join_with '', '' (tl parts)))"

record color_tile =
  ct_role :: string
  ct_name :: string
  ct_value :: string
  ct_canonical :: "string option"
  ct_description :: "string option"
  ct_ramp :: "string list"

record type_tile =
  tt_role :: string
  tt_name :: string
  tt_family :: string
  tt_fallback :: string
  tt_weight :: string
  tt_style :: string
  tt_size :: string
  tt_line :: string
  tt_spacing :: "string option"
  tt_purpose :: "string option"

definition or_opt :: "string option \<Rightarrow> string option \<Rightarrow> string option" where
  "or_opt a b = (if truthy_str a then a else b)"

definition names_meet :: "string list \<Rightarrow> string \<Rightarrow> bool" where
  "names_meet needles hay = (hay \<noteq> [] \<and> list_ex (\<lambda>n. includes_str n hay \<or> includes_str hay n) needles)"

text \<open>The first colour of the prose whose name meets the key or the display name.\<close>

definition find_prose_description :: "prose_color list list option \<Rightarrow> string \<Rightarrow> string option \<Rightarrow> string option" where
  "find_prose_description prose key display =
     (case prose of
        None \<Rightarrow> None
      | Some groups \<Rightarrow>
          let needles = map to_lower (filter (\<lambda>s. s \<noteq> []) [key, opt_str display])
          in (case List.find (\<lambda>c. names_meet needles (to_lower (opt_str (pc_name c)))) (concat groups) of
                None \<Rightarrow> None
              | Some c \<Rightarrow> or_opt (pc_description c) None))"

definition no_color_meta :: color_meta where
  "no_color_meta = \<lparr>cm_role = None, cm_display = None, cm_canonical = None, cm_description = None, cm_ramp = []\<rparr>"

definition color_model :: "(string, color_meta) omap \<Rightarrow> prose_color list list option \<Rightarrow> string \<Rightarrow> string \<Rightarrow> color_tile" where
  "color_model meta prose key v =
     (let m = (case map_of meta key of None \<Rightarrow> no_color_meta | Some m \<Rightarrow> m) in
      \<lparr>ct_role = opt_str (or_opt (cm_role m) (Some (humanize_key key))),
       ct_name = opt_str (or_opt (cm_display m) (Some (humanize_key key))),
       ct_value = normalize_css_color (opt_str (or_opt (cm_canonical m) (Some v))),
       ct_canonical = or_opt (cm_canonical m) None,
       ct_description = or_opt (cm_description m) (find_prose_description prose key (cm_display m)),
       ct_ramp = cm_ramp m\<rparr>)"

definition build_color_models ::
  "(string, string) omap option \<Rightarrow> (string, color_meta) omap \<Rightarrow> prose_color list list option \<Rightarrow> color_tile list" where
  "build_color_models fm meta prose = (case fm of None \<Rightarrow> [] | Some cs \<Rightarrow> map (\<lambda>(k, v). color_model meta prose k v) cs)"

definition type_model :: "(string, type_meta) omap \<Rightarrow> string \<Rightarrow> type_spec \<Rightarrow> type_tile" where
  "type_model meta key spec =
     (let m = (case map_of meta key of None \<Rightarrow> \<lparr>tm_display = None, tm_style = None, tm_purpose = None\<rparr> | Some m \<Rightarrow> m);
          ff = split_font_family (ts_family spec)
      in \<lparr>tt_role = key, tt_name = opt_str (or_opt (tm_display m) (Some (humanize_key key))),
          tt_family = fst ff, tt_fallback = snd ff,
          tt_weight = (case ts_weight spec of None \<Rightarrow> ''400'' | Some w \<Rightarrow> w),
          tt_style = opt_str (or_opt (tm_style m) (Some ''normal'')),
          tt_size = opt_str (or_opt (ts_size spec) (Some ''1rem'')),
          tt_line = opt_str (ts_line spec), tt_spacing = ts_spacing spec, tt_purpose = tm_purpose m\<rparr>)"

definition build_typography_models :: "(string, type_spec) omap option \<Rightarrow> (string, type_meta) omap \<Rightarrow> type_tile list" where
  "build_typography_models fm meta = (case fm of None \<Rightarrow> [] | Some ts \<Rightarrow> map (\<lambda>(k, s). type_model meta k s) ts)"

text \<open>The font of a specimen.\<close>

definition font_stack :: "string \<Rightarrow> string \<Rightarrow> string" where
  "font_stack fam fb =
     (if fam \<noteq> [] \<and> list_ex (\<lambda>c. c = CHR '','' \<or> white_space c) fam \<and> \<not> list_ex quote_mark fam then [CHR 0x22] @ fam @ [CHR 0x22] @ '', '' @ fb
      else if fam \<noteq> [] \<and> fb \<noteq> [] then [CHR 0x22] @ fam @ [CHR 0x22] @ '', '' @ fb
      else str_or fam fb)"

definition group_step :: "sketch list list \<Rightarrow> sketch \<Rightarrow> sketch list list" where
  "group_step gs c =
     (if gs \<noteq> [] \<and> truthy_str (sk_kind (hd (last gs))) \<and> sk_kind c = sk_kind (hd (last gs))
      then butlast gs @ [last gs @ [c]] else gs @ [[c]])"

definition group_by_kind :: "sketch list \<Rightarrow> sketch list list" where
  "group_by_kind cs = foldl group_step [] cs"

definition title_for_kind :: "string option \<Rightarrow> string" where
  "title_for_kind kind =
     (case map_of [(''button'', ''Buttons''), (''input'', ''Inputs''), (''nav'', ''Navigation''), (''chip'', ''Chips''),
        (''card'', ''Cards''), (''custom'', ''Components'')] (opt_str kind) of
        Some l \<Rightarrow> l
      | None \<Rightarrow> (case opt_str kind of [] \<Rightarrow> ''Components'' | c # r \<Rightarrow> upper_char c # r @ ''s''))"

definition synthesize_narrative :: "parsed_md option \<Rightarrow> narrative" where
  "synthesize_narrative md =
     (case md of
        None \<Rightarrow> \<lparr>north_star = None, overview_text = None, characteristics = [], rules = [], dos = [], donts = []\<rparr>
      | Some m \<Rightarrow>
          \<lparr>north_star = md_north_star m, overview_text = Some (join_with '' '' (md_philosophy m)),
           characteristics = md_characteristics m,
           rules = concat (map (\<lambda>s. map (\<lambda>r. r\<lparr>rl_section := Some s\<rparr>) (case map_of (md_rules m) s of None \<Rightarrow> [] | Some rs \<Rightarrow> rs))
             [''colors'', ''typography'', ''layout'', ''elevation'', ''shapes'']),
           dos = md_dos m, donts = md_donts m\<rparr>)"

text \<open>The numbers of \<open>oklch(l% c h / a)\<close>: what the pattern of the ramp takes as chroma and hue.\<close>

definition number_text :: "string \<Rightarrow> (string \<times> string) option" where
  "number_text s =
     (let n = takeWhile (\<lambda>c. is_digit c \<or> c = CHR ''.'') s in if n = [] then None else Some (n, drop (length n) s))"

definition spaces :: "string \<Rightarrow> string" where "spaces s = dropWhile white_space s"

definition oklch_parts :: "string \<Rightarrow> (string \<times> string) option" where
  "oklch_parts v =
     (if to_lower (take 6 v) \<noteq> ''oklch('' then None
      else case number_text (spaces (drop 6 v)) of None \<Rightarrow> None | Some (l, s1) \<Rightarrow>
        if \<not> starts_with ''%'' s1 \<or> spaces (tl s1) = tl s1 then None
        else case number_text (spaces (tl s1)) of None \<Rightarrow> None | Some (c, s2) \<Rightarrow>
          if spaces s2 = s2 then None
          else case number_text (spaces s2) of None \<Rightarrow> None | Some (h, s3) \<Rightarrow>
            let s4 = spaces s3 in
            if s4 = '')'' then Some (c, h)
            else if \<not> starts_with ''/'' s4 then None
            else case number_text (spaces (tl s4)) of None \<Rightarrow> None | Some (a, s5) \<Rightarrow>
              if spaces s5 = '')'' then Some (c, h) else None)"

definition synthesize_ramp :: "color_tile \<Rightarrow> string list" where
  "synthesize_ramp c =
     (if ct_ramp c \<noteq> [] then ct_ramp c
      else case oklch_parts (ct_value c) of
          None \<Rightarrow> []
        | Some (ch, h) \<Rightarrow> map (\<lambda>l. ''oklch('' @ show_nat l @ ''% '' @ ch @ '' '' @ h @ '')'') [20, 32, 44, 56, 68, 80, 90, 96])"

section \<open>What the panel shows\<close>

text \<open>The three texts of an empty panel.\<close>

datatype empty_reason = No_structured_tokens | Neither_carries_tokens | No_design_data

datatype tile =
    Loading_message | Error_message string | No_design_md | Raw_md string | Stale_hint | Basic_view
  | Colors "color_tile list" | Types "type_tile list" | Radii "(string, string) omap" | Shadows "string list"
  | Components "sketch list list" | Rules "rule list" | Dos_and_donts "string list" "string list"
  | Overview narrative | Empty_message empty_reason

definition design_empty_message :: "panel \<Rightarrow> empty_reason" where
  "design_empty_message p =
     (if has_md p \<and> \<not> has_sidecar p then No_structured_tokens else if has_md p then Neither_carries_tokens else No_design_data)"

definition some_tile :: "bool \<Rightarrow> tile \<Rightarrow> tile list" where "some_tile b t = (if b then [t] else [])"

definition design_visual :: "panel \<Rightarrow> tile list" where
  "design_visual p =
     (let md = md_parsed p; sc = side p;
          colors = build_color_models (Option.bind md fm_colors) (case sc of None \<Rightarrow> [] | Some s \<Rightarrow> sc_colors s) (Option.bind md md_colors);
          types = build_typography_models (Option.bind md fm_types) (case sc of None \<Rightarrow> [] | Some s \<Rightarrow> sc_types s);
          radii = (case Option.bind md fm_rounded of None \<Rightarrow> [] | Some r \<Rightarrow> r);
          shadows = (case sc of None \<Rightarrow> [] | Some s \<Rightarrow> sc_shadows s);
          components = (case sc of None \<Rightarrow> [] | Some s \<Rightarrow> sc_components s);
          n = (case Option.bind sc sc_narrative of Some x \<Rightarrow> x | None \<Rightarrow> synthesize_narrative md);
          drawn = some_tile (colors \<noteq> []) (Colors colors) @ some_tile (types \<noteq> []) (Types types) @
            some_tile (radii \<noteq> []) (Radii radii) @ some_tile (shadows \<noteq> []) (Shadows shadows) @
            some_tile (components \<noteq> []) (Components (group_by_kind components)) @
            some_tile (rules n \<noteq> []) (Rules (rules n)) @
            some_tile (dos n \<noteq> [] \<or> donts n \<noteq> []) (Dos_and_donts (dos n) (donts n)) @
            some_tile (truthy_str (overview_text n) \<or> truthy_str (north_star n) \<or> characteristics n \<noteq> []) (Overview n)
      in if drawn = [] then [Empty_message (design_empty_message p)] else drawn)"

definition design_body :: "panel \<Rightarrow> tile list" where
  "design_body p =
     (if fetching p then [Loading_message]
      else if truthy_str (design_error p) then [Error_message (opt_str (design_error p))]
      else if present p = Some False then [No_design_md]
      else if \<not> visual_tab p then [Raw_md (opt_str (raw_md p))]
      else some_tile (md_newer p) Stale_hint @ some_tile (has_md p \<and> \<not> has_sidecar p) Basic_view @ design_visual p)"

section \<open>Lemmas\<close>

definition one_request :: "panel \<Rightarrow> bool" where "one_request p \<longleftrightarrow> (if fetching p then asked p = 1 else asked p = 0)"

lemma save_fields [simp]:
  "asked (save_design_prefs p) = asked p" "fetching (save_design_prefs p) = fetching p" "raw_md (save_design_prefs p) = raw_md p"
  "present (save_design_prefs p) = present p"
  by (simp_all add: save_design_prefs_def split: option.split sum.split)

lemma one_request_step: "one_request p \<Longrightarrow> one_request (design_step e p)"
proof (cases e)
  case (Panel_toggled b)
  assume "one_request p"
  with Panel_toggled show ?thesis by (simp add: one_request_def toggle_design_panel_def fetch_design_def Let_def)
next
  case (Tab_chosen v)
  assume "one_request p"
  with Tab_chosen show ?thesis by (simp add: one_request_def choose_tab_def fetch_design_def Let_def)
next
  case (Section_toggled k)
  assume "one_request p"
  with Section_toggled show ?thesis by (simp add: one_request_def toggle_section_def)
next
  case (Design_arrives r)
  assume "one_request p"
  with Design_arrives show ?thesis by (cases r; cases "fetching p") (simp_all add: one_request_def design_arrives_def Let_def)
qed

interpretation asking: closed_stepping design_step one_request
  by unfold_locales (rule one_request_step)

lemma concat_groups: "gs \<noteq> [] \<Longrightarrow> concat (butlast gs @ [last gs @ [c]]) = concat gs @ [c]"
  by (cases gs rule: rev_cases) simp_all

definition one_kind :: "sketch list \<Rightarrow> bool" where "one_kind g \<longleftrightarrow> g \<noteq> [] \<and> (\<forall>c \<in> set g. sk_kind c = sk_kind (hd g))"

lemma one_kind_snoc: "one_kind g \<Longrightarrow> sk_kind c = sk_kind (hd g) \<Longrightarrow> one_kind (g @ [c])"
proof -
  assume g: "one_kind g" and c: "sk_kind c = sk_kind (hd g)"
  have "g \<noteq> []" and same: "\<And>x. x \<in> set g \<Longrightarrow> sk_kind x = sk_kind (hd g)" using g unfolding one_kind_def by blast+
  then have "hd (g @ [c]) = hd g" by simp
  moreover have "sk_kind x = sk_kind (hd g)" if "x \<in> set (g @ [c])" for x
    using that c same [of x] by (cases "x = c") auto
  ultimately show ?thesis unfolding one_kind_def by (metis append_is_Nil_conv not_Cons_self2)
qed

lemma one_kind_single: "one_kind [c]"
  by (simp add: one_kind_def)

lemma groups_of_one_kind: "list_all one_kind (group_by_kind cs)"
proof (induction cs rule: rev_induct)
  case (snoc c cs)
  have "list_all one_kind (group_step gs c)" if "list_all one_kind gs" for gs
    using that one_kind_snoc [of "last gs" c] one_kind_single [of c]
    by (cases gs rule: rev_cases) (simp_all add: group_step_def)
  with snoc show ?case by (simp add: group_by_kind_def)
qed (simp add: group_by_kind_def)

section \<open>Properties\<close>

text \<open>
  The panel asks once at a time: however it is opened, closed and its tabs are changed, and whenever answers and
  failures arrive, at most one request for the design system is on its way, and the panel says it is loading exactly then.
\<close>

theorem one_design_request:
  "asked (run_of design_step es (load_design_prefs (design_start st))) \<le> 1 \<and>
   (fetching (run_of design_step es (load_design_prefs (design_start st))) =
    (asked (run_of design_step es (load_design_prefs (design_start st))) = 1))"
proof -
  have "one_request (load_design_prefs (design_start st))"
    by (simp add: one_request_def load_design_prefs_def take_collapsed_def design_start_def Let_def split: option.split json.split)
  from asking.always_keeps [OF this, of es] show ?thesis by (auto simp: one_request_def split: if_splits)
qed

text \<open>
  Every component of the design system is drawn once and in its order: the groups are all of one kind, none is
  empty, and one after the other they are the list of components.
\<close>

theorem groups_keep_components: "concat (group_by_kind cs) = cs \<and> list_all one_kind (group_by_kind cs)"
proof
  show "concat (group_by_kind cs) = cs"
  proof (induction cs rule: rev_induct)
    case (snoc c cs)
    have "concat (group_step gs c) = concat gs @ [c]" for gs using concat_groups [of gs c] by (simp add: group_step_def)
    with snoc show ?case by (simp add: group_by_kind_def)
  qed (simp add: group_by_kind_def)
qed (rule groups_of_one_kind)

section \<open>Findings\<close>

text \<open>
  The panel says to create \<open>DESIGN.md\<close> and to open it again; opened again it does not ask, whatever is there by then.
\<close>

definition no_design :: design_answer where
  "no_design = \<lparr>an_present = False, an_parsed = None, an_sidecar = None, an_has_md = False, an_has_sidecar = False,
     an_stale = False, an_error = None, an_raw = None\<rparr>"

lemma reopening_does_not_reload:
  "let p = run_of design_step [Panel_toggled False, Design_arrives (Inr no_design), Panel_toggled False, Panel_toggled False]
             (design_start None)
   in panel_open p \<and> asked p = 0 \<and> design_body p = [No_design_md]"
  by (simp add: toggle_design_panel_def fetch_design_def design_arrives_def no_design_def design_start_def design_body_def
      truthy_str_def opt_str_def Let_def)

text \<open>A family of two words without a fallback leaves a comma at the end, which makes the declaration invalid.\<close>

lemma font_stack_ends_in_comma: "font_stack ''Playfair Display'' [] = [CHR 0x22] @ ''Playfair Display'' @ [CHR 0x22] @ '', ''"
  by (simp add: font_stack_def white_space_def quote_mark_def)

text \<open>A lightness without the percent sign gets no ramp.\<close>

lemma ramp_needs_percent: "oklch_parts ''oklch(0.62 0.1 250)'' = None \<and> oklch_parts ''oklch(62% 0.1 250)'' = Some (''0.1'', ''250'')"
  by code_simp

text \<open>A colour without prose of its own gets the description of one whose name is a part of its key.\<close>

lemma compound_key_other_description:
  "find_prose_description (Some [[\<lparr>pc_name = Some ''Ink'', pc_description = Some ''Body text.''\<rparr>]]) ''pink-soft'' None = Some ''Body text.''"
  by code_simp

end
