(* ===== verification/ChatParts.thy ===== *)
theory ChatParts imports ToolPresentation PreviewLifecycle Dates Runs begin

text \<open>
  The components of a conversation that decide something: the text of an answer and its code
  (\<open>components/chat/MessageBubble.tsx\<close>, \<open>CodeListing.tsx\<close>), the tools of a run (\<open>ToolList.tsx\<close>,
  \<open>ToolResult.tsx\<close>), the state of a run (\<open>RunActivity.tsx\<close>, \<open>RunStatus.tsx\<close>), the panel of the preview
  (\<open>PreviewPanel.tsx\<close>) and the composer (\<open>ChatInput.tsx\<close>). What is drawn is given by what it shows; classes
  and icons are left out.
\<close>

section \<open>The text of an answer\<close>

definition fence :: string where "fence = [CHR 0x60, CHR 0x60, CHR 0x60]"

text \<open>
  The first match of the pattern of a fence. A fence that is not closed is followed by no other: where the
  first mark has no line end or no second mark after it, no later mark has.
\<close>

definition next_fence :: "string \<Rightarrow> (string \<times> string \<times> string \<times> string) option" where
  "next_fence s =
     (case cut_at fence s of
        None \<Rightarrow> None
      | Some (before, s1) \<Rightarrow>
          (case cut_at newline s1 of
             None \<Rightarrow> None
           | Some (lang, s2) \<Rightarrow>
               (case cut_at fence s2 of None \<Rightarrow> None | Some (body, rest) \<Rightarrow> Some (before, lang, body, rest))))"

datatype answer_part = Prose string | Code string string

lemma next_fence_split: "next_fence s = Some (a, l, b, r) \<Longrightarrow> s = a @ fence @ l @ newline @ b @ fence @ r"
  by (auto simp: next_fence_def dest!: cut_at_split split: option.splits prod.splits)

lemma next_fence_shorter: "next_fence s = Some (a, l, b, r) \<Longrightarrow> length r < length s"
  using next_fence_split [of s a l b r] by (simp add: fence_def)

function answer_parts :: "string \<Rightarrow> answer_part list" where
  "answer_parts s =
     (case next_fence s of None \<Rightarrow> [Prose s] | Some (before, lang, body, rest) \<Rightarrow> Prose before # Code lang body # answer_parts rest)"
  by pat_completeness auto
termination by (relation "measure length") (auto simp: next_fence_shorter)

declare answer_parts.simps [simp del]

text \<open>What a part shows: nothing, a paragraph, or a listing with its language.\<close>

definition drop_last_newline :: "string \<Rightarrow> string" where
  "drop_last_newline s = (if ends_with newline s then take (length s - 1) s else s)"

datatype shown_part = Nothing | Paragraph string | Listing string string

definition show_part :: "answer_part \<Rightarrow> shown_part" where
  "show_part p =
     (case p of
        Prose t \<Rightarrow> if trim t = [] then Nothing else Paragraph t
      | Code lang body \<Rightarrow> Listing (drop_last_newline body) (str_or (trim lang) ''code''))"

datatype diff_mark = Added | Removed | Unmarked

definition code_lines :: "string \<Rightarrow> string \<Rightarrow> (nat \<times> diff_mark \<times> string) list" where
  "code_lines v lang =
     map (\<lambda>(i, l). (i + 1,
            if lang \<noteq> ''diff'' then Unmarked else if starts_with ''+'' l then Added else if starts_with ''-'' l then Removed else Unmarked,
            str_or l '' ''))
       (enumerate 0 (split_on (CHR 0x0A) v))"

section \<open>The tools of a run\<close>

text \<open>How many of the first calls are folded away.\<close>

definition hidden_calls :: "tool_call list \<Rightarrow> nat" where
  "hidden_calls calls =
     (let prefix = length (takeWhile (\<lambda>t. call_status t = Call_success) calls);
          hidden = min prefix (length calls - 3)
      in if hidden \<ge> 4 then hidden else 0)"

text \<open>The choice of the user, if there was one, and the status decide whether a row is open.\<close>

definition row_open :: "bool option \<Rightarrow> call_status \<Rightarrow> bool" where
  "row_open choice status = (case choice of Some b \<Rightarrow> b | None \<Rightarrow> status = Call_error)"

definition row_toggled :: "bool \<Rightarrow> call_status \<Rightarrow> bool option \<Rightarrow> bool option" where
  "row_toggled now_open status choice = (if now_open \<noteq> row_open choice status then Some now_open else choice)"

definition row_word :: "tool_call \<Rightarrow> string" where
  "row_word t =
     (if call_status t = Call_success then ''Done'' else if interrupted (present_tool t) then ''Stopped''
      else if call_status t = Call_error then ''Failed'' else ''Running'')"

definition file_chips :: "presentation \<Rightarrow> string list" where
  "file_chips r = take 2 (pr_files r)"

section \<open>The result of a tool\<close>

datatype result_part =
    Files string "string list" | Matched "string list" | Result_listing string string | Input_omitted | Excerpts "string list"
  | Exit_code json | Recorded json | Copy_actions | Waiting | No_output

definition has_terminal :: "presentation \<Rightarrow> bool" where
  "has_terminal r \<longleftrightarrow> stdout r \<noteq> [] \<or> stderr r \<noteq> [] \<or> exit_code r \<noteq> None"

definition listing_if :: "string \<Rightarrow> string \<Rightarrow> result_part list" where
  "listing_if v lang = (if v = [] then [] else [Result_listing v lang])"

definition file_title :: "presentation \<Rightarrow> string" where
  "file_title r = (if target_files r then ''Target files'' else if pr_changed r then ''Updated files'' else ''Files read'')"

definition result_parts :: "tool_call \<Rightarrow> presentation \<Rightarrow> result_part list" where
  "result_parts t r =
     (let out = opt_str (call_output t) in
      (if pr_files r \<noteq> [] then [Files (file_title r) (pr_files r)] else []) @
      (if references r \<noteq> [] then [Matched (references r)] else []) @
      listing_if (command r) ''command'' @
      (if input_omitted r then [Input_omitted] else []) @
      (if truncated_fields r \<noteq> [] then [Excerpts (truncated_fields r)] else []) @
      (if has_terminal r then
         (case exit_code r of Some c \<Rightarrow> [Exit_code c] | None \<Rightarrow> []) @ listing_if (stdout r) ''stdout'' @ listing_if (stderr r) ''stderr''
       else listing_if (pr_error r) ''error'') @
      (case parsed r of
         Some v \<Rightarrow> [Recorded v]
       | None \<Rightarrow> if pr_error r = [] then listing_if out ''output'' else []) @
      (if call_status t \<noteq> Call_running \<and> (parsed r \<noteq> None \<or> out \<noteq> []) then [Copy_actions] else []) @
      (if out = [] \<and> parsed r = None then [if call_status t = Call_running then Waiting else No_output] else []))"

section \<open>The state of a run\<close>

definition run_failed :: "run_status option \<Rightarrow> bool" where
  "run_failed s \<longleftrightarrow> s \<noteq> None \<and> s \<notin> Some ` {Run_running, Run_succeeded, Run_cancelled}"

text \<open>The last stage that was reported.\<close>

definition latest_stage :: "activity_item list \<Rightarrow> string option" where
  "latest_stage steps =
     (case filter (\<lambda>a. act_kind a = Kind_stage) steps of [] \<Rightarrow> None | xs \<Rightarrow> act_message (last xs))"

definition run_label :: "message \<Rightarrow> bool \<Rightarrow> string" where
  "run_label m online =
     (let s = run_state m in
      if s = Some Run_running then
        (if online then str_or (opt_str (latest_stage (case activity m of Some a \<Rightarrow> a | None \<Rightarrow> []))) ''Working on your app''
         else ''Reconnecting to run'')
      else if s = Some Run_succeeded then ''Build complete''
      else if s = Some Run_cancelled then ''Run stopped''
      else if run_failed s then ''Run needs attention'' else ''Recorded steps'')"

text \<open>The tick is animated when a run is seen to succeed, not when an old one is shown.\<close>

definition celebrates :: "string \<times> run_status option \<Rightarrow> string \<times> run_status option \<Rightarrow> bool" where
  "celebrates previous current \<longleftrightarrow>
     fst previous = fst current \<and> snd previous = Some Run_running \<and> snd current = Some Run_succeeded"

fun celebrations :: "string \<times> run_status option \<Rightarrow> (string \<times> run_status option) list \<Rightarrow> nat" where
  "celebrations previous [] = 0"
| "celebrations previous (c # cs) = (if celebrates previous c then 1 else 0) + celebrations c cs"

definition has_run :: "message \<Rightarrow> bool" where
  "has_run m \<longleftrightarrow> run_state m \<noteq> None \<or> (case tool_calls m of Some (_ # _) \<Rightarrow> True | _ \<Rightarrow> False) \<or>
     (case activity m of Some (_ # _) \<Rightarrow> True | _ \<Rightarrow> False)"

text \<open>\<open>now\<close> is the clock of the component, not set before its first tick; an unreadable time shows nothing.\<close>

definition elapsed_seconds :: "string \<Rightarrow> string option \<Rightarrow> bool \<Rightarrow> int option \<Rightarrow> int option" where
  "elapsed_seconds start finish running now =
     (let f = (if truthy_str finish then date_parse (opt_str finish) else if running then now else None) in
      case (f, date_parse start) of (Some e, Some b) \<Rightarrow> Some (max 0 ((e - b) div 1000)) | _ \<Rightarrow> None)"

definition two_digits :: "nat \<Rightarrow> string" where
  "two_digits n = (if length (show_nat n) < 2 then CHR ''0'' # show_nat n else show_nat n)"

definition elapsed_text :: "int \<Rightarrow> string" where
  "elapsed_text s = show_int (s div 60) @ '':'' @ two_digits (nat (s mod 60))"

section \<open>The panel of the preview\<close>

datatype panel_tab = Tab_preview | Tab_files

datatype viewport = Desktop | Tablet | Mobile

record panel_props =
  app_url :: "string option"
  shown_revision :: "string option"
  building_now :: bool
  active_tab :: panel_tab
  in_view :: bool
  panel_phase :: preview_phase
  preview_failure :: "string option"

text \<open>
  \<open>retain\<close> is \<open>retainPreview\<close>; \<open>forget_timer\<close> is whether the timer of the effect runs; \<open>deps\<close> are the
  dependencies the effect last ran with.
\<close>

record panel =
  props :: panel_props
  viewport :: viewport
  refresh :: nat
  retain :: bool
  forget_timer :: bool
  deps :: "panel_tab \<times> bool \<times> string option"

definition preview_ready :: "panel_props \<Rightarrow> bool" where
  "preview_ready p \<longleftrightarrow> in_view p \<and> truthy_str (app_url p) \<and> panel_phase p = Phase Pv_active \<and> \<not> building_now p"

text \<open>The flag is settled while the panel renders.\<close>

definition settle_retain :: "panel_props \<Rightarrow> bool \<Rightarrow> bool" where
  "settle_retain p r =
     (if r \<and> \<not> preview_ready p then False else if \<not> r \<and> preview_ready p \<and> active_tab p = Tab_preview then True else r)"

definition retain_effect :: "panel \<Rightarrow> panel" where
  "retain_effect s =
     (let p = props s; d = (active_tab p, preview_ready p, app_url p) in
      if d = deps s then s
      else s\<lparr>deps := d, forget_timer := preview_ready p \<and> active_tab p \<noteq> Tab_preview\<rparr>)"

definition render_panel :: "panel \<Rightarrow> panel" where
  "render_panel s = retain_effect (s\<lparr>retain := settle_retain (props s) (retain s)\<rparr>)"

definition mount_panel :: "panel_props \<Rightarrow> panel" where
  "mount_panel p =
     \<lparr>props = p, viewport = Desktop, refresh = 0, retain = settle_retain p False,
      forget_timer = preview_ready p \<and> active_tab p \<noteq> Tab_preview, deps = (active_tab p, preview_ready p, app_url p)\<rparr>"

definition can_reload :: "panel_props \<Rightarrow> bool" where
  "can_reload p \<longleftrightarrow> active_tab p = Tab_preview \<and> truthy_str (app_url p) \<and> panel_phase p = Phase Pv_active"

text \<open>What happens to the panel. A button that is not shown or disabled does nothing.\<close>

datatype panel_event = Props panel_props | Forget_fires | Viewport viewport | Reload_preview

definition panel_step :: "panel_event \<Rightarrow> panel \<Rightarrow> panel" where
  "panel_step e s =
     (case e of
        Props p \<Rightarrow> render_panel (s\<lparr>props := p\<rparr>)
      | Forget_fires \<Rightarrow> if forget_timer s then render_panel (s\<lparr>forget_timer := False, retain := False\<rparr>) else s
      | Viewport v \<Rightarrow> if active_tab (props s) = Tab_preview then render_panel (s\<lparr>viewport := v\<rparr>) else s
      | Reload_preview \<Rightarrow> if can_reload (props s) then render_panel (s\<lparr>refresh := refresh s + 1\<rparr>) else s)"

text \<open>What the panel shows: the stage with its \<open>iframe\<close> or a message, and the files.\<close>

definition is_preparing :: "panel_props \<Rightarrow> bool" where
  "is_preparing p \<longleftrightarrow> truthy_str (shown_revision p) \<and> (panel_phase p = Pv_checking \<or> panel_phase p = Phase Pv_opening)"

definition is_building :: "panel_props \<Rightarrow> bool" where
  "is_building p \<longleftrightarrow> building_now p \<or> panel_phase p = Phase Pv_building"

definition empty_title :: "panel_props \<Rightarrow> string" where
  "empty_title p =
     (if is_building p then ''Your app is building.''
      else if is_preparing p then ''Preparing your preview'' @ [CHR 0xE2, CHR 0x80, CHR 0xA6]
      else if truthy_str (preview_failure p) then ''Preview unavailable.''
      else if truthy_str (shown_revision p) then ''Your preview is sleeping.''
      else ''Your canvas is ready.'')"

definition empty_description :: "panel_props \<Rightarrow> string" where
  "empty_description p =
     (if is_building p then ''Follow the existing build in your conversation.''
      else if is_preparing p then ''Your saved project will appear here shortly.''
      else if truthy_str (shown_revision p) then ''Your saved files are available in Files.''
      else ''The app preview will appear when your build makes it available.'')"

definition retry_label :: "panel_props \<Rightarrow> string option" where
  "retry_label p =
     (if truthy_str (shown_revision p) \<and> \<not> is_preparing p \<and> \<not> is_building p
      then Some (if truthy_str (preview_failure p) then ''Retry'' else ''Resume preview'') else None)"

definition stage_shown :: "panel \<Rightarrow> bool" where
  "stage_shown s \<longleftrightarrow> in_view (props s) \<and> (active_tab (props s) = Tab_preview \<or> retain s)"

text \<open>The \<open>iframe\<close>: its address and, within the project, its key.\<close>

definition preview_frame :: "panel \<Rightarrow> (string \<times> nat) option" where
  "preview_frame s =
     (let p = props s in
      if stage_shown s \<and> truthy_str (app_url p) \<and> panel_phase p = Phase Pv_active \<and> \<not> is_building p
      then Some (opt_str (app_url p), refresh s) else None)"

section \<open>The composer\<close>

datatype composer_menu = File_menu | Command_menu

record composer =
  menu :: "composer_menu option"
  query :: string

definition composer_commands :: "(string \<times> string) list" where
  "composer_commands =
     [(''Improve layout'', ''Improve the layout and spacing of this app. ''),
      (''Check accessibility'', ''Review and improve the accessibility of this app. ''),
      (''Fix an issue'', ''Fix this issue in my app: ''),
      (''Explain the code'', ''Explain how the current app works. '')]"

definition choices :: "string list \<Rightarrow> composer \<Rightarrow> (string \<times> string) list" where
  "choices fs c =
     filter (\<lambda>(name, p). includes_str (to_lower (query c)) (to_lower name))
       (if menu c = Some File_menu then map (\<lambda>f. (f, ''@'' @ f @ '' '')) fs else composer_commands)"

definition close_menu :: "composer \<Rightarrow> composer" where
  "close_menu c = c\<lparr>menu := None, query := []\<rparr>"

definition open_menu :: "composer_menu \<Rightarrow> composer \<Rightarrow> composer" where
  "open_menu m c = c\<lparr>menu := Some m, query := []\<rparr>"

definition menu_shown :: "bool \<Rightarrow> bool \<Rightarrow> composer \<Rightarrow> bool" where
  "menu_shown building online c \<longleftrightarrow> menu c \<noteq> None \<and> \<not> building \<and> online"

text \<open>Choosing an entry: the new input, with a blank where the old one does not end with white space.\<close>

definition chosen_input :: "string \<Rightarrow> string \<Rightarrow> string" where
  "chosen_input typed p = typed @ (if typed \<noteq> [] \<and> \<not> white_space (last typed) then '' '' else []) @ p"

text \<open>The key Enter in the text: whether the key is taken, and whether the form is submitted.\<close>

definition enter_key :: "bool \<Rightarrow> bool \<Rightarrow> bool \<Rightarrow> bool \<Rightarrow> string \<Rightarrow> bool \<times> bool" where
  "enter_key shift composing online building typed =
     (if \<not> shift \<and> \<not> composing then (True, online \<and> \<not> building \<and> trim typed \<noteq> []) else (False, False))"

definition send_enabled :: "bool \<Rightarrow> bool \<Rightarrow> string \<Rightarrow> bool" where
  "send_enabled online building typed \<longleftrightarrow> \<not> building \<and> online \<and> trim typed \<noteq> []"

definition connection_text :: "bool \<Rightarrow> bool \<Rightarrow> string" where
  "connection_text building online =
     (if building then ''Working on your app'' else if online then ''Connected''
      else ''Reconnecting to your project'' @ [CHR 0xE2, CHR 0x80, CHR 0xA6])"

definition no_choices :: "string list \<Rightarrow> composer \<Rightarrow> string" where
  "no_choices fs c =
     (if menu c = Some File_menu \<and> fs = [] then ''Saved files will appear after your first build.''
      else ''No matches. Try a different search.'')"


section \<open>Lemmas\<close>

lemma next_fence_grows: "next_fence s = Some (a, l, b, r) \<Longrightarrow> next_fence (s @ t) = Some (a, l, b, r @ t)"
  by (auto simp: next_fence_def cut_at_grows split: option.splits prod.splits)

lemma cut_first_newline: "CHR 0x0A \<notin> set l \<Longrightarrow> cut_at newline (l @ newline @ r) = Some (l, r)"
  by (induction l) (auto simp: newline_def starts_with_def)

text \<open>A text that a fence can follow: the first fence of the two is the one that follows.\<close>

definition plain_before :: "string \<Rightarrow> bool" where
  "plain_before a \<longleftrightarrow> cut_at fence (a @ fence) = Some (a, [])"

lemma cut_first_fence: "plain_before a \<Longrightarrow> cut_at fence (a @ fence @ r) = Some (a, r)"
  using cut_at_grows [of fence "a @ fence" a "[]" r] by (simp add: plain_before_def)

fun part_text :: "answer_part \<Rightarrow> string" where
  "part_text (Prose t) = t"
| "part_text (Code l b) = fence @ l @ newline @ b @ fence"

text \<open>The text of an answer that is written block by block.\<close>

fun written :: "(string \<times> string \<times> string) list \<Rightarrow> string \<Rightarrow> string" where
  "written [] tail = tail"
| "written ((p, l, b) # bs) tail = p @ part_text (Code l b) @ written bs tail"

fun written_parts :: "(string \<times> string \<times> string) list \<Rightarrow> string \<Rightarrow> answer_part list" where
  "written_parts [] tail = [Prose tail]"
| "written_parts ((p, l, b) # bs) tail = Prose p # Code l b # written_parts bs tail"

lemma answer_parts_nonempty [simp]: "answer_parts s \<noteq> []"
  by (subst answer_parts.simps) (auto split: option.splits)

lemma answer_parts_text: "concat (map part_text (answer_parts s)) = s"
proof (induction s rule: answer_parts.induct)
  case (1 s)
  show ?case
  proof (cases "next_fence s")
    case (Some q)
    obtain a l b r where q: "q = (a, l, b, r)" by (cases q)
    with Some 1 have "concat (map part_text (answer_parts r)) = r" by blast
    moreover have "answer_parts s = Prose a # Code l b # answer_parts r" using Some q by (simp add: answer_parts.simps [of s])
    ultimately show ?thesis using Some q next_fence_split [of s a l b r] by simp
  qed (simp add: answer_parts.simps [of s])
qed

lemma answer_parts_grow: "\<exists>qs. answer_parts (s @ t) = butlast (answer_parts s) @ qs"
proof (induction s rule: answer_parts.induct)
  case (1 s)
  show ?case
  proof (cases "next_fence s")
    case (Some q)
    obtain a l b r where q: "q = (a, l, b, r)" by (cases q)
    with Some 1 obtain qs where "answer_parts (r @ t) = butlast (answer_parts r) @ qs" by blast
    with Some q next_fence_grows [of s a l b r t] show ?thesis
      by (simp add: answer_parts.simps [of s] answer_parts.simps [of "s @ t"])
  qed (simp add: answer_parts.simps [of s])
qed

lemma settle_stable: "settle_retain p (settle_retain p r) = settle_retain p r"
  by (auto simp: settle_retain_def)

text \<open>What every rendered panel satisfies: the flag is settled, and a hidden frame has its timer.\<close>

definition panel_ok :: "panel \<Rightarrow> bool" where
  "panel_ok s \<longleftrightarrow>
     retain s = settle_retain (props s) (retain s) \<and>
     deps s = (active_tab (props s), preview_ready (props s), app_url (props s)) \<and>
     (retain s \<and> active_tab (props s) = Tab_files \<longrightarrow> forget_timer s)"

lemma mount_panel_ok: "panel_ok (mount_panel p)"
  by (cases "active_tab p") (simp_all add: panel_ok_def mount_panel_def settle_retain_def)


lemma render_panel_ok:
  assumes "panel_ok s0" "deps s = deps s0" "forget_timer s = (forget_timer s0 \<and> \<not> fired)" "retain s = (retain s0 \<and> \<not> fired)"
  shows "panel_ok (render_panel s)"
proof -
  have "retain (render_panel s) = settle_retain (props s) (retain s)" "props (render_panel s) = props s"
    by (simp_all add: render_panel_def retain_effect_def Let_def)
  moreover have "deps (render_panel s) = (active_tab (props s), preview_ready (props s), app_url (props s))"
    by (auto simp: render_panel_def retain_effect_def Let_def)
  moreover have "forget_timer (render_panel s)"
    if "settle_retain (props s) (retain s)" "active_tab (props s) = Tab_files"
    using assms that by (auto simp: render_panel_def retain_effect_def Let_def settle_retain_def panel_ok_def split: if_splits)
  ultimately show ?thesis by (simp add: panel_ok_def settle_stable)
qed

lemma panel_step_ok: "panel_ok s \<Longrightarrow> panel_ok (panel_step e s)"
  by (cases e)
    (auto simp: panel_step_def intro: render_panel_ok [where fired = False] render_panel_ok [where fired = True])

interpretation paneling: closed_stepping panel_step panel_ok
  by unfold_locales (rule panel_step_ok)

lemma frame_needs_ready: "preview_frame s = Some q \<Longrightarrow> preview_ready (props s)"
  by (auto simp: preview_frame_def preview_ready_def stage_shown_def is_building_def Let_def split: if_splits)

lemma settled_frame:
  assumes "preview_ready (props s)" "retain s = settle_retain (props s) (retain s)"
  shows "preview_frame s = (if retain s then Some (opt_str (app_url (props s)), refresh s) else None)"
  using assms
  by (cases "active_tab (props s)")
    (auto simp: preview_frame_def preview_ready_def stage_shown_def is_building_def settle_retain_def Let_def split: if_splits)

text \<open>Events that leave the frame as it is: new properties with the preview ready at the same address, other widths.\<close>

definition spares_frame :: "string option \<Rightarrow> panel_event \<Rightarrow> bool" where
  "spares_frame u e = (case e of Props p \<Rightarrow> preview_ready p \<and> app_url p = u | Viewport v \<Rightarrow> True | _ \<Rightarrow> False)"

lemma spared_step:
  assumes "panel_ok s" "retain s" "preview_ready (props s)" "spares_frame (app_url (props s)) e"
  shows "retain (panel_step e s) \<and> preview_ready (props (panel_step e s)) \<and> refresh (panel_step e s) = refresh s \<and>
    app_url (props (panel_step e s)) = app_url (props s)"
  using assms
  by (auto simp: panel_step_def spares_frame_def render_panel_def retain_effect_def settle_retain_def Let_def
      split: panel_event.splits)

lemma spared_run:
  "panel_ok s \<Longrightarrow> retain s \<Longrightarrow> preview_ready (props s) \<Longrightarrow> list_all (spares_frame (app_url (props s))) es \<Longrightarrow>
   preview_frame (run_of panel_step es s) = Some (opt_str (app_url (props s)), refresh s)"
proof (induction es arbitrary: s)
  case Nil
  then show ?case by (simp add: settled_frame panel_ok_def)
next
  case (Cons e es)
  then show ?case using spared_step [of s e] panel_step_ok [of s e] by simp
qed

text \<open>Choosing a prompt keeps what was typed, and separates the two.\<close>

lemma chosen_input_keeps:
  "starts_with typed (chosen_input typed p) \<and> ends_with p (chosen_input typed p) \<and>
   (typed = [] \<or> (\<exists>w c. chosen_input typed p = w @ [c] @ p \<and> white_space c))"
  by (cases typed rule: rev_cases)
    (auto simp: chosen_input_def starts_with_iff ends_with_iff white_space_def)

lemma unstructured_fields: "record_field None k = None" "text_of None k = []"
  by (simp_all add: record_field_def text_of_def opt_str_def)


section \<open>Properties\<close>

text \<open>
  An answer is shown whole and grows at its end only: the parts it is cut into put together are its
  text, and while more of it arrives the parts before the last one stay what they are.
\<close>

theorem answer_grows_at_its_end:
  "concat (map part_text (answer_parts s)) = s \<and> (\<exists>qs. answer_parts (s @ t) = butlast (answer_parts s) @ qs)"
  using answer_parts_text answer_parts_grow by blast

text \<open>
  C29: Fences are read as they are written: an answer made of paragraphs without a fence, code with one line
  for its language and no fence inside, and a last text without a complete fence gives back exactly these.
\<close>

theorem fences_round_trip:
  assumes "list_all (\<lambda>(p, l, b). plain_before p \<and> CHR 0x0A \<notin> set l \<and> plain_before b) bs" "next_fence tail = None"
  shows "answer_parts (written bs tail) = written_parts bs tail"
  using assms
proof (induction bs)
  case Nil
  then show ?case by (simp add: answer_parts.simps [of tail])
next
  case (Cons q bs)
  obtain p l b where q: "q = (p, l, b)" by (cases q)
  with Cons(2) have "next_fence (written (q # bs) tail) = Some (p, l, b, written bs tail)"
    by (simp add: next_fence_def cut_first_fence cut_first_newline)
  then have "answer_parts (written (q # bs) tail) = Prose p # Code l b # answer_parts (written bs tail)"
    by (simp add: answer_parts.simps [of "written (q # bs) tail"])
  with Cons q show ?case by simp
qed

lemma fences_round_trip_witness:
  "answer_parts (written [(''Try'', ''js'', ''let a = 1;'' @ newline @ newline)] ''done'') =
     [Prose ''Try'', Code ''js'' (''let a = 1;'' @ newline @ newline), Prose ''done'']"
  using fences_round_trip [of "[(''Try'', ''js'', ''let a = 1;'' @ newline @ newline)]" "''done''"]
  by (simp add: plain_before_def fence_def newline_def next_fence_def starts_with_def)

text \<open>
  The recorded output of a tool is never swallowed and never shown twice: what is no structured record is
  one listing, as an error when the call failed and as output otherwise, and a structured record is shown once.
\<close>

theorem output_shown_once:
  assumes "call_output t = Some out" "out \<noteq> []"
  shows "case parsed_result t of
       None \<Rightarrow> result_parts t (present_tool t) =
         Result_listing out (if call_status t = Call_error then ''error'' else ''output'') #
         (if call_status t = Call_running then [] else [Copy_actions])
     | Some v \<Rightarrow> filter (\<lambda>q. \<exists>w. q = Recorded w) (result_parts t (present_tool t)) = [Recorded v]"
proof (cases "parsed_result t")
  case None
  with assms show ?thesis
    by (simp add: result_parts_def present_tool_def Let_def recorded_files_def nullish_or_def unstructured_fields
        strings_of_def has_terminal_def tool_error_def listing_if_def opt_str_def)
next
  case (Some v)
  have "filter (\<lambda>q. \<exists>w. q = Recorded w) (listing_if a b) = []" for a b by (simp add: listing_if_def)
  with Some show ?thesis
    by (simp add: result_parts_def present_tool_def Let_def split: option.split)
qed

lemma output_shown_once_witness:
  "result_parts (finished_call ''run'' ''plain text'') (present_tool (finished_call ''run'' ''plain text'')) =
     [Result_listing ''plain text'' ''output'', Copy_actions]"
proof -
  have "parsed_result (finished_call ''run'' ''plain text'') = None" by code_simp
  with output_shown_once [of "finished_call ''run'' ''plain text''" "''plain text''"]
  show ?thesis by (simp add: finished_call_def)
qed

text \<open>
  Only completed operations are folded away: the calls that failed or still run are among the rows shown,
  in their order, and either nothing is folded or at least four rows are and three stay.
\<close>

theorem only_successes_folded:
  "filter (\<lambda>t. call_status t \<noteq> Call_success) (drop (hidden_calls calls) calls) =
     filter (\<lambda>t. call_status t \<noteq> Call_success) calls \<and>
   (hidden_calls calls = 0 \<or> hidden_calls calls \<ge> 4 \<and> length (drop (hidden_calls calls) calls) \<ge> 3)"
proof -
  let ?ok = "\<lambda>t. call_status t = Call_success" and ?h = "hidden_calls calls"
  have le: "?h \<le> length (takeWhile ?ok calls)" and size: "?h = 0 \<or> ?h \<ge> 4 \<and> length (drop ?h calls) \<ge> 3"
    unfolding hidden_calls_def Let_def by auto
  have "take ?h calls = take ?h (takeWhile ?ok calls)"
    using le by (metis min.absorb1 take_take takeWhile_eq_take)
  then have "filter (\<lambda>t. \<not> ?ok t) (take ?h calls) = []"
    by (metis (mono_tags, lifting) filter_False in_set_takeD set_takeWhileD)
  then have "filter (\<lambda>t. \<not> ?ok t) calls = filter (\<lambda>t. \<not> ?ok t) (drop ?h calls)"
    by (metis append_Nil append_take_drop_id filter_append)
  with size show ?thesis by simp
qed

text \<open>
  C34: A frame that is hidden is bounded: in every run of the panel a frame kept while the files are shown has
  its timer running, and when the timer fires the frame is gone; the preview's frame exists only when the
  preview is ready.
\<close>

theorem hidden_frame_bounded:
  fixes es p
  defines "s \<equiv> run_of panel_step es (mount_panel p)"
  assumes "preview_frame s \<noteq> None" "active_tab (props s) = Tab_files"
  shows "preview_ready (props s) \<and> forget_timer s \<and> preview_frame (panel_step Forget_fires s) = None"
proof -
  have ok: "panel_ok s" unfolding s_def by (rule paneling.always_keeps [OF mount_panel_ok])
  have ready: "preview_ready (props s)" using assms(2) frame_needs_ready by blast
  with ok assms have kept: "retain s \<and> forget_timer s"
    by (auto simp: settled_frame panel_ok_def split: if_splits)
  have "panel_ok (panel_step Forget_fires s)" using ok by (rule panel_step_ok)
  moreover have "\<not> retain (panel_step Forget_fires s)" "props (panel_step Forget_fires s) = props s"
    using kept assms(3) by (simp_all add: panel_step_def render_panel_def retain_effect_def settle_retain_def Let_def)
  ultimately have "preview_frame (panel_step Forget_fires s) = None"
    using ready by (simp add: settled_frame panel_ok_def)
  with ready kept show ?thesis by simp
qed

definition ready_props :: panel_props where
  "ready_props = \<lparr>app_url = Some ''https://app.test'', shown_revision = Some ''r1'', building_now = False,
     active_tab = Tab_preview, in_view = True, panel_phase = Phase Pv_active, preview_failure = None\<rparr>"

definition to_files :: panel_event where "to_files = Props (ready_props\<lparr>active_tab := Tab_files\<rparr>)"

lemmas panel_eval = panel_step_def render_panel_def retain_effect_def settle_retain_def mount_panel_def preview_ready_def
  preview_frame_def stage_shown_def is_building_def spares_frame_def ready_props_def to_files_def truthy_str_def opt_str_def

lemma hidden_frame_bounded_witness:
  "preview_frame (panel_step Forget_fires (run_of panel_step [to_files] (mount_panel ready_props))) = None"
proof -
  have "preview_frame (run_of panel_step [to_files] (mount_panel ready_props)) \<noteq> None"
    and "active_tab (props (run_of panel_step [to_files] (mount_panel ready_props))) = Tab_files"
    by (simp_all add: panel_eval Let_def)
  from hidden_frame_bounded [OF this] show ?thesis by blast
qed

text \<open>
  A visit to the files keeps the preview as it is: while the preview stays ready at its address, changing
  tabs and widths any number of times leaves the same frame with the same key, until its timer fires.
\<close>

theorem files_visit_keeps_frame:
  fixes es p
  defines "s \<equiv> run_of panel_step es (mount_panel p)"
  assumes "preview_frame s = Some q" "list_all (spares_frame (app_url (props s))) es'"
  shows "preview_frame (run_of panel_step es' s) = Some q"
proof -
  have ok: "panel_ok s" unfolding s_def by (rule paneling.always_keeps [OF mount_panel_ok])
  have ready: "preview_ready (props s)" using assms(2) frame_needs_ready by blast
  with ok assms(2) have "retain s" "q = (opt_str (app_url (props s)), refresh s)"
    by (auto simp: settled_frame panel_ok_def split: if_splits)
  with spared_run [OF ok] ready assms(3) show ?thesis by simp
qed

lemma files_visit_keeps_frame_witness:
  "preview_frame (run_of panel_step [to_files, Props ready_props] (mount_panel ready_props)) = Some (''https://app.test'', 0)"
  using files_visit_keeps_frame [of "[]" ready_props "(''https://app.test'', 0)" "[to_files, Props ready_props]"]
  by (simp add: panel_eval Let_def)


end
