(* ===== verification/PageParts.thy ===== *)
theory PageParts imports Projects NewProject ChatWorkspace Dates Runs begin

text \<open>
  The components of the other pages that decide something: the theme (\<open>components/layout/ThemeProvider.tsx\<close>),
  the prompt of the landing page (\<open>landing/HeroPrompt.tsx\<close>) and the box of a new project
  (\<open>chat/ChatInputBox.tsx\<close>), the clock of the credits (\<open>profile/CreditReset.tsx\<close>), the form of the profile
  (\<open>profile/ProfileIdentityCard.tsx\<close>), the collection of projects and its dialog (\<open>projects/*.tsx\<close>), the
  folders of a tree (\<open>ui/file-tree.tsx\<close>), the divider of the workspace (\<open>chat/ChatWorkspace.tsx\<close>). What is
  drawn is given by what it shows.
\<close>

section \<open>The theme\<close>

text \<open>
  \<open>fallback\<close> is the module's \<open>fallbackLight\<close> and \<open>shown_light\<close> the last snapshot the page rendered with.
  The storage is shared by the tabs of the site, and \<open>None\<close> where the browser denies it.
\<close>

record theme_tab =
  fallback :: "bool option"
  shown_light :: bool

record themes =
  theme_store :: "storage option"
  tabs :: "theme_tab list"

definition theme_key :: string where "theme_key = ''webbuilder-theme''"

definition get_theme :: "storage option \<Rightarrow> theme_tab \<Rightarrow> bool" where
  "get_theme store t =
     (case fallback t of
        Some b \<Rightarrow> b
      | None \<Rightarrow> (case store of None \<Rightarrow> False | Some st \<Rightarrow> get_item st theme_key = Some ''light''))"

definition theme_render :: "storage option \<Rightarrow> theme_tab \<Rightarrow> theme_tab" where
  "theme_render store t = t\<lparr>shown_light := get_theme store t\<rparr>"

definition theme_toggle :: "storage option \<Rightarrow> theme_tab \<Rightarrow> storage option \<times> theme_tab" where
  "theme_toggle store t =
     (let light = \<not> shown_light t;
          (store', t') =
            (case store of
               None \<Rightarrow> (None, t\<lparr>fallback := Some light\<rparr>)
             | Some st \<Rightarrow>
                 (case set_item st theme_key (if light then ''light'' else ''dark'') of
                    Inl _ \<Rightarrow> (Some st, t\<lparr>fallback := Some light\<rparr>)
                  | Inr st' \<Rightarrow> (Some st', t\<lparr>fallback := None\<rparr>)))
      in (store', theme_render store' t'))"

text \<open>The event of another tab's write; its key is \<open>None\<close> when the whole storage was cleared.\<close>

definition theme_storage_event :: "string option \<Rightarrow> storage option \<Rightarrow> theme_tab \<Rightarrow> theme_tab" where
  "theme_storage_event key store t =
     (if key = Some theme_key \<or> key = None then theme_render store (t\<lparr>fallback := None\<rparr>) else t)"

definition document_theme :: "theme_tab \<Rightarrow> string" where
  "document_theme t = (if shown_light t then ''light'' else ''dark'')"

datatype theme_event = Theme_toggled nat | Theme_told nat "string option" | Storage_replaced "storage option"

fun theme_step :: "theme_event \<Rightarrow> themes \<Rightarrow> themes" where
  "theme_step (Theme_toggled i) w =
     (if i < length (tabs w)
      then let (s, t) = theme_toggle (theme_store w) (tabs w ! i) in w\<lparr>theme_store := s, tabs := (tabs w)[i := t]\<rparr>
      else w)"
| "theme_step (Theme_told i key) w =
     (if i < length (tabs w)
      then w\<lparr>tabs := (tabs w)[i := theme_storage_event key (theme_store w) (tabs w ! i)]\<rparr> else w)"
| "theme_step (Storage_replaced s) w = w\<lparr>theme_store := s\<rparr>"

section \<open>Beginning a project\<close>

record hero =
  hero_prompt :: string
  hero_error :: string
  hero_opening :: bool
  hero_routes :: "string list"

definition empty_hero :: hero where
  "empty_hero = \<lparr>hero_prompt = [], hero_error = [], hero_opening = False, hero_routes = []\<rparr>"

definition DRAFT_REFUSED :: string where
  "DRAFT_REFUSED =
     ''Your browser could not save this draft. Allow site storage and try again. Your text is still here.''"

text \<open>The field takes at most \<open>MAX_PROJECT_DRAFT_LENGTH\<close> characters and is read-only while the page opens.\<close>

definition hero_typed :: "string \<Rightarrow> hero \<Rightarrow> hero" where
  "hero_typed v h =
     (if hero_opening h then h else h\<lparr>hero_prompt := take MAX_PROJECT_DRAFT_LENGTH v, hero_error := []\<rparr>)"

definition hero_submit :: "storage option \<Rightarrow> hero \<Rightarrow> storage option \<times> hero" where
  "hero_submit session h =
     (if trim (hero_prompt h) = [] \<or> hero_opening h then (session, h)
      else
        let failed = h\<lparr>hero_error := DRAFT_REFUSED\<rparr> in
        case session of
          None \<Rightarrow> (None, failed)
        | Some st \<Rightarrow>
            (case set_item st PROJECT_DRAFT_KEY (trim (hero_prompt h)) of
               Inl _ \<Rightarrow> (Some st, failed)
             | Inr st' \<Rightarrow>
                 (Some (remove_item st' STARTER_KEY),
                  h\<lparr>hero_error := [], hero_opening := True, hero_routes := hero_routes h @ [''/chat'']\<rparr>)))"

definition can_open :: "hero \<Rightarrow> bool" where
  "can_open h \<longleftrightarrow> trim (hero_prompt h) \<noteq> [] \<and> \<not> hero_opening h"

record brief_box =
  box_input :: string
  show_examples :: bool

definition box_disabled :: "bool \<Rightarrow> bool \<Rightarrow> bool" where
  "box_disabled waits dis \<longleftrightarrow> waits \<or> dis"

definition toggle_examples :: "bool \<Rightarrow> bool \<Rightarrow> brief_box \<Rightarrow> brief_box" where
  "toggle_examples waits dis b = (if box_disabled waits dis then b else b\<lparr>show_examples := \<not> show_examples b\<rparr>)"

definition choose_example :: "bool \<Rightarrow> bool \<Rightarrow> brief \<Rightarrow> brief_box \<Rightarrow> brief_box" where
  "choose_example waits dis e b =
     (if box_disabled waits dis then b else b\<lparr>box_input := brief_prompt e, show_examples := False\<rparr>)"

definition can_start :: "bool \<Rightarrow> bool \<Rightarrow> brief_box \<Rightarrow> bool" where
  "can_start waits dis b \<longleftrightarrow> \<not> box_disabled waits dis \<and> trim (box_input b) \<noteq> []"

section \<open>The clock of the credits\<close>

text \<open>One instance of the effect: the deadline in milliseconds, what is shown, whether it has called \<open>onReset\<close>.\<close>

record credit_clock =
  deadline :: "int option"
  remaining :: "int option"
  completed :: bool
  interval_runs :: bool
  reset_calls :: nat

definition credit_tick :: "int \<Rightarrow> credit_clock \<Rightarrow> credit_clock" where
  "credit_tick now c =
     (case deadline c of
        None \<Rightarrow> c
      | Some d \<Rightarrow>
          let seconds = max 0 (- ((now - d) div 1000)); c1 = c\<lparr>remaining := Some seconds\<rparr>
          in if seconds = 0 \<and> \<not> completed c
             then c1\<lparr>completed := True, interval_runs := False, reset_calls := reset_calls c + 1\<rparr> else c1)"

definition credit_effect :: "string \<Rightarrow> int \<Rightarrow> credit_clock" where
  "credit_effect reset_at now =
     (let d = date_parse reset_at;
          c = \<lparr>deadline = d, remaining = None, completed = False, interval_runs = d \<noteq> None, reset_calls = 0\<rparr>
      in credit_tick now c)"

text \<open>A tick comes from the interval while it runs, and whenever the tab is shown or hidden.\<close>

datatype clock_event = Interval int | Visibility int

fun clock_step :: "clock_event \<Rightarrow> credit_clock \<Rightarrow> credit_clock" where
  "clock_step (Interval now) c = (if interval_runs c then credit_tick now c else c)"
| "clock_step (Visibility now) c = credit_tick now c"

definition pad_two :: "nat \<Rightarrow> string" where
  "pad_two n = (if length (show_nat n) < 2 then CHR ''0'' # show_nat n else show_nat n)"

definition clock_fields :: "nat \<Rightarrow> nat \<times> nat \<times> nat" where
  "clock_fields seconds = (seconds div 3600, seconds div 60 mod 60, seconds mod 60)"

definition credit_text :: "credit_clock \<Rightarrow> string option" where
  "credit_text c =
     (if deadline c = None then None
      else Some (case remaining c of
           None \<Rightarrow> ''Loading reset time'' @ [CHR 0xE2, CHR 0x80, CHR 0xA6]
         | Some s \<Rightarrow>
             if s = 0 then ''Reset available''
             else let (h, m, r) = clock_fields (nat s)
               in ''Resets in '' @ pad_two h @ ''h '' @ pad_two m @ ''m '' @ pad_two r @ ''s''))"

section \<open>The form of the profile\<close>

record card =
  editing :: bool
  card_name :: string
  card_bio :: string
  restore_focus :: bool

definition card_dirty :: "user_data \<Rightarrow> card \<Rightarrow> bool" where
  "card_dirty u c \<longleftrightarrow> trim (card_name c) \<noteq> user_name u \<or> trim (card_bio c) \<noteq> opt_str (user_bio u)"

definition card_edit :: "bool \<Rightarrow> user_data \<Rightarrow> card \<Rightarrow> card" where
  "card_edit busy u c =
     (if busy \<or> editing c then c
      else c\<lparr>card_name := user_name u, card_bio := opt_str (user_bio u), editing := True, restore_focus := False\<rparr>)"

definition card_typed :: "bool \<Rightarrow> string \<Rightarrow> string \<Rightarrow> card \<Rightarrow> card" where
  "card_typed busy name bio c =
     (if busy \<or> \<not> editing c then c else c\<lparr>card_name := take 100 name, card_bio := take 280 bio\<rparr>)"

definition card_close :: "card \<Rightarrow> card" where
  "card_close c = c\<lparr>restore_focus := True, editing := False\<rparr>"

text \<open>Escape and the button Cancel; the shown button takes the focus back and clears the flag.\<close>

definition card_cancel :: "bool \<Rightarrow> card \<Rightarrow> card" where
  "card_cancel busy c = (if busy \<or> \<not> editing c then c else card_close c)"

definition card_save :: "bool \<Rightarrow> user_data \<Rightarrow> card \<Rightarrow> (string \<times> string) option" where
  "card_save busy u c =
     (if \<not> editing c \<or> busy \<or> \<not> card_dirty u c \<or> trim (card_name c) = [] then None
      else Some (trim (card_name c), trim (card_bio c)))"

definition card_saved :: "bool \<Rightarrow> card \<Rightarrow> card" where
  "card_saved ok c = (if ok then card_close c else c)"

definition initials :: "string \<Rightarrow> string" where
  "initials name = map (\<lambda>w. upper_char (hd w)) (take 2 (words_of (trim name)))"

section \<open>The collection of projects\<close>

text \<open>
  What the page adds to the hook's state: the title of the dialog, how it moves, the project of the running
  \<open>deleteProject\<close>. \<open>detail\<close> is that of the click, 0 from the keyboard.
\<close>

datatype motion = Opening | Closing | Still

record shelf =
  coll :: collection
  delete_title :: string
  dialog_motion :: motion
  request_of :: "project option"

definition delete_clicked :: "project \<Rightarrow> nat \<Rightarrow> shelf \<Rightarrow> shelf" where
  "delete_clicked p detail s =
     (if deleting_id (coll s) \<noteq> None then s
      else s\<lparr>coll := (coll s)\<lparr>delete_error := [], pending_delete := Some p\<rparr>, delete_title := title p,
             dialog_motion := (if detail > 0 then Opening else Still)\<rparr>)"

definition dialog_open :: "shelf \<Rightarrow> bool" where
  "dialog_open s \<longleftrightarrow> pending_delete (coll s) \<noteq> None"

definition dialog_closes :: "shelf \<Rightarrow> shelf" where
  "dialog_closes s =
     (if dialog_open s \<and> deleting_id (coll s) = None then s\<lparr>coll := (coll s)\<lparr>pending_delete := None\<rparr>\<rparr> else s)"

definition dialog_confirm :: "shelf \<Rightarrow> shelf" where
  "dialog_confirm s =
     (if \<not> dialog_open s \<or> deleting_id (coll s) \<noteq> None then s
      else let (q, c) = start_delete (coll s) in s\<lparr>coll := c, request_of := q\<rparr>)"

definition delete_answered :: "string \<Rightarrow> (string option, deletion) result \<Rightarrow> shelf \<Rightarrow> shelf" where
  "delete_answered pathname outcome s =
     (case request_of s of
        None \<Rightarrow> s
      | Some p \<Rightarrow> s\<lparr>coll := finish_delete pathname p outcome (coll s), request_of := None\<rparr>)"

definition try_again :: "shelf \<Rightarrow> shelf" where
  "try_again s = s\<lparr>coll := (coll s)\<lparr>loading := True, load_error := [], attempt := attempt (coll s) + 1\<rparr>\<rparr>"

datatype shelf_event =
    Delete_clicked project nat | Dialog_closed | Confirmed | Delete_answered string "(string option, deletion) result"
  | Loaded bool "(unit, project list) result" | Try_again | Filters_reset | Query string | Pointer_down | Key_down

fun shelf_step :: "shelf_event \<Rightarrow> shelf \<Rightarrow> shelf" where
  "shelf_step (Delete_clicked p n) s = delete_clicked p n s"
| "shelf_step Dialog_closed s = dialog_closes s"
| "shelf_step Confirmed s = dialog_confirm s"
| "shelf_step (Delete_answered path r) s = delete_answered path r s"
| "shelf_step (Loaded b r) s = s\<lparr>coll := finish_load b r (coll s)\<rparr>"
| "shelf_step Try_again s = try_again s"
| "shelf_step Filters_reset s = s\<lparr>coll := reset_filters (coll s)\<rparr>"
| "shelf_step (Query q) s = s\<lparr>coll := (coll s)\<lparr>col_query := q\<rparr>\<rparr>"
| "shelf_step Pointer_down s = s\<lparr>dialog_motion := Closing\<rparr>"
| "shelf_step Key_down s = s\<lparr>dialog_motion := Still\<rparr>"

definition new_shelf :: shelf where
  "new_shelf = \<lparr>coll = empty_collection, delete_title = [], dialog_motion = Still, request_of = None\<rparr>"

definition status_line :: "nat \<Rightarrow> collection \<Rightarrow> string option" where
  "status_line seen c =
     (if loading c \<or> load_error c \<noteq> [] then None
      else let n = length (projects c) in
        Some (if narrowed c then show_nat seen @ '' of '' @ show_nat n @ '' projects''
              else show_nat n @ '' '' @ (if n = 1 then ''project'' else ''projects'')))"

datatype shelf_view = Skeleton | Load_failed string | No_projects | No_matches | Cards "project list"

definition shelf_view :: "project list \<Rightarrow> collection \<Rightarrow> shelf_view" where
  "shelf_view seen c =
     (if loading c then Skeleton else if load_error c \<noteq> [] then Load_failed (load_error c)
      else if seen = [] then (if projects c = [] then No_projects else No_matches) else Cards seen)"

section \<open>Folders and the divider\<close>

definition toggle_folder :: "string \<Rightarrow> string list \<Rightarrow> string list" where
  "toggle_folder i items = (if i \<in> set items then filter (\<lambda>j. j \<noteq> i) items else items @ [i])"

definition resize_key :: "bool \<Rightarrow> layout \<Rightarrow> layout" where
  "resize_key left st = st\<lparr>preview_width := max 30 (min 80 (preview_width st + (if left then 5 else -5)))\<rparr>"

definition aria_value :: "layout \<Rightarrow> real" where
  "aria_value st = 100 - preview_width st"

definition workspace_tab :: "layout \<Rightarrow> layout" where
  "workspace_tab st = st\<lparr>show_preview := True, mobile_pane := ''preview''\<rparr>"

definition toggle_workspace :: "layout \<Rightarrow> layout" where
  "toggle_workspace st = st\<lparr>show_preview := \<not> show_preview st, mobile_pane := ''chat''\<rparr>"

datatype divider_event = Dragged layout_event | Arrow_pressed bool | Workspace_tab | Preview_toggled

fun divider_step :: "divider_event \<Rightarrow> layout \<Rightarrow> layout" where
  "divider_step (Dragged e) st = layout_step st e"
| "divider_step (Arrow_pressed left) st = resize_key left st"
| "divider_step Workspace_tab st = workspace_tab st"
| "divider_step Preview_toggled st = toggle_workspace st"

text \<open>The line that tells of a running build whose message is not there yet.\<close>

definition build_line :: "bool \<Rightarrow> string option \<Rightarrow> message list \<Rightarrow> bool" where
  "build_line builds run ms \<longleftrightarrow>
     builds \<and> \<not> (\<exists>m \<in> set ms. msg_id m = ''run:'' @ (case run of None \<Rightarrow> ''null'' | Some r \<Rightarrow> r))"


section \<open>Lemmas\<close>

lemma stored_theme_read: "set_item st theme_key v = Inr st' \<Longrightarrow> get_item st' theme_key = Some v"
  using items.get_put [of st theme_key v st' theme_key] by simp

lemma theme_toggle_shown: "shown_light (snd (theme_toggle store t)) = (\<not> shown_light t)"
  by (auto simp: theme_toggle_def theme_render_def get_theme_def Let_def stored_theme_read split: option.split sum.split)

lemma ceil_zero: "max 0 (- ((now - d) div 1000)) = (0 :: int) \<longleftrightarrow> d \<le> now"
proof -
  have "0 \<le> (now - d) div 1000 \<longleftrightarrow> 0 \<le> now - d" by (rule pos_imp_zdiv_nonneg_iff) simp
  then show ?thesis by linarith
qed

fun time_of :: "clock_event \<Rightarrow> int" where
  "time_of (Interval now) = now"
| "time_of (Visibility now) = now"

text \<open>The clock has called back once, exactly when one of its times has reached the deadline.\<close>

definition clock_ok :: "int \<Rightarrow> bool \<Rightarrow> credit_clock \<Rightarrow> bool" where
  "clock_ok d due c \<longleftrightarrow>
     deadline c = Some d \<and> completed c = due \<and> interval_runs c = (\<not> due) \<and> reset_calls c = (if due then 1 else 0)"

lemma credit_tick_ok: "clock_ok d due c \<Longrightarrow> clock_ok d (due \<or> d \<le> now) (credit_tick now c)"
  by (auto simp: clock_ok_def credit_tick_def Let_def ceil_zero)

lemma clock_run_ok:
  "clock_ok d due c \<Longrightarrow>
   clock_ok d (due \<or> (\<exists>e \<in> set es. d \<le> time_of e)) (run_of clock_step es c)"
proof (induction es arbitrary: c due)
  case Nil
  then show ?case by simp
next
  case (Cons e es)
  show ?case
  proof (cases e)
    case (Interval now)
    show ?thesis
    proof (cases due)
      case True
      with Cons.prems Interval have "clock_step e c = c" by (simp add: clock_ok_def)
      with True Cons.prems Cons.IH [of True c] show ?thesis by simp
    next
      case False
      with Cons.prems Interval have "clock_step e c = credit_tick now c" by (simp add: clock_ok_def)
      with credit_tick_ok [OF Cons.prems, of now] Cons.IH [of "due \<or> d \<le> now" "clock_step e c"] Interval False
      show ?thesis by (simp add: disj_assoc)
    qed
  next
    case (Visibility now)
    with credit_tick_ok [OF Cons.prems, of now] Cons.IH [of "due \<or> d \<le> now" "clock_step e c"]
    show ?thesis by (simp add: disj_assoc)
  qed
qed

lemma clock_fields_sum:
  assumes "clock_fields s = (h, m, r)"
  shows "h * 3600 + m * 60 + r = s \<and> m < 60 \<and> r < 60"
proof -
  from assms have "h = s div 60 div 60" "m = s div 60 mod 60" "r = s mod 60"
    by (auto simp: clock_fields_def div_mult2_eq [symmetric])
  then have "m + 60 * h = s div 60" "r + 60 * (s div 60) = s" "m < 60" "r < 60" by simp_all
  then show ?thesis by linarith
qed

text \<open>The dialog is about one project: the one its title names, and the one that is being deleted.\<close>

definition shelf_ok :: "shelf \<Rightarrow> bool" where
  "shelf_ok s \<longleftrightarrow>
     (case pending_delete (coll s) of None \<Rightarrow> deleting_id (coll s) = None \<and> request_of s = None
      | Some p \<Rightarrow> delete_title s = title p \<and>
          (request_of s = None \<and> deleting_id (coll s) = None \<or>
           request_of s = Some p \<and> deleting_id (coll s) = Some (project_id p)))"

lemma shelf_step_ok: "shelf_ok s \<Longrightarrow> shelf_ok (shelf_step e s)"
  by (cases e)
    (auto simp: shelf_ok_def delete_clicked_def dialog_closes_def dialog_open_def dialog_confirm_def start_delete_def
      delete_answered_def finish_delete_def finish_load_def try_again_def reset_filters_def Let_def truthy_str_def
      split: option.splits sum.splits if_splits)

interpretation shelving: closed_stepping shelf_step shelf_ok
  by unfold_locales (rule shelf_step_ok)

text \<open>The divider stays where the assistive range says it is.\<close>

definition divider_ok :: "layout \<Rightarrow> bool" where
  "divider_ok st \<longleftrightarrow> 30 \<le> preview_width st \<and> preview_width st \<le> 80"

lemma divider_step_ok: "divider_ok st \<Longrightarrow> divider_ok (divider_step e st)"
proof (cases e)
  case (Dragged ev)
  moreover assume "divider_ok st"
  ultimately show ?thesis
    by (cases ev) (auto simp: divider_ok_def mouse_move_def mouse_up_def Let_def split: option.split)
qed (auto simp: divider_ok_def resize_key_def workspace_tab_def toggle_workspace_def)

interpretation dividing: closed_stepping divider_step divider_ok
  by unfold_locales (rule divider_step_ok)

lemma toggle_folder_set: "set (toggle_folder i items) = (if i \<in> set items then set items - {i} else insert i (set items))"
  by (auto simp: toggle_folder_def)

lemma toggle_folder_twice: "set (toggle_folder i (toggle_folder i items)) = set items"
  by (auto simp: toggle_folder_set)


section \<open>Properties\<close>

text \<open>
  C21: A brief typed on the landing page reaches the workspace: submitting it either opens the page of a new
  project, which then begins with exactly that brief, whatever else the tab has stored, or the browser refused
  to store it, and then nothing is lost: the text stays, the reason is shown, the page is not left.
\<close>

theorem landing_brief_arrives:
  assumes "can_open h" "length (hero_prompt h) \<le> MAX_PROJECT_DRAFT_LENGTH"
  shows "case hero_submit session h of (session', h') \<Rightarrow>
    (if hero_opening h'
     then hero_routes h' = hero_routes h @ [''/chat''] \<and> choose_draft None token session' = (trim (hero_prompt h), session')
     else session' = session \<and> hero_prompt h' = hero_prompt h \<and> hero_error h' = DRAFT_REFUSED \<and>
       hero_routes h' = hero_routes h)"
proof -
  have short: "take MAX_PROJECT_DRAFT_LENGTH (trim (hero_prompt h)) = trim (hero_prompt h)"
    using assms(2) length_trim [of "hero_prompt h"] by (simp add: le_trans)
  have arrives: "choose_draft None token (Some (remove_item st' STARTER_KEY)) =
      (trim (hero_prompt h), Some (remove_item st' STARTER_KEY))"
    if "set_item st PROJECT_DRAFT_KEY (trim (hero_prompt h)) = Inr st'" for st st'
  proof -
    have "get_item (remove_item st' STARTER_KEY) PROJECT_DRAFT_KEY = Some (trim (hero_prompt h))"
      using items.get_put [OF that, of PROJECT_DRAFT_KEY] by (simp add: items.get_del PROJECT_DRAFT_KEY_def STARTER_KEY_def)
    then show ?thesis
      using assms(1) short by (simp add: choose_draft_def can_open_def opt_str_def truthy_str_def Let_def)
  qed
  show ?thesis
    using assms(1) arrives by (auto simp: hero_submit_def can_open_def Let_def split: option.split sum.split)
qed

lemma landing_brief_arrives_witness:
  "hero_opening (snd (hero_submit (Some (empty_storage 500)) (hero_typed ''a shop '' empty_hero))) \<and>
   fst (choose_draft None None (fst (hero_submit (Some (empty_storage 500)) (hero_typed ''a shop '' empty_hero)))) = ''a shop''"
proof -
  have t: "trim ''a shop '' = ''a shop''" by code_simp
  have o: "hero_opening (snd (hero_submit (Some (empty_storage 500)) (hero_typed ''a shop '' empty_hero)))"
    by code_simp
  have "can_open (hero_typed ''a shop '' empty_hero)"
    and "length (hero_prompt (hero_typed ''a shop '' empty_hero)) \<le> MAX_PROJECT_DRAFT_LENGTH"
    by (simp_all add: can_open_def hero_typed_def empty_hero_def MAX_PROJECT_DRAFT_LENGTH_def t)
  from landing_brief_arrives [OF this, where session = "Some (empty_storage 500)" and token = None] o t show ?thesis
    by (auto simp: hero_typed_def empty_hero_def MAX_PROJECT_DRAFT_LENGTH_def split: prod.splits)
qed

text \<open>
  The theme's switch always switches, also where the storage refuses the write, and a choice that was stored
  reaches the other tabs: a tab that is told of the write shows the same theme, whatever it showed before.
\<close>

theorem theme_reaches_other_tabs:
  assumes "theme_toggle store t = (store', t')"
  shows "document_theme t' \<noteq> document_theme t \<and>
    (fallback t' \<noteq> None \<or> document_theme (theme_storage_event (Some theme_key) store' u) = document_theme t')"
proof -
  have "shown_light t' = (\<not> shown_light t)" using theme_toggle_shown [of store t] assms by simp
  moreover have "shown_light t' = get_theme store' t'"
    using assms by (auto simp: theme_toggle_def theme_render_def get_theme_def Let_def split: option.splits sum.splits)
  ultimately show ?thesis
    by (cases "fallback t'") (simp_all add: document_theme_def theme_storage_event_def theme_render_def get_theme_def)
qed

definition dark_tab :: theme_tab where "dark_tab = \<lparr>fallback = None, shown_light = False\<rparr>"

lemma theme_reaches_other_tabs_witness:
  "document_theme (theme_storage_event (Some theme_key) (fst (theme_toggle (Some (empty_storage 100)) dark_tab)) dark_tab) = ''light''"
proof -
  have "fallback (snd (theme_toggle (Some (empty_storage 100)) dark_tab)) = None"
    and "document_theme (snd (theme_toggle (Some (empty_storage 100)) dark_tab)) = ''light''" by code_simp+
  with theme_reaches_other_tabs [of "Some (empty_storage 100)" dark_tab _ _ dark_tab, OF surjective_pairing]
  show ?thesis by simp
qed

text \<open>
  The credits are asked for once: however the ticks of the interval and of the tab's visibility come,
  \<open>onReset\<close> has been called exactly once if one of them reached the deadline, and not at all before; the
  hours, minutes and seconds shown are those that are left.
\<close>

theorem credits_reset_once:
  assumes "date_parse reset_at = Some d"
  shows "reset_calls (run_of clock_step es (credit_effect reset_at now)) =
      (if list_ex (\<lambda>t. d \<le> t) (now # map time_of es) then 1 else 0) \<and>
    (case clock_fields s of (h, m, r) \<Rightarrow> h * 3600 + m * 60 + r = s \<and> m < 60 \<and> r < 60)"
proof -
  have "clock_ok d False \<lparr>deadline = Some d, remaining = None, completed = False, interval_runs = True, reset_calls = 0\<rparr>"
    by (simp add: clock_ok_def)
  from credit_tick_ok [OF this, of now] have "clock_ok d (d \<le> now) (credit_effect reset_at now)"
    using assms by (simp add: credit_effect_def Let_def)
  from clock_run_ok [OF this, of es] have "reset_calls (run_of clock_step es (credit_effect reset_at now)) =
      (if list_ex (\<lambda>t. d \<le> t) (now # map time_of es) then 1 else 0)"
    by (simp add: clock_ok_def list_ex_iff)
  moreover obtain h m r where "clock_fields s = (h, m, r)" by (cases "clock_fields s")
  ultimately show ?thesis using clock_fields_sum [of s h m r] by simp
qed

lemma credits_reset_once_witness:
  "reset_calls (run_of clock_step [Interval 5, Visibility 2000, Interval 3000, Visibility 9000]
     (credit_effect ''1970-01-01T00:00:00.000Z'' (- 5000))) = 1"
  using credits_reset_once [OF date_parse_epoch, of "[Interval 5, Visibility 2000, Interval 3000, Visibility 9000]" "- 5000" 0]
  by simp

text \<open>
  C27: The dialog tells the truth: in every run of the page the project whose title the open dialog shows is the
  one that confirming deletes and, while it is being deleted, the one of the request; nothing closes the dialog or
  turns it to another project meanwhile.
\<close>

theorem dialog_names_what_is_deleted:
  fixes es
  defines "s \<equiv> run_of shelf_step es new_shelf"
  shows "case pending_delete (coll s) of
      None \<Rightarrow> request_of s = None \<and> dialog_confirm s = s
    | Some p \<Rightarrow> delete_title s = title p \<and> request_of (dialog_confirm s) = Some p \<and>
        (request_of s = None \<or>
         pending_delete (coll (shelf_step e s)) = Some p \<and> delete_title (shelf_step e s) = title p \<or>
         (\<exists>path r. e = Delete_answered path r))"
proof -
  have ok: "shelf_ok s"
    unfolding s_def by (rule shelving.always_keeps) (simp add: shelf_ok_def new_shelf_def empty_collection_def)
  then show ?thesis
    by (cases e)
      (auto simp: shelf_ok_def dialog_confirm_def dialog_open_def start_delete_def truthy_str_def opt_str_def delete_clicked_def
        dialog_closes_def finish_load_def try_again_def reset_filters_def Let_def split: option.split sum.split)
qed

text \<open>
  The divider stays inside the range it announces, however it is dragged or moved with the arrow keys: the
  value that is read aloud is between 20 and 70.
\<close>

theorem divider_in_announced_range:
  "20 \<le> aria_value (run_of divider_step es initial_layout) \<and> aria_value (run_of divider_step es initial_layout) \<le> 70"
  using dividing.always_keeps [of initial_layout es]
  by (simp add: divider_ok_def initial_layout_def aria_value_def)

text \<open>
  The form of the profile asks for a change only when there is one: what it sends is trimmed, has a name,
  differs from what is stored, and the hook passes it on as it is; while a request runs nothing is sent.
\<close>

theorem profile_form_sends_changes:
  assumes "card_save busy u c = Some (n, b)"
  shows "\<not> busy \<and> n \<noteq> [] \<and> (n \<noteq> user_name u \<or> b \<noteq> opt_str (user_bio u)) \<and>
    (pf_busy pf \<or> fst (start_save_profile n b pf) = Some (update_profile_call n b))"
  using assms
  by (auto simp: card_save_def card_dirty_def start_save_profile_def Let_def split: if_splits)


definition plain_user :: user_data where
  "plain_user = \<lparr>user_id = 1, user_email = ''a@b.c'', user_name = ''Ann'', tokens_remaining = 3, tokens_reset_at = None,
     credits_unlimited = None, user_bio = None, email_verified = None, user_created_at = None, user_providers = None,
     user_allowance = None\<rparr>"

definition empty_profile :: profile where
  "empty_profile = \<lparr>pf_user = None, pf_options = None, pf_busy = False, pf_error = [], pf_message = [], pf_attempt = 0,
     pf_route = None, pf_hash_cleared = False\<rparr>"

lemma profile_form_sends_changes_witness:
  "''Ann Lee'' \<noteq> user_name plain_user \<and>
   (fst (start_save_profile ''Ann Lee'' [] empty_profile) = Some (update_profile_call ''Ann Lee'' []))"
proof -
  have "card_save False plain_user \<lparr>editing = True, card_name = ''Ann Lee '', card_bio = [], restore_focus = False\<rparr> =
      Some (''Ann Lee'', [])"
    by code_simp
  from profile_form_sends_changes [OF this, of empty_profile] show ?thesis by (simp add: plain_user_def empty_profile_def)
qed

end
