(* ===== verification/BrowserCheck.thy ===== *)
theory BrowserCheck imports Prelude begin

text \<open>
  \<open>agent/browser-check.cjs\<close>, the check the agent runs on a preview: the arguments, the two viewports,
  the visit of the page in each and the report. Playwright and the page are the record \<open>visit\<close>:
  what each awaited call gives (\<open>Inl\<close> the message of what it throws) and which events the page fires
  while that call is awaited. \<open>new URL\<close> is the record \<open>urls\<close>.
\<close>

section \<open>The browser\<close>

datatype page_event = Page_error string | Console_message string string

record response =
  rs_status :: nat
  rs_ok :: bool

text \<open>A text node under the root: whether line 54 lets it pass, and its text.\<close>

type_synonym text_node = "bool \<times> string"

record visit =
  vi_open :: "(string, unit) result"
  vi_goto :: "(string, response option) result"
  vi_landed :: string
  vi_overlays :: "(string, nat) result"
  vi_root :: "(string, nat \<times> nat \<times> text_node list) result"
  vi_title :: "(string, string) result"
  vi_shot :: "(string, nat) result"
  vi_write :: "(string, unit) result"
  vi_close :: "(string, unit) result"
  vi_events :: "nat \<Rightarrow> page_event list"

record urls =
  resolve :: "string \<Rightarrow> (string, string) result"
  origin :: "string \<Rightarrow> string"

definition LOCAL_ORIGIN :: string where
  "LOCAL_ORIGIN = ''http://127.0.0.1:5173''"

section \<open>Collecting errors and text\<close>

definition add_error :: "string \<Rightarrow> string list \<Rightarrow> string list" where
  "add_error message errors = (if length errors < 10 then errors @ [take 500 message] else errors)"

definition add_if :: "bool \<Rightarrow> string \<Rightarrow> string list \<Rightarrow> string list" where
  "add_if b message errors = (if b then add_error message errors else errors)"

definition on_event :: "bool \<Rightarrow> string list \<Rightarrow> page_event \<Rightarrow> string list" where
  "on_event inspecting errors e =
     (case e of
        Page_error m \<Rightarrow> add_error m errors
      | Console_message kind m \<Rightarrow> add_if (inspecting \<and> kind = ''error'') m errors)"

definition deliver :: "bool \<Rightarrow> page_event list \<Rightarrow> string list \<Rightarrow> string list" where
  "deliver inspecting es errors = foldl (on_event inspecting) errors es"

fun walk_text :: "nat \<Rightarrow> string \<Rightarrow> text_node list \<Rightarrow> string" where
  "walk_text visited t [] = t"
| "walk_text visited t ((shown, s) # ns) =
     (if length t \<ge> 2000 \<or> visited \<ge> 5000 then t
      else if \<not> shown then walk_text (visited + 1) t ns
      else walk_text (visited + 1) (t @ '' '' @ take (2000 - length t) s) ns)"

fun collapse_spaces :: "string \<Rightarrow> string" where
  "collapse_spaces [] = []"
| "collapse_spaces (c # s) =
     (if white_space c
      then (case s of [] \<Rightarrow> '' '' | d # _ \<Rightarrow> if white_space d then collapse_spaces s else CHR '' '' # collapse_spaces s)
      else c # collapse_spaces s)"

definition visible_text :: "text_node list \<Rightarrow> string" where
  "visible_text ns = take 2000 (collapse_spaces (trim (walk_text 0 [] ns)))"

section \<open>One viewport\<close>

record observation =
  ob_viewport :: string
  ob_width :: nat
  ob_height :: nat
  ob_status :: "nat option option"
  ob_content :: "(bool \<times> string \<times> string) option"

definition viewports :: "(string \<times> nat \<times> nat) list" where
  "viewports = [(''desktop'', 1280, 800), (''mobile'', 390, 844)]"

text \<open>Lines 26 to 33: which requests of the inspected page go through.\<close>

definition request_allowed :: "urls \<Rightarrow> bool \<Rightarrow> string \<Rightarrow> bool" where
  "request_allowed u navigation url \<longleftrightarrow> \<not> (navigation \<and> origin u url \<noteq> LOCAL_ORIGIN)"

text \<open>Lines 61 to 71, once the content of the root is known.\<close>

definition finish_page ::
  "bool \<Rightarrow> string option \<Rightarrow> visit \<Rightarrow> bool \<times> string \<Rightarrow> string list \<Rightarrow> observation \<Rightarrow> string list \<times> observation \<times> string option" where
  "finish_page inspecting shot v content errors obs =
     (let errors1 = add_if (snd content = ''Ready to build'') ''Preview still shows the untouched starter page''
                      (add_if (\<not> fst content) ''React root did not render'' errors);
          titled = (if inspecting
                    then (let errors2 = deliver inspecting (vi_events v 3) errors1 in
                          case vi_title v of
                            Inl m \<Rightarrow> (errors2, obs, Some m)
                          | Inr t \<Rightarrow> (errors2, obs\<lparr>ob_content := Some (fst content, snd content, take 200 t)\<rparr>, None))
                    else (errors1, obs, None))
      in case titled of
           (errors2, obs2, Some m) \<Rightarrow> titled
         | (errors2, obs2, None) \<Rightarrow>
             if \<not> truthy_str shot then titled
             else
               let errors3 = deliver inspecting (vi_events v 4) errors2 in
               (case vi_shot v of
                  Inl m \<Rightarrow> (errors3, obs2, Some m)
                | Inr bytes \<Rightarrow>
                    if bytes > 200000 then (errors3, obs2, Some ''Screenshot exceeds the 200 KB limit'')
                    else (case vi_write v of Inl m \<Rightarrow> (errors3, obs2, Some m) | Inr _ \<Rightarrow> (errors3, obs2, None))))"

text \<open>Lines 40 to 71: the errors, the observation and what was thrown.\<close>

definition check_page ::
  "urls \<Rightarrow> string \<Rightarrow> bool \<Rightarrow> string option \<Rightarrow> visit \<Rightarrow> string list \<Rightarrow> observation \<Rightarrow> string list \<times> observation \<times> string option" where
  "check_page u path inspecting shot v errors obs =
     (case resolve u path of
        Inl m \<Rightarrow> (errors, obs, Some m)
      | Inr href \<Rightarrow>
          if origin u href \<noteq> LOCAL_ORIGIN then (errors, obs, Some ''Only local preview paths are allowed'')
          else
            let errors1 = deliver inspecting (vi_events v 0) errors in
            case vi_goto v of
              Inl m \<Rightarrow> (errors1, obs, Some m)
            | Inr response \<Rightarrow>
                if origin u (vi_landed v) \<noteq> LOCAL_ORIGIN
                then (errors1, obs, Some ''Preview navigated outside the local app'')
                else
                  let obs1 = obs\<lparr>ob_status := Some (map_option rs_status response)\<rparr>;
                      ok = (case response of None \<Rightarrow> False | Some r \<Rightarrow> rs_ok r);
                      errors2 = deliver inspecting (vi_events v 1) (add_if (\<not> ok) ''Preview HTTP failure'' errors1)
                  in case vi_overlays v of
                       Inl m \<Rightarrow> (errors2, obs1, Some m)
                     | Inr n \<Rightarrow>
                         let errors3 = deliver inspecting (vi_events v 2) (add_if (n > 0) ''Vite error overlay'' errors2) in
                         case vi_root v of
                           Inl m \<Rightarrow> (errors3, obs1, Some m)
                         | Inr (children, height, nodes) \<Rightarrow>
                             finish_page inspecting shot v (children > 0 \<and> height > 0, visible_text nodes) errors3 obs1)"

definition visit_viewport ::
  "urls \<Rightarrow> string \<Rightarrow> bool \<Rightarrow> string option \<Rightarrow> visit \<Rightarrow> string \<times> nat \<times> nat \<Rightarrow>
   string list \<times> observation list \<Rightarrow> (string, string list \<times> observation list) result" where
  "visit_viewport u path inspecting shot v viewport st =
     (let (name, width, height) = viewport; (errors, pages) = st;
          obs = \<lparr>ob_viewport = name, ob_width = width, ob_height = height, ob_status = None, ob_content = None\<rparr>
      in bind_result (vi_open v) (\<lambda>_.
           let (errors1, obs1, thrown) = check_page u path inspecting shot v errors obs;
               errors2 = (case thrown of None \<Rightarrow> errors1 | Some m \<Rightarrow> add_error m errors1);
               pages1 = (if inspecting then pages @ [obs1] else pages)
           in bind_result (vi_close v) (\<lambda>_. Inr (deliver inspecting (vi_events v 5) errors2, pages1))))"

section \<open>The whole check\<close>

datatype report =
    Preflight_ok
  | Crashed string
  | Report bool "string list" "observation list option"

definition arg :: "string list \<Rightarrow> nat option \<Rightarrow> nat \<Rightarrow> string option" where
  "arg argv k n =
     (case k of None \<Rightarrow> None | Some i \<Rightarrow> if i + n < length argv then Some (argv ! (i + n)) else None)"

fun visit_all ::
  "urls \<Rightarrow> string \<Rightarrow> bool \<Rightarrow> string option \<Rightarrow> string option \<Rightarrow> (string \<Rightarrow> visit) \<Rightarrow> (string \<times> nat \<times> nat) list \<Rightarrow>
   string list \<times> observation list \<Rightarrow> (string, string list \<times> observation list) result" where
  "visit_all u path inspecting requested shot browse [] st = Inr st"
| "visit_all u path inspecting requested shot browse (vp # vps) st =
     (if inspecting \<and> Some (fst vp) \<noteq> requested then visit_all u path inspecting requested shot browse vps st
      else bind_result (visit_viewport u path inspecting shot (browse (fst vp)) vp st)
             (visit_all u path inspecting requested shot browse vps))"

text \<open>\<open>browse\<close> is the visit of each viewport's page; the launch of the browser has succeeded.\<close>

definition browser_check :: "urls \<Rightarrow> (string \<Rightarrow> visit) \<Rightarrow> string list \<Rightarrow> report" where
  "browser_check u browse argv =
     (let k = find_index (\<lambda>a. a = ''--inspect'') argv; inspecting = (k \<noteq> None);
          path = (if inspecting then str_or (opt_str (arg argv k 2)) ''/'' else ''/'');
          shot = (if inspecting then arg argv k 3 else None)
      in if ''--preflight'' \<in> set argv then Preflight_ok
         else case visit_all u path inspecting (arg argv k 1) shot browse viewports ([], []) of
           Inl m \<Rightarrow> Crashed m
         | Inr (errors, pages) \<Rightarrow>
             let errors1 = add_if (inspecting \<and> pages = []) ''Unknown viewport'' errors in
             Report (errors1 = []) errors1 (if inspecting then Some pages else None))"

definition exit_code :: "report \<Rightarrow> nat" where
  "exit_code r = (case r of Preflight_ok \<Rightarrow> 0 | Crashed _ \<Rightarrow> 1 | Report _ errors _ \<Rightarrow> if errors = [] then 0 else 1)"

section \<open>Lemmas\<close>

lemma add_error_nonempty [simp]: "add_error m es \<noteq> []"
  by (auto simp: add_error_def)

lemma add_if_empty [simp]: "add_if b m es = [] \<longleftrightarrow> es = [] \<and> \<not> b"
  by (simp add: add_if_def)

definition quiet :: "page_event list \<Rightarrow> bool" where
  "quiet es \<longleftrightarrow> (\<forall>m. Page_error m \<notin> set es)"

lemma deliver_empty [simp]: "deliver False es errors = [] \<longleftrightarrow> errors = [] \<and> quiet es"
proof -
  have "on_event False errors e = [] \<longleftrightarrow> errors = [] \<and> (\<forall>m. e \<noteq> Page_error m)" for errors e
    by (cases e) (auto simp: on_event_def)
  then show ?thesis unfolding deliver_def quiet_def
    by (induction es arbitrary: errors) auto
qed

definition errors_bounded :: "string list \<Rightarrow> bool" where
  "errors_bounded es \<longleftrightarrow> length es \<le> 10 \<and> (\<forall>m \<in> set es. length m \<le> 500)"

lemma errors_bounded_add [simp]:
  "errors_bounded es \<Longrightarrow> errors_bounded (add_error m es)" "errors_bounded es \<Longrightarrow> errors_bounded (add_if b m es)"
  by (auto simp: errors_bounded_def add_error_def add_if_def)

lemma errors_bounded_deliver [simp]: "errors_bounded errors \<Longrightarrow> errors_bounded (deliver insp es errors)"
proof -
  have "errors_bounded errors \<Longrightarrow> errors_bounded (on_event insp errors e)" for errors e
    by (simp add: on_event_def split: page_event.split)
  then show "errors_bounded errors \<Longrightarrow> ?thesis" unfolding deliver_def
    by (induction es arbitrary: errors) auto
qed

definition observation_bounded :: "observation \<Rightarrow> bool" where
  "observation_bounded obs \<longleftrightarrow>
     (case ob_content obs of None \<Rightarrow> True | Some (r, t, title) \<Rightarrow> length t \<le> 2000 \<and> length title \<le> 200)"

lemma finish_page_bounded:
  assumes "finish_page insp shot v content errors obs = (e, ob, t)" and "errors_bounded errors" and "observation_bounded obs"
    and "length (snd content) \<le> 2000"
  shows "errors_bounded e \<and> observation_bounded ob"
  using assms
  by (auto simp: finish_page_def Let_def observation_bounded_def split: if_splits sum.splits option.splits prod.splits)

lemma check_page_bounded:
  assumes "check_page u path insp shot v errors obs = (e, ob, t)" and "errors_bounded errors" and "observation_bounded obs"
  shows "errors_bounded e \<and> observation_bounded ob"
proof -
  have obs: "observation_bounded (obs\<lparr>ob_status := s\<rparr>)" for s using assms(3) by (simp add: observation_bounded_def)
  have short: "length (visible_text ns) \<le> 2000" for ns by (simp add: visible_text_def)
  show ?thesis using assms(1) assms(2,3) obs short
    by (auto simp: check_page_def Let_def split: if_splits sum.splits prod.splits dest!: finish_page_bounded)
qed

lemma visit_viewport_bounded:
  assumes "visit_viewport u path insp shot v vp (errors, pages) = Inr (e, ps)" and "errors_bounded errors"
    and "\<forall>ob \<in> set pages. observation_bounded ob"
  shows "errors_bounded e \<and> (\<forall>ob \<in> set ps. observation_bounded ob)"
proof -
  obtain name w h where vp: "vp = (name, w, h)" by (cases vp) auto
  let ?obs = "\<lparr>ob_viewport = name, ob_width = w, ob_height = h, ob_status = None, ob_content = None\<rparr>"
  obtain e1 ob1 t where page: "check_page u path insp shot v errors ?obs = (e1, ob1, t)" by (metis prod_cases3)
  have "errors_bounded e1 \<and> observation_bounded ob1"
    by (rule check_page_bounded [OF page assms(2)]) (simp add: observation_bounded_def)
  then show ?thesis using assms(1,3) page
    by (auto simp: visit_viewport_def vp bind_result_Inr_iff split: option.splits if_splits)
qed

lemma visit_all_bounded:
  assumes "visit_all u path insp req shot browse vps st = Inr (e, ps)" and "errors_bounded (fst st)"
    and "\<forall>ob \<in> set (snd st). observation_bounded ob"
  shows "errors_bounded e \<and> (\<forall>ob \<in> set ps. observation_bounded ob)"
  using assms
proof (induction vps arbitrary: st)
  case (Cons vp vps)
  show ?case
  proof (cases "insp \<and> Some (fst vp) \<noteq> req")
    case True
    with Cons show ?thesis by simp
  next
    case False
    with Cons.prems(1) obtain st1 where st1: "visit_viewport u path insp shot (browse (fst vp)) vp st = Inr st1"
      "visit_all u path insp req shot browse vps st1 = Inr (e, ps)"
      by (auto simp: bind_result_Inr_iff)
    have "errors_bounded (fst st1) \<and> (\<forall>ob \<in> set (snd st1). observation_bounded ob)"
      using visit_viewport_bounded [of u path insp shot "browse (fst vp)" vp "fst st" "snd st" "fst st1" "snd st1"] st1(1) Cons.prems(2,3)
      by simp
    with Cons.IH [OF st1(2)] show ?thesis by blast
  qed
qed simp

text \<open>A visit without inspection that leaves no error.\<close>

definition clean_visit :: "urls \<Rightarrow> string \<Rightarrow> visit \<Rightarrow> bool" where
  "clean_visit u path v \<longleftrightarrow>
     (\<exists>href r c h ns. resolve u path = Inr href \<and> origin u href = LOCAL_ORIGIN \<and> vi_goto v = Inr (Some r) \<and> rs_ok r \<and>
        origin u (vi_landed v) = LOCAL_ORIGIN \<and> vi_overlays v = Inr 0 \<and> vi_root v = Inr (c, h, ns) \<and> 0 < c \<and> 0 < h \<and>
        visible_text ns \<noteq> ''Ready to build'') \<and>
     (\<forall>k \<in> {0, 1, 2, 5}. quiet (vi_events v k)) \<and> vi_open v = Inr () \<and> vi_close v = Inr ()"

lemma finish_page_clean:
  "finish_page False None v content errors obs =
     (add_if (snd content = ''Ready to build'') ''Preview still shows the untouched starter page''
        (add_if (\<not> fst content) ''React root did not render'' errors), obs, None)"
  by (simp add: finish_page_def truthy_str_def opt_str_def)

lemma visit_viewport_clean:
  "(\<exists>ps'. visit_viewport u path False None v vp (errors, ps) = Inr ([], ps')) \<longleftrightarrow> errors = [] \<and> clean_visit u path v"
proof -
  obtain name w h where vp: "vp = (name, w, h)" by (cases vp) auto
  show ?thesis
    by (simp add: visit_viewport_def vp bind_result_Inr_iff clean_visit_def check_page_def finish_page_clean Let_def
        split: sum.split option.split prod.split) auto
qed

section \<open>Properties\<close>

text \<open>
  What the check prints is bounded whatever the page does: at most ten errors of at most 500
  characters, per inspected viewport at most 2000 characters of text and 200 of title; the check is
  \<open>ok\<close> exactly when it has no error, and only then the process exits with 0.
\<close>

theorem browser_report_bounded:
  assumes "browser_check u browse argv = Report ok errors pages"
  shows "length errors \<le> 10 \<and> (\<forall>m \<in> set errors. length m \<le> 500) \<and>
    (\<forall>ps. \<forall>ob \<in> set ps. \<forall>r t title. pages = Some ps \<longrightarrow> ob_content ob = Some (r, t, title) \<longrightarrow>
       length t \<le> 2000 \<and> length title \<le> 200) \<and>
    (ok \<longleftrightarrow> errors = []) \<and> (exit_code (browser_check u browse argv) = 0 \<longleftrightarrow> ok)"
proof -
  let ?k = "find_index (\<lambda>a. a = ''--inspect'') argv"
  let ?insp = "?k \<noteq> None" let ?path = "if ?insp then str_or (opt_str (arg argv ?k 2)) ''/'' else ''/''"
  let ?shot = "if ?insp then arg argv ?k 3 else None"
  have "\<exists>e ps. visit_all u ?path ?insp (arg argv ?k 1) ?shot browse viewports ([], []) = Inr (e, ps) \<and>
      Report ok errors pages = (let errors1 = add_if (?insp \<and> ps = []) ''Unknown viewport'' e in
         Report (errors1 = []) errors1 (if ?insp then Some ps else None))"
    using assms unfolding browser_check_def Let_def by (simp split: if_splits sum.splits prod.splits)
  then obtain e ps where all: "visit_all u ?path ?insp (arg argv ?k 1) ?shot browse viewports ([], []) = Inr (e, ps)"
    and out: "errors = add_if (?insp \<and> ps = []) ''Unknown viewport'' e" "ok = (errors = [])" "pages = (if ?insp then Some ps else None)"
    unfolding Let_def by blast
  have "errors_bounded e \<and> (\<forall>ob \<in> set ps. observation_bounded ob)"
    using visit_all_bounded [OF all] by (simp add: errors_bounded_def)
  then have "errors_bounded errors" "\<forall>ob \<in> set ps. observation_bounded ob" using out(1) by simp_all
  then show ?thesis using out(2,3) assms
    by (auto simp: errors_bounded_def observation_bounded_def exit_code_def split: if_splits)
qed

text \<open>
  The check without arguments is green exactly when it should be: for both viewports the page
  opened and closed, came from the local preview with a successful response, showed no error overlay,
  rendered something that is not the untouched starter page, and fired no page error.
\<close>

theorem green_check_iff:
  assumes "''--inspect'' \<notin> set argv" and "''--preflight'' \<notin> set argv"
  shows "browser_check u browse argv = Report True [] None \<longleftrightarrow>
    clean_visit u ''/'' (browse ''desktop'') \<and> clean_visit u ''/'' (browse ''mobile'')"
proof -
  have "find_index (\<lambda>a. a = ''--inspect'') argv = None" using assms(1) by (auto simp: find_index_None)
  then have "browser_check u browse argv = Report True [] None \<longleftrightarrow>
      (\<exists>ps. visit_all u ''/'' False (arg argv None 1) None browse viewports ([], []) = Inr ([], ps))"
    using assms(2) by (auto simp: browser_check_def Let_def add_if_def arg_def split: sum.split)
  also have "\<dots> \<longleftrightarrow> (\<exists>st ps. visit_viewport u ''/'' False None (browse ''desktop'') (''desktop'', 1280, 800) ([], []) = Inr st \<and>
      visit_viewport u ''/'' False None (browse ''mobile'') (''mobile'', 390, 844) st = Inr ([], ps))"
    by (auto simp: viewports_def bind_result_Inr_iff)
  also have "\<dots> \<longleftrightarrow> clean_visit u ''/'' (browse ''desktop'') \<and> clean_visit u ''/'' (browse ''mobile'')"
    using visit_viewport_clean [of u "''/''" "browse ''desktop''" "(''desktop'', 1280, 800)" "[]" "[]"]
      visit_viewport_clean [of u "''/''" "browse ''mobile''" "(''mobile'', 390, 844)"]
    by (metis prod.collapse)
  finally show ?thesis .
qed

definition sample_visit :: "page_event list \<Rightarrow> visit" where
  "sample_visit es =
     \<lparr>vi_open = Inr (), vi_goto = Inr (Some \<lparr>rs_status = 200, rs_ok = True\<rparr>), vi_landed = LOCAL_ORIGIN,
      vi_overlays = Inr 0, vi_root = Inr (1, 600, [(True, ''Hello''), (False, ''hidden'')]), vi_title = Inr ''App'',
      vi_shot = Inr 1000, vi_write = Inr (), vi_close = Inr (), vi_events = (\<lambda>k. if k = 1 then es else [])\<rparr>"

definition sample_urls :: urls where
  "sample_urls = \<lparr>resolve = (\<lambda>p. Inr (LOCAL_ORIGIN @ p)), origin = (\<lambda>h. take 21 h)\<rparr>"

lemma browser_report_bounded_witness:
  "browser_check sample_urls (\<lambda>vp. sample_visit [Page_error ''boom'']) [''node'', ''check''] =
     Report False [''boom'', ''boom''] None \<and>
   exit_code (browser_check sample_urls (\<lambda>vp. sample_visit [Page_error ''boom'']) [''node'', ''check'']) \<noteq> 0"
proof -
  have r: "browser_check sample_urls (\<lambda>vp. sample_visit [Page_error ''boom'']) [''node'', ''check''] =
     Report False [''boom'', ''boom''] None" by code_simp
  with browser_report_bounded [OF r] show ?thesis by simp
qed

lemma green_check_iff_witness:
  "clean_visit sample_urls ''/'' (sample_visit [])"
proof -
  have r: "browser_check sample_urls (\<lambda>vp. sample_visit []) [''node'', ''check''] = Report True [] None" by code_simp
  from green_check_iff [of "[''node'', ''check'']" sample_urls "\<lambda>vp. sample_visit []"] r show ?thesis by simp
qed

end
