(* ===== verification/Spec2Isabelle.thy ===== *)
theory Spec2Isabelle
  imports ContentCache FileTree Messages RunEvents AuthSession HttpClient Services Projects NewProject
    PreviewLifecycle FileViewer ChatConnection AuthHooks ToolPresentation ChatWorkspace
    LiveSession LiveDom LiveIgnores LiveInsert LiveMarkdown LiveReload LiveResume LiveDurable LiveLifecycle LiveRestore LiveAnnot LiveSteer LivePick
    LiveDetect LivePlace LiveProps LiveAnchor LiveClean LiveCapture LiveDesign ChatParts PageParts BrowserCheck
begin

text \<open>
  A web builder: users describe an application in a chat, an agent in a sandbox writes it, the
  page shows the run, the files and a running preview. This development models the JavaScript and
  TypeScript of the repository that carries logic: the frontend under \<open>src/frontend\<close> (its libraries,
  services, hooks and socket handler), the live overlay of the agent's design skill under
  \<open>src/agent/skills/impeccable/scripts\<close>, and the agent's browser check \<open>src/agent/browser-check.cjs\<close>.

  Conventions. A JavaScript string is a list of characters, one per code unit; an object or \<open>Map\<close>
  whose order matters is an association list with distinct keys (\<open>omap\<close>); what can throw returns
  \<open>Inl\<close> the error or \<open>Inr\<close> the value; \<open>undefined\<close> and \<open>null\<close> are \<open>None\<close> unless the code tells them apart.
  React state, refs and module variables of one hook or module are the fields of one record, each
  handler, effect, timer or answer of the server is one function on it, and a run is a list of such
  events applied in any order, so that every interleaving is a run. Network, router and drawing
  calls are recorded in lists the properties can read.

  Shared theories. \<open>Prelude\<close>: result type, strings, numerals, ordered maps, prototype lookups, the
  stable sort. \<open>Runs\<close>: runs of events and the locales of their invariants. \<open>Json\<close>: JSON values, printer, parser and their round trip. \<open>Dates\<close>: the comparison of
  ISO timestamps. \<open>Storage\<close>: \<open>localStorage\<close> and \<open>sessionStorage\<close> with a quota, behind the locale
  \<open>web_storage\<close>, interpreted there on the model.

  The frontend. \<open>ContentCache\<close> (\<open>lib/files/contentCache.ts\<close>): the cache of file contents, its eviction
  loop as a function with a measure, so that it ends. \<open>FileTree\<close> (\<open>lib/files/tree.ts\<close>). \<open>FileViewer\<close>
  (\<open>hooks/files\<close>): selection and loading, a client of the cache through a locale. \<open>Messages\<close>
  (\<open>lib/chat/messages.ts\<close>) and \<open>RunEvents\<close> (\<open>socket/handleChatEvent.ts\<close>): what frames do to the list of
  messages. \<open>ChatConnection\<close> (\<open>hooks/chat/useChatConnection.ts\<close>): the socket that delivers them.
  \<open>ChatWorkspace\<close> (\<open>hooks/chat/useChatWorkspace.ts\<close>, \<open>useWorkspaceLayout.ts\<close>), \<open>NewProject\<close>
  (\<open>hooks/chat/useNewProject.ts\<close>), \<open>Projects\<close> (\<open>lib/projects/filters.ts\<close>, \<open>hooks/projects\<close>),
  \<open>ToolPresentation\<close> (\<open>lib/tool-presentation.ts\<close>). \<open>AuthSession\<close> (\<open>lib/auth/session.ts\<close>) over \<open>Storage\<close>;
  \<open>HttpClient\<close> (\<open>lib/http/client.ts\<close>): token renewal, other tabs included; \<open>Services\<close>
  (\<open>services/*.ts\<close>): the requests; \<open>AuthHooks\<close> (\<open>hooks/auth\<close>, \<open>hooks/profile\<close>): the forms.
  \<open>PreviewLifecycle\<close> (\<open>hooks/preview/usePreviewLifecycle.ts\<close>): polling, startup and backoff. Of the components,
  those that decide something: \<open>ChatParts\<close> (\<open>components/chat\<close>: answers and their fences, tools and their
  results, the kept frame of the preview, the composer) and \<open>PageParts\<close> (the theme across tabs, the landing
  page's draft, the clock of the credits, the profile's form, the delete dialog, the divider).

  The live overlay. \<open>LiveSession\<close>, \<open>LiveDom\<close> and \<open>LiveIgnores\<close> are the files
  \<open>live-browser-session.js\<close>, \<open>live-browser-dom.js\<close> and \<open>live-browser-ignores.js\<close>. Of \<open>live-browser.js\<close>:
  \<open>LiveInsert\<close> (phases, insertion geometry, cursor), \<open>LiveMarkdown\<close> (the Markdown of the design
  panel), \<open>LiveReload\<close> (recovery from the wrappers of handled sessions), \<open>LiveResume\<close> (saving, restoring
  and resuming a session, checkpoints). The life of a session is one state \<open>cycle\<close> over what the page
  offers (\<open>stage\<close>), both in \<open>LiveParams\<close> with the parameters; \<open>LiveCycle\<close> shows, switches and ends
  (\<open>cleanup\<close>, \<open>resetSvelteComponentSession\<close>, orphans); \<open>LiveMount\<close> mounts component previews, several
  in flight and answered in any order; \<open>LiveSource\<close> reads the source where there is no hot reload;
  \<open>LiveEvents\<close> has the observer, the messages of the server, go, accept and discard, and the step
  relation \<open>live_step\<close> of them all; \<open>LiveLifecycle\<close> the properties of its runs. \<open>LiveDurable\<close> refines
  the session object to an abstract store. The copy editor works on the page as a tree of nodes:
  \<open>LivePage\<close> (what can be edited, the spans around mixed content), \<open>LiveRefs\<close> (names of elements and
  their lookup), \<open>LiveEdit\<close> (opening, typing, cancelling, staging), \<open>LiveRestore\<close> (putting discarded edits
  back); \<open>LiveApply\<close> is the dock that applies what is staged, with its buttons, requests, messages and
  the state that \<open>sessionStorage\<close> keeps across reloads. \<open>LiveAnnot\<close> is the overlay of pins and strokes
  drawn on the picked element, \<open>LiveSteer\<close> the chat that steers the whole page by text or voice.
  \<open>LivePick\<close> is how an element or a place is chosen: mouse, clicks and keys in the two modes, what is remembered
  of the modes, the selection and the way back out; \<open>LiveDetect\<close> is the switch of the detector with its scans.
  \<open>LivePlace\<close> is the lock of the scroll position, the loop that follows the element and the places of the floating
  parts; \<open>LiveProps\<close> finds the values a previewed Svelte component is given: the source without its blocks, the
  expressions read off the page, the items, conditions and texts of a contract. \<open>LiveAnchor\<close> finds the element of a
  session again and the modules of a preview; \<open>LiveClean\<close> has the timers and observers that repair the page after an
  accept or a discard. \<open>LiveCapture\<close> decides what an element is captured on and which tone the shader takes,
  \<open>LiveDesign\<close> what the design panel asks for, keeps and shows.

  The agent's check. \<open>BrowserCheck\<close> is \<open>browser-check.cjs\<close>; what the page does is an input.

  What is shown. Each theory ends with its properties, marked \<open>C\<close> and a number where they are among the
  ones listed for the development. They are invariants over all interleavings (one renewal per
  session, one socket, one startup per attempt, at most two reloads for one session), round trips
  (a saved session is restored with its progress, a draft survives the sign-in, escaped text reads
  back, a cancelled or discarded copy edit leaves the page as it was), equivalence with a specification (globs and the language they denote, the check is green
  exactly for clean visits), a refinement (the session object is a store of one session, eight
  handled ids and a revision), bounds, and the behaviour on every error path (outages keep
  credentials, a login is saved completely or not at all, a variant that does not load keeps its
  session).

  Fuel and bounds. Only the JSON parser uses fuel, one more than the length of its input; the round
  trip shows that it is enough for every printed value, and what it returns is always well formed. All other functions terminate by structure
  or by a measure.

  Not modelled. Rendering: JSX, the building and styling of the overlay's bars, tooltips, popovers and tiles,
  shaders and the capturing library, which draw with browser interfaces what the modelled parts decide, and the landing page
  and design prototypes, which are presentation; UI kit wrappers and configuration; the scoping of styles
  (\<open>scopeCssBlock\<close>) and \<open>commitAcceptedVariantToDom\<close> of the overlay, which nothing calls; the Python backend, the
  sandbox image and deployment, which are not in the modelled languages; vendored scripts. Axios, the router, the
  socket, \<open>localeCompare\<close>, \<open>URL\<close>, the HTML parser, module imports and Playwright are inputs of the models.
\<close>

end
